(* ===== verification/Prelude.thy ===== *)
theory Prelude
  imports "HOL-Library.Word"
begin

text \<open>
  Shared vocabulary of the development: Python byte strings and text, the errors the backend
  raises, sequencing of fallible code, fixed-width big-endian integers (\<^verbatim>\<open>struct.pack\<close>,
  \<^verbatim>\<open>int.to_bytes\<close>), cells of a SQLite row, and the generic lemmas on lists of rows that the
  component theories use.
\<close>

named_theorems result_simps \<open>what it means for sequenced fallible code to succeed or fail\<close>
named_theorems row_simps \<open>lookups after an update of a list of rows\<close>

section \<open>Types\<close>

type_synonym byte = "8 word"
type_synonym bytes = "byte list"

text \<open>Python text is a list of code points; lone surrogates are possible values of it.\<close>

type_synonym ustr = "nat list"

text \<open>Times are microseconds since the epoch, the resolution of the stored timestamps.\<close>

type_synonym time = int

text \<open>
  A SQLite column holds any value whatever its declared type. \<open>Good\<close> is a value of the type the
  model declares; \<open>Corrupt r\<close> is any other value, with \<open>r\<close> the place SQLite's comparison gives
  it among the good values of an ordered column.
\<close>

datatype 'a cell = Good 'a | Corrupt int

section \<open>Errors\<close>

text \<open>
  The error classes of the vault core (\<^verbatim>\<open>errors.py\<close>, \<^verbatim>\<open>helpers.py\<close>) and the Python and
  SQLAlchemy exceptions the modelled code lets through. Messages are left out.
\<close>

datatype error =
    InvalidRequest
  | Forbidden
  | InvalidKey
  | NotFound
  | SessionRequired
  | VaultBusy
  | VaultDamaged
  | DecryptionFailed
  | UnsupportedKdf
  | BackupFormatError
  | IntegrityError
  | ValueError
  | OverflowError
  | StructError
  | RuntimeError
  | RateLimitExceeded

section \<open>Sequencing fallible code\<close>

definition andThen :: "'e + 'a \<Rightarrow> ('a \<Rightarrow> 'e + 'b) \<Rightarrow> 'e + 'b" where
  "andThen r f = (case r of Inl e \<Rightarrow> Inl e | Inr x \<Rightarrow> f x)"

definition ensure :: "bool \<Rightarrow> 'e \<Rightarrow> 'e + unit" where
  "ensure c e = (if c then Inr () else Inl e)"

definition orElse :: "'a option \<Rightarrow> 'e \<Rightarrow> 'e + 'a" where
  "orElse x e = (case x of None \<Rightarrow> Inl e | Some y \<Rightarrow> Inr y)"

text \<open>\<^verbatim>\<open>try: ... except (e1, ...): raise e\<close> around a pure computation.\<close>

definition catching :: "('e \<Rightarrow> 'e) \<Rightarrow> 'e + 'a \<Rightarrow> 'e + 'a" where
  "catching h r = (case r of Inl e \<Rightarrow> Inl (h e) | Inr x \<Rightarrow> Inr x)"

primrec is_ok :: "'e + 'a \<Rightarrow> bool" where
  "is_ok (Inl e) = False"
| "is_ok (Inr x) = True"

lemma andThen_simps [simp]:
  "andThen (Inl e) f = Inl e"
  "andThen (Inr x) f = f x"
  by (simp_all add: andThen_def)

lemma andThen_Inr [result_simps]:
  "andThen r f = Inr y \<longleftrightarrow> (\<exists>x. r = Inr x \<and> f x = Inr y)"
  by (cases r) auto

lemma andThen_Inl [result_simps]:
  "andThen r f = Inl e \<longleftrightarrow> r = Inl e \<or> (\<exists>x. r = Inr x \<and> f x = Inl e)"
  by (cases r) auto

lemma ensure_Inr [result_simps]: "ensure c e = Inr u \<longleftrightarrow> c"
  by (simp add: ensure_def)

lemma ensure_Inl [result_simps]: "ensure c e = Inl e' \<longleftrightarrow> \<not> c \<and> e' = e"
  by (auto simp: ensure_def)

lemma ensure_simps [simp]: "ensure True e = Inr ()" "ensure False e = Inl e"
  by (simp_all add: ensure_def)

lemma orElse_Inr [result_simps]: "orElse x e = Inr y \<longleftrightarrow> x = Some y"
  by (cases x) (auto simp: orElse_def)

lemma orElse_Inl [result_simps]: "orElse x e = Inl e' \<longleftrightarrow> x = None \<and> e' = e"
  by (cases x) (auto simp: orElse_def)

lemma orElse_simps [simp]: "orElse None e = Inl e" "orElse (Some y) e = Inr y"
  by (simp_all add: orElse_def)

lemma catching_Inr [result_simps]: "catching h r = Inr y \<longleftrightarrow> r = Inr y"
  by (cases r) (auto simp: catching_def)

lemma catching_Inl [result_simps]: "catching h r = Inl e \<longleftrightarrow> (\<exists>e'. r = Inl e' \<and> e = h e')"
  by (cases r) (auto simp: catching_def)

lemma catching_simps [simp]: "catching h (Inl e) = Inl (h e)" "catching h (Inr x) = Inr x"
  by (simp_all add: catching_def)

lemma is_ok_iff: "is_ok r \<longleftrightarrow> (\<exists>x. r = Inr x)"
  by (cases r) auto

text \<open>A loop that stops at the first error: \<^verbatim>\<open>for x in xs: s = f(x, s)\<close>.\<close>

fun fold_res :: "('x \<Rightarrow> 's \<Rightarrow> 'e + 's) \<Rightarrow> 'x list \<Rightarrow> 's \<Rightarrow> 'e + 's" where
  "fold_res f [] s = Inr s"
| "fold_res f (x # xs) s = andThen (f x s) (fold_res f xs)"

text \<open>\<^verbatim>\<open>[f(x) for x in xs]\<close> where \<^verbatim>\<open>f\<close> may raise.\<close>

fun map_res :: "('x \<Rightarrow> 'e + 'y) \<Rightarrow> 'x list \<Rightarrow> 'e + 'y list" where
  "map_res f [] = Inr []"
| "map_res f (x # xs) =
     andThen (f x) (\<lambda>y. andThen (map_res f xs) (\<lambda>ys. Inr (y # ys)))"

lemma map_res_Inr: "map_res f xs = Inr ys \<longleftrightarrow> list_all2 (\<lambda>x y. f x = Inr y) xs ys"
proof (induction xs arbitrary: ys)
  case (Cons x xs)
  then show ?case by (cases ys) (auto simp: result_simps)
qed auto

lemma fold_res_invariant:
  assumes "fold_res f xs s = Inr t" and "P s"
    and "\<And>x s t. x \<in> set xs \<Longrightarrow> P s \<Longrightarrow> f x s = Inr t \<Longrightarrow> P t"
  shows "P t"
  using assms
proof (induction xs arbitrary: s)
  case (Cons x xs)
  then obtain u where "f x s = Inr u" and "fold_res f xs u = Inr t"
    by (auto simp: result_simps)
  with Cons.prems(2,3) Cons.IH [of u] show ?case by auto
qed simp

section \<open>Fixed-width big-endian integers\<close>

text \<open>\<open>be n x\<close> is the \<open>n\<close>-byte big-endian form of \<open>x\<close>; \<open>un_be\<close> reads it back.\<close>

fun be :: "nat \<Rightarrow> nat \<Rightarrow> bytes" where
  "be 0 x = []"
| "be (Suc n) x = be n (x div 256) @ [word_of_nat (x mod 256)]"

definition un_be :: "bytes \<Rightarrow> nat" where
  "un_be bs = foldl (\<lambda>acc b. acc * 256 + unat b) 0 bs"

lemma length_be [simp]: "length (be n x) = n"
  by (induction n arbitrary: x) auto

lemma be_eq_Nil [simp]: "be n x = [] \<longleftrightarrow> n = 0"
  by (metis length_0_conv length_be)

lemma un_be_Nil [simp]: "un_be [] = 0"
  by (simp add: un_be_def)

lemma un_be_snoc [simp]: "un_be (bs @ [b]) = un_be bs * 256 + unat b"
  by (simp add: un_be_def)

lemma unat_byte_mod [simp]: "unat (word_of_nat (x mod 256) :: byte) = x mod 256"
  by (simp add: unat_of_nat)

lemma un_be_be: "x < 256 ^ n \<Longrightarrow> un_be (be n x) = x"
proof (induction n arbitrary: x)
  case (Suc n)
  then have "x div 256 < 256 ^ n"
    by (simp add: less_mult_imp_div_less mult.commute)
  with Suc.IH show ?case by simp
qed simp

lemma be_un_be: "length bs = n \<Longrightarrow> be n (un_be bs) = bs"
proof (induction bs arbitrary: n rule: rev_induct)
  case (snoc b bs)
  have "unat b < 256"
    using unsigned_less [of b] by simp
  then have "un_be (bs @ [b]) div 256 = un_be bs" "un_be (bs @ [b]) mod 256 = unat b"
    by simp_all
  with snoc show ?case by auto
qed simp

lemma un_be_less: "un_be bs < 256 ^ length bs"
proof (induction bs rule: rev_induct)
  case (snoc b bs)
  have "unat b < 256"
    using unsigned_less [of b] by simp
  with snoc show ?case by auto
qed simp

lemma be_inject: "x < 256 ^ n \<Longrightarrow> y < 256 ^ n \<Longrightarrow> be n x = be n y \<longleftrightarrow> x = y"
  by (metis un_be_be)

text \<open>\<^verbatim>\<open>struct.pack\<close> of an unsigned field refuses a value outside the field's range.\<close>

definition pack_u :: "nat \<Rightarrow> int \<Rightarrow> error + bytes" where
  "pack_u n x = (if 0 \<le> x \<and> x < 256 ^ n then Inr (be n (nat x)) else Inl StructError)"

lemma pack_u_Inr: "pack_u n x = Inr bs \<longleftrightarrow> 0 \<le> x \<and> x < 256 ^ n \<and> bs = be n (nat x)"
  by (auto simp: pack_u_def)

lemma un_be_pack_u: "pack_u n x = Inr bs \<Longrightarrow> int (un_be bs) = x"
proof -
  assume "pack_u n x = Inr bs"
  then have x: "0 \<le> x" "x < 256 ^ n" and bs: "bs = be n (nat x)"
    by (auto simp: pack_u_Inr)
  from x have "nat x < 256 ^ n"
    by (metis nat_less_iff of_nat_numeral of_nat_power)
  with x bs show ?thesis by (simp add: un_be_be)
qed

text \<open>ASCII literals of the source as bytes and as text.\<close>

definition ascii :: "string \<Rightarrow> bytes" where
  "ascii s = map (\<lambda>c. word_of_nat (of_char c)) s"

lemma length_ascii [simp]: "length (ascii s) = length s"
  by (simp add: ascii_def)

section \<open>Lists of rows\<close>

text \<open>
  A table is the list of its rows in primary-key order; \<open>key\<close> reads a row's primary key.
  \<open>row_of\<close> is \<^verbatim>\<open>session.get\<close>, \<open>upsert\<close> stores a row under its key.
\<close>

definition row_of :: "('r \<Rightarrow> 'k) \<Rightarrow> 'k \<Rightarrow> 'r list \<Rightarrow> 'r option" where
  "row_of key k rows = find (\<lambda>r. key r = k) rows"

definition set_row :: "('r \<Rightarrow> 'k) \<Rightarrow> 'r \<Rightarrow> 'r list \<Rightarrow> 'r list" where
  "set_row key r rows = map (\<lambda>x. if key x = key r then r else x) rows"

definition del_row :: "('r \<Rightarrow> 'k) \<Rightarrow> 'k \<Rightarrow> 'r list \<Rightarrow> 'r list" where
  "del_row key k rows = filter (\<lambda>x. key x \<noteq> k) rows"

definition upsert :: "('r \<Rightarrow> 'k) \<Rightarrow> 'r \<Rightarrow> 'r list \<Rightarrow> 'r list" where
  "upsert key r rows =
     (if row_of key (key r) rows = None then rows @ [r] else set_row key r rows)"

lemma row_of_Nil [simp]: "row_of key k [] = None"
  by (simp add: row_of_def)

lemma row_of_Cons [simp]:
  "row_of key k (r # rows) = (if key r = k then Some r else row_of key k rows)"
  by (simp add: row_of_def)

lemma row_of_append [row_simps]:
  "row_of key k (xs @ ys) = (case row_of key k xs of None \<Rightarrow> row_of key k ys | Some r \<Rightarrow> Some r)"
  by (induction xs) auto

lemma row_of_Some: "row_of key k rows = Some r \<Longrightarrow> r \<in> set rows \<and> key r = k"
  by (induction rows) (auto split: if_splits)

lemma row_of_None: "row_of key k rows = None \<longleftrightarrow> k \<notin> key ` set rows"
  by (induction rows) auto

lemma row_of_in_set:
  "distinct (map key rows) \<Longrightarrow> r \<in> set rows \<Longrightarrow> row_of key (key r) rows = Some r"
  by (induction rows) auto

lemma row_of_iff:
  "distinct (map key rows) \<Longrightarrow> row_of key k rows = Some r \<longleftrightarrow> r \<in> set rows \<and> key r = k"
  using row_of_Some row_of_in_set by metis

lemma row_of_set_row [row_simps]:
  "row_of key k (set_row key r rows) =
     (if key r = k \<and> row_of key k rows \<noteq> None then Some r else row_of key k rows)"
  by (induction rows) (auto simp: set_row_def)

lemma row_of_del_row [row_simps]:
  "row_of key k (del_row key j rows) = (if k = j then None else row_of key k rows)"
  by (induction rows) (auto simp: del_row_def)

lemma row_of_upsert [row_simps]:
  "row_of key k (upsert key r rows) = (if k = key r then Some r else row_of key k rows)"
  by (auto simp: upsert_def row_simps split: option.splits)

lemma keys_set_row [simp]: "map key (set_row key r rows) = map key rows"
  by (induction rows) (auto simp: set_row_def)

lemma distinct_del_row: "distinct (map key rows) \<Longrightarrow> distinct (map key (del_row key k rows))"
  by (simp add: del_row_def distinct_map_filter)

lemma distinct_upsert: "distinct (map key rows) \<Longrightarrow> distinct (map key (upsert key r rows))"
  by (auto simp: upsert_def row_of_None image_iff)

lemma set_del_row: "set (del_row key k rows) = {r \<in> set rows. key r \<noteq> k}"
  by (auto simp: del_row_def)

lemma set_set_row:
  "set (set_row key r rows) =
     {x \<in> set rows. key x \<noteq> key r} \<union> (if key r \<in> key ` set rows then {r} else {})"
  by (induction rows) (auto simp: set_row_def)

lemma set_upsert:
  "set (upsert key r rows) = insert r {x \<in> set rows. key x \<noteq> key r}"
  by (auto simp: upsert_def set_set_row row_of_None image_iff)

lemma filter_key:
  "distinct (map key rows) \<Longrightarrow> filter (\<lambda>r. key r = k \<and> Q r) rows =
     (case row_of key k rows of None \<Rightarrow> [] | Some r \<Rightarrow> if Q r then [r] else [])"
proof (induction rows)
  case (Cons r rows)
  then have "key r = k \<Longrightarrow> row_of key k rows = None"
    by (auto simp: row_of_None)
  with Cons show ?case by auto
qed simp

text \<open>
  A loop that rewrites the rows of a table one by one: each listed row ends up related to the row
  it was, every other row stays, and what each step keeps is kept.
\<close>

lemma fold_res_rows:
  fixes get :: "'s \<Rightarrow> 'k \<Rightarrow> 'r option"
  assumes step: "\<And>r s s'. f r s = Inr s' \<Longrightarrow> I s \<Longrightarrow> get s (key r) = Some r \<Longrightarrow>
      \<exists>r'. get s' = (get s)(key r \<mapsto> r') \<and> R r r' \<and> I s'"
    and "fold_res f rs s = Inr s'" and "I s" and "distinct (map key rs)"
    and "\<And>r. r \<in> set rs \<Longrightarrow> get s (key r) = Some r"
  shows "(\<forall>k. k \<notin> key ` set rs \<longrightarrow> get s' k = get s k)
    \<and> (\<forall>r \<in> set rs. \<exists>r'. get s' (key r) = Some r' \<and> R r r') \<and> I s'"
  using assms(2-5)
proof (induction rs arbitrary: s)
  case (Cons r rs)
  from Cons.prems(1) obtain s1 where s1: "f r s = Inr s1" and rest: "fold_res f rs s1 = Inr s'"
    by (auto simp: result_simps)
  from step [OF s1 Cons.prems(2)] Cons.prems(4) obtain r' where
    r': "get s1 = (get s)(key r \<mapsto> r')" "R r r'" "I s1" by auto
  have others: "\<And>x. x \<in> set rs \<Longrightarrow> get s1 (key x) = Some x"
    using Cons.prems(3,4) r'(1) by (auto simp: image_iff)
  have "distinct (map key rs)" using Cons.prems(3) by simp
  note IH = Cons.IH [OF rest r'(3) this others]
  have "get s' (key r) = Some r'"
    using IH Cons.prems(3) r'(1) by (auto simp: image_iff)
  with IH r' show ?case by auto
qed simp

section \<open>Runs of a step relation\<close>

inductive runs :: "('s \<Rightarrow> 'a \<Rightarrow> 's \<Rightarrow> bool) \<Rightarrow> 's \<Rightarrow> 'a list \<Rightarrow> 's \<Rightarrow> bool" for step where
  runs_Nil: "runs step s [] s"
| runs_Cons: "step s a s' \<Longrightarrow> runs step s' as s'' \<Longrightarrow> runs step s (a # as) s''"

inductive_simps runs_Nil_iff [simp]: "runs step s [] t"
inductive_simps runs_Cons_iff: "runs step s (a # as) t"

text \<open>
  The contract between a component and the proofs about its histories: a property of states that
  one step keeps, as long as the action is one of the allowed ones.
\<close>

locale step_invariant =
  fixes step :: "'s \<Rightarrow> 'a \<Rightarrow> 's \<Rightarrow> bool"
    and allowed :: "'a \<Rightarrow> bool"
    and inv :: "'s \<Rightarrow> bool"
  assumes one_step: "inv s \<Longrightarrow> allowed a \<Longrightarrow> step s a s' \<Longrightarrow> inv s'"
begin

lemma along_runs: "runs step s as s' \<Longrightarrow> list_all allowed as \<Longrightarrow> inv s \<Longrightarrow> inv s'"
  by (induction rule: runs.induct) (auto intro: one_step)

end

section \<open>Readers of a byte stream\<close>

text \<open>\<^verbatim>\<open>source.read(size)\<close> that must deliver: the first \<open>n\<close> bytes and what is left.\<close>

definition read_exactly :: "'e \<Rightarrow> nat \<Rightarrow> bytes \<Rightarrow> 'e + bytes \<times> bytes" where
  "read_exactly e n source = (if length source < n then Inl e else Inr (take n source, drop n source))"

lemma read_exactly_Inr:
  "read_exactly e n source = Inr (x, rest) \<longleftrightarrow> source = x @ rest \<and> length x = n"
  unfolding read_exactly_def by (auto simp: append_eq_conv_conj)

text \<open>Reading \<open>n\<close> items one after the other, stopping at the first error.\<close>

fun reads :: "('s \<Rightarrow> bytes \<Rightarrow> 'e + 'a \<times> 's \<times> bytes) \<Rightarrow> nat \<Rightarrow> 's \<Rightarrow> bytes \<Rightarrow> 'e + 'a list \<times> 's \<times> bytes" where
  "reads rd 0 st source = Inr ([], st, source)"
| "reads rd (Suc n) st source =
     andThen (rd st source) (\<lambda>(x, st', rest).
     andThen (reads rd n st' rest) (\<lambda>(xs, st'', rest').
     Inr (x # xs, st'', rest')))"

text \<open>
  The contract of a reader: what it returns depends only on the bytes it consumes, and a source
  that ends inside those bytes is refused. Reading a sequence of items then has the same
  contract, so a truncated stream never parses.
\<close>

locale prefix_reader =
  fixes rd :: "'s \<Rightarrow> bytes \<Rightarrow> 'e + 'a \<times> 's \<times> bytes"
  assumes consumes: "rd st source = Inr (x, st', rest) \<Longrightarrow>
      \<exists>used. source = used @ rest \<and> (\<forall>t. rd st (used @ t) = Inr (x, st', t))
        \<and> (\<forall>v w. used = v @ w \<longrightarrow> w \<noteq> [] \<longrightarrow> \<not> is_ok (rd st v))"
begin

lemma reads_consume:
  "reads rd n st source = Inr (xs, st', rest) \<Longrightarrow>
     \<exists>used. source = used @ rest \<and> (\<forall>t. reads rd n st (used @ t) = Inr (xs, st', t))
       \<and> (\<forall>v w. used = v @ w \<longrightarrow> w \<noteq> [] \<longrightarrow> \<not> is_ok (reads rd n st v))"
proof (induction n arbitrary: st source xs)
  case (Suc n)
  from Suc.prems obtain x st\<^sub>1 mid ys where x: "rd st source = Inr (x, st\<^sub>1, mid)"
      and ys: "reads rd n st\<^sub>1 mid = Inr (ys, st', rest)" and xs: "xs = x # ys"
    by (auto simp: result_simps)
  from consumes [OF x] obtain u where u: "source = u @ mid" "\<And>t. rd st (u @ t) = Inr (x, st\<^sub>1, t)"
      "\<And>v w. u = v @ w \<Longrightarrow> w \<noteq> [] \<Longrightarrow> \<not> is_ok (rd st v)"
    by blast
  from Suc.IH [OF ys] obtain r where r: "mid = r @ rest" "\<And>t. reads rd n st\<^sub>1 (r @ t) = Inr (ys, st', t)"
      "\<And>v w. r = v @ w \<Longrightarrow> w \<noteq> [] \<Longrightarrow> \<not> is_ok (reads rd n st\<^sub>1 v)"
    by blast
  have "\<not> is_ok (reads rd (Suc n) st v)" if "u @ r = v @ w" and "w \<noteq> []" for v w
  proof -
    from that(1) consider z where "u = v @ z" "w = z @ r" | z where "v = u @ z" "r = z @ w"
      by (auto simp: append_eq_append_conv2)
    then show ?thesis
    proof cases
      case (1 z)
      show ?thesis
      proof (cases "z = []")
        case True
        with 1 that(2) r(3) [of "[]" r] u(2) [of "[]"] show ?thesis by (auto simp: is_ok_iff result_simps)
      next
        case False
        with 1 u(3) show ?thesis by (auto simp: is_ok_iff result_simps)
      qed
    next
      case (2 z)
      with that(2) r(3) u(2) [of z] show ?thesis by (auto simp: is_ok_iff result_simps)
    qed
  qed
  with u(1,2) r(1,2) xs show ?case
    by (intro exI [of _ "u @ r"]) auto
qed auto

end

end
