(* ===== verification/Crypto.thy ===== *)
theory Crypto
  imports Prelude
begin

text \<open>
  The cryptographic constructions of vault format 2 (\<^verbatim>\<open>backend/helpers.py\<close>): KDF parameter
  limits, the associated data that binds a ciphertext to its record, sealed values, the keys
  derived from a vault key, and the wrapped key material of an account. The primitives come from
  the \<^verbatim>\<open>cryptography\<close> package and OpenSSL and are a parameter, the record \<open>primitives\<close>;
  \<open>primitives_ok\<close> names what their documentation promises and the code relies on. Random bytes
  (\<^verbatim>\<open>os.urandom\<close>) are arguments.
\<close>

section \<open>Parameters: primitives and text encoding\<close>

record kdf_params =
  memory_kib :: int
  iterations :: int
  lanes :: int

record primitives =
  p_argon2 :: "bytes \<Rightarrow> bytes \<Rightarrow> kdf_params \<Rightarrow> bytes"
  p_hkdf :: "bytes \<Rightarrow> bytes \<Rightarrow> bytes"
  p_hmac :: "bytes \<Rightarrow> bytes \<Rightarrow> bytes"
  p_sha256 :: "bytes \<Rightarrow> bytes"
  p_encrypt :: "bytes \<Rightarrow> bytes \<Rightarrow> bytes \<Rightarrow> bytes \<Rightarrow> bytes"
  p_decrypt :: "bytes \<Rightarrow> bytes \<Rightarrow> bytes \<Rightarrow> bytes \<Rightarrow> bytes option"

text \<open>
  AES-GCM decrypts what it encrypted under the same key, nonce and associated data, and appends a
  16-byte tag; every key derivation and digest is 32 bytes long.
\<close>

definition primitives_ok :: "primitives \<Rightarrow> bool" where
  "primitives_ok P \<longleftrightarrow>
     (\<forall>k n d a. p_decrypt P k n (p_encrypt P k n d a) a = Some d) \<and>
     (\<forall>k n d a. length (p_encrypt P k n d a) = length d + 16) \<and>
     (\<forall>k i. length (p_hkdf P k i) = 32) \<and>
     (\<forall>k d. length (p_hmac P k d) = 32) \<and>
     (\<forall>d. length (p_sha256 P d) = 32) \<and>
     (\<forall>s t q. length (p_argon2 P s t q) = 32)"

text \<open>\<^verbatim>\<open>str.encode()\<close>: UTF-8, refusing surrogates and anything above the last code point.\<close>

definition utf8_char :: "nat \<Rightarrow> bytes option" where
  "utf8_char c =
     (if c < 0x80 then Some [word_of_nat c]
      else if c < 0x800 then Some [word_of_nat (0xC0 + c div 64), word_of_nat (0x80 + c mod 64)]
      else if 0xD800 \<le> c \<and> c < 0xE000 then None
      else if c < 0x10000 then
        Some [word_of_nat (0xE0 + c div 4096), word_of_nat (0x80 + c div 64 mod 64),
              word_of_nat (0x80 + c mod 64)]
      else if c < 0x110000 then
        Some [word_of_nat (0xF0 + c div 262144), word_of_nat (0x80 + c div 4096 mod 64),
              word_of_nat (0x80 + c div 64 mod 64), word_of_nat (0x80 + c mod 64)]
      else None)"

fun utf8 :: "ustr \<Rightarrow> error + bytes" where
  "utf8 [] = Inr []"
| "utf8 (c # cs) =
     andThen (orElse (utf8_char c) ValueError) (\<lambda>b. andThen (utf8 cs) (\<lambda>bs. Inr (b @ bs)))"

text \<open>Decimal digits of a number, as \<^verbatim>\<open>str(int)\<close> writes them.\<close>

fun decimal :: "nat \<Rightarrow> ustr" where
  "decimal n = (if n < 10 then [48 + n] else decimal (n div 10) @ [48 + n mod 10])"

declare decimal.simps [simp del]

definition utext :: "string \<Rightarrow> ustr" where
  "utext s = map of_char s"

section \<open>KDF parameters\<close>

definition MIN_MEMORY_KIB :: int where "MIN_MEMORY_KIB = 19456"
definition MAX_MEMORY_KIB :: int where "MAX_MEMORY_KIB = 262144"
definition MAX_ITERATIONS :: int where "MAX_ITERATIONS = 10"
definition MAX_LANES :: int where "MAX_LANES = 8"

definition require_supported :: "kdf_params \<Rightarrow> error + unit" where
  "require_supported q =
     ensure (MIN_MEMORY_KIB \<le> memory_kib q \<and> memory_kib q \<le> MAX_MEMORY_KIB
       \<and> 1 \<le> iterations q \<and> iterations q \<le> MAX_ITERATIONS
       \<and> 1 \<le> lanes q \<and> lanes q \<le> MAX_LANES
       \<and> 8 * lanes q \<le> memory_kib q) UnsupportedKdf"

definition DEFAULT_KDF :: kdf_params where
  "DEFAULT_KDF = \<lparr>memory_kib = 65536, iterations = 3, lanes = 4\<rparr>"

definition argon2id :: "primitives \<Rightarrow> ustr \<Rightarrow> bytes \<Rightarrow> kdf_params \<Rightarrow> error + bytes" where
  "argon2id P password salt q =
     andThen (require_supported q) (\<lambda>_.
     andThen (utf8 password) (\<lambda>secret. Inr (p_argon2 P secret salt q)))"

section \<open>Associated data and sealed values\<close>

definition SEALED_VERSION :: bytes where "SEALED_VERSION = [2]"
definition FORMAT_LABEL :: bytes where "FORMAT_LABEL = ascii ''ciphermoth/v2''"
definition WRAP_LABEL :: bytes where "WRAP_LABEL = ascii ''ciphermoth/v2/wrapped-vault-key''"
definition NONCE_BYTES :: nat where "NONCE_BYTES = 12"
definition TAG_BYTES :: nat where "TAG_BYTES = 16"
definition SEALED_OVERHEAD :: nat where "SEALED_OVERHEAD = 1 + NONCE_BYTES + TAG_BYTES"
definition KEY_BYTES :: nat where "KEY_BYTES = 32"
definition FORMAT_VERSION :: int where "FORMAT_VERSION = 2"

fun ad_parts :: "bytes cell list \<Rightarrow> error + bytes" where
  "ad_parts [] = Inr []"
| "ad_parts (Corrupt r # ps) = Inl DecryptionFailed"
| "ad_parts (Good p # ps) =
     andThen (pack_u 4 (int (length p))) (\<lambda>len.
     andThen (ad_parts ps) (\<lambda>rest. Inr (len @ p @ rest)))"

definition associated_data :: "bytes cell list \<Rightarrow> error + bytes" where
  "associated_data ps = andThen (ad_parts ps) (\<lambda>d. Inr (SEALED_VERSION @ FORMAT_LABEL @ d))"

definition seal :: "primitives \<Rightarrow> bytes \<Rightarrow> bytes \<Rightarrow> bytes \<Rightarrow> bytes \<Rightarrow> bytes" where
  "seal P key nonce plaintext ad = SEALED_VERSION @ nonce @ p_encrypt P key nonce plaintext ad"

definition open_sealed :: "primitives \<Rightarrow> bytes \<Rightarrow> bytes cell \<Rightarrow> bytes \<Rightarrow> error + bytes" where
  "open_sealed P key sealed ad =
     (case sealed of
        Corrupt r \<Rightarrow> Inl DecryptionFailed
      | Good s \<Rightarrow>
          if length s < SEALED_OVERHEAD \<or> take 1 s \<noteq> SEALED_VERSION then Inl DecryptionFailed
          else orElse (p_decrypt P key (take NONCE_BYTES (drop 1 s)) (drop (1 + NONCE_BYTES) s) ad)
                 DecryptionFailed)"

definition padded :: "bytes \<Rightarrow> bytes" where
  "padded document = document @ replicate (nat ((- int (length document)) mod 64)) 0x20"

section \<open>The vault key\<close>

record vault_key =
  vk_raw :: bytes
  vk_records :: bytes
  vk_index :: bytes
  vk_check :: bytes

definition VaultKey :: "primitives \<Rightarrow> bytes \<Rightarrow> error + vault_key" where
  "VaultKey P raw =
     andThen (ensure (length raw = KEY_BYTES) ValueError) (\<lambda>_.
     Inr \<lparr>vk_raw = raw,
          vk_records = p_hkdf P raw (ascii ''ciphermoth/v2/record-encryption''),
          vk_index = p_hkdf P raw (ascii ''ciphermoth/v2/name-index''),
          vk_check = p_hkdf P raw (ascii ''ciphermoth/v2/key-check'')\<rparr>)"

definition matches :: "vault_key \<Rightarrow> bytes cell \<Rightarrow> bool" where
  "matches k key_check = (case key_check of Corrupt r \<Rightarrow> False | Good c \<Rightarrow> vk_check k = c)"

text \<open>The text each name index authenticates, before it is encoded and hashed.\<close>

definition folder_index_text :: "nat \<Rightarrow> ustr \<Rightarrow> ustr" where
  "folder_index_text owner_id name = utext ''folder'' @ [0] @ decimal owner_id @ [0] @ name"

definition group_index_text :: "ustr \<Rightarrow> ustr" where
  "group_index_text name = utext ''group'' @ [0] @ name"

definition name_index :: "primitives \<Rightarrow> vault_key \<Rightarrow> ustr \<Rightarrow> error + bytes" where
  "name_index P k name = andThen (utf8 name) (\<lambda>b. Inr (p_hmac P (vk_index k) b))"

definition folder_name_index :: "primitives \<Rightarrow> vault_key \<Rightarrow> nat \<Rightarrow> ustr \<Rightarrow> error + bytes" where
  "folder_name_index P k owner_id name =
     andThen (utf8 (folder_index_text owner_id name)) (\<lambda>b. Inr (p_hmac P (vk_index k) b))"

definition group_name_index :: "primitives \<Rightarrow> vault_key \<Rightarrow> ustr \<Rightarrow> error + bytes" where
  "group_name_index P k name =
     andThen (utf8 (group_index_text name)) (\<lambda>b. Inr (p_hmac P (vk_index k) b))"

definition entry_draft_key :: "primitives \<Rightarrow> vault_key \<Rightarrow> nat \<Rightarrow> error + bytes" where
  "entry_draft_key P k user_id =
     andThen (utf8 (utext ''ciphermoth/browser-entry-draft/v1/'' @ decimal user_id))
       (\<lambda>info. Inr (p_hkdf P (vk_raw k) info))"

text \<open>\<^verbatim>\<open>owner_id.to_bytes(8, "big")\<close>.\<close>

definition to_bytes8 :: "nat \<Rightarrow> error + bytes" where
  "to_bytes8 n = (if n < 256 ^ 8 then Inr (be 8 n) else Inl OverflowError)"

definition entry_ad :: "bytes cell \<Rightarrow> error + bytes" where
  "entry_ad uid = associated_data [Good (ascii ''entry''), uid]"

definition folder_ad :: "bytes cell \<Rightarrow> nat \<Rightarrow> error + bytes" where
  "folder_ad uid owner_id =
     andThen (to_bytes8 owner_id) (\<lambda>o8. associated_data [Good (ascii ''folder''), uid, Good o8])"

definition group_ad :: "bytes cell \<Rightarrow> error + bytes" where
  "group_ad uid = associated_data [Good (ascii ''group''), uid]"

definition attachment_metadata_ad :: "bytes cell \<Rightarrow> bytes cell \<Rightarrow> error + bytes" where
  "attachment_metadata_ad uid entry_uid =
     associated_data [Good (ascii ''attachment-metadata''), uid, entry_uid]"

definition attachment_content_ad :: "bytes cell \<Rightarrow> bytes cell \<Rightarrow> error + bytes" where
  "attachment_content_ad uid entry_uid =
     associated_data [Good (ascii ''attachment-content''), uid, entry_uid]"

text \<open>\<^verbatim>\<open>VaultKey.seal_*\<close> and \<^verbatim>\<open>VaultKey.open_*\<close>; \<open>n\<close> is the random nonce.\<close>

definition vk_seal_entry ::
    "primitives \<Rightarrow> vault_key \<Rightarrow> bytes \<Rightarrow> bytes cell \<Rightarrow> bytes \<Rightarrow> error + bytes" where
  "vk_seal_entry P k n uid document =
     andThen (entry_ad uid) (\<lambda>ad. Inr (seal P (vk_records k) n (padded document) ad))"

definition vk_open_entry ::
    "primitives \<Rightarrow> vault_key \<Rightarrow> bytes cell \<Rightarrow> bytes cell \<Rightarrow> error + bytes" where
  "vk_open_entry P k uid sealed =
     andThen (entry_ad uid) (open_sealed P (vk_records k) sealed)"

definition vk_seal_folder ::
    "primitives \<Rightarrow> vault_key \<Rightarrow> bytes \<Rightarrow> bytes cell \<Rightarrow> nat \<Rightarrow> bytes \<Rightarrow> error + bytes" where
  "vk_seal_folder P k n uid owner_id document =
     andThen (folder_ad uid owner_id) (\<lambda>ad. Inr (seal P (vk_records k) n (padded document) ad))"

definition vk_open_folder ::
    "primitives \<Rightarrow> vault_key \<Rightarrow> bytes cell \<Rightarrow> nat \<Rightarrow> bytes cell \<Rightarrow> error + bytes" where
  "vk_open_folder P k uid owner_id sealed =
     andThen (folder_ad uid owner_id) (open_sealed P (vk_records k) sealed)"

definition vk_seal_group ::
    "primitives \<Rightarrow> vault_key \<Rightarrow> bytes \<Rightarrow> bytes cell \<Rightarrow> bytes \<Rightarrow> error + bytes" where
  "vk_seal_group P k n uid document =
     andThen (group_ad uid) (\<lambda>ad. Inr (seal P (vk_records k) n (padded document) ad))"

definition vk_open_group ::
    "primitives \<Rightarrow> vault_key \<Rightarrow> bytes cell \<Rightarrow> bytes cell \<Rightarrow> error + bytes" where
  "vk_open_group P k uid sealed =
     andThen (group_ad uid) (open_sealed P (vk_records k) sealed)"

definition vk_seal_attachment_metadata ::
    "primitives \<Rightarrow> vault_key \<Rightarrow> bytes \<Rightarrow> bytes cell \<Rightarrow> bytes cell \<Rightarrow> bytes \<Rightarrow> error + bytes" where
  "vk_seal_attachment_metadata P k n uid entry_uid document =
     andThen (attachment_metadata_ad uid entry_uid)
       (\<lambda>ad. Inr (seal P (vk_records k) n (padded document) ad))"

definition vk_open_attachment_metadata ::
    "primitives \<Rightarrow> vault_key \<Rightarrow> bytes cell \<Rightarrow> bytes cell \<Rightarrow> bytes cell \<Rightarrow> error + bytes" where
  "vk_open_attachment_metadata P k uid entry_uid sealed =
     andThen (attachment_metadata_ad uid entry_uid) (open_sealed P (vk_records k) sealed)"

definition vk_seal_attachment_content ::
    "primitives \<Rightarrow> vault_key \<Rightarrow> bytes \<Rightarrow> bytes cell \<Rightarrow> bytes cell \<Rightarrow> bytes \<Rightarrow> error + bytes" where
  "vk_seal_attachment_content P k n uid entry_uid content =
     andThen (attachment_content_ad uid entry_uid)
       (\<lambda>ad. Inr (seal P (vk_records k) n content ad))"

definition vk_open_attachment_content ::
    "primitives \<Rightarrow> vault_key \<Rightarrow> bytes cell \<Rightarrow> bytes cell \<Rightarrow> bytes cell \<Rightarrow> error + bytes" where
  "vk_open_attachment_content P k uid entry_uid sealed =
     andThen (attachment_content_ad uid entry_uid) (open_sealed P (vk_records k) sealed)"

section \<open>Wrapped key material\<close>

record key_material =
  km_params :: kdf_params
  km_salt :: bytes
  km_password_check :: bytes
  km_wrapped_key :: bytes
  km_key_check :: bytes

definition wrap_associated_data :: "kdf_params \<Rightarrow> bytes \<Rightarrow> error + bytes" where
  "wrap_associated_data q salt =
     andThen (pack_u 2 FORMAT_VERSION) (\<lambda>v.
     andThen (pack_u 4 (memory_kib q)) (\<lambda>m.
     andThen (pack_u 4 (iterations q)) (\<lambda>i.
     andThen (pack_u 4 (lanes q)) (\<lambda>l.
     Inr (WRAP_LABEL @ v @ m @ i @ l @ salt)))))"

definition seal_key_material ::
    "primitives \<Rightarrow> bytes \<Rightarrow> bytes \<Rightarrow> bytes \<Rightarrow> kdf_params \<Rightarrow> bytes \<Rightarrow> error + key_material" where
  "seal_key_material P nonce derived raw_key q salt =
     andThen (wrap_associated_data q salt) (\<lambda>ad.
     andThen (VaultKey P raw_key) (\<lambda>k.
     Inr \<lparr>km_params = q, km_salt = salt,
          km_password_check = p_hkdf P derived (ascii ''ciphermoth/v2/password-commitment''),
          km_wrapped_key =
            seal P (p_hkdf P derived (ascii ''ciphermoth/v2/key-wrapping'')) nonce raw_key ad,
          km_key_check = vk_check k\<rparr>))"

definition open_key_material ::
    "primitives \<Rightarrow> bytes \<Rightarrow> key_material \<Rightarrow> error + vault_key option" where
  "open_key_material P derived m =
     (if p_hkdf P derived (ascii ''ciphermoth/v2/password-commitment'') \<noteq> km_password_check m
      then Inr None
      else
        andThen (wrap_associated_data (km_params m) (km_salt m)) (\<lambda>ad.
        andThen (open_sealed P (p_hkdf P derived (ascii ''ciphermoth/v2/key-wrapping''))
                   (Good (km_wrapped_key m)) ad) (\<lambda>raw.
        andThen (ensure (length raw = KEY_BYTES) DecryptionFailed) (\<lambda>_.
        andThen (VaultKey P raw) (\<lambda>k.
        andThen (ensure (matches k (Good (km_key_check m))) DecryptionFailed) (\<lambda>_.
        Inr (Some k)))))))"

definition create_key_material ::
    "primitives \<Rightarrow> bytes \<Rightarrow> bytes \<Rightarrow> bytes \<Rightarrow> ustr \<Rightarrow> kdf_params \<Rightarrow> error + key_material \<times> vault_key" where
  "create_key_material P salt raw_key nonce password q =
     andThen (argon2id P password salt q) (\<lambda>derived.
     andThen (seal_key_material P nonce derived raw_key q salt) (\<lambda>m.
     andThen (VaultKey P raw_key) (\<lambda>k. Inr (m, k))))"

definition wrap_key_material ::
    "primitives \<Rightarrow> bytes \<Rightarrow> bytes \<Rightarrow> ustr \<Rightarrow> vault_key \<Rightarrow> kdf_params \<Rightarrow> error + key_material" where
  "wrap_key_material P salt nonce password key q =
     andThen (argon2id P password salt q) (\<lambda>derived.
     seal_key_material P nonce derived (vk_raw key) q salt)"

definition unlock_key_material ::
    "primitives \<Rightarrow> ustr \<Rightarrow> key_material \<Rightarrow> error + vault_key option" where
  "unlock_key_material P password m =
     andThen (argon2id P password (km_salt m) (km_params m)) (\<lambda>derived. open_key_material P derived m)"


section \<open>Laws of the constructions\<close>

lemma primitives_okD:
  assumes "primitives_ok P"
  shows "p_decrypt P k n (p_encrypt P k n d a) a = Some d"
    and "length (p_encrypt P k n d a) = length d + 16"
    and "length (p_hkdf P k i) = 32"
    and "length (p_hmac P k d) = 32"
    and "length (p_sha256 P d) = 32"
    and "length (p_argon2 P s t q) = 32"
  using assms by (auto simp: primitives_ok_def)

lemmas size_defs =
  SEALED_VERSION_def NONCE_BYTES_def TAG_BYTES_def SEALED_OVERHEAD_def KEY_BYTES_def

subsection \<open>Associated data is an injective encoding of its parts\<close>

lemma ad_parts_Cons:
  "ad_parts (c # ps) = Inr a \<longleftrightarrow>
     (\<exists>p rest. c = Good p \<and> length p < 256 ^ 4 \<and> ad_parts ps = Inr rest
        \<and> a = be 4 (length p) @ p @ rest)"
proof (cases c)
  case (Good p)
  have "int (length p) < 256 ^ 4 \<longleftrightarrow> length p < 256 ^ 4"
    by (metis of_nat_less_iff of_nat_numeral of_nat_power)
  with Good show ?thesis by (auto simp: result_simps pack_u_Inr)
qed simp

lemma ad_parts_inject:
  "ad_parts ps = Inr a \<Longrightarrow> ad_parts qs = Inr a \<Longrightarrow> ps = qs"
proof (induction ps arbitrary: qs a)
  case Nil
  then show ?case by (cases qs) (auto simp: ad_parts_Cons)
next
  case (Cons c ps)
  then obtain p rest where c: "c = Good p" "length p < 256 ^ 4"
      "ad_parts ps = Inr rest" "a = be 4 (length p) @ p @ rest"
    by (auto simp: ad_parts_Cons)
  with Cons.prems(2) obtain d qs' where qs: "qs = d # qs'"
    by (cases qs) auto
  with Cons.prems(2) obtain q rest' where d: "d = Good q" "length q < 256 ^ 4"
      "ad_parts qs' = Inr rest'" "a = be 4 (length q) @ q @ rest'"
    by (auto simp: ad_parts_Cons)
  from c(4) d(4) have "be 4 (length p) = be 4 (length q)" and tl: "p @ rest = q @ rest'"
    by (simp_all add: append_eq_append_conv)
  with c(2) d(2) have "length p = length q"
    by (simp add: be_inject)
  with tl have "p = q" "rest = rest'"
    by simp_all
  with Cons.IH c d qs show ?case by auto
qed

lemma associated_data_inject:
  "associated_data ps = Inr a \<Longrightarrow> associated_data qs = Inr a \<Longrightarrow> ps = qs"
  by (auto simp: associated_data_def result_simps dest: ad_parts_inject)

lemma associated_data_Inr_iff:
  "is_ok (associated_data ps) \<longleftrightarrow> (\<forall>c \<in> set ps. \<exists>p. c = Good p \<and> length p < 256 ^ 4)"
proof -
  have "is_ok (ad_parts ps) \<longleftrightarrow> (\<forall>c \<in> set ps. \<exists>p. c = Good p \<and> length p < 256 ^ 4)"
  proof (induction ps)
    case (Cons c ps)
    then show ?case by (auto simp: is_ok_iff ad_parts_Cons)
  qed simp
  then show ?thesis by (auto simp: associated_data_def is_ok_iff result_simps)
qed

lemma to_bytes8_inject: "to_bytes8 m = Inr b \<Longrightarrow> to_bytes8 n = Inr b \<Longrightarrow> m = n"
  by (auto simp: to_bytes8_def be_inject split: if_splits)

lemma folder_ad_inject:
  assumes "folder_ad uid owner = Inr a" and "folder_ad uid' owner' = Inr a"
  shows "uid = uid' \<and> owner = owner'"
proof -
  from assms obtain b b' where b: "to_bytes8 owner = Inr b" "to_bytes8 owner' = Inr b'"
      and "associated_data [Good (ascii ''folder''), uid, Good b] = Inr a"
      and "associated_data [Good (ascii ''folder''), uid', Good b'] = Inr a"
    by (auto simp: folder_ad_def result_simps)
  then have "uid = uid'" and "b = b'"
    by (auto dest: associated_data_inject)
  with b show ?thesis by (auto intro: to_bytes8_inject)
qed

subsection \<open>Sealed values\<close>

lemma open_seal:
  assumes "primitives_ok P" and "length n = NONCE_BYTES"
  shows "open_sealed P k (Good (seal P k n d ad)) ad = Inr d"
  using assms primitives_okD [OF assms(1)]
  by (simp add: open_sealed_def seal_def size_defs)

text \<open>
  What the AES-GCM documentation says of a changed context: the tag of this ciphertext verifies
  under no other associated data.
\<close>

definition aad_bound :: "primitives \<Rightarrow> bytes \<Rightarrow> bytes \<Rightarrow> bytes \<Rightarrow> bytes \<Rightarrow> bool" where
  "aad_bound P k n d ad \<longleftrightarrow> (\<forall>ad'. ad' \<noteq> ad \<longrightarrow> p_decrypt P k n (p_encrypt P k n d ad) ad' = None)"

lemma open_seal_other_ad:
  assumes "aad_bound P k n d ad" and "length n = NONCE_BYTES" and "ad' \<noteq> ad"
  shows "open_sealed P k (Good (seal P k n d ad)) ad' = Inl DecryptionFailed"
  using assms by (auto simp: open_sealed_def seal_def size_defs aad_bound_def)

lemma padded_length: "64 dvd length (padded d)"
proof -
  have "int (length (padded d)) = int (length d) + (- int (length d)) mod 64"
    by (simp add: padded_def)
  then have "(64::int) dvd int (length (padded d))"
    by (simp add: mod_0_imp_dvd mod_add_right_eq)
  then show ?thesis
    by (metis int_dvd_int_iff of_nat_numeral)
qed

lemma padded_prefix: "\<exists>m < 64. padded d = d @ replicate m 0x20"
proof -
  have "nat ((- int (length d)) mod 64) < 64"
    by (simp add: nat_less_iff)
  then show ?thesis unfolding padded_def by blast
qed

text \<open>
  The interface the record layer relies on: a kind of value with an identity \<open>'i\<close> (the row ids
  its associated data names), sealed and opened under the vault's record key. Two laws of the
  provider: sealing and opening use the same associated data, and it determines the identity.
\<close>

locale sealed_kind =
  fixes ad_of :: "'i \<Rightarrow> error + bytes"
    and pad :: "'i \<Rightarrow> bytes \<Rightarrow> bytes"
    and seal_doc :: "primitives \<Rightarrow> vault_key \<Rightarrow> bytes \<Rightarrow> 'i \<Rightarrow> bytes \<Rightarrow> error + bytes"
    and open_doc :: "primitives \<Rightarrow> vault_key \<Rightarrow> 'i \<Rightarrow> bytes cell \<Rightarrow> error + bytes"
  assumes ad_determines: "ad_of i = Inr a \<Longrightarrow> ad_of j = Inr a \<Longrightarrow> i = j"
    and seal_under_ad:
      "seal_doc P k n i d = andThen (ad_of i) (\<lambda>ad. Inr (seal P (vk_records k) n (pad i d) ad))"
    and open_under_ad:
      "open_doc P k i s = andThen (ad_of i) (open_sealed P (vk_records k) s)"
begin

lemma round_trip:
  assumes "primitives_ok P" and "length n = NONCE_BYTES" and "seal_doc P k n i d = Inr s"
  shows "open_doc P k i (Good s) = Inr (pad i d)"
  using assms by (auto simp: seal_under_ad open_under_ad result_simps open_seal)

lemma bound_to_identity:
  assumes bound: "\<And>ad. ad_of i = Inr ad \<Longrightarrow> aad_bound P (vk_records k) n (pad i d) ad"
    and "length n = NONCE_BYTES" and "seal_doc P k n i d = Inr s" and "i \<noteq> j"
  shows "\<not> is_ok (open_doc P k j (Good s))"
proof
  assume "is_ok (open_doc P k j (Good s))"
  then obtain ad ad' d' where i: "ad_of i = Inr ad" "s = seal P (vk_records k) n (pad i d) ad"
      and j: "ad_of j = Inr ad'" "open_sealed P (vk_records k) (Good s) ad' = Inr d'"
    using assms(3) by (auto simp: seal_under_ad open_under_ad is_ok_iff result_simps)
  from i j(1) assms(4) have "ad' \<noteq> ad"
    by (auto dest: ad_determines)
  with open_seal_other_ad [OF bound [OF i(1)] assms(2)] i(2) j(2) show False
    by simp
qed

lemma sealed_only_with_ids: "is_ok (seal_doc P k n i d) \<longleftrightarrow> is_ok (ad_of i)"
  by (auto simp: seal_under_ad is_ok_iff result_simps)

end

interpretation entry_kind: sealed_kind entry_ad "\<lambda>_. padded" vk_seal_entry vk_open_entry
  by unfold_locales
    (auto simp: entry_ad_def vk_seal_entry_def vk_open_entry_def dest: associated_data_inject)

interpretation group_kind: sealed_kind group_ad "\<lambda>_. padded" vk_seal_group vk_open_group
  by unfold_locales
    (auto simp: group_ad_def vk_seal_group_def vk_open_group_def dest: associated_data_inject)

interpretation folder_kind: sealed_kind "\<lambda>(uid, owner). folder_ad uid owner" "\<lambda>_. padded"
    "\<lambda>P k n (uid, owner) d. vk_seal_folder P k n uid owner d"
    "\<lambda>P k (uid, owner) s. vk_open_folder P k uid owner s"
  by unfold_locales
    (auto simp: vk_seal_folder_def vk_open_folder_def dest: folder_ad_inject)

interpretation attachment_metadata_kind: sealed_kind
    "\<lambda>(uid, entry). attachment_metadata_ad uid entry" "\<lambda>_. padded"
    "\<lambda>P k n (uid, entry) d. vk_seal_attachment_metadata P k n uid entry d"
    "\<lambda>P k (uid, entry) s. vk_open_attachment_metadata P k uid entry s"
  by unfold_locales
    (auto simp: attachment_metadata_ad_def vk_seal_attachment_metadata_def
       vk_open_attachment_metadata_def dest: associated_data_inject)

interpretation attachment_content_kind: sealed_kind
    "\<lambda>(uid, entry). attachment_content_ad uid entry" "\<lambda>_ d. d"
    "\<lambda>P k n (uid, entry) d. vk_seal_attachment_content P k n uid entry d"
    "\<lambda>P k (uid, entry) s. vk_open_attachment_content P k uid entry s"
  by unfold_locales
    (auto simp: attachment_content_ad_def vk_seal_attachment_content_def
       vk_open_attachment_content_def dest: associated_data_inject)

subsection \<open>Every kind of record at once\<close>

text \<open>The identity under which a value is sealed: its role and the ids its context names.\<close>

datatype record_id =
    EntryId "bytes cell"
  | FolderId "bytes cell" nat
  | GroupId "bytes cell"
  | MetadataId "bytes cell" "bytes cell"
  | ContentId "bytes cell" "bytes cell"

fun record_ad :: "record_id \<Rightarrow> error + bytes" where
  "record_ad (EntryId u) = entry_ad u"
| "record_ad (FolderId u owner) = folder_ad u owner"
| "record_ad (GroupId u) = group_ad u"
| "record_ad (MetadataId u e) = attachment_metadata_ad u e"
| "record_ad (ContentId u e) = attachment_content_ad u e"

fun record_pad :: "record_id \<Rightarrow> bytes \<Rightarrow> bytes" where
  "record_pad (ContentId u e) d = d"
| "record_pad _ d = padded d"

fun seal_record :: "primitives \<Rightarrow> vault_key \<Rightarrow> bytes \<Rightarrow> record_id \<Rightarrow> bytes \<Rightarrow> error + bytes" where
  "seal_record P k n (EntryId u) d = vk_seal_entry P k n u d"
| "seal_record P k n (FolderId u owner) d = vk_seal_folder P k n u owner d"
| "seal_record P k n (GroupId u) d = vk_seal_group P k n u d"
| "seal_record P k n (MetadataId u e) d = vk_seal_attachment_metadata P k n u e d"
| "seal_record P k n (ContentId u e) d = vk_seal_attachment_content P k n u e d"

fun open_record :: "primitives \<Rightarrow> vault_key \<Rightarrow> record_id \<Rightarrow> bytes cell \<Rightarrow> error + bytes" where
  "open_record P k (EntryId u) s = vk_open_entry P k u s"
| "open_record P k (FolderId u owner) s = vk_open_folder P k u owner s"
| "open_record P k (GroupId u) s = vk_open_group P k u s"
| "open_record P k (MetadataId u e) s = vk_open_attachment_metadata P k u e s"
| "open_record P k (ContentId u e) s = vk_open_attachment_content P k u e s"

lemmas ad_defs = entry_ad_def folder_ad_def group_ad_def attachment_metadata_ad_def
  attachment_content_ad_def

fun record_parts :: "record_id \<Rightarrow> bytes cell list" where
  "record_parts (EntryId u) = [Good (ascii ''entry''), u]"
| "record_parts (FolderId u owner) = [Good (ascii ''folder''), u, Good (be 8 owner)]"
| "record_parts (GroupId u) = [Good (ascii ''group''), u]"
| "record_parts (MetadataId u e) = [Good (ascii ''attachment-metadata''), u, e]"
| "record_parts (ContentId u e) = [Good (ascii ''attachment-content''), u, e]"

lemma record_ad_parts: "record_ad i = Inr a \<Longrightarrow> associated_data (record_parts i) = Inr a"
  by (cases i) (auto simp: ad_defs to_bytes8_def result_simps split: if_splits)

lemma ascii_labels_distinct:
  "ascii ''entry'' \<noteq> ascii ''group''"
  "ascii ''folder'' \<noteq> ascii ''attachment-metadata''"
  "ascii ''folder'' \<noteq> ascii ''attachment-content''"
  "ascii ''attachment-metadata'' \<noteq> ascii ''attachment-content''"
  by (simp_all add: ascii_def)

lemma record_ad_inject:
  assumes "record_ad i = Inr a" and "record_ad j = Inr a"
  shows "i = j"
proof -
  have "record_parts i = record_parts j"
    using assms by (metis associated_data_inject record_ad_parts)
  then show ?thesis
    using assms ascii_labels_distinct ascii_labels_distinct [symmetric]
    by (cases i; cases j; simp) (metis folder_ad_inject)
qed

interpretation record_kind: sealed_kind record_ad record_pad seal_record open_record
proof unfold_locales
  fix P k n i d s a j
  show "seal_record P k n i d = andThen (record_ad i) (\<lambda>ad. Inr (seal P (vk_records k) n (record_pad i d) ad))"
    by (cases i) (simp_all add: vk_seal_entry_def vk_seal_folder_def vk_seal_group_def
        vk_seal_attachment_metadata_def vk_seal_attachment_content_def)
  show "open_record P k i s = andThen (record_ad i) (open_sealed P (vk_records k) s)"
    by (cases i) (simp_all add: vk_open_entry_def vk_open_folder_def vk_open_group_def
        vk_open_attachment_metadata_def vk_open_attachment_content_def)
  show "record_ad i = Inr a \<Longrightarrow> record_ad j = Inr a \<Longrightarrow> i = j"
    by (rule record_ad_inject)
qed

subsection \<open>UTF-8 is injective, and the index texts are disjoint\<close>

lemma unat_byte_small: "x < 256 \<Longrightarrow> unat (word_of_nat x :: byte) = x"
  by (simp add: unat_of_nat)

definition utf8_nat :: "nat \<Rightarrow> nat list" where
  "utf8_nat c =
     (if c < 0x80 then [c]
      else if c < 0x800 then [0xC0 + c div 64, 0x80 + c mod 64]
      else if c < 0x10000 then [0xE0 + c div 4096, 0x80 + c div 64 mod 64, 0x80 + c mod 64]
      else [0xF0 + c div 262144, 0x80 + c div 4096 mod 64, 0x80 + c div 64 mod 64, 0x80 + c mod 64])"

lemma utf8_char_nat:
  assumes "utf8_char c = Some b"
  shows "map unat b = utf8_nat c" and "c < 0x110000"
proof -
  show c: "c < 0x110000"
    using assms by (auto simp: utf8_char_def split: if_splits)
  have m: "x mod 64 < 64" for x :: nat by simp
  have "128 + x mod 64 < 256" for x :: nat using m [of x] by linarith
  note low = unat_byte_small [OF this]
  have "c < 0x800 \<Longrightarrow> 0xC0 + c div 64 < 256" "c < 0x10000 \<Longrightarrow> 0xE0 + c div 4096 < 256"
      "0xF0 + c div 262144 < 256"
    using c by auto
  note high = unat_byte_small [OF this(1)] unat_byte_small [OF this(2)] unat_byte_small [OF this(3)]
  show "map unat b = utf8_nat c"
    using assms low [of c] low [of "c div 64"] low [of "c div 4096"] high
    by (auto simp: utf8_char_def utf8_nat_def unat_byte_small split: if_splits)
qed

lemma utf8_nat_prefix:
  assumes "utf8_nat c @ x = utf8_nat d @ y" and "c < 0x110000" and "d < 0x110000"
  shows "c = d"
proof -
  have hd: "hd (utf8_nat c) = hd (utf8_nat d)"
    using assms(1) by (auto simp: utf8_nat_def split: if_splits)
  have split2: "n = 64 * (n div 64) + n mod 64" for n :: nat by simp
  have "n div 4096 = n div 64 div 64" "n div 262144 = n div 64 div 64 div 64" for n :: nat
    by (simp_all add: div_mult2_eq [symmetric])
  note quotients = this
  have split3: "n = 4096 * (n div 4096) + 64 * (n div 64 mod 64) + n mod 64" for n :: nat
    using split2 [of n] split2 [of "n div 64"] unfolding quotients by linarith
  have split4: "n = 262144 * (n div 262144) + 4096 * (n div 4096 mod 64) + 64 * (n div 64 mod 64)
      + n mod 64" for n :: nat
    using split2 [of n] split2 [of "n div 64"] split2 [of "n div 64 div 64"]
    unfolding quotients by linarith
  consider "c < 0x80" | "0x80 \<le> c" "c < 0x800" | "0x800 \<le> c" "c < 0x10000" | "0x10000 \<le> c"
    by linarith
  then show ?thesis
  proof cases
    case 1
    with hd show ?thesis by (auto simp: utf8_nat_def split: if_splits)
  next
    case 2
    with hd have "0x80 \<le> d" "d < 0x800"
      by (auto simp: utf8_nat_def split: if_splits)
    with 2 assms(1) have "c div 64 = d div 64" "c mod 64 = d mod 64"
      by (auto simp: utf8_nat_def)
    then show ?thesis by (metis div_mod_decomp)
  next
    case 3
    with hd assms(3) have "0x800 \<le> d" "d < 0x10000"
      by (auto simp: utf8_nat_def split: if_splits)
    with 3 assms(1) have "c div 4096 = d div 4096" "c div 64 mod 64 = d div 64 mod 64"
        "c mod 64 = d mod 64"
      by (auto simp: utf8_nat_def)
    then show ?thesis using split3 [of c] split3 [of d] by simp
  next
    case 4
    with hd assms(2) have "0x10000 \<le> d"
      by (auto simp: utf8_nat_def split: if_splits)
    with 4 assms(1) have "c div 262144 = d div 262144" "c div 4096 mod 64 = d div 4096 mod 64"
        "c div 64 mod 64 = d div 64 mod 64" "c mod 64 = d mod 64"
      by (auto simp: utf8_nat_def)
    then show ?thesis using split4 [of c] split4 [of d] by simp
  qed
qed

lemma utf8_char_nonempty: "utf8_char c = Some b \<Longrightarrow> b \<noteq> []"
  by (auto simp: utf8_char_def split: if_splits)

lemma utf8_inject: "utf8 s = Inr b \<Longrightarrow> utf8 t = Inr b \<Longrightarrow> s = t"
proof (induction s arbitrary: t b)
  case Nil
  then show ?case by (cases t) (auto simp: result_simps dest: utf8_char_nonempty)
next
  case (Cons c s)
  then obtain p q where p: "utf8_char c = Some p" "utf8 s = Inr q" "b = p @ q"
    by (auto simp: result_simps)
  with Cons.prems(2) obtain d t' where t: "t = d # t'"
    by (cases t) (auto dest: utf8_char_nonempty)
  with Cons.prems(2) obtain p' q' where p': "utf8_char d = Some p'" "utf8 t' = Inr q'" "b = p' @ q'"
    by (auto simp: result_simps)
  have "utf8_nat c @ map unat q = utf8_nat d @ map unat q'"
    using p(3) p'(3) utf8_char_nat(1) [OF p(1)] utf8_char_nat(1) [OF p'(1)] by (metis map_append)
  then have "c = d"
    using utf8_nat_prefix utf8_char_nat(2) p(1) p'(1) by blast
  with p p' t Cons.IH [of q t'] show ?case by auto
qed

lemma decimal_eval:
  "n < 10 \<Longrightarrow> decimal n = [48 + n]"
  "\<not> n < 10 \<Longrightarrow> decimal n = decimal (n div 10) @ [48 + n mod 10]"
  by (subst decimal.simps, simp)+

lemma decimal_nonzero: "0 \<notin> set (decimal n)"
  by (induction n rule: decimal.induct) (subst decimal.simps, simp)

lemma decimal_inject: "decimal m = decimal n \<Longrightarrow> m = n"
proof (induction m arbitrary: n rule: decimal.induct)
  case (1 m)
  have len: "length (decimal k) \<ge> 1" for k by (subst decimal.simps) simp
  consider "m < 10" "n < 10" | "m < 10" "\<not> n < 10" | "\<not> m < 10" "n < 10" | "\<not> m < 10" "\<not> n < 10"
    by blast
  then show ?case
  proof cases
    case 4
    with "1.prems" have "decimal (m div 10) = decimal (n div 10)" "m mod 10 = n mod 10"
      by (subst (asm) (1 2) decimal.simps, simp)+
    with "1.IH" 4 have "m div 10 = n div 10" by blast
    with \<open>m mod 10 = n mod 10\<close> show ?thesis by (metis div_mod_decomp)
  qed (use "1.prems" len [of "m div 10"] len [of "n div 10"] in
      \<open>(subst (asm) (1 2) decimal.simps, simp)+\<close>)
qed

lemma NUL_split: "0 \<notin> set xs \<Longrightarrow> 0 \<notin> set ys \<Longrightarrow> xs @ (0::nat) # zs = ys @ 0 # ws \<Longrightarrow> xs = ys \<and> zs = ws"
proof (induction xs arbitrary: ys)
  case Nil
  then show ?case by (cases ys) auto
next
  case (Cons x xs)
  then show ?case by (cases ys) auto
qed


subsection \<open>Key material\<close>

lemma VaultKey_Inr:
  "VaultKey P raw = Inr k \<Longrightarrow> vk_raw k = raw \<and> length raw = KEY_BYTES"
  by (auto simp: VaultKey_def result_simps)

lemma open_seal_key_material:
  assumes "primitives_ok P" and "length nonce = NONCE_BYTES"
    and "seal_key_material P nonce derived raw q salt = Inr m"
  shows "\<exists>k. VaultKey P raw = Inr k \<and> open_key_material P derived m = Inr (Some k)"
proof -
  from assms(3) obtain ad k where ad: "wrap_associated_data q salt = Inr ad"
      and k: "VaultKey P raw = Inr k"
      and m: "m = \<lparr>km_params = q, km_salt = salt,
          km_password_check = p_hkdf P derived (ascii ''ciphermoth/v2/password-commitment''),
          km_wrapped_key =
            seal P (p_hkdf P derived (ascii ''ciphermoth/v2/key-wrapping'')) nonce raw ad,
          km_key_check = vk_check k\<rparr>"
    by (auto simp: seal_key_material_def result_simps)
  have "open_key_material P derived m = Inr (Some k)"
    using ad k m VaultKey_Inr [OF k] open_seal [OF assms(1,2)]
    by (simp add: open_key_material_def matches_def)
  with k show ?thesis by blast
qed

lemma seal_key_material_params:
  "seal_key_material P nonce derived raw q salt = Inr m \<Longrightarrow> km_params m = q \<and> km_salt m = salt"
  by (auto simp: seal_key_material_def result_simps)

lemma open_key_material_None:
  "open_key_material P derived m = Inr None \<longleftrightarrow>
     p_hkdf P derived (ascii ''ciphermoth/v2/password-commitment'') \<noteq> km_password_check m"
  by (auto simp: open_key_material_def result_simps)

lemma open_key_material_Some:
  assumes "open_key_material P derived m = Inr (Some k)"
  shows "p_hkdf P derived (ascii ''ciphermoth/v2/password-commitment'') = km_password_check m"
    and "vk_check k = km_key_check m" and "length (vk_raw k) = KEY_BYTES"
    and "VaultKey P (vk_raw k) = Inr k"
proof -
  from assms obtain raw where
      c: "p_hkdf P derived (ascii ''ciphermoth/v2/password-commitment'') = km_password_check m"
      and raw: "VaultKey P raw = Inr k" and chk: "matches k (Good (km_key_check m))"
    by (auto simp: open_key_material_def result_simps split: if_splits)
  from VaultKey_Inr [OF raw] have "vk_raw k = raw" "length raw = KEY_BYTES" by simp_all
  with c raw chk
  show "p_hkdf P derived (ascii ''ciphermoth/v2/password-commitment'') = km_password_check m"
    and "vk_check k = km_key_check m" and "length (vk_raw k) = KEY_BYTES"
    and "VaultKey P (vk_raw k) = Inr k"
    by (simp_all add: matches_def)
qed

subsection \<open>Names under the index key\<close>

text \<open>
  What the vault indexes: the name of an entry, of a folder of one owner, of a group. Entry names
  hold no NUL (\<^verbatim>\<open>validators.py\<close> refuses it and \<^verbatim>\<open>find_entry\<close> looks none up).
\<close>

datatype indexed_name = EntryName ustr | FolderName nat ustr | GroupName ustr

fun index_text :: "indexed_name \<Rightarrow> ustr" where
  "index_text (EntryName name) = name"
| "index_text (FolderName owner name) = folder_index_text owner name"
| "index_text (GroupName name) = group_index_text name"

fun index_of :: "primitives \<Rightarrow> vault_key \<Rightarrow> indexed_name \<Rightarrow> error + bytes" where
  "index_of P k (EntryName name) = name_index P k name"
| "index_of P k (FolderName owner name) = folder_name_index P k owner name"
| "index_of P k (GroupName name) = group_name_index P k name"

fun well_named :: "indexed_name \<Rightarrow> bool" where
  "well_named (EntryName name) = (0 \<notin> set name)"
| "well_named _ = True"

lemma index_of_text:
  "index_of P k x = andThen (utf8 (index_text x)) (\<lambda>b. Inr (p_hmac P (vk_index k) b))"
  by (cases x) (simp_all add: name_index_def folder_name_index_def group_name_index_def)

lemma folder_index_text_inject:
  assumes "folder_index_text owner name = folder_index_text owner' name'"
  shows "owner = owner' \<and> name = name'"
  using assms NUL_split [OF decimal_nonzero decimal_nonzero, of owner name owner' name']
  by (auto simp: folder_index_text_def dest: decimal_inject)

lemma index_text_inject:
  assumes "well_named x" and "well_named y" and "index_text x = index_text y"
  shows "x = y"
proof -
  have "0 \<in> set (folder_index_text owner name)" "0 \<in> set (group_index_text name)" for owner name
    by (simp_all add: folder_index_text_def group_index_text_def)
  moreover have "folder_index_text owner name \<noteq> group_index_text name'" for owner name name'
    by (simp add: folder_index_text_def group_index_text_def utext_def)
  moreover have "group_index_text name = group_index_text name' \<Longrightarrow> name = name'" for name name'
    by (simp add: group_index_text_def)
  ultimately show ?thesis
    using assms by (cases x; cases y; simp)
      (metis folder_index_text_inject | metis)+
qed

section \<open>A concrete instance of the primitives\<close>

text \<open>
  Small computable functions that satisfy \<open>primitives_ok\<close>, to evaluate the definitions on concrete
  inputs. The tag is one of two constants, so that it depends on the associated data \<open>a0\<close>.
\<close>

definition fit32 :: "bytes \<Rightarrow> bytes" where
  "fit32 b = take 32 (b @ replicate 32 0)"

definition sample_tag :: "bytes \<Rightarrow> bytes \<Rightarrow> bytes" where
  "sample_tag a0 a = replicate 16 (if a = a0 then 1 else 0)"

definition sample_primitives :: "bytes \<Rightarrow> primitives" where
  "sample_primitives a0 =
     \<lparr>p_argon2 = (\<lambda>s t q. fit32 s), p_hkdf = (\<lambda>k i. fit32 k), p_hmac = (\<lambda>k d. fit32 d),
      p_sha256 = fit32,
      p_encrypt = (\<lambda>k n d a. d @ sample_tag a0 a),
      p_decrypt = (\<lambda>k n c a. if drop (length c - 16) c = sample_tag a0 a
                              then Some (take (length c - 16) c) else None)\<rparr>"

lemma length_fit32 [simp]: "length (fit32 b) = 32"
  by (simp add: fit32_def)

lemma sample_primitives_ok: "primitives_ok (sample_primitives a0)"
  by (simp add: primitives_ok_def sample_primitives_def sample_tag_def)

lemma sample_aad_bound: "aad_bound (sample_primitives a0) k n d a0"
  by (simp add: aad_bound_def sample_primitives_def sample_tag_def)

definition sample_key :: vault_key where
  "sample_key = \<lparr>vk_raw = replicate 32 5, vk_records = replicate 32 5, vk_index = replicate 32 5,
     vk_check = replicate 32 5\<rparr>"

definition sample_nonce :: bytes where
  "sample_nonce = replicate 12 0"

definition sample_ad :: bytes where
  "sample_ad = SEALED_VERSION @ FORMAT_LABEL @ be 4 5 @ ascii ''entry'' @ be 4 1 @ [7]"

lemma length_sample_nonce [simp]: "length sample_nonce = NONCE_BYTES"
  by (simp add: sample_nonce_def size_defs)

lemma sample_entry_ad: "entry_ad (Good [7]) = Inr sample_ad"
  by (simp add: entry_ad_def associated_data_def pack_u_def sample_ad_def)

lemma sample_aad_bound_at:
  "record_ad (EntryId (Good [7])) = Inr ad \<Longrightarrow> aad_bound (sample_primitives sample_ad) k n d ad"
  using sample_aad_bound [of sample_ad] by (simp add: sample_entry_ad)

lemmas kdf_bounds = DEFAULT_KDF_def MIN_MEMORY_KIB_def MAX_MEMORY_KIB_def MAX_ITERATIONS_def
  MAX_LANES_def

section \<open>Properties\<close>

text \<open>
  C16: A ciphertext opens in exactly one place. A value sealed for a record (entry, folder, group,
  attachment metadata or content, with the uids and owner its context names) opens as that
  record and as no other: not under another uid, another owner, another entry, and not in
  another role.
\<close>

theorem record_opens_only_as_sealed:
  assumes "primitives_ok P" and "length n = NONCE_BYTES" and "seal_record P k n i d = Inr s"
    and "\<And>ad. record_ad i = Inr ad \<Longrightarrow> aad_bound P (vk_records k) n (record_pad i d) ad"
  shows "(is_ok (open_record P k j (Good s)) \<longleftrightarrow> j = i)
    \<and> open_record P k i (Good s) = Inr (record_pad i d)"
proof -
  have same: "open_record P k i (Good s) = Inr (record_pad i d)"
    using record_kind.round_trip [OF assms(1,2,3)] .
  moreover have "j \<noteq> i \<Longrightarrow> \<not> is_ok (open_record P k j (Good s))"
    using record_kind.bound_to_identity [OF assms(4,2,3)] by fastforce
  ultimately show ?thesis by auto
qed

theorem record_opens_only_as_sealed_witness:
  "\<not> is_ok (open_record (sample_primitives sample_ad) sample_key (GroupId (Good [7]))
       (Good (seal (sample_primitives sample_ad) (vk_records sample_key) sample_nonce
          (padded [1, 2]) sample_ad)))"
  using record_opens_only_as_sealed [of "sample_primitives sample_ad" sample_nonce sample_key
      "EntryId (Good [7])" "[1, 2]" _ "GroupId (Good [7])", OF sample_primitives_ok _ _ sample_aad_bound_at]
  by (simp add: vk_seal_entry_def sample_entry_ad)

text \<open>
  No two names share a name index. The indexes of two different names (of entries, of folders
  of the same or of different owners, of groups) differ as soon as HMAC keeps the two encoded
  inputs apart: the prefixes with NUL separators make every input a different byte string.
\<close>

theorem name_indexes_separate:
  assumes "well_named x" and "well_named y"
    and "utf8 (index_text x) = Inr b" and "utf8 (index_text y) = Inr c"
    and "inj_on (p_hmac P (vk_index k)) {b, c}"
  shows "index_of P k x = index_of P k y \<longleftrightarrow> x = y"
proof
  assume "index_of P k x = index_of P k y"
  with assms(3,4) have "p_hmac P (vk_index k) b = p_hmac P (vk_index k) c"
    by (simp add: index_of_text)
  with assms(5) have "b = c"
    by (auto dest: inj_onD)
  with assms(3,4) have "index_text x = index_text y"
    by (auto intro: utf8_inject)
  with assms(1,2) show "x = y"
    by (rule index_text_inject)
qed simp

theorem name_indexes_separate_witness:
  "index_of (sample_primitives []) sample_key (FolderName 12 [97])
     \<noteq> index_of (sample_primitives []) sample_key (FolderName 1 [50, 97])"
proof -
  let ?b = "ascii ''folder'' @ [0, 49, 50, 0, 97]" and ?c = "ascii ''folder'' @ [0, 49, 0, 50, 97]"
  have "utf8 (index_text (FolderName 12 [97])) = Inr ?b"
      "utf8 (index_text (FolderName 1 [50, 97])) = Inr ?c"
    by code_simp+
  moreover have "fit32 ?b \<noteq> fit32 ?c"
    by code_simp
  then have "inj_on (p_hmac (sample_primitives []) (vk_index sample_key)) {?b, ?c}"
    by (simp add: inj_on_def sample_primitives_def)
  ultimately show ?thesis
    using name_indexes_separate [of "FolderName 12 [97]" "FolderName 1 [50, 97]" ?b ?c] by simp
qed

text \<open>
  Key material round trip. The password that created an account's key material unlocks exactly
  the vault key it was created with, and after the same key is wrapped again under another
  password, salt and KDF parameters, that password unlocks the same key.
\<close>

theorem key_material_round_trip:
  assumes "primitives_ok P" and "length n = NONCE_BYTES" and "length n' = NONCE_BYTES"
    and "create_key_material P salt raw n password q = Inr (m, k)"
    and "wrap_key_material P salt' n' password' k q' = Inr m'"
  shows "unlock_key_material P password m = Inr (Some k) \<and> vk_raw k = raw
    \<and> unlock_key_material P password' m' = Inr (Some k)"
proof -
  from assms(4) obtain derived where d: "argon2id P password salt q = Inr derived"
      and m: "seal_key_material P n derived raw q salt = Inr m" and k: "VaultKey P raw = Inr k"
    by (auto simp: create_key_material_def result_simps)
  from assms(5) obtain derived' where d': "argon2id P password' salt' q' = Inr derived'"
      and m': "seal_key_material P n' derived' (vk_raw k) q' salt' = Inr m'"
    by (auto simp: wrap_key_material_def result_simps)
  have raw: "vk_raw k = raw" using VaultKey_Inr [OF k] by simp
  have "open_key_material P derived m = Inr (Some k)"
    using open_seal_key_material [OF assms(1,2) m] k by auto
  moreover have "open_key_material P derived' m' = Inr (Some k)"
    using open_seal_key_material [OF assms(1,3) m'] k raw by auto
  ultimately show ?thesis
    using d d' m m' raw seal_key_material_params [OF m] seal_key_material_params [OF m']
    by (simp add: unlock_key_material_def)
qed

theorem key_material_round_trip_witness:
  "\<exists>m m' k. create_key_material (sample_primitives []) [1] (replicate 32 5) sample_nonce [97] DEFAULT_KDF
       = Inr (m, k)
     \<and> wrap_key_material (sample_primitives []) [2] sample_nonce [98] k DEFAULT_KDF = Inr m'
     \<and> unlock_key_material (sample_primitives []) [97] m = Inr (Some k)
     \<and> unlock_key_material (sample_primitives []) [98] m' = Inr (Some k)"
proof -
  obtain m k where m: "create_key_material (sample_primitives []) [1] (replicate 32 5) sample_nonce
      [97] DEFAULT_KDF = Inr (m, k)"
    by (simp add: create_key_material_def argon2id_def require_supported_def size_defs kdf_bounds
        utf8_char_def seal_key_material_def wrap_associated_data_def pack_u_def FORMAT_VERSION_def
        VaultKey_def)
  then have "vk_raw k = replicate 32 5"
    by (auto simp: create_key_material_def result_simps dest: VaultKey_Inr)
  then obtain m' where m': "wrap_key_material (sample_primitives []) [2] sample_nonce [98] k DEFAULT_KDF
      = Inr m'"
    by (simp add: wrap_key_material_def argon2id_def require_supported_def size_defs kdf_bounds
        utf8_char_def seal_key_material_def wrap_associated_data_def pack_u_def FORMAT_VERSION_def
        VaultKey_def)
  show ?thesis
    using key_material_round_trip [OF sample_primitives_ok _ _ m m'] m m'
    by (auto simp: sample_nonce_def size_defs)
qed

end
