(* ===== verification/Backup_Format.thy ===== *)
theory Backup_Format
  imports Crypto
begin

text \<open>
  The backup file (\<^verbatim>\<open>backend/backup_format.py\<close> and the \<^verbatim>\<open>Backup*\<close> classes of
  \<^verbatim>\<open>backend/helpers.py\<close>): the header, the frames, each encrypted and bound to the header, its
  position and whether it is the last, and the strict reader.
\<close>

section \<open>Sizes\<close>

definition BACKUP_MAGIC :: bytes where "BACKUP_MAGIC = ascii ''CMBACKUP''"
definition BACKUP_VERSION :: int where "BACKUP_VERSION = 2"
definition BACKUP_KDF_ARGON2ID :: int where "BACKUP_KDF_ARGON2ID = 1"
definition BACKUP_HEADER_BYTES :: nat where "BACKUP_HEADER_BYTES = 75"
definition MAX_FRAMES :: int where "MAX_FRAMES = 1000001"
definition MAX_MANIFEST_BYTES :: int where "MAX_MANIFEST_BYTES = 64 * 1024 * 1024"
definition MAX_ATTACHMENT_FRAME_BYTES :: int where "MAX_ATTACHMENT_FRAME_BYTES = 10 * 1024 * 1024"
definition MAX_ENTRY_FRAME_BYTES :: int where "MAX_ENTRY_FRAME_BYTES = 64 * 1024 * 1024"
definition FRAME_OVERHEAD :: nat where "FRAME_OVERHEAD = 4 + NONCE_BYTES + TAG_BYTES"
definition MAX_BACKUP_BYTES :: int where "MAX_BACKUP_BYTES = 1024 * 1024 * 1024"

section \<open>Header\<close>

record backup_header =
  bh_params :: kdf_params
  bh_salt :: bytes
  bh_frames :: int
  bh_commitment :: bytes

text \<open>A fixed-size byte field of \<^verbatim>\<open>struct.pack\<close>: cut or padded with zero bytes.\<close>

definition pack_s :: "nat \<Rightarrow> bytes \<Rightarrow> bytes" where
  "pack_s n b = take n (b @ replicate n 0)"

definition header_pack :: "backup_header \<Rightarrow> error + bytes" where
  "header_pack h =
     andThen (pack_u 2 BACKUP_VERSION) (\<lambda>version.
     andThen (pack_u 1 BACKUP_KDF_ARGON2ID) (\<lambda>kdf.
     andThen (pack_u 4 (memory_kib (bh_params h))) (\<lambda>memory.
     andThen (pack_u 4 (iterations (bh_params h))) (\<lambda>rounds.
     andThen (pack_u 4 (lanes (bh_params h))) (\<lambda>width.
     andThen (pack_u 4 (bh_frames h)) (\<lambda>frames.
     Inr (pack_s 8 BACKUP_MAGIC @ version @ kdf @ memory @ rounds @ width
       @ pack_s 16 (bh_salt h) @ frames @ pack_s 32 (bh_commitment h))))))))"

text \<open>Byte \<open>i\<close> up to \<open>i + n\<close> of the header.\<close>

definition field :: "nat \<Rightarrow> nat \<Rightarrow> bytes \<Rightarrow> bytes" where
  "field i n data = take n (drop i data)"

definition header_parse :: "bytes \<Rightarrow> error + backup_header" where
  "header_parse data =
     andThen (ensure (length data = BACKUP_HEADER_BYTES) BackupFormatError) (\<lambda>_.
     andThen (ensure (field 0 8 data = BACKUP_MAGIC) BackupFormatError) (\<lambda>_.
     andThen (ensure (int (un_be (field 8 2 data)) = BACKUP_VERSION) BackupFormatError) (\<lambda>_.
     andThen (ensure (int (un_be (field 10 1 data)) = BACKUP_KDF_ARGON2ID) BackupFormatError) (\<lambda>_.
     let params = \<lparr>memory_kib = int (un_be (field 11 4 data)), iterations = int (un_be (field 15 4 data)),
           lanes = int (un_be (field 19 4 data))\<rparr>;
         frames = int (un_be (field 39 4 data))
     in andThen (catching (\<lambda>_. BackupFormatError) (require_supported params)) (\<lambda>_.
        andThen (ensure (1 \<le> frames) BackupFormatError) (\<lambda>_.
        Inr \<lparr>bh_params = params, bh_salt = field 23 16 data, bh_frames = frames,
             bh_commitment = field 43 32 data\<rparr>))))))"

section \<open>Keys and frames\<close>

record backup_key =
  bk_frames :: bytes
  bk_commitment :: bytes

definition BackupKey :: "primitives \<Rightarrow> bytes \<Rightarrow> backup_key" where
  "BackupKey P derived =
     \<lparr>bk_frames = p_hkdf P derived (ascii ''ciphermoth/backup/v2/frame-encryption''),
      bk_commitment = p_hkdf P derived (ascii ''ciphermoth/backup/v2/key-commitment'')\<rparr>"

definition backup_key_matches :: "backup_key \<Rightarrow> backup_header \<Rightarrow> bool" where
  "backup_key_matches k h \<longleftrightarrow> bk_commitment k = bh_commitment h"

definition new_backup_key :: "primitives \<Rightarrow> bytes \<Rightarrow> ustr \<Rightarrow> kdf_params \<Rightarrow> error + bytes \<times> backup_key" where
  "new_backup_key P salt password q =
     andThen (argon2id P password salt q) (\<lambda>derived. Inr (salt, BackupKey P derived))"

definition backup_key_for :: "primitives \<Rightarrow> ustr \<Rightarrow> backup_header \<Rightarrow> error + backup_key" where
  "backup_key_for P password h =
     andThen (argon2id P password (bh_salt h) (bh_params h)) (\<lambda>derived. Inr (BackupKey P derived))"

definition frame_associated_data :: "bytes \<Rightarrow> int \<Rightarrow> bool \<Rightarrow> error + bytes" where
  "frame_associated_data header index is_last =
     andThen (pack_u 4 index) (\<lambda>i. Inr (header @ i @ [if is_last then 1 else 0]))"

definition seal_frame ::
    "primitives \<Rightarrow> backup_key \<Rightarrow> bytes \<Rightarrow> bytes \<Rightarrow> int \<Rightarrow> bool \<Rightarrow> bytes \<Rightarrow> error + bytes \<times> bytes" where
  "seal_frame P k nonce header index is_last plaintext =
     andThen (frame_associated_data header index is_last) (\<lambda>ad.
     Inr (nonce, p_encrypt P (bk_frames k) nonce plaintext ad))"

definition open_frame ::
    "primitives \<Rightarrow> backup_key \<Rightarrow> bytes \<Rightarrow> int \<Rightarrow> bool \<Rightarrow> bytes \<Rightarrow> bytes \<Rightarrow> error + bytes" where
  "open_frame P k header index is_last nonce ciphertext =
     andThen (frame_associated_data header index is_last) (\<lambda>ad.
     orElse (p_decrypt P (bk_frames k) nonce ciphertext ad) DecryptionFailed)"

section \<open>Writer\<close>

record backup_writer =
  bw_target :: bytes
  bw_key :: backup_key
  bw_header :: bytes
  bw_frames :: int
  bw_index :: int

definition BackupWriter :: "backup_key \<Rightarrow> backup_header \<Rightarrow> error + backup_writer" where
  "BackupWriter k h =
     andThen (header_pack h) (\<lambda>header.
     Inr \<lparr>bw_target = header, bw_key = k, bw_header = header, bw_frames = bh_frames h, bw_index = 0\<rparr>)"

definition writer_write :: "primitives \<Rightarrow> bytes \<Rightarrow> bytes \<Rightarrow> backup_writer \<Rightarrow> error + backup_writer" where
  "writer_write P nonce plaintext w =
     andThen (ensure (bw_index w < bw_frames w) ValueError) (\<lambda>_.
     andThen (seal_frame P (bw_key w) nonce (bw_header w) (bw_index w)
       (bw_index w = bw_frames w - 1) plaintext) (\<lambda>(nonce, ciphertext).
     andThen (pack_u 4 (int (length ciphertext))) (\<lambda>prefix.
     Inr (w\<lparr>bw_target := bw_target w @ prefix @ nonce @ ciphertext, bw_index := bw_index w + 1\<rparr>))))"

definition writer_finish :: "backup_writer \<Rightarrow> error + unit" where
  "writer_finish w = ensure (bw_index w = bw_frames w) ValueError"

section \<open>Reader\<close>

record backup_reader =
  br_raw :: bytes
  br_header :: backup_header
  br_index :: int

definition BackupReader :: "bytes \<Rightarrow> error + backup_reader \<times> bytes" where
  "BackupReader source =
     andThen (read_exactly BackupFormatError BACKUP_HEADER_BYTES source) (\<lambda>(raw, rest).
     andThen (header_parse raw) (\<lambda>h.
     andThen (ensure (bh_frames h \<le> MAX_FRAMES) BackupFormatError) (\<lambda>_.
     Inr (\<lparr>br_raw = raw, br_header = h, br_index = 0\<rparr>, rest))))"

definition remaining :: "backup_reader \<Rightarrow> int" where
  "remaining r = bh_frames (br_header r) - br_index r"

definition reader_read ::
    "primitives \<Rightarrow> backup_key \<Rightarrow> int \<Rightarrow> backup_reader \<Rightarrow> bytes \<Rightarrow> error + bytes \<times> backup_reader \<times> bytes" where
  "reader_read P k max_bytes r source =
     andThen (ensure (br_index r < bh_frames (br_header r)) BackupFormatError) (\<lambda>_.
     andThen (read_exactly BackupFormatError 4 source) (\<lambda>(prefix, source1).
     let n = un_be prefix
     in andThen (ensure (TAG_BYTES \<le> n \<and> int n \<le> max_bytes + int TAG_BYTES) BackupFormatError) (\<lambda>_.
        andThen (read_exactly BackupFormatError NONCE_BYTES source1) (\<lambda>(nonce, source2).
        andThen (read_exactly BackupFormatError n source2) (\<lambda>(ciphertext, rest).
        andThen (open_frame P k (br_raw r) (br_index r) (br_index r = bh_frames (br_header r) - 1)
          nonce ciphertext) (\<lambda>plaintext.
        Inr (plaintext, r\<lparr>br_index := br_index r + 1\<rparr>, rest)))))))"

definition reader_finish :: "backup_reader \<Rightarrow> bytes \<Rightarrow> error + unit" where
  "reader_finish r source =
     ensure (br_index r = bh_frames (br_header r) \<and> take 1 source = []) BackupFormatError"

section \<open>A whole file\<close>

text \<open>How a backup is written and read: every announced frame in order, then \<^verbatim>\<open>finish\<close>.\<close>

definition write_backup :: "primitives \<Rightarrow> backup_key \<Rightarrow> backup_header \<Rightarrow> (bytes \<times> bytes) list \<Rightarrow> error + bytes" where
  "write_backup P k h frames =
     andThen (BackupWriter k h) (\<lambda>w.
     andThen (fold_res (\<lambda>(nonce, p). writer_write P nonce p) frames w) (\<lambda>w'.
     andThen (writer_finish w') (\<lambda>_. Inr (bw_target w'))))"

definition read_backup :: "primitives \<Rightarrow> backup_key \<Rightarrow> int \<Rightarrow> bytes \<Rightarrow> error + bytes list" where
  "read_backup P k max_bytes source =
     andThen (BackupReader source) (\<lambda>(r, rest).
     andThen (reads (reader_read P k max_bytes) (nat (bh_frames (br_header r))) r rest) (\<lambda>(ps, r', rest').
     andThen (reader_finish r' rest') (\<lambda>_. Inr ps)))"

section \<open>Lemmas\<close>

lemma length_pack_s [simp]: "length (pack_s n b) = n"
  by (simp add: pack_s_def)

lemma pack_s_id: "length b = n \<Longrightarrow> pack_s n b = b"
  by (simp add: pack_s_def)

lemma pack_u_length: "pack_u n x = Inr b \<Longrightarrow> length b = n"
  by (simp add: pack_u_Inr)

lemma pack_u_un_be: "length b = n \<Longrightarrow> pack_u n (int (un_be b)) = Inr b"
proof -
  assume n: "length b = n"
  then have "int (un_be b) < 256 ^ n"
    using un_be_less [of b] by (metis of_nat_less_iff of_nat_numeral of_nat_power)
  with n show ?thesis by (simp add: pack_u_Inr be_un_be)
qed

lemma field_here: "length x = n \<Longrightarrow> field 0 n (x @ r) = x"
  by (simp add: field_def)

lemma field_skip: "length x = m \<Longrightarrow> field (m + i) n (x @ r) = field i n r"
  by (simp add: field_def)

lemma length_field: "i + n \<le> length data \<Longrightarrow> length (field i n data) = n"
  by (simp add: field_def)

lemma header_split:
  assumes "length data = 75"
  shows "data = field 0 8 data @ field 8 2 data @ field 10 1 data @ field 11 4 data @ field 15 4 data
    @ field 19 4 data @ field 23 16 data @ field 39 4 data @ field 43 32 data"
proof -
  have step: "drop i data = field i n data @ drop (i + n) data" for i n
    by (metis add.commute append_take_drop_id drop_drop field_def)
  have "data = drop 0 data" by simp
  also have "\<dots> = field 0 8 data @ drop 8 data" using step [of 0 8] by simp
  also have "drop 8 data = field 8 2 data @ drop 10 data" using step [of 8 2] by simp
  also have "drop 10 data = field 10 1 data @ drop 11 data" using step [of 10 1] by simp
  also have "drop 11 data = field 11 4 data @ drop 15 data" using step [of 11 4] by simp
  also have "drop 15 data = field 15 4 data @ drop 19 data" using step [of 15 4] by simp
  also have "drop 19 data = field 19 4 data @ drop 23 data" using step [of 19 4] by simp
  also have "drop 23 data = field 23 16 data @ drop 39 data" using step [of 23 16] by simp
  also have "drop 39 data = field 39 4 data @ drop 43 data" using step [of 39 4] by simp
  also have "drop 43 data = field 43 32 data"
    using assms by (simp add: field_def)
  finally show ?thesis .
qed

lemma header_pack_parse:
  assumes "header_parse data = Inr h"
  shows "header_pack h = Inr data" and "length (bh_salt h) = 16" and "length (bh_commitment h) = 32"
    and "is_ok (require_supported (bh_params h))" and "1 \<le> bh_frames h"
proof -
  from assms have len: "length data = 75" and magic: "field 0 8 data = BACKUP_MAGIC"
      and version: "int (un_be (field 8 2 data)) = BACKUP_VERSION"
      and kdf: "int (un_be (field 10 1 data)) = BACKUP_KDF_ARGON2ID"
      and h: "h = \<lparr>bh_params = \<lparr>memory_kib = int (un_be (field 11 4 data)),
          iterations = int (un_be (field 15 4 data)), lanes = int (un_be (field 19 4 data))\<rparr>,
        bh_salt = field 23 16 data, bh_frames = int (un_be (field 39 4 data)),
        bh_commitment = field 43 32 data\<rparr>"
      and ok: "is_ok (require_supported (bh_params h))" "1 \<le> bh_frames h"
    by (auto simp: header_parse_def BACKUP_HEADER_BYTES_def Let_def result_simps is_ok_iff)
  note lens = length_field [where data = data, unfolded len]
  show "is_ok (require_supported (bh_params h))" "1 \<le> bh_frames h" by (rule ok)+
  show "length (bh_salt h) = 16" "length (bh_commitment h) = 32"
    using lens by (simp_all add: h)
  have "header_pack h = Inr (pack_s 8 BACKUP_MAGIC @ field 8 2 data @ field 10 1 data @ field 11 4 data
      @ field 15 4 data @ field 19 4 data @ pack_s 16 (field 23 16 data) @ field 39 4 data
      @ pack_s 32 (field 43 32 data))"
    using lens by (simp add: header_pack_def h version [symmetric] kdf [symmetric] pack_u_un_be)
  also have "\<dots> = Inr data"
    using lens header_split [OF len] by (simp add: pack_s_id magic BACKUP_MAGIC_def)
  finally show "header_pack h = Inr data" .
qed

lemma header_pack_Inr:
  assumes "header_pack h = Inr data"
  obtains v k m r w f where "pack_u 2 BACKUP_VERSION = Inr v" "pack_u 1 BACKUP_KDF_ARGON2ID = Inr k"
    "pack_u 4 (memory_kib (bh_params h)) = Inr m" "pack_u 4 (iterations (bh_params h)) = Inr r"
    "pack_u 4 (lanes (bh_params h)) = Inr w" "pack_u 4 (bh_frames h) = Inr f"
    "data = pack_s 8 BACKUP_MAGIC @ v @ k @ m @ r @ w @ pack_s 16 (bh_salt h) @ f @ pack_s 32 (bh_commitment h)"
  using assms by (auto simp: header_pack_def result_simps)

lemma header_parse_pack:
  assumes "header_pack h = Inr data" and "length (bh_salt h) = 16" and "length (bh_commitment h) = 32"
    and "is_ok (require_supported (bh_params h))" and "1 \<le> bh_frames h"
  shows "header_parse data = Inr h"
proof -
  from assms(1) show ?thesis
  proof (rule header_pack_Inr)
    fix v k m r w f
    assume p: "pack_u 2 BACKUP_VERSION = Inr v" "pack_u 1 BACKUP_KDF_ARGON2ID = Inr k"
      "pack_u 4 (memory_kib (bh_params h)) = Inr m" "pack_u 4 (iterations (bh_params h)) = Inr r"
      "pack_u 4 (lanes (bh_params h)) = Inr w" "pack_u 4 (bh_frames h) = Inr f"
      and data: "data = pack_s 8 BACKUP_MAGIC @ v @ k @ m @ r @ w @ pack_s 16 (bh_salt h) @ f
        @ pack_s 32 (bh_commitment h)"
    have magic: "pack_s 8 BACKUP_MAGIC = BACKUP_MAGIC" "length BACKUP_MAGIC = 8"
      by (simp_all add: BACKUP_MAGIC_def pack_s_id)
    note len = p [THEN pack_u_length] and val = p [THEN un_be_pack_u]
    have fields: "field 0 8 data = BACKUP_MAGIC" "field 8 2 data = v" "field 10 1 data = k"
        "field 11 4 data = m" "field 15 4 data = r" "field 19 4 data = w"
        "field 23 16 data = bh_salt h" "field 39 4 data = f" "field 43 32 data = bh_commitment h"
        "length data = 75"
      using assms(2,3) len magic by (simp_all add: data field_def pack_s_id)
    obtain u where "require_supported (bh_params h) = Inr u" using assms(4) by (auto simp: is_ok_iff)
    with fields val assms(5) show "header_parse data = Inr h"
      by (cases h; cases "bh_params h") (simp add: header_parse_def BACKUP_HEADER_BYTES_def Let_def)
  qed
qed

lemma frame_associated_data_inject:
  assumes "length h = length h'" and "frame_associated_data h i l = Inr a"
    and "frame_associated_data h' i' l' = Inr a"
  shows "h = h' \<and> i = i' \<and> l = l'"
proof -
  from assms(2,3) obtain b b' where b: "pack_u 4 i = Inr b" "pack_u 4 i' = Inr b'"
      and a: "a = h @ b @ [if l then 1 else 0]" "a = h' @ b' @ [if l' then 1 else 0]"
    by (auto simp: frame_associated_data_def result_simps)
  from a assms(1) have "h = h'" "b @ [if l then 1 else 0] = b' @ [if l' then (1::byte) else 0]"
    by (auto simp: append_eq_append_conv)
  moreover from this have "b = b'" "l = l'" by (auto split: if_splits)
  moreover from b this un_be_pack_u have "i = i'" by metis
  ultimately show ?thesis by simp
qed

interpretation frame_reader: prefix_reader "reader_read P k max_bytes" for P k max_bytes
proof unfold_locales
  fix r source x r' rest
  assume run: "reader_read P k max_bytes r source = Inr (x, r', rest)"
  then obtain prefix s1 nonce s2 ciphertext where s: "source = prefix @ s1" "length prefix = 4"
      "s1 = nonce @ s2" "length nonce = NONCE_BYTES" "s2 = ciphertext @ rest"
      "length ciphertext = un_be prefix"
      and ok: "br_index r < bh_frames (br_header r)" "TAG_BYTES \<le> un_be prefix"
        "int (un_be prefix) \<le> max_bytes + int TAG_BYTES"
      and x: "open_frame P k (br_raw r) (br_index r) (br_index r = bh_frames (br_header r) - 1)
          nonce ciphertext = Inr x" "r' = r\<lparr>br_index := br_index r + 1\<rparr>"
    by (auto simp: reader_read_def Let_def result_simps read_exactly_Inr)
  let ?used = "prefix @ nonce @ ciphertext"
  have "reader_read P k max_bytes r (?used @ t) = Inr (x, r', t)" for t
    using s ok x by (simp add: reader_read_def Let_def read_exactly_def)
  moreover have "\<not> is_ok (reader_read P k max_bytes r v)" if "?used = v @ w" "w \<noteq> []" for v w
  proof
    assume "is_ok (reader_read P k max_bytes r v)"
    then obtain y r'' rest' where "reader_read P k max_bytes r v = Inr (y, r'', rest')"
      by (auto simp: is_ok_iff)
    then obtain prefix' t1 nonce' t2 c' where v: "v = prefix' @ t1" "length prefix' = 4"
        "t1 = nonce' @ t2" "length nonce' = NONCE_BYTES" "t2 = c' @ rest'" "length c' = un_be prefix'"
      by (auto simp: reader_read_def Let_def result_simps read_exactly_Inr)
    from that(1) v s(2) have "prefix' = prefix" by (auto simp: append_eq_append_conv)
    with v s have "length ?used \<le> length v" by simp
    with that show False by simp
  qed
  ultimately show "\<exists>used. source = used @ rest
      \<and> (\<forall>t. reader_read P k max_bytes r (used @ t) = Inr (x, r', t))
      \<and> (\<forall>v w. used = v @ w \<longrightarrow> w \<noteq> [] \<longrightarrow> \<not> is_ok (reader_read P k max_bytes r v))"
    using s by (intro exI [of _ ?used]) auto
qed

lemma written_frame_reads:
  assumes "primitives_ok P" and "length nonce = NONCE_BYTES" and "int (length p) \<le> max_bytes"
    and "writer_write P nonce p w = Inr w'"
    and "br_raw r = bw_header w" "br_index r = bw_index w" "bh_frames (br_header r) = bw_frames w"
  obtains out where "w' = w\<lparr>bw_target := bw_target w @ out, bw_index := bw_index w + 1\<rparr>"
    and "\<And>t. reader_read P (bw_key w) max_bytes r (out @ t) = Inr (p, r\<lparr>br_index := br_index r + 1\<rparr>, t)"
proof -
  from assms(4) obtain ad prefix where i: "bw_index w < bw_frames w"
      and ad: "frame_associated_data (bw_header w) (bw_index w) (bw_index w = bw_frames w - 1) = Inr ad"
      and prefix: "pack_u 4 (int (length (p_encrypt P (bk_frames (bw_key w)) nonce p ad))) = Inr prefix"
      and w': "w' = w\<lparr>bw_target := bw_target w @ prefix @ nonce @ p_encrypt P (bk_frames (bw_key w)) nonce p ad,
        bw_index := bw_index w + 1\<rparr>"
    by (auto simp: writer_write_def seal_frame_def result_simps)
  let ?c = "p_encrypt P (bk_frames (bw_key w)) nonce p ad"
  note P = primitives_okD [OF assms(1)]
  have n: "un_be prefix = length ?c" "length prefix = 4"
    using un_be_pack_u [OF prefix] pack_u_length [OF prefix] by simp_all
  have len: "length ?c = length p + TAG_BYTES" using P(2) by (simp add: size_defs)
  have "reader_read P (bw_key w) max_bytes r ((prefix @ nonce @ ?c) @ t)
      = Inr (p, r\<lparr>br_index := br_index r + 1\<rparr>, t)" for t
    using assms(2,3,5-7) i ad n len P(1)
    by (simp add: reader_read_def Let_def read_exactly_def open_frame_def)
  with w' that show thesis by blast
qed

lemma written_frames_read:
  assumes "primitives_ok P" and "\<And>n p. (n, p) \<in> set frames \<Longrightarrow> length n = NONCE_BYTES \<and> int (length p) \<le> max_bytes"
    and "fold_res (\<lambda>(nonce, p). writer_write P nonce p) frames w = Inr w'"
    and "br_raw r = bw_header w" "br_index r = bw_index w" "bh_frames (br_header r) = bw_frames w"
  shows "\<exists>out. bw_target w' = bw_target w @ out \<and> bw_index w' = bw_index w + int (length frames)
      \<and> bw_frames w' = bw_frames w
      \<and> (\<forall>t. reads (reader_read P (bw_key w) max_bytes) (length frames) r (out @ t)
             = Inr (map snd frames, r\<lparr>br_index := br_index r + int (length frames)\<rparr>, t))"
  using assms(2-6)
proof (induction frames arbitrary: w r)
  case (Cons f frames)
  obtain n p where f: "f = (n, p)" by (cases f)
  from Cons.prems(2) f obtain w1 where w1: "writer_write P n p w = Inr w1"
      and rest: "fold_res (\<lambda>(nonce, p). writer_write P nonce p) frames w1 = Inr w'"
    by (auto simp: result_simps)
  have np': "\<And>n p. (n, p) \<in> set frames \<Longrightarrow> length n = NONCE_BYTES \<and> int (length p) \<le> max_bytes"
    using Cons.prems(1) by auto
  have np: "length n = NONCE_BYTES" "int (length p) \<le> max_bytes" using Cons.prems(1) f by auto
  from written_frame_reads [OF assms(1) np w1 Cons.prems(3-5)] obtain out where
    out: "w1 = w\<lparr>bw_target := bw_target w @ out, bw_index := bw_index w + 1\<rparr>"
      "\<And>t. reader_read P (bw_key w) max_bytes r (out @ t) = Inr (p, r\<lparr>br_index := br_index r + 1\<rparr>, t)"
    by blast
  have "\<exists>out'. bw_target w' = bw_target w1 @ out' \<and> bw_index w' = bw_index w1 + int (length frames)
      \<and> bw_frames w' = bw_frames w1
      \<and> (\<forall>t. reads (reader_read P (bw_key w1) max_bytes) (length frames) (r\<lparr>br_index := br_index r + 1\<rparr>) (out' @ t)
             = Inr (map snd frames, r\<lparr>br_index := br_index r + 1 + int (length frames)\<rparr>, t))"
    using Cons.IH [OF np' rest, of "r\<lparr>br_index := br_index r + 1\<rparr>"] Cons.prems(3-5) out(1) by simp
  then obtain out' where o: "bw_target w' = bw_target w1 @ out'" "bw_index w' = bw_index w1 + int (length frames)"
      "bw_frames w' = bw_frames w1"
      "\<And>t. reads (reader_read P (bw_key w1) max_bytes) (length frames) (r\<lparr>br_index := br_index r + 1\<rparr>) (out' @ t)
        = Inr (map snd frames, r\<lparr>br_index := br_index r + 1 + int (length frames)\<rparr>, t)"
    by blast
  have "reads (reader_read P (bw_key w) max_bytes) (length (f # frames)) r ((out @ out') @ t)
      = Inr (map snd (f # frames), r\<lparr>br_index := br_index r + int (length (f # frames))\<rparr>, t)" for t
    using out o(4) [of t] by (simp add: f algebra_simps)
  with o out(1) show ?case
    by (intro exI [of _ "out @ out'"]) simp
qed simp

lemma BackupReader_Inr:
  "BackupReader source = Inr (r, rest) \<longleftrightarrow>
     (\<exists>raw h. source = raw @ rest \<and> length raw = BACKUP_HEADER_BYTES \<and> header_parse raw = Inr h
        \<and> bh_frames h \<le> MAX_FRAMES \<and> r = \<lparr>br_raw = raw, br_header = h, br_index = 0\<rparr>)"
  by (auto simp: BackupReader_def result_simps read_exactly_Inr)

section \<open>Properties\<close>

text \<open>
  The header is canonical. Parsing a packed header gives it back, and every byte string that
  parses is the packed form of what was parsed, with supported KDF parameters and at least one
  frame: no two files announce the same header in different bytes.
\<close>

theorem header_canonical:
  "header_parse data = Inr h \<longleftrightarrow>
     header_pack h = Inr data \<and> length (bh_salt h) = 16 \<and> length (bh_commitment h) = 32
     \<and> is_ok (require_supported (bh_params h)) \<and> 1 \<le> bh_frames h"
  using header_pack_parse header_parse_pack by blast

text \<open>
  C17: Backup round trip. A backup written with as many frames as its header announces is read back
  frame by frame to the same plaintexts, and the reader then finds the end of the file.
\<close>

theorem backup_round_trip:
  assumes "primitives_ok P" and "write_backup P k h frames = Inr file"
    and "length (bh_salt h) = 16" and "length (bh_commitment h) = 32"
    and "is_ok (require_supported (bh_params h))" and "1 \<le> bh_frames h" and "bh_frames h \<le> MAX_FRAMES"
    and "\<And>n p. (n, p) \<in> set frames \<Longrightarrow> length n = NONCE_BYTES \<and> int (length p) \<le> max_bytes"
  shows "read_backup P k max_bytes file = Inr (map snd frames)"
proof -
  from assms(2) obtain raw w where raw: "header_pack h = Inr raw"
      and w: "fold_res (\<lambda>(nonce, p). writer_write P nonce p) frames
        \<lparr>bw_target = raw, bw_key = k, bw_header = raw, bw_frames = bh_frames h, bw_index = 0\<rparr> = Inr w"
      and fin: "bw_index w = bw_frames w" and written: "file = bw_target w"
    by (auto simp: write_backup_def BackupWriter_def writer_finish_def result_simps)
  have parse: "header_parse raw = Inr h" using header_parse_pack [OF raw assms(3-6)] .
  then have len: "length raw = BACKUP_HEADER_BYTES" by (simp add: header_parse_def result_simps)
  let ?r = "\<lparr>br_raw = raw, br_header = h, br_index = 0\<rparr>"
  from written_frames_read [OF assms(1,8) w, where r = ?r] obtain out where
    out: "bw_target w = raw @ out" "bw_index w = int (length frames)" "bw_frames w = bh_frames h"
      "\<And>t. reads (reader_read P k max_bytes) (length frames) ?r (out @ t)
        = Inr (map snd frames, ?r\<lparr>br_index := int (length frames)\<rparr>, t)"
    by auto
  have start: "BackupReader file = Inr (?r, out)"
    using parse len assms(7) by (simp add: BackupReader_Inr written out(1))
  have "nat (bh_frames h) = length frames" using fin out by simp
  with out(4) [of "[]"] start fin out show ?thesis
    by (simp add: read_backup_def reader_finish_def)
qed

theorem backup_round_trip_witness:
  "\<exists>file. write_backup (sample_primitives []) (BackupKey (sample_primitives []) [1])
       \<lparr>bh_params = DEFAULT_KDF, bh_salt = replicate 16 0, bh_frames = 2, bh_commitment = replicate 32 0\<rparr>
       [(sample_nonce, [1, 2]), (sample_nonce, [3])] = Inr file
     \<and> read_backup (sample_primitives []) (BackupKey (sample_primitives []) [1]) 10 file = Inr [[1, 2], [3]]"
proof -
  let ?P = "sample_primitives []" and ?k = "BackupKey (sample_primitives []) [1]"
  let ?h = "\<lparr>bh_params = DEFAULT_KDF, bh_salt = replicate 16 0, bh_frames = 2, bh_commitment = replicate 32 0\<rparr>"
  have enc: "length (p_encrypt ?P k n d a) = length d + 16" for k n d a
    using primitives_okD(2) [OF sample_primitives_ok] .
  have "is_ok (write_backup ?P ?k ?h [(sample_nonce, [1, 2]), (sample_nonce, [3])])"
    by (simp add: write_backup_def BackupWriter_def header_pack_def pack_u_def BACKUP_VERSION_def
        BACKUP_KDF_ARGON2ID_def kdf_bounds writer_write_def seal_frame_def frame_associated_data_def
        writer_finish_def enc)
  then obtain out where written: "write_backup ?P ?k ?h [(sample_nonce, [1, 2]), (sample_nonce, [3])] = Inr out"
    by (auto simp: is_ok_iff)
  have "read_backup ?P ?k 10 out = Inr (map snd [(sample_nonce, [1, 2]), (sample_nonce, [3])])"
    by (rule backup_round_trip [OF sample_primitives_ok written])
      (auto simp: require_supported_def kdf_bounds MAX_FRAMES_def)
  with written show ?thesis by simp
qed

text \<open>
  C18: A backup is complete or refused. If a file reads as a backup, then no proper prefix of it and
  no longer file that starts with it does, under the same key: a backup cut short anywhere, also
  at a frame boundary, and one with anything after its last frame are rejected.
\<close>

theorem backup_complete_or_refused:
  assumes "read_backup P k max_bytes file = Inr ps" and "file = short @ extra" and "extra \<noteq> []"
  shows "\<not> is_ok (read_backup P k max_bytes short) \<and> \<not> is_ok (read_backup P k max_bytes (file @ extra))"
proof -
  from assms(1) obtain raw h rest r' where parts: "file = raw @ rest" "length raw = BACKUP_HEADER_BYTES"
      and h: "header_parse raw = Inr h" "bh_frames h \<le> MAX_FRAMES"
      and run: "reads (reader_read P k max_bytes) (nat (bh_frames h)) \<lparr>br_raw = raw, br_header = h, br_index = 0\<rparr> rest
        = Inr (ps, r', [])"
    by (auto simp: read_backup_def reader_finish_def result_simps BackupReader_Inr)
  let ?r = "\<lparr>br_raw = raw, br_header = h, br_index = 0\<rparr>"
  from frame_reader.reads_consume [OF run] have
    more: "\<And>t. reads (reader_read P k max_bytes) (nat (bh_frames h)) ?r (rest @ t) = Inr (ps, r', t)" and
    less: "\<And>v w. rest = v @ w \<Longrightarrow> w \<noteq> [] \<Longrightarrow> \<not> is_ok (reads (reader_read P k max_bytes) (nat (bh_frames h)) ?r v)"
    by auto
  have "BackupReader (file @ extra) = Inr (?r, rest @ extra)"
    using parts h by (simp add: BackupReader_Inr)
  with more [of extra] assms(3) have "\<not> is_ok (read_backup P k max_bytes (file @ extra))"
    by (simp add: read_backup_def reader_finish_def is_ok_iff result_simps)
  moreover have "\<not> is_ok (read_backup P k max_bytes short)"
  proof
    assume "is_ok (read_backup P k max_bytes short)"
    then obtain raw' h' v qs r'' where short: "short = raw' @ v" "length raw' = BACKUP_HEADER_BYTES"
        and h': "header_parse raw' = Inr h'"
        and run': "reads (reader_read P k max_bytes) (nat (bh_frames h'))
          \<lparr>br_raw = raw', br_header = h', br_index = 0\<rparr> v = Inr (qs, r'', [])"
      by (auto simp: is_ok_iff read_backup_def reader_finish_def result_simps BackupReader_Inr)
    from short parts assms(2) have "raw' = raw" "rest = v @ extra"
      by (auto simp: append_eq_append_conv)
    with less [of v extra] assms(3) h h' run' show False by (simp add: is_ok_iff)
  qed
  ultimately show ?thesis by blast
qed

theorem backup_complete_or_refused_witness:
  "\<exists>file. is_ok (read_backup (sample_primitives []) (BackupKey (sample_primitives []) [1]) 10 file)
     \<and> \<not> is_ok (read_backup (sample_primitives []) (BackupKey (sample_primitives []) [1]) 10 (butlast file))"
proof -
  let ?P = "sample_primitives []" and ?k = "BackupKey (sample_primitives []) [1]"
  let ?h = "\<lparr>bh_params = DEFAULT_KDF, bh_salt = replicate 16 0, bh_frames = 1, bh_commitment = replicate 32 0\<rparr>"
  let ?r = "\<lparr>br_raw = projr (header_pack ?h), br_header = ?h, br_index = 0\<rparr>"
  have raw: "header_pack ?h = Inr (projr (header_pack ?h))"
    by (simp add: header_pack_def pack_u_def BACKUP_VERSION_def BACKUP_KDF_ARGON2ID_def kdf_bounds)
  then have parse: "header_parse (projr (header_pack ?h)) = Inr ?h"
    by (rule header_parse_pack) (simp_all add: require_supported_def kdf_bounds)
  then have "length (projr (header_pack ?h)) = BACKUP_HEADER_BYTES" by (simp add: header_parse_def result_simps)
  with parse have start: "BackupReader (projr (header_pack ?h) @ t) = Inr (?r, t)" for t
    by (simp add: BackupReader_Inr MAX_FRAMES_def)
  obtain ad where ad: "frame_associated_data (projr (header_pack ?h)) 0 True = Inr ad"
    by (simp add: frame_associated_data_def pack_u_def)
  let ?c = "p_encrypt ?P (bk_frames ?k) sample_nonce [1] ad"
  let ?file = "projr (header_pack ?h) @ be 4 17 @ sample_nonce @ ?c"
  have c: "length ?c = 17" "p_decrypt ?P (bk_frames ?k) sample_nonce ?c ad = Some [1]"
    using primitives_okD(1,2) [OF sample_primitives_ok, of "[]" "bk_frames ?k" sample_nonce "[1]" ad] by simp_all
  have "reader_read ?P ?k 10 ?r (be 4 17 @ sample_nonce @ ?c) = Inr ([1], ?r\<lparr>br_index := 1\<rparr>, [])"
    using c ad by (simp add: reader_read_def read_exactly_def Let_def un_be_be open_frame_def size_defs sample_nonce_def)
  with start have ok: "read_backup ?P ?k 10 ?file = Inr [[1]]"
    by (simp add: read_backup_def reader_finish_def)
  have "?file \<noteq> []" by simp
  then have split: "?file = butlast ?file @ [last ?file]" by (rule append_butlast_last_id [symmetric])
  from backup_complete_or_refused [OF ok split] ok show ?thesis
    by (intro exI [of _ ?file]) simp
qed

text \<open>
  A frame opens only in its place. A frame sealed under a backup's header at one position, with
  its last-frame mark, opens under that header, position and mark and under no other: frames
  cannot be reordered, repeated, moved to another backup or promoted to the last one.
\<close>

theorem frame_opens_only_in_place:
  assumes "primitives_ok P" and "length h = BACKUP_HEADER_BYTES" and "length h' = BACKUP_HEADER_BYTES"
    and "seal_frame P k nonce h i l p = Inr (n, c)"
    and "\<And>ad. frame_associated_data h i l = Inr ad \<Longrightarrow> aad_bound P (bk_frames k) nonce p ad"
  shows "is_ok (open_frame P k h' i' l' n c) \<longleftrightarrow> h' = h \<and> i' = i \<and> l' = l"
proof -
  from assms(4) obtain ad where ad: "frame_associated_data h i l = Inr ad" and n: "n = nonce"
      and c: "c = p_encrypt P (bk_frames k) nonce p ad"
    by (auto simp: seal_frame_def result_simps)
  have "open_frame P k h i l n c = Inr p"
    using ad c n primitives_okD(1) [OF assms(1)] by (simp add: open_frame_def)
  moreover have "h' = h \<and> i' = i \<and> l' = l" if "is_ok (open_frame P k h' i' l' n c)"
  proof -
    from that obtain ad' q where ad': "frame_associated_data h' i' l' = Inr ad'"
        and "p_decrypt P (bk_frames k) nonce c ad' = Some q"
      by (auto simp: open_frame_def is_ok_iff result_simps n)
    with assms(5) [OF ad] c have "ad' = ad" by (auto simp: aad_bound_def)
    with ad ad' frame_associated_data_inject assms(2,3) show ?thesis by metis
  qed
  ultimately show ?thesis by auto
qed

theorem frame_opens_only_in_place_witness:
  "\<exists>c. seal_frame (sample_primitives (replicate 75 0 @ [0, 0, 0, 0, 0])) (BackupKey (sample_primitives []) [1])
        sample_nonce (replicate 75 0) 0 False [9] = Inr (sample_nonce, c)
     \<and> \<not> is_ok (open_frame (sample_primitives (replicate 75 0 @ [0, 0, 0, 0, 0]))
          (BackupKey (sample_primitives []) [1]) (replicate 75 0) 1 False sample_nonce c)"
proof -
  let ?a = "replicate 75 0 @ [0, 0, 0, 0, 0] :: bytes" and ?k = "BackupKey (sample_primitives []) [1]"
  have ad: "frame_associated_data (replicate 75 0) 0 False = Inr ?a"
    by code_simp
  then obtain c where c: "seal_frame (sample_primitives ?a) ?k sample_nonce (replicate 75 0) 0 False [9]
      = Inr (sample_nonce, c)"
    by (simp add: seal_frame_def)
  from ad have "\<And>x. frame_associated_data (replicate 75 0) 0 False = Inr x \<Longrightarrow>
      aad_bound (sample_primitives ?a) (bk_frames ?k) sample_nonce [9] x"
    using sample_aad_bound by simp
  from frame_opens_only_in_place [OF sample_primitives_ok _ _ c this, of "replicate 75 0" 1 False] c
  show ?thesis by (simp add: BACKUP_HEADER_BYTES_def)
qed

end
