(* ===== verification/Sessions.thy ===== *)
theory Sessions
  imports Complex_Main Crypto
begin

text \<open>
  Unlocked vault sessions (\<^verbatim>\<open>backend/vault_sessions.py\<close>). The store is an ordered dictionary
  from token digests to sessions, least recently used first; every operation takes the instant it
  reads from the clock. The two clocks are exact rationals in seconds in place of floats. An
  operation that raises still returns the store, because an expired session is deleted before the
  error and nothing rolls that back. The lock around each operation is the atomicity of one step.
\<close>

section \<open>State\<close>

record instant =
  monotonic :: rat
  wall :: rat

definition ms_since :: "instant \<Rightarrow> instant \<Rightarrow> rat" where
  "ms_since now earlier = 1000 * max (monotonic now - monotonic earlier) (wall now - wall earlier)"

record session =
  se_key :: vault_key
  se_user_id :: nat
  se_credential_fingerprint :: "bytes option"
  se_created :: instant
  se_last_used :: instant

record vault_sessions =
  vs_idle_timeout_ms :: int
  vs_tolerance_ms :: int
  vs_max_lifetime_ms :: int
  vs_max_sessions :: int
  vs_sessions :: "(bytes \<times> session) list"

record session_info =
  si_idle_timeout_ms :: int
  si_expires_in_ms :: int

definition EXPIRY_TOLERANCE_MS :: int where "EXPIRY_TOLERANCE_MS = 5000"
definition MAX_LIFETIME_MS :: int where "MAX_LIFETIME_MS = 12 * 60 * 60 * 1000"
definition DEFAULT_MAX_SESSIONS :: int where "DEFAULT_MAX_SESSIONS = 32"

definition VaultSessions :: "int \<Rightarrow> int \<Rightarrow> int \<Rightarrow> int \<Rightarrow> error + vault_sessions" where
  "VaultSessions idle tolerance lifetime max_sessions =
     andThen (ensure (1 \<le> max_sessions) ValueError) (\<lambda>_.
     Inr \<lparr>vs_idle_timeout_ms = idle, vs_tolerance_ms = tolerance, vs_max_lifetime_ms = lifetime,
          vs_max_sessions = max_sessions, vs_sessions = []\<rparr>)"

section \<open>Tokens\<close>

text \<open>\<^verbatim>\<open>[A-Za-z0-9_-]{43}\<close>, the whole token.\<close>

definition token_char :: "nat \<Rightarrow> bool" where
  "token_char c \<longleftrightarrow> (65 \<le> c \<and> c \<le> 90) \<or> (97 \<le> c \<and> c \<le> 122) \<or> (48 \<le> c \<and> c \<le> 57) \<or> c = 95 \<or> c = 45"

definition valid_token :: "ustr \<Rightarrow> bool" where
  "valid_token t \<longleftrightarrow> length t = 43 \<and> list_all token_char t"

definition digest :: "primitives \<Rightarrow> ustr \<Rightarrow> bytes" where
  "digest P token = p_sha256 P (map word_of_nat token)"

section \<open>Expiry\<close>

definition remaining_ms :: "vault_sessions \<Rightarrow> session \<Rightarrow> instant \<Rightarrow> bool \<Rightarrow> rat" where
  "remaining_ms vs s now tolerance =
     (let idle_limit = vs_idle_timeout_ms vs + (if tolerance then vs_tolerance_ms vs else 0)
      in min (of_int idle_limit - ms_since now (se_last_used s))
             (of_int (vs_max_lifetime_ms vs) - ms_since now (se_created s)))"

abbreviation expired :: "vault_sessions \<Rightarrow> instant \<Rightarrow> session \<Rightarrow> bool" where
  "expired vs now s \<equiv> remaining_ms vs s now True \<le> 0"

definition drop_expired :: "instant \<Rightarrow> vault_sessions \<Rightarrow> nat \<times> vault_sessions" where
  "drop_expired now vs =
     (length (filter (\<lambda>(_, s). expired vs now s) (vs_sessions vs)),
      vs\<lparr>vs_sessions := filter (\<lambda>(_, s). \<not> expired vs now s) (vs_sessions vs)\<rparr>)"

definition live ::
    "primitives \<Rightarrow> ustr option \<Rightarrow> instant \<Rightarrow> vault_sessions \<Rightarrow> (error + bytes \<times> session) \<times> vault_sessions"
  where
  "live P token now vs =
     (case token of
        None \<Rightarrow> (Inl SessionRequired, vs)
      | Some t \<Rightarrow>
          if \<not> valid_token t then (Inl SessionRequired, vs)
          else
            (case map_of (vs_sessions vs) (digest P t) of
               None \<Rightarrow> (Inl SessionRequired, vs)
             | Some s \<Rightarrow>
                 if expired vs now s
                 then (Inl SessionRequired,
                       vs\<lparr>vs_sessions := del_row fst (digest P t) (vs_sessions vs)\<rparr>)
                 else (Inr (digest P t, s), vs)))"

section \<open>Operations\<close>

definition set_idle_timeout :: "int \<Rightarrow> instant \<Rightarrow> vault_sessions \<Rightarrow> vault_sessions" where
  "set_idle_timeout idle now vs = (snd (drop_expired now vs))\<lparr>vs_idle_timeout_ms := idle\<rparr>"

text \<open>\<^verbatim>\<open>while len(sessions) >= max_sessions: sessions.popitem(last=False)\<close>.\<close>

fun evict :: "int \<Rightarrow> 'a list \<Rightarrow> 'a list" where
  "evict m [] = []"
| "evict m (x # xs) = (if m \<le> int (length (x # xs)) then evict m xs else x # xs)"

definition open_session ::
    "primitives \<Rightarrow> vault_key \<Rightarrow> nat \<Rightarrow> bytes option \<Rightarrow> ustr \<Rightarrow> instant \<Rightarrow> vault_sessions \<Rightarrow> vault_sessions"
  where
  "open_session P key user_id fingerprint token now vs =
     (let vs' = snd (drop_expired now vs)
      in vs'\<lparr>vs_sessions :=
           upsert fst (digest P token,
             \<lparr>se_key = key, se_user_id = user_id, se_credential_fingerprint = fingerprint,
              se_created = now, se_last_used = now\<rparr>)
           (evict (vs_max_sessions vs) (vs_sessions vs'))\<rparr>)"

text \<open>\<^verbatim>\<open>session.last_used = now; sessions.move_to_end(digest)\<close>.\<close>

definition touch :: "bytes \<Rightarrow> session \<Rightarrow> instant \<Rightarrow> vault_sessions \<Rightarrow> vault_sessions" where
  "touch dg s now vs =
     vs\<lparr>vs_sessions := del_row fst dg (vs_sessions vs) @ [(dg, s\<lparr>se_last_used := now\<rparr>)]\<rparr>"

definition resolve ::
    "primitives \<Rightarrow> ustr option \<Rightarrow> bool \<Rightarrow> instant \<Rightarrow> vault_sessions \<Rightarrow> (error + vault_key) \<times> vault_sessions"
  where
  "resolve P token refresh now vs =
     (case live P token now vs of
        (Inl e, vs') \<Rightarrow> (Inl e, vs')
      | (Inr (dg, s), vs') \<Rightarrow>
          (Inr (se_key s), if refresh then touch dg s now vs' else vs'))"

definition info ::
    "primitives \<Rightarrow> ustr option \<Rightarrow> instant \<Rightarrow> vault_sessions \<Rightarrow> (error + session_info) \<times> vault_sessions"
  where
  "info P token now vs =
     (case live P token now vs of
        (Inl e, vs') \<Rightarrow> (Inl e, vs')
      | (Inr (dg, s), vs') \<Rightarrow>
          (Inr \<lparr>si_idle_timeout_ms = vs_idle_timeout_ms vs',
                si_expires_in_ms = max 0 \<lfloor>remaining_ms vs' s now False\<rfloor>\<rparr>, vs'))"

definition session_user_id ::
    "primitives \<Rightarrow> ustr option \<Rightarrow> instant \<Rightarrow> vault_sessions \<Rightarrow> (error + nat) \<times> vault_sessions" where
  "session_user_id P token now vs =
     (case live P token now vs of
        (Inl e, vs') \<Rightarrow> (Inl e, vs')
      | (Inr (dg, s), vs') \<Rightarrow> (Inr (se_user_id s), vs'))"

definition session_credential_fingerprint ::
    "primitives \<Rightarrow> ustr option \<Rightarrow> instant \<Rightarrow> vault_sessions \<Rightarrow>
       (error + bytes option) \<times> vault_sessions" where
  "session_credential_fingerprint P token now vs =
     (case live P token now vs of
        (Inl e, vs') \<Rightarrow> (Inl e, vs')
      | (Inr (dg, s), vs') \<Rightarrow> (Inr (se_credential_fingerprint s), vs'))"

definition user_ids :: "vault_sessions \<Rightarrow> nat list" where
  "user_ids vs = map (\<lambda>(_, s). se_user_id s) (vs_sessions vs)"

definition revoke ::
    "primitives \<Rightarrow> ustr option \<Rightarrow> vault_sessions \<Rightarrow> bool \<times> vault_sessions" where
  "revoke P token vs =
     (case token of
        None \<Rightarrow> (False, vs)
      | Some t \<Rightarrow>
          if \<not> valid_token t then (False, vs)
          else (map_of (vs_sessions vs) (digest P t) \<noteq> None,
                vs\<lparr>vs_sessions := del_row fst (digest P t) (vs_sessions vs)\<rparr>))"

definition revoke_all :: "vault_sessions \<Rightarrow> nat \<times> vault_sessions" where
  "revoke_all vs = (length (vs_sessions vs), vs\<lparr>vs_sessions := []\<rparr>)"

definition revoke_user :: "nat \<Rightarrow> vault_sessions \<Rightarrow> nat \<times> vault_sessions" where
  "revoke_user uid vs =
     (length (filter (\<lambda>(_, s). se_user_id s = uid) (vs_sessions vs)),
      vs\<lparr>vs_sessions := filter (\<lambda>(_, s). se_user_id s \<noteq> uid) (vs_sessions vs)\<rparr>)"

text \<open>\<^verbatim>\<open>token.encode("ascii")\<close> refuses other characters before anything is revoked.\<close>

definition revoke_user_except ::
    "primitives \<Rightarrow> nat \<Rightarrow> ustr \<Rightarrow> vault_sessions \<Rightarrow> error + nat \<times> vault_sessions" where
  "revoke_user_except P uid token vs =
     andThen (ensure (list_all (\<lambda>c. c < 128) token) ValueError) (\<lambda>_.
     Inr (length (filter (\<lambda>(dg, s). se_user_id s = uid \<and> dg \<noteq> digest P token) (vs_sessions vs)),
          vs\<lparr>vs_sessions :=
            filter (\<lambda>(dg, s). \<not> (se_user_id s = uid \<and> dg \<noteq> digest P token)) (vs_sessions vs)\<rparr>))"

section \<open>The store as a state machine\<close>

datatype session_op =
    OpOpen vault_key nat "bytes option" ustr
  | OpSetIdleTimeout int
  | OpResolve "ustr option" bool
  | OpInfo "ustr option"
  | OpUserId "ustr option"
  | OpFingerprint "ustr option"
  | OpRevoke "ustr option"
  | OpRevokeAll
  | OpRevokeUser nat
  | OpRevokeUserExcept nat ustr
  | OpDropExpired

fun perform :: "primitives \<Rightarrow> session_op \<Rightarrow> instant \<Rightarrow> vault_sessions \<Rightarrow> vault_sessions" where
  "perform P (OpOpen k u f t) now vs = open_session P k u f t now vs"
| "perform P (OpSetIdleTimeout i) now vs = set_idle_timeout i now vs"
| "perform P (OpResolve t r) now vs = snd (resolve P t r now vs)"
| "perform P (OpInfo t) now vs = snd (info P t now vs)"
| "perform P (OpUserId t) now vs = snd (session_user_id P t now vs)"
| "perform P (OpFingerprint t) now vs = snd (session_credential_fingerprint P t now vs)"
| "perform P (OpRevoke t) now vs = snd (revoke P t vs)"
| "perform P OpRevokeAll now vs = snd (revoke_all vs)"
| "perform P (OpRevokeUser u) now vs = snd (revoke_user u vs)"
| "perform P (OpRevokeUserExcept u t) now vs =
     (case revoke_user_except P u t vs of Inl e \<Rightarrow> vs | Inr (_, vs') \<Rightarrow> vs')"
| "perform P OpDropExpired now vs = snd (drop_expired now vs)"

text \<open>
  One step performs an operation at the instant the operation read. The clock is read before the
  lock is taken, so the instants of consecutive steps of different threads come in any order.
\<close>

inductive session_step ::
    "primitives \<Rightarrow> vault_sessions \<Rightarrow> session_op \<times> instant \<Rightarrow> vault_sessions \<Rightarrow> bool"
  for P where
  step: "session_step P vs (op, now) (perform P op now vs)"

inductive_simps session_step_iff: "session_step P vs (op, now) vs'"

section \<open>Lemmas\<close>

lemma map_of_del_row: "map_of (del_row fst k xs) j = (if j = k then None else map_of xs j)"
  by (induction xs) (auto simp: del_row_def)

lemma map_of_row_of: "map_of xs k = map_option snd (row_of fst k xs)"
  by (induction xs) auto

lemma map_of_upsert: "map_of (upsert fst (k, v) xs) j = (if j = k then Some v else map_of xs j)"
  by (simp add: map_of_row_of row_simps)

lemma length_upsert: "length (upsert key r rows) \<le> Suc (length rows)"
  by (simp add: upsert_def set_row_def)

lemma evict_suffix: "\<exists>ys. xs = ys @ evict m xs"
proof (induction xs)
  case (Cons x xs)
  then obtain ys where ys: "xs = ys @ evict m xs" by blast
  show ?case
  proof (cases "m \<le> int (length (x # xs))")
    case True
    have "x # xs = (x # ys) @ evict m xs" using ys by simp
    with True show ?thesis by (metis evict.simps(2))
  next
    case False
    then show ?thesis by (intro exI [of _ "[]"]) simp
  qed
qed simp

lemma set_evict: "set (evict m xs) \<subseteq> set xs"
  using evict_suffix [of xs m] by (metis Un_upper2 set_append)

lemma drop_expired_sessions [simp]:
  "vs_sessions (snd (drop_expired now vs)) =
     filter (\<lambda>(_, s). \<not> expired vs now s) (vs_sessions vs)"
  by (simp add: drop_expired_def)

lemma evict_length: "1 \<le> m \<Longrightarrow> int (length (evict m xs)) < m"
  by (induction xs) auto

lemma evict_id: "int (length xs) < m \<Longrightarrow> evict m xs = xs"
  by (cases xs) auto

lemma evict_drop: "1 \<le> m \<Longrightarrow> evict m xs = drop (length xs - nat (m - 1)) xs"
proof (induction xs)
  case (Cons x xs)
  show ?case
  proof (cases "m \<le> int (length (x # xs))")
    case True
    then have "length (x # xs) - nat (m - 1) = Suc (length xs - nat (m - 1))"
      using Cons.prems by (simp add: Suc_diff_le nat_le_iff)
    with True Cons show ?thesis by simp
  next
    case False
    then have "length (x # xs) - nat (m - 1) = 0" by simp
    with False show ?thesis by simp
  qed
qed simp

lemma live_cases:
  obtains (refused) "live P token now vs = (Inl SessionRequired, vs)"
      "\<And>t. token = Some t \<Longrightarrow> valid_token t \<Longrightarrow> map_of (vs_sessions vs) (digest P t) = None"
  | (ended) t s where "token = Some t" "valid_token t" "map_of (vs_sessions vs) (digest P t) = Some s"
      "expired vs now s"
      "live P token now vs =
         (Inl SessionRequired, vs\<lparr>vs_sessions := del_row fst (digest P t) (vs_sessions vs)\<rparr>)"
  | (found) t s where "token = Some t" "valid_token t" "map_of (vs_sessions vs) (digest P t) = Some s"
      "\<not> expired vs now s" "live P token now vs = (Inr (digest P t, s), vs)"
  by (cases token; cases "valid_token (the token)"; cases "map_of (vs_sessions vs) (digest P (the token))";
      cases "expired vs now (the (map_of (vs_sessions vs) (digest P (the token))))")
    (auto simp: live_def)

text \<open>Every operation but \<open>open\<close> only removes digests; refreshing moves one to the end.\<close>

definition digests :: "vault_sessions \<Rightarrow> bytes set" where
  "digests vs = fst ` set (vs_sessions vs)"

lemma digests_map_of: "dg \<in> digests vs \<longleftrightarrow> map_of (vs_sessions vs) dg \<noteq> None"
  by (auto simp: digests_def map_of_eq_None_iff)

lemma live_store:
  "snd (live P token now vs) = vs \<or>
   (\<exists>dg. snd (live P token now vs) = vs\<lparr>vs_sessions := del_row fst dg (vs_sessions vs)\<rparr>)"
  by (cases rule: live_cases [of P token now vs]) auto

lemma live_subset: "set (vs_sessions (snd (live P token now vs))) \<subseteq> set (vs_sessions vs)"
  using live_store [of P token now vs] by (auto simp: set_del_row)

lemma resolve_digests: "digests (snd (resolve P token refresh now vs)) \<subseteq> digests vs"
proof (cases rule: live_cases [of P token now vs])
  case (found t s)
  then have "digest P t \<in> digests vs" by (simp add: digests_map_of)
  with found show ?thesis
    by (auto simp: resolve_def touch_def digests_def set_del_row)
qed (auto simp: resolve_def digests_def set_del_row split: prod.splits sum.splits)

lemma reader_store:
  "snd (info P token now vs) = snd (live P token now vs)"
  "snd (session_user_id P token now vs) = snd (live P token now vs)"
  "snd (session_credential_fingerprint P token now vs) = snd (live P token now vs)"
  by (auto simp: info_def session_user_id_def session_credential_fingerprint_def
      split: prod.splits sum.splits)

definition opened :: "primitives \<Rightarrow> session_op \<Rightarrow> bytes set" where
  "opened P op = (case op of OpOpen k u f t \<Rightarrow> {digest P t} | _ \<Rightarrow> {})"

lemma open_session_digests:
  "digests (open_session P k u f t now vs) \<subseteq> insert (digest P t) (digests vs)"
  using set_evict [of "vs_max_sessions vs" "filter (\<lambda>(_, s). \<not> expired vs now s) (vs_sessions vs)"]
  by (fastforce simp: open_session_def digests_def set_upsert Let_def)

lemma revoke_user_except_store:
  "(case revoke_user_except P u t vs of Inl e \<Rightarrow> vs | Inr (_, vs') \<Rightarrow> vs') =
     (if list_all (\<lambda>c. c < 128) t
      then vs\<lparr>vs_sessions :=
            filter (\<lambda>(dg, s). \<not> (se_user_id s = u \<and> dg \<noteq> digest P t)) (vs_sessions vs)\<rparr>
      else vs)"
  by (simp add: revoke_user_except_def)

text \<open>Every operation but \<open>open\<close> and a refreshing \<open>resolve\<close> leaves a sublist of the store.\<close>

lemma remover_subset:
  assumes "\<And>k u f t. op \<noteq> OpOpen k u f t" and "\<And>t. op \<noteq> OpResolve t True"
  shows "\<exists>Q. vs_sessions (perform P op now vs) = filter Q (vs_sessions vs)"
proof -
  have all: "\<exists>Q. vs_sessions vs = filter Q (vs_sessions vs)"
    by (rule exI [of _ "\<lambda>_. True"]) simp
  have live: "\<exists>Q. vs_sessions (snd (live P token now vs)) = filter Q (vs_sessions vs)" for token
    using live_store [of P token now vs] all by (auto simp: del_row_def)
  show ?thesis
  proof (cases op)
    case (OpResolve t r)
    with assms(2) have "snd (resolve P t r now vs) = snd (live P t now vs)"
      by (auto simp: resolve_def split: prod.splits sum.splits)
    with OpResolve live show ?thesis by simp
  next
    case (OpRevoke t)
    with all show ?thesis by (auto simp: revoke_def del_row_def split: option.splits)
  next
    case (OpRevokeUserExcept u t)
    with all show ?thesis by (auto simp: revoke_user_except_store simp del: filter_False)
  next
    case OpRevokeAll
    then show ?thesis by (auto simp: revoke_all_def intro!: exI [of _ "\<lambda>_. False"])
  qed (use assms(1) live in \<open>auto simp: reader_store set_idle_timeout_def revoke_user_def\<close>)
qed

lemma perform_digests: "digests (perform P op now vs) \<subseteq> digests vs \<union> opened P op"
proof -
  consider k u f t where "op = OpOpen k u f t" | t where "op = OpResolve t True"
    | "\<And>k u f t. op \<noteq> OpOpen k u f t" "\<And>t. op \<noteq> OpResolve t True"
    by (cases op) auto
  then show ?thesis
  proof cases
    case 1
    then show ?thesis using open_session_digests by (fastforce simp: opened_def)
  next
    case 2
    then show ?thesis using resolve_digests by fastforce
  next
    case 3
    from remover_subset [OF 3, of P now vs] show ?thesis by (auto simp: digests_def)
  qed
qed


section \<open>The store invariant\<close>

definition store_ok :: "vault_sessions \<Rightarrow> bool" where
  "store_ok vs \<longleftrightarrow> 1 \<le> vs_max_sessions vs \<and> int (length (vs_sessions vs)) \<le> vs_max_sessions vs
     \<and> distinct (map fst (vs_sessions vs))"

lemma perform_config:
  "vs_max_sessions (perform P op now vs) = vs_max_sessions vs"
  "vs_max_lifetime_ms (perform P op now vs) = vs_max_lifetime_ms vs"
  "vs_tolerance_ms (perform P op now vs) = vs_tolerance_ms vs"
  by (cases op; auto simp: open_session_def set_idle_timeout_def drop_expired_def reader_store
      revoke_def revoke_all_def revoke_user_def revoke_user_except_store resolve_def touch_def
      live_def Let_def split: option.splits)+

lemma store_ok_filter:
  assumes "store_ok vs" and "vs_sessions vs' = filter Q (vs_sessions vs)"
    and "vs_max_sessions vs' = vs_max_sessions vs"
  shows "store_ok vs'"
proof -
  have "int (length (filter Q (vs_sessions vs))) \<le> int (length (vs_sessions vs))"
    by simp
  also have "\<dots> \<le> vs_max_sessions vs"
    using assms(1) by (simp add: store_ok_def)
  finally have "int (length (filter Q (vs_sessions vs))) \<le> vs_max_sessions vs" .
  with assms show ?thesis
    by (auto simp: store_ok_def distinct_map_filter)
qed

lemma store_ok_touch:
  assumes "store_ok vs" and "map_of (vs_sessions vs) dg = Some s"
  shows "store_ok (touch dg s now vs)"
proof -
  let ?rest = "del_row fst dg (vs_sessions vs)"
  have "dg \<in> fst ` set (vs_sessions vs)"
    using assms(2) by (metis map_of_eq_None_iff option.distinct(1))
  then have "length ?rest < length (vs_sessions vs)"
    unfolding del_row_def by (auto intro: length_filter_less)
  then show ?thesis
    using assms(1) by (auto simp: store_ok_def touch_def set_del_row distinct_del_row)
qed

lemma distinct_evict: "distinct (map fst xs) \<Longrightarrow> distinct (map fst (evict m xs))"
  using evict_suffix [of xs m] by (metis distinct_append map_append)

lemma store_ok_open:
  assumes "store_ok vs"
  shows "store_ok (open_session P k u f tok now vs)"
proof -
  let ?kept = "evict (vs_max_sessions vs) (filter (\<lambda>(_, s). \<not> expired vs now s) (vs_sessions vs))"
  have "distinct (map fst ?kept)"
    using assms by (intro distinct_evict) (simp add: store_ok_def distinct_map_filter)
  moreover have "int (length ?kept) < vs_max_sessions vs"
    using assms by (simp add: evict_length store_ok_def)
  ultimately show ?thesis
    using assms length_upsert
    by (auto simp: store_ok_def open_session_def Let_def drop_expired_def distinct_upsert
        intro: order_trans [OF of_nat_mono [OF length_upsert]])
qed

lemma store_ok_perform: "store_ok vs \<Longrightarrow> store_ok (perform P op now vs)"
proof -
  assume ok: "store_ok vs"
  consider k u f t where "op = OpOpen k u f t" | t where "op = OpResolve t True"
    | "\<And>k u f t. op \<noteq> OpOpen k u f t" "\<And>t. op \<noteq> OpResolve t True"
    by (cases op) auto
  then show ?thesis
  proof cases
    case 1
    with ok show ?thesis by (simp add: store_ok_open)
  next
    case (2 t)
    show ?thesis
    proof (cases rule: live_cases [of P t now vs])
      case (found tok s)
      with ok 2 show ?thesis by (simp add: resolve_def store_ok_touch)
    next
      case refused
      with ok 2 show ?thesis by (simp add: resolve_def split: prod.splits sum.splits)
    next
      case (ended tok s)
      with 2 have "vs_sessions (perform P op now vs) = del_row fst (digest P tok) (vs_sessions vs)"
        by (simp add: resolve_def split: prod.splits sum.splits)
      with ok show ?thesis by (auto intro: store_ok_filter simp: del_row_def perform_config)
    qed
  next
    case 3
    from remover_subset [OF 3, of P now vs] ok show ?thesis
      by (auto intro: store_ok_filter simp: perform_config)
  qed
qed

text \<open>
  Two invariants of every history of the store: it stays within its capacity with one session per
  digest, and a digest it does not hold stays out as long as no operation opens it.
\<close>

interpretation bounded: step_invariant "session_step P" "\<lambda>_. True" store_ok for P
  by unfold_locales (auto elim!: session_step.cases intro: store_ok_perform)

interpretation gone: step_invariant "session_step P" "\<lambda>(op, _). dg \<notin> opened P op"
    "\<lambda>vs. dg \<notin> digests vs" for P dg
  using perform_digests by unfold_locales (fastforce elim!: session_step.cases)

section \<open>What a lookup decides\<close>

lemma live_Inr:
  "fst (live P token now vs) = Inr (dg, s) \<longleftrightarrow>
     (\<exists>t. token = Some t \<and> valid_token t \<and> dg = digest P t
       \<and> map_of (vs_sessions vs) dg = Some s \<and> \<not> expired vs now s)"
  by (cases rule: live_cases [of P token now vs]) (auto simp: live_def split: option.splits if_splits)

lemma live_unheld: "token = Some t \<Longrightarrow> digest P t \<notin> digests vs \<Longrightarrow> fst (live P token now vs) = Inl SessionRequired"
  by (auto simp: live_def digests_map_of)

lemma resolve_fst: "fst (resolve P token refresh now vs) = map_sum id (\<lambda>(_, s). se_key s) (fst (live P token now vs))"
  by (cases rule: live_cases [of P token now vs]) (auto simp: resolve_def)

lemma live_error: "fst (live P token now vs) = Inl e \<Longrightarrow> e = SessionRequired"
  by (cases rule: live_cases [of P token now vs]) auto

lemma failed_resolve_unheld:
  assumes "fst (resolve P (Some t) refresh now vs) = Inl e" and "valid_token t"
  shows "digest P t \<notin> digests (snd (resolve P (Some t) refresh now vs))"
proof (cases rule: live_cases [of P "Some t" now vs])
  case refused
  with assms show ?thesis
    by (simp add: resolve_def digests_map_of)
next
  case (ended t s)
  with assms show ?thesis by (auto simp: resolve_def digests_def set_del_row)
next
  case (found t s)
  with assms show ?thesis by (simp add: resolve_def)
qed

lemma ms_since_triangle: "ms_since c a \<le> ms_since c b + ms_since b a"
  by (simp add: ms_since_def max_def)

section \<open>A concrete store\<close>

definition sample_token :: ustr where "sample_token = replicate 43 65"

definition sample_store :: vault_sessions where
  "sample_store = \<lparr>vs_idle_timeout_ms = 1000, vs_tolerance_ms = EXPIRY_TOLERANCE_MS,
     vs_max_lifetime_ms = MAX_LIFETIME_MS, vs_max_sessions = 1, vs_sessions =
       [(digest (sample_primitives []) sample_token,
         \<lparr>se_key = sample_key, se_user_id = 1, se_credential_fingerprint = None,
          se_created = \<lparr>monotonic = 0, wall = 0\<rparr>, se_last_used = \<lparr>monotonic = 0, wall = 0\<rparr>\<rparr>)]\<rparr>"

lemma valid_sample_token [simp]: "valid_token sample_token"
  by code_simp

lemmas sample_store_defs = sample_store_def EXPIRY_TOLERANCE_MS_def MAX_LIFETIME_MS_def
  live_def remaining_ms_def ms_since_def

section \<open>Properties\<close>

text \<open>
  The session store is bounded. From its construction, whatever operations run in whatever
  order and at whatever clock readings, it holds at most \<open>max_sessions\<close> sessions, with at most
  one session per token digest.
\<close>

theorem sessions_bounded:
  assumes "VaultSessions idle tolerance lifetime m = Inr vs\<^sub>0"
    and "runs (session_step P) vs\<^sub>0 ops vs"
  shows "int (length (vs_sessions vs)) \<le> m \<and> distinct (map fst (vs_sessions vs))"
proof -
  from assms(1) have "store_ok vs\<^sub>0" and m: "vs_max_sessions vs\<^sub>0 = m"
    by (auto simp: VaultSessions_def store_ok_def result_simps)
  then have "store_ok vs"
    using bounded.along_runs [OF assms(2)] by (simp add: list_all_iff)
  moreover have "vs_max_sessions vs = m"
    using assms(2) m
    by (induction rule: runs.induct) (auto elim!: session_step.cases simp: perform_config)
  ultimately show ?thesis by (simp add: store_ok_def)
qed

theorem sessions_bounded_witness:
  "int (length (vs_sessions (open_session (sample_primitives []) sample_key 2 None (replicate 43 66)
      \<lparr>monotonic = 2, wall = 2\<rparr> (open_session (sample_primitives []) sample_key 1 None sample_token
      \<lparr>monotonic = 1, wall = 1\<rparr> (sample_store\<lparr>vs_sessions := []\<rparr>))))) \<le> 1"
proof -
  let ?vs = "sample_store\<lparr>vs_sessions := []\<rparr>"
  have "VaultSessions 1000 EXPIRY_TOLERANCE_MS MAX_LIFETIME_MS 1 = Inr ?vs"
    by (simp add: VaultSessions_def sample_store_def)
  from sessions_bounded [OF this, of "sample_primitives []"
      "[(OpOpen sample_key 1 None sample_token, \<lparr>monotonic = 1, wall = 1\<rparr>),
        (OpOpen sample_key 2 None (replicate 43 66), \<lparr>monotonic = 2, wall = 2\<rparr>)]"]
  show ?thesis by (simp add: runs_Cons_iff session_step_iff)
qed

text \<open>
  C30: An ended session can never be used again. Once a token has been refused, every later request
  with it is refused, whatever happens in between and whatever the clocks read, as long as no
  newly opened session draws a token with the same digest.
\<close>

theorem ended_session_stays_ended:
  assumes "fst (resolve P (Some t) refresh now vs) = Inl e"
    and "runs (session_step P) (snd (resolve P (Some t) refresh now vs)) ops vs'"
    and "list_all (\<lambda>(op, _). digest P t \<notin> opened P op) ops"
  shows "fst (resolve P (Some t) refresh' now' vs') = Inl SessionRequired"
proof (cases "valid_token t")
  case True
  have "digest P t \<notin> digests vs'"
    using gone.along_runs [OF assms(2,3)] failed_resolve_unheld [OF assms(1) True] by simp
  then show ?thesis by (simp add: resolve_fst live_unheld)
qed (simp add: resolve_fst live_def)

theorem ended_session_stays_ended_witness:
  "fst (resolve (sample_primitives []) (Some sample_token) True \<lparr>monotonic = 1, wall = 1\<rparr>
     (set_idle_timeout 100000000 \<lparr>monotonic = 6, wall = 6\<rparr>
       (snd (resolve (sample_primitives []) (Some sample_token) True \<lparr>monotonic = 6, wall = 6\<rparr> sample_store))))
   = Inl SessionRequired"
proof -
  let ?now = "\<lparr>monotonic = 6, wall = 6\<rparr>"
  have "fst (resolve (sample_primitives []) (Some sample_token) True ?now sample_store) = Inl SessionRequired"
    by (simp add: resolve_fst sample_store_defs)
  then show ?thesis
    by (rule ended_session_stays_ended [where ops = "[(OpSetIdleTimeout 100000000, ?now)]"])
      (simp_all add: runs_Cons_iff session_step_iff opened_def)
qed

text \<open>
  C29: What a token resolves to. A request obtains a key exactly when its token is well formed, its
  digest is stored, neither clock has run the idle timeout plus tolerance since the last use, and
  neither has run the absolute lifetime since the session was opened; the key is that session's.
\<close>

theorem resolve_exact:
  "fst (resolve P token refresh now vs) = Inr key \<longleftrightarrow>
     (\<exists>t s. token = Some t \<and> valid_token t \<and> map_of (vs_sessions vs) (digest P t) = Some s
       \<and> se_key s = key
       \<and> ms_since now (se_last_used s) < of_int (vs_idle_timeout_ms vs + vs_tolerance_ms vs)
       \<and> ms_since now (se_created s) < of_int (vs_max_lifetime_ms vs))"
proof -
  have "\<not> expired vs now s \<longleftrightarrow>
      ms_since now (se_last_used s) < of_int (vs_idle_timeout_ms vs + vs_tolerance_ms vs)
      \<and> ms_since now (se_created s) < of_int (vs_max_lifetime_ms vs)" for s
    by (auto simp: remaining_ms_def min_def)
  note limits = this
  have "fst (resolve P token refresh now vs) = Inr key \<longleftrightarrow>
      (\<exists>dg s. fst (live P token now vs) = Inr (dg, s) \<and> se_key s = key)"
    by (cases "fst (live P token now vs)") (auto simp: resolve_fst)
  then show ?thesis unfolding live_Inr limits by blast
qed

text \<open>
  Opening a session evicts the least recently used ones. The new session goes to the end of the
  store; before it stay the last \<open>max_sessions - 1\<close> sessions that have not expired, in their
  order; and the new token resolves to the new session's key.
\<close>

theorem open_evicts_least_recently_used:
  assumes "1 \<le> vs_max_sessions vs" and "digest P t \<notin> digests vs"
  shows "vs_sessions (open_session P key u f t now vs) =
      (let unexpired = filter (\<lambda>(_, s). \<not> expired vs now s) (vs_sessions vs)
       in drop (length unexpired - nat (vs_max_sessions vs - 1)) unexpired)
      @ [(digest P t, \<lparr>se_key = key, se_user_id = u, se_credential_fingerprint = f,
           se_created = now, se_last_used = now\<rparr>)]
    \<and> (valid_token t \<and> 0 < vs_idle_timeout_ms vs + vs_tolerance_ms vs \<and> 0 < vs_max_lifetime_ms vs
       \<longrightarrow> fst (resolve P (Some t) refresh now (open_session P key u f t now vs)) = Inr key)"
proof
  let ?kept = "evict (vs_max_sessions vs) (filter (\<lambda>(_, s). \<not> expired vs now s) (vs_sessions vs))"
  have "digest P t \<notin> fst ` set ?kept"
    using assms(2) set_evict [of "vs_max_sessions vs"
        "filter (\<lambda>(_, s). \<not> expired vs now s) (vs_sessions vs)"]
    by (auto simp: digests_def)
  then show "vs_sessions (open_session P key u f t now vs) =
      (let unexpired = filter (\<lambda>(_, s). \<not> expired vs now s) (vs_sessions vs)
       in drop (length unexpired - nat (vs_max_sessions vs - 1)) unexpired)
      @ [(digest P t, \<lparr>se_key = key, se_user_id = u, se_credential_fingerprint = f,
           se_created = now, se_last_used = now\<rparr>)]"
    using assms(1) by (simp add: open_session_def Let_def upsert_def row_of_None evict_drop drop_expired_def)
  show "valid_token t \<and> 0 < vs_idle_timeout_ms vs + vs_tolerance_ms vs \<and> 0 < vs_max_lifetime_ms vs
       \<longrightarrow> fst (resolve P (Some t) refresh now (open_session P key u f t now vs)) = Inr key"
    by (simp add: resolve_fst live_def open_session_def Let_def map_of_upsert drop_expired_def
        remaining_ms_def ms_since_def min_le_iff_disj flip: of_int_add)
qed

theorem open_evicts_least_recently_used_witness:
  "map fst (vs_sessions (open_session (sample_primitives []) sample_key 2 None (replicate 43 66)
     \<lparr>monotonic = 1, wall = 1\<rparr> sample_store)) = [digest (sample_primitives []) (replicate 43 66)]"
proof -
  have "digest (sample_primitives []) (replicate 43 66) \<noteq> digest (sample_primitives []) sample_token"
    by code_simp
  then have "digest (sample_primitives []) (replicate 43 66) \<notin> digests sample_store"
    by (simp add: digests_def sample_store_def)
  moreover have "vs_max_sessions sample_store = 1" by (simp add: sample_store_def)
  ultimately show ?thesis
    using open_evicts_least_recently_used [of sample_store "sample_primitives []" "replicate 43 66"
        sample_key 2 None "\<lparr>monotonic = 1, wall = 1\<rparr>"] by (simp add: Let_def)
qed

text \<open>
  Raising the idle timeout revives nothing. A token that resolves right after the timeout was
  changed, to any value, also resolved to the same key before the change.
\<close>

theorem set_idle_timeout_revives_nothing:
  assumes "fst (resolve P token refresh now (set_idle_timeout idle now vs)) = Inr key"
    and "distinct (map fst (vs_sessions vs))"
  shows "fst (resolve P token refresh now vs) = Inr key"
proof -
  let ?vs' = "set_idle_timeout idle now vs"
  from assms(1) obtain t s where t: "token = Some t" "valid_token t"
      "map_of (vs_sessions ?vs') (digest P t) = Some s" "se_key s = key"
    by (cases rule: live_cases [of P token now ?vs']) (auto simp: resolve_fst)
  then have "(digest P t, s) \<in> set (vs_sessions ?vs')"
    by (simp add: map_of_SomeD)
  then have "(digest P t, s) \<in> set (vs_sessions vs)" and "\<not> expired vs now s"
    by (auto simp: set_idle_timeout_def)
  with t assms(2) show ?thesis by (simp add: resolve_fst live_def)
qed

theorem set_idle_timeout_revives_nothing_witness:
  "fst (resolve (sample_primitives []) (Some sample_token) True \<lparr>monotonic = 3, wall = 3\<rparr> sample_store)
     = Inr sample_key"
  by (rule set_idle_timeout_revives_nothing [where idle = 9000])
    (simp_all add: resolve_fst sample_store_defs set_idle_timeout_def drop_expired_def)

text \<open>
  The remaining time a session is told is honoured. If \<^verbatim>\<open>info\<close> reports that a session
  expires in some number of milliseconds, then reporting it changed nothing of the session, and a
  request that arrives before either clock has advanced by that much is served.
\<close>

theorem reported_time_is_honoured:
  assumes "fst (info P token now vs) = Inr i" and "0 \<le> vs_tolerance_ms vs"
    and "ms_since now' now < of_int (si_expires_in_ms i)"
  shows "snd (info P token now vs) = vs \<and> is_ok (fst (resolve P token refresh now' vs))"
proof -
  from assms(1) obtain t s where t: "token = Some t" "valid_token t"
      "map_of (vs_sessions vs) (digest P t) = Some s"
      and live: "\<not> expired vs now s"
      and i: "si_expires_in_ms i = max 0 \<lfloor>remaining_ms vs s now False\<rfloor>"
      and store: "snd (info P token now vs) = vs"
    by (cases rule: live_cases [of P token now vs]) (auto simp: info_def)
  have later: "remaining_ms vs s now tol - ms_since now' now \<le> remaining_ms vs s now' tol" for tol
    using ms_since_triangle [of now' "se_last_used s" now] ms_since_triangle [of now' "se_created s" now]
    by (auto simp: remaining_ms_def min_def Let_def)
  have "remaining_ms vs s now' False \<le> remaining_ms vs s now' True"
    using assms(2) by (auto simp: remaining_ms_def min_def Let_def)
  moreover have "ms_since now' now < remaining_ms vs s now False \<or> ms_since now' now < 0"
    using assms(3) i
    by (auto simp: max_def split: if_splits intro: less_le_trans [OF _ of_int_floor_le])
  ultimately have "0 < remaining_ms vs s now' True"
    using later [of False] later [of True] live by linarith
  with t store show ?thesis by (simp add: resolve_fst live_def)
qed

theorem reported_time_is_honoured_witness:
  "is_ok (fst (resolve (sample_primitives []) (Some sample_token) True
     \<lparr>monotonic = 9 / 10, wall = 9 / 10\<rparr> sample_store))"
proof -
  have "fst (info (sample_primitives []) (Some sample_token) \<lparr>monotonic = 0, wall = 0\<rparr> sample_store)
      = Inr \<lparr>si_idle_timeout_ms = 1000, si_expires_in_ms = 1000\<rparr>"
    by (simp add: info_def sample_store_defs)
  from reported_time_is_honoured [OF this, of "\<lparr>monotonic = 9 / 10, wall = 9 / 10\<rparr>"]
  show ?thesis by (simp add: ms_since_def sample_store_def EXPIRY_TOLERANCE_MS_def)
qed

end
