(* ===== verification/Models.thy ===== *)
theory Models
  imports Crypto
begin

text \<open>
  The tables of the vault file (\<^verbatim>\<open>backend/models.py\<close>): one record per row type, the database
  as the record of its tables, and what SQLite does for the code, that is autoincremented ids,
  uniqueness constraints at insert and update, and the foreign-key actions of a delete. The
  \<^verbatim>\<open>created\<close> and \<^verbatim>\<open>updated\<close> columns are kept where the code reads them (entries, attachments,
  audit events). A flush that breaks a constraint is \<open>Inl IntegrityError\<close>. The length checks on
  uids and indexes are left out: both are written from 16 random bytes and a 32-byte HMAC.
\<close>

section \<open>Rows\<close>

datatype user_role = Admin | Member | Service

datatype share_permission = Read | Write

datatype entry_permission = Owner | ReadAccess | WriteAccess

text \<open>The key-material columns that \<^verbatim>\<open>vault\<close> and \<^verbatim>\<open>users\<close> share.\<close>

record key_columns =
  kc_kdf :: string
  kc_memory_kib :: "int cell"
  kc_iterations :: "int cell"
  kc_lanes :: "int cell"
  kc_salt :: "bytes cell"
  kc_password_check :: "bytes cell"
  kc_wrapped_key :: "bytes cell"
  kc_key_check :: "bytes cell"

record vault_row =
  v_format_version :: int
  v_folder_links_ready :: bool
  v_owner_user_id :: "nat option"
  v_cols :: key_columns

record user_row =
  u_id :: nat
  u_username :: ustr
  u_role :: user_role
  u_active :: bool
  u_must_change_password :: bool
  u_service_owner_id :: "nat option"
  u_service_token_hash :: "bytes option"
  u_cols :: key_columns

record entry_row =
  e_id :: nat
  e_uid :: "bytes cell"
  e_created :: "time cell"
  e_updated :: "time cell"
  e_deleted :: "time cell option"
  e_owner_id :: "nat option"
  e_folder_id :: "nat option"
  e_name_index :: "bytes cell"
  e_document :: "bytes cell"
  e_backed_up :: bool

record entry_access_row =
  ea_entry_id :: nat
  ea_user_id :: nat
  ea_permission :: share_permission
  ea_expires_at :: "time option"
  ea_granted_by :: "nat option"

record folder_row =
  f_id :: nat
  f_uid :: "bytes cell"
  f_owner_id :: nat
  f_name_index :: "bytes cell"
  f_document :: "bytes cell"

record group_row =
  g_id :: nat
  g_uid :: "bytes cell"
  g_name_index :: "bytes cell"
  g_document :: "bytes cell"

record group_member_row =
  gm_group_id :: nat
  gm_user_id :: nat
  gm_added_by :: "nat option"

record folder_user_access_row =
  fu_folder_id :: nat
  fu_user_id :: nat
  fu_permission :: share_permission
  fu_expires_at :: "time option"
  fu_granted_by :: "nat option"

record folder_group_access_row =
  fg_folder_id :: nat
  fg_group_id :: nat
  fg_permission :: share_permission
  fg_expires_at :: "time option"
  fg_granted_by :: "nat option"

record access_audit_row =
  au_id :: nat
  au_created :: time
  au_actor_user_id :: "nat option"
  au_action :: string
  au_resource_type :: string
  au_resource_id :: nat
  au_target_user_id :: "nat option"
  au_target_group_id :: "nat option"
  au_permission :: "share_permission option"
  au_expires_at :: "time option"
  au_previous_permission :: "share_permission option"
  au_previous_expires_at :: "time option"

record attachment_row =
  at_id :: nat
  at_uid :: "bytes cell"
  at_created :: "time cell"
  at_entry_id :: nat
  at_size_bytes :: "int cell"
  at_meta :: "bytes cell"
  at_content :: "bytes cell"

record settings_row =
  s_inactivity_ms :: int
  s_warn_before_ms :: int
  s_hidden_ms :: int
  s_debounce_ms :: int
  s_clipboard_clear_ms :: int
  s_update_check_enabled :: bool

section \<open>The database\<close>

text \<open>
  The \<open>seq\<close> fields are SQLite's autoincrement counters: the largest id ever given out, so an id
  is never reused after a delete.
\<close>

record db =
  vault :: "vault_row option"
  users :: "user_row list"
  entries :: "entry_row list"
  entry_access :: "entry_access_row list"
  folders :: "folder_row list"
  groups :: "group_row list"
  group_members :: "group_member_row list"
  folder_user_access :: "folder_user_access_row list"
  folder_group_access :: "folder_group_access_row list"
  access_audit :: "access_audit_row list"
  attachments :: "attachment_row list"
  settings :: "settings_row option"
  seq_users :: nat
  seq_entries :: nat
  seq_folders :: nat
  seq_groups :: nat
  seq_audit :: nat
  seq_attachments :: nat

definition empty_db :: db where
  "empty_db = \<lparr>vault = None, users = [], entries = [], entry_access = [], folders = [],
     groups = [], group_members = [], folder_user_access = [], folder_group_access = [],
     access_audit = [], attachments = [], settings = None, seq_users = 0, seq_entries = 0,
     seq_folders = 0, seq_groups = 0, seq_audit = 0, seq_attachments = 0\<rparr>"

section \<open>Lookups by primary key\<close>

abbreviation ea_key :: "entry_access_row \<Rightarrow> nat \<times> nat" where
  "ea_key r \<equiv> (ea_entry_id r, ea_user_id r)"

abbreviation fu_key :: "folder_user_access_row \<Rightarrow> nat \<times> nat" where
  "fu_key r \<equiv> (fu_folder_id r, fu_user_id r)"

abbreviation fg_key :: "folder_group_access_row \<Rightarrow> nat \<times> nat" where
  "fg_key r \<equiv> (fg_folder_id r, fg_group_id r)"

abbreviation gm_key :: "group_member_row \<Rightarrow> nat \<times> nat" where
  "gm_key r \<equiv> (gm_group_id r, gm_user_id r)"

definition get_user :: "db \<Rightarrow> nat \<Rightarrow> user_row option" where
  "get_user d i = row_of u_id i (users d)"

definition get_entry :: "db \<Rightarrow> nat \<Rightarrow> entry_row option" where
  "get_entry d i = row_of e_id i (entries d)"

definition get_folder :: "db \<Rightarrow> nat \<Rightarrow> folder_row option" where
  "get_folder d i = row_of f_id i (folders d)"

definition get_group :: "db \<Rightarrow> nat \<Rightarrow> group_row option" where
  "get_group d i = row_of g_id i (groups d)"

definition get_attachment :: "db \<Rightarrow> nat \<Rightarrow> attachment_row option" where
  "get_attachment d i = row_of at_id i (attachments d)"

definition get_entry_access :: "db \<Rightarrow> nat \<times> nat \<Rightarrow> entry_access_row option" where
  "get_entry_access d k = row_of ea_key k (entry_access d)"

definition get_folder_user_access :: "db \<Rightarrow> nat \<times> nat \<Rightarrow> folder_user_access_row option" where
  "get_folder_user_access d k = row_of fu_key k (folder_user_access d)"

definition get_folder_group_access :: "db \<Rightarrow> nat \<times> nat \<Rightarrow> folder_group_access_row option" where
  "get_folder_group_access d k = row_of fg_key k (folder_group_access d)"

definition get_group_member :: "db \<Rightarrow> nat \<times> nat \<Rightarrow> group_member_row option" where
  "get_group_member d k = row_of gm_key k (group_members d)"

section \<open>Writes and constraints\<close>

text \<open>The uniqueness constraints a flush of the table checks.\<close>

definition active_indexes :: "entry_row list \<Rightarrow> bytes cell list" where
  "active_indexes rows = map e_name_index (filter (\<lambda>e. e_deleted e = None) rows)"

definition entries_unique :: "entry_row list \<Rightarrow> bool" where
  "entries_unique rows \<longleftrightarrow> distinct (active_indexes rows) \<and> distinct (map e_uid rows)"

definition folders_unique :: "folder_row list \<Rightarrow> bool" where
  "folders_unique rows \<longleftrightarrow>
     distinct (map (\<lambda>f. (f_owner_id f, f_name_index f)) rows) \<and> distinct (map f_uid rows)"

definition groups_unique :: "group_row list \<Rightarrow> bool" where
  "groups_unique rows \<longleftrightarrow> distinct (map g_name_index rows) \<and> distinct (map g_uid rows)"

definition users_unique :: "user_row list \<Rightarrow> bool" where
  "users_unique rows \<longleftrightarrow>
     distinct (map u_username rows) \<and>
     distinct (map u_service_token_hash (filter (\<lambda>u. u_service_token_hash u \<noteq> None) rows))"

definition attachments_unique :: "attachment_row list \<Rightarrow> bool" where
  "attachments_unique rows \<longleftrightarrow> distinct (map at_uid rows)"

text \<open>
  Inserts give the row the next id; inserts and updates fail when a constraint would break.
\<close>

definition insert_entry :: "entry_row \<Rightarrow> db \<Rightarrow> error + nat \<times> db" where
  "insert_entry e d =
     (let i = Suc (seq_entries d); rows = entries d @ [e\<lparr>e_id := i\<rparr>]
      in andThen (ensure (entries_unique rows) IntegrityError) (\<lambda>_.
         Inr (i, d\<lparr>entries := rows, seq_entries := i\<rparr>)))"

text \<open>
  An update that changes a column also sets \<^verbatim>\<open>updated\<close> (\<^verbatim>\<open>onupdate=utc_now\<close>); one that
  changes nothing is not sent to the database.
\<close>

definition update_entry :: "time \<Rightarrow> entry_row \<Rightarrow> db \<Rightarrow> error + db" where
  "update_entry now e d =
     (if e \<in> set (entries d) then Inr d
      else
        let rows = set_row e_id (e\<lparr>e_updated := Good now\<rparr>) (entries d)
        in andThen (ensure (entries_unique rows) IntegrityError) (\<lambda>_. Inr (d\<lparr>entries := rows\<rparr>)))"

text \<open>An update that keeps \<^verbatim>\<open>updated\<close> as it is (\<^verbatim>\<open>flag_modified(entry, "updated")\<close>).\<close>

definition rewrite_entry :: "entry_row \<Rightarrow> db \<Rightarrow> error + db" where
  "rewrite_entry e d =
     (let rows = set_row e_id e (entries d)
      in andThen (ensure (entries_unique rows) IntegrityError) (\<lambda>_. Inr (d\<lparr>entries := rows\<rparr>)))"

definition insert_folder :: "folder_row \<Rightarrow> db \<Rightarrow> error + nat \<times> db" where
  "insert_folder f d =
     (let i = Suc (seq_folders d); rows = folders d @ [f\<lparr>f_id := i\<rparr>]
      in andThen (ensure (folders_unique rows) IntegrityError) (\<lambda>_.
         Inr (i, d\<lparr>folders := rows, seq_folders := i\<rparr>)))"

definition update_folder :: "folder_row \<Rightarrow> db \<Rightarrow> error + db" where
  "update_folder f d =
     (let rows = set_row f_id f (folders d)
      in andThen (ensure (folders_unique rows) IntegrityError) (\<lambda>_. Inr (d\<lparr>folders := rows\<rparr>)))"

definition insert_group :: "group_row \<Rightarrow> db \<Rightarrow> error + nat \<times> db" where
  "insert_group g d =
     (let i = Suc (seq_groups d); rows = groups d @ [g\<lparr>g_id := i\<rparr>]
      in andThen (ensure (groups_unique rows) IntegrityError) (\<lambda>_.
         Inr (i, d\<lparr>groups := rows, seq_groups := i\<rparr>)))"

definition update_group :: "group_row \<Rightarrow> db \<Rightarrow> error + db" where
  "update_group g d =
     (let rows = set_row g_id g (groups d)
      in andThen (ensure (groups_unique rows) IntegrityError) (\<lambda>_. Inr (d\<lparr>groups := rows\<rparr>)))"

definition insert_user :: "user_row \<Rightarrow> db \<Rightarrow> error + nat \<times> db" where
  "insert_user u d =
     (let i = Suc (seq_users d); rows = users d @ [u\<lparr>u_id := i\<rparr>]
      in andThen (ensure (users_unique rows) IntegrityError) (\<lambda>_.
         Inr (i, d\<lparr>users := rows, seq_users := i\<rparr>)))"

definition update_user_row :: "user_row \<Rightarrow> db \<Rightarrow> error + db" where
  "update_user_row u d =
     (let rows = set_row u_id u (users d)
      in andThen (ensure (users_unique rows) IntegrityError) (\<lambda>_. Inr (d\<lparr>users := rows\<rparr>)))"

definition insert_attachment :: "attachment_row \<Rightarrow> db \<Rightarrow> error + nat \<times> db" where
  "insert_attachment a d =
     (let i = Suc (seq_attachments d); rows = attachments d @ [a\<lparr>at_id := i\<rparr>]
      in andThen (ensure (attachments_unique rows) IntegrityError) (\<lambda>_.
         Inr (i, d\<lparr>attachments := rows, seq_attachments := i\<rparr>)))"

definition update_attachment :: "attachment_row \<Rightarrow> db \<Rightarrow> error + db" where
  "update_attachment a d =
     (let rows = set_row at_id a (attachments d)
      in andThen (ensure (attachments_unique rows) IntegrityError) (\<lambda>_. Inr (d\<lparr>attachments := rows\<rparr>)))"

definition insert_audit :: "access_audit_row \<Rightarrow> db \<Rightarrow> db" where
  "insert_audit a d =
     d\<lparr>access_audit := access_audit d @ [a\<lparr>au_id := Suc (seq_audit d)\<rparr>],
       seq_audit := Suc (seq_audit d)\<rparr>"

definition put_entry_access :: "entry_access_row \<Rightarrow> db \<Rightarrow> db" where
  "put_entry_access r d = d\<lparr>entry_access := upsert ea_key r (entry_access d)\<rparr>"

definition put_folder_user_access :: "folder_user_access_row \<Rightarrow> db \<Rightarrow> db" where
  "put_folder_user_access r d = d\<lparr>folder_user_access := upsert fu_key r (folder_user_access d)\<rparr>"

definition put_folder_group_access :: "folder_group_access_row \<Rightarrow> db \<Rightarrow> db" where
  "put_folder_group_access r d =
     d\<lparr>folder_group_access := upsert fg_key r (folder_group_access d)\<rparr>"

definition put_group_member :: "group_member_row \<Rightarrow> db \<Rightarrow> db" where
  "put_group_member r d = d\<lparr>group_members := upsert gm_key r (group_members d)\<rparr>"

definition delete_entry_access :: "nat \<times> nat \<Rightarrow> db \<Rightarrow> db" where
  "delete_entry_access k d = d\<lparr>entry_access := del_row ea_key k (entry_access d)\<rparr>"

definition delete_folder_user_access :: "nat \<times> nat \<Rightarrow> db \<Rightarrow> db" where
  "delete_folder_user_access k d =
     d\<lparr>folder_user_access := del_row fu_key k (folder_user_access d)\<rparr>"

definition delete_folder_group_access :: "nat \<times> nat \<Rightarrow> db \<Rightarrow> db" where
  "delete_folder_group_access k d =
     d\<lparr>folder_group_access := del_row fg_key k (folder_group_access d)\<rparr>"

definition delete_group_member :: "nat \<times> nat \<Rightarrow> db \<Rightarrow> db" where
  "delete_group_member k d = d\<lparr>group_members := del_row gm_key k (group_members d)\<rparr>"

text \<open>Deletes follow the declared \<^verbatim>\<open>ON DELETE\<close> actions: CASCADE, SET NULL and RESTRICT.\<close>

definition delete_entry_row :: "nat \<Rightarrow> db \<Rightarrow> db" where
  "delete_entry_row i d =
     d\<lparr>entries := del_row e_id i (entries d),
       entry_access := filter (\<lambda>r. ea_entry_id r \<noteq> i) (entry_access d),
       attachments := filter (\<lambda>a. at_entry_id a \<noteq> i) (attachments d)\<rparr>"

definition delete_attachment_row :: "nat \<Rightarrow> db \<Rightarrow> db" where
  "delete_attachment_row i d = d\<lparr>attachments := del_row at_id i (attachments d)\<rparr>"

definition delete_folder_row :: "nat \<Rightarrow> db \<Rightarrow> error + db" where
  "delete_folder_row i d =
     andThen (ensure (\<forall>e \<in> set (entries d). e_folder_id e \<noteq> Some i) IntegrityError) (\<lambda>_.
     Inr (d\<lparr>folders := del_row f_id i (folders d),
            folder_user_access := filter (\<lambda>r. fu_folder_id r \<noteq> i) (folder_user_access d),
            folder_group_access := filter (\<lambda>r. fg_folder_id r \<noteq> i) (folder_group_access d)\<rparr>))"

definition delete_group_row :: "nat \<Rightarrow> db \<Rightarrow> db" where
  "delete_group_row i d =
     d\<lparr>groups := del_row g_id i (groups d),
       group_members := filter (\<lambda>m. gm_group_id m \<noteq> i) (group_members d),
       folder_group_access := filter (\<lambda>r. fg_group_id r \<noteq> i) (folder_group_access d),
       access_audit := map (\<lambda>a. if au_target_group_id a = Some i
         then a\<lparr>au_target_group_id := None\<rparr> else a) (access_audit d)\<rparr>"

definition forget_user :: "nat \<Rightarrow> nat option \<Rightarrow> nat option" where
  "forget_user i x = (if x = Some i then None else x)"

definition delete_user_row :: "nat \<Rightarrow> db \<Rightarrow> error + db" where
  "delete_user_row i d =
     andThen (ensure ((\<forall>e \<in> set (entries d). e_owner_id e \<noteq> Some i)
       \<and> (\<forall>f \<in> set (folders d). f_owner_id f \<noteq> i)
       \<and> (\<forall>u \<in> set (users d). u_service_owner_id u \<noteq> Some i)
       \<and> (case vault d of None \<Rightarrow> True | Some v \<Rightarrow> v_owner_user_id v \<noteq> Some i)) IntegrityError) (\<lambda>_.
     Inr (d\<lparr>users := del_row u_id i (users d),
            entry_access := map (\<lambda>r. r\<lparr>ea_granted_by := forget_user i (ea_granted_by r)\<rparr>)
              (filter (\<lambda>r. ea_user_id r \<noteq> i) (entry_access d)),
            group_members := map (\<lambda>m. m\<lparr>gm_added_by := forget_user i (gm_added_by m)\<rparr>)
              (filter (\<lambda>m. gm_user_id m \<noteq> i) (group_members d)),
            folder_user_access := map (\<lambda>r. r\<lparr>fu_granted_by := forget_user i (fu_granted_by r)\<rparr>)
              (filter (\<lambda>r. fu_user_id r \<noteq> i) (folder_user_access d)),
            folder_group_access := map (\<lambda>r. r\<lparr>fg_granted_by := forget_user i (fg_granted_by r)\<rparr>)
              (folder_group_access d),
            access_audit := map (\<lambda>a. a\<lparr>au_actor_user_id := forget_user i (au_actor_user_id a),
              au_target_user_id := forget_user i (au_target_user_id a)\<rparr>) (access_audit d)\<rparr>))"

text \<open>
  Foreign keys the database enforces on inserts: the row an id names exists. The modelled
  operations look the row up before they reference it.
\<close>

definition fk_ok :: "db \<Rightarrow> bool" where
  "fk_ok d \<longleftrightarrow>
     (\<forall>e \<in> set (entries d).
        (case e_owner_id e of None \<Rightarrow> True | Some u \<Rightarrow> get_user d u \<noteq> None)
        \<and> (case e_folder_id e of None \<Rightarrow> True | Some f \<Rightarrow> get_folder d f \<noteq> None))
     \<and> (\<forall>f \<in> set (folders d). get_user d (f_owner_id f) \<noteq> None)
     \<and> (\<forall>r \<in> set (entry_access d).
          get_entry d (ea_entry_id r) \<noteq> None \<and> get_user d (ea_user_id r) \<noteq> None)
     \<and> (\<forall>r \<in> set (folder_user_access d).
          get_folder d (fu_folder_id r) \<noteq> None \<and> get_user d (fu_user_id r) \<noteq> None)
     \<and> (\<forall>r \<in> set (folder_group_access d).
          get_folder d (fg_folder_id r) \<noteq> None \<and> get_group d (fg_group_id r) \<noteq> None)
     \<and> (\<forall>m \<in> set (group_members d).
          get_group d (gm_group_id m) \<noteq> None \<and> get_user d (gm_user_id m) \<noteq> None)
     \<and> (\<forall>a \<in> set (attachments d). get_entry d (at_entry_id a) \<noteq> None)"

text \<open>Primary keys are unique and never ahead of their counter.\<close>

definition keys_ok :: "db \<Rightarrow> bool" where
  "keys_ok d \<longleftrightarrow>
     distinct (map u_id (users d)) \<and> (\<forall>u \<in> set (users d). u_id u \<le> seq_users d)
     \<and> distinct (map e_id (entries d)) \<and> (\<forall>e \<in> set (entries d). e_id e \<le> seq_entries d)
     \<and> distinct (map f_id (folders d)) \<and> (\<forall>f \<in> set (folders d). f_id f \<le> seq_folders d)
     \<and> distinct (map g_id (groups d)) \<and> (\<forall>g \<in> set (groups d). g_id g \<le> seq_groups d)
     \<and> distinct (map at_id (attachments d))
     \<and> (\<forall>a \<in> set (attachments d). at_id a \<le> seq_attachments d)
     \<and> distinct (map ea_key (entry_access d)) \<and> distinct (map fu_key (folder_user_access d))
     \<and> distinct (map fg_key (folder_group_access d)) \<and> distinct (map gm_key (group_members d))"

text \<open>The invariant of the stored data: what every committed state satisfies.\<close>

definition db_ok :: "db \<Rightarrow> bool" where
  "db_ok d \<longleftrightarrow> keys_ok d \<and> fk_ok d \<and> entries_unique (entries d) \<and> folders_unique (folders d)
     \<and> groups_unique (groups d) \<and> users_unique (users d) \<and> attachments_unique (attachments d)"


section \<open>The contract of a grant table\<close>

text \<open>
  Access control relies on four tables keyed by a pair of ids (a resource and who has access to
  it): entry shares, folder grants to users and to groups, and group memberships. Their contract
  is that of a map from keys to rows.
\<close>

locale grant_table =
  fixes get :: "db \<Rightarrow> nat \<times> nat \<Rightarrow> 'r option"
    and put :: "'r \<Rightarrow> db \<Rightarrow> db"
    and delete :: "nat \<times> nat \<Rightarrow> db \<Rightarrow> db"
    and key :: "'r \<Rightarrow> nat \<times> nat"
    and rows :: "db \<Rightarrow> 'r list"
  assumes get_put: "get (put r d) k = (if k = key r then Some r else get d k)"
    and get_delete: "get (delete k d) j = (if j = k then None else get d j)"
    and get_rows: "distinct (map key (rows d)) \<Longrightarrow> get d k = Some r \<longleftrightarrow> r \<in> set (rows d) \<and> key r = k"
    and distinct_put: "distinct (map key (rows d)) \<Longrightarrow> distinct (map key (rows (put r d)))"
    and distinct_delete: "distinct (map key (rows d)) \<Longrightarrow> distinct (map key (rows (delete k d)))"
begin

lemma granted: "get (put r d) (key r) = Some r"
  by (simp add: get_put)

lemma revoked: "get (delete k d) k = None"
  by (simp add: get_delete)

lemma regranted: "get (put r (delete (key r) d)) k = get (put r d) k"
  by (simp add: get_put get_delete)

lemma rows_after_put:
  assumes "distinct (map key (rows d))"
  shows "x \<in> set (rows (put r d)) \<longleftrightarrow> x = r \<or> (x \<in> set (rows d) \<and> key x \<noteq> key r)"
  using get_rows [OF distinct_put [OF assms], of r "key x" x] get_rows [OF assms, of "key x" x]
  by (auto simp: get_put split: if_splits)

lemma rows_after_delete:
  assumes "distinct (map key (rows d))"
  shows "x \<in> set (rows (delete k d)) \<longleftrightarrow> x \<in> set (rows d) \<and> key x \<noteq> k"
  using get_rows [OF distinct_delete [OF assms], of k "key x" x] get_rows [OF assms, of "key x" x]
  by (auto simp: get_delete split: if_splits)

end

lemmas grant_table_defs = get_entry_access_def put_entry_access_def delete_entry_access_def
  get_folder_user_access_def put_folder_user_access_def delete_folder_user_access_def
  get_folder_group_access_def put_folder_group_access_def delete_folder_group_access_def
  get_group_member_def put_group_member_def delete_group_member_def

interpretation shares: grant_table get_entry_access put_entry_access delete_entry_access ea_key
    entry_access
  by unfold_locales
    (simp_all add: grant_table_defs row_simps row_of_iff distinct_upsert distinct_del_row)

interpretation user_grants: grant_table get_folder_user_access put_folder_user_access
    delete_folder_user_access fu_key folder_user_access
  by unfold_locales
    (simp_all add: grant_table_defs row_simps row_of_iff distinct_upsert distinct_del_row)

interpretation group_grants: grant_table get_folder_group_access put_folder_group_access
    delete_folder_group_access fg_key folder_group_access
  by unfold_locales
    (simp_all add: grant_table_defs row_simps row_of_iff distinct_upsert distinct_del_row)

interpretation memberships: grant_table get_group_member put_group_member delete_group_member
    gm_key group_members
  by unfold_locales
    (simp_all add: grant_table_defs row_simps row_of_iff distinct_upsert distinct_del_row)

end
