(* ===== verification/Engine.thy ===== *)
theory Engine
  imports Sessions Models Backup_Format
begin

text \<open>
  Transactions (\<^verbatim>\<open>backend/crud/engine.py\<close>): how a request's body, its database changes and its
  callbacks are committed or rolled back together, and the capacity check of every commit. A
  request's body yields a result with the database it would commit, the session store as the
  body left it (memory is not rolled back), and the callbacks it registered.
\<close>

section \<open>The body of a request\<close>

record 'a request =
  rq_result :: "error + 'a \<times> db"
  rq_sessions :: vault_sessions
  rq_after_commit :: "(vault_sessions \<Rightarrow> vault_sessions) list"
  rq_after_rollback :: "(vault_sessions \<Rightarrow> vault_sessions) list"

definition plain :: "vault_sessions \<Rightarrow> error + 'a \<times> db \<Rightarrow> 'a request" where
  "plain vs r = \<lparr>rq_result = r, rq_sessions = vs, rq_after_commit = [], rq_after_rollback = []\<rparr>"

definition after_commit :: "(vault_sessions \<Rightarrow> vault_sessions) \<Rightarrow> 'a request \<Rightarrow> 'a request" where
  "after_commit callback q = q\<lparr>rq_after_commit := rq_after_commit q @ [callback]\<rparr>"

definition after_rollback :: "(vault_sessions \<Rightarrow> vault_sessions) \<Rightarrow> 'a request \<Rightarrow> 'a request" where
  "after_rollback callback q = q\<lparr>rq_after_rollback := rq_after_rollback q @ [callback]\<rparr>"

section \<open>Capacity\<close>

definition ENTRY_BACKUP_OVERHEAD :: int where "ENTRY_BACKUP_OVERHEAD = 32 * 1024"
definition ATTACHMENT_BACKUP_OVERHEAD :: int where "ATTACHMENT_BACKUP_OVERHEAD = 256"
definition BACKUP_FIXED_OVERHEAD :: int where "BACKUP_FIXED_OVERHEAD = 4096"

text \<open>SQLite's \<^verbatim>\<open>length\<close> of a column; \<open>len\<close> is what it gives for a value that is not a blob.\<close>

fun stored_length :: "(int \<Rightarrow> nat) \<Rightarrow> bytes cell \<Rightarrow> int" where
  "stored_length len (Good b) = int (length b)"
| "stored_length len (Corrupt r) = int (len r)"

definition estimated_backup :: "(int \<Rightarrow> nat) \<Rightarrow> db \<Rightarrow> int" where
  "estimated_backup len d =
     sum_list (map (\<lambda>e. stored_length len (e_document e)) (entries d))
     + int (length (entries d)) * ENTRY_BACKUP_OVERHEAD
     + sum_list (map (\<lambda>a. stored_length len (at_meta a) + stored_length len (at_content a)) (attachments d))
     + int (length (attachments d)) * ATTACHMENT_BACKUP_OVERHEAD
     + BACKUP_FIXED_OVERHEAD"

definition enforce_backup_capacity :: "(int \<Rightarrow> nat) \<Rightarrow> db \<Rightarrow> error + unit" where
  "enforce_backup_capacity len d =
     andThen (ensure (1 + int (length (entries d)) + int (length (attachments d)) \<le> MAX_FRAMES)
       InvalidRequest) (\<lambda>_.
     ensure (estimated_backup len d \<le> MAX_BACKUP_BYTES) InvalidRequest)"

section \<open>Commit and rollback\<close>

text \<open>
  \<^verbatim>\<open>Database.transaction\<close>: on success the capacity is checked (for a write), the database is
  committed and the commit callbacks run; any error leaves the database as it was before and
  runs the rollback callbacks. Either way the other callbacks are dropped.
\<close>

definition run_hooks :: "(vault_sessions \<Rightarrow> vault_sessions) list \<Rightarrow> vault_sessions \<Rightarrow> vault_sessions" where
  "run_hooks hooks vs = fold (\<lambda>f. f) hooks vs"

definition transaction ::
    "(int \<Rightarrow> nat) \<Rightarrow> bool \<Rightarrow> db \<Rightarrow> 'a request \<Rightarrow> (error + 'a) \<times> db \<times> vault_sessions" where
  "transaction len writes before q =
     (let result = andThen (rq_result q) (\<lambda>(x, d).
            andThen (if writes then enforce_backup_capacity len d else Inr ()) (\<lambda>_. Inr (x, d)))
      in case result of
           Inl e \<Rightarrow> (Inl e, before, run_hooks (rq_after_rollback q) (rq_sessions q))
         | Inr (x, d) \<Rightarrow> (Inr x, d, run_hooks (rq_after_commit q) (rq_sessions q)))"

section \<open>Lemmas\<close>

lemma run_hooks_simps [simp]:
  "run_hooks [] vs = vs" "run_hooks (f # fs) vs = run_hooks fs (f vs)"
  by (simp_all add: run_hooks_def)

lemma request_simps [simp]:
  "rq_result (plain vs r) = r" "rq_sessions (plain vs r) = vs"
  "rq_after_commit (plain vs r) = []" "rq_after_rollback (plain vs r) = []"
  "rq_result (after_commit f q) = rq_result q" "rq_sessions (after_commit f q) = rq_sessions q"
  "rq_after_commit (after_commit f q) = rq_after_commit q @ [f]"
  "rq_after_rollback (after_commit f q) = rq_after_rollback q"
  "rq_result (after_rollback f q) = rq_result q" "rq_sessions (after_rollback f q) = rq_sessions q"
  "rq_after_commit (after_rollback f q) = rq_after_commit q"
  "rq_after_rollback (after_rollback f q) = rq_after_rollback q @ [f]"
  by (simp_all add: plain_def after_commit_def after_rollback_def)

lemma transaction_Inr:
  "transaction len writes before q = (Inr x, d, vs) \<longleftrightarrow>
     rq_result q = Inr (x, d) \<and> (writes \<longrightarrow> is_ok (enforce_backup_capacity len d))
     \<and> vs = run_hooks (rq_after_commit q) (rq_sessions q)"
  unfolding transaction_def Let_def
  by (cases "rq_result q") (auto simp: is_ok_iff result_simps split: sum.splits prod.splits)

lemma transaction_Inl:
  "transaction len writes before q = (Inl e, d, vs) \<Longrightarrow>
     d = before \<and> vs = run_hooks (rq_after_rollback q) (rq_sessions q)"
  unfolding transaction_def Let_def by (auto split: sum.splits prod.splits)

section \<open>Properties\<close>



end
