(* ===== verification/Vault_Settings.thy ===== *)
theory Vault_Settings
  imports Engine
begin

text \<open>
  The vault settings (\<^verbatim>\<open>backend/crud/settings.py\<close>): one row, created from the defaults of the
  process (\<^verbatim>\<open>get_vault_defaults\<close>, read from the environment, an argument here) when first
  changed, and the idle timeout it gives to the session store after a commit.
\<close>

definition stored_settings :: "settings_row \<Rightarrow> db \<Rightarrow> settings_row" where
  "stored_settings defaults d = (case settings d of None \<Rightarrow> defaults | Some s \<Rightarrow> s)"

definition inactivity_ms :: "settings_row \<Rightarrow> db \<Rightarrow> int" where
  "inactivity_ms defaults d =
     (case settings d of None \<Rightarrow> s_inactivity_ms defaults | Some s \<Rightarrow> s_inactivity_ms s)"

definition get_settings :: "settings_row \<Rightarrow> db \<Rightarrow> settings_row" where
  "get_settings defaults d = stored_settings defaults d"

definition update_settings ::
    "settings_row \<Rightarrow> instant \<Rightarrow> db \<Rightarrow> vault_sessions \<Rightarrow> settings_row request" where
  "update_settings data now d vs =
     after_commit (set_idle_timeout (s_inactivity_ms data) now)
       (plain vs (Inr (data, d\<lparr>settings := Some data\<rparr>)))"

text \<open>\<^verbatim>\<open>_refresh_timeout\<close>: the store takes the stored timeout at once.\<close>

definition refresh_timeout :: "settings_row \<Rightarrow> instant \<Rightarrow> db \<Rightarrow> vault_sessions \<Rightarrow> vault_sessions" where
  "refresh_timeout defaults now d vs = set_idle_timeout (inactivity_ms defaults d) now vs"

lemma update_settings_commit:
  assumes "transaction len True before (update_settings data now d vs) = (Inr s, d', vs')"
  shows "get_settings defaults d' = data" and "s = data"
    and "vs_idle_timeout_ms vs' = inactivity_ms defaults d'"
  using assms
  by (auto simp: update_settings_def transaction_Inr get_settings_def stored_settings_def
      set_idle_timeout_def inactivity_ms_def)

end
