(* ===== verification/Records.thy ===== *)
theory Records
  imports Models
begin

text \<open>
  Encrypted records (\<^verbatim>\<open>backend/crud/records.py\<close>): the documents stored in entries, folders,
  groups and attachments, how they are sealed into a row and opened again with every integrity
  check, and the lookup of an entry by name. The JSON codec is pydantic's, a parameter: an
  \<open>env\<close> holds the encoders and decoders next to the cryptographic primitives. An encoder may
  refuse a document; \<open>env_ok\<close> says that a decoder reads back what its encoder wrote, also with
  the padding spaces after it. \<open>casefold\<close> is the Unicode case-folding table behind
  \<^verbatim>\<open>str.casefold\<close>.
\<close>

section \<open>Documents\<close>

datatype entry_kind = Login | Note

record stored_field =
  sf_label :: ustr
  sf_value :: ustr
  sf_hidden :: bool

record history_item =
  h_value :: ustr
  h_changed_at :: ustr

record entry_document =
  doc_name :: ustr
  doc_kind :: entry_kind
  doc_username :: "ustr option"
  doc_value :: ustr
  doc_url :: "ustr option"
  doc_totp_secret :: "ustr option"
  doc_description :: "ustr option"
  doc_tags :: "ustr list"
  doc_custom_fields :: "stored_field list"
  doc_folder :: "ustr option"
  doc_favorite :: bool
  doc_history :: "history_item list"

record attachment_metadata =
  am_filename :: ustr
  am_content_type :: "ustr option"

record env =
  prims :: primitives
  enc_entry :: "entry_document \<Rightarrow> error + bytes"
  dec_entry :: "bytes \<Rightarrow> entry_document option"
  enc_named :: "ustr \<Rightarrow> error + bytes"
  dec_named :: "bytes \<Rightarrow> ustr option"
  enc_meta :: "attachment_metadata \<Rightarrow> error + bytes"
  dec_meta :: "bytes \<Rightarrow> attachment_metadata option"
  casefold :: "ustr \<Rightarrow> ustr"

definition env_ok :: "env \<Rightarrow> bool" where
  "env_ok E \<longleftrightarrow> primitives_ok (prims E) \<and>
     (\<forall>d b m. enc_entry E d = Inr b \<longrightarrow> dec_entry E (b @ replicate m 0x20) = Some d) \<and>
     (\<forall>d b m. enc_named E d = Inr b \<longrightarrow> dec_named E (b @ replicate m 0x20) = Some d) \<and>
     (\<forall>d b m. enc_meta E d = Inr b \<longrightarrow> dec_meta E (b @ replicate m 0x20) = Some d)"

text \<open>\<^verbatim>\<open>except (DecryptionFailed, ValidationError, ValueError): raise damaged(...)\<close>.\<close>

definition as_damaged :: "error \<Rightarrow> error" where
  "as_damaged e = (if e = DecryptionFailed \<or> e = ValueError then VaultDamaged else e)"

definition MAX_ENTRY_STORED_BYTES :: nat where
  "MAX_ENTRY_STORED_BYTES = 64 * 1024 * 1024 - 32 * 1024"

fun is_good :: "'a cell \<Rightarrow> bool" where
  "is_good (Good x) = True"
| "is_good (Corrupt r) = False"

section \<open>Entries\<close>

definition open_entry :: "env \<Rightarrow> vault_key \<Rightarrow> entry_row \<Rightarrow> error + entry_document" where
  "open_entry E k e =
     andThen (ensure (is_good (e_created e) \<and> is_good (e_updated e)
       \<and> (case e_deleted e of None \<Rightarrow> True | Some t \<Rightarrow> is_good t)) VaultDamaged) (\<lambda>_.
     andThen (catching as_damaged
       (andThen (vk_open_entry (prims E) k (e_uid e) (e_document e)) (\<lambda>raw.
        orElse (dec_entry E raw) ValueError))) (\<lambda>document.
     case e_name_index e of
       Corrupt r \<Rightarrow> Inl VaultDamaged
     | Good stored \<Rightarrow>
         andThen (name_index (prims E) k (doc_name document)) (\<lambda>ix.
         andThen (ensure (ix = stored) VaultDamaged) (\<lambda>_. Inr document))))"

definition seal_entry ::
    "env \<Rightarrow> vault_key \<Rightarrow> bytes \<Rightarrow> entry_row \<Rightarrow> entry_document \<Rightarrow> error + entry_row" where
  "seal_entry E k nonce e document =
     andThen (enc_entry E document) (\<lambda>encoded.
     andThen (ensure (length encoded \<le> MAX_ENTRY_STORED_BYTES) InvalidRequest) (\<lambda>_.
     andThen (name_index (prims E) k (doc_name document)) (\<lambda>ix.
     andThen (vk_seal_entry (prims E) k nonce (e_uid e) encoded) (\<lambda>sealed.
     Inr (e\<lparr>e_name_index := Good ix, e_document := Good sealed\<rparr>)))))"

section \<open>Folders and groups\<close>

definition open_folder :: "env \<Rightarrow> vault_key \<Rightarrow> folder_row \<Rightarrow> error + ustr" where
  "open_folder E k f =
     andThen (catching as_damaged
       (andThen (vk_open_folder (prims E) k (f_uid f) (f_owner_id f) (f_document f)) (\<lambda>raw.
        orElse (dec_named E raw) ValueError))) (\<lambda>name.
     case f_name_index f of
       Corrupt r \<Rightarrow> Inl VaultDamaged
     | Good stored \<Rightarrow>
         andThen (folder_name_index (prims E) k (f_owner_id f) name) (\<lambda>ix.
         andThen (ensure (ix = stored) VaultDamaged) (\<lambda>_. Inr name)))"

definition seal_folder ::
    "env \<Rightarrow> vault_key \<Rightarrow> bytes \<Rightarrow> folder_row \<Rightarrow> ustr \<Rightarrow> error + folder_row" where
  "seal_folder E k nonce f name =
     andThen (folder_name_index (prims E) k (f_owner_id f) name) (\<lambda>ix.
     andThen (enc_named E name) (\<lambda>encoded.
     andThen (vk_seal_folder (prims E) k nonce (f_uid f) (f_owner_id f) encoded) (\<lambda>sealed.
     Inr (f\<lparr>f_name_index := Good ix, f_document := Good sealed\<rparr>))))"

definition open_group :: "env \<Rightarrow> vault_key \<Rightarrow> group_row \<Rightarrow> error + ustr" where
  "open_group E k g =
     andThen (catching as_damaged
       (andThen (vk_open_group (prims E) k (g_uid g) (g_document g)) (\<lambda>raw.
        orElse (dec_named E raw) ValueError))) (\<lambda>name.
     case g_name_index g of
       Corrupt r \<Rightarrow> Inl VaultDamaged
     | Good stored \<Rightarrow>
         andThen (group_name_index (prims E) k name) (\<lambda>ix.
         andThen (ensure (ix = stored) VaultDamaged) (\<lambda>_. Inr name)))"

definition seal_group ::
    "env \<Rightarrow> vault_key \<Rightarrow> bytes \<Rightarrow> group_row \<Rightarrow> ustr \<Rightarrow> error + group_row" where
  "seal_group E k nonce g name =
     andThen (group_name_index (prims E) k name) (\<lambda>ix.
     andThen (enc_named E name) (\<lambda>encoded.
     andThen (vk_seal_group (prims E) k nonce (g_uid g) encoded) (\<lambda>sealed.
     Inr (g\<lparr>g_name_index := Good ix, g_document := Good sealed\<rparr>))))"

section \<open>Attachments\<close>

definition open_attachment_metadata ::
    "env \<Rightarrow> vault_key \<Rightarrow> attachment_row \<Rightarrow> bytes cell \<Rightarrow> error + attachment_metadata" where
  "open_attachment_metadata E k a entry_uid =
     andThen (ensure (is_good (at_created a)
       \<and> (case at_size_bytes a of Good n \<Rightarrow> 0 < n | Corrupt r \<Rightarrow> False)) VaultDamaged) (\<lambda>_.
     catching as_damaged
       (andThen (vk_open_attachment_metadata (prims E) k (at_uid a) entry_uid (at_meta a)) (\<lambda>raw.
        orElse (dec_meta E raw) ValueError)))"

definition open_attachment_content ::
    "env \<Rightarrow> vault_key \<Rightarrow> attachment_row \<Rightarrow> bytes cell \<Rightarrow> error + bytes" where
  "open_attachment_content E k a entry_uid =
     andThen (catching (\<lambda>e. if e = DecryptionFailed then VaultDamaged else e)
       (vk_open_attachment_content (prims E) k (at_uid a) entry_uid (at_content a))) (\<lambda>content.
     andThen (ensure (at_size_bytes a = Good (int (length content))) VaultDamaged) (\<lambda>_.
     Inr content))"

definition seal_attachment ::
    "env \<Rightarrow> vault_key \<Rightarrow> bytes \<Rightarrow> bytes \<Rightarrow> attachment_row \<Rightarrow> bytes cell \<Rightarrow>
       attachment_metadata \<Rightarrow> bytes \<Rightarrow> error + attachment_row" where
  "seal_attachment E k nonce1 nonce2 a entry_uid metadata content =
     andThen (enc_meta E metadata) (\<lambda>encoded.
     andThen (ensure (length encoded \<le> 2048) InvalidRequest) (\<lambda>_.
     andThen (vk_seal_attachment_metadata (prims E) k nonce1 (at_uid a) entry_uid encoded) (\<lambda>meta.
     andThen (vk_seal_attachment_content (prims E) k nonce2 (at_uid a) entry_uid content) (\<lambda>sealed.
     Inr (a\<lparr>at_size_bytes := Good (int (length content)), at_meta := Good meta,
            at_content := Good sealed\<rparr>)))))"

section \<open>Finding an entry by name\<close>

text \<open>\<^verbatim>\<open>ORDER BY deleted DESC, id DESC LIMIT 1\<close>.\<close>

fun cell_rank :: "time cell \<Rightarrow> int" where
  "cell_rank (Good t) = t"
| "cell_rank (Corrupt r) = r"

definition deleted_rank :: "entry_row \<Rightarrow> int" where
  "deleted_rank e = (case e_deleted e of None \<Rightarrow> 0 | Some t \<Rightarrow> cell_rank t)"

definition later :: "entry_row \<Rightarrow> entry_row \<Rightarrow> bool" where
  "later e f \<longleftrightarrow> deleted_rank f < deleted_rank e
     \<or> (deleted_rank e = deleted_rank f \<and> e_id f < e_id e)"

fun newest :: "entry_row list \<Rightarrow> entry_row option" where
  "newest [] = None"
| "newest (e # es) =
     (case newest es of None \<Rightarrow> Some e | Some f \<Rightarrow> Some (if later f e then f else e))"

definition named_rows ::
    "bytes \<Rightarrow> bool \<Rightarrow> nat option \<Rightarrow> entry_row list \<Rightarrow> entry_row list" where
  "named_rows ix deleted entry_id rows =
     filter (\<lambda>e. e_name_index e = Good ix \<and> (e_deleted e \<noteq> None) = deleted
       \<and> (case entry_id of None \<Rightarrow> True | Some i \<Rightarrow> e_id e = i)) rows"

definition find_entry ::
    "env \<Rightarrow> vault_key \<Rightarrow> ustr \<Rightarrow> bool \<Rightarrow> nat option \<Rightarrow> db \<Rightarrow> error + entry_row \<times> entry_document" where
  "find_entry E k name deleted entry_id d =
     andThen (if 0 \<in> set name then Inr None
              else andThen (name_index (prims E) k name) (\<lambda>ix.
                     Inr (newest (named_rows ix deleted entry_id (entries d))))) (\<lambda>found.
     andThen (orElse found NotFound) (\<lambda>model.
     andThen (open_entry E k model) (\<lambda>document.
     andThen (ensure (doc_name document = name) VaultDamaged) (\<lambda>_.
     Inr (model, document)))))"

definition active_entry_exists :: "env \<Rightarrow> vault_key \<Rightarrow> ustr \<Rightarrow> db \<Rightarrow> error + bool" where
  "active_entry_exists E k name d =
     andThen (name_index (prims E) k name) (\<lambda>ix.
     Inr (\<exists>e \<in> set (entries d). e_name_index e = Good ix \<and> e_deleted e = None))"

section \<open>Lemmas\<close>

lemma env_okD:
  assumes "env_ok E"
  shows "primitives_ok (prims E)"
    and "enc_entry E d = Inr b \<Longrightarrow> dec_entry E (b @ replicate m 0x20) = Some d"
    and "enc_named E nm = Inr b \<Longrightarrow> dec_named E (b @ replicate m 0x20) = Some nm"
    and "enc_meta E md = Inr b \<Longrightarrow> dec_meta E (b @ replicate m 0x20) = Some md"
  using assms by (auto simp: env_ok_def)

lemma dec_padded:
  assumes "env_ok E"
  shows "enc_entry E d = Inr b \<Longrightarrow> dec_entry E (padded b) = Some d"
    and "enc_named E nm = Inr b \<Longrightarrow> dec_named E (padded b) = Some nm"
    and "enc_meta E md = Inr b \<Longrightarrow> dec_meta E (padded b) = Some md"
  using env_okD [OF assms] by (auto simp: padded_def)

text \<open>
  The contract of a row that stores an encrypted document: opening what was just sealed gives the
  document back, and sealing keeps what the row is besides its index and ciphertext. What a
  re-encryption or a rename does to a row follows from it once.
\<close>

locale sealed_row =
  fixes seal_row :: "env \<Rightarrow> vault_key \<Rightarrow> bytes \<Rightarrow> 'row \<Rightarrow> 'doc \<Rightarrow> error + 'row"
    and open_row :: "env \<Rightarrow> vault_key \<Rightarrow> 'row \<Rightarrow> error + 'doc"
    and readable :: "'row \<Rightarrow> bool"
    and frame :: "'row \<Rightarrow> 'frame"
  assumes open_after_seal:
      "env_ok E \<Longrightarrow> length n = NONCE_BYTES \<Longrightarrow> readable r \<Longrightarrow>
       seal_row E k n r x = Inr r' \<Longrightarrow> open_row E k r' = Inr x"
    and seal_keeps_frame: "seal_row E k n r x = Inr r' \<Longrightarrow> frame r' = frame r"
    and readable_frame: "frame r = frame r' \<Longrightarrow> readable r = readable r'"
    and opened_is_readable: "open_row E k r = Inr x \<Longrightarrow> readable r"
begin

lemma reseal:
  assumes "env_ok E" and "length n = NONCE_BYTES"
    and "open_row E k r = Inr x" and "seal_row E k' n r (f x) = Inr r'"
  shows "open_row E k' r' = Inr (f x)" and "frame r' = frame r"
  using assms open_after_seal opened_is_readable seal_keeps_frame by blast+

lemma reseal_twice:
  assumes "env_ok E" and "length n = NONCE_BYTES" and "length m = NONCE_BYTES"
    and "readable r" and "seal_row E k n r x = Inr r'" and "seal_row E k' m r' y = Inr r''"
  shows "open_row E k' r'' = Inr y"
  using assms open_after_seal readable_frame seal_keeps_frame by metis

end

definition entry_readable :: "entry_row \<Rightarrow> bool" where
  "entry_readable e \<longleftrightarrow> is_good (e_created e) \<and> is_good (e_updated e)
     \<and> (case e_deleted e of None \<Rightarrow> True | Some t \<Rightarrow> is_good t)"

definition entry_frame :: "entry_row \<Rightarrow> entry_row" where
  "entry_frame e = e\<lparr>e_name_index := Corrupt 0, e_document := Corrupt 0\<rparr>"

lemma entry_frame_eqD:
  assumes "entry_frame e = entry_frame f"
  shows "e_id e = e_id f" "e_uid e = e_uid f" "e_created e = e_created f"
    "e_updated e = e_updated f" "e_deleted e = e_deleted f" "e_owner_id e = e_owner_id f"
    "e_folder_id e = e_folder_id f" "e_backed_up e = e_backed_up f"
  using assms by (cases e; cases f; simp add: entry_frame_def)+

lemma open_entry_seal_entry:
  assumes "env_ok E" and "length n = NONCE_BYTES" and "entry_readable e"
    and "seal_entry E k n e x = Inr e'"
  shows "open_entry E k e' = Inr x"
proof -
  from assms(4) obtain b ix s where b: "enc_entry E x = Inr b"
      and ix: "name_index (prims E) k (doc_name x) = Inr ix"
      and s: "vk_seal_entry (prims E) k n (e_uid e) b = Inr s"
      and e': "e' = e\<lparr>e_name_index := Good ix, e_document := Good s\<rparr>"
    by (auto simp: seal_entry_def result_simps)
  have "vk_open_entry (prims E) k (e_uid e) (Good s) = Inr (padded b)"
    using entry_kind.round_trip [OF env_okD(1) [OF assms(1)] assms(2) s] .
  with b ix e' assms(3) show ?thesis
    by (simp add: open_entry_def entry_readable_def dec_padded(1) [OF assms(1)])
qed

interpretation entry_rows: sealed_row seal_entry open_entry entry_readable entry_frame
proof unfold_locales
  fix E k n r x r'
  show "seal_entry E k n r x = Inr r' \<Longrightarrow> entry_frame r' = entry_frame r"
    by (auto simp: seal_entry_def entry_frame_def result_simps)
  show "open_entry E k r = Inr x \<Longrightarrow> entry_readable r"
    by (auto simp: entry_readable_def open_entry_def result_simps)
  show "entry_frame r = entry_frame r' \<Longrightarrow> entry_readable r = entry_readable r'"
    by (auto simp: entry_readable_def dest: entry_frame_eqD)
qed (rule open_entry_seal_entry)

definition folder_frame :: "folder_row \<Rightarrow> folder_row" where
  "folder_frame f = f\<lparr>f_name_index := Corrupt 0, f_document := Corrupt 0\<rparr>"

lemma open_folder_seal_folder:
  assumes "env_ok E" and "length n = NONCE_BYTES" and "seal_folder E k n f x = Inr f'"
  shows "open_folder E k f' = Inr x"
proof -
  from assms(3) obtain b ix s where b: "enc_named E x = Inr b"
      and ix: "folder_name_index (prims E) k (f_owner_id f) x = Inr ix"
      and s: "vk_seal_folder (prims E) k n (f_uid f) (f_owner_id f) b = Inr s"
      and f': "f' = f\<lparr>f_name_index := Good ix, f_document := Good s\<rparr>"
    by (auto simp: seal_folder_def result_simps)
  have "vk_open_folder (prims E) k (f_uid f) (f_owner_id f) (Good s) = Inr (padded b)"
    using folder_kind.round_trip [OF env_okD(1) [OF assms(1)] assms(2), of k "(f_uid f, f_owner_id f)"] s
    by simp
  with b ix f' show ?thesis
    by (simp add: open_folder_def dec_padded(2) [OF assms(1)])
qed

interpretation folder_rows: sealed_row seal_folder open_folder "\<lambda>_. True" folder_frame
proof unfold_locales
  fix E k n r x r'
  show "seal_folder E k n r x = Inr r' \<Longrightarrow> folder_frame r' = folder_frame r"
    by (auto simp: seal_folder_def folder_frame_def result_simps)
qed (auto simp: open_folder_seal_folder)

definition group_frame :: "group_row \<Rightarrow> group_row" where
  "group_frame g = g\<lparr>g_name_index := Corrupt 0, g_document := Corrupt 0\<rparr>"

lemma open_group_seal_group:
  assumes "env_ok E" and "length n = NONCE_BYTES" and "seal_group E k n g x = Inr g'"
  shows "open_group E k g' = Inr x"
proof -
  from assms(3) obtain b ix s where b: "enc_named E x = Inr b"
      and ix: "group_name_index (prims E) k x = Inr ix"
      and s: "vk_seal_group (prims E) k n (g_uid g) b = Inr s"
      and g': "g' = g\<lparr>g_name_index := Good ix, g_document := Good s\<rparr>"
    by (auto simp: seal_group_def result_simps)
  have "vk_open_group (prims E) k (g_uid g) (Good s) = Inr (padded b)"
    using group_kind.round_trip [OF env_okD(1) [OF assms(1)] assms(2) s] .
  with b ix g' show ?thesis
    by (simp add: open_group_def dec_padded(2) [OF assms(1)])
qed

interpretation group_rows: sealed_row seal_group open_group "\<lambda>_. True" group_frame
proof unfold_locales
  fix E k n r x r'
  show "seal_group E k n r x = Inr r' \<Longrightarrow> group_frame r' = group_frame r"
    by (auto simp: seal_group_def group_frame_def result_simps)
qed (auto simp: open_group_seal_group)

lemma open_seal_attachment:
  assumes "env_ok E" and "length n = NONCE_BYTES" and "length m = NONCE_BYTES"
    and "is_good (at_created a)" and "content \<noteq> []"
    and "seal_attachment E k n m a entry_uid md content = Inr a'"
  shows "open_attachment_metadata E k a' entry_uid = Inr md"
    and "open_attachment_content E k a' entry_uid = Inr content"
proof -
  from assms(6) obtain b s t where b: "enc_meta E md = Inr b"
      and s: "vk_seal_attachment_metadata (prims E) k n (at_uid a) entry_uid b = Inr s"
      and t: "vk_seal_attachment_content (prims E) k m (at_uid a) entry_uid content = Inr t"
      and a': "a' = a\<lparr>at_size_bytes := Good (int (length content)), at_meta := Good s,
            at_content := Good t\<rparr>"
    by (auto simp: seal_attachment_def result_simps)
  have "vk_open_attachment_metadata (prims E) k (at_uid a) entry_uid (Good s) = Inr (padded b)"
    using attachment_metadata_kind.round_trip
        [OF env_okD(1) [OF assms(1)] assms(2), of k "(at_uid a, entry_uid)"] s by simp
  then show "open_attachment_metadata E k a' entry_uid = Inr md"
    using b a' assms(4,5)
    by (simp add: open_attachment_metadata_def dec_padded(3) [OF assms(1)])
  have "vk_open_attachment_content (prims E) k (at_uid a) entry_uid (Good t) = Inr content"
    using attachment_content_kind.round_trip
        [OF env_okD(1) [OF assms(1)] assms(3), of k "(at_uid a, entry_uid)"] t by simp
  then show "open_attachment_content E k a' entry_uid = Inr content"
    using a' by (simp add: open_attachment_content_def)
qed

subsection \<open>The entry a name finds\<close>

lemma newest_in: "newest es = Some e \<Longrightarrow> e \<in> set es"
  by (induction es arbitrary: e) (auto split: option.splits if_splits)

lemma newest_None [simp]: "newest es = None \<longleftrightarrow> es = []"
  by (cases es) (auto split: option.splits)

lemma newest_max: "newest es = Some e \<Longrightarrow> f \<in> set es \<Longrightarrow> \<not> later f e"
proof (induction es arbitrary: e f)
  case (Cons g es)
  show ?case
  proof (cases "newest es")
    case None
    with Cons.prems show ?thesis by (auto simp: later_def)
  next
    case (Some h)
    with Cons.prems(1) have e: "e = (if later h g then h else g)" by simp
    from Cons.prems(2) consider "f = g" | "\<not> later f h"
      using Cons.IH [OF Some] by auto
    then show ?thesis
      using e by cases (auto simp: later_def split: if_splits)
  qed
qed simp

lemma find_entry_Inr:
  "find_entry E k name deleted entry_id d = Inr (e, x) \<longleftrightarrow>
     0 \<notin> set name \<and> (\<exists>ix. name_index (prims E) k name = Inr ix
       \<and> newest (named_rows ix deleted entry_id (entries d)) = Some e)
     \<and> open_entry E k e = Inr x \<and> doc_name x = name"
  by (auto simp: find_entry_def result_simps)

lemma find_entry_row:
  assumes "find_entry E k name deleted entry_id d = Inr (e, x)"
  shows "e \<in> set (entries d)" and "(e_deleted e \<noteq> None) = deleted"
    and "entry_id = Some i \<Longrightarrow> e_id e = i"
    and "\<exists>ix. name_index (prims E) k name = Inr ix \<and> e_name_index e = Good ix"
proof -
  from assms obtain ix where ix: "name_index (prims E) k name = Inr ix"
      and new: "newest (named_rows ix deleted entry_id (entries d)) = Some e"
    by (auto simp: find_entry_Inr)
  from newest_in [OF new] ix
  show "e \<in> set (entries d)" and "(e_deleted e \<noteq> None) = deleted"
    and "entry_id = Some i \<Longrightarrow> e_id e = i"
    and "\<exists>ix. name_index (prims E) k name = Inr ix \<and> e_name_index e = Good ix"
    by (auto simp: named_rows_def)
qed

subsection \<open>Updating one entry\<close>

lemma open_entry_restamp [simp]:
  "open_entry E k e = Inr doc \<Longrightarrow> open_entry E k (e\<lparr>e_updated := Good now\<rparr>) = Inr doc"
  by (auto simp: open_entry_def result_simps split: option.splits cell.splits)

lemma open_entry_moved [simp]:
  "open_entry E k (e\<lparr>e_folder_id := x\<rparr>) = open_entry E k e"
  "open_entry E k (e\<lparr>e_owner_id := y\<rparr>) = open_entry E k e"
  by (simp_all add: open_entry_def)

lemma entries_only:
  assumes "d' = d\<lparr>entries := es\<rparr>"
  shows "vault d' = vault d" "users d' = users d" "entry_access d' = entry_access d"
    "folders d' = folders d" "groups d' = groups d" "group_members d' = group_members d"
    "folder_user_access d' = folder_user_access d" "folder_group_access d' = folder_group_access d"
    "attachments d' = attachments d" "seq_folders d' = seq_folders d" "seq_entries d' = seq_entries d"
  using assms by simp_all

lemma only_entries_trans:
  "d\<^sub>1 = d\<lparr>entries := es\<rparr> \<Longrightarrow> d\<^sub>2 = d\<^sub>1\<lparr>entries := es'\<rparr> \<Longrightarrow> d\<^sub>2 = d\<lparr>entries := es'\<rparr>"
  by simp

lemma update_entry_Inr:
  assumes "update_entry now e d = Inr d'" and "distinct (map e_id (entries d))"
    and "get_entry d (e_id e) \<noteq> None"
  obtains e\<^sub>1 where "e\<^sub>1 = e \<or> e\<^sub>1 = e\<lparr>e_updated := Good now\<rparr>" and "e_id e\<^sub>1 = e_id e"
    and "get_entry d' = (get_entry d)(e_id e \<mapsto> e\<^sub>1)"
    and "d' = d\<lparr>entries := entries d'\<rparr>" and "map e_id (entries d') = map e_id (entries d)"
proof (cases "e \<in> set (entries d)")
  case True
  with assms have "get_entry d (e_id e) = Some e"
    by (simp add: get_entry_def row_of_in_set)
  with True assms(1) that [of e] show thesis
    by (auto simp: update_entry_def fun_upd_idem)
next
  case False
  let ?e = "e\<lparr>e_updated := Good now\<rparr>"
  from False assms(1) have d': "d' = d\<lparr>entries := set_row e_id ?e (entries d)\<rparr>"
    by (auto simp: update_entry_def Let_def result_simps)
  have "get_entry d' = (get_entry d)(e_id e \<mapsto> ?e)"
    using assms(3) by (auto simp: d' get_entry_def row_simps fun_eq_iff)
  with d' that [of ?e] show thesis by simp
qed

lemma update_entry_unique:
  "update_entry now e d = Inr d' \<Longrightarrow> entries_unique (entries d) \<Longrightarrow> entries_unique (entries d')"
  by (auto simp: update_entry_def Let_def result_simps split: if_splits)

section \<open>A concrete environment\<close>

text \<open>
  Computable codecs that satisfy \<open>env_ok\<close>: an entry document is encoded as its position in a list
  of documents, a name as its length and its Latin-1 bytes. A document outside the list and a
  name outside Latin-1 are refused.
\<close>

definition latin1 :: "ustr \<Rightarrow> error + bytes" where
  "latin1 s =
     (if list_all (\<lambda>c. c < 256) s \<and> length s < 256
      then Inr (word_of_nat (length s) # map word_of_nat s) else Inl ValueError)"

fun unlatin1 :: "bytes \<Rightarrow> ustr option" where
  "unlatin1 [] = None"
| "unlatin1 (n # bs) = Some (map unat (take (unat n) bs))"

definition position :: "'a \<Rightarrow> 'a list \<Rightarrow> nat" where
  "position x xs = length (takeWhile (\<lambda>y. y \<noteq> x) xs)"

definition sample_env :: "entry_document list \<Rightarrow> env" where
  "sample_env docs =
     \<lparr>prims = sample_primitives [],
      enc_entry = (\<lambda>d. if d \<in> set docs \<and> length docs \<le> 256 then Inr [word_of_nat (position d docs)]
                        else Inl ValueError),
      dec_entry = (\<lambda>b. case b of [] \<Rightarrow> None
                    | n # _ \<Rightarrow> if unat n < length docs then Some (docs ! unat n) else None),
      enc_named = latin1, dec_named = unlatin1,
      enc_meta = (\<lambda>m. if am_content_type m = None then latin1 (am_filename m) else Inl ValueError),
      dec_meta = (\<lambda>b. map_option (\<lambda>s. \<lparr>am_filename = s, am_content_type = None\<rparr>) (unlatin1 b)),
      casefold = (\<lambda>s. s)\<rparr>"

lemma unlatin1_latin1:
  assumes "latin1 s = Inr b"
  shows "unlatin1 (b @ bs) = Some s"
proof -
  from assms have s: "list_all (\<lambda>c. c < 256) s" "length s < 256"
      and b: "b = word_of_nat (length s) # map word_of_nat s"
    by (auto simp: latin1_def split: if_splits)
  have "map unat (map word_of_nat s :: bytes) = s"
    using s(1) by (induction s) (auto simp: unat_byte_small)
  with b s(2) show ?thesis by (simp add: unat_byte_small)
qed

lemma position_nth: "x \<in> set xs \<Longrightarrow> position x xs < length xs \<and> xs ! position x xs = x"
  by (induction xs) (auto simp: position_def)

lemma sample_env_ok: "env_ok (sample_env docs)"
proof -
  have "dec_entry (sample_env docs) (b @ bs) = Some d" if "enc_entry (sample_env docs) d = Inr b" for b bs d
  proof -
    from that have d: "d \<in> set docs" "length docs \<le> 256" "b = [word_of_nat (position d docs)]"
      by (auto simp: sample_env_def split: if_splits)
    with position_nth [OF d(1)] show ?thesis
      by (simp add: sample_env_def unat_byte_small)
  qed
  moreover have "dec_meta (sample_env docs) (b @ bs) = Some m" if "enc_meta (sample_env docs) m = Inr b" for b bs m
    using that by (cases m) (auto simp: sample_env_def unlatin1_latin1 split: if_splits)
  moreover have "dec_named (sample_env docs) (b @ bs) = Some s" if "enc_named (sample_env docs) s = Inr b" for b bs s
    using that by (simp add: sample_env_def unlatin1_latin1)
  moreover have "primitives_ok (prims (sample_env docs))"
    by (simp add: sample_env_def sample_primitives_ok)
  ultimately show ?thesis unfolding env_ok_def by blast
qed

definition sample_doc :: "ustr \<Rightarrow> ustr option \<Rightarrow> entry_document" where
  "sample_doc name folder =
     \<lparr>doc_name = name, doc_kind = Login, doc_username = None, doc_value = [120], doc_url = None,
      doc_totp_secret = None, doc_description = None, doc_tags = [], doc_custom_fields = [],
      doc_folder = folder, doc_favorite = False, doc_history = []\<rparr>"

end
