(* ===== verification/Folders.thy ===== *)
theory Folders
  imports Records "HOL-Library.List_Lexorder" "HOL-Library.Product_Lexorder"
begin

text \<open>
  Folders and their grants (\<^verbatim>\<open>backend/crud/folder.py\<close>, \<^verbatim>\<open>FolderCRUD\<close>): who may use a folder and
  with which permission, the operations of folder owners and administrators, and the migration
  of legacy folder names to folder rows. An operation takes the authenticated context, the
  instant it reads, the random bytes it draws and the database, and returns an error (the
  request's transaction is rolled back) or its result with the new database.
\<close>

section \<open>Context and audit\<close>

record auth_context =
  ctx_user :: user_row
  ctx_key :: vault_key
  ctx_token :: "ustr option"

text \<open>\<^verbatim>\<open>self.user.service_owner_id or self.user.id\<close>.\<close>

definition owner_id :: "auth_context \<Rightarrow> nat" where
  "owner_id c =
     (case u_service_owner_id (ctx_user c) of
        None \<Rightarrow> u_id (ctx_user c)
      | Some i \<Rightarrow> if i = 0 then u_id (ctx_user c) else i)"

abbreviation user_of :: "auth_context \<Rightarrow> nat" where
  "user_of c \<equiv> u_id (ctx_user c)"

definition is_admin :: "auth_context \<Rightarrow> bool" where
  "is_admin c \<longleftrightarrow> u_role (ctx_user c) = Admin"

definition audit_of :: "auth_context \<Rightarrow> time \<Rightarrow> string \<Rightarrow> string \<Rightarrow> nat \<Rightarrow> access_audit_row" where
  "audit_of c now resource action resource_id =
     \<lparr>au_id = 0, au_created = now, au_actor_user_id = Some (user_of c), au_action = action,
      au_resource_type = resource, au_resource_id = resource_id, au_target_user_id = None,
      au_target_group_id = None, au_permission = None, au_expires_at = None,
      au_previous_permission = None, au_previous_expires_at = None\<rparr>"

section \<open>Permissions\<close>

definition grant_active :: "time \<Rightarrow> time option \<Rightarrow> bool" where
  "grant_active now expires_at = (case expires_at of None \<Rightarrow> True | Some t \<Rightarrow> now < t)"

definition strongest :: "share_permission list \<Rightarrow> share_permission option" where
  "strongest ps =
     (if Write \<in> set ps then Some Write else if Read \<in> set ps then Some Read else None)"

fun as_entry_permission :: "share_permission \<Rightarrow> entry_permission" where
  "as_entry_permission Read = ReadAccess"
| "as_entry_permission Write = WriteAccess"

text \<open>The permissions the active direct grant and the active group grants give a user.\<close>

definition direct_folder_permissions :: "db \<Rightarrow> time \<Rightarrow> nat \<Rightarrow> nat \<Rightarrow> share_permission list" where
  "direct_folder_permissions d now folder_id user_id =
     [fu_permission r. r \<leftarrow> folder_user_access d, fu_folder_id r = folder_id, fu_user_id r = user_id,
        grant_active now (fu_expires_at r)]"

definition group_folder_permissions :: "db \<Rightarrow> time \<Rightarrow> nat \<Rightarrow> nat \<Rightarrow> share_permission list" where
  "group_folder_permissions d now folder_id user_id =
     [fg_permission r. r \<leftarrow> folder_group_access d, m \<leftarrow> group_members d,
        gm_group_id m = fg_group_id r, fg_folder_id r = folder_id, gm_user_id m = user_id,
        grant_active now (fg_expires_at r)]"

definition permission_for :: "db \<Rightarrow> time \<Rightarrow> folder_row \<Rightarrow> nat \<Rightarrow> entry_permission option" where
  "permission_for d now f user_id =
     (if f_owner_id f = user_id then Some Owner
      else map_option as_entry_permission
        (strongest (take 1 (direct_folder_permissions d now (f_id f) user_id)
          @ group_folder_permissions d now (f_id f) user_id)))"

section \<open>Responses\<close>

record folder_response =
  fr_id :: nat
  fr_name :: ustr
  fr_owner_id :: nat
  fr_owner_username :: ustr
  fr_access :: "entry_permission option"
  fr_can_manage :: bool

datatype grant_target = GroupTarget | UserTarget

record folder_grant =
  gr_target_type :: grant_target
  gr_target_id :: nat
  gr_target_name :: ustr
  gr_permission :: share_permission
  gr_expires_at :: "time option"
  gr_expired :: bool

datatype access_source = FromOwner | FromDirect | FromEntry | FromFolderOwner | FromFolder | FromGroup

record folder_access_source =
  fs_source :: access_source
  fs_source_id :: nat
  fs_name :: "ustr option"
  fs_permission :: share_permission
  fs_expires_at :: "time option"
  fs_expired :: bool

record user_folder_access =
  ua_folder :: folder_response
  ua_direct_permission :: "share_permission option"
  ua_direct_expires_at :: "time option"
  ua_effective_permission :: "share_permission option"
  ua_sources :: "folder_access_source list"

record audit_event =
  ae_row :: access_audit_row
  ae_actor_username :: "ustr option"
  ae_target_username :: "ustr option"
  ae_target_group_name :: "ustr option"

section \<open>FolderCRUD\<close>

definition get_folder_or_404 :: "db \<Rightarrow> nat \<Rightarrow> error + folder_row" where
  "get_folder_or_404 d folder_id = orElse (get_folder d folder_id) NotFound"

definition require_manage :: "auth_context \<Rightarrow> nat \<Rightarrow> db \<Rightarrow> error + folder_row" where
  "require_manage c folder_id d =
     andThen (get_folder_or_404 d folder_id) (\<lambda>f.
     andThen (ensure (f_owner_id f = user_of c \<or> is_admin c) Forbidden) (\<lambda>_. Inr f))"

definition folder_response_of ::
    "env \<Rightarrow> auth_context \<Rightarrow> vault_key \<Rightarrow> time \<Rightarrow> db \<Rightarrow> folder_row \<Rightarrow> error + folder_response" where
  "folder_response_of E c key now d f =
     andThen (orElse (get_user d (f_owner_id f)) InvalidRequest) (\<lambda>owner.
     andThen (open_folder E key f) (\<lambda>name.
     Inr \<lparr>fr_id = f_id f, fr_name = name, fr_owner_id = u_id owner,
          fr_owner_username = u_username owner,
          fr_access = permission_for d now f (user_of c),
          fr_can_manage = (u_id owner = user_of c \<or> is_admin c)\<rparr>))"

definition list_folders ::
    "env \<Rightarrow> auth_context \<Rightarrow> vault_key \<Rightarrow> time \<Rightarrow> db \<Rightarrow> error + folder_response list" where
  "list_folders E c key now d =
     (let shown = if is_admin c then folders d
        else filter (\<lambda>f. permission_for d now f (user_of c) \<noteq> None) (folders d)
      in andThen (map_res (folder_response_of E c key now d) shown) (\<lambda>rs.
         Inr (sort_key (\<lambda>r. (casefold E (fr_name r), fr_id r)) rs)))"

definition folder_name_taken :: "nat \<Rightarrow> bytes \<Rightarrow> nat option \<Rightarrow> db \<Rightarrow> bool" where
  "folder_name_taken owner ix except d \<longleftrightarrow>
     (\<exists>f \<in> set (folders d). f_owner_id f = owner \<and> f_name_index f = Good ix \<and> Some (f_id f) \<noteq> except)"

definition folder_create ::
    "env \<Rightarrow> auth_context \<Rightarrow> ustr \<Rightarrow> vault_key \<Rightarrow> bytes \<Rightarrow> bytes \<Rightarrow> time \<Rightarrow> db \<Rightarrow>
       error + folder_response \<times> db" where
  "folder_create E c name key uid nonce now d =
     andThen (folder_name_index (prims E) key (owner_id c) name) (\<lambda>ix.
     andThen (ensure (\<not> folder_name_taken (owner_id c) ix None d) InvalidRequest) (\<lambda>_.
     andThen (seal_folder E key nonce
       \<lparr>f_id = 0, f_uid = Good uid, f_owner_id = owner_id c, f_name_index = Good ix,
        f_document = Good []\<rparr> name) (\<lambda>f.
     andThen (insert_folder f d) (\<lambda>(i, d1).
     let d2 = insert_audit (audit_of c now ''folder'' ''folder_created'' i) d1
     in andThen (folder_response_of E c key now d2 (f\<lparr>f_id := i\<rparr>)) (\<lambda>r. Inr (r, d2))))))"

text \<open>Every entry of the folder, deleted ones too, gets the new folder name in its document.\<close>

definition rename_in_entry ::
    "env \<Rightarrow> vault_key \<Rightarrow> ustr \<Rightarrow> (nat \<Rightarrow> bytes \<times> time) \<Rightarrow> entry_row \<Rightarrow> db \<Rightarrow> error + db" where
  "rename_in_entry E key name draw e d =
     andThen (open_entry E key e) (\<lambda>doc.
     andThen (seal_entry E key (fst (draw (e_id e))) e (doc\<lparr>doc_folder := Some name\<rparr>)) (\<lambda>e'.
     update_entry (snd (draw (e_id e))) e' d))"

definition folder_rename ::
    "env \<Rightarrow> auth_context \<Rightarrow> nat \<Rightarrow> ustr \<Rightarrow> vault_key \<Rightarrow> bytes \<Rightarrow> (nat \<Rightarrow> bytes \<times> time) \<Rightarrow> time \<Rightarrow> db \<Rightarrow>
       error + folder_response \<times> db" where
  "folder_rename E c folder_id name key nonce draw now d =
     andThen (get_folder_or_404 d folder_id) (\<lambda>f.
     andThen (ensure (f_owner_id f = user_of c) Forbidden) (\<lambda>_.
     andThen (folder_name_index (prims E) key (f_owner_id f) name) (\<lambda>ix.
     andThen (ensure (\<not> folder_name_taken (f_owner_id f) ix (Some (f_id f)) d) InvalidRequest) (\<lambda>_.
     andThen (seal_folder E key nonce f name) (\<lambda>f'.
     andThen (update_folder f' d) (\<lambda>d1.
     andThen (fold_res (rename_in_entry E key name draw)
       (filter (\<lambda>e. e_folder_id e = Some (f_id f)) (entries d)) d1) (\<lambda>d2.
     let d3 = insert_audit (audit_of c now ''folder'' ''folder_renamed'' (f_id f)) d2
     in andThen (folder_response_of E c key now d3 f') (\<lambda>r. Inr (r, d3)))))))))"

definition folder_remove :: "auth_context \<Rightarrow> nat \<Rightarrow> time \<Rightarrow> db \<Rightarrow> error + db" where
  "folder_remove c folder_id now d =
     andThen (get_folder_or_404 d folder_id) (\<lambda>f.
     andThen (ensure (f_owner_id f = user_of c) Forbidden) (\<lambda>_.
     andThen (ensure (filter (\<lambda>e. e_folder_id e = Some folder_id) (entries d) = []) InvalidRequest) (\<lambda>_.
     delete_folder_row (f_id f)
       (insert_audit (audit_of c now ''folder'' ''folder_deleted'' (f_id f)) d))))"

definition folder_list_grants ::
    "env \<Rightarrow> auth_context \<Rightarrow> nat \<Rightarrow> time \<Rightarrow> db \<Rightarrow> error + folder_grant list" where
  "folder_list_grants E c folder_id now d =
     andThen (require_manage c folder_id d) (\<lambda>_.
     let user_grants =
       [\<lparr>gr_target_type = UserTarget, gr_target_id = fu_user_id r, gr_target_name = u_username u,
         gr_permission = fu_permission r, gr_expires_at = fu_expires_at r,
         gr_expired = (\<not> grant_active now (fu_expires_at r))\<rparr>.
        r \<leftarrow> folder_user_access d, fu_folder_id r = folder_id, u \<leftarrow> users d, u_id u = fu_user_id r]
     in andThen (map_res (\<lambda>(r, g).
          andThen (open_group E (ctx_key c) g) (\<lambda>name.
          Inr \<lparr>gr_target_type = GroupTarget, gr_target_id = fg_group_id r, gr_target_name = name,
               gr_permission = fg_permission r, gr_expires_at = fg_expires_at r,
               gr_expired = (\<not> grant_active now (fg_expires_at r))\<rparr>))
          [(r, g). r \<leftarrow> folder_group_access d, fg_folder_id r = folder_id, g \<leftarrow> groups d,
             g_id g = fg_group_id r]) (\<lambda>group_grants.
        Inr (sort_key (\<lambda>g. (gr_target_type g = UserTarget, casefold E (gr_target_name g)))
          (user_grants @ group_grants))))"

definition set_user_grant ::
    "auth_context \<Rightarrow> nat \<Rightarrow> nat \<Rightarrow> share_permission \<Rightarrow> time option \<Rightarrow> time \<Rightarrow> db \<Rightarrow>
       error + folder_grant \<times> db" where
  "set_user_grant c folder_id user_id permission expires_at now d =
     andThen (require_manage c folder_id d) (\<lambda>f.
     andThen (orElse (get_user d user_id) NotFound) (\<lambda>u.
     andThen (ensure (u_active u) NotFound) (\<lambda>_.
     andThen (ensure (u_id u \<noteq> f_owner_id f) InvalidRequest) (\<lambda>_.
     let old = get_folder_user_access d (folder_id, user_id);
         event = (audit_of c now ''folder''
           (if old = None then ''folder_user_grant_created'' else ''folder_user_grant_updated'')
           folder_id)\<lparr>au_target_user_id := Some user_id, au_permission := Some permission,
             au_expires_at := expires_at, au_previous_permission := map_option fu_permission old,
             au_previous_expires_at := Option.bind old fu_expires_at\<rparr>
     in Inr (\<lparr>gr_target_type = UserTarget, gr_target_id = u_id u, gr_target_name = u_username u,
              gr_permission = permission, gr_expires_at = expires_at, gr_expired = False\<rparr>,
             insert_audit event (put_folder_user_access
               \<lparr>fu_folder_id = folder_id, fu_user_id = user_id, fu_permission = permission,
                fu_expires_at = expires_at, fu_granted_by = Some (user_of c)\<rparr> d))))))"

definition revoke_user_grant :: "auth_context \<Rightarrow> nat \<Rightarrow> nat \<Rightarrow> time \<Rightarrow> db \<Rightarrow> error + db" where
  "revoke_user_grant c folder_id user_id now d =
     andThen (require_manage c folder_id d) (\<lambda>_.
     andThen (orElse (get_folder_user_access d (folder_id, user_id)) NotFound) (\<lambda>old.
     Inr (delete_folder_user_access (folder_id, user_id) (insert_audit
       ((audit_of c now ''folder'' ''folder_user_grant_revoked'' folder_id)
          \<lparr>au_target_user_id := Some user_id, au_previous_permission := Some (fu_permission old),
           au_previous_expires_at := fu_expires_at old\<rparr>) d))))"

definition set_group_grant ::
    "env \<Rightarrow> auth_context \<Rightarrow> nat \<Rightarrow> nat \<Rightarrow> share_permission \<Rightarrow> time option \<Rightarrow> time \<Rightarrow> db \<Rightarrow>
       error + folder_grant \<times> db" where
  "set_group_grant E c folder_id group_id permission expires_at now d =
     andThen (require_manage c folder_id d) (\<lambda>_.
     andThen (orElse (get_group d group_id) NotFound) (\<lambda>g.
     let old = get_folder_group_access d (folder_id, group_id);
         event = (audit_of c now ''folder''
           (if old = None then ''folder_group_grant_created'' else ''folder_group_grant_updated'')
           folder_id)\<lparr>au_target_group_id := Some group_id, au_permission := Some permission,
             au_expires_at := expires_at, au_previous_permission := map_option fg_permission old,
             au_previous_expires_at := Option.bind old fg_expires_at\<rparr>
     in andThen (open_group E (ctx_key c) g) (\<lambda>name.
        Inr (\<lparr>gr_target_type = GroupTarget, gr_target_id = g_id g, gr_target_name = name,
              gr_permission = permission, gr_expires_at = expires_at, gr_expired = False\<rparr>,
             insert_audit event (put_folder_group_access
               \<lparr>fg_folder_id = folder_id, fg_group_id = group_id, fg_permission = permission,
                fg_expires_at = expires_at, fg_granted_by = Some (user_of c)\<rparr> d)))))"

definition revoke_group_grant :: "auth_context \<Rightarrow> nat \<Rightarrow> nat \<Rightarrow> time \<Rightarrow> db \<Rightarrow> error + db" where
  "revoke_group_grant c folder_id group_id now d =
     andThen (require_manage c folder_id d) (\<lambda>_.
     andThen (orElse (get_folder_group_access d (folder_id, group_id)) NotFound) (\<lambda>old.
     Inr (delete_folder_group_access (folder_id, group_id) (insert_audit
       ((audit_of c now ''folder'' ''folder_group_grant_revoked'' folder_id)
          \<lparr>au_target_group_id := Some group_id, au_previous_permission := Some (fg_permission old),
           au_previous_expires_at := fg_expires_at old\<rparr>) d))))"

definition group_sources ::
    "env \<Rightarrow> vault_key \<Rightarrow> time \<Rightarrow> nat \<Rightarrow> nat \<Rightarrow> db \<Rightarrow> error + folder_access_source list" where
  "group_sources E key now folder_id user_id d =
     map_res (\<lambda>(r, g).
       andThen (open_group E key g) (\<lambda>name.
       Inr \<lparr>fs_source = FromGroup, fs_source_id = g_id g, fs_name = Some name,
            fs_permission = fg_permission r, fs_expires_at = fg_expires_at r,
            fs_expired = (\<not> grant_active now (fg_expires_at r))\<rparr>))
       [(r, g). r \<leftarrow> folder_group_access d, m \<leftarrow> group_members d, gm_group_id m = fg_group_id r,
          g \<leftarrow> groups d, g_id g = fg_group_id r, fg_folder_id r = folder_id, gm_user_id m = user_id]"

definition user_access_row ::
    "env \<Rightarrow> auth_context \<Rightarrow> vault_key \<Rightarrow> time \<Rightarrow> user_row \<Rightarrow> nat \<Rightarrow> db \<Rightarrow> folder_row \<Rightarrow>
       error + user_folder_access" where
  "user_access_row E c key now u user_id d f =
     andThen (folder_response_of E c key now d f) (\<lambda>response.
     andThen (group_sources E key now (f_id f) user_id d) (\<lambda>from_groups.
     let direct = get_folder_user_access d (f_id f, user_id);
         owned = (if f_owner_id f = user_id
           then [\<lparr>fs_source = FromOwner, fs_source_id = user_id, fs_name = Some (u_username u),
                  fs_permission = Write, fs_expires_at = None, fs_expired = False\<rparr>] else []);
         from_direct = (case direct of None \<Rightarrow> []
           | Some r \<Rightarrow> [\<lparr>fs_source = FromDirect, fs_source_id = user_id, fs_name = Some (u_username u),
                  fs_permission = fu_permission r, fs_expires_at = fu_expires_at r,
                  fs_expired = (\<not> grant_active now (fu_expires_at r))\<rparr>]);
         sources = owned @ from_direct @ from_groups;
         active = [fs_permission s. s \<leftarrow> sources, grant_active now (fs_expires_at s)]
     in Inr \<lparr>ua_folder = response, ua_direct_permission = map_option fu_permission direct,
             ua_direct_expires_at = Option.bind direct fu_expires_at,
             ua_effective_permission =
               (if f_owner_id f = user_id then Some Write else strongest active),
             ua_sources = sources\<rparr>))"

definition folder_user_access_report ::
    "env \<Rightarrow> auth_context \<Rightarrow> nat \<Rightarrow> vault_key \<Rightarrow> time \<Rightarrow> db \<Rightarrow> error + user_folder_access list" where
  "folder_user_access_report E c user_id key now d =
     andThen (ensure (is_admin c) Forbidden) (\<lambda>_.
     andThen (orElse (get_user d user_id) NotFound) (\<lambda>u.
     map_res (user_access_row E c key now u user_id d) (folders d)))"

text \<open>\<^verbatim>\<open>session.get(...) if id else None\<close>: an id of 0 counts as absent.\<close>

definition given :: "nat option \<Rightarrow> (nat \<Rightarrow> 'a option) \<Rightarrow> 'a option" where
  "given i look = (case i of None \<Rightarrow> None | Some n \<Rightarrow> if n = 0 then None else look n)"

text \<open>The newest 200 events of a resource, newest first.\<close>

definition audit_rows :: "string \<Rightarrow> nat \<Rightarrow> db \<Rightarrow> access_audit_row list" where
  "audit_rows resource resource_id d =
     take 200 (rev (filter (\<lambda>a. au_resource_type a = resource \<and> au_resource_id a = resource_id)
       (access_audit d)))"

definition folder_audit_event :: "env \<Rightarrow> auth_context \<Rightarrow> db \<Rightarrow> access_audit_row \<Rightarrow> error + audit_event" where
  "folder_audit_event E c d a =
     andThen (case given (au_target_group_id a) (get_group d) of
         None \<Rightarrow> Inr None
       | Some g \<Rightarrow> andThen (open_group E (ctx_key c) g) (\<lambda>name. Inr (Some name))) (\<lambda>group_name.
     Inr \<lparr>ae_row = a,
          ae_actor_username = map_option u_username (given (au_actor_user_id a) (get_user d)),
          ae_target_username = map_option u_username (given (au_target_user_id a) (get_user d)),
          ae_target_group_name = group_name\<rparr>)"

definition folder_audit :: "env \<Rightarrow> auth_context \<Rightarrow> nat \<Rightarrow> db \<Rightarrow> error + audit_event list" where
  "folder_audit E c folder_id d =
     andThen (require_manage c folder_id d) (\<lambda>_.
     map_res (folder_audit_event E c d) (audit_rows ''folder'' folder_id d))"

section \<open>Migration of legacy folder names\<close>

text \<open>
  The code's dictionary from (owner, name index) to folder holds the rows of the folders table and
  every folder added on the way, which is the table itself at each point of the loop. \<open>draw\<close>
  gives, per entry, the uid and nonce of a folder created for it and the instant of its update.
\<close>

definition folder_for ::
    "env \<Rightarrow> vault_key \<Rightarrow> bytes \<times> bytes \<Rightarrow> nat \<Rightarrow> ustr \<Rightarrow> db \<Rightarrow> error + nat \<times> db" where
  "folder_for E key random owner name d =
     andThen (folder_name_index (prims E) key owner name) (\<lambda>ix.
     case row_of (\<lambda>f. (f_owner_id f, f_name_index f)) (owner, Good ix) (folders d) of
       None \<Rightarrow>
         andThen (seal_folder E key (snd random)
           \<lparr>f_id = 0, f_uid = Good (fst random), f_owner_id = owner, f_name_index = Good ix,
            f_document = Good []\<rparr> name) (\<lambda>f. insert_folder f d)
     | Some f \<Rightarrow>
         andThen (open_folder E key f) (\<lambda>stored.
         andThen (ensure (stored = name) InvalidRequest) (\<lambda>_. Inr (f_id f, d))))"

definition migrate_entry ::
    "env \<Rightarrow> vault_key \<Rightarrow> (nat \<Rightarrow> (bytes \<times> bytes) \<times> time) \<Rightarrow> entry_row \<Rightarrow> db \<Rightarrow> error + db" where
  "migrate_entry E key draw e d =
     andThen (orElse (e_owner_id e) InvalidRequest) (\<lambda>owner.
     andThen (open_entry E key e) (\<lambda>doc.
     if doc_folder doc = None \<or> doc_folder doc = Some [] then
       andThen (ensure (e_folder_id e = None) InvalidRequest) (\<lambda>_. Inr d)
     else
       andThen (folder_for E key (fst (draw (e_id e))) owner (the (doc_folder doc)) d) (\<lambda>(i, d1).
       andThen (ensure (e_folder_id e = None \<or> e_folder_id e = Some i) InvalidRequest) (\<lambda>_.
       update_entry (snd (draw (e_id e))) (e\<lparr>e_folder_id := Some i\<rparr>) d1))))"

definition migrate_folder_links ::
    "env \<Rightarrow> vault_key \<Rightarrow> (nat \<Rightarrow> (bytes \<times> bytes) \<times> time) \<Rightarrow> db \<Rightarrow> error + db" where
  "migrate_folder_links E key draw d =
     (case vault d of
        None \<Rightarrow> Inr d
      | Some v \<Rightarrow>
          if v_folder_links_ready v then Inr d
          else
            andThen (fold_res (migrate_entry E key draw) (entries d) d) (\<lambda>d1.
            Inr (d1\<lparr>vault := Some (v\<lparr>v_folder_links_ready := True\<rparr>)\<rparr>)))"

section \<open>What a permission means\<close>

text \<open>
  The specification of folder access: a grant of permission \<open>p\<close> is in force for a user when an
  active direct grant or an active grant to one of the user's groups carries it. Owning the
  folder gives everything; otherwise the strongest grant in force counts.
\<close>

definition granted_directly :: "db \<Rightarrow> time \<Rightarrow> nat \<Rightarrow> nat \<Rightarrow> share_permission \<Rightarrow> bool" where
  "granted_directly d now folder_id user_id p \<longleftrightarrow>
     (\<exists>r \<in> set (folder_user_access d). fu_key r = (folder_id, user_id)
        \<and> fu_permission r = p \<and> grant_active now (fu_expires_at r))"

definition granted_by_group :: "db \<Rightarrow> time \<Rightarrow> nat \<Rightarrow> nat \<Rightarrow> share_permission \<Rightarrow> bool" where
  "granted_by_group d now folder_id user_id p \<longleftrightarrow>
     (\<exists>r \<in> set (folder_group_access d). \<exists>m \<in> set (group_members d).
        fg_folder_id r = folder_id \<and> gm_key m = (fg_group_id r, user_id)
        \<and> fg_permission r = p \<and> grant_active now (fg_expires_at r))"

abbreviation folder_grants :: "db \<Rightarrow> time \<Rightarrow> nat \<Rightarrow> nat \<Rightarrow> share_permission \<Rightarrow> bool" where
  "folder_grants d now folder_id user_id p \<equiv>
     granted_directly d now folder_id user_id p \<or> granted_by_group d now folder_id user_id p"

lemma strongest_iff:
  "strongest ps = Some p \<longleftrightarrow> p \<in> set ps \<and> (p = Read \<longrightarrow> Write \<notin> set ps)"
  "strongest ps = None \<longleftrightarrow> set ps = {}"
proof -
  show "strongest ps = Some p \<longleftrightarrow> p \<in> set ps \<and> (p = Read \<longrightarrow> Write \<notin> set ps)"
    by (cases p) (auto simp: strongest_def)
  have "set ps \<noteq> {} \<Longrightarrow> Write \<in> set ps \<or> Read \<in> set ps"
    by (metis ex_in_conv share_permission.exhaust)
  then show "strongest ps = None \<longleftrightarrow> set ps = {}"
    by (auto simp: strongest_def)
qed

lemma strongest_set_cong: "set ps = set qs \<Longrightarrow> strongest ps = strongest qs"
  by (simp add: strongest_def)

lemma set_direct: "p \<in> set (direct_folder_permissions d now i u) \<longleftrightarrow> granted_directly d now i u p"
  by (auto simp: direct_folder_permissions_def granted_directly_def)

lemma set_group: "p \<in> set (group_folder_permissions d now i u) \<longleftrightarrow> granted_by_group d now i u p"
  by (auto simp: group_folder_permissions_def granted_by_group_def)

lemma direct_by_get:
  assumes "distinct (map fu_key (folder_user_access d))"
  shows "direct_folder_permissions d now i u =
    (case get_folder_user_access d (i, u) of None \<Rightarrow> []
     | Some r \<Rightarrow> if grant_active now (fu_expires_at r) then [fu_permission r] else [])"
proof -
  have "concat (map (\<lambda>r. if fu_folder_id r = i then if fu_user_id r = u then
          if grant_active now (fu_expires_at r) then [fu_permission r] else [] else [] else []) rows)
      = map fu_permission (filter (\<lambda>r. fu_key r = (i, u) \<and> grant_active now (fu_expires_at r)) rows)" for rows
    by (induction rows) auto
  then show ?thesis
    using filter_key [OF assms, of "(i, u)" "\<lambda>r. grant_active now (fu_expires_at r)"]
    by (simp add: direct_folder_permissions_def get_folder_user_access_def split: option.splits)
qed

lemma permission_for_lists:
  assumes "distinct (map fu_key (folder_user_access d))"
  shows "permission_for d now f u =
    (if f_owner_id f = u then Some Owner
     else map_option as_entry_permission (strongest
       (direct_folder_permissions d now (f_id f) u @ group_folder_permissions d now (f_id f) u)))"
  by (simp add: permission_for_def direct_by_get [OF assms] split: option.splits)

lemma permission_for_grants:
  assumes "distinct (map fu_key (folder_user_access d))"
  shows "permission_for d now f u =
    (if f_owner_id f = u then Some Owner
     else if folder_grants d now (f_id f) u Write then Some WriteAccess
     else if folder_grants d now (f_id f) u Read then Some ReadAccess
     else None)"
  by (simp add: permission_for_lists [OF assms] strongest_def set_direct set_group)

text \<open>Permissions depend on nothing but the grant tables.\<close>

lemma permission_for_cong:
  assumes "folder_user_access d' = folder_user_access d"
    and "folder_group_access d' = folder_group_access d" and "group_members d' = group_members d"
  shows "permission_for d' now f u = permission_for d now f u"
  using assms
  by (simp add: permission_for_def direct_folder_permissions_def group_folder_permissions_def)

lemma audit_tables [simp]:
  "vault (insert_audit a d) = vault d" "users (insert_audit a d) = users d"
  "entries (insert_audit a d) = entries d" "entry_access (insert_audit a d) = entry_access d"
  "folders (insert_audit a d) = folders d" "groups (insert_audit a d) = groups d"
  "group_members (insert_audit a d) = group_members d"
  "folder_user_access (insert_audit a d) = folder_user_access d"
  "folder_group_access (insert_audit a d) = folder_group_access d"
  "attachments (insert_audit a d) = attachments d" "settings (insert_audit a d) = settings d"
  by (simp_all add: insert_audit_def)

lemma permission_for_audit [simp]:
  "permission_for (insert_audit a d) now f u = permission_for d now f u"
  by (rule permission_for_cong) simp_all

lemma user_grant_tables [simp]:
  "folder_group_access (put_folder_user_access r d) = folder_group_access d"
  "group_members (put_folder_user_access r d) = group_members d"
  "folder_group_access (delete_folder_user_access k d) = folder_group_access d"
  "group_members (delete_folder_user_access k d) = group_members d"
  by (simp_all add: put_folder_user_access_def delete_folder_user_access_def)

lemma group_folder_permissions_user_grants [simp]:
  "group_folder_permissions (put_folder_user_access r d) = group_folder_permissions d"
  "group_folder_permissions (delete_folder_user_access k d) = group_folder_permissions d"
  "group_folder_permissions (insert_audit a d) = group_folder_permissions d"
  by (simp_all add: group_folder_permissions_def fun_eq_iff)

lemma get_folder_user_access_audit [simp]:
  "get_folder_user_access (insert_audit a d) = get_folder_user_access d"
  by (simp add: get_folder_user_access_def fun_eq_iff)

lemma require_manage_Inr:
  "require_manage c folder_id d = Inr f \<longleftrightarrow>
     get_folder d folder_id = Some f \<and> (f_owner_id f = user_of c \<or> is_admin c)"
  by (auto simp: require_manage_def get_folder_or_404_def result_simps)

section \<open>Renaming\<close>

text \<open>What renaming a folder does to one of its entries.\<close>

definition renamed_in :: "env \<Rightarrow> vault_key \<Rightarrow> ustr \<Rightarrow> entry_row \<Rightarrow> entry_row \<Rightarrow> bool" where
  "renamed_in E key name e e' \<longleftrightarrow>
     (\<exists>doc. open_entry E key e = Inr doc \<and> open_entry E key e' = Inr (doc\<lparr>doc_folder := Some name\<rparr>))
     \<and> entry_frame (e'\<lparr>e_updated := e_updated e\<rparr>) = entry_frame e"

lemma rename_in_entry_Inr:
  assumes "env_ok E" and "length (fst (draw (e_id e))) = NONCE_BYTES"
    and "distinct (map e_id (entries d))" and "get_entry d (e_id e) = Some e"
    and "rename_in_entry E key name draw e d = Inr d'"
  obtains e' where "get_entry d' = (get_entry d)(e_id e \<mapsto> e')" and "renamed_in E key name e e'"
    and "d' = d\<lparr>entries := entries d'\<rparr>" and "map e_id (entries d') = map e_id (entries d)"
proof -
  from assms(5) obtain doc s where doc: "open_entry E key e = Inr doc"
      and s: "seal_entry E key (fst (draw (e_id e))) e (doc\<lparr>doc_folder := Some name\<rparr>) = Inr s"
      and d': "update_entry (snd (draw (e_id e))) s d = Inr d'"
    by (auto simp: rename_in_entry_def result_simps)
  note resealed = entry_rows.reseal [OF assms(1,2) doc, of key "\<lambda>x. x\<lparr>doc_folder := Some name\<rparr>", OF s]
  have id: "e_id s = e_id e" using resealed(2) by (rule entry_frame_eqD)
  with assms(4) have "get_entry d (e_id s) \<noteq> None" by simp
  from update_entry_Inr [OF d' assms(3) this] obtain e' where
    e': "e' = s \<or> e' = s\<lparr>e_updated := Good (snd (draw (e_id e)))\<rparr>"
      "get_entry d' = (get_entry d)(e_id s \<mapsto> e')"
      "d' = d\<lparr>entries := entries d'\<rparr>" "map e_id (entries d') = map e_id (entries d)"
    by blast
  have "entry_frame (e'\<lparr>e_updated := e_updated e\<rparr>) = entry_frame e"
    using e'(1) resealed(2) by (cases e; cases s) (auto simp: entry_frame_def)
  with e'(1) resealed(1) doc have "renamed_in E key name e e'"
    by (auto simp: renamed_in_def)
  with e' id that show thesis by simp
qed

lemma rename_entries:
  assumes "env_ok E" and "\<And>i. length (fst (draw i)) = NONCE_BYTES"
    and "fold_res (rename_in_entry E key name draw) es d = Inr d'"
    and "distinct (map e_id (entries d))" and "distinct (map e_id es)"
    and "\<And>e. e \<in> set es \<Longrightarrow> get_entry d (e_id e) = Some e"
  shows "(\<forall>i. i \<notin> e_id ` set es \<longrightarrow> get_entry d' i = get_entry d i)
    \<and> (\<forall>e \<in> set es. \<exists>e'. get_entry d' (e_id e) = Some e' \<and> renamed_in E key name e e')
    \<and> (d' = d\<lparr>entries := entries d'\<rparr> \<and> map e_id (entries d') = map e_id (entries d))"
proof (rule fold_res_rows [where get = get_entry and R = "renamed_in E key name" and
      I = "\<lambda>s. s = d\<lparr>entries := entries s\<rparr> \<and> map e_id (entries s) = map e_id (entries d)",
      OF _ assms(3) _ assms(5,6)])
  fix e s s'
  assume run: "rename_in_entry E key name draw e s = Inr s'"
    and I: "s = d\<lparr>entries := entries s\<rparr> \<and> map e_id (entries s) = map e_id (entries d)"
    and e: "get_entry s (e_id e) = Some e"
  have ids: "distinct (map e_id (entries s))" using I assms(4) by simp
  from rename_in_entry_Inr [OF assms(1,2) ids e run] obtain e' where
    e': "get_entry s' = (get_entry s)(e_id e \<mapsto> e')" "renamed_in E key name e e'"
      "s' = s\<lparr>entries := entries s'\<rparr>" "map e_id (entries s') = map e_id (entries s)" by blast
  have "s' = d\<lparr>entries := entries s'\<rparr>" using only_entries_trans [OF conjunct1 [OF I] e'(3)] .
  with e' I show "\<exists>e'. get_entry s' = (get_entry s)(e_id e \<mapsto> e') \<and> renamed_in E key name e e'
      \<and> (s' = d\<lparr>entries := entries s'\<rparr> \<and> map e_id (entries s') = map e_id (entries d))"
    by auto
qed simp_all

section \<open>The migration\<close>

definition folder_ids_ok :: "db \<Rightarrow> bool" where
  "folder_ids_ok d \<longleftrightarrow> distinct (map f_id (folders d)) \<and> (\<forall>f \<in> set (folders d). f_id f \<le> seq_folders d)"

lemma open_folder_id [simp]: "open_folder E key (f\<lparr>f_id := i\<rparr>) = open_folder E key f"
  by (simp add: open_folder_def cong: cell.case_cong)

lemma insert_folder_Inr:
  assumes "insert_folder f d = Inr (i, d')" and "folder_ids_ok d"
  shows "get_folder d' i = Some (f\<lparr>f_id := i\<rparr>)"
    and "get_folder d j = Some g \<Longrightarrow> get_folder d' j = Some g"
    and "entries d' = entries d" and "vault d' = vault d" and "folder_ids_ok d'"
proof -
  from assms(1) have i: "i = Suc (seq_folders d)"
      and d': "d' = d\<lparr>folders := folders d @ [f\<lparr>f_id := i\<rparr>], seq_folders := i\<rparr>"
    by (auto simp: insert_folder_def Let_def result_simps)
  have new: "row_of f_id i (folders d) = None"
    using assms(2) i by (auto simp: row_of_None folder_ids_ok_def)
  show "get_folder d' i = Some (f\<lparr>f_id := i\<rparr>)"
    using new by (simp add: d' get_folder_def row_simps)
  show "get_folder d j = Some g \<Longrightarrow> get_folder d' j = Some g"
    by (simp add: d' get_folder_def row_simps)
  show "entries d' = entries d" "vault d' = vault d" by (simp_all add: d')
  show "folder_ids_ok d'"
    using assms(2) new i by (auto simp: d' folder_ids_ok_def row_of_None)
qed

lemma folder_for_Inr:
  assumes "env_ok E" and "length (snd random) = NONCE_BYTES" and "folder_ids_ok d"
    and "folder_for E key random owner name d = Inr (i, d')"
  shows "\<exists>f. get_folder d' i = Some f \<and> f_owner_id f = owner \<and> open_folder E key f = Inr name"
    and "get_folder d j = Some g \<Longrightarrow> get_folder d' j = Some g"
    and "entries d' = entries d" and "vault d' = vault d" and "folder_ids_ok d'"
proof -
  from assms(4) obtain ix where ix: "folder_name_index (prims E) key owner name = Inr ix"
    by (auto simp: folder_for_def result_simps)
  let ?key = "\<lambda>f. (f_owner_id f, f_name_index f)"
  have *: "(\<exists>f. get_folder d' i = Some f \<and> f_owner_id f = owner \<and> open_folder E key f = Inr name)
    \<and> (\<forall>j g. get_folder d j = Some g \<longrightarrow> get_folder d' j = Some g)
    \<and> entries d' = entries d \<and> vault d' = vault d \<and> folder_ids_ok d'"
  proof (cases "row_of ?key (owner, Good ix) (folders d)")
    case None
    with assms(4) ix obtain f where
        f: "seal_folder E key (snd random) \<lparr>f_id = 0, f_uid = Good (fst random), f_owner_id = owner,
          f_name_index = Good ix, f_document = Good []\<rparr> name = Inr f"
        and ins: "insert_folder f d = Inr (i, d')"
      by (auto simp: folder_for_def result_simps)
    have "open_folder E key (f\<lparr>f_id := i\<rparr>) = Inr name"
      using open_folder_seal_folder [OF assms(1,2) f] by simp
    moreover have "f_owner_id f = owner"
      using folder_rows.seal_keeps_frame [OF f] by (cases f) (simp add: folder_frame_def)
    ultimately show ?thesis using insert_folder_Inr [OF ins assms(3)] by auto
  next
    case (Some f)
    with assms(4) ix have "open_folder E key f = Inr name" "i = f_id f" "d' = d"
      by (auto simp: folder_for_def result_simps)
    moreover from row_of_Some [OF Some] have "f \<in> set (folders d)" "f_owner_id f = owner" by auto
    moreover from this assms(3) have "get_folder d (f_id f) = Some f"
      by (simp add: get_folder_def folder_ids_ok_def row_of_in_set)
    ultimately show ?thesis using assms(3) by auto
  qed
  from * show "\<exists>f. get_folder d' i = Some f \<and> f_owner_id f = owner \<and> open_folder E key f = Inr name"
    "get_folder d j = Some g \<Longrightarrow> get_folder d' j = Some g" "entries d' = entries d"
    "vault d' = vault d" "folder_ids_ok d'"
    by blast+
qed

text \<open>The link an entry has once it is migrated, in terms of the folders of a database.\<close>

definition linked :: "env \<Rightarrow> vault_key \<Rightarrow> db \<Rightarrow> entry_row \<Rightarrow> entry_row \<Rightarrow> bool" where
  "linked E key d e e' \<longleftrightarrow>
     (\<exists>doc owner. open_entry E key e = Inr doc \<and> open_entry E key e' = Inr doc
       \<and> e_owner_id e = Some owner \<and> e_owner_id e' = Some owner
       \<and> (if doc_folder doc = None \<or> doc_folder doc = Some [] then e_folder_id e' = None
          else \<exists>i f. e_folder_id e' = Some i \<and> get_folder d i = Some f \<and> f_owner_id f = owner
            \<and> open_folder E key f = Inr (the (doc_folder doc))))"

lemma linked_mono:
  assumes "linked E key d e e'" and "\<And>j g. get_folder d j = Some g \<Longrightarrow> get_folder d' j = Some g"
  shows "linked E key d' e e'"
  using assms unfolding linked_def by (auto split: if_splits)

lemma migrate_entry_Inr:
  assumes "env_ok E" and "\<And>i. length (snd (fst (draw i))) = NONCE_BYTES" and "folder_ids_ok d"
    and "distinct (map e_id (entries d))" and "get_entry d (e_id e) = Some e"
    and "migrate_entry E key draw e d = Inr d'"
  obtains e' where "get_entry d' = (get_entry d)(e_id e \<mapsto> e')" and "linked E key d' e e'"
    and "\<And>j g. get_folder d j = Some g \<Longrightarrow> get_folder d' j = Some g"
    and "map e_id (entries d') = map e_id (entries d)" and "vault d' = vault d" and "folder_ids_ok d'"
proof -
  from assms(6) obtain owner doc where owner: "e_owner_id e = Some owner"
      and doc: "open_entry E key e = Inr doc"
    by (auto simp: migrate_entry_def result_simps)
  show thesis
  proof (cases "doc_folder doc = None \<or> doc_folder doc = Some []")
    case True
    with assms(6) owner doc have "e_folder_id e = None" "d' = d"
      by (auto simp: migrate_entry_def result_simps)
    with True owner doc assms(3,5) show thesis
      by (intro that [of e]) (auto simp: linked_def)
  next
    case False
    with assms(6) owner doc obtain i d1 where
        i: "folder_for E key (fst (draw (e_id e))) owner (the (doc_folder doc)) d = Inr (i, d1)"
        and d': "update_entry (snd (draw (e_id e))) (e\<lparr>e_folder_id := Some i\<rparr>) d1 = Inr d'"
      by (auto simp: migrate_entry_def result_simps)
    note d1 = folder_for_Inr [OF assms(1,2,3) i]
    have get1: "get_entry d1 = get_entry d" by (simp add: get_entry_def d1(3) fun_eq_iff)
    have "distinct (map e_id (entries d1))" "get_entry d1 (e_id (e\<lparr>e_folder_id := Some i\<rparr>)) \<noteq> None"
      using assms(4,5) d1(3) get1 by simp_all
    from update_entry_Inr [OF d' this] obtain e' where
      e': "e' = e\<lparr>e_folder_id := Some i\<rparr>
          \<or> e' = e\<lparr>e_folder_id := Some i, e_updated := Good (snd (draw (e_id e)))\<rparr>"
        "get_entry d' = (get_entry d1)(e_id e \<mapsto> e')" "d' = d1\<lparr>entries := entries d'\<rparr>"
        "map e_id (entries d') = map e_id (entries d1)"
      by auto
    note same = entries_only [OF e'(3)]
    have folders: "get_folder d' = get_folder d1"
      by (simp add: get_folder_def same fun_eq_iff)
    have "linked E key d' e e'"
      using e'(1) False owner doc d1(1) by (auto simp: linked_def folders)
    moreover have "folder_ids_ok d'"
      using d1(5) by (simp add: folder_ids_ok_def same)
    ultimately show thesis
      using e' d1 get1 folders same by (intro that [of e']) auto
  qed
qed

lemma migrate_entries:
  assumes "env_ok E" and "\<And>i. length (snd (fst (draw i))) = NONCE_BYTES"
    and "fold_res (migrate_entry E key draw) es d = Inr d'"
    and "folder_ids_ok d" and "distinct (map e_id (entries d))" and "distinct (map e_id es)"
    and "\<And>e. e \<in> set es \<Longrightarrow> get_entry d (e_id e) = Some e"
  shows "(\<forall>i. i \<notin> e_id ` set es \<longrightarrow> get_entry d' i = get_entry d i)
    \<and> (\<forall>e \<in> set es. \<exists>e'. get_entry d' (e_id e) = Some e' \<and> linked E key d' e e')
    \<and> (\<forall>j g. get_folder d j = Some g \<longrightarrow> get_folder d' j = Some g) \<and> vault d' = vault d"
  using assms(3-7)
proof (induction es arbitrary: d)
  case (Cons e es)
  from Cons.prems(1) obtain d1 where d1: "migrate_entry E key draw e d = Inr d1"
      and rest: "fold_res (migrate_entry E key draw) es d1 = Inr d'"
    by (auto simp: result_simps)
  from Cons.prems(5) have "get_entry d (e_id e) = Some e" by simp
  from migrate_entry_Inr [OF assms(1,2) Cons.prems(2,3) this d1] obtain e' where
    e': "get_entry d1 = (get_entry d)(e_id e \<mapsto> e')" "linked E key d1 e e'"
      "\<And>j g. get_folder d j = Some g \<Longrightarrow> get_folder d1 j = Some g"
      "map e_id (entries d1) = map e_id (entries d)" "vault d1 = vault d" "folder_ids_ok d1"
    by blast
  have others: "\<And>f. f \<in> set es \<Longrightarrow> get_entry d1 (e_id f) = Some f"
    using Cons.prems(4,5) e'(1) by (auto simp: image_iff)
  have "distinct (map e_id es)" using Cons.prems(4) by simp
  note IH = Cons.IH [OF rest e'(6), unfolded e'(4), OF Cons.prems(3) this others]
  have kept: "get_entry d' (e_id e) = Some e'"
    using IH Cons.prems(4) e'(1) by (auto simp: image_iff)
  have "linked E key d' e e'"
    using IH e'(2) by (blast intro: linked_mono)
  with IH kept e' Cons.prems(4) show ?case by auto
qed simp

section \<open>The administrator's report\<close>

fun as_share_permission :: "entry_permission \<Rightarrow> share_permission" where
  "as_share_permission ReadAccess = Read"
| "as_share_permission WriteAccess = Write"
| "as_share_permission Owner = Write"

lemma as_share_as_entry [simp]: "as_share_permission (as_entry_permission p) = p"
  by (cases p) simp_all

lemma group_sources_active:
  assumes "group_sources E key now i u d = Inr ss"
    and "\<And>r. r \<in> set (folder_group_access d) \<Longrightarrow> get_group d (fg_group_id r) \<noteq> None"
  shows "{fs_permission s |s. s \<in> set ss \<and> grant_active now (fs_expires_at s)}
    = {p. granted_by_group d now i u p}"
proof -
  define pairs where "pairs = [(r, g). r \<leftarrow> folder_group_access d, m \<leftarrow> group_members d,
      gm_group_id m = fg_group_id r, g \<leftarrow> groups d, g_id g = fg_group_id r, fg_folder_id r = i, gm_user_id m = u]"
  have mem: "(r, g) \<in> set pairs \<longleftrightarrow> r \<in> set (folder_group_access d) \<and> fg_folder_id r = i \<and> g \<in> set (groups d)
      \<and> g_id g = fg_group_id r \<and> (\<exists>m \<in> set (group_members d). gm_key m = (fg_group_id r, u))" for r g
    by (auto simp: pairs_def)
  let ?h = "\<lambda>s. (fs_permission s, fs_expires_at s)" and ?g = "\<lambda>(r, g). (fg_permission r, fg_expires_at r)"
  have "list_all2 (\<lambda>x s. ?h s = ?g x) pairs ss"
    using assms(1) unfolding group_sources_def map_res_Inr pairs_def [symmetric]
    by (rule list_all2_mono) (auto simp: result_simps)
  then have "map ?h ss = map ?g pairs"
    by (induction rule: list_all2_induct) auto
  then have same: "?h ` set ss = ?g ` set pairs"
    by (metis set_map)
  have "{fs_permission s |s. s \<in> set ss \<and> grant_active now (fs_expires_at s)}
      = {p. \<exists>t. (p, t) \<in> ?h ` set ss \<and> grant_active now t}"
    by auto
  also have "\<dots> = {fg_permission r |r g. (r, g) \<in> set pairs \<and> grant_active now (fg_expires_at r)}"
    unfolding same by (auto simp: image_iff split_beta) (metis fst_conv)
  also have "\<dots> = {p. granted_by_group d now i u p}"
    using assms(2) by (fastforce simp: mem granted_by_group_def get_group_def dest: row_of_Some)
  finally show ?thesis .
qed

lemma effective_permission:
  assumes "distinct (map fu_key (folder_user_access d))"
    and "\<And>r. r \<in> set (folder_group_access d) \<Longrightarrow> get_group d (fg_group_id r) \<noteq> None"
    and "user_access_row E c key now u i d f = Inr row"
  shows "ua_effective_permission row = map_option as_share_permission (permission_for d now f i)"
    and "fr_id (ua_folder row) = f_id f"
proof -
  from assms(3) obtain response ss where response: "folder_response_of E c key now d f = Inr response"
      and ss: "group_sources E key now (f_id f) i d = Inr ss"
      and row: "ua_folder row = response"
      and eff: "ua_effective_permission row = (if f_owner_id f = i then Some Write else strongest
        [fs_permission s. s \<leftarrow> (case get_folder_user_access d (f_id f, i) of None \<Rightarrow> []
           | Some r \<Rightarrow> [\<lparr>fs_source = FromDirect, fs_source_id = i, fs_name = Some (u_username u),
                  fs_permission = fu_permission r, fs_expires_at = fu_expires_at r,
                  fs_expired = (\<not> grant_active now (fu_expires_at r))\<rparr>]) @ ss,
          grant_active now (fs_expires_at s)])"
    by (auto simp: user_access_row_def result_simps Let_def)
  show "fr_id (ua_folder row) = f_id f"
    using response unfolding row by (auto simp: folder_response_of_def result_simps)
  let ?all = "direct_folder_permissions d now (f_id f) i @ [fs_permission s. s \<leftarrow> ss, grant_active now (fs_expires_at s)]"
  have "set [fs_permission s. s \<leftarrow> ss, grant_active now (fs_expires_at s)]
      = set (group_folder_permissions d now (f_id f) i)"
    using group_sources_active [OF ss assms(2)] by (auto simp: set_group)
  then have "strongest ?all = strongest (direct_folder_permissions d now (f_id f) i
      @ group_folder_permissions d now (f_id f) i)"
    by (intro strongest_set_cong) simp
  moreover have "f_owner_id f \<noteq> i \<Longrightarrow> ua_effective_permission row = strongest ?all"
    by (simp add: eff direct_by_get [OF assms(1)] split: option.splits)
  ultimately show "ua_effective_permission row = map_option as_share_permission (permission_for d now f i)"
    by (simp add: eff permission_for_lists [OF assms(1)] option.map_comp comp_def option.map_ident)
qed

section \<open>A concrete vault\<close>

lemma folder_frame_eqD:
  assumes "folder_frame f = folder_frame g"
  shows "f_id f = f_id g" "f_uid f = f_uid g" "f_owner_id f = f_owner_id g"
  using assms by (cases f; cases g; simp add: folder_frame_def)+

lemma group_frame_eqD:
  assumes "group_frame f = group_frame g"
  shows "g_id f = g_id g" "g_uid f = g_uid g"
  using assms by (cases f; cases g; simp add: group_frame_def)+

lemma seal_folder_ok:
  "is_ok (seal_folder E key n f name) \<longleftrightarrow>
     is_ok (utf8 (folder_index_text (f_owner_id f) name)) \<and> is_ok (enc_named E name)
     \<and> is_ok (folder_ad (f_uid f) (f_owner_id f))"
  by (auto simp: seal_folder_def folder_name_index_def vk_seal_folder_def is_ok_iff result_simps)

lemma seal_entry_ok:
  "is_ok (seal_entry E key n e doc) \<longleftrightarrow>
     (\<exists>b. enc_entry E doc = Inr b \<and> length b \<le> MAX_ENTRY_STORED_BYTES) \<and> is_ok (utf8 (doc_name doc))
     \<and> is_ok (entry_ad (e_uid e))"
  by (auto simp: seal_entry_def name_index_def vk_seal_entry_def is_ok_iff result_simps)

lemma seal_group_ok:
  "is_ok (seal_group E key n g name) \<longleftrightarrow>
     is_ok (utf8 (group_index_text name)) \<and> is_ok (enc_named E name) \<and> is_ok (group_ad (g_uid g))"
  by (auto simp: seal_group_def group_name_index_def vk_seal_group_def is_ok_iff result_simps)

lemma projr_ok: "is_ok r \<Longrightarrow> r = Inr (projr r)"
  by (cases r) simp_all

text \<open>
  Two active accounts, an administrator (7) and a member (8); the administrator's folder 3 named A
  with entry 4 in it; a group 5 without members; the folder links not yet migrated.
\<close>

definition sample_docs :: "entry_document list" where
  "sample_docs = [sample_doc [110] None, sample_doc [110] (Some [65]), sample_doc [110] (Some [66])]"

abbreviation sample_E :: env where "sample_E \<equiv> sample_env sample_docs"

definition sample_cols :: key_columns where
  "sample_cols = \<lparr>kc_kdf = ''argon2id'', kc_memory_kib = Good 65536, kc_iterations = Good 3,
     kc_lanes = Good 4, kc_salt = Good (replicate 16 0), kc_password_check = Good (replicate 32 0),
     kc_wrapped_key = Good (replicate 61 0), kc_key_check = Good (replicate 32 0)\<rparr>"

definition sample_user :: "nat \<Rightarrow> user_role \<Rightarrow> user_row" where
  "sample_user i role = \<lparr>u_id = i, u_username = [96 + i], u_role = role, u_active = True,
     u_must_change_password = False, u_service_owner_id = None, u_service_token_hash = None,
     u_cols = sample_cols\<rparr>"

definition sample_ctx :: "nat \<Rightarrow> user_role \<Rightarrow> auth_context" where
  "sample_ctx i role = \<lparr>ctx_user = sample_user i role, ctx_key = sample_key, ctx_token = None\<rparr>"

abbreviation blank_folder :: folder_row where
  "blank_folder \<equiv> \<lparr>f_id = 3, f_uid = Good [1], f_owner_id = 7, f_name_index = Good [], f_document = Good []\<rparr>"

abbreviation blank_entry :: "nat option \<Rightarrow> entry_row" where
  "blank_entry link \<equiv> \<lparr>e_id = 4, e_uid = Good [2], e_created = Good 0, e_updated = Good 0, e_deleted = None,
      e_owner_id = Some 7, e_folder_id = link, e_name_index = Good [], e_document = Good [],
      e_backed_up = False\<rparr>"

definition sample_folder :: folder_row where
  "sample_folder = projr (seal_folder sample_E sample_key sample_nonce blank_folder [65])"

definition sample_entry :: "nat option \<Rightarrow> ustr option \<Rightarrow> entry_row" where
  "sample_entry link folder =
     projr (seal_entry sample_E sample_key sample_nonce (blank_entry link) (sample_doc [110] folder))"

definition sample_group :: group_row where
  "sample_group = projr (seal_group sample_E sample_key sample_nonce
     \<lparr>g_id = 5, g_uid = Good [3], g_name_index = Good [], g_document = Good []\<rparr> [71])"

definition sample_db :: db where
  "sample_db = empty_db\<lparr>
     vault := Some \<lparr>v_format_version = 2, v_folder_links_ready = False, v_owner_user_id = Some 7,
       v_cols = sample_cols\<rparr>,
     users := [sample_user 7 Admin, sample_user 8 Member], seq_users := 8,
     entries := [sample_entry (Some 3) (Some [65])], seq_entries := 4,
     folders := [sample_folder], seq_folders := 3,
     groups := [sample_group], seq_groups := 5\<rparr>"

lemma sample_char [simp]: "c < 128 \<Longrightarrow> utf8_char c = Some [word_of_nat c]"
  by (simp add: utf8_char_def)

lemma sample_texts_ok [simp]:
  "is_ok (utf8 (folder_index_text 7 [65]))" "is_ok (utf8 (folder_index_text 7 [66]))"
  "is_ok (utf8 (group_index_text [71]))"
  by code_simp+

lemma sample_ads_ok [simp]:
  "is_ok (folder_ad (Good [u]) 7)" "is_ok (entry_ad (Good [u]))" "is_ok (group_ad (Good [u]))"
  by (simp_all add: folder_ad_def entry_ad_def group_ad_def to_bytes8_def associated_data_def pack_u_def)

lemma sample_encoders_ok [simp]:
  "c < 256 \<Longrightarrow> is_ok (enc_named sample_E [c])"
  "f \<in> {None, Some [65], Some [66]} \<Longrightarrow>
     \<exists>b. enc_entry sample_E (sample_doc [110] f) = Inr b \<and> length b \<le> MAX_ENTRY_STORED_BYTES"
  by (auto simp: sample_env_def latin1_def sample_docs_def MAX_ENTRY_STORED_BYTES_def)

lemma sample_doc_fields [simp]:
  "doc_name (sample_doc n f) = n" "doc_folder (sample_doc n f) = f"
  "(sample_doc n f)\<lparr>doc_folder := g\<rparr> = sample_doc n g"
  by (simp_all add: sample_doc_def)

lemma sample_sealed:
  "seal_folder sample_E sample_key sample_nonce blank_folder [65] = Inr sample_folder"
  "f \<in> {None, Some [65], Some [66]} \<Longrightarrow>
     seal_entry sample_E sample_key sample_nonce (blank_entry link) (sample_doc [110] f)
       = Inr (sample_entry link f)"
  "seal_group sample_E sample_key sample_nonce
     \<lparr>g_id = 5, g_uid = Good [3], g_name_index = Good [], g_document = Good []\<rparr> [71] = Inr sample_group"
  unfolding sample_folder_def sample_entry_def sample_group_def
  by (rule projr_ok; simp add: seal_folder_ok seal_entry_ok seal_group_ok)+

lemmas sample_frames =
  folder_frame_eqD [OF folder_rows.seal_keeps_frame [OF sample_sealed(1)]]
  entry_frame_eqD [OF entry_rows.seal_keeps_frame [OF sample_sealed(2)]]
  group_frame_eqD [OF group_rows.seal_keeps_frame [OF sample_sealed(3)]]

lemmas sample_facts [simp] = sample_frames [simplified]

lemma blank_entry_readable: "entry_readable (blank_entry link)"
  by (simp add: entry_readable_def)

lemmas sample_opened [simp] =
  open_folder_seal_folder [OF sample_env_ok length_sample_nonce sample_sealed(1)]
  open_entry_seal_entry [OF sample_env_ok length_sample_nonce blank_entry_readable sample_sealed(2)]
  open_group_seal_group [OF sample_env_ok length_sample_nonce sample_sealed(3)]

lemmas sample_db_defs = sample_db_def empty_db_def sample_user_def

lemma sample_keys_ok: "keys_ok sample_db" and sample_fk_ok: "fk_ok sample_db"
  by (simp_all add: keys_ok_def fk_ok_def sample_db_defs get_user_def get_folder_def)

section \<open>Properties\<close>

text \<open>
  A folder permission is the strongest grant in force. The owner has owner access; anyone else
  has write access if an active direct or group grant says so, read access if only read grants
  are in force, and none otherwise; expired grants and the administrator role count for nothing.
\<close>

theorem folder_permission_spec:
  assumes "distinct (map fu_key (folder_user_access d))"
  shows "permission_for d now f u =
    (if f_owner_id f = u then Some Owner
     else if granted_directly d now (f_id f) u Write \<or> granted_by_group d now (f_id f) u Write
       then Some WriteAccess
     else if granted_directly d now (f_id f) u Read \<or> granted_by_group d now (f_id f) u Read
       then Some ReadAccess
     else None)"
  by (rule permission_for_grants [OF assms])

theorem folder_permission_spec_witness:
  "permission_for (put_folder_user_access \<lparr>fu_folder_id = 3, fu_user_id = 8, fu_permission = Read,
       fu_expires_at = Some 100, fu_granted_by = Some 7\<rparr> sample_db) 99 sample_folder 8 = Some ReadAccess"
  by (subst folder_permission_spec)
    (simp_all add: put_folder_user_access_def upsert_def sample_db_defs granted_directly_def
      granted_by_group_def grant_active_def)

text \<open>
  Granting a folder to a user. Only the folder's owner or an administrator can do it, for an
  active account other than the owner. Afterwards that user has, at any time, the strongest of
  the new grant (until it expires) and the grants of the user's groups; no one else's access to
  any folder, and no one's access to another folder, changes; and one audit event is written.
\<close>

theorem set_user_grant_effect:
  assumes "distinct (map fu_key (folder_user_access d))"
    and "set_user_grant c folder_id user_id p expires_at now d = Inr (grant, d')"
  shows "(\<exists>f u. get_folder d folder_id = Some f \<and> (f_owner_id f = user_of c \<or> is_admin c)
       \<and> get_user d user_id = Some u \<and> u_active u \<and> user_id \<noteq> f_owner_id f)
    \<and> (\<forall>f u now'. permission_for d' now' f u =
        (if f_id f = folder_id \<and> u = user_id \<and> f_owner_id f \<noteq> u
         then map_option as_entry_permission (strongest ((if grant_active now' expires_at then [p] else [])
           @ group_folder_permissions d now' folder_id user_id))
         else permission_for d now' f u))
    \<and> length (access_audit d') = Suc (length (access_audit d))"
proof -
  let ?r = "\<lparr>fu_folder_id = folder_id, fu_user_id = user_id, fu_permission = p,
      fu_expires_at = expires_at, fu_granted_by = Some (user_of c)\<rparr>"
  from assms(2) obtain f u event where f: "require_manage c folder_id d = Inr f"
      and u: "get_user d user_id = Some u" "u_active u" "u_id u \<noteq> f_owner_id f"
      and d': "d' = insert_audit event (put_folder_user_access ?r d)"
    by (auto simp: set_user_grant_def result_simps Let_def)
  have id: "u_id u = user_id"
    using u(1) by (auto simp: get_user_def dest: row_of_Some)
  have distinct': "distinct (map fu_key (folder_user_access d'))"
    using user_grants.distinct_put [OF assms(1)] d' by simp
  have "permission_for d' now' g v =
        (if f_id g = folder_id \<and> v = user_id \<and> f_owner_id g \<noteq> v
         then map_option as_entry_permission (strongest ((if grant_active now' expires_at then [p] else [])
           @ group_folder_permissions d now' folder_id user_id))
         else permission_for d now' g v)" for now' g v
    unfolding permission_for_lists [OF distinct'] permission_for_lists [OF assms(1)]
      direct_by_get [OF distinct'] direct_by_get [OF assms(1)]
    by (auto simp: d' user_grants.get_put)
  moreover have "length (access_audit d') = Suc (length (access_audit d))"
    by (simp add: d' insert_audit_def put_folder_user_access_def)
  ultimately show ?thesis
    using f u id by (auto simp: require_manage_Inr)
qed

theorem set_user_grant_effect_witness:
  "\<exists>grant d'. set_user_grant (sample_ctx 7 Admin) 3 8 Write (Some 100) 50 sample_db = Inr (grant, d')
     \<and> permission_for d' 99 sample_folder 8 = Some WriteAccess
     \<and> permission_for d' 100 sample_folder 8 = None"
proof -
  obtain grant d' where run: "set_user_grant (sample_ctx 7 Admin) 3 8 Write (Some 100) 50 sample_db = Inr (grant, d')"
    by (simp add: set_user_grant_def require_manage_def get_folder_or_404_def sample_db_defs get_folder_def
        get_user_def sample_ctx_def is_admin_def Let_def)
  have "distinct (map fu_key (folder_user_access sample_db))"
    by (simp add: sample_db_defs)
  from set_user_grant_effect [OF this run] have
    "permission_for d' now' sample_folder 8 = map_option as_entry_permission
       (strongest (if grant_active now' (Some 100) then [Write] else []))" for now'
    by (simp add: group_folder_permissions_def sample_db_defs)
  then show ?thesis
    using run by (simp add: grant_active_def strongest_def)
qed

text \<open>
  Revoking a user's folder grant. Only the folder's owner or an administrator can do it. From
  then on the user has at most what the grants of the user's groups give, and nothing else
  changes for anyone.
\<close>

theorem revoke_user_grant_effect:
  assumes "distinct (map fu_key (folder_user_access d))"
    and "revoke_user_grant c folder_id user_id now d = Inr d'"
  shows "(\<exists>f. get_folder d folder_id = Some f \<and> (f_owner_id f = user_of c \<or> is_admin c))
    \<and> (\<forall>f u now'. permission_for d' now' f u =
        (if f_id f = folder_id \<and> u = user_id \<and> f_owner_id f \<noteq> u
         then map_option as_entry_permission (strongest (group_folder_permissions d now' folder_id user_id))
         else permission_for d now' f u))"
proof -
  from assms(2) obtain f event where f: "require_manage c folder_id d = Inr f"
      and d': "d' = delete_folder_user_access (folder_id, user_id) (insert_audit event d)"
    by (auto simp: revoke_user_grant_def result_simps)
  have distinct': "distinct (map fu_key (folder_user_access d'))"
    using user_grants.distinct_delete [of "insert_audit event d"] assms(1) d' by simp
  have "permission_for d' now' g v =
        (if f_id g = folder_id \<and> v = user_id \<and> f_owner_id g \<noteq> v
         then map_option as_entry_permission (strongest (group_folder_permissions d now' folder_id user_id))
         else permission_for d now' g v)" for now' g v
    unfolding permission_for_lists [OF distinct'] permission_for_lists [OF assms(1)]
      direct_by_get [OF distinct'] direct_by_get [OF assms(1)]
    by (auto simp: d' user_grants.get_delete)
  then show ?thesis using f by (auto simp: require_manage_Inr)
qed

theorem revoke_user_grant_effect_witness:
  "\<exists>d'. revoke_user_grant (sample_ctx 7 Admin) 3 8 50 (put_folder_user_access \<lparr>fu_folder_id = 3,
       fu_user_id = 8, fu_permission = Read, fu_expires_at = None, fu_granted_by = Some 7\<rparr> sample_db) = Inr d'
     \<and> permission_for d' 60 sample_folder 8 = None"
proof -
  let ?d = "put_folder_user_access \<lparr>fu_folder_id = 3, fu_user_id = 8, fu_permission = Read,
      fu_expires_at = None, fu_granted_by = Some 7\<rparr> sample_db"
  obtain d' where run: "revoke_user_grant (sample_ctx 7 Admin) 3 8 50 ?d = Inr d'"
    by (simp add: revoke_user_grant_def require_manage_def get_folder_or_404_def sample_db_defs get_folder_def
        put_folder_user_access_def upsert_def get_folder_user_access_def sample_ctx_def is_admin_def)
  have "distinct (map fu_key (folder_user_access ?d))"
    by (simp add: sample_db_defs put_folder_user_access_def upsert_def)
  from revoke_user_grant_effect [OF this run] have "permission_for d' 60 sample_folder 8 = None"
    by (simp add: group_folder_permissions_def sample_db_defs strongest_def)
  with run show ?thesis by blast
qed

text \<open>
  Renaming a folder keeps its entries in step. Only the owner can rename; afterwards the folder
  opens under the new name with the same owner and id, every entry in it (in the trash too)
  opens to the same document with the new folder name and keeps everything else but its update
  time, and every other entry is untouched.
\<close>

theorem folder_rename_consistent:
  assumes "env_ok E" and "length nonce = NONCE_BYTES" and "\<And>i. length (fst (draw i)) = NONCE_BYTES"
    and "keys_ok d"
    and "folder_rename E c folder_id name key nonce draw now d = Inr (response, d')"
  shows "(\<exists>f f'. get_folder d folder_id = Some f \<and> f_owner_id f = user_of c
       \<and> get_folder d' folder_id = Some f' \<and> open_folder E key f' = Inr name
       \<and> folder_frame f' = folder_frame f)
    \<and> (\<forall>e \<in> set (entries d). \<exists>e'. get_entry d' (e_id e) = Some e'
         \<and> (if e_folder_id e = Some folder_id then renamed_in E key name e e' else e' = e))"
proof -
  from assms(5) obtain f f' d1 d2 event where f: "get_folder d folder_id = Some f" "f_owner_id f = user_of c"
      and f': "seal_folder E key nonce f name = Inr f'" and d1: "update_folder f' d = Inr d1"
      and d2: "fold_res (rename_in_entry E key name draw)
        (filter (\<lambda>e. e_folder_id e = Some (f_id f)) (entries d)) d1 = Inr d2"
      and d': "d' = insert_audit event d2"
    by (auto simp: folder_rename_def get_folder_or_404_def result_simps Let_def)
  have id: "f_id f = folder_id" using f(1) by (auto simp: get_folder_def dest: row_of_Some)
  from d1 have d1': "d1 = d\<lparr>folders := set_row f_id f' (folders d)\<rparr>"
    by (auto simp: update_folder_def Let_def result_simps)
  have frame: "folder_frame f' = folder_frame f"
    using folder_rows.seal_keeps_frame [OF f'] .
  then have id': "f_id f' = folder_id"
    using id by (cases f; cases f'; simp add: folder_frame_def)
  have ids: "distinct (map e_id (entries d))" using assms(4) by (simp add: keys_ok_def)
  have get: "get_entry d1 = get_entry d" by (simp add: d1' get_entry_def fun_eq_iff)
  have row: "e \<in> set (entries d) \<Longrightarrow> get_entry d (e_id e) = Some e" for e
    using ids by (simp add: get_entry_def row_of_in_set)
  have entries: "entries d1 = entries d" by (simp add: d1')
  have renamed: "(\<forall>i. i \<notin> e_id ` {e \<in> set (entries d). e_folder_id e = Some folder_id} \<longrightarrow>
        get_entry d2 i = get_entry d1 i)
      \<and> (\<forall>e \<in> {e \<in> set (entries d). e_folder_id e = Some folder_id}.
           \<exists>e'. get_entry d2 (e_id e) = Some e' \<and> renamed_in E key name e e')
      \<and> d2 = d1\<lparr>entries := entries d2\<rparr>"
    using rename_entries [OF assms(1,3) d2] ids row get entries id
    by (simp add: distinct_map_filter)
  have "get_folder d' folder_id = Some f'"
  proof -
    have "folders d2 = folders d1" using renamed by (blast intro: entries_only)
    then show ?thesis
      using f(1) id' by (simp add: d' get_folder_def d1' row_simps)
  qed
  moreover have "open_folder E key f' = Inr name"
    using open_folder_seal_folder [OF assms(1,2) f'] .
  moreover have "\<exists>e'. get_entry d' (e_id e) = Some e'
       \<and> (if e_folder_id e = Some folder_id then renamed_in E key name e e' else e' = e)"
    if e: "e \<in> set (entries d)" for e
  proof (cases "e_folder_id e = Some folder_id")
    case True
    with e renamed show ?thesis by (simp add: d' get_entry_def)
  next
    case False
    with e ids have "e_id e \<notin> e_id ` {e \<in> set (entries d). e_folder_id e = Some folder_id}"
      by (auto simp: distinct_map inj_on_def)
    with renamed row [OF e] get False show ?thesis by (simp add: d' get_entry_def)
  qed
  ultimately show ?thesis using f frame by blast
qed

theorem folder_rename_consistent_witness:
  "\<exists>response d' e'. folder_rename sample_E (sample_ctx 7 Admin) 3 [66] sample_key sample_nonce
       (\<lambda>_. (sample_nonce, 7)) 5 sample_db = Inr (response, d')
     \<and> get_entry d' 4 = Some e' \<and> open_entry sample_E sample_key e' = Inr (sample_doc [110] (Some [66]))"
proof -
  let ?e = "sample_entry (Some 3) (Some [65])"
  obtain f' where f': "seal_folder sample_E sample_key sample_nonce sample_folder [66] = Inr f'"
    using projr_ok [of "seal_folder sample_E sample_key sample_nonce sample_folder [66]"]
    by (auto simp: seal_folder_ok)
  obtain e' where e': "seal_entry sample_E sample_key sample_nonce ?e (sample_doc [110] (Some [66])) = Inr e'"
    using projr_ok [of "seal_entry sample_E sample_key sample_nonce ?e (sample_doc [110] (Some [66]))"]
    by (auto simp: seal_entry_ok)
  note frames = folder_frame_eqD [OF folder_rows.seal_keeps_frame [OF f'], simplified]
    entry_frame_eqD [OF entry_rows.seal_keeps_frame [OF e'], simplified]
  obtain ix where ix: "folder_name_index (prims sample_E) sample_key 7 [66] = Inr ix"
    using sample_texts_ok(2) by (auto simp: folder_name_index_def is_ok_iff)
  have opened: "open_folder sample_E sample_key f' = Inr [66]"
    using open_folder_seal_folder [OF sample_env_ok length_sample_nonce f'] .
  have "is_ok (folder_rename sample_E (sample_ctx 7 Admin) 3 [66] sample_key sample_nonce
      (\<lambda>_. (sample_nonce, 7)) 5 sample_db)"
    by (auto simp: folder_rename_def get_folder_or_404_def get_folder_def get_user_def sample_db_defs
        sample_ctx_def ix f' e' frames opened folder_name_taken_def update_folder_def folders_unique_def
        set_row_def rename_in_entry_def update_entry_def entries_unique_def active_indexes_def
        folder_response_of_def Let_def)
  then obtain response d' where run: "folder_rename sample_E (sample_ctx 7 Admin) 3 [66] sample_key
      sample_nonce (\<lambda>_. (sample_nonce, 7)) 5 sample_db = Inr (response, d')"
    by (auto simp: is_ok_iff)
  have "?e \<in> set (entries sample_db)" by (simp add: sample_db_def)
  with folder_rename_consistent [OF sample_env_ok length_sample_nonce _ sample_keys_ok run] run
  show ?thesis by (fastforce simp: renamed_in_def)
qed

text \<open>
  The migration links every entry to its folder. When it succeeds on a vault that was not yet
  migrated, the vault is marked ready, every existing folder is kept as it was, and every entry
  still opens to the same document under the same owner and is linked to a folder of that owner
  whose decrypted name is the entry's folder name, or to none when the entry names no folder.
\<close>

theorem migration_links_every_entry:
  assumes "env_ok E" and "\<And>i. length (snd (fst (draw i))) = NONCE_BYTES" and "keys_ok d"
    and "vault d = Some v" and "\<not> v_folder_links_ready v"
    and "migrate_folder_links E key draw d = Inr d'"
  shows "vault d' = Some (v\<lparr>v_folder_links_ready := True\<rparr>)
    \<and> (\<forall>i f. get_folder d i = Some f \<longrightarrow> get_folder d' i = Some f)
    \<and> (\<forall>e \<in> set (entries d). \<exists>e' doc owner. get_entry d' (e_id e) = Some e'
         \<and> open_entry E key e = Inr doc \<and> open_entry E key e' = Inr doc
         \<and> e_owner_id e = Some owner \<and> e_owner_id e' = Some owner
         \<and> (if doc_folder doc = None \<or> doc_folder doc = Some [] then e_folder_id e' = None
            else \<exists>i f. e_folder_id e' = Some i \<and> get_folder d' i = Some f \<and> f_owner_id f = owner
              \<and> open_folder E key f = Inr (the (doc_folder doc))))"
proof -
  from assms(4-6) obtain d1 where d1: "fold_res (migrate_entry E key draw) (entries d) d = Inr d1"
      and d': "d' = d1\<lparr>vault := Some (v\<lparr>v_folder_links_ready := True\<rparr>)\<rparr>"
    by (auto simp: migrate_folder_links_def result_simps)
  have ids: "folder_ids_ok d" "distinct (map e_id (entries d))"
    using assms(3) by (auto simp: keys_ok_def folder_ids_ok_def)
  have same: "get_folder d' = get_folder d1" "get_entry d' = get_entry d1"
    by (simp_all add: d' get_folder_def get_entry_def fun_eq_iff)
  have links: "(\<forall>e \<in> set (entries d). \<exists>e'. get_entry d1 (e_id e) = Some e' \<and> linked E key d1 e e')
    \<and> (\<forall>j g. get_folder d j = Some g \<longrightarrow> get_folder d1 j = Some g)"
    using migrate_entries [OF assms(1,2) d1 ids ids(2)] ids(2)
    by (simp add: get_entry_def row_of_in_set)
  show ?thesis
    unfolding same using links d' by (simp add: linked_def)
qed

theorem migration_links_every_entry_witness:
  "\<exists>d' e'. migrate_folder_links sample_E sample_key (\<lambda>_. ((sample_nonce, sample_nonce), 9)) sample_db = Inr d'
     \<and> get_entry d' 4 = Some e' \<and> e_folder_id e' = Some 3"
proof -
  obtain ix where ix: "folder_name_index (prims sample_E) sample_key 7 [65] = Inr ix"
    using sample_texts_ok(1) by (auto simp: folder_name_index_def is_ok_iff)
  with sample_sealed(1) have "f_name_index sample_folder = Good ix"
    by (auto simp: seal_folder_def result_simps dest!: arg_cong [where f = f_name_index])
  then obtain d' where run:
      "migrate_folder_links sample_E sample_key (\<lambda>_. ((sample_nonce, sample_nonce), 9)) sample_db = Inr d'"
      and e: "get_entry d' 4 = Some (sample_entry (Some 3) (Some [65]))"
    by (simp add: migrate_folder_links_def migrate_entry_def folder_for_def ix sample_db_defs
        update_entry_def get_entry_def)
  have "\<exists>v. vault sample_db = Some v \<and> \<not> v_folder_links_ready v" by (simp add: sample_db_def)
  then obtain v where v: "vault sample_db = Some v" "\<not> v_folder_links_ready v" by blast
  have "sample_entry (Some 3) (Some [65]) \<in> set (entries sample_db)" by (simp add: sample_db_def)
  with migration_links_every_entry [OF sample_env_ok _ sample_keys_ok v run] run e
  show ?thesis by fastforce
qed

text \<open>
  The administrator's access report tells the truth. For every folder, in order, the effective
  permission it reports for a user is the one that access control enforces for that user (owners
  are shown with write), although it is computed from a different set of queries.
\<close>

theorem access_report_agrees:
  assumes "distinct (map fu_key (folder_user_access d))" and "fk_ok d"
    and "folder_user_access_report E c user_id key now d = Inr rows"
  shows "list_all2 (\<lambda>f row. fr_id (ua_folder row) = f_id f
      \<and> ua_effective_permission row = map_option as_share_permission (permission_for d now f user_id))
    (folders d) rows"
proof -
  from assms(3) obtain u where "map_res (user_access_row E c key now u user_id d) (folders d) = Inr rows"
    by (auto simp: folder_user_access_report_def result_simps)
  then have "list_all2 (\<lambda>f row. user_access_row E c key now u user_id d f = Inr row) (folders d) rows"
    by (simp add: map_res_Inr)
  then show ?thesis
    by (rule list_all2_mono) (use effective_permission assms(1,2) in \<open>auto simp: fk_ok_def\<close>)
qed

theorem access_report_agrees_witness:
  "\<exists>rows. folder_user_access_report sample_E (sample_ctx 7 Admin) 8 sample_key 5 sample_db = Inr rows
     \<and> map ua_effective_permission rows = [None]"
proof -
  let ?run = "folder_user_access_report sample_E (sample_ctx 7 Admin) 8 sample_key 5 sample_db"
  obtain rows where run: "?run = Inr rows"
    by (simp add: folder_user_access_report_def user_access_row_def folder_response_of_def
        group_sources_def sample_db_defs get_user_def sample_ctx_def is_admin_def Let_def)
  have "distinct (map fu_key (folder_user_access sample_db))" by (simp add: sample_db_defs)
  note agrees = access_report_agrees [OF this sample_fk_ok run]
  have folders: "folders sample_db = [sample_folder]" by (simp add: sample_db_def)
  have none: "permission_for sample_db 5 sample_folder 8 = None"
    by (simp add: sample_db_defs permission_for_def direct_folder_permissions_def
        group_folder_permissions_def strongest_def)
  from agrees obtain row where "rows = [row]" and "ua_effective_permission row =
      map_option as_share_permission (permission_for sample_db 5 sample_folder 8)"
    unfolding folders list_all2_Cons1 list_all2_Nil by blast
  with none have "map ua_effective_permission rows = [None]" by (simp only: list.map option.map)
  with run show ?thesis by (intro exI conjI)
qed

end
