(* ===== verification/User_Groups.thy ===== *)
theory User_Groups
  imports Folders
begin

text \<open>
  Groups and their members (\<^verbatim>\<open>backend/crud/folder.py\<close>, \<^verbatim>\<open>GroupCRUD\<close>), managed by administrators.
\<close>

section \<open>Operations\<close>

record group_response =
  gs_id :: nat
  gs_name :: ustr
  gs_member_count :: nat

record group_member =
  mb_user_id :: nat
  mb_username :: ustr
  mb_role :: user_role

definition require_group_admin :: "auth_context \<Rightarrow> error + unit" where
  "require_group_admin c = ensure (is_admin c) Forbidden"

definition get_group_or_404 :: "db \<Rightarrow> nat \<Rightarrow> error + group_row" where
  "get_group_or_404 d group_id = orElse (get_group d group_id) NotFound"

definition group_response_of :: "env \<Rightarrow> vault_key \<Rightarrow> db \<Rightarrow> group_row \<Rightarrow> error + group_response" where
  "group_response_of E key d g =
     andThen (open_group E key g) (\<lambda>name.
     Inr \<lparr>gs_id = g_id g, gs_name = name,
          gs_member_count = length (filter (\<lambda>m. gm_group_id m = g_id g) (group_members d))\<rparr>)"

definition list_groups :: "env \<Rightarrow> vault_key \<Rightarrow> db \<Rightarrow> error + group_response list" where
  "list_groups E key d =
     andThen (map_res (group_response_of E key d) (groups d)) (\<lambda>rs.
     Inr (sort_key (\<lambda>r. (casefold E (gs_name r), gs_id r)) rs))"

definition group_name_taken :: "bytes \<Rightarrow> nat option \<Rightarrow> db \<Rightarrow> bool" where
  "group_name_taken ix except d \<longleftrightarrow>
     (\<exists>g \<in> set (groups d). g_name_index g = Good ix \<and> Some (g_id g) \<noteq> except)"

definition group_create ::
    "env \<Rightarrow> auth_context \<Rightarrow> ustr \<Rightarrow> vault_key \<Rightarrow> bytes \<Rightarrow> bytes \<Rightarrow> time \<Rightarrow> db \<Rightarrow>
       error + group_response \<times> db" where
  "group_create E c name key uid nonce now d =
     andThen (require_group_admin c) (\<lambda>_.
     andThen (group_name_index (prims E) key name) (\<lambda>ix.
     andThen (ensure (\<not> group_name_taken ix None d) InvalidRequest) (\<lambda>_.
     andThen (seal_group E key nonce
       \<lparr>g_id = 0, g_uid = Good uid, g_name_index = Good ix, g_document = Good []\<rparr> name) (\<lambda>g.
     andThen (insert_group g d) (\<lambda>(i, d1).
     let d2 = insert_audit (audit_of c now ''group'' ''group_created'' i) d1
     in andThen (group_response_of E key d2 (g\<lparr>g_id := i\<rparr>)) (\<lambda>r. Inr (r, d2)))))))"

definition group_rename ::
    "env \<Rightarrow> auth_context \<Rightarrow> nat \<Rightarrow> ustr \<Rightarrow> vault_key \<Rightarrow> bytes \<Rightarrow> time \<Rightarrow> db \<Rightarrow>
       error + group_response \<times> db" where
  "group_rename E c group_id name key nonce now d =
     andThen (require_group_admin c) (\<lambda>_.
     andThen (get_group_or_404 d group_id) (\<lambda>g.
     andThen (group_name_index (prims E) key name) (\<lambda>ix.
     andThen (ensure (\<not> group_name_taken ix (Some (g_id g)) d) InvalidRequest) (\<lambda>_.
     andThen (seal_group E key nonce g name) (\<lambda>g'.
     andThen (update_group g' d) (\<lambda>d1.
     let d2 = insert_audit (audit_of c now ''group'' ''group_renamed'' (g_id g)) d1
     in andThen (group_response_of E key d2 g') (\<lambda>r. Inr (r, d2))))))))"

definition group_remove :: "auth_context \<Rightarrow> nat \<Rightarrow> time \<Rightarrow> db \<Rightarrow> error + db" where
  "group_remove c group_id now d =
     andThen (require_group_admin c) (\<lambda>_.
     andThen (get_group_or_404 d group_id) (\<lambda>g.
     andThen (ensure (filter (\<lambda>r. fg_group_id r = group_id) (folder_group_access d) = []) InvalidRequest) (\<lambda>_.
     Inr (delete_group_row (g_id g)
       (insert_audit (audit_of c now ''group'' ''group_deleted'' (g_id g)) d)))))"

text \<open>\<^verbatim>\<open>ORDER BY username\<close>; SQLite compares the names' code points through their UTF-8 bytes.\<close>

definition group_members_list :: "auth_context \<Rightarrow> nat \<Rightarrow> db \<Rightarrow> error + group_member list" where
  "group_members_list c group_id d =
     andThen (require_group_admin c) (\<lambda>_.
     andThen (get_group_or_404 d group_id) (\<lambda>_.
     Inr (map (\<lambda>u. \<lparr>mb_user_id = u_id u, mb_username = u_username u, mb_role = u_role u\<rparr>)
       (sort_key u_username
         [u. u \<leftarrow> users d, m \<leftarrow> group_members d, gm_user_id m = u_id u, gm_group_id m = group_id]))))"

definition group_add_member ::
    "auth_context \<Rightarrow> nat \<Rightarrow> nat \<Rightarrow> time \<Rightarrow> db \<Rightarrow> error + group_member \<times> db" where
  "group_add_member c group_id user_id now d =
     andThen (require_group_admin c) (\<lambda>_.
     andThen (get_group_or_404 d group_id) (\<lambda>_.
     andThen (orElse (get_user d user_id) NotFound) (\<lambda>u.
     andThen (ensure (u_active u) NotFound) (\<lambda>_.
     Inr (\<lparr>mb_user_id = u_id u, mb_username = u_username u, mb_role = u_role u\<rparr>,
          (if get_group_member d (group_id, user_id) = None
           then insert_audit ((audit_of c now ''group'' ''group_member_added'' group_id)
                  \<lparr>au_target_user_id := Some user_id\<rparr>)
                (put_group_member \<lparr>gm_group_id = group_id, gm_user_id = user_id,
                   gm_added_by = Some (user_of c)\<rparr> d)
           else d))))))"

definition group_remove_member :: "auth_context \<Rightarrow> nat \<Rightarrow> nat \<Rightarrow> time \<Rightarrow> db \<Rightarrow> error + db" where
  "group_remove_member c group_id user_id now d =
     andThen (require_group_admin c) (\<lambda>_.
     andThen (get_group_or_404 d group_id) (\<lambda>_.
     andThen (orElse (get_group_member d (group_id, user_id)) NotFound) (\<lambda>_.
     Inr (delete_group_member (group_id, user_id) (insert_audit
       ((audit_of c now ''group'' ''group_member_removed'' group_id)
          \<lparr>au_target_user_id := Some user_id\<rparr>) d)))))"

definition group_audit_event :: "db \<Rightarrow> access_audit_row \<Rightarrow> audit_event" where
  "group_audit_event d a =
     \<lparr>ae_row = a\<lparr>au_target_group_id := None, au_permission := None, au_expires_at := None,
        au_previous_permission := None, au_previous_expires_at := None\<rparr>,
      ae_actor_username = map_option u_username (given (au_actor_user_id a) (get_user d)),
      ae_target_username = map_option u_username (given (au_target_user_id a) (get_user d)),
      ae_target_group_name = None\<rparr>"

definition group_audit :: "auth_context \<Rightarrow> nat \<Rightarrow> db \<Rightarrow> error + audit_event list" where
  "group_audit c group_id d =
     andThen (require_group_admin c) (\<lambda>_.
     andThen (get_group_or_404 d group_id) (\<lambda>_.
     Inr (map (group_audit_event d) (audit_rows ''group'' group_id d))))"

section \<open>Properties\<close>

lemma granted_by_group_members:
  "granted_by_group d now i u p \<longleftrightarrow>
     (\<exists>r \<in> set (folder_group_access d). fg_folder_id r = i \<and> fg_permission r = p
        \<and> grant_active now (fg_expires_at r) \<and> get_group_member d (fg_group_id r, u) \<noteq> None)"
proof -
  have "get_group_member d k \<noteq> None \<longleftrightarrow> (\<exists>m \<in> set (group_members d). gm_key m = k)" for k
    unfolding get_group_member_def row_of_None by auto
  then show ?thesis by (auto simp: granted_by_group_def)
qed

text \<open>
  Group membership decides group access. Only an administrator changes membership. Adding an
  active user gives that user, and nobody else, the active grants of that group; removing the
  user takes away exactly the grants that only that group carried.
\<close>

theorem membership_decides_group_access:
  assumes "group_add_member c g u now d = Inr (member, d\<^sub>1)"
    and "group_remove_member c g u now' d\<^sub>1 = Inr d\<^sub>2"
  shows "is_admin c
    \<and> (\<forall>t i v p. granted_by_group d\<^sub>1 t i v p \<longleftrightarrow> granted_by_group d t i v p
         \<or> v = u \<and> (\<exists>r \<in> set (folder_group_access d). fg_key r = (i, g) \<and> fg_permission r = p
             \<and> grant_active t (fg_expires_at r)))
    \<and> (\<forall>t i v p. granted_by_group d\<^sub>2 t i v p \<longleftrightarrow>
         (\<exists>r \<in> set (folder_group_access d). fg_folder_id r = i \<and> fg_permission r = p
           \<and> grant_active t (fg_expires_at r) \<and> (v = u \<longrightarrow> fg_group_id r \<noteq> g)
           \<and> get_group_member d (fg_group_id r, v) \<noteq> None))"
proof -
  have admin: "is_admin c"
    using assms(1) by (auto simp: group_add_member_def require_group_admin_def result_simps)
  have member\<^sub>1: "get_group_member d\<^sub>1 k \<noteq> None \<longleftrightarrow> k = (g, u) \<or> get_group_member d k \<noteq> None" for k
  proof (cases "get_group_member d (g, u)")
    case None
    with assms(1) obtain event where "d\<^sub>1 = insert_audit event (put_group_member
        \<lparr>gm_group_id = g, gm_user_id = u, gm_added_by = Some (user_of c)\<rparr> d)"
      by (auto simp: group_add_member_def result_simps)
    then have "get_group_member d\<^sub>1 k = get_group_member (put_group_member
        \<lparr>gm_group_id = g, gm_user_id = u, gm_added_by = Some (user_of c)\<rparr> d) k"
      by (simp add: get_group_member_def)
    then show ?thesis by (simp add: memberships.get_put)
  next
    case (Some m)
    with assms(1) have "d\<^sub>1 = d" by (auto simp: group_add_member_def result_simps)
    with Some show ?thesis by auto
  qed
  from assms(2) obtain event where d2: "d\<^sub>2 = delete_group_member (g, u) (insert_audit event d\<^sub>1)"
    by (auto simp: group_remove_member_def result_simps)
  have "get_group_member (insert_audit event d\<^sub>1) k = get_group_member d\<^sub>1 k" for k
    by (simp add: get_group_member_def)
  then have member\<^sub>2: "get_group_member d\<^sub>2 k \<noteq> None \<longleftrightarrow> k \<noteq> (g, u) \<and> get_group_member d k \<noteq> None" for k
    using member\<^sub>1 by (simp add: d2 memberships.get_delete)
  have "folder_group_access d\<^sub>1 = folder_group_access d"
    using assms(1) by (auto simp: group_add_member_def result_simps put_group_member_def)
  moreover from this have "folder_group_access d\<^sub>2 = folder_group_access d"
    by (simp add: d2 delete_group_member_def)
  ultimately show ?thesis
    using admin unfolding granted_by_group_members member\<^sub>1 member\<^sub>2 by auto
qed

theorem membership_decides_group_access_witness:
  "\<exists>member d\<^sub>1 d\<^sub>2. group_add_member (sample_ctx 7 Admin) 5 8 1 sample_db = Inr (member, d\<^sub>1)
     \<and> group_remove_member (sample_ctx 7 Admin) 5 8 2 d\<^sub>1 = Inr d\<^sub>2
     \<and> \<not> granted_by_group d\<^sub>2 3 3 8 Read"
proof -
  have "is_ok (group_add_member (sample_ctx 7 Admin) 5 8 1 sample_db)"
    by (simp add: group_add_member_def require_group_admin_def is_admin_def sample_ctx_def sample_db_defs
        get_group_or_404_def get_group_def get_user_def)
  then obtain member d\<^sub>1 where d1: "group_add_member (sample_ctx 7 Admin) 5 8 1 sample_db = Inr (member, d\<^sub>1)"
    by (auto simp: is_ok_iff)
  then have "is_ok (group_remove_member (sample_ctx 7 Admin) 5 8 2 d\<^sub>1)"
    by (auto simp: group_add_member_def group_remove_member_def require_group_admin_def is_admin_def
        sample_ctx_def sample_db_defs get_group_or_404_def get_group_def get_user_def get_group_member_def
        put_group_member_def upsert_def result_simps)
  then obtain d\<^sub>2 where d2: "group_remove_member (sample_ctx 7 Admin) 5 8 2 d\<^sub>1 = Inr d\<^sub>2"
    by (auto simp: is_ok_iff)
  have "folder_group_access sample_db = []" by (simp add: sample_db_defs)
  with membership_decides_group_access [OF d1 d2] have "\<not> granted_by_group d\<^sub>2 3 3 8 Read" by simp
  with d1 d2 show ?thesis by blast
qed

end
