(* ===== verification/Access.thy ===== *)
theory Access
  imports User_Groups
begin

text \<open>
  Access to entries (\<^verbatim>\<open>backend/crud/access.py\<close>, \<^verbatim>\<open>EntryACL\<close>): the permission of the current
  user on an entry, the entries the user can see, sharing, revoking and relinquishing.
\<close>

section \<open>Permissions\<close>

definition direct_entry_permissions :: "db \<Rightarrow> time \<Rightarrow> nat \<Rightarrow> nat \<Rightarrow> share_permission list" where
  "direct_entry_permissions d now entry_id user_id =
     [ea_permission r. r \<leftarrow> entry_access d, ea_entry_id r = entry_id, ea_user_id r = user_id,
        grant_active now (ea_expires_at r)]"

definition permission :: "auth_context \<Rightarrow> time \<Rightarrow> db \<Rightarrow> nat \<Rightarrow> error + entry_permission" where
  "permission c now d entry_id =
     andThen (orElse (get_entry d entry_id) NotFound) (\<lambda>e.
     let user_id = user_of c;
         direct = take 1 (direct_entry_permissions d now entry_id user_id);
         decide = (\<lambda>ps. if Write \<in> set ps then Inr WriteAccess
                         else if Read \<in> set ps then Inr ReadAccess else Inl NotFound)
     in if e_owner_id e = Some user_id then Inr Owner
        else case e_folder_id e of
          None \<Rightarrow> decide direct
        | Some folder_id \<Rightarrow>
            if map_option f_owner_id (get_folder d folder_id) = Some user_id then Inr Owner
            else decide (direct @ take 1 (direct_folder_permissions d now folder_id user_id)
                   @ group_folder_permissions d now folder_id user_id))"

definition require :: "auth_context \<Rightarrow> time \<Rightarrow> db \<Rightarrow> nat \<Rightarrow> entry_permission \<Rightarrow> error + entry_permission" where
  "require c now d entry_id needed =
     andThen (permission c now d entry_id) (\<lambda>p.
     andThen (ensure (\<not> (needed = Owner \<and> p \<noteq> Owner)) Forbidden) (\<lambda>_.
     andThen (ensure (\<not> (needed = WriteAccess \<and> p = ReadAccess)) Forbidden) (\<lambda>_. Inr p)))"

definition entry_by_name ::
    "env \<Rightarrow> auth_context \<Rightarrow> time \<Rightarrow> ustr \<Rightarrow> vault_key \<Rightarrow> entry_permission \<Rightarrow> bool \<Rightarrow> nat option \<Rightarrow> db \<Rightarrow>
       error + entry_row" where
  "entry_by_name E c now name key needed deleted entry_id d =
     andThen (find_entry E key name deleted entry_id d) (\<lambda>(model, _).
     andThen (require c now d (e_id model) needed) (\<lambda>_. Inr model))"

section \<open>What a user sees\<close>

definition visible_ids :: "auth_context \<Rightarrow> time \<Rightarrow> bool \<Rightarrow> db \<Rightarrow> nat list" where
  "visible_ids c now deleted d =
     map e_id (filter (\<lambda>e.
       (e_deleted e \<noteq> None) = deleted
       \<and> (e_owner_id e = Some (user_of c)
          \<or> (\<exists>r \<in> set (entry_access d). ea_entry_id r = e_id e \<and> ea_user_id r = user_of c
               \<and> grant_active now (ea_expires_at r))
          \<or> (\<exists>f \<in> set (folders d). Some (f_id f) = e_folder_id e \<and> f_owner_id f = user_of c)
          \<or> (\<exists>r \<in> set (folder_user_access d). Some (fu_folder_id r) = e_folder_id e
               \<and> fu_user_id r = user_of c \<and> grant_active now (fu_expires_at r))
          \<or> (\<exists>r \<in> set (folder_group_access d). \<exists>m \<in> set (group_members d).
               gm_group_id m = fg_group_id r \<and> Some (fg_folder_id r) = e_folder_id e
               \<and> gm_user_id m = user_of c \<and> grant_active now (fg_expires_at r)))) (entries d))"

definition entry_sources ::
    "env \<Rightarrow> auth_context \<Rightarrow> time \<Rightarrow> db \<Rightarrow> nat \<Rightarrow> error + folder_access_source list" where
  "entry_sources E c now d entry_id =
     andThen (orElse (get_entry d entry_id) NotFound) (\<lambda>e.
     if e_owner_id e = Some (user_of c) then
       Inr [\<lparr>fs_source = FromOwner, fs_source_id = user_of c, fs_name = None, fs_permission = Write,
             fs_expires_at = None, fs_expired = False\<rparr>]
     else
       let direct = (case get_entry_access d (entry_id, user_of c) of None \<Rightarrow> []
         | Some r \<Rightarrow> [\<lparr>fs_source = FromEntry, fs_source_id = entry_id, fs_name = None,
             fs_permission = ea_permission r, fs_expires_at = ea_expires_at r,
             fs_expired = (\<not> grant_active now (ea_expires_at r))\<rparr>])
       in case Option.bind (e_folder_id e) (get_folder d) of
            None \<Rightarrow> Inr direct
          | Some f \<Rightarrow>
              andThen (open_folder E (ctx_key c) f) (\<lambda>name.
              let owned = (if f_owner_id f = user_of c
                    then [\<lparr>fs_source = FromFolderOwner, fs_source_id = f_id f, fs_name = Some name,
                          fs_permission = Write, fs_expires_at = None, fs_expired = False\<rparr>] else []);
                  shared = (case get_folder_user_access d (f_id f, user_of c) of None \<Rightarrow> []
                    | Some r \<Rightarrow> [\<lparr>fs_source = FromFolder, fs_source_id = f_id f, fs_name = Some name,
                        fs_permission = fu_permission r, fs_expires_at = fu_expires_at r,
                        fs_expired = (\<not> grant_active now (fu_expires_at r))\<rparr>])
              in andThen (group_sources E (ctx_key c) now (f_id f) (user_of c) d) (\<lambda>from_groups.
                 Inr (direct @ owned @ shared @ from_groups))))"

record entry_access_info =
  ei_entry_id :: nat
  ei_owner_id :: nat
  ei_owner_username :: ustr
  ei_access :: entry_permission
  ei_sources :: "folder_access_source list"

definition access_map ::
    "env \<Rightarrow> auth_context \<Rightarrow> time \<Rightarrow> bool \<Rightarrow> db \<Rightarrow> error + entry_access_info list" where
  "access_map E c now deleted d =
     map_res (\<lambda>(e, u).
       andThen (permission c now d (e_id e)) (\<lambda>p.
       andThen (entry_sources E c now d (e_id e)) (\<lambda>ss.
       Inr \<lparr>ei_entry_id = e_id e, ei_owner_id = u_id u, ei_owner_username = u_username u,
            ei_access = p, ei_sources = ss\<rparr>)))
       [(e, u). e \<leftarrow> entries d, e_id e \<in> set (visible_ids c now deleted d), u \<leftarrow> users d,
          e_owner_id e = Some (u_id u)]"

section \<open>Sharing\<close>

record share_grant =
  sg_user_id :: nat
  sg_username :: ustr
  sg_role :: user_role
  sg_permission :: share_permission
  sg_expires_at :: "time option"

definition list_shares :: "auth_context \<Rightarrow> time \<Rightarrow> db \<Rightarrow> nat \<Rightarrow> error + share_grant list" where
  "list_shares c now d entry_id =
     andThen (require c now d entry_id Owner) (\<lambda>_.
     Inr (sort_key sg_username
       [\<lparr>sg_user_id = u_id u, sg_username = u_username u, sg_role = u_role u,
         sg_permission = ea_permission r, sg_expires_at = ea_expires_at r\<rparr>.
        u \<leftarrow> users d, r \<leftarrow> entry_access d, ea_user_id r = u_id u, ea_entry_id r = entry_id]))"

definition set_share ::
    "auth_context \<Rightarrow> nat \<Rightarrow> nat \<Rightarrow> share_permission \<Rightarrow> time option \<Rightarrow> time \<Rightarrow> db \<Rightarrow>
       error + share_grant \<times> db" where
  "set_share c entry_id user_id p expires_at now d =
     andThen (require c now d entry_id Owner) (\<lambda>_.
     andThen (orElse (get_entry d entry_id) NotFound) (\<lambda>e.
     andThen (orElse (get_user d user_id) NotFound) (\<lambda>target.
     andThen (ensure (u_active target) NotFound) (\<lambda>_.
     andThen (ensure (Some (u_id target) \<noteq> e_owner_id e) InvalidRequest) (\<lambda>_.
     let old = get_entry_access d (entry_id, user_id);
         event = (audit_of c now ''entry''
           (if old = None then ''entry_grant_created'' else ''entry_grant_updated'') entry_id)
           \<lparr>au_target_user_id := Some user_id, au_permission := Some p, au_expires_at := expires_at,
            au_previous_permission := map_option ea_permission old,
            au_previous_expires_at := Option.bind old ea_expires_at\<rparr>
     in Inr (\<lparr>sg_user_id = u_id target, sg_username = u_username target, sg_role = u_role target,
              sg_permission = p, sg_expires_at = expires_at\<rparr>,
             insert_audit event (put_entry_access
               \<lparr>ea_entry_id = entry_id, ea_user_id = user_id, ea_permission = p,
                ea_expires_at = expires_at, ea_granted_by = Some (user_of c)\<rparr> d)))))))"

definition revoke_share :: "auth_context \<Rightarrow> nat \<Rightarrow> nat \<Rightarrow> time \<Rightarrow> db \<Rightarrow> error + db" where
  "revoke_share c entry_id user_id now d =
     andThen (require c now d entry_id Owner) (\<lambda>_.
     andThen (orElse (get_entry_access d (entry_id, user_id)) NotFound) (\<lambda>old.
     Inr (delete_entry_access (entry_id, user_id) (insert_audit
       ((audit_of c now ''entry'' ''entry_grant_revoked'' entry_id)
          \<lparr>au_target_user_id := Some user_id, au_previous_permission := Some (ea_permission old),
           au_previous_expires_at := ea_expires_at old\<rparr>) d))))"

definition entry_audit_event :: "db \<Rightarrow> access_audit_row \<Rightarrow> audit_event" where
  "entry_audit_event d a =
     \<lparr>ae_row = a\<lparr>au_target_group_id := None\<rparr>,
      ae_actor_username = map_option u_username (given (au_actor_user_id a) (get_user d)),
      ae_target_username = map_option u_username (given (au_target_user_id a) (get_user d)),
      ae_target_group_name = None\<rparr>"

definition entry_audit :: "auth_context \<Rightarrow> time \<Rightarrow> db \<Rightarrow> nat \<Rightarrow> error + audit_event list" where
  "entry_audit c now d entry_id =
     andThen (require c now d entry_id Owner) (\<lambda>_.
     Inr (map (entry_audit_event d) (audit_rows ''entry'' entry_id d)))"

text \<open>The permission is read again after the share is gone, at \<open>now'\<close>.\<close>

definition relinquish ::
    "auth_context \<Rightarrow> nat \<Rightarrow> time \<Rightarrow> time \<Rightarrow> db \<Rightarrow> error + entry_permission option \<times> db" where
  "relinquish c entry_id now now' d =
     andThen (permission c now d entry_id) (\<lambda>p.
     andThen (ensure (p \<noteq> Owner) Forbidden) (\<lambda>_.
     andThen (orElse (get_entry_access d (entry_id, user_of c)) InvalidRequest) (\<lambda>old.
     let d' = delete_entry_access (entry_id, user_of c) (insert_audit
           ((audit_of c now ''entry'' ''entry_grant_relinquished'' entry_id)
              \<lparr>au_target_user_id := Some (user_of c), au_previous_permission := Some (ea_permission old),
               au_previous_expires_at := ea_expires_at old\<rparr>) d)
     in case permission c now' d' entry_id of
          Inr q \<Rightarrow> Inr (Some q, d')
        | Inl e \<Rightarrow> if e = NotFound then Inr (None, d') else Inl e)))"

definition share_targets :: "auth_context \<Rightarrow> db \<Rightarrow> (nat \<times> ustr \<times> user_role) list" where
  "share_targets c d =
     map (\<lambda>u. (u_id u, u_username u, u_role u))
       (sort_key u_username (filter (\<lambda>u. u_active u \<and> u_id u \<noteq> user_of c) (users d)))"

section \<open>The access policy\<close>

text \<open>
  The contract of a component that decides permissions: it knows who owns a resource and which
  grants are in force at a time, and its decision is ownership first, then the strongest grant.
  What clients rely on follows once from it: a decision is made exactly when there is ownership or
  a grant, and when grants only lapse the decision only weakens.
\<close>

fun access_rank :: "entry_permission option \<Rightarrow> nat" where
  "access_rank None = 0"
| "access_rank (Some ReadAccess) = 1"
| "access_rank (Some WriteAccess) = 2"
| "access_rank (Some Owner) = 3"

locale access_policy =
  fixes sound :: "db \<Rightarrow> bool"
    and owns :: "db \<Rightarrow> 'r \<Rightarrow> nat \<Rightarrow> bool"
    and grants :: "db \<Rightarrow> time \<Rightarrow> 'r \<Rightarrow> nat \<Rightarrow> share_permission \<Rightarrow> bool"
    and decide :: "db \<Rightarrow> time \<Rightarrow> 'r \<Rightarrow> nat \<Rightarrow> entry_permission option"
  assumes decides: "sound d \<Longrightarrow> decide d now r u =
      (if owns d r u then Some Owner else if grants d now r u Write then Some WriteAccess
       else if grants d now r u Read then Some ReadAccess else None)"
    and grants_lapse: "now \<le> now' \<Longrightarrow> grants d now' r u p \<Longrightarrow> grants d now r u p"
begin

lemma some_access:
  assumes "sound d"
  shows "decide d now r u \<noteq> None \<longleftrightarrow> owns d r u \<or> (\<exists>p. grants d now r u p)"
proof -
  have "(\<exists>p. grants d now r u p) \<longleftrightarrow> grants d now r u Write \<or> grants d now r u Read"
    by (metis share_permission.exhaust)
  with decides [OF assms] show ?thesis by auto
qed

lemma access_only_lapses:
  assumes "sound d" and "now \<le> now'"
  shows "access_rank (decide d now' r u) \<le> access_rank (decide d now r u)"
  using grants_lapse [OF assms(2), of d r u] by (auto simp: decides [OF assms(1)])

lemma owner_always: "sound d \<Longrightarrow> owns d r u \<Longrightarrow> decide d now r u = Some Owner"
  by (simp add: decides)

end

lemma grant_active_lapses: "now \<le> now' \<Longrightarrow> grant_active now' x \<Longrightarrow> grant_active now x"
  by (auto simp: grant_active_def split: option.splits)

lemma granted_lapses:
  "now \<le> now' \<Longrightarrow> granted_directly d now' i u p \<Longrightarrow> granted_directly d now i u p"
  "now \<le> now' \<Longrightarrow> granted_by_group d now' i u p \<Longrightarrow> granted_by_group d now i u p"
  by (auto simp: granted_directly_def granted_by_group_def dest: grant_active_lapses)

interpretation folder_policy: access_policy
    "\<lambda>d. distinct (map fu_key (folder_user_access d))"
    "\<lambda>d f u. f_owner_id f = u"
    "\<lambda>d now f u p. granted_directly d now (f_id f) u p \<or> granted_by_group d now (f_id f) u p"
    permission_for
  by unfold_locales (auto simp: permission_for_grants dest: granted_lapses)

text \<open>
  Who owns an entry: its owner and the owner of its folder. What is granted on it: the active share
  of the entry itself and everything granted on its folder.
\<close>

definition entry_owned :: "db \<Rightarrow> entry_row \<Rightarrow> nat \<Rightarrow> bool" where
  "entry_owned d e u \<longleftrightarrow> e_owner_id e = Some u
     \<or> (\<exists>i f. e_folder_id e = Some i \<and> get_folder d i = Some f \<and> f_owner_id f = u)"

definition shared_with :: "db \<Rightarrow> time \<Rightarrow> nat \<Rightarrow> nat \<Rightarrow> share_permission \<Rightarrow> bool" where
  "shared_with d now entry_id u p \<longleftrightarrow>
     (\<exists>r \<in> set (entry_access d). ea_key r = (entry_id, u) \<and> ea_permission r = p
        \<and> grant_active now (ea_expires_at r))"

definition folder_granted :: "db \<Rightarrow> time \<Rightarrow> entry_row \<Rightarrow> nat \<Rightarrow> share_permission \<Rightarrow> bool" where
  "folder_granted d now e u p \<longleftrightarrow> (\<exists>i. e_folder_id e = Some i \<and> folder_grants d now i u p)"

definition entry_granted :: "db \<Rightarrow> time \<Rightarrow> entry_row \<Rightarrow> nat \<Rightarrow> share_permission \<Rightarrow> bool" where
  "entry_granted d now e u p \<longleftrightarrow> shared_with d now (e_id e) u p \<or> folder_granted d now e u p"

definition entry_decision :: "db \<Rightarrow> time \<Rightarrow> entry_row \<Rightarrow> nat \<Rightarrow> entry_permission option" where
  "entry_decision d now e u =
     (if entry_owned d e u then Some Owner else if entry_granted d now e u Write then Some WriteAccess
      else if entry_granted d now e u Read then Some ReadAccess else None)"

definition shares_ok :: "db \<Rightarrow> bool" where
  "shares_ok d \<longleftrightarrow> distinct (map e_id (entries d)) \<and> distinct (map f_id (folders d))
     \<and> distinct (map ea_key (entry_access d)) \<and> distinct (map fu_key (folder_user_access d))"

lemma keys_ok_shares: "keys_ok d \<Longrightarrow> shares_ok d"
  by (simp add: keys_ok_def shares_ok_def)

lemma direct_entry_by_get:
  assumes "distinct (map ea_key (entry_access d))"
  shows "direct_entry_permissions d now i u =
    (case get_entry_access d (i, u) of None \<Rightarrow> []
     | Some r \<Rightarrow> if grant_active now (ea_expires_at r) then [ea_permission r] else [])"
proof -
  have "concat (map (\<lambda>r. if ea_entry_id r = i then if ea_user_id r = u then
          if grant_active now (ea_expires_at r) then [ea_permission r] else [] else [] else []) rows)
      = map ea_permission (filter (\<lambda>r. ea_key r = (i, u) \<and> grant_active now (ea_expires_at r)) rows)" for rows
    by (induction rows) auto
  then show ?thesis
    using filter_key [OF assms, of "(i, u)" "\<lambda>r. grant_active now (ea_expires_at r)"]
    by (simp add: direct_entry_permissions_def get_entry_access_def split: option.splits)
qed

lemma set_direct_entry: "p \<in> set (direct_entry_permissions d now i u) \<longleftrightarrow> shared_with d now i u p"
  by (auto simp: direct_entry_permissions_def shared_with_def)

lemma take_direct:
  assumes "shares_ok d"
  shows "take 1 (direct_entry_permissions d now i u) = direct_entry_permissions d now i u"
    and "take 1 (direct_folder_permissions d now i u) = direct_folder_permissions d now i u"
  using assms by (auto simp: shares_ok_def direct_entry_by_get direct_by_get split: option.splits)

lemma permission_decision:
  assumes "shares_ok d"
  shows "permission c now d i =
    (case get_entry d i of None \<Rightarrow> Inl NotFound
     | Some e \<Rightarrow> orElse (entry_decision d now e (user_of c)) NotFound)"
proof (cases "get_entry d i")
  case (Some e)
  then have "e_id e = i" by (auto simp: get_entry_def dest: row_of_Some)
  with Some show ?thesis
    by (auto simp: permission_def entry_decision_def entry_owned_def entry_granted_def folder_granted_def Let_def
        take_direct [OF assms, simplified] set_direct_entry set_direct set_group split: option.splits)
qed (simp add: permission_def)

lemma shared_lapses: "now \<le> now' \<Longrightarrow> shared_with d now' i u p \<Longrightarrow> shared_with d now i u p"
  by (auto simp: shared_with_def dest: grant_active_lapses)

interpretation entry_policy: access_policy "\<lambda>_. True" entry_owned entry_granted entry_decision
  by unfold_locales (auto simp: entry_decision_def entry_granted_def folder_granted_def dest: granted_lapses shared_lapses)

lemma permission_Inr:
  assumes "shares_ok d"
  shows "permission c now d i = Inr p \<longleftrightarrow>
    (\<exists>e. get_entry d i = Some e \<and> entry_decision d now e (user_of c) = Some p)"
  by (auto simp: permission_decision [OF assms] result_simps split: option.splits)

lemma require_Inr:
  "require c now d i needed = Inr p \<longleftrightarrow>
     permission c now d i = Inr p \<and> access_rank (Some needed) \<le> access_rank (Some p)"
  by (cases needed; cases p) (auto simp: require_def result_simps)

section \<open>Frames of the sharing operations\<close>

lemma granted_audit [simp]:
  "granted_directly (insert_audit a d) = granted_directly d"
  "granted_by_group (insert_audit a d) = granted_by_group d"
  "shared_with (insert_audit a d) = shared_with d"
  "get_folder (insert_audit a d) = get_folder d" "get_entry (insert_audit a d) = get_entry d"
  "get_entry_access (insert_audit a d) = get_entry_access d"
  by (simp_all add: granted_directly_def granted_by_group_def shared_with_def get_folder_def
      get_entry_def get_entry_access_def fun_eq_iff)

lemma share_tables [simp]:
  "granted_directly (put_entry_access r d) = granted_directly d"
  "granted_by_group (put_entry_access r d) = granted_by_group d"
  "get_folder (put_entry_access r d) = get_folder d" "get_entry (put_entry_access r d) = get_entry d"
  "granted_directly (delete_entry_access k d) = granted_directly d"
  "granted_by_group (delete_entry_access k d) = granted_by_group d"
  "get_folder (delete_entry_access k d) = get_folder d" "get_entry (delete_entry_access k d) = get_entry d"
  by (simp_all add: granted_directly_def granted_by_group_def get_folder_def get_entry_def
      put_entry_access_def delete_entry_access_def fun_eq_iff)

lemma shared_with_put:
  assumes "distinct (map ea_key (entry_access d))"
  shows "shared_with (put_entry_access r d) now i u p \<longleftrightarrow>
    (if ea_key r = (i, u) then ea_permission r = p \<and> grant_active now (ea_expires_at r)
     else shared_with d now i u p)"
  by (auto simp: shared_with_def shares.rows_after_put [OF assms])

lemma shared_with_delete:
  assumes "distinct (map ea_key (entry_access d))"
  shows "shared_with (delete_entry_access k d) now i u p \<longleftrightarrow> k \<noteq> (i, u) \<and> shared_with d now i u p"
  by (auto simp: shared_with_def shares.rows_after_delete [OF assms])

lemma shares_ok_put: "shares_ok d \<Longrightarrow> shares_ok (insert_audit a (put_entry_access r d))"
  by (simp add: shares_ok_def put_entry_access_def distinct_upsert)

lemma shares_ok_delete: "shares_ok d \<Longrightarrow> shares_ok (delete_entry_access k (insert_audit a d))"
  by (simp add: shares_ok_def delete_entry_access_def distinct_del_row)

text \<open>What is left to a user without the share of the entry itself.\<close>

definition inherited_decision :: "db \<Rightarrow> time \<Rightarrow> entry_row \<Rightarrow> nat \<Rightarrow> entry_permission option" where
  "inherited_decision d now e u = entry_decision (delete_entry_access (e_id e, u) d) now e u"

lemma folder_side [simp]:
  "folder_granted (insert_audit a d) = folder_granted d" "entry_owned (insert_audit a d) = entry_owned d"
  "folder_granted (put_entry_access r d) = folder_granted d"
  "entry_owned (put_entry_access r d) = entry_owned d"
  "folder_granted (delete_entry_access k d) = folder_granted d"
  "entry_owned (delete_entry_access k d) = entry_owned d"
  by (simp_all add: folder_granted_def entry_owned_def fun_eq_iff)

lemma inherited_cases:
  assumes "shares_ok d"
  shows "inherited_decision d now e u =
    (if entry_owned d e u then Some Owner
     else if folder_granted d now e u Write then Some WriteAccess
     else if folder_granted d now e u Read then Some ReadAccess
     else None)"
  using assms
  by (simp add: inherited_decision_def entry_decision_def entry_granted_def shares_ok_def shared_with_delete)

lemma decision_after_put:
  assumes "shares_ok d"
  shows "entry_decision (insert_audit a (put_entry_access r d)) now e u =
    (if ea_key r = (e_id e, u) then
       (let i = inherited_decision d now e u; s = Some (as_entry_permission (ea_permission r))
        in if grant_active now (ea_expires_at r) \<and> access_rank i < access_rank s then s else i)
     else entry_decision d now e u)"
proof -
  have granted: "entry_granted (insert_audit a (put_entry_access r d)) now e u p \<longleftrightarrow>
      (if ea_key r = (e_id e, u) then ea_permission r = p \<and> grant_active now (ea_expires_at r)
       else shared_with d now (e_id e) u p) \<or> folder_granted d now e u p" for p
    using assms by (simp add: entry_granted_def shares_ok_def shared_with_put)
  show ?thesis
  proof (cases "ea_key r = (e_id e, u)")
    case True
    then show ?thesis
      unfolding entry_decision_def [of "insert_audit a (put_entry_access r d)"] granted
        inherited_cases [OF assms] Let_def
      by (cases "ea_permission r") simp_all
  next
    case False
    then show ?thesis
      by (simp only: entry_decision_def granted entry_granted_def [of d] folder_side if_False)
  qed
qed

lemma decision_after_delete:
  assumes "shares_ok d"
  shows "entry_decision (delete_entry_access k (insert_audit a d)) now e u =
    (if k = (e_id e, u) then inherited_decision d now e u else entry_decision d now e u)"
  using assms
  by (simp add: inherited_decision_def entry_decision_def entry_granted_def shares_ok_def shared_with_delete)

section \<open>Properties\<close>

text \<open>
  C11: The permission on an entry. A user obtains owner access exactly by owning the entry or the
  folder it is in, else write or read access exactly by the strongest active grant on the entry
  or, directly or through a group, on its folder; without any of these the entry is reported as
  not found. The administrator role gives no access.
\<close>

theorem entry_permission_spec:
  assumes "keys_ok d"
  shows "permission c now d i =
    (case get_entry d i of
       None \<Rightarrow> Inl NotFound
     | Some e \<Rightarrow>
         if entry_owned d e (user_of c) then Inr Owner
         else if entry_granted d now e (user_of c) Write then Inr WriteAccess
         else if entry_granted d now e (user_of c) Read then Inr ReadAccess
         else Inl NotFound)"
  by (auto simp: permission_decision [OF keys_ok_shares [OF assms]] entry_decision_def split: option.splits)

theorem entry_permission_spec_witness:
  "permission (sample_ctx 8 Member) 99 (put_folder_user_access \<lparr>fu_folder_id = 3, fu_user_id = 8,
     fu_permission = Write, fu_expires_at = Some 100, fu_granted_by = Some 7\<rparr> sample_db) 4 = Inr WriteAccess
   \<and> permission (sample_ctx 8 Admin) 99 sample_db 4 = Inl NotFound"
proof -
  let ?d = "put_folder_user_access \<lparr>fu_folder_id = 3, fu_user_id = 8,
     fu_permission = Write, fu_expires_at = Some 100, fu_granted_by = Some 7\<rparr> sample_db"
  have keys: "keys_ok ?d"
    using sample_keys_ok by (simp add: keys_ok_def put_folder_user_access_def upsert_def sample_db_defs)
  have "permission (sample_ctx 8 Member) 99 ?d 4 = Inr WriteAccess"
    unfolding entry_permission_spec [OF keys]
    by (simp add: put_folder_user_access_def upsert_def sample_db_defs get_entry_def entry_owned_def
        entry_granted_def folder_granted_def get_folder_def sample_ctx_def granted_directly_def grant_active_def)
  moreover have "permission (sample_ctx 8 Admin) 99 sample_db 4 = Inl NotFound"
    unfolding entry_permission_spec [OF sample_keys_ok]
    by (simp add: sample_db_defs get_entry_def entry_owned_def entry_granted_def folder_granted_def get_folder_def
        sample_ctx_def granted_directly_def granted_by_group_def shared_with_def)
  ultimately show ?thesis by blast
qed

lemma visible_rows:
  assumes "keys_ok d"
  shows "visible_ids c now deleted d = map e_id (filter (\<lambda>e. (e_deleted e \<noteq> None) = deleted
      \<and> is_ok (permission c now d (e_id e))) (entries d))"
proof -
  have ok: "shares_ok d" using keys_ok_shares [OF assms] .
  have row: "e \<in> set (entries d) \<Longrightarrow> get_entry d (e_id e) = Some e" for e
    using assms by (simp add: keys_ok_def get_entry_def row_of_in_set)
  have folder: "get_folder d i = Some f \<longleftrightarrow> f \<in> set (folders d) \<and> f_id f = i" for i f
    using assms by (simp add: keys_ok_def get_folder_def row_of_iff)
  let ?seen = "\<lambda>e. e_owner_id e = Some (user_of c)
      \<or> (\<exists>r \<in> set (entry_access d). ea_entry_id r = e_id e \<and> ea_user_id r = user_of c
           \<and> grant_active now (ea_expires_at r))
      \<or> (\<exists>f \<in> set (folders d). Some (f_id f) = e_folder_id e \<and> f_owner_id f = user_of c)
      \<or> (\<exists>r \<in> set (folder_user_access d). Some (fu_folder_id r) = e_folder_id e
           \<and> fu_user_id r = user_of c \<and> grant_active now (fu_expires_at r))
      \<or> (\<exists>r \<in> set (folder_group_access d). \<exists>m \<in> set (group_members d).
           gm_group_id m = fg_group_id r \<and> Some (fg_folder_id r) = e_folder_id e
           \<and> gm_user_id m = user_of c \<and> grant_active now (fg_expires_at r))"
  have "?seen e \<longleftrightarrow> entry_owned d e (user_of c) \<or> (\<exists>p. entry_granted d now e (user_of c) p)" for e
    unfolding entry_owned_def entry_granted_def folder_granted_def shared_with_def granted_directly_def
      granted_by_group_def folder
    by (cases "e_folder_id e") auto
  then have seen: "is_ok (permission c now d (e_id e)) \<longleftrightarrow> ?seen e" if "e \<in> set (entries d)" for e
    using entry_policy.some_access [OF TrueI, where d = d and now = now and r = e and u = "user_of c"] row [OF that]
    by (auto simp: is_ok_iff permission_Inr [OF ok])
  show ?thesis
    unfolding visible_ids_def using seen by (intro arg_cong [of _ _ "map e_id"] filter_cong) simp_all
qed

text \<open>
  C12: The listing and the gate agree. The entries the listing query returns, among the active or
  among the deleted ones, are exactly those on which the permission check succeeds, each once
  and in the order of their ids.
\<close>

theorem visible_iff_permitted:
  assumes "keys_ok d"
  shows "visible_ids c now deleted d = map e_id (filter (\<lambda>e. (e_deleted e \<noteq> None) = deleted
      \<and> is_ok (permission c now d (e_id e))) (entries d)) \<and> distinct (visible_ids c now deleted d)"
  using visible_rows [OF assms] assms by (simp add: keys_ok_def distinct_map_filter)

theorem visible_iff_permitted_witness:
  "visible_ids (sample_ctx 7 Admin) 5 False sample_db = [4] \<and> visible_ids (sample_ctx 8 Member) 5 False sample_db = []"
proof -
  have "is_ok (permission (sample_ctx 7 Admin) 5 sample_db 4)"
    by (simp add: permission_def get_entry_def sample_db_defs sample_ctx_def)
  moreover have "permission (sample_ctx 8 Member) 5 sample_db 4 = Inl NotFound"
    by (simp add: permission_def get_entry_def sample_db_defs sample_ctx_def get_folder_def Let_def
        direct_entry_permissions_def direct_folder_permissions_def group_folder_permissions_def)
  ultimately show ?thesis
    using visible_iff_permitted [OF sample_keys_ok, of "sample_ctx 7 Admin" 5 False]
      visible_iff_permitted [OF sample_keys_ok, of "sample_ctx 8 Member" 5 False]
    by (simp add: sample_db_def)
qed

text \<open>
  Sharing an entry. Only someone with owner access can share it, with an active account that
  does not own it. Afterwards the target has the stronger of the share, while it is active, and
  what its folder gives; the permission of every other user on every entry, and of the target on
  every other entry, is what it was.
\<close>

theorem set_share_effect:
  assumes "keys_ok d" and "set_share c i u p expires_at now d = Inr (grant, d')"
  shows "permission c now d i = Inr Owner
    \<and> (\<exists>e target. get_entry d i = Some e \<and> get_user d u = Some target \<and> u_active target
        \<and> e_owner_id e \<noteq> Some u)
    \<and> (\<forall>c' now' j e. get_entry d j = Some e \<longrightarrow> permission c' now' d' j =
        (if j = i \<and> user_of c' = u then
           (let inherited = inherited_decision d now' e u; share = Some (as_entry_permission p)
            in orElse (if grant_active now' expires_at \<and> access_rank inherited < access_rank share
                 then share else inherited) NotFound)
         else permission c' now' d j))"
proof -
  have ok: "shares_ok d" using keys_ok_shares [OF assms(1)] .
  from assms(2) obtain e target event where req: "require c now d i Owner = Inr Owner"
      and e: "get_entry d i = Some e" and target: "get_user d u = Some target" "u_active target"
      and not_owner: "e_owner_id e \<noteq> Some (u_id target)"
      and d': "d' = insert_audit event (put_entry_access \<lparr>ea_entry_id = i, ea_user_id = u,
        ea_permission = p, ea_expires_at = expires_at, ea_granted_by = Some (user_of c)\<rparr> d)"
  proof -
    obtain q where "require c now d i Owner = Inr q"
      using assms(2) by (auto simp: set_share_def result_simps)
    moreover from this have "q = Owner" by (cases q) (auto simp: require_Inr)
    ultimately show thesis using that assms(2) by (auto simp: set_share_def result_simps Let_def)
  qed
  have "u_id target = u" using target(1) by (auto simp: get_user_def dest: row_of_Some)
  moreover have "permission c now d i = Inr Owner" using req by (simp add: require_Inr)
  moreover have "permission c' now' d' j =
        (if j = i \<and> user_of c' = u then
           (let inherited = inherited_decision d now' e' u; share = Some (as_entry_permission p)
            in orElse (if grant_active now' expires_at \<and> access_rank inherited < access_rank share
                 then share else inherited) NotFound)
         else permission c' now' d j)" if "get_entry d j = Some e'" for c' now' j e'
  proof -
    have "e_id e' = j" using that by (auto simp: get_entry_def dest: row_of_Some)
    with that show ?thesis
      unfolding permission_decision [OF ok] d'
      by (auto simp: permission_decision [OF shares_ok_put [OF ok]] decision_after_put [OF ok] Let_def)
  qed
  ultimately show ?thesis using e target not_owner by auto
qed

theorem set_share_effect_witness:
  "\<exists>grant d'. set_share (sample_ctx 7 Admin) 4 8 Read (Some 100) 50 sample_db = Inr (grant, d')
     \<and> permission (sample_ctx 8 Member) 99 d' 4 = Inr ReadAccess
     \<and> permission (sample_ctx 8 Member) 100 d' 4 = Inl NotFound"
proof -
  have "is_ok (set_share (sample_ctx 7 Admin) 4 8 Read (Some 100) 50 sample_db)"
    by (simp add: set_share_def require_def permission_def get_entry_def get_user_def sample_db_defs
        sample_ctx_def Let_def)
  then obtain grant d' where run: "set_share (sample_ctx 7 Admin) 4 8 Read (Some 100) 50 sample_db = Inr (grant, d')"
    by (auto simp: is_ok_iff)
  have e: "get_entry sample_db 4 = Some (sample_entry (Some 3) (Some [65]))"
    by (simp add: get_entry_def sample_db_def)
  have "inherited_decision sample_db now' (sample_entry (Some 3) (Some [65])) 8 = None" for now'
    by (simp add: inherited_decision_def entry_decision_def entry_owned_def entry_granted_def folder_granted_def
        shared_with_def granted_directly_def granted_by_group_def delete_entry_access_def
        get_folder_def sample_db_defs del_row_def)
  with set_share_effect [OF sample_keys_ok run] e run show ?thesis
    by (auto simp: sample_ctx_def sample_user_def grant_active_def Let_def)
qed

text \<open>
  Giving up a share. An owner cannot; a user without a share of the entry itself cannot either.
  Otherwise the user keeps exactly what the folder gives, which is also what the operation
  reports, and nobody else's access to any entry changes. Revoking a share by an owner has the
  same effect on its target.
\<close>

theorem relinquish_effect:
  assumes "keys_ok d" and "relinquish c i now now' d = Inr (left, d')"
  shows "permission c now d i \<noteq> Inr Owner
    \<and> (\<exists>e. get_entry d i = Some e \<and> left = inherited_decision d now' e (user_of c)
        \<and> (\<forall>t. permission c t d' i = orElse (inherited_decision d t e (user_of c)) NotFound))
    \<and> (\<forall>c' t j. j \<noteq> i \<or> user_of c' \<noteq> user_of c \<longrightarrow> permission c' t d' j = permission c' t d j)"
proof -
  have ok: "shares_ok d" using keys_ok_shares [OF assms(1)] .
  from assms(2) obtain q old where q: "permission c now d i = Inr q" "q \<noteq> Owner"
      and old: "get_entry_access d (i, user_of c) = Some old"
    by (auto simp: relinquish_def result_simps)
  let ?event = "(audit_of c now ''entry'' ''entry_grant_relinquished'' i)
      \<lparr>au_target_user_id := Some (user_of c), au_previous_permission := Some (ea_permission old),
       au_previous_expires_at := ea_expires_at old\<rparr>"
  have d': "d' = delete_entry_access (i, user_of c) (insert_audit ?event d)"
      and left: "permission c now' d' i = orElse left NotFound"
    using assms(2) q old
    by (cases "permission c now' (delete_entry_access (i, user_of c) (insert_audit ?event d)) i";
        auto simp: relinquish_def split: if_splits)+
  from q(1) obtain e where e: "get_entry d i = Some e"
    by (auto simp: permission_def result_simps)
  then have id: "e_id e = i" by (auto simp: get_entry_def dest: row_of_Some)
  have after: "permission c' t d' j = (case get_entry d j of None \<Rightarrow> Inl NotFound
      | Some f \<Rightarrow> orElse (if (i, user_of c) = (e_id f, user_of c')
          then inherited_decision d t f (user_of c') else entry_decision d t f (user_of c')) NotFound)"
    for c' t j
    unfolding d' by (simp add: permission_decision [OF shares_ok_delete [OF ok]] decision_after_delete [OF ok]
        cong: option.case_cong)
  have "left = inherited_decision d now' e (user_of c)"
    using left by (auto simp: after e id orElse_def split: option.splits)
  moreover have "permission c' t d' j = permission c' t d j" if "j \<noteq> i \<or> user_of c' \<noteq> user_of c" for c' t j
  proof (cases "get_entry d j")
    case (Some f)
    then have "e_id f = j" by (auto simp: get_entry_def dest: row_of_Some)
    with Some that show ?thesis by (auto simp: after permission_decision [OF ok])
  qed (simp add: after permission_decision [OF ok])
  ultimately show ?thesis using q e id by (auto simp: after)
qed

theorem relinquish_effect_witness:
  "\<exists>left d'. relinquish (sample_ctx 8 Member) 4 5 6 (put_entry_access \<lparr>ea_entry_id = 4, ea_user_id = 8,
       ea_permission = Write, ea_expires_at = None, ea_granted_by = Some 7\<rparr> sample_db) = Inr (left, d')
     \<and> permission (sample_ctx 7 Admin) 7 d' 4 = Inr Owner"
proof -
  let ?d = "put_entry_access \<lparr>ea_entry_id = 4, ea_user_id = 8, ea_permission = Write,
      ea_expires_at = None, ea_granted_by = Some 7\<rparr> sample_db"
  have keys: "keys_ok ?d"
    using sample_keys_ok by (simp add: keys_ok_def put_entry_access_def upsert_def sample_db_defs)
  have "is_ok (relinquish (sample_ctx 8 Member) 4 5 6 ?d)"
    by (simp add: relinquish_def permission_def get_entry_def get_folder_def sample_db_defs sample_ctx_def
        put_entry_access_def upsert_def direct_entry_permissions_def direct_folder_permissions_def
        group_folder_permissions_def grant_active_def get_entry_access_def delete_entry_access_def
        del_row_def Let_def)
  then obtain left d' where run: "relinquish (sample_ctx 8 Member) 4 5 6 ?d = Inr (left, d')"
    by (auto simp: is_ok_iff)
  have "permission (sample_ctx 7 Admin) 7 ?d 4 = Inr Owner"
    by (simp add: permission_def get_entry_def sample_db_defs sample_ctx_def put_entry_access_def)
  with relinquish_effect [OF keys run] run show ?thesis
    by (auto simp: sample_ctx_def sample_user_def)
qed

text \<open>
  Time only takes access away. With the same stored data, no user's permission on an entry or a
  folder at a later time is stronger than it was before: grants lapse and never come into force
  on their own.
\<close>

theorem access_only_lapses_with_time:
  assumes "keys_ok d" and "now \<le> now'"
  shows "(\<forall>c i. permission c now' d i = Inr p \<longrightarrow>
        (\<exists>q. permission c now d i = Inr q \<and> access_rank (Some p) \<le> access_rank (Some q)))
    \<and> (\<forall>f u. access_rank (permission_for d now' f u) \<le> access_rank (permission_for d now f u))"
proof -
  have ok: "shares_ok d" using keys_ok_shares [OF assms(1)] .
  have "\<exists>q. permission c now d i = Inr q \<and> access_rank (Some p) \<le> access_rank (Some q)"
    if "permission c now' d i = Inr p" for c i
  proof -
    from that obtain e where e: "get_entry d i = Some e" "entry_decision d now' e (user_of c) = Some p"
      by (auto simp: permission_Inr [OF ok])
    have le: "access_rank (Some p) \<le> access_rank (entry_decision d now e (user_of c))"
      using entry_policy.access_only_lapses [OF TrueI assms(2), where d = d and r = e and u = "user_of c"] e(2)
      by simp
    then obtain q where "entry_decision d now e (user_of c) = Some q"
      by (cases "entry_decision d now e (user_of c)"; cases p) auto
    with le e(1) show ?thesis by (auto simp: permission_Inr [OF ok])
  qed
  moreover have "access_rank (permission_for d now' f u) \<le> access_rank (permission_for d now f u)" for f u
    using folder_policy.access_only_lapses assms by (simp add: keys_ok_def)
  ultimately show ?thesis by blast
qed

theorem access_only_lapses_with_time_witness:
  "\<exists>q. permission (sample_ctx 7 Admin) 5 sample_db 4 = Inr q \<and> access_rank (Some Owner) \<le> access_rank (Some q)"
proof -
  have "permission (sample_ctx 7 Admin) 9 sample_db 4 = Inr Owner"
    by (simp add: permission_def get_entry_def sample_db_defs sample_ctx_def)
  with access_only_lapses_with_time [OF sample_keys_ok, of 5 9 Owner] show ?thesis by simp
qed

end
