(* ===== verification/Master_Password.thy ===== *)
theory Master_Password
  imports Access Vault_Settings
begin

text \<open>
  The vault key record (\<^verbatim>\<open>backend/crud/master_password.py\<close>) and sessions opened with the master
  password alone (\<^verbatim>\<open>backend/crud/vault_access.py\<close>). An operation that commits before it runs the
  slow KDF and then reads the database again takes two databases, the one before and the one
  after: anything may have been committed between them.
\<close>

section \<open>Key records\<close>

text \<open>
  \<^verbatim>\<open>key_material\<close> and \<^verbatim>\<open>user_key_material\<close> check the same columns: sizes, the KDF's name and
  its parameters. \<^verbatim>\<open>require_supported\<close> refuses parameters that are not integers.
\<close>

definition sized :: "nat \<Rightarrow> bytes cell \<Rightarrow> error + bytes" where
  "sized n c = (case c of Good b \<Rightarrow> if length b = n then Inr b else Inl InvalidRequest
                | Corrupt r \<Rightarrow> Inl InvalidRequest)"

definition integer :: "int cell \<Rightarrow> error + int" where
  "integer c = (case c of Good i \<Rightarrow> Inr i | Corrupt r \<Rightarrow> Inl UnsupportedKdf)"

definition columns_material :: "key_columns \<Rightarrow> error + key_material" where
  "columns_material k =
     andThen (sized 16 (kc_salt k)) (\<lambda>salt.
     andThen (sized 32 (kc_password_check k)) (\<lambda>check.
     andThen (sized 61 (kc_wrapped_key k)) (\<lambda>wrapped.
     andThen (sized 32 (kc_key_check k)) (\<lambda>key_check.
     andThen (ensure (kc_kdf k = ''argon2id'') InvalidRequest) (\<lambda>_.
     andThen (catching (\<lambda>_. InvalidRequest)
       (andThen (integer (kc_memory_kib k)) (\<lambda>m.
        andThen (integer (kc_iterations k)) (\<lambda>i.
        andThen (integer (kc_lanes k)) (\<lambda>l.
        let q = \<lparr>memory_kib = m, iterations = i, lanes = l\<rparr>
        in andThen (require_supported q) (\<lambda>_. Inr q)))))) (\<lambda>q.
     Inr \<lparr>km_params = q, km_salt = salt, km_password_check = check, km_wrapped_key = wrapped,
          km_key_check = key_check\<rparr>))))))"

definition vault_key_material :: "vault_row \<Rightarrow> error + key_material" where
  "vault_key_material v = columns_material (v_cols v)"

definition material_columns :: "key_material \<Rightarrow> key_columns" where
  "material_columns m =
     \<lparr>kc_kdf = ''argon2id'', kc_memory_kib = Good (memory_kib (km_params m)),
      kc_iterations = Good (iterations (km_params m)), kc_lanes = Good (lanes (km_params m)),
      kc_salt = Good (km_salt m), kc_password_check = Good (km_password_check m),
      kc_wrapped_key = Good (km_wrapped_key m), kc_key_check = Good (km_key_check m)\<rparr>"

definition store_vault :: "key_material \<Rightarrow> vault_row \<Rightarrow> vault_row" where
  "store_vault m v = v\<lparr>v_format_version := FORMAT_VERSION, v_cols := material_columns m\<rparr>"

text \<open>\<^verbatim>\<open>unlock_key_material\<close> with its two failures turned into \<^verbatim>\<open>InvalidRequest\<close>.\<close>

definition open_material :: "primitives \<Rightarrow> ustr \<Rightarrow> key_material \<Rightarrow> error + vault_key option" where
  "open_material P password m =
     catching (\<lambda>e. if e = UnsupportedKdf \<or> e = DecryptionFailed then InvalidRequest else e)
       (unlock_key_material P password m)"

section \<open>MasterPasswordCRUD\<close>

definition is_initialized :: "db \<Rightarrow> bool" where
  "is_initialized d \<longleftrightarrow> vault d \<noteq> None"

definition get_model :: "db \<Rightarrow> error + vault_row" where
  "get_model d =
     andThen (orElse (vault d) NotFound) (\<lambda>v.
     andThen (ensure (v_format_version v = FORMAT_VERSION) InvalidRequest) (\<lambda>_. Inr v))"

definition verify_vault_key :: "vault_key option \<Rightarrow> db \<Rightarrow> error + vault_key" where
  "verify_vault_key key d =
     andThen (orElse key InvalidKey) (\<lambda>k.
     andThen (orElse (vault d) Forbidden) (\<lambda>v.
     andThen (ensure (matches k (kc_key_check (v_cols v))) InvalidKey) (\<lambda>_. Inr k)))"

definition mp_unlock :: "primitives \<Rightarrow> ustr \<Rightarrow> db \<Rightarrow> db \<Rightarrow> error + vault_key option" where
  "mp_unlock P password d\<^sub>0 d\<^sub>1 =
     andThen (get_model d\<^sub>0) (\<lambda>v.
     andThen (vault_key_material v) (\<lambda>m.
     andThen (open_material P password m) (\<lambda>opened.
     Inr (case opened of None \<Rightarrow> None
          | Some k \<Rightarrow> (case vault d\<^sub>1 of None \<Rightarrow> None
              | Some current \<Rightarrow> if matches k (kc_key_check (v_cols current)) then Some k else None)))))"

definition blank_vault :: vault_row where
  "blank_vault = \<lparr>v_format_version = 0, v_folder_links_ready = False, v_owner_user_id = None,
     v_cols = material_columns \<lparr>km_params = DEFAULT_KDF, km_salt = [], km_password_check = [],
       km_wrapped_key = [], km_key_check = []\<rparr>\<rparr>"

definition create_master_password ::
    "primitives \<Rightarrow> ustr \<Rightarrow> bytes \<times> bytes \<times> bytes \<Rightarrow> db \<Rightarrow> db \<Rightarrow> error + vault_key \<times> db" where
  "create_master_password P password random d\<^sub>0 d\<^sub>1 =
     andThen (ensure (\<not> is_initialized d\<^sub>0) Forbidden) (\<lambda>_.
     andThen (ensure (entries d\<^sub>0 = [] \<and> attachments d\<^sub>0 = []) InvalidRequest) (\<lambda>_.
     andThen (create_key_material P (fst random) (fst (snd random)) (snd (snd random)) password DEFAULT_KDF)
       (\<lambda>(m, k).
     andThen (ensure (\<not> is_initialized d\<^sub>1) Forbidden) (\<lambda>_.
     Inr (k, d\<^sub>1\<lparr>vault := Some (store_vault m blank_vault)\<rparr>)))))"

definition check_master_password :: "primitives \<Rightarrow> ustr \<Rightarrow> db \<Rightarrow> error + vault_key" where
  "check_master_password P password d =
     andThen (get_model d) (\<lambda>v.
     andThen (vault_key_material v) (\<lambda>m.
     andThen (open_material P password m) (\<lambda>opened. orElse opened Forbidden)))"

definition confirm_same_key :: "vault_key \<Rightarrow> vault_key \<Rightarrow> db \<Rightarrow> error + unit" where
  "confirm_same_key candidate key d =
     andThen (verify_vault_key (Some key) d) (\<lambda>_.
     ensure (matches candidate (Good (vk_check key))) InvalidKey)"

definition reencrypt_entry ::
    "env \<Rightarrow> vault_key \<Rightarrow> vault_key \<Rightarrow> (nat \<Rightarrow> bytes) \<Rightarrow> entry_row \<Rightarrow> db \<Rightarrow> error + db" where
  "reencrypt_entry E old new nonces e d =
     andThen (open_entry E old e) (\<lambda>doc.
     andThen (seal_entry E new (nonces (e_id e)) e doc) (\<lambda>e'. rewrite_entry e' d))"

definition reencrypt_attachment ::
    "env \<Rightarrow> vault_key \<Rightarrow> vault_key \<Rightarrow> (nat \<Rightarrow> bytes \<times> bytes) \<Rightarrow> attachment_row \<Rightarrow> db \<Rightarrow> error + db" where
  "reencrypt_attachment E old new nonces a d =
     andThen (orElse (get_entry d (at_entry_id a)) VaultDamaged) (\<lambda>e.
     andThen (open_attachment_metadata E old a (e_uid e)) (\<lambda>metadata.
     andThen (open_attachment_content E old a (e_uid e)) (\<lambda>content.
     andThen (seal_attachment E new (fst (nonces (at_id a))) (snd (nonces (at_id a))) a (e_uid e)
       metadata content) (\<lambda>a'. update_attachment a' d))))"

definition reencrypt_entries ::
    "env \<Rightarrow> vault_key \<Rightarrow> vault_key \<Rightarrow> (nat \<Rightarrow> bytes) \<Rightarrow> db \<Rightarrow> error + db" where
  "reencrypt_entries E old new nonces d = fold_res (reencrypt_entry E old new nonces) (entries d) d"

definition reencrypt_attachments ::
    "env \<Rightarrow> vault_key \<Rightarrow> vault_key \<Rightarrow> (nat \<Rightarrow> bytes \<times> bytes) \<Rightarrow> db \<Rightarrow> error + db" where
  "reencrypt_attachments E old new nonces d =
     fold_res (reencrypt_attachment E old new nonces) (attachments d) d"

record rekey_draw =
  rk_random :: "bytes \<times> bytes \<times> bytes"
  rk_entry :: "nat \<Rightarrow> bytes"
  rk_attachment :: "nat \<Rightarrow> bytes \<times> bytes"

definition update_master_password ::
    "env \<Rightarrow> ustr \<Rightarrow> ustr \<Rightarrow> rekey_draw \<Rightarrow> db \<Rightarrow> db \<Rightarrow> error + db" where
  "update_master_password E password new_password w d\<^sub>0 d\<^sub>1 =
     andThen (get_model d\<^sub>0) (\<lambda>v\<^sub>0.
     andThen (vault_key_material v\<^sub>0) (\<lambda>observed.
     andThen (open_material (prims E) password observed) (\<lambda>opened.
     andThen (orElse opened Forbidden) (\<lambda>old.
     andThen (create_key_material (prims E) (fst (rk_random w)) (fst (snd (rk_random w)))
       (snd (snd (rk_random w))) new_password DEFAULT_KDF) (\<lambda>(m, new).
     andThen (get_model d\<^sub>1) (\<lambda>v.
     andThen (vault_key_material v) (\<lambda>current.
     andThen (ensure (current = observed) InvalidKey) (\<lambda>_.
     andThen (reencrypt_entries E old new (rk_entry w) d\<^sub>1) (\<lambda>d\<^sub>2.
     andThen (reencrypt_attachments E old new (rk_attachment w) d\<^sub>2) (\<lambda>d\<^sub>3.
     Inr (d\<^sub>3\<lparr>vault := Some (store_vault m v)\<rparr>)))))))))))"

section \<open>VaultAccess\<close>

record vault_unlock =
  vu_valid :: bool
  vu_session_token :: "ustr option"
  vu_idle_timeout_ms :: "int option"

text \<open>A session opened with the master password alone: user 0, no fingerprint.\<close>

definition open_vault_session ::
    "env \<Rightarrow> settings_row \<Rightarrow> vault_key \<Rightarrow> ustr \<Rightarrow> instant \<Rightarrow> instant \<Rightarrow> db \<Rightarrow> vault_sessions \<Rightarrow> vault_unlock request" where
  "open_vault_session E defaults k token now now' d vs =
     (let vs\<^sub>1 = refresh_timeout defaults now d vs;
          vs\<^sub>2 = open_session (prims E) k 0 None token now' vs\<^sub>1
      in after_rollback (\<lambda>vs. snd (revoke (prims E) (Some token) vs))
           (plain vs\<^sub>2 (Inr (\<lparr>vu_valid = True, vu_session_token = Some token,
             vu_idle_timeout_ms = Some (vs_idle_timeout_ms vs\<^sub>2)\<rparr>, d))))"

definition va_unlock ::
    "env \<Rightarrow> settings_row \<Rightarrow> ustr \<Rightarrow> ustr \<Rightarrow> instant \<Rightarrow> instant \<Rightarrow> db \<Rightarrow> db \<Rightarrow> vault_sessions \<Rightarrow> vault_unlock request" where
  "va_unlock E defaults password token now now' d\<^sub>0 d\<^sub>1 vs =
     (case mp_unlock (prims E) password d\<^sub>0 d\<^sub>1 of
        Inl e \<Rightarrow> plain vs (Inl e)
      | Inr None \<Rightarrow> plain vs (Inr (\<lparr>vu_valid = False, vu_session_token = None, vu_idle_timeout_ms = None\<rparr>, d\<^sub>1))
      | Inr (Some k) \<Rightarrow> open_vault_session E defaults k token now now' d\<^sub>1 vs)"

definition va_create ::
    "env \<Rightarrow> settings_row \<Rightarrow> ustr \<Rightarrow> bytes \<times> bytes \<times> bytes \<Rightarrow> ustr \<Rightarrow> instant \<Rightarrow> instant \<Rightarrow> db \<Rightarrow> db \<Rightarrow>
       vault_sessions \<Rightarrow> vault_unlock request" where
  "va_create E defaults password random token now now' d\<^sub>0 d\<^sub>1 vs =
     (case create_master_password (prims E) password random d\<^sub>0 d\<^sub>1 of
        Inl e \<Rightarrow> plain vs (Inl e)
      | Inr (k, d\<^sub>2) \<Rightarrow> open_vault_session E defaults k token now now' d\<^sub>2 vs)"

definition authorize ::
    "env \<Rightarrow> ustr \<Rightarrow> bool \<Rightarrow> instant \<Rightarrow> db \<Rightarrow> vault_sessions \<Rightarrow> (error + vault_key) \<times> vault_sessions" where
  "authorize E token refresh now d vs =
     (case resolve (prims E) (Some token) refresh now vs of
        (Inl e, vs') \<Rightarrow> (Inl e, vs')
      | (Inr k, vs') \<Rightarrow>
          (case verify_vault_key (Some k) d of
             Inr k' \<Rightarrow> (Inr k', vs')
           | Inl e \<Rightarrow> if e = InvalidKey then (Inl SessionRequired, snd (revoke (prims E) (Some token) vs'))
                      else (Inl e, vs')))"

definition va_status ::
    "env \<Rightarrow> ustr \<Rightarrow> instant \<Rightarrow> vault_sessions \<Rightarrow> (error + session_info) \<times> vault_sessions" where
  "va_status E token now vs = info (prims E) (Some token) now vs"

definition change_master_password ::
    "env \<Rightarrow> ustr \<Rightarrow> ustr \<Rightarrow> ustr \<Rightarrow> rekey_draw \<Rightarrow> db \<Rightarrow> db \<Rightarrow> vault_sessions \<Rightarrow> unit request" where
  "change_master_password E token password new_password w d\<^sub>0 d\<^sub>1 vs =
     (case update_master_password E password new_password w d\<^sub>0 d\<^sub>1 of
        Inl e \<Rightarrow> if e = InvalidKey then plain (snd (revoke (prims E) (Some token) vs)) (Inl SessionRequired)
                 else plain vs (Inl e)
      | Inr d\<^sub>2 \<Rightarrow> after_commit (\<lambda>vs. snd (revoke_all vs)) (plain vs (Inr ((), d\<^sub>2))))"

section \<open>Lemmas\<close>

lemma columns_material_stored:
  assumes "primitives_ok P" and "length salt = 16" and "length nonce = NONCE_BYTES"
    and "is_ok (require_supported q)" and "seal_key_material P nonce derived raw q salt = Inr m"
  shows "columns_material (material_columns m) = Inr m"
proof -
  from assms(5) obtain ad k where k: "VaultKey P raw = Inr k"
      and m: "m = \<lparr>km_params = q, km_salt = salt,
          km_password_check = p_hkdf P derived (ascii ''ciphermoth/v2/password-commitment''),
          km_wrapped_key =
            seal P (p_hkdf P derived (ascii ''ciphermoth/v2/key-wrapping'')) nonce raw ad,
          km_key_check = vk_check k\<rparr>"
    by (auto simp: seal_key_material_def result_simps)
  note P = primitives_okD [OF assms(1)]
  have raw: "length raw = 32" using VaultKey_Inr [OF k] by (simp add: size_defs)
  have "length (vk_check k) = 32" using k P(3) by (auto simp: VaultKey_def result_simps)
  moreover obtain u where "require_supported q = Inr u" using assms(4) by (auto simp: is_ok_iff)
  ultimately show ?thesis
    using assms(2,3) raw P(2,3)
    by (cases q) (simp add: m columns_material_def material_columns_def sized_def integer_def Let_def
        seal_def size_defs)
qed

lemma argon2id_supported: "argon2id P password salt q = Inr x \<Longrightarrow> is_ok (require_supported q)"
  by (auto simp: argon2id_def is_ok_iff result_simps)

lemma created_material_stored:
  assumes "primitives_ok P" and "length salt = 16" and "length nonce = NONCE_BYTES"
    and "create_key_material P salt raw nonce password q = Inr (m, k)"
  shows "columns_material (material_columns m) = Inr m"
    and "open_material P password m = Inr (Some k)" and "vk_check k = km_key_check m"
proof -
  from assms(4) obtain derived where d: "argon2id P password salt q = Inr derived"
      and m: "seal_key_material P nonce derived raw q salt = Inr m" and k: "VaultKey P raw = Inr k"
    by (auto simp: create_key_material_def result_simps)
  show "columns_material (material_columns m) = Inr m"
    using columns_material_stored [OF assms(1-3) argon2id_supported [OF d] m] .
  have "open_key_material P derived m = Inr (Some k)"
    using open_seal_key_material [OF assms(1,3) m] k by auto
  with d seal_key_material_params [OF m] show "open_material P password m = Inr (Some k)"
    by (simp add: open_material_def unlock_key_material_def)
  show "vk_check k = km_key_check m" using m k by (auto simp: seal_key_material_def result_simps)
qed

text \<open>What re-encryption keeps of an entry and of an attachment.\<close>

definition rekeyed :: "env \<Rightarrow> vault_key \<Rightarrow> vault_key \<Rightarrow> entry_row \<Rightarrow> entry_row \<Rightarrow> bool" where
  "rekeyed E old new e e' \<longleftrightarrow> entry_frame e' = entry_frame e
     \<and> (\<exists>doc. open_entry E old e = Inr doc \<and> open_entry E new e' = Inr doc)"

definition attachment_rekeyed ::
    "env \<Rightarrow> vault_key \<Rightarrow> vault_key \<Rightarrow> bytes cell \<Rightarrow> attachment_row \<Rightarrow> attachment_row \<Rightarrow> bool" where
  "attachment_rekeyed E old new uid a a' \<longleftrightarrow> at_entry_id a' = at_entry_id a
     \<and> (\<exists>md content. open_attachment_metadata E old a uid = Inr md \<and> open_attachment_metadata E new a' uid = Inr md
          \<and> open_attachment_content E old a uid = Inr content \<and> open_attachment_content E new a' uid = Inr content)"

lemma reencrypt_entry_Inr:
  assumes "env_ok E" and "\<And>i. length (nonces i) = NONCE_BYTES"
    and "reencrypt_entry E old new nonces e d = Inr d'" and "get_entry d (e_id e) = Some e"
  shows "\<exists>e'. get_entry d' = (get_entry d)(e_id e \<mapsto> e') \<and> rekeyed E old new e e'
    \<and> (d' = d\<lparr>entries := entries d'\<rparr> \<and> map e_id (entries d') = map e_id (entries d))"
proof -
  from assms(3) obtain doc e' where doc: "open_entry E old e = Inr doc"
      and e': "seal_entry E new (nonces (e_id e)) e doc = Inr e'" and d': "rewrite_entry e' d = Inr d'"
    by (auto simp: reencrypt_entry_def result_simps)
  from d' have d'': "d' = d\<lparr>entries := set_row e_id e' (entries d)\<rparr>"
    by (auto simp: rewrite_entry_def Let_def result_simps)
  note sealed = entry_rows.reseal [where f = "\<lambda>x. x", OF assms(1) assms(2) doc e']
  have id: "e_id e' = e_id e" using sealed(2) by (rule entry_frame_eqD)
  have "get_entry d' = (get_entry d)(e_id e \<mapsto> e')"
    using assms(4) id by (auto simp: d'' get_entry_def row_simps fun_eq_iff)
  moreover have "rekeyed E old new e e'" using sealed doc by (auto simp: rekeyed_def)
  ultimately show ?thesis using d'' by auto
qed

lemma reencrypt_entries_Inr:
  assumes "env_ok E" and "\<And>i. length (nonces i) = NONCE_BYTES"
    and "reencrypt_entries E old new nonces d = Inr d'" and "distinct (map e_id (entries d))"
  shows "(\<forall>e \<in> set (entries d). \<exists>e'. get_entry d' (e_id e) = Some e' \<and> rekeyed E old new e e')
    \<and> d' = d\<lparr>entries := entries d'\<rparr>"
proof -
  let ?I = "\<lambda>s. s = d\<lparr>entries := entries s\<rparr> \<and> map e_id (entries s) = map e_id (entries d)"
  have "(\<forall>i. i \<notin> e_id ` set (entries d) \<longrightarrow> get_entry d' i = get_entry d i)
      \<and> (\<forall>e \<in> set (entries d). \<exists>e'. get_entry d' (e_id e) = Some e' \<and> rekeyed E old new e e') \<and> ?I d'"
  proof (rule fold_res_rows [where I = ?I, OF _ assms(3) [unfolded reencrypt_entries_def] _ assms(4)])
    fix e s s'
    assume run: "reencrypt_entry E old new nonces e s = Inr s'" and I: "?I s"
      and e: "get_entry s (e_id e) = Some e"
    from reencrypt_entry_Inr [OF assms(1,2) run e] obtain e' where
      e': "get_entry s' = (get_entry s)(e_id e \<mapsto> e')" "rekeyed E old new e e'"
        "s' = s\<lparr>entries := entries s'\<rparr>" "map e_id (entries s') = map e_id (entries s)" by blast
    have "s' = d\<lparr>entries := entries s'\<rparr>" using only_entries_trans [OF conjunct1 [OF I] e'(3)] .
    with e' I show "\<exists>e'. get_entry s' = (get_entry s)(e_id e \<mapsto> e') \<and> rekeyed E old new e e' \<and> ?I s'"
      by auto
  qed (use assms(4) in \<open>simp_all add: get_entry_def row_of_in_set\<close>)
  then show ?thesis by blast
qed

lemma reencrypt_attachment_Inr:
  assumes "env_ok E" and "\<And>i. length (fst (nonces i)) = NONCE_BYTES \<and> length (snd (nonces i)) = NONCE_BYTES"
    and "reencrypt_attachment E old new nonces a d = Inr d'" and "get_attachment d (at_id a) = Some a"
  shows "\<exists>a'. get_attachment d' = (get_attachment d)(at_id a \<mapsto> a')
    \<and> (\<exists>e. get_entry d (at_entry_id a) = Some e \<and> attachment_rekeyed E old new (e_uid e) a a')
    \<and> d' = d\<lparr>attachments := attachments d'\<rparr>"
proof -
  from assms(3) obtain e md content a' where e: "get_entry d (at_entry_id a) = Some e"
      and md: "open_attachment_metadata E old a (e_uid e) = Inr md"
      and content: "open_attachment_content E old a (e_uid e) = Inr content"
      and a': "seal_attachment E new (fst (nonces (at_id a))) (snd (nonces (at_id a))) a (e_uid e) md content = Inr a'"
      and d': "update_attachment a' d = Inr d'"
    by (auto simp: reencrypt_attachment_def result_simps)
  from d' have d'': "d' = d\<lparr>attachments := set_row at_id a' (attachments d)\<rparr>"
    by (auto simp: update_attachment_def Let_def result_simps)
  have same: "at_id a' = at_id a" "at_entry_id a' = at_entry_id a"
    using a' by (auto simp: seal_attachment_def result_simps)
  from md have good: "is_good (at_created a)" "\<exists>n > 0. at_size_bytes a = Good n"
    by (auto simp: open_attachment_metadata_def result_simps split: cell.splits)
  with content have "content \<noteq> []"
    by (auto simp: open_attachment_content_def result_simps)
  with open_seal_attachment [OF assms(1) _ _ good(1) _ a'] assms(2) md content same(2)
  have "attachment_rekeyed E old new (e_uid e) a a'" by (simp add: attachment_rekeyed_def)
  moreover have "get_attachment d' = (get_attachment d)(at_id a \<mapsto> a')"
    using assms(4) same(1) by (auto simp: d'' get_attachment_def row_simps fun_eq_iff)
  ultimately show ?thesis using e d'' by auto
qed

lemma reencrypt_attachments_Inr:
  assumes "env_ok E" and "\<And>i. length (fst (nonces i)) = NONCE_BYTES \<and> length (snd (nonces i)) = NONCE_BYTES"
    and "reencrypt_attachments E old new nonces d = Inr d'" and "distinct (map at_id (attachments d))"
  shows "(\<forall>a \<in> set (attachments d). \<exists>a'. get_attachment d' (at_id a) = Some a'
      \<and> (\<exists>e. get_entry d (at_entry_id a) = Some e \<and> attachment_rekeyed E old new (e_uid e) a a'))
    \<and> d' = d\<lparr>attachments := attachments d'\<rparr>"
proof -
  let ?I = "\<lambda>s. s = d\<lparr>attachments := attachments s\<rparr>"
  let ?R = "\<lambda>a a'. \<exists>e. get_entry d (at_entry_id a) = Some e \<and> attachment_rekeyed E old new (e_uid e) a a'"
  have "(\<forall>i. i \<notin> at_id ` set (attachments d) \<longrightarrow> get_attachment d' i = get_attachment d i)
      \<and> (\<forall>a \<in> set (attachments d). \<exists>a'. get_attachment d' (at_id a) = Some a' \<and> ?R a a') \<and> ?I d'"
  proof (rule fold_res_rows [where I = ?I and R = ?R,
        OF _ assms(3) [unfolded reencrypt_attachments_def] _ assms(4)])
    fix a s s'
    assume run: "reencrypt_attachment E old new nonces a s = Inr s'" and I: "?I s"
      and a: "get_attachment s (at_id a) = Some a"
    have entry: "get_entry s = get_entry d" by (subst I) (simp add: get_entry_def fun_eq_iff)
    from reencrypt_attachment_Inr [OF assms(1,2) run a] obtain a' where
      a': "get_attachment s' = (get_attachment s)(at_id a \<mapsto> a')" "?R a a'"
        "s' = s\<lparr>attachments := attachments s'\<rparr>" unfolding entry by blast
    have "?I s'" by (subst a'(3), subst I) simp
    with a' show "\<exists>a'. get_attachment s' = (get_attachment s)(at_id a \<mapsto> a') \<and> ?R a a' \<and> ?I s'" by auto
  qed (use assms(4) in \<open>simp_all add: get_attachment_def row_of_in_set\<close>)
  then show ?thesis by blast
qed

section \<open>A sample key record\<close>

text \<open>The vault key of the samples, wrapped under one-letter passwords.\<close>

definition sample_salt :: bytes where "sample_salt = replicate 16 1"

definition sample_material :: "ustr \<Rightarrow> key_material" where
  "sample_material password = fst (projr (create_key_material (prims sample_E) sample_salt (replicate 32 5)
     sample_nonce password DEFAULT_KDF))"

lemma sample_prims [simp]: "prims (sample_env docs) = sample_primitives []"
  by (simp add: sample_env_def)

lemma sample_VaultKey: "VaultKey (sample_primitives []) (replicate 32 5) = Inr sample_key"
  by (simp add: VaultKey_def sample_key_def sample_primitives_def fit32_def size_defs)

lemma sample_wrap_ok:
  "c < 128 \<Longrightarrow> length salt = 16 \<Longrightarrow> VaultKey (sample_primitives []) raw = Inr k \<Longrightarrow>
     is_ok (create_key_material (sample_primitives []) salt raw sample_nonce [c] DEFAULT_KDF)"
  by (simp add: create_key_material_def argon2id_def require_supported_def seal_key_material_def
      wrap_associated_data_def pack_u_def kdf_bounds FORMAT_VERSION_def)

lemma sample_material:
  assumes "c < 128"
  shows "create_key_material (sample_primitives []) sample_salt (replicate 32 5) sample_nonce [c] DEFAULT_KDF
    = Inr (sample_material [c], sample_key)"
proof -
  have "is_ok (create_key_material (sample_primitives []) sample_salt (replicate 32 5) sample_nonce [c] DEFAULT_KDF)"
    using sample_wrap_ok [OF assms _ sample_VaultKey] by (simp add: sample_salt_def)
  then show ?thesis
    by (auto simp: is_ok_iff sample_material_def create_key_material_def result_simps sample_VaultKey)
qed

lemmas sample_stored =
  created_material_stored [OF sample_primitives_ok _ length_sample_nonce sample_material]

definition keyed_db :: db where
  "keyed_db = sample_db\<lparr>vault := Some \<lparr>v_format_version = 2, v_folder_links_ready = False,
     v_owner_user_id = Some 7, v_cols = material_columns (sample_material [97])\<rparr>\<rparr>"

section \<open>Properties\<close>

text \<open>
  C38: Changing the master password re-encrypts entries and attachments without losing any. After it
  the new password unlocks a new vault key; every entry and every attachment opens under that key
  to exactly what it held under the old one, with its ids, owner, folder and timestamps kept; and
  nothing else in the database changes. In particular folders and groups keep their old bytes.
\<close>

theorem rekey_keeps_contents:
  assumes "env_ok E" and "keys_ok d\<^sub>1"
    and "length (fst (rk_random w)) = 16" and "length (snd (snd (rk_random w))) = NONCE_BYTES"
    and "\<forall>i. length (rk_entry w i) = NONCE_BYTES"
    and "\<forall>i. length (fst (rk_attachment w i)) = NONCE_BYTES \<and> length (snd (rk_attachment w i)) = NONCE_BYTES"
    and "update_master_password E password new_password w d\<^sub>0 d\<^sub>1 = Inr d\<^sub>2"
  shows "\<exists>old new. check_master_password (prims E) password d\<^sub>0 = Inr old
    \<and> mp_unlock (prims E) new_password d\<^sub>2 d\<^sub>2 = Inr (Some new)
    \<and> (\<forall>e \<in> set (entries d\<^sub>1). \<exists>e'. get_entry d\<^sub>2 (e_id e) = Some e' \<and> rekeyed E old new e e')
    \<and> (\<forall>a \<in> set (attachments d\<^sub>1). \<exists>a' e. get_attachment d\<^sub>2 (at_id a) = Some a'
        \<and> get_entry d\<^sub>2 (at_entry_id a) = Some e \<and> attachment_rekeyed E old new (e_uid e) a a')
    \<and> d\<^sub>2 = d\<^sub>1\<lparr>vault := vault d\<^sub>2, entries := entries d\<^sub>2, attachments := attachments d\<^sub>2\<rparr>"
proof -
  from assms(7) obtain v\<^sub>0 observed old m new v d\<^sub>a d\<^sub>b where
    v\<^sub>0: "get_model d\<^sub>0 = Inr v\<^sub>0" "vault_key_material v\<^sub>0 = Inr observed"
      "open_material (prims E) password observed = Inr (Some old)" and
    m: "create_key_material (prims E) (fst (rk_random w)) (fst (snd (rk_random w)))
        (snd (snd (rk_random w))) new_password DEFAULT_KDF = Inr (m, new)" and
    a: "reencrypt_entries E old new (rk_entry w) d\<^sub>1 = Inr d\<^sub>a" and
    b: "reencrypt_attachments E old new (rk_attachment w) d\<^sub>a = Inr d\<^sub>b" and
    d\<^sub>2: "d\<^sub>2 = d\<^sub>b\<lparr>vault := Some (store_vault m v)\<rparr>"
    by (auto simp: update_master_password_def result_simps)
  have ids: "distinct (map e_id (entries d\<^sub>1))" "distinct (map at_id (attachments d\<^sub>1))"
    using assms(2) by (simp_all add: keys_ok_def)
  note A = reencrypt_entries_Inr [OF assms(1) _ a ids(1)]
  have A: "\<forall>e \<in> set (entries d\<^sub>1). \<exists>e'. get_entry d\<^sub>a (e_id e) = Some e' \<and> rekeyed E old new e e'"
    "d\<^sub>a = d\<^sub>1\<lparr>entries := entries d\<^sub>a\<rparr>" using A assms(5) by blast+
  have same: "attachments d\<^sub>a = attachments d\<^sub>1" by (subst A(2)) simp
  note B = reencrypt_attachments_Inr [OF assms(1) _ b]
  have B: "\<forall>a \<in> set (attachments d\<^sub>1). \<exists>a'. get_attachment d\<^sub>b (at_id a) = Some a'
      \<and> (\<exists>e. get_entry d\<^sub>a (at_entry_id a) = Some e \<and> attachment_rekeyed E old new (e_uid e) a a')"
    "d\<^sub>b = d\<^sub>a\<lparr>attachments := attachments d\<^sub>b\<rparr>" using B assms(6) ids(2) unfolding same by blast+
  have entry: "get_entry d\<^sub>2 = get_entry d\<^sub>a" by (simp add: d\<^sub>2, subst B(2)) (simp add: get_entry_def fun_eq_iff)
  have attachment: "get_attachment d\<^sub>2 = get_attachment d\<^sub>b" by (simp add: d\<^sub>2 get_attachment_def fun_eq_iff)
  have frame: "d\<^sub>2 = d\<^sub>1\<lparr>vault := vault d\<^sub>2, entries := entries d\<^sub>2, attachments := attachments d\<^sub>2\<rparr>"
    unfolding d\<^sub>2 by (subst B(2), subst A(2)) (simp, subst B(2), subst A(2), simp)
  have prims: "primitives_ok (prims E)" using assms(1) by (simp add: env_ok_def)
  have "mp_unlock (prims E) new_password d\<^sub>2 d\<^sub>2 = Inr (Some new)"
    using created_material_stored [OF prims assms(3,4) m]
    by (simp add: mp_unlock_def get_model_def d\<^sub>2 store_vault_def vault_key_material_def matches_def
        material_columns_def)
  moreover have "check_master_password (prims E) password d\<^sub>0 = Inr old"
    by (simp add: check_master_password_def v\<^sub>0)
  ultimately show ?thesis using A(1) B(1) frame unfolding entry attachment by blast
qed

theorem rekey_keeps_contents_witness:
  "\<exists>w d\<^sub>2 new e'. update_master_password sample_E [97] [98] w keyed_db keyed_db = Inr d\<^sub>2
     \<and> mp_unlock (sample_primitives []) [98] d\<^sub>2 d\<^sub>2 = Inr (Some new) \<and> get_entry d\<^sub>2 4 = Some e'
     \<and> open_entry sample_E new e' = Inr (sample_doc [110] (Some [65]))"
proof -
  let ?w = "\<lparr>rk_random = (sample_salt, replicate 32 6, sample_nonce), rk_entry = \<lambda>_. sample_nonce,
    rk_attachment = \<lambda>_. (sample_nonce, sample_nonce)\<rparr>"
  let ?e = "sample_entry (Some 3) (Some [65])"
  obtain new where "VaultKey (sample_primitives []) (replicate 32 6) = Inr new"
    by (simp add: VaultKey_def size_defs)
  from sample_wrap_ok [of 98, OF _ _ this, of sample_salt] obtain m new where
    m: "create_key_material (sample_primitives []) sample_salt (replicate 32 6) sample_nonce [98] DEFAULT_KDF
        = Inr (m, new)"
    by (auto simp: sample_salt_def is_ok_iff)
  obtain e' where e': "seal_entry sample_E new sample_nonce ?e (sample_doc [110] (Some [65])) = Inr e'"
    using projr_ok [of "seal_entry sample_E new sample_nonce ?e (sample_doc [110] (Some [65]))"]
    by (auto simp: seal_entry_ok)
  note frames [simp] = entry_frame_eqD [OF entry_rows.seal_keeps_frame [OF e']]
  have stored: "columns_material (material_columns (sample_material [97])) = Inr (sample_material [97])"
    "open_material (sample_primitives []) [97] (sample_material [97]) = Inr (Some sample_key)"
    using sample_stored [of 97] by (simp_all add: sample_salt_def)
  obtain d\<^sub>2 where run: "update_master_password sample_E [97] [98] ?w keyed_db keyed_db = Inr d\<^sub>2"
    by (simp add: update_master_password_def get_model_def keyed_db_def FORMAT_VERSION_def vault_key_material_def
        stored m reencrypt_entries_def reencrypt_attachments_def sample_db_defs reencrypt_entry_def e'
        rewrite_entry_def Let_def entries_unique_def active_indexes_def set_row_def)
  have "keys_ok keyed_db" using sample_keys_ok by (simp add: keyed_db_def keys_ok_def)
  from rekey_keeps_contents [OF sample_env_ok this _ _ _ _ run] obtain old new' where
    R: "check_master_password (sample_primitives []) [97] keyed_db = Inr old"
      "mp_unlock (sample_primitives []) [98] d\<^sub>2 d\<^sub>2 = Inr (Some new')"
      "\<forall>e \<in> set (entries keyed_db). \<exists>e'. get_entry d\<^sub>2 (e_id e) = Some e' \<and> rekeyed sample_E old new' e e'"
    by (auto simp: sample_salt_def)
  from R(1) have "old = sample_key"
    by (simp add: check_master_password_def get_model_def keyed_db_def FORMAT_VERSION_def vault_key_material_def stored)
  moreover have "?e \<in> set (entries keyed_db)" by (simp add: keyed_db_def sample_db_def)
  ultimately obtain e'' where "get_entry d\<^sub>2 4 = Some e''" "rekeyed sample_E sample_key new' ?e e''"
    using R(3) by fastforce
  then show ?thesis using run R(2) by (auto simp: rekeyed_def)
qed

end
