(* ===== verification/Accounts.thy ===== *)
theory Accounts
  imports Master_Password
begin

text \<open>
  Accounts and authentication (\<^verbatim>\<open>backend/crud/auth.py\<close>): the first account, login, the context
  of a request, account administration, password changes and service tokens. Each account wraps
  the same vault key under its own password; the vault row repeats the material of its primary
  owner. An operation that commits before it runs the KDF takes two databases, before and after.
  A session store is part of a request's state because sessions are opened while the request runs.
\<close>

section \<open>Material of an account\<close>

definition token_digest :: "primitives \<Rightarrow> ustr \<Rightarrow> error + bytes" where
  "token_digest P token = andThen (utf8 token) (\<lambda>b. Inr (p_sha256 P b))"

definition user_key_material :: "user_row \<Rightarrow> error + key_material" where
  "user_key_material u = columns_material (u_cols u)"

definition store_user_material :: "key_material \<Rightarrow> user_row \<Rightarrow> user_row" where
  "store_user_material m u = u\<lparr>u_cols := material_columns m\<rparr>"

definition length_framed :: "bytes \<Rightarrow> bytes" where
  "length_framed v = be 4 (length v) @ v"

definition credential_fingerprint :: "primitives \<Rightarrow> user_row \<Rightarrow> error + bytes" where
  "credential_fingerprint P u =
     andThen (user_key_material u) (\<lambda>m.
     andThen (pack_u 8 (memory_kib (km_params m))) (\<lambda>memory.
     andThen (pack_u 8 (iterations (km_params m))) (\<lambda>passes.
     andThen (pack_u 8 (lanes (km_params m))) (\<lambda>lane_count.
     Inr (p_sha256 P (concat (map length_framed [ascii (kc_kdf (u_cols u)), memory, passes, lane_count,
       km_salt m, km_password_check m, km_wrapped_key m, km_key_check m])))))))"

definition validate_vault_material :: "vault_row \<Rightarrow> db \<Rightarrow> error + key_material" where
  "validate_vault_material v d =
     andThen (vault_key_material v) (\<lambda>m.
     case v_owner_user_id v of
       None \<Rightarrow> Inr m
     | Some i \<Rightarrow>
         andThen (orElse (get_user d i) InvalidRequest) (\<lambda>owner.
         andThen (user_key_material owner) (\<lambda>m'.
         andThen (ensure (m' = m) InvalidRequest) (\<lambda>_. Inr m))))"

section \<open>Responses\<close>

record auth_user =
  us_id :: nat
  us_username :: ustr
  us_role :: user_role
  us_active :: bool
  us_must_change_password :: bool

record auth_response =
  ar_valid :: bool
  ar_user :: "auth_user option"
  ar_session_token :: "ustr option"
  ar_idle_timeout_ms :: "int option"

definition to_user :: "user_row \<Rightarrow> auth_user" where
  "to_user u = \<lparr>us_id = u_id u, us_username = u_username u, us_role = u_role u, us_active = u_active u,
     us_must_change_password = u_must_change_password u\<rparr>"

definition invalid_response :: auth_response where
  "invalid_response = \<lparr>ar_valid = False, ar_user = None, ar_session_token = None, ar_idle_timeout_ms = None\<rparr>"

definition auth_status :: "db \<Rightarrow> bool" where
  "auth_status d \<longleftrightarrow> users d \<noteq> []"

text \<open>
  What a request draws: salt, vault key and nonce of new key material, the session token, a service
  token, the uids, nonces and instants of the folder migration, the instant of a bulk update, and
  the instants at which the session store's clock is read.
\<close>

record auth_draw =
  dr_salt :: bytes
  dr_raw :: bytes
  dr_nonce :: bytes
  dr_token :: ustr
  dr_service_token :: ustr
  dr_migration :: "nat \<Rightarrow> (bytes \<times> bytes) \<times> time"
  dr_now :: time
  dr_refresh_at :: instant
  dr_open_at :: instant

section \<open>Opening a session\<close>

definition open_user_session ::
    "env \<Rightarrow> user_row \<Rightarrow> vault_key \<Rightarrow> auth_draw \<Rightarrow> db \<Rightarrow> vault_sessions \<Rightarrow> auth_response request" where
  "open_user_session E u key w d vs =
     (case credential_fingerprint (prims E) u of
        Inl e \<Rightarrow> plain vs (Inl e)
      | Inr fp \<Rightarrow>
          let vs' = open_session (prims E) key (u_id u) (Some fp) (dr_token w) (dr_open_at w) vs
          in after_rollback (\<lambda>vs. snd (revoke (prims E) (Some (dr_token w)) vs))
               (plain vs' (Inr (\<lparr>ar_valid = True, ar_user = Some (to_user u),
                  ar_session_token = Some (dr_token w), ar_idle_timeout_ms = Some (vs_idle_timeout_ms vs')\<rparr>, d))))"

text \<open>The common end of bootstrap and login: migrate, refresh the timeout, open the session.\<close>

definition enter ::
    "env \<Rightarrow> settings_row \<Rightarrow> user_row \<Rightarrow> vault_key \<Rightarrow> auth_draw \<Rightarrow> db \<Rightarrow> vault_sessions \<Rightarrow> auth_response request" where
  "enter E defaults u key w d vs =
     (case migrate_folder_links E key (dr_migration w) d of
        Inl e \<Rightarrow> plain vs (Inl e)
      | Inr d' \<Rightarrow> open_user_session E u key w d' (refresh_timeout defaults (dr_refresh_at w) d' vs))"

section \<open>The first account\<close>

definition first_admin :: "ustr \<Rightarrow> key_material \<Rightarrow> user_row" where
  "first_admin username m = store_user_material m
     \<lparr>u_id = 0, u_username = username, u_role = Admin, u_active = True, u_must_change_password = False,
      u_service_owner_id = None, u_service_token_hash = None, u_cols = material_columns m\<rparr>"

definition claim_entries :: "nat \<Rightarrow> time \<Rightarrow> db \<Rightarrow> db" where
  "claim_entries i now d = d\<lparr>entries := map (\<lambda>e. if e_owner_id e = None
     then e\<lparr>e_owner_id := Some i, e_updated := Good now\<rparr> else e) (entries d)\<rparr>"

text \<open>A new vault, or an account for a vault that has none: the account, its key, the database.\<close>

definition bootstrap_new ::
    "env \<Rightarrow> ustr \<Rightarrow> ustr \<Rightarrow> auth_draw \<Rightarrow> db \<Rightarrow> db \<Rightarrow> error + (user_row \<times> vault_key) option \<times> db" where
  "bootstrap_new E username password w d\<^sub>0 d\<^sub>1 =
     andThen (ensure (entries d\<^sub>0 = [] \<and> attachments d\<^sub>0 = []) InvalidRequest) (\<lambda>_.
     andThen (create_key_material (prims E) (dr_salt w) (dr_raw w) (dr_nonce w) password DEFAULT_KDF) (\<lambda>(m, key).
     andThen (ensure (users d\<^sub>1 = []) Forbidden) (\<lambda>_.
     andThen (ensure (vault d\<^sub>1 = None) Forbidden) (\<lambda>_.
     andThen (insert_user (first_admin username m) d\<^sub>1) (\<lambda>(i, d\<^sub>2).
     Inr (Some ((first_admin username m)\<lparr>u_id := i\<rparr>, key),
          d\<^sub>2\<lparr>vault := Some (store_vault m (blank_vault\<lparr>v_owner_user_id := Some i\<rparr>))\<rparr>))))))"

definition bootstrap_existing ::
    "env \<Rightarrow> ustr \<Rightarrow> ustr \<Rightarrow> vault_row \<Rightarrow> db \<Rightarrow> error + (user_row \<times> vault_key) option \<times> db" where
  "bootstrap_existing E username password v d\<^sub>1 =
     andThen (vault_key_material v) (\<lambda>observed.
     andThen (open_material (prims E) password observed) (\<lambda>opened.
     case opened of
       None \<Rightarrow> Inr (None, d\<^sub>1)
     | Some key \<Rightarrow>
         andThen (ensure (users d\<^sub>1 = []) Forbidden) (\<lambda>_.
         andThen (orElse (vault d\<^sub>1) Forbidden) (\<lambda>current.
         andThen (vault_key_material current) (\<lambda>m.
         andThen (ensure (m = observed) Forbidden) (\<lambda>_.
         andThen (insert_user (first_admin username observed) d\<^sub>1) (\<lambda>(i, d\<^sub>2).
         Inr (Some ((first_admin username observed)\<lparr>u_id := i\<rparr>, key),
              d\<^sub>2\<lparr>vault := Some (current\<lparr>v_owner_user_id := Some i\<rparr>)\<rparr>)))))))) "

definition bootstrap ::
    "env \<Rightarrow> settings_row \<Rightarrow> ustr \<Rightarrow> ustr \<Rightarrow> auth_draw \<Rightarrow> db \<Rightarrow> db \<Rightarrow> vault_sessions \<Rightarrow> auth_response request" where
  "bootstrap E defaults username password w d\<^sub>0 d\<^sub>1 vs =
     (let account =
        (if users d\<^sub>0 \<noteq> [] then Inl (if vault d\<^sub>0 = None then InvalidRequest else Forbidden)
         else case vault d\<^sub>0 of
                None \<Rightarrow> bootstrap_new E username password w d\<^sub>0 d\<^sub>1
              | Some v \<Rightarrow> bootstrap_existing E username password v d\<^sub>1)
      in case account of
           Inl e \<Rightarrow> plain vs (Inl e)
         | Inr (None, d) \<Rightarrow> plain vs (Inr (invalid_response, d))
         | Inr (Some (u, key), d) \<Rightarrow> enter E defaults u key w (claim_entries (u_id u) (dr_now w) d) vs)"

section \<open>Login\<close>

definition login_candidate :: "ustr \<Rightarrow> db \<Rightarrow> user_row option" where
  "login_candidate username d =
     find (\<lambda>u. u_username u = username \<and> u_active u \<and> u_role u \<noteq> Service) (users d)"

text \<open>Up to the session: \<open>None\<close> is the response that the login is invalid.\<close>

definition login_check ::
    "env \<Rightarrow> ustr \<Rightarrow> ustr \<Rightarrow> auth_draw \<Rightarrow> db \<Rightarrow> db \<Rightarrow> error + (user_row \<times> vault_key) option" where
  "login_check E username password w d\<^sub>0 d\<^sub>1 =
     (case login_candidate username d\<^sub>0 of
        None \<Rightarrow>
          andThen (create_key_material (prims E) (dr_salt w) (dr_raw w) (dr_nonce w) password DEFAULT_KDF) (\<lambda>_.
          Inr None)
      | Some u \<Rightarrow>
          andThen (user_key_material u) (\<lambda>observed.
          andThen (orElse (vault d\<^sub>0) InvalidRequest) (\<lambda>v\<^sub>0.
          andThen (vault_key_material v\<^sub>0) (\<lambda>_.
          andThen (open_material (prims E) password observed) (\<lambda>opened.
          case opened of
            None \<Rightarrow> Inr None
          | Some key \<Rightarrow>
              andThen (orElse (vault d\<^sub>1) InvalidRequest) (\<lambda>v.
              andThen (validate_vault_material v d\<^sub>1) (\<lambda>canonical.
              case get_user d\<^sub>1 (u_id u) of
                None \<Rightarrow> Inr None
              | Some current \<Rightarrow>
                  if \<not> u_active current \<or> u_role current = Service then Inr None
                  else
                    andThen (user_key_material current) (\<lambda>m.
                    if m \<noteq> observed then Inr None
                    else
                      andThen (ensure (matches key (Good (km_key_check canonical))) InvalidRequest) (\<lambda>_.
                      Inr (Some (current, key)))))))))))"

definition login ::
    "env \<Rightarrow> settings_row \<Rightarrow> ustr \<Rightarrow> ustr \<Rightarrow> auth_draw \<Rightarrow> db \<Rightarrow> db \<Rightarrow> vault_sessions \<Rightarrow> auth_response request" where
  "login E defaults username password w d\<^sub>0 d\<^sub>1 vs =
     (case login_check E username password w d\<^sub>0 d\<^sub>1 of
        Inl e \<Rightarrow> plain vs (Inl e)
      | Inr None \<Rightarrow> plain vs (Inr (invalid_response, d\<^sub>1))
      | Inr (Some (u, key)) \<Rightarrow> enter E defaults u key w d\<^sub>1 vs)"

definition login_primary ::
    "env \<Rightarrow> settings_row \<Rightarrow> ustr \<Rightarrow> auth_draw \<Rightarrow> db \<Rightarrow> db \<Rightarrow> vault_sessions \<Rightarrow> auth_response request" where
  "login_primary E defaults password w d\<^sub>0 d\<^sub>1 vs =
     (case vault d\<^sub>0 of
        None \<Rightarrow> plain vs (Inl NotFound)
      | Some v \<Rightarrow>
          (case v_owner_user_id v of
             None \<Rightarrow> bootstrap E defaults (utext ''admin'') password w d\<^sub>0 d\<^sub>1 vs
           | Some i \<Rightarrow>
               (case get_user d\<^sub>0 i of
                  None \<Rightarrow> plain vs (Inl InvalidRequest)
                | Some u \<Rightarrow> login E defaults (u_username u) password w d\<^sub>0 d\<^sub>1 vs)))"

section \<open>The context of a request\<close>

text \<open>
  The three reads of the session store (key, user, fingerprint) are separate calls, each at its own
  instant and each able to find the session expired. What the database says is checked next; a
  failed check revokes the session.
\<close>

definition context_user :: "env \<Rightarrow> vault_key \<Rightarrow> nat \<Rightarrow> bytes option \<Rightarrow> db \<Rightarrow> user_row option" where
  "context_user E key uid fingerprint d =
     (case (get_user d uid, vault d) of
        (Some u, Some v) \<Rightarrow>
          let current = (case credential_fingerprint (prims E) u of Inl e \<Rightarrow> None | Inr fp \<Rightarrow> Some fp)
          in if \<not> u_active u \<or> u_role u = Service \<or> fingerprint \<noteq> current then None
             else (case validate_vault_material v d of
                     Inl e \<Rightarrow> None
                   | Inr canonical \<Rightarrow> if matches key (Good (km_key_check canonical)) then Some u else None)
      | _ \<Rightarrow> None)"

definition auth_context_of ::
    "env \<Rightarrow> ustr \<Rightarrow> bool \<Rightarrow> bool \<Rightarrow> instant \<times> instant \<times> instant \<Rightarrow> db \<Rightarrow> vault_sessions \<Rightarrow>
       (error + auth_context) \<times> vault_sessions" where
  "auth_context_of E token refresh allow_password_change instants d vs =
     (case resolve (prims E) (Some token) refresh (fst instants) vs of
        (Inl e, vs\<^sub>1) \<Rightarrow> (Inl e, vs\<^sub>1)
      | (Inr key, vs\<^sub>1) \<Rightarrow>
     (case session_user_id (prims E) (Some token) (fst (snd instants)) vs\<^sub>1 of
        (Inl e, vs\<^sub>2) \<Rightarrow> (Inl e, vs\<^sub>2)
      | (Inr uid, vs\<^sub>2) \<Rightarrow>
     (case session_credential_fingerprint (prims E) (Some token) (snd (snd instants)) vs\<^sub>2 of
        (Inl e, vs\<^sub>3) \<Rightarrow> (Inl e, vs\<^sub>3)
      | (Inr fingerprint, vs\<^sub>3) \<Rightarrow>
          (case context_user E key uid fingerprint d of
             None \<Rightarrow> (Inl SessionRequired, snd (revoke (prims E) (Some token) vs\<^sub>3))
           | Some u \<Rightarrow>
               if u_must_change_password u \<and> \<not> allow_password_change then (Inl Forbidden, vs\<^sub>3)
               else (Inr \<lparr>ctx_user = u, ctx_key = key, ctx_token = Some token\<rparr>, vs\<^sub>3)))))"

section \<open>Administration\<close>

definition require_admin :: "auth_context \<Rightarrow> error + unit" where
  "require_admin actor = ensure (u_active (ctx_user actor) \<and> is_admin actor) Forbidden"

definition username_taken :: "ustr \<Rightarrow> db \<Rightarrow> bool" where
  "username_taken username d \<longleftrightarrow> (\<exists>u \<in> set (users d). u_username u = username)"

text \<open>The actor is still an active administrator and holds the vault's key, after the KDF.\<close>

definition still_admin :: "auth_context \<Rightarrow> db \<Rightarrow> bool" where
  "still_admin actor d \<longleftrightarrow>
     (case (get_user d (user_of actor), vault d) of
        (Some u, Some v) \<Rightarrow> u_active u \<and> u_role u = Admin \<and> matches (ctx_key actor) (kc_key_check (v_cols v))
      | _ \<Rightarrow> False)"

definition new_user :: "auth_context \<Rightarrow> ustr \<Rightarrow> user_role \<Rightarrow> bytes option \<Rightarrow> key_material \<Rightarrow> user_row" where
  "new_user actor username role hash m = store_user_material m
     \<lparr>u_id = 0, u_username = username, u_role = role, u_active = True,
      u_must_change_password = (role \<noteq> Service),
      u_service_owner_id = (if role = Service then Some (user_of actor) else None),
      u_service_token_hash = hash, u_cols = material_columns m\<rparr>"

definition create_user ::
    "env \<Rightarrow> auth_context \<Rightarrow> ustr \<Rightarrow> user_role \<Rightarrow> ustr option \<Rightarrow> auth_draw \<Rightarrow> db \<Rightarrow> db \<Rightarrow>
       error + (auth_user \<times> ustr option) \<times> db" where
  "create_user E actor username role temporary_password w d\<^sub>0 d\<^sub>1 =
     andThen (require_admin actor) (\<lambda>_.
     andThen (ensure (\<not> username_taken username d\<^sub>0) InvalidRequest) (\<lambda>_.
     let credential = (if role = Service then Some (dr_service_token w) else None)
     in andThen (orElse (if role = Service then credential else temporary_password) InvalidRequest) (\<lambda>password.
     andThen (wrap_key_material (prims E) (dr_salt w) (dr_nonce w) password (ctx_key actor) DEFAULT_KDF) (\<lambda>m.
     andThen (ensure (still_admin actor d\<^sub>1) Forbidden) (\<lambda>_.
     andThen (ensure (\<not> username_taken username d\<^sub>1) InvalidRequest) (\<lambda>_.
     andThen (case credential of None \<Rightarrow> Inr None
              | Some t \<Rightarrow> andThen (token_digest (prims E) t) (\<lambda>b. Inr (Some b))) (\<lambda>hash.
     let u = new_user actor username role hash m
     in andThen (insert_user u d\<^sub>1) (\<lambda>(i, d\<^sub>2). Inr ((to_user (u\<lparr>u_id := i\<rparr>), credential), d\<^sub>2)))))))))"

definition list_users :: "auth_context \<Rightarrow> db \<Rightarrow> error + auth_user list" where
  "list_users actor d =
     andThen (require_admin actor) (\<lambda>_. Inr (map to_user (sort_key u_username (users d))))"

definition target :: "auth_context \<Rightarrow> nat \<Rightarrow> db \<Rightarrow> error + user_row" where
  "target actor uid d =
     andThen (require_admin actor) (\<lambda>_. orElse (get_user d uid) NotFound)"

definition active_admin :: "user_row \<Rightarrow> bool" where
  "active_admin u \<longleftrightarrow> u_active u \<and> u_role u = Admin"

definition update_user_check ::
    "auth_context \<Rightarrow> nat \<Rightarrow> user_role option \<Rightarrow> bool option \<Rightarrow> db \<Rightarrow> error + user_row" where
  "update_user_check actor uid role active d =
     andThen (target actor uid d) (\<lambda>u.
     let next_role = (case role of None \<Rightarrow> u_role u | Some r \<Rightarrow> r)
     in andThen (ensure ((u_role u = Service) = (next_role = Service)) Forbidden) (\<lambda>_.
        andThen (ensure (\<not> (u_active u \<and> u_role u = Admin \<and> (active = Some False \<or> next_role \<noteq> Admin))
            \<or> (\<exists>x \<in> set (users d). u_id x \<noteq> u_id u \<and> active_admin x)) Forbidden) (\<lambda>_.
        Inr (u\<lparr>u_role := next_role,
               u_active := (case active of None \<Rightarrow> u_active u | Some b \<Rightarrow> b)\<rparr>))))"

definition update_user ::
    "auth_context \<Rightarrow> nat \<Rightarrow> user_role option \<Rightarrow> bool option \<Rightarrow> db \<Rightarrow> vault_sessions \<Rightarrow> auth_user request" where
  "update_user actor uid role active d vs =
     (let q = plain vs (andThen (update_user_check actor uid role active d) (\<lambda>u.
            andThen (update_user_row u d) (\<lambda>d'. Inr (to_user u, d'))))
      in if role \<noteq> None \<or> active = Some False then after_commit (\<lambda>vs. snd (revoke_user uid vs)) q else q)"

definition revoke_user_sessions :: "auth_context \<Rightarrow> nat \<Rightarrow> db \<Rightarrow> vault_sessions \<Rightarrow> nat request" where
  "revoke_user_sessions actor uid d vs =
     after_commit (\<lambda>vs. snd (revoke_user uid vs))
       (plain vs (andThen (target actor uid d) (\<lambda>_.
          Inr (length (filter (\<lambda>i. i = uid) (user_ids vs)), d))))"

definition require_password_change :: "auth_context \<Rightarrow> nat \<Rightarrow> db \<Rightarrow> error + auth_user \<times> db" where
  "require_password_change actor uid d =
     andThen (target actor uid d) (\<lambda>u.
     andThen (ensure (u_role u \<noteq> Service) Forbidden) (\<lambda>_.
     let u' = u\<lparr>u_must_change_password := True\<rparr>
     in andThen (update_user_row u' d) (\<lambda>d'. Inr (to_user u', d'))))"

definition rotate_service_token ::
    "env \<Rightarrow> auth_context \<Rightarrow> nat \<Rightarrow> auth_draw \<Rightarrow> db \<Rightarrow> db \<Rightarrow> error + (auth_user \<times> ustr) \<times> db" where
  "rotate_service_token E actor uid w d\<^sub>0 d\<^sub>1 =
     andThen (target actor uid d\<^sub>0) (\<lambda>u\<^sub>0.
     andThen (ensure (u_role u\<^sub>0 = Service) Forbidden) (\<lambda>_.
     andThen (wrap_key_material (prims E) (dr_salt w) (dr_nonce w) (dr_service_token w) (ctx_key actor) DEFAULT_KDF)
       (\<lambda>m.
     andThen (ensure (still_admin actor d\<^sub>1) Forbidden) (\<lambda>_.
     andThen (orElse (get_user d\<^sub>1 uid) Forbidden) (\<lambda>u.
     andThen (ensure (u_role u = Service) Forbidden) (\<lambda>_.
     andThen (token_digest (prims E) (dr_service_token w)) (\<lambda>hash.
     let u' = (store_user_material m u)\<lparr>u_service_token_hash := Some hash\<rparr>
     in andThen (update_user_row u' d\<^sub>1) (\<lambda>d\<^sub>2. Inr ((to_user u', dr_service_token w), d\<^sub>2)))))))))"

text \<open>The vault row repeats the material of its primary owner.\<close>

definition sync_vault :: "key_material \<Rightarrow> nat \<Rightarrow> db \<Rightarrow> db" where
  "sync_vault m uid d =
     (case vault d of
        None \<Rightarrow> d
      | Some v \<Rightarrow> if v_owner_user_id v = Some uid then d\<lparr>vault := Some (store_vault m v)\<rparr> else d)"

definition reset_password_check ::
    "env \<Rightarrow> auth_context \<Rightarrow> nat \<Rightarrow> ustr \<Rightarrow> auth_draw \<Rightarrow> db \<Rightarrow> db \<Rightarrow> error + auth_user \<times> db" where
  "reset_password_check E actor uid temporary_password w d\<^sub>0 d\<^sub>1 =
     andThen (target actor uid d\<^sub>0) (\<lambda>u\<^sub>0.
     andThen (ensure (u_role u\<^sub>0 \<noteq> Service) Forbidden) (\<lambda>_.
     andThen (wrap_key_material (prims E) (dr_salt w) (dr_nonce w) temporary_password (ctx_key actor) DEFAULT_KDF)
       (\<lambda>m.
     andThen (ensure (still_admin actor d\<^sub>1) Forbidden) (\<lambda>_.
     andThen (orElse (get_user d\<^sub>1 uid) Forbidden) (\<lambda>u.
     andThen (ensure (u_role u \<noteq> Service) Forbidden) (\<lambda>_.
     let u' = (store_user_material m u)\<lparr>u_must_change_password := True\<rparr>
     in andThen (update_user_row u' d\<^sub>1) (\<lambda>d\<^sub>2. Inr (to_user u', sync_vault m uid d\<^sub>2))))))))"

definition reset_password ::
    "env \<Rightarrow> auth_context \<Rightarrow> nat \<Rightarrow> ustr \<Rightarrow> auth_draw \<Rightarrow> db \<Rightarrow> db \<Rightarrow> vault_sessions \<Rightarrow> auth_user request" where
  "reset_password E actor uid temporary_password w d\<^sub>0 d\<^sub>1 vs =
     after_commit (\<lambda>vs. snd (revoke_user uid vs))
       (plain vs (reset_password_check E actor uid temporary_password w d\<^sub>0 d\<^sub>1))"

definition delete_user_check :: "auth_context \<Rightarrow> nat \<Rightarrow> db \<Rightarrow> error + user_row" where
  "delete_user_check actor uid d =
     andThen (target actor uid d) (\<lambda>u.
     andThen (ensure (u_id u \<noteq> user_of actor) Forbidden) (\<lambda>_.
     andThen (ensure (case vault d of None \<Rightarrow> True | Some v \<Rightarrow> v_owner_user_id v \<noteq> Some (u_id u)) Forbidden) (\<lambda>_.
     andThen (ensure (\<forall>e \<in> set (entries d). e_owner_id e \<noteq> Some (u_id u)) Forbidden) (\<lambda>_.
     andThen (ensure (\<forall>f \<in> set (folders d). f_owner_id f \<noteq> u_id u) Forbidden) (\<lambda>_.
     andThen (ensure (\<forall>x \<in> set (users d). u_service_owner_id x \<noteq> Some (u_id u)) Forbidden) (\<lambda>_.
     Inr u))))))"

definition delete_user :: "auth_context \<Rightarrow> nat \<Rightarrow> db \<Rightarrow> vault_sessions \<Rightarrow> unit request" where
  "delete_user actor uid d vs =
     after_commit (\<lambda>vs. snd (revoke_user uid vs))
       (plain vs (andThen (delete_user_check actor uid d) (\<lambda>u.
          andThen (delete_user_row (u_id u)
            (d\<lparr>entry_access := filter (\<lambda>r. ea_user_id r \<noteq> u_id u) (entry_access d)\<rparr>)) (\<lambda>d'.
          Inr ((), d')))))"

section \<open>One's own password\<close>

text \<open>
  The password still opens the account's material, to the session's key, and after the KDF the
  account and the vault are still what they were.
\<close>

definition own_password_opens :: "env \<Rightarrow> auth_context \<Rightarrow> ustr \<Rightarrow> key_material \<Rightarrow> error + unit" where
  "own_password_opens E c password observed =
     andThen (open_material (prims E) password observed) (\<lambda>opened.
     ensure (case opened of None \<Rightarrow> False | Some k \<Rightarrow> matches k (Good (vk_check (ctx_key c)))) Forbidden)"

definition still_current :: "auth_context \<Rightarrow> key_material \<Rightarrow> db \<Rightarrow> error + user_row \<times> vault_row" where
  "still_current c observed d =
     andThen (case vault d of None \<Rightarrow> Inr None | Some v \<Rightarrow>
       andThen (validate_vault_material v d) (\<lambda>m. Inr (Some (v, m)))) (\<lambda>canonical.
     andThen (orElse (get_user d (user_of c)) SessionRequired) (\<lambda>u.
     andThen (ensure (u_active u) SessionRequired) (\<lambda>_.
     andThen (user_key_material u) (\<lambda>m.
     andThen (ensure (m = observed) SessionRequired) (\<lambda>_.
     andThen (orElse canonical SessionRequired) (\<lambda>(v, m').
     andThen (ensure (matches (ctx_key c) (Good (km_key_check m'))) SessionRequired) (\<lambda>_.
     Inr (u, v))))))))"

definition change_password_check ::
    "env \<Rightarrow> auth_context \<Rightarrow> ustr \<Rightarrow> ustr \<Rightarrow> auth_draw \<Rightarrow> db \<Rightarrow> error + user_row \<times> db" where
  "change_password_check E c current_password new_password w d\<^sub>1 =
     andThen (ensure (u_role (ctx_user c) \<noteq> Service) Forbidden) (\<lambda>_.
     andThen (user_key_material (ctx_user c)) (\<lambda>observed.
     andThen (own_password_opens E c current_password observed) (\<lambda>_.
     andThen (ensure (new_password \<noteq> current_password) InvalidRequest) (\<lambda>_.
     andThen (wrap_key_material (prims E) (dr_salt w) (dr_nonce w) new_password (ctx_key c) DEFAULT_KDF) (\<lambda>m.
     andThen (still_current c observed d\<^sub>1) (\<lambda>(u, v).
     let u' = (store_user_material m u)\<lparr>u_must_change_password := False\<rparr>
     in andThen (update_user_row u' d\<^sub>1) (\<lambda>d\<^sub>2. Inr (u', sync_vault m (u_id u) d\<^sub>2))))))))"

definition change_password ::
    "env \<Rightarrow> settings_row \<Rightarrow> auth_context \<Rightarrow> ustr \<Rightarrow> ustr \<Rightarrow> bool \<Rightarrow> auth_draw \<Rightarrow> db \<Rightarrow> vault_sessions \<Rightarrow>
       auth_response request" where
  "change_password E defaults c current_password new_password opens w d\<^sub>1 vs =
     (case change_password_check E c current_password new_password w d\<^sub>1 of
        Inl e \<Rightarrow> plain vs (Inl e)
      | Inr (u, d\<^sub>2) \<Rightarrow>
          let vs\<^sub>1 = refresh_timeout defaults (dr_refresh_at w) d\<^sub>2 vs
          in if \<not> opens
             then after_commit (\<lambda>vs. snd (revoke_user (user_of c) vs))
               (plain vs\<^sub>1 (Inr (\<lparr>ar_valid = True, ar_user = None, ar_session_token = None,
                 ar_idle_timeout_ms = None\<rparr>, d\<^sub>2)))
             else after_commit (\<lambda>vs. case revoke_user_except (prims E) (user_of c) (dr_token w) vs of
                 Inl e \<Rightarrow> vs | Inr (_, vs') \<Rightarrow> vs')
               (open_user_session E u (ctx_key c) w d\<^sub>2 vs\<^sub>1))"

definition verify_current_password :: "env \<Rightarrow> auth_context \<Rightarrow> ustr \<Rightarrow> db \<Rightarrow> error + unit" where
  "verify_current_password E c current_password d\<^sub>1 =
     andThen (user_key_material (ctx_user c)) (\<lambda>observed.
     andThen (own_password_opens E c current_password observed) (\<lambda>_.
     andThen (still_current c observed d\<^sub>1) (\<lambda>_. Inr ())))"

section \<open>Service tokens\<close>

definition resolve_service_token ::
    "env \<Rightarrow> ustr \<Rightarrow> db \<Rightarrow> db \<Rightarrow> error + auth_context" where
  "resolve_service_token E token d\<^sub>0 d\<^sub>1 =
     andThen (token_digest (prims E) token) (\<lambda>hash.
     andThen (orElse (find (\<lambda>u. u_service_token_hash u = Some hash \<and> u_role u = Service \<and> u_active u) (users d\<^sub>0))
       SessionRequired) (\<lambda>u\<^sub>0.
     andThen (user_key_material u\<^sub>0) (\<lambda>observed.
     andThen (orElse (vault d\<^sub>0) SessionRequired) (\<lambda>v\<^sub>0.
     andThen (vault_key_material v\<^sub>0) (\<lambda>_.
     andThen (open_material (prims E) token observed) (\<lambda>opened.
     andThen (case vault d\<^sub>1 of None \<Rightarrow> Inr None | Some v \<Rightarrow>
       andThen (validate_vault_material v d\<^sub>1) (\<lambda>m. Inr (Some m))) (\<lambda>canonical.
     andThen (orElse opened SessionRequired) (\<lambda>key.
     andThen (orElse (get_user d\<^sub>1 (u_id u\<^sub>0)) SessionRequired) (\<lambda>u.
     andThen (ensure (u_active u \<and> u_role u = Service) SessionRequired) (\<lambda>_.
     andThen (user_key_material u) (\<lambda>m.
     andThen (ensure (m = observed) SessionRequired) (\<lambda>_.
     andThen (orElse canonical SessionRequired) (\<lambda>m'.
     andThen (ensure (matches key (Good (km_key_check m'))) SessionRequired) (\<lambda>_.
     Inr \<lparr>ctx_user = u, ctx_key = key, ctx_token = None\<rparr>))))))))))))))"

section \<open>Accounts as a state machine\<close>

text \<open>
  The account operations that change the database, each as a step from the database it reads after
  its KDF to the one it commits; the database before the KDF is any. The context that deletes an
  account was read in the same transaction, and a vault key is always one the constructor built.
\<close>

definition genuine :: "env \<Rightarrow> vault_key \<Rightarrow> bool" where
  "genuine E k \<longleftrightarrow> VaultKey (prims E) (vk_raw k) = Inr k"

definition draw_ok :: "auth_draw \<Rightarrow> bool" where
  "draw_ok w \<longleftrightarrow> length (dr_salt w) = 16 \<and> length (dr_raw w) = KEY_BYTES \<and> length (dr_nonce w) = NONCE_BYTES"

datatype account_action = Bootstrapped | LoggedIn | Created | Updated | ChangeRequired | Rotated
  | WasReset | Deleted | Changed

inductive account_step :: "env \<Rightarrow> db \<Rightarrow> account_action \<Rightarrow> db \<Rightarrow> bool" for E where
  step_bootstrap: "draw_ok w \<Longrightarrow> rq_result (bootstrap E defaults username password w d\<^sub>0 d vs) = Inr (r, d') \<Longrightarrow>
    account_step E d Bootstrapped d'"
| step_login: "rq_result (login E defaults username password w d\<^sub>0 d vs) = Inr (r, d') \<Longrightarrow>
    account_step E d LoggedIn d'"
| step_create: "draw_ok w \<Longrightarrow> genuine E (ctx_key actor) \<Longrightarrow>
    create_user E actor username role temporary_password w d\<^sub>0 d = Inr (r, d') \<Longrightarrow> account_step E d Created d'"
| step_update: "rq_result (update_user actor uid role active d vs) = Inr (r, d') \<Longrightarrow> account_step E d Updated d'"
| step_require: "require_password_change actor uid d = Inr (r, d') \<Longrightarrow> account_step E d ChangeRequired d'"
| step_rotate: "draw_ok w \<Longrightarrow> genuine E (ctx_key actor) \<Longrightarrow>
    rotate_service_token E actor uid w d\<^sub>0 d = Inr (r, d') \<Longrightarrow> account_step E d Rotated d'"
| step_reset: "draw_ok w \<Longrightarrow> genuine E (ctx_key actor) \<Longrightarrow>
    rq_result (reset_password E actor uid temporary_password w d\<^sub>0 d vs) = Inr (r, d') \<Longrightarrow>
    account_step E d WasReset d'"
| step_delete: "get_user d (user_of actor) = Some (ctx_user actor) \<Longrightarrow>
    rq_result (delete_user actor uid d vs) = Inr (u, d') \<Longrightarrow> account_step E d Deleted d'"
| step_change: "draw_ok w \<Longrightarrow> genuine E (ctx_key c) \<Longrightarrow>
    rq_result (change_password E defaults c current_password new_password opens w d vs) = Inr (r, d') \<Longrightarrow>
    account_step E d Changed d'"

text \<open>
  What holds of every vault with accounts: one primary owner, a human account whose key material is
  exactly the vault's and is readable; every account wraps the same vault key; exactly the service
  accounts have token hashes, and each belongs to an account that exists; at least one active
  administrator remains.
\<close>

definition account_ok :: "db \<Rightarrow> vault_row \<Rightarrow> user_row \<Rightarrow> bool" where
  "account_ok d v u \<longleftrightarrow> kc_key_check (u_cols u) = kc_key_check (v_cols v)
     \<and> (u_service_token_hash u \<noteq> None \<longleftrightarrow> u_role u = Service)
     \<and> (u_role u = Service \<longrightarrow> (\<exists>j. u_service_owner_id u = Some j \<and> j \<in> u_id ` set (users d)))"

definition owner_ok :: "db \<Rightarrow> vault_row \<Rightarrow> bool" where
  "owner_ok d v \<longleftrightarrow> (\<exists>i u. v_owner_user_id v = Some i \<and> get_user d i = Some u \<and> u_role u \<noteq> Service
     \<and> is_ok (vault_key_material v) \<and> user_key_material u = vault_key_material v)"

definition user_keys_ok :: "db \<Rightarrow> bool" where
  "user_keys_ok d \<longleftrightarrow> distinct (map u_id (users d)) \<and> (\<forall>u \<in> set (users d). u_id u \<le> seq_users d)
     \<and> users_unique (users d)"

definition accounts_ok :: "db \<Rightarrow> bool" where
  "accounts_ok d \<longleftrightarrow> user_keys_ok d \<and> (users d = [] \<or>
     (\<exists>v. vault d = Some v \<and> owner_ok d v \<and> (\<forall>u \<in> set (users d). account_ok d v u)
        \<and> (\<exists>u \<in> set (users d). active_admin u)))"

section \<open>Lemmas\<close>

lemma insert_user_Inr:
  "insert_user u d = Inr (i, d') \<longleftrightarrow> i = Suc (seq_users d) \<and> users_unique (users d @ [u\<lparr>u_id := i\<rparr>])
     \<and> d' = d\<lparr>users := users d @ [u\<lparr>u_id := i\<rparr>], seq_users := i\<rparr>"
  by (auto simp: insert_user_def Let_def result_simps)

lemma update_user_row_Inr:
  "update_user_row u d = Inr d' \<longleftrightarrow> users_unique (set_row u_id u (users d))
     \<and> d' = d\<lparr>users := set_row u_id u (users d)\<rparr>"
  by (auto simp: update_user_row_def Let_def result_simps)

lemma folder_for_accounts:
  "folder_for E key random owner name d = Inr (i, d') \<Longrightarrow>
     users d' = users d \<and> seq_users d' = seq_users d \<and> vault d' = vault d"
  by (auto simp: folder_for_def insert_folder_def Let_def result_simps split: option.splits)

lemma update_entry_accounts:
  "update_entry now e d = Inr d' \<Longrightarrow> users d' = users d \<and> seq_users d' = seq_users d \<and> vault d' = vault d"
  by (auto simp: update_entry_def Let_def result_simps split: if_splits)

lemma migrate_entry_accounts:
  assumes "migrate_entry E key draw e d = Inr d'"
  shows "users d' = users d \<and> seq_users d' = seq_users d \<and> vault d' = vault d"
  using assms
  by (auto simp: migrate_entry_def result_simps split: if_splits
      dest!: folder_for_accounts update_entry_accounts)

lemma migrate_accounts:
  assumes "migrate_folder_links E key draw d = Inr d'"
  shows "users d' = users d" and "seq_users d' = seq_users d"
    and "vault d' = vault d \<or> (\<exists>v. vault d = Some v \<and> vault d' = Some (v\<lparr>v_folder_links_ready := True\<rparr>))"
proof -
  have "users d1 = users d \<and> seq_users d1 = seq_users d \<and> vault d1 = vault d"
    if "fold_res (migrate_entry E key draw) es d = Inr d1" for es d1
    using that by (rule fold_res_invariant) (auto dest!: migrate_entry_accounts)
  with assms show "users d' = users d" "seq_users d' = seq_users d"
      "vault d' = vault d \<or> (\<exists>v. vault d = Some v \<and> vault d' = Some (v\<lparr>v_folder_links_ready := True\<rparr>))"
    by (auto simp: migrate_folder_links_def result_simps split: option.splits if_splits)
qed

lemma open_session_idle [simp]:
  "vs_idle_timeout_ms (open_session P k i fp token now vs) = vs_idle_timeout_ms vs"
  by (simp add: open_session_def drop_expired_def)

lemma open_user_session_Inr:
  "rq_result (open_user_session E u key w d vs) = Inr (r, d') \<longleftrightarrow>
     (\<exists>fp. credential_fingerprint (prims E) u = Inr fp \<and> d' = d
       \<and> r = \<lparr>ar_valid = True, ar_user = Some (to_user u), ar_session_token = Some (dr_token w),
              ar_idle_timeout_ms = Some (vs_idle_timeout_ms vs)\<rparr>)"
  by (cases "credential_fingerprint (prims E) u") (auto simp: open_user_session_def Let_def)

lemma enter_Inr:
  "rq_result (enter E defaults u key w d vs) = Inr (r, d') \<Longrightarrow>
     migrate_folder_links E key (dr_migration w) d = Inr d' \<and> ar_valid r"
  by (auto simp: enter_def open_user_session_Inr split: sum.splits)

text \<open>Key material that wraps a genuine key is stored readably and opens to that key.\<close>

lemma wrapped_material:
  assumes "env_ok E" and "draw_ok w" and "genuine E k"
    and "wrap_key_material (prims E) (dr_salt w) (dr_nonce w) password k q = Inr m"
  shows "columns_material (material_columns m) = Inr m" and "km_key_check m = vk_check k"
    and "open_material (prims E) password m = Inr (Some k)"
proof -
  note P = env_ok_def [THEN iffD1, OF assms(1), THEN conjunct1]
  have "create_key_material (prims E) (dr_salt w) (vk_raw k) (dr_nonce w) password q = Inr (m, k)"
    using assms(3,4) by (auto simp: wrap_key_material_def create_key_material_def genuine_def result_simps)
  from created_material_stored [OF P _ _ this] assms(2)
  show "columns_material (material_columns m) = Inr m" "km_key_check m = vk_check k"
      "open_material (prims E) password m = Inr (Some k)"
    by (auto simp: draw_ok_def)
qed

text \<open>The invariant when one account row is replaced, when one is added, and when one is deleted.\<close>

lemma accounts_okE:
  assumes "accounts_ok d" and "get_user d i = Some u"
  obtains v where "vault d = Some v" and "owner_ok d v" and "\<And>x. x \<in> set (users d) \<Longrightarrow> account_ok d v x"
    and "\<exists>x \<in> set (users d). active_admin x" and "account_ok d v u" and "u \<in> set (users d)"
  using assms row_of_Some [of u_id i "users d" u]
  by (auto simp: accounts_ok_def get_user_def)

lemma admin_kept:
  assumes "\<exists>x \<in> set (users d). active_admin x" and "get_user d (u_id u') = Some u" and "user_keys_ok d"
    and "active_admin u \<Longrightarrow> active_admin u'"
  shows "\<exists>x \<in> set (set_row u_id u' (users d)). active_admin x"
proof -
  from assms(1) obtain x where x: "x \<in> set (users d)" "active_admin x" by blast
  have "u_id x = u_id u' \<Longrightarrow> x = u"
    using x(1) assms(2,3) row_of_in_set [of u_id "users d" x] by (auto simp: get_user_def user_keys_ok_def)
  moreover have "u_id u' \<in> u_id ` set (users d)"
    using assms(2) row_of_None [of u_id "u_id u'" "users d"] by (simp add: get_user_def)
  ultimately show ?thesis using x assms(4) by (auto simp: set_set_row)
qed

lemma accounts_replace:
  assumes "accounts_ok d" and "get_user d (u_id u') = Some u" and "vault d = Some v"
    and d': "users d' = set_row u_id u' (users d)" "seq_users d' = seq_users d" "users_unique (users d')"
      "vault d' = Some v'"
    and v': "v_owner_user_id v' = v_owner_user_id v" "kc_key_check (v_cols v') = kc_key_check (v_cols v)"
    and u': "kc_key_check (u_cols u') = kc_key_check (v_cols v)"
      "u_role u' = Service \<longleftrightarrow> u_role u = Service" "u_service_token_hash u' \<noteq> None \<longleftrightarrow> u_service_token_hash u \<noteq> None"
      "u_service_owner_id u' = u_service_owner_id u"
    and sync: "v_owner_user_id v = Some (u_id u') \<Longrightarrow> is_ok (vault_key_material v') \<and> user_key_material u' = vault_key_material v'"
      "v_owner_user_id v \<noteq> Some (u_id u') \<Longrightarrow> vault_key_material v' = vault_key_material v"
    and admin: "active_admin u \<Longrightarrow> \<not> active_admin u' \<Longrightarrow> \<exists>x \<in> set (users d). u_id x \<noteq> u_id u' \<and> active_admin x"
  shows "accounts_ok d'"
proof -
  from accounts_okE [OF assms(1,2)] assms(3) have owner: "owner_ok d v"
    and all: "\<And>x. x \<in> set (users d) \<Longrightarrow> account_ok d v x" and some: "\<exists>x \<in> set (users d). active_admin x"
    and old: "account_ok d v u" and mem: "u \<in> set (users d)" by auto
  have keys: "user_keys_ok d" using assms(1) by (simp add: accounts_ok_def)
  have ids: "u_id ` set (users d') = u_id ` set (users d)"
    using keys_set_row [of u_id u' "users d"] by (metis d'(1) list.set_map)
  have id: "u_id u = u_id u'" using assms(2) by (auto simp: get_user_def dest!: row_of_Some)
  have get: "get_user d' = (get_user d)(u_id u' \<mapsto> u')"
    using assms(2) by (auto simp: get_user_def d'(1) row_simps fun_eq_iff)
  have "user_keys_ok d'"
    using keys d' mem id by (auto simp: user_keys_ok_def set_set_row)
  moreover have "owner_ok d' v'"
    using owner v'(1) sync u'(2) assms(2) unfolding owner_ok_def get by (auto split: if_splits)
  moreover have "account_ok d' v' x" if "x \<in> set (users d')" for x
  proof (cases "x = u'")
    case True
    with old u' v'(2) show ?thesis by (simp add: account_ok_def ids)
  next
    case False
    with that all have "account_ok d v x" by (auto simp: d'(1) set_set_row split: if_splits)
    with v'(2) show ?thesis by (simp add: account_ok_def ids)
  qed
  moreover have "\<exists>x \<in> set (users d'). active_admin x"
  proof (cases "active_admin u \<longrightarrow> active_admin u'")
    case True
    with admin_kept [OF some assms(2) keys] show ?thesis unfolding d'(1) by blast
  next
    case False
    with admin show ?thesis by (auto simp: d'(1) set_set_row)
  qed
  ultimately show ?thesis using d'(4) by (auto simp: accounts_ok_def)
qed

lemma accounts_insert:
  assumes "accounts_ok d" and "vault d = Some v" and "get_user d j = Some a"
    and "insert_user u d = Inr (i, d')" and "kc_key_check (u_cols u) = kc_key_check (v_cols v)"
    and "u_service_token_hash u \<noteq> None \<longleftrightarrow> u_role u = Service"
    and "u_role u = Service \<Longrightarrow> u_service_owner_id u = Some j"
  shows "accounts_ok d'"
proof -
  from accounts_okE [OF assms(1,3)] assms(2) have owner: "owner_ok d v"
    and all: "\<And>x. x \<in> set (users d) \<Longrightarrow> account_ok d v x" and some: "\<exists>x \<in> set (users d). active_admin x"
    and mem: "a \<in> set (users d)" by auto
  from assms(4) have d': "i = Suc (seq_users d)" "users_unique (users d @ [u\<lparr>u_id := i\<rparr>])"
    "d' = d\<lparr>users := users d @ [u\<lparr>u_id := i\<rparr>], seq_users := i\<rparr>" unfolding insert_user_Inr by blast+
  have keys: "user_keys_ok d" using assms(1) by (simp add: accounts_ok_def)
  have id: "u_id a = j" using assms(3) by (auto simp: get_user_def dest!: row_of_Some)
  have "user_keys_ok d'"
    using keys d' by (auto simp: user_keys_ok_def)
  moreover have "owner_ok d' v"
    using owner by (auto simp: owner_ok_def d'(3) get_user_def row_simps)
  moreover have "account_ok d' v x" if "x \<in> set (users d')" for x
  proof (cases "x \<in> set (users d)")
    case True
    from all [OF this] show ?thesis by (auto simp: d'(3) account_ok_def)
  next
    case False
    with that assms(5-7) mem id show ?thesis by (auto simp: d'(3) account_ok_def)
  qed
  moreover have "\<exists>x \<in> set (users d'). active_admin x" using some by (auto simp: d'(3))
  ultimately show ?thesis using assms(2) d'(3) by (auto simp: accounts_ok_def)
qed

lemma users_unique_filter: "users_unique rows \<Longrightarrow> users_unique (filter Q rows)"
proof -
  let ?some = "\<lambda>u. u_service_token_hash u \<noteq> None"
  assume "users_unique rows"
  moreover have "filter ?some (filter Q rows) = filter Q (filter ?some rows)"
    by (simp add: conj_commute)
  ultimately show ?thesis unfolding users_unique_def by (metis distinct_map_filter)
qed

lemma accounts_delete:
  assumes "accounts_ok d" and "delete_user_check actor uid d = Inr u"
    and "get_user d (user_of actor) = Some (ctx_user actor)"
    and d': "users d' = del_row u_id (u_id u) (users d)" "seq_users d' = seq_users d" "vault d' = vault d"
  shows "accounts_ok d'"
proof -
  from assms(2) obtain v where u: "get_user d uid = Some u" "u_id u \<noteq> user_of actor"
      "active_admin (ctx_user actor)" "\<forall>x \<in> set (users d). u_service_owner_id x \<noteq> Some (u_id u)"
    and primary: "\<And>v. vault d = Some v \<Longrightarrow> v_owner_user_id v \<noteq> Some (u_id u)"
    by (auto simp: delete_user_check_def target_def require_admin_def is_admin_def active_admin_def result_simps
        split: option.splits)
  from accounts_okE [OF assms(1) u(1)] obtain v where v: "vault d = Some v" "owner_ok d v"
    "\<And>x. x \<in> set (users d) \<Longrightarrow> account_ok d v x" by blast
  have keys: "user_keys_ok d" using assms(1) by (simp add: accounts_ok_def)
  have "user_keys_ok d'"
    using keys d' users_unique_filter [of "users d"]
    by (auto simp: user_keys_ok_def distinct_del_row set_del_row) (simp add: del_row_def)
  moreover have "owner_ok d' v"
    using v(2) primary [OF v(1)] by (auto simp: owner_ok_def d'(1) get_user_def row_simps)
  moreover have "account_ok d' v x" if "x \<in> set (users d')" for x
    using that v(3) [of x] u(4) by (fastforce simp: d'(1) set_del_row account_ok_def)
  moreover have "\<exists>x \<in> set (users d'). active_admin x"
    using assms(3) u(2,3) by (auto simp: d'(1) set_del_row get_user_def dest!: row_of_Some)
  ultimately show ?thesis using v(1) d'(3) by (auto simp: accounts_ok_def)
qed

text \<open>Each step keeps the invariant.\<close>

lemma sync_vault_fields [simp]: "users (sync_vault m i d) = users d" "seq_users (sync_vault m i d) = seq_users d"
  by (auto simp: sync_vault_def split: option.splits)

lemma get_user_id: "get_user d i = Some u \<Longrightarrow> u_id u = i"
  by (auto simp: get_user_def dest!: row_of_Some)

text \<open>New material for one account, with the vault row following its owner.\<close>

lemma accounts_rewrap:
  assumes "env_ok E" and "draw_ok w" and "genuine E k"
    and "wrap_key_material (prims E) (dr_salt w) (dr_nonce w) password k q = Inr m"
    and "accounts_ok d" and "get_user d (u_id u') = Some u" and "vault d = Some v"
    and "kc_key_check (v_cols v) = Good (vk_check k)"
    and "update_user_row u' d = Inr d'" and "u_cols u' = material_columns m"
    and "u_role u' = u_role u" "u_active u' = u_active u" "u_service_owner_id u' = u_service_owner_id u"
    and "u_service_token_hash u' \<noteq> None \<longleftrightarrow> u_service_token_hash u \<noteq> None"
  shows "accounts_ok (sync_vault m (u_id u') d')"
proof -
  note m = wrapped_material [OF assms(1-4)]
  from assms(9) have d': "users_unique (set_row u_id u' (users d))" "d' = d\<lparr>users := set_row u_id u' (users d)\<rparr>"
    unfolding update_user_row_Inr by blast+
  let ?v = "if v_owner_user_id v = Some (u_id u') then store_vault m v else v"
  show ?thesis
  proof (rule accounts_replace [where v' = ?v, OF assms(5,6,7)])
    show "vault (sync_vault m (u_id u') d') = Some ?v" using assms(7) d'(2) by (simp add: sync_vault_def)
    show "kc_key_check (v_cols ?v) = kc_key_check (v_cols v)" "kc_key_check (u_cols u') = kc_key_check (v_cols v)"
      using assms(8,10) m(2) by (simp_all add: store_vault_def material_columns_def)
    show "v_owner_user_id v = Some (u_id u') \<Longrightarrow> is_ok (vault_key_material ?v) \<and> user_key_material u' = vault_key_material ?v"
      using m(1) assms(10) by (simp add: store_vault_def vault_key_material_def user_key_material_def)
  qed (use d' assms(11-14) in \<open>simp_all add: store_vault_def active_admin_def\<close>)
qed

lemma still_adminD:
  assumes "still_admin actor d"
  obtains a v where "get_user d (user_of actor) = Some a" and "vault d = Some v" and "active_admin a"
    and "kc_key_check (v_cols v) = Good (vk_check (ctx_key actor))"
  using assms by (auto simp: still_admin_def matches_def active_admin_def split: option.splits cell.splits)

lemma create_user_Inr:
  assumes "create_user E actor username role temporary_password w d\<^sub>0 d = Inr (r, d')"
  obtains password m hash i where
    "password = (if role = Service then dr_service_token w else the temporary_password)"
    "wrap_key_material (prims E) (dr_salt w) (dr_nonce w) password (ctx_key actor) DEFAULT_KDF = Inr m"
    "still_admin actor d" "hash \<noteq> None \<longleftrightarrow> role = Service" "\<not> username_taken username d"
    "role \<noteq> Service \<Longrightarrow> temporary_password \<noteq> None"
    "role = Service \<Longrightarrow> token_digest (prims E) password = Inr (the hash)"
    "insert_user (new_user actor username role hash m) d = Inr (i, d')"
    "fst r = to_user ((new_user actor username role hash m)\<lparr>u_id := i\<rparr>)"
proof (cases "role = Service")
  case True
  with assms show thesis unfolding create_user_def Let_def
    by (auto simp: result_simps intro: that [of _ _ "Some _"])
next
  case False
  with assms show thesis unfolding create_user_def Let_def by (auto simp: result_simps intro: that)
qed

lemma create_user_accounts:
  assumes "env_ok E" and "draw_ok w" and "genuine E (ctx_key actor)" and "accounts_ok d"
    and "create_user E actor username role temporary_password w d\<^sub>0 d = Inr (r, d')"
  shows "accounts_ok d'"
proof -
  from create_user_Inr [OF assms(5)] obtain password m hash i where
    m: "wrap_key_material (prims E) (dr_salt w) (dr_nonce w) password (ctx_key actor) DEFAULT_KDF = Inr m" and
    admin: "still_admin actor d" and hash: "hash \<noteq> None \<longleftrightarrow> role = Service" and
    i: "insert_user (new_user actor username role hash m) d = Inr (i, d')" by metis
  from still_adminD [OF admin] obtain a v where a: "get_user d (user_of actor) = Some a" and v: "vault d = Some v"
    and k: "kc_key_check (v_cols v) = Good (vk_check (ctx_key actor))" by blast
  show ?thesis
    using accounts_insert [OF assms(4) v a i] hash k wrapped_material(2) [OF assms(1-3) m]
    by (simp add: material_columns_def new_user_def store_user_material_def)
qed

lemma update_user_accounts:
  assumes "accounts_ok d" and "update_user_check actor uid role active d = Inr u'"
    and "update_user_row u' d = Inr d'"
  shows "accounts_ok d'"
proof -
  let ?role = "\<lambda>u. case role of None \<Rightarrow> u_role u | Some r \<Rightarrow> r"
  let ?active = "\<lambda>u. case active of None \<Rightarrow> u_active u | Some b \<Rightarrow> b"
  from assms(2) obtain u where u: "get_user d uid = Some u"
    and same: "(u_role u = Service) = (?role u = Service)"
    and keeps: "\<not> (u_active u \<and> u_role u = Admin \<and> (active = Some False \<or> ?role u \<noteq> Admin))
        \<or> (\<exists>x \<in> set (users d). u_id x \<noteq> u_id u \<and> active_admin x)"
    and new: "u' = u\<lparr>u_role := ?role u, u_active := ?active u\<rparr>"
    unfolding update_user_check_def target_def Let_def result_simps by blast
  have u': "u_id u' = u_id u" "u_role u' = Service \<longleftrightarrow> u_role u = Service" "u_cols u' = u_cols u"
      "u_service_token_hash u' = u_service_token_hash u" "u_service_owner_id u' = u_service_owner_id u"
    using same by (simp_all add: new)
  have admin: "active_admin u \<longrightarrow> active_admin u' \<or> (\<exists>x \<in> set (users d). u_id x \<noteq> u_id u' \<and> active_admin x)"
    using keeps by (cases active) (auto simp: new active_admin_def)
  from accounts_okE [OF assms(1) u] obtain v where v: "vault d = Some v" "owner_ok d v" "account_ok d v u" by blast
  from assms(3) have d': "users_unique (set_row u_id u' (users d))" "d' = d\<lparr>users := set_row u_id u' (users d)\<rparr>"
    unfolding update_user_row_Inr by blast+
  have u'': "get_user d (u_id u') = Some u" using u u'(1) get_user_id [OF u] by simp
  show ?thesis
  proof (rule accounts_replace [where v' = v, OF assms(1) u'' v(1)])
    show "is_ok (vault_key_material v) \<and> user_key_material u' = vault_key_material v" if "v_owner_user_id v = Some (u_id u')"
      using that v(2) u'' u'(3) by (auto simp: owner_ok_def user_key_material_def)
  qed (use d' v u' admin in \<open>auto simp: account_ok_def\<close>)
qed

lemma require_password_change_accounts:
  assumes "accounts_ok d" and "require_password_change actor uid d = Inr (r, d')"
  shows "accounts_ok d'"
proof -
  from assms(2) obtain u where u: "get_user d uid = Some u"
    and d'': "update_user_row (u\<lparr>u_must_change_password := True\<rparr>) d = Inr d'"
    unfolding require_password_change_def target_def Let_def by (auto simp: result_simps)
  let ?u = "u\<lparr>u_must_change_password := True\<rparr>"
  from accounts_okE [OF assms(1) u] obtain v where v: "vault d = Some v" "owner_ok d v" "account_ok d v u" by blast
  from d'' have d': "users_unique (set_row u_id ?u (users d))" "d' = d\<lparr>users := set_row u_id ?u (users d)\<rparr>"
    unfolding update_user_row_Inr by blast+
  have u'': "get_user d (u_id ?u) = Some u" using u get_user_id [OF u] by simp
  show ?thesis
  proof (rule accounts_replace [where v' = v, OF assms(1) u'' v(1)])
    show "is_ok (vault_key_material v) \<and> user_key_material ?u = vault_key_material v" if "v_owner_user_id v = Some (u_id ?u)"
      using that v(2) u'' by (auto simp: owner_ok_def user_key_material_def)
  qed (use d' v in \<open>auto simp: account_ok_def active_admin_def\<close>)
qed

lemma rotate_service_token_accounts:
  assumes "env_ok E" and "draw_ok w" and "genuine E (ctx_key actor)" and "accounts_ok d"
    and "rotate_service_token E actor uid w d\<^sub>0 d = Inr (r, d')"
  shows "accounts_ok d'"
proof -
  from assms(5) obtain m u hash where
    m: "wrap_key_material (prims E) (dr_salt w) (dr_nonce w) (dr_service_token w) (ctx_key actor) DEFAULT_KDF = Inr m" and
    admin: "still_admin actor d" and u: "get_user d uid = Some u" "u_role u = Service" and
    d': "update_user_row ((store_user_material m u)\<lparr>u_service_token_hash := Some hash\<rparr>) d = Inr d'"
    unfolding rotate_service_token_def Let_def by (auto simp: result_simps)
  from still_adminD [OF admin] obtain v where v: "vault d = Some v"
    and k: "kc_key_check (v_cols v) = Good (vk_check (ctx_key actor))" by blast
  from accounts_okE [OF assms(4) u(1)] v have ok: "owner_ok d v" "account_ok d v u" by auto
  have "v_owner_user_id v \<noteq> Some (u_id u)"
    using ok(1) u get_user_id [OF u(1)] by (auto simp: owner_ok_def)
  with d' v have "sync_vault m (u_id u) d' = d'" by (auto simp: sync_vault_def update_user_row_Inr)
  moreover have "get_user d (u_id u) = Some u" using u get_user_id [OF u(1)] by simp
  ultimately show ?thesis
    using accounts_rewrap [OF assms(1-3) m assms(4) _ v k d'] ok(2) u(2)
    by (auto simp: store_user_material_def account_ok_def)
qed

lemma reset_password_accounts:
  assumes "env_ok E" and "draw_ok w" and "genuine E (ctx_key actor)" and "accounts_ok d"
    and "reset_password_check E actor uid temporary_password w d\<^sub>0 d = Inr (r, d')"
  shows "accounts_ok d'"
proof -
  from assms(5) obtain m u d\<^sub>2 where
    m: "wrap_key_material (prims E) (dr_salt w) (dr_nonce w) temporary_password (ctx_key actor) DEFAULT_KDF = Inr m" and
    admin: "still_admin actor d" and u: "get_user d uid = Some u" and
    d\<^sub>2: "update_user_row ((store_user_material m u)\<lparr>u_must_change_password := True\<rparr>) d = Inr d\<^sub>2" and
    d': "d' = sync_vault m uid d\<^sub>2"
    unfolding reset_password_check_def Let_def by (auto simp: result_simps)
  from still_adminD [OF admin] obtain v where v: "vault d = Some v"
    and k: "kc_key_check (v_cols v) = Good (vk_check (ctx_key actor))" by blast
  show ?thesis
    using accounts_rewrap [OF assms(1-3) m assms(4) _ v k d\<^sub>2] u d' get_user_id [OF u]
    by (auto simp: store_user_material_def)
qed

lemma columns_material_check: "columns_material k = Inr m \<Longrightarrow> kc_key_check k = Good (km_key_check m)"
  unfolding columns_material_def sized_def Let_def result_simps by (auto split: cell.splits if_splits)

lemma validate_vault_material_Inr:
  "validate_vault_material v d = Inr m \<Longrightarrow> vault_key_material v = Inr m"
  by (auto simp: validate_vault_material_def result_simps split: option.splits)

lemma still_current_Inr:
  assumes "still_current c observed d = Inr (u, v)"
  shows "get_user d (user_of c) = Some u" and "vault d = Some v" and "u_active u"
    and "user_key_material u = Inr observed" and "kc_key_check (v_cols v) = Good (vk_check (ctx_key c))"
proof -
  from assms obtain m' where v: "vault d = Some v" "validate_vault_material v d = Inr m'"
      and rest: "get_user d (user_of c) = Some u" "u_active u" "user_key_material u = Inr observed"
      "matches (ctx_key c) (Good (km_key_check m'))"
    unfolding still_current_def result_simps by (cases "vault d") (auto simp: result_simps)
  then show "get_user d (user_of c) = Some u" "vault d = Some v" "u_active u"
      "user_key_material u = Inr observed" "kc_key_check (v_cols v) = Good (vk_check (ctx_key c))"
    using columns_material_check [of "v_cols v" m'] validate_vault_material_Inr [OF v(2)]
    by (simp_all add: matches_def vault_key_material_def)
qed

lemma change_password_check_Inr:
  assumes "change_password_check E c current_password new_password w d = Inr (u', d')"
  obtains m u d\<^sub>2 where
    "wrap_key_material (prims E) (dr_salt w) (dr_nonce w) new_password (ctx_key c) DEFAULT_KDF = Inr m"
    "user_key_material (ctx_user c) = user_key_material u" "get_user d (user_of c) = Some u" "u_active u"
    "own_password_opens E c current_password (projr (user_key_material u)) = Inr ()"
    "u' = (store_user_material m u)\<lparr>u_must_change_password := False\<rparr>"
    "update_user_row u' d = Inr d\<^sub>2" "d' = sync_vault m (u_id u) d\<^sub>2" "new_password \<noteq> current_password"
    "u_role (ctx_user c) \<noteq> Service"
    "\<exists>v. vault d = Some v \<and> kc_key_check (v_cols v) = Good (vk_check (ctx_key c))"
proof -
  from assms obtain observed m u v d\<^sub>2 where
    facts: "user_key_material (ctx_user c) = Inr observed"
      "own_password_opens E c current_password observed = Inr ()" "new_password \<noteq> current_password"
      "wrap_key_material (prims E) (dr_salt w) (dr_nonce w) new_password (ctx_key c) DEFAULT_KDF = Inr m"
      "u' = (store_user_material m u)\<lparr>u_must_change_password := False\<rparr>"
      "update_user_row u' d = Inr d\<^sub>2" "d' = sync_vault m (u_id u) d\<^sub>2" "u_role (ctx_user c) \<noteq> Service"
    and current: "still_current c observed d = Inr (u, v)"
    unfolding change_password_check_def Let_def by (auto simp: result_simps)
  note now = still_current_Inr [OF current]
  show thesis by (rule that [of m u d\<^sub>2]) (use facts now in simp_all)
qed

lemma change_password_accounts:
  assumes "env_ok E" and "draw_ok w" and "genuine E (ctx_key c)" and "accounts_ok d"
    and "change_password_check E c current_password new_password w d = Inr (u', d')"
  shows "accounts_ok d'"
proof -
  from change_password_check_Inr [OF assms(5)] obtain m u d\<^sub>2 v where
    m: "wrap_key_material (prims E) (dr_salt w) (dr_nonce w) new_password (ctx_key c) DEFAULT_KDF = Inr m" and
    u: "get_user d (user_of c) = Some u" and u': "u' = (store_user_material m u)\<lparr>u_must_change_password := False\<rparr>" and
    d\<^sub>2: "update_user_row u' d = Inr d\<^sub>2" and d': "d' = sync_vault m (u_id u) d\<^sub>2" and
    v: "vault d = Some v" "kc_key_check (v_cols v) = Good (vk_check (ctx_key c))"
    by metis
  show ?thesis
    using accounts_rewrap [OF assms(1-3) m assms(4) _ v d\<^sub>2] u u' d' get_user_id [OF u]
    by (auto simp: store_user_material_def)
qed

lemma change_password_Inr:
  "rq_result (change_password E defaults c current_password new_password opens w d vs) = Inr (r, d') \<Longrightarrow>
     \<exists>u. change_password_check E c current_password new_password w d = Inr (u, d')"
  by (auto simp: change_password_def Let_def open_user_session_Inr split: sum.splits if_splits prod.splits)

lemma accounts_ok_flag:
  assumes "accounts_ok d" and "users d' = users d" and "seq_users d' = seq_users d"
    and "vault d' = vault d \<or> (\<exists>v. vault d = Some v \<and> vault d' = Some (v\<lparr>v_folder_links_ready := True\<rparr>))"
  shows "accounts_ok d'"
  using assms(1,4) unfolding accounts_ok_def user_keys_ok_def account_ok_def owner_ok_def get_user_def assms(2,3)
    vault_key_material_def by (elim disjE exE conjE) (auto simp: vault_key_material_def)

lemma accounts_first:
  assumes "users d = []" and "insert_user (first_admin username m) d = Inr (i, d\<^sub>2)"
    and "users d' = users d\<^sub>2" and "seq_users d' = seq_users d\<^sub>2" and "vault d' = Some v"
    and "v_owner_user_id v = Some i" and "vault_key_material v = Inr m" and "columns_material (material_columns m) = Inr m"
  shows "accounts_ok d'"
proof -
  from assms(2) have d\<^sub>2: "i = Suc (seq_users d)" "users_unique (users d @ [(first_admin username m)\<lparr>u_id := i\<rparr>])"
    "d\<^sub>2 = d\<lparr>users := users d @ [(first_admin username m)\<lparr>u_id := i\<rparr>], seq_users := i\<rparr>"
    unfolding insert_user_Inr by blast+
  have "kc_key_check (v_cols v) = Good (km_key_check m)"
    using columns_material_check assms(7) by (simp add: vault_key_material_def)
  then show ?thesis
    using d\<^sub>2 assms
    by (simp add: accounts_ok_def user_keys_ok_def owner_ok_def account_ok_def get_user_def first_admin_def
        store_user_material_def active_admin_def user_key_material_def material_columns_def)
qed

lemma sized_Inr: "sized n c = Inr b \<longleftrightarrow> c = Good b \<and> length b = n"
  by (auto simp: sized_def split: cell.splits)

lemma integer_Inr: "integer c = Inr i \<longleftrightarrow> c = Good i"
  by (auto simp: integer_def split: cell.splits)

text \<open>Reading key columns and storing what was read changes nothing that is read later.\<close>

lemma columns_material_restored:
  assumes "columns_material k = Inr m"
  shows "columns_material (material_columns m) = Inr m"
  using assms unfolding columns_material_def material_columns_def Let_def result_simps sized_Inr integer_Inr
  by auto

lemma bootstrap_accounts:
  assumes "env_ok E" and "draw_ok w" and "accounts_ok d"
    and "rq_result (bootstrap E defaults username password w d\<^sub>0 d vs) = Inr (r, d')"
  shows "accounts_ok d'"
proof -
  have P: "primitives_ok (prims E)" using assms(1) by (simp add: env_ok_def)
  have claimed: "users (claim_entries i now x) = users x" "seq_users (claim_entries i now x) = seq_users x"
    "vault (claim_entries i now x) = vault x" for i now x by (simp_all add: claim_entries_def)
  have first: "accounts_ok (claim_entries (u_id u) (dr_now w) x)"
    if "(case vault d\<^sub>0 of None \<Rightarrow> bootstrap_new E username password w d\<^sub>0 d
         | Some v \<Rightarrow> bootstrap_existing E username password v d) = Inr (Some (u, key), x)" for u key x
  proof (cases "vault d\<^sub>0")
    case None
    with that obtain m i d\<^sub>2 where
      m: "create_key_material (prims E) (dr_salt w) (dr_raw w) (dr_nonce w) password DEFAULT_KDF = Inr (m, key)" and
      i: "users d = []" "insert_user (first_admin username m) d = Inr (i, d\<^sub>2)" and
      x: "x = d\<^sub>2\<lparr>vault := Some (store_vault m (blank_vault\<lparr>v_owner_user_id := Some i\<rparr>))\<rparr>"
      by (auto simp: bootstrap_new_def result_simps)
    from created_material_stored(1) [OF P _ _ m] assms(2)
    have "columns_material (material_columns m) = Inr m" by (simp add: draw_ok_def)
    with accounts_first [OF i] show ?thesis
      by (simp add: claimed x store_vault_def vault_key_material_def)
  next
    case (Some v)
    with that obtain observed current i d\<^sub>2 where
      k: "vault_key_material current = Inr observed" and i: "users d = []"
      "insert_user (first_admin username observed) d = Inr (i, d\<^sub>2)" and
      x: "x = d\<^sub>2\<lparr>vault := Some (current\<lparr>v_owner_user_id := Some i\<rparr>)\<rparr>"
      by (auto simp: bootstrap_existing_def result_simps split: option.splits)
    from k have "columns_material (material_columns observed) = Inr observed"
      by (simp add: vault_key_material_def columns_material_restored)
    with accounts_first [OF i] k show ?thesis
      by (simp add: claimed x vault_key_material_def)
  qed
  have unchanged: "x = d" if "(case vault d\<^sub>0 of None \<Rightarrow> bootstrap_new E username password w d\<^sub>0 d
         | Some v \<Rightarrow> bootstrap_existing E username password v d) = Inr (None, x)" for x
    using that by (auto simp: bootstrap_new_def bootstrap_existing_def result_simps split: option.splits)
  show ?thesis
    using assms(3,4) first unchanged
    by (auto simp: bootstrap_def Let_def split: if_splits sum.splits prod.splits option.splits
        dest!: enter_Inr intro: accounts_ok_flag [OF _ migrate_accounts(1,2,3)])
qed

lemma login_accounts:
  assumes "accounts_ok d" and "rq_result (login E defaults username password w d\<^sub>0 d vs) = Inr (r, d')"
  shows "accounts_ok d'"
  using assms
  by (auto simp: login_def split: sum.splits prod.splits option.splits dest!: enter_Inr
      intro: accounts_ok_flag [OF _ migrate_accounts(1,2,3)])

lemma account_step_keeps:
  assumes "env_ok E" and "account_step E d a d'" and "accounts_ok d"
  shows "accounts_ok d'"
  using assms(2,3)
proof cases
  case (step_bootstrap w defaults username password d\<^sub>0 vs r)
  with assms show ?thesis using bootstrap_accounts by blast
next
  case (step_create w actor username role temporary_password d\<^sub>0 r)
  with assms show ?thesis using create_user_accounts by blast
next
  case (step_update actor uid role active vs r)
  then show ?thesis using update_user_accounts [OF assms(3)]
    by (auto simp: update_user_def Let_def result_simps split: if_splits)
next
  case (step_rotate w actor uid d\<^sub>0 r)
  with assms show ?thesis using rotate_service_token_accounts by blast
next
  case (step_reset w actor uid temporary_password d\<^sub>0 vs r)
  with assms show ?thesis using reset_password_accounts by (auto simp: reset_password_def)
next
  case (step_delete actor uid vs u)
  then show ?thesis
    by (auto simp: delete_user_def delete_user_row_def result_simps intro: accounts_delete [OF assms(3)])
next
  case (step_change w c defaults current_password new_password opens vs r)
  then obtain u where "change_password_check E c current_password new_password w d = Inr (u, d')"
    using change_password_Inr by blast
  from change_password_accounts [OF assms(1) step_change(2,3) assms(3) this] show ?thesis .
qed (use assms login_accounts require_password_change_accounts in blast)+

interpretation accounts: step_invariant "account_step E" "\<lambda>_. env_ok E" accounts_ok for E
  by unfold_locales (rule account_step_keeps)

text \<open>Sessions a request opens.\<close>

lemma session_opened:
  "map_of (vs_sessions (open_session P k i fp token now vs)) (digest P token) =
     Some \<lparr>se_key = k, se_user_id = i, se_credential_fingerprint = fp, se_created = now, se_last_used = now\<rparr>"
  by (simp add: open_session_def Let_def map_of_upsert)

lemma open_user_session_store:
  "open_user_session E u key w d vs = q \<Longrightarrow> rq_result q = Inr r \<Longrightarrow>
     \<exists>fp s. credential_fingerprint (prims E) u = Inr fp
       \<and> map_of (vs_sessions (rq_sessions q)) (digest (prims E) (dr_token w)) = Some s
       \<and> se_key s = key \<and> se_user_id s = u_id u \<and> se_credential_fingerprint s = Some fp"
  by (cases "credential_fingerprint (prims E) u") (auto simp: open_user_session_def Let_def session_opened)

lemma enter_store:
  "rq_result (enter E defaults u key w d vs) = Inr r \<Longrightarrow>
     \<exists>fp s. credential_fingerprint (prims E) u = Inr fp
       \<and> map_of (vs_sessions (rq_sessions (enter E defaults u key w d vs))) (digest (prims E) (dr_token w)) = Some s
       \<and> se_key s = key \<and> se_user_id s = u_id u \<and> se_credential_fingerprint s = Some fp"
  unfolding enter_def
  by (cases "migrate_folder_links E key (dr_migration w) d")
    (use open_user_session_store in \<open>fastforce\<close>)+

lemma enter_response:
  "rq_result (enter E defaults u key w d vs) = Inr (r, d') \<Longrightarrow>
     ar_user r = Some (to_user u) \<and> ar_session_token r = Some (dr_token w)"
  by (auto simp: enter_def open_user_session_Inr split: sum.splits)

lemma login_check_Some:
  assumes "login_check E username password w d\<^sub>0 d = Inr (Some (u, k))"
  shows "\<exists>u\<^sub>0 m v. u\<^sub>0 \<in> set (users d\<^sub>0) \<and> u_username u\<^sub>0 = username \<and> u_active u\<^sub>0 \<and> u_role u\<^sub>0 \<noteq> Service
    \<and> get_user d (u_id u\<^sub>0) = Some u \<and> u_active u \<and> u_role u \<noteq> Service
    \<and> user_key_material u\<^sub>0 = Inr m \<and> user_key_material u = Inr m
    \<and> open_material (prims E) password m = Inr (Some k)
    \<and> vault d = Some v \<and> kc_key_check (v_cols v) = Good (vk_check k)"
proof -
  from assms obtain u\<^sub>0 where u\<^sub>0: "login_candidate username d\<^sub>0 = Some u\<^sub>0"
    by (auto simp: login_check_def result_simps split: option.splits)
  with assms obtain m v canonical where
    facts: "user_key_material u\<^sub>0 = Inr m" "open_material (prims E) password m = Inr (Some k)" "vault d = Some v"
      "validate_vault_material v d = Inr canonical" "get_user d (u_id u\<^sub>0) = Some u"
      "u_active u" "u_role u \<noteq> Service" "user_key_material u = Inr m" "matches k (Good (km_key_check canonical))"
    by (auto simp: login_check_def result_simps split: option.splits if_splits)
  from u\<^sub>0 have "u\<^sub>0 \<in> set (users d\<^sub>0) \<and> u_username u\<^sub>0 = username \<and> u_active u\<^sub>0 \<and> u_role u\<^sub>0 \<noteq> Service"
    by (auto simp: login_candidate_def find_Some_iff)
  moreover have "kc_key_check (v_cols v) = Good (vk_check k)"
    using facts(9) columns_material_check validate_vault_material_Inr [OF facts(4)]
    by (simp add: matches_def vault_key_material_def)
  ultimately show ?thesis using facts by auto
qed

end
