(* ===== verification/Authentication.thy ===== *)
theory Authentication
  imports Accounts
begin

text \<open>
  What the account operations promise together: the invariant of the accounts over every history,
  what a successful login or request context means, when sessions end, and that accounts and
  service tokens an administrator creates can be used.
\<close>

section \<open>A sample vault with accounts\<close>

text \<open>
  The administrator 7 and the member 8, whose passwords are the letters a and b; the administrator
  is the primary owner; the folder links are migrated.
\<close>

definition account_user :: "nat \<Rightarrow> user_role \<Rightarrow> nat \<Rightarrow> user_row" where
  "account_user i role c = (sample_user i role)\<lparr>u_cols := material_columns (sample_material [c])\<rparr>"

definition account_db :: db where
  "account_db = empty_db\<lparr>
     vault := Some \<lparr>v_format_version = 2, v_folder_links_ready = True, v_owner_user_id = Some 7,
       v_cols = material_columns (sample_material [97])\<rparr>,
     users := [account_user 7 Admin 97, account_user 8 Member 98], seq_users := 8\<rparr>"

definition account_ctx :: auth_context where
  "account_ctx = \<lparr>ctx_user = account_user 7 Admin 97, ctx_key = sample_key, ctx_token = None\<rparr>"

definition sample_instant :: instant where "sample_instant = \<lparr>monotonic = 0, wall = 0\<rparr>"

definition sample_draw :: auth_draw where
  "sample_draw = \<lparr>dr_salt = sample_salt, dr_raw = replicate 32 5, dr_nonce = sample_nonce,
     dr_token = sample_token, dr_service_token = [99], dr_migration = (\<lambda>_. ((sample_nonce, sample_nonce), 0)),
     dr_now = 0, dr_refresh_at = sample_instant, dr_open_at = sample_instant\<rparr>"

definition sample_defaults :: settings_row where
  "sample_defaults = \<lparr>s_inactivity_ms = 300000, s_warn_before_ms = 30000, s_hidden_ms = 60000, s_debounce_ms = 1000,
     s_clipboard_clear_ms = 15000, s_update_check_enabled = False\<rparr>"

lemma sample_draw_ok: "draw_ok sample_draw"
  by (simp add: draw_ok_def sample_draw_def sample_salt_def KEY_BYTES_def)

lemma sample_genuine: "genuine sample_E sample_key"
  using sample_VaultKey by (simp add: genuine_def sample_key_def)

lemma sample_columns:
  assumes "c < 128"
  shows "columns_material (material_columns (sample_material [c])) = Inr (sample_material [c])"
    and "open_material (sample_primitives []) [c] (sample_material [c]) = Inr (Some sample_key)"
    and "km_key_check (sample_material [c]) = vk_check sample_key"
  using sample_stored [OF _ assms] by (simp_all add: sample_salt_def)

lemma sample_check: "c < 128 \<Longrightarrow> kc_key_check (material_columns (sample_material [c])) = Good (vk_check sample_key)"
  using sample_columns(3) by (simp add: material_columns_def)

lemma account_users:
  "users account_db = [account_user 7 Admin 97, account_user 8 Member 98]"
  "u_id (account_user i role c) = i" "u_role (account_user i role c) = role" "u_active (account_user i role c)"
  "u_username (account_user i role c) = [96 + i]" "u_service_token_hash (account_user i role c) = None"
  "u_service_owner_id (account_user i role c) = None"
  "u_cols (account_user i role c) = material_columns (sample_material [c])"
  "\<not> u_must_change_password (account_user i role c)"
  by (simp_all add: account_db_def account_user_def sample_user_def)

lemma account_material:
  "c < 128 \<Longrightarrow> user_key_material (account_user i role c) = Inr (sample_material [c])"
  by (simp add: user_key_material_def account_users sample_columns)

lemma account_db_ok: "accounts_ok account_db"
proof -
  have "owner_ok account_db (the (vault account_db))"
    by (simp add: owner_ok_def get_user_def account_users account_material vault_key_material_def sample_columns
        account_db_def)
  moreover have "account_ok account_db (the (vault account_db)) u" if "u \<in> set (users account_db)" for u
    using that by (auto simp: account_users account_ok_def sample_check account_db_def)
  moreover have "user_keys_ok account_db"
    by (simp add: user_keys_ok_def users_unique_def account_users) (simp add: account_db_def)
  ultimately show ?thesis
    by (auto simp: accounts_ok_def account_users active_admin_def) (simp_all add: account_db_def)
qed

definition empty_store :: vault_sessions where
  "empty_store = \<lparr>vs_idle_timeout_ms = 1000, vs_tolerance_ms = EXPIRY_TOLERANCE_MS,
     vs_max_lifetime_ms = MAX_LIFETIME_MS, vs_max_sessions = 32, vs_sessions = []\<rparr>"

lemma account_fingerprint: "c < 128 \<Longrightarrow> is_ok (credential_fingerprint P (account_user i role c))"
  using sample_columns(1) [of c] sample_material [of c]
  by (auto simp: credential_fingerprint_def account_material create_key_material_def pack_u_def kdf_bounds
      result_simps dest!: seal_key_material_params)

lemma account_login:
  "\<exists>r vs'. transaction (\<lambda>_. 0) True account_db (login sample_E sample_defaults [103] [97] sample_draw
      account_db account_db empty_store) = (Inr r, account_db, vs') \<and> ar_valid r
     \<and> ar_user r = Some (to_user (account_user 7 Admin 97))"
proof -
  obtain v where v: "vault account_db = Some v" "v_owner_user_id v = Some 7" "v_folder_links_ready v"
      "v_cols v = material_columns (sample_material [97])" by (simp add: account_db_def)
  have check: "login_check sample_E [103] [97] sample_draw account_db account_db
      = Inr (Some (account_user 7 Admin 97, sample_key))"
    by (simp add: login_check_def login_candidate_def account_users account_material v vault_key_material_def
        sample_columns validate_vault_material_def get_user_def matches_def)
  obtain fp where "credential_fingerprint (sample_primitives []) (account_user 7 Admin 97) = Inr fp"
    using account_fingerprint [of 97 "sample_primitives []" 7 Admin] by (auto simp: is_ok_iff)
  moreover have "enforce_backup_capacity (\<lambda>_. 0) account_db = Inr ()"
    by (simp add: enforce_backup_capacity_def estimated_backup_def account_db_def empty_db_def MAX_FRAMES_def
        MAX_BACKUP_BYTES_def BACKUP_FIXED_OVERHEAD_def)
  ultimately show ?thesis
    by (simp add: login_def check enter_def migrate_folder_links_def v open_user_session_def transaction_def Let_def)
qed

section \<open>Lemmas\<close>

lemma enter_hooks: "rq_after_commit (enter E defaults u k w d vs) = []"
  by (auto simp: enter_def open_user_session_def Let_def split: sum.splits)

lemma refresh_timeout_digests: "digests (refresh_timeout defaults now d vs) \<subseteq> digests vs"
  by (auto simp: refresh_timeout_def set_idle_timeout_def digests_def drop_expired_def)

lemma revoke_digests: "valid_token t \<Longrightarrow> digest P t \<notin> digests (snd (revoke P (Some t) vs))"
  by (auto simp: revoke_def digests_def set_del_row)

text \<open>A session is opened last, with its rollback hook: undone, its digest is not in the store.\<close>

lemma enter_rollback:
  assumes "digest (prims E) (dr_token w) \<notin> digests vs" and "valid_token (dr_token w)"
  shows "digest (prims E) (dr_token w) \<notin> digests (run_hooks (rq_after_rollback (enter E defaults u k w d vs))
    (rq_sessions (enter E defaults u k w d vs)))"
  using assms refresh_timeout_digests [of defaults "dr_refresh_at w" _ vs] revoke_digests [OF assms(2)]
  by (auto simp: enter_def open_user_session_def Let_def split: sum.splits)

text \<open>The three reads of a context see one session: same key, user and fingerprint.\<close>

definition same_session :: "session \<Rightarrow> session \<Rightarrow> bool" where
  "same_session s t \<longleftrightarrow> se_key s = se_key t \<and> se_user_id s = se_user_id t
     \<and> se_credential_fingerprint s = se_credential_fingerprint t"

lemma resolve_session:
  assumes "resolve P (Some token) refresh now vs = (Inr key, vs')"
  shows "\<exists>s s'. map_of (vs_sessions vs) (digest P token) = Some s \<and> key = se_key s \<and> valid_token token
    \<and> map_of (vs_sessions vs') (digest P token) = Some s' \<and> same_session s s'"
  using assms
  by (cases rule: live_cases [of P "Some token" now vs])
    (auto simp: resolve_def touch_def same_session_def map_of_del_row map_add_def split: if_splits)

lemma reader_session:
  "session_user_id P (Some token) now vs = (Inr i, vs') \<Longrightarrow>
     \<exists>s. map_of (vs_sessions vs) (digest P token) = Some s \<and> i = se_user_id s \<and> vs' = vs"
  "session_credential_fingerprint P (Some token) now vs = (Inr fp, vs') \<Longrightarrow>
     \<exists>s. map_of (vs_sessions vs) (digest P token) = Some s \<and> fp = se_credential_fingerprint s \<and> vs' = vs"
  by (cases rule: live_cases [of P "Some token" now vs];
      auto simp: session_user_id_def session_credential_fingerprint_def)+

lemma context_user_Some:
  assumes "context_user E key uid fingerprint d = Some u"
  shows "get_user d uid = Some u \<and> u_active u \<and> u_role u \<noteq> Service
    \<and> fingerprint = (case credential_fingerprint (prims E) u of Inl e \<Rightarrow> None | Inr fp \<Rightarrow> Some fp)
    \<and> (\<exists>v m. vault d = Some v \<and> validate_vault_material v d = Inr m \<and> kc_key_check (v_cols v) = Good (vk_check key))"
proof -
  from assms obtain v m where facts: "get_user d uid = Some u" "vault d = Some v" "u_active u" "u_role u \<noteq> Service"
      "fingerprint = (case credential_fingerprint (prims E) u of Inl e \<Rightarrow> None | Inr fp \<Rightarrow> Some fp)"
      "validate_vault_material v d = Inr m" "matches key (Good (km_key_check m))"
    unfolding context_user_def Let_def by (auto split: option.splits if_splits sum.splits prod.splits)
  moreover have "kc_key_check (v_cols v) = Good (vk_check key)"
    using facts(7) columns_material_check validate_vault_material_Inr [OF facts(6)]
    by (simp add: matches_def vault_key_material_def)
  ultimately show ?thesis by blast
qed

text \<open>A context in one look: the session the token names, checked against the database.\<close>

lemma auth_context_Inr:
  assumes "auth_context_of E token refresh allow instants d vs = (Inr c, vs')"
  shows "\<exists>s. map_of (vs_sessions vs) (digest (prims E) token) = Some s \<and> ctx_key c = se_key s
    \<and> context_user E (se_key s) (se_user_id s) (se_credential_fingerprint s) d = Some (ctx_user c)
    \<and> (u_must_change_password (ctx_user c) \<longrightarrow> allow) \<and> ctx_token c = Some token"
proof -
  from assms obtain key uid fp vs\<^sub>1 vs\<^sub>2 u where
    r: "resolve (prims E) (Some token) refresh (fst instants) vs = (Inr key, vs\<^sub>1)" and
    i: "session_user_id (prims E) (Some token) (fst (snd instants)) vs\<^sub>1 = (Inr uid, vs\<^sub>2)" and
    f: "session_credential_fingerprint (prims E) (Some token) (snd (snd instants)) vs\<^sub>2 = (Inr fp, vs')" and
    u: "context_user E key uid fp d = Some u" "u_must_change_password u \<longrightarrow> allow" and
    c: "c = \<lparr>ctx_user = u, ctx_key = key, ctx_token = Some token\<rparr>"
    unfolding auth_context_of_def by (auto split: prod.splits sum.splits option.splits if_splits)
  from resolve_session [OF r] reader_session(1) [OF i] reader_session(2) [OF f] u c show ?thesis
    by (auto simp: same_session_def)
qed

lemma auth_context_refused:
  assumes "valid_token token" and "map_of (vs_sessions vs) (digest (prims E) token) = Some s"
    and "context_user E (se_key s) (se_user_id s) (se_credential_fingerprint s) d = None"
    and "auth_context_of E token refresh allow instants d vs = (result, vs')"
  shows "result = Inl SessionRequired \<and> digest (prims E) token \<notin> digests vs'"
proof (cases "resolve (prims E) (Some token) refresh (fst instants) vs")
  case (Pair r vs\<^sub>1)
  show ?thesis
  proof (cases r)
    case (Inl e)
    with Pair assms(1) failed_resolve_unheld [of "prims E" token refresh "fst instants" vs e]
      resolve_fst [of "prims E" "Some token" refresh "fst instants" vs]
      live_error [of "prims E" "Some token" "fst instants" vs e] assms(4)
    show ?thesis
      by (cases "fst (live (prims E) (Some token) (fst instants) vs)") (auto simp: auth_context_of_def)
  next
    case (Inr key)
    from resolve_session [OF Pair [unfolded Inr]] assms(2) obtain s' where
      s': "key = se_key s" "map_of (vs_sessions vs\<^sub>1) (digest (prims E) token) = Some s'" "same_session s s'" by auto
    show ?thesis
      using Pair Inr s' assms(1,3,4) revoke_digests [OF assms(1)]
      by (cases rule: live_cases [of "prims E" "Some token" "fst (snd instants)" vs\<^sub>1];
          cases rule: live_cases [of "prims E" "Some token" "snd (snd instants)" vs\<^sub>1])
        (auto simp: auth_context_of_def session_user_id_def session_credential_fingerprint_def same_session_def
          digests_map_of map_of_del_row)
  qed
qed

text \<open>The bytes a fingerprint hashes determine the key material.\<close>

definition fingerprint_bytes :: "key_material \<Rightarrow> bytes" where
  "fingerprint_bytes m = concat (map length_framed [ascii ''argon2id'', be 8 (nat (memory_kib (km_params m))),
     be 8 (nat (iterations (km_params m))), be 8 (nat (lanes (km_params m))),
     km_salt m, km_password_check m, km_wrapped_key m, km_key_check m])"

lemma columns_material_sizes:
  assumes "columns_material k = Inr m"
  shows "length (km_salt m) = 16" "length (km_password_check m) = 32" "length (km_wrapped_key m) = 61"
    "length (km_key_check m) = 32" "kc_kdf k = ''argon2id''" "require_supported (km_params m) = Inr ()"
  using assms unfolding columns_material_def Let_def result_simps sized_Inr integer_Inr by auto

lemma supported_bounds:
  "require_supported q = Inr () \<Longrightarrow> 0 \<le> memory_kib q \<and> memory_kib q < 256 ^ 8 \<and> 0 \<le> iterations q
     \<and> iterations q < 256 ^ 8 \<and> 0 \<le> lanes q \<and> lanes q < 256 ^ 8"
  by (auto simp: require_supported_def kdf_bounds result_simps)

lemma credential_fingerprint_Inr:
  "credential_fingerprint P u = Inr fp \<longleftrightarrow>
     (\<exists>m. user_key_material u = Inr m \<and> fp = p_sha256 P (fingerprint_bytes m))"
  using columns_material_sizes(5,6) [of "u_cols u"] supported_bounds
  by (auto simp: credential_fingerprint_def fingerprint_bytes_def user_key_material_def pack_u_def result_simps
      split: if_splits)

lemma fingerprint_bytes_inject:
  assumes "columns_material k = Inr m" and "columns_material k' = Inr m'"
    and "fingerprint_bytes m = fingerprint_bytes m'"
  shows "m = m'"
proof -
  note sizes = columns_material_sizes [OF assms(1)] columns_material_sizes [OF assms(2)]
  have eqs: "be 8 (nat (memory_kib (km_params m))) = be 8 (nat (memory_kib (km_params m')))"
      "be 8 (nat (iterations (km_params m))) = be 8 (nat (iterations (km_params m')))"
      "be 8 (nat (lanes (km_params m))) = be 8 (nat (lanes (km_params m')))"
    and rest: "km_salt m = km_salt m'" "km_password_check m = km_password_check m'"
      "km_wrapped_key m = km_wrapped_key m'" "km_key_check m = km_key_check m'"
    using assms(3) sizes by (simp_all add: fingerprint_bytes_def length_framed_def del: be.simps)
  note B = supported_bounds [OF sizes(6)] supported_bounds [OF sizes(12)]
  have "nat x = nat y \<longleftrightarrow> be 8 (nat x) = be 8 (nat y)" if "0 \<le> x" "x < 256 ^ 8" "0 \<le> y" "y < 256 ^ 8" for x y :: int
    using that by (intro be_inject [symmetric]) (simp_all add: nat_less_iff)
  with eqs B have "memory_kib (km_params m) = memory_kib (km_params m')"
      "iterations (km_params m) = iterations (km_params m')" "lanes (km_params m) = lanes (km_params m')"
    by (metis eq_nat_nat_iff)+
  with rest show ?thesis by (cases m, cases m', cases "km_params m", cases "km_params m'") simp
qed

section \<open>Properties\<close>

text \<open>
  C1: The account invariant. Whatever sequence of first-account creation, logins, account creation,
  role changes, deactivations, resets, password changes, token rotations and deletions commits, in
  whatever order their key derivations interleave: a vault with accounts always has an active
  administrator; its primary owner is a human account whose stored key material is exactly the
  vault's and is readable; every account wraps the same vault key; exactly the service accounts
  have token hashes and their owners exist; ids and usernames stay unique.
\<close>

theorem account_invariant:
  assumes "env_ok E" and "accounts_ok d" and "runs (account_step E) d actions d'"
  shows "accounts_ok d'"
  using accounts.along_runs [OF assms(3)] assms(1,2) by (simp add: list_all_iff)

theorem account_invariant_witness:
  "\<exists>d\<^sub>1 d\<^sub>2. runs (account_step sample_E) account_db [ChangeRequired, Updated] d\<^sub>2
     \<and> accounts_ok d\<^sub>2 \<and> map (\<lambda>u. (u_role u, u_must_change_password u)) (users d\<^sub>2)
        = [(Admin, False), (Admin, True)]"
proof -
  obtain r d\<^sub>1 where one: "require_password_change account_ctx 8 account_db = Inr (r, d\<^sub>1)"
    and d\<^sub>1: "users d\<^sub>1 = [account_user 7 Admin 97, (account_user 8 Member 98)\<lparr>u_must_change_password := True\<rparr>]"
    by (simp add: require_password_change_def target_def require_admin_def account_ctx_def is_admin_def
        get_user_def account_users update_user_row_def Let_def users_unique_def set_row_def)
  obtain r' d\<^sub>2 where two: "rq_result (update_user account_ctx 8 (Some Admin) None d\<^sub>1 sample_store) = Inr (r', d\<^sub>2)"
    and d\<^sub>2: "users d\<^sub>2 = [account_user 7 Admin 97,
        (account_user 8 Member 98)\<lparr>u_must_change_password := True, u_role := Admin\<rparr>]"
    by (simp add: update_user_def update_user_check_def target_def require_admin_def account_ctx_def is_admin_def
        get_user_def account_users d\<^sub>1 update_user_row_def Let_def users_unique_def set_row_def)
  have run: "runs (account_step sample_E) account_db [ChangeRequired, Updated] d\<^sub>2"
    using step_require [OF one] step_update [OF two] by (auto simp: runs_Cons_iff)
  from account_invariant [OF sample_env_ok account_db_ok run] run show ?thesis
    by (auto simp: d\<^sub>2 account_users)
qed




definition account_session :: "bytes \<Rightarrow> session" where
  "account_session fp = \<lparr>se_key = sample_key, se_user_id = 7, se_credential_fingerprint = Some fp,
     se_created = sample_instant, se_last_used = sample_instant\<rparr>"

definition account_store :: vault_sessions where
  "account_store = empty_store\<lparr>vs_sessions := [(digest (sample_primitives []) sample_token,
     account_session (projr (credential_fingerprint (sample_primitives []) (account_user 7 Admin 97))))]\<rparr>"

lemma account_live:
  "live (sample_primitives []) (Some sample_token) sample_instant account_store = (Inr (digest (sample_primitives []) sample_token,
     account_session (projr (credential_fingerprint (sample_primitives []) (account_user 7 Admin 97)))), account_store)"
  by (simp add: live_def account_store_def empty_store_def account_session_def remaining_ms_def ms_since_def
      EXPIRY_TOLERANCE_MS_def MAX_LIFETIME_MS_def)

lemma account_vault:
  "\<exists>v. vault account_db = Some v \<and> v_owner_user_id v = Some 7 \<and> v_folder_links_ready v
     \<and> v_cols v = material_columns (sample_material [97])"
  by (simp add: account_db_def)

lemma account_context:
  "fst (auth_context_of sample_E sample_token False False (sample_instant, sample_instant, sample_instant) account_db
     account_store) = Inr \<lparr>ctx_user = account_user 7 Admin 97, ctx_key = sample_key, ctx_token = Some sample_token\<rparr>"
proof -
  obtain v where v: "vault account_db = Some v" "v_owner_user_id v = Some 7"
      "v_cols v = material_columns (sample_material [97])" using account_vault by blast
  obtain fp where fp: "credential_fingerprint (sample_primitives []) (account_user 7 Admin 97) = Inr fp"
    using account_fingerprint [of 97 "sample_primitives []" 7 Admin] by (auto simp: is_ok_iff)
  show ?thesis
    by (simp add: auth_context_of_def resolve_def session_user_id_def session_credential_fingerprint_def account_live
        account_session_def context_user_def get_user_def account_users v fp validate_vault_material_def
        vault_key_material_def sample_columns account_material matches_def)
qed


text \<open>
  C13: A session dies with the credentials it was opened with. If the account a session belongs to is
  gone, deactivated, a service account, or has other key material than when the session was opened
  (and SHA-256 does not give the two materials one digest), the next request with its token is
  refused and the session is removed from the store, whatever the timing of the three reads.
\<close>

theorem stale_session_ended:
  assumes "valid_token token" and "map_of (vs_sessions vs) (digest (prims E) token) = Some s"
    and "user_key_material before = Inr m" and "credential_fingerprint (prims E) before = Inr fp"
    and "se_credential_fingerprint s = Some fp"
    and "case get_user d (se_user_id s) of None \<Rightarrow> True
         | Some u \<Rightarrow> \<not> u_active u \<or> u_role u = Service \<or> (case user_key_material u of Inl e \<Rightarrow> True
             | Inr m' \<Rightarrow> m' \<noteq> m \<and> inj_on (p_sha256 (prims E)) {fingerprint_bytes m, fingerprint_bytes m'})"
    and "auth_context_of E token refresh allow instants d vs = (result, vs')"
  shows "result = Inl SessionRequired \<and> digest (prims E) token \<notin> digests vs'"
proof (rule auth_context_refused [OF assms(1,2) _ assms(7)])
  show "context_user E (se_key s) (se_user_id s) (se_credential_fingerprint s) d = None"
  proof (rule ccontr)
    assume "\<not> ?thesis"
    then obtain u where u: "context_user E (se_key s) (se_user_id s) (se_credential_fingerprint s) d = Some u" by auto
    note facts = context_user_Some [OF u]
    then have "credential_fingerprint (prims E) u = Inr fp"
      using assms(5) by (auto split: sum.splits)
    then obtain m' where m': "user_key_material u = Inr m'" "fp = p_sha256 (prims E) (fingerprint_bytes m')"
      unfolding credential_fingerprint_Inr by blast
    have "fp = p_sha256 (prims E) (fingerprint_bytes m)"
      using assms(3,4) unfolding credential_fingerprint_Inr by simp
    moreover have "get_user d (se_user_id s) = Some u" "u_active u" "u_role u \<noteq> Service" using facts by blast+
    then have "m' \<noteq> m" and inj: "inj_on (p_sha256 (prims E)) {fingerprint_bytes m, fingerprint_bytes m'}"
      using assms(6) m'(1) by simp_all
    ultimately have "fingerprint_bytes m = fingerprint_bytes m'"
      using m'(2) inj_onD [OF inj, of "fingerprint_bytes m" "fingerprint_bytes m'"] by simp
    with fingerprint_bytes_inject assms(3) m'(1) \<open>m' \<noteq> m\<close> show False unfolding user_key_material_def by metis
  qed
qed

theorem stale_session_ended_witness:
  "fst (auth_context_of sample_E sample_token True True (sample_instant, sample_instant, sample_instant)
     (account_db\<lparr>users := [(account_user 7 Admin 97)\<lparr>u_active := False\<rparr>]\<rparr>) account_store) = Inl SessionRequired"
proof -
  obtain fp where fp: "credential_fingerprint (prims sample_E) (account_user 7 Admin 97) = Inr fp"
    using account_fingerprint [of 97 "sample_primitives []" 7 Admin] by (auto simp: is_ok_iff)
  have held: "map_of (vs_sessions account_store) (digest (prims sample_E) sample_token) = Some (account_session fp)"
    using fp by (simp add: account_store_def)
  obtain result vs' where run: "auth_context_of sample_E sample_token True True (sample_instant, sample_instant, sample_instant)
      (account_db\<lparr>users := [(account_user 7 Admin 97)\<lparr>u_active := False\<rparr>]\<rparr>) account_store = (result, vs')" by fastforce
  from stale_session_ended [OF valid_sample_token held account_material fp _ _ run] run show ?thesis
    by (simp add: account_session_def get_user_def account_users)
qed

text \<open>
  Losing a privilege ends the sessions. Once a role change, a deactivation, a password reset, a
  deletion or an explicit revocation of an account is committed, no session of that account is
  left in the store.
\<close>

theorem privilege_change_ends_sessions:
  "(transaction len True d (update_user actor uid role active d vs) = (Inr r, d', vs') \<longrightarrow>
      role \<noteq> None \<or> active = Some False \<longrightarrow> uid \<notin> set (user_ids vs'))
   \<and> (transaction len True d (reset_password E actor uid temporary_password w d\<^sub>0 d vs) = (Inr r, d', vs') \<longrightarrow>
      uid \<notin> set (user_ids vs'))
   \<and> (transaction len True d (delete_user actor uid d vs) = (Inr (), d', vs') \<longrightarrow>
      uid \<notin> set (user_ids vs') \<and> get_user d' uid = None)
   \<and> (transaction len True d (revoke_user_sessions actor uid d vs) = (Inr n, d', vs') \<longrightarrow>
      uid \<notin> set (user_ids vs'))"
proof -
  have gone: "uid \<notin> set (user_ids (snd (revoke_user uid x)))" for x by (auto simp: revoke_user_def user_ids_def)
  have "get_user d' uid = None" if "transaction len True d (delete_user actor uid d vs) = (Inr (), d', vs')"
  proof -
    from that obtain u where u: "delete_user_check actor uid d = Inr u" and
      del: "delete_user_row (u_id u) (d\<lparr>entry_access := filter (\<lambda>r. ea_user_id r \<noteq> u_id u) (entry_access d)\<rparr>) = Inr d'"
      by (auto simp: transaction_Inr delete_user_def result_simps)
    from u have "u_id u = uid" by (auto simp: delete_user_check_def target_def result_simps dest: get_user_id)
    with del show ?thesis by (auto simp: delete_user_row_def result_simps get_user_def row_simps)
  qed
  with gone show ?thesis
    by (auto simp: transaction_Inr update_user_def reset_password_def delete_user_def revoke_user_sessions_def Let_def
        split: if_splits)
qed

theorem privilege_change_ends_sessions_witness:
  "\<exists>r d' vs'. transaction (\<lambda>_. 0) True account_db (update_user account_ctx 8 None (Some False) account_db
       (account_store\<lparr>vs_sessions := [([1], (account_session [])\<lparr>se_user_id := 8\<rparr>)]\<rparr>)) = (Inr r, d', vs')
     \<and> \<not> us_active r \<and> 8 \<notin> set (user_ids vs')"
proof -
  let ?vs = "account_store\<lparr>vs_sessions := [([1], (account_session [])\<lparr>se_user_id := 8\<rparr>)]\<rparr>"
  obtain r d' where run: "rq_result (update_user account_ctx 8 None (Some False) account_db ?vs) = Inr (r, d')"
    and small: "entries d' = []" "attachments d' = []" and r: "\<not> us_active r"
    by (simp add: update_user_def update_user_check_def target_def require_admin_def account_ctx_def is_admin_def
        get_user_def account_users update_user_row_def Let_def users_unique_def set_row_def to_user_def)
      (simp add: account_db_def empty_db_def)
  have "enforce_backup_capacity (\<lambda>_. 0) d' = Inr ()"
    by (simp add: enforce_backup_capacity_def estimated_backup_def small MAX_FRAMES_def MAX_BACKUP_BYTES_def
        BACKUP_FIXED_OVERHEAD_def)
  with run obtain vs' where
    "transaction (\<lambda>_. 0) True account_db (update_user account_ctx 8 None (Some False) account_db ?vs) = (Inr r, d', vs')"
    by (simp add: transaction_Inr)
  with privilege_change_ends_sessions [of "\<lambda>_. 0" account_db account_ctx 8 None "Some False" ?vs r d' vs'] r
  show ?thesis by blast
qed

lemma unique_token:
  "users_unique (xs @ [u]) \<Longrightarrow> u_service_token_hash u = Some h \<Longrightarrow> x \<in> set xs \<Longrightarrow> u_service_token_hash x \<noteq> Some h"
  by (auto simp: users_unique_def image_iff)

lemma find_append: "find Q (xs @ ys) = (case find Q xs of None \<Rightarrow> find Q ys | Some x \<Rightarrow> Some x)"
  by (induction xs) auto

lemma new_user_fields:
  "u_active (new_user actor username role hash m)" "u_role (new_user actor username role hash m) = role"
  "u_username (new_user actor username role hash m) = username"
  "u_service_token_hash (new_user actor username role hash m) = hash"
  "u_must_change_password (new_user actor username role hash m) = (role \<noteq> Service)"
  "u_service_owner_id (new_user actor username role hash m) = (if role = Service then Some (user_of actor) else None)"
  "u_cols (new_user actor username role hash m) = material_columns m"
  by (simp_all add: new_user_def store_user_material_def)

lemma created_account_key:
  assumes "env_ok E" and "draw_ok w" and "genuine E (ctx_key actor)" and "accounts_ok d"
    and "insert_user u d = Inr (i, d')" and "still_admin actor d" and "u_cols u = material_columns m"
    and "wrap_key_material (prims E) (dr_salt w) (dr_nonce w) password (ctx_key actor) DEFAULT_KDF = Inr m"
    and "vault d = Some v"
  obtains c where "vault d' = Some v" "validate_vault_material v d' = Inr c" "vault_key_material v = Inr c"
    "matches (ctx_key actor) (Good (km_key_check c))" "get_user d' i = Some (u\<lparr>u_id := i\<rparr>)"
    "user_key_material (u\<lparr>u_id := i\<rparr>) = Inr m" "open_material (prims E) password m = Inr (Some (ctx_key actor))"
    "users d' = users d @ [u\<lparr>u_id := i\<rparr>]" "users_unique (users d')"
proof -
  from assms(5) have d': "i = Suc (seq_users d)" "users_unique (users d @ [u\<lparr>u_id := i\<rparr>])"
    "d' = d\<lparr>users := users d @ [u\<lparr>u_id := i\<rparr>], seq_users := i\<rparr>" unfolding insert_user_Inr by blast+
  from still_adminD [OF assms(6)] assms(9) obtain a where a: "get_user d (user_of actor) = Some a"
    and k: "kc_key_check (v_cols v) = Good (vk_check (ctx_key actor))" by (metis option.inject)
  from accounts_okE [OF assms(4) a] assms(9) have owner: "owner_ok d v" by auto
  then obtain j o' c where c: "v_owner_user_id v = Some j" "get_user d j = Some o'" "vault_key_material v = Inr c"
      "user_key_material o' = Inr c" by (auto simp: owner_ok_def is_ok_iff)
  have get: "get_user d' j = Some o'" using c(2) by (simp add: d'(3) get_user_def row_simps)
  have "\<forall>x \<in> set (users d). u_id x \<le> seq_users d" using assms(4) by (simp add: accounts_ok_def user_keys_ok_def)
  then have "row_of u_id i (users d) = None" by (force simp: row_of_None d'(1))
  then have new: "get_user d' i = Some (u\<lparr>u_id := i\<rparr>)" by (simp add: d'(3) get_user_def row_simps)
  note m = wrapped_material [OF assms(1-3,8)]
  have "validate_vault_material v d' = Inr c" by (simp add: validate_vault_material_def c get)
  moreover have "matches (ctx_key actor) (Good (km_key_check c))"
    using k columns_material_check [of "v_cols v" c] c(3) by (simp add: matches_def vault_key_material_def)
  ultimately show thesis using assms(9) c new m assms(7) d' by (intro that [of c]) (simp_all add: user_key_material_def)
qed

text \<open>
  An account an administrator creates works. With the temporary password the new account logs in
  at once, is reported as it was created, and must change its password; with the returned token a
  new service account resolves to a context that acts for the administrator who created it.
\<close>

theorem created_accounts_work:
  assumes "env_ok E" and "draw_ok w" and "genuine E (ctx_key actor)" and "accounts_ok d"
    and "create_user E actor username role temporary_password w d\<^sub>0 d = Inr ((u, credential), d')"
    and "vault d = Some v" and "v_folder_links_ready v" and "0 < user_of actor"
  shows "if role = Service
    then (\<exists>c. resolve_service_token E (dr_service_token w) d' d' = Inr c \<and> to_user (ctx_user c) = u
      \<and> ctx_key c = ctx_key actor \<and> owner_id c = user_of actor)
    else (\<exists>r password. temporary_password = Some password
      \<and> rq_result (login E defaults username password w' d' d' vs) = Inr (r, d')
      \<and> ar_valid r \<and> ar_user r = Some u \<and> us_must_change_password u)"
proof -
  let ?n = "\<lambda>hash m. new_user actor username role hash m"
  note fields = new_user_fields
  from create_user_Inr [OF assms(5)] obtain password m hash i where
    password: "password = (if role = Service then dr_service_token w else the temporary_password)" and
    m: "wrap_key_material (prims E) (dr_salt w) (dr_nonce w) password (ctx_key actor) DEFAULT_KDF = Inr m" and
    admin: "still_admin actor d" and fresh: "\<not> username_taken username d" and
    hash: "hash \<noteq> None \<longleftrightarrow> role = Service" "role \<noteq> Service \<Longrightarrow> temporary_password \<noteq> None"
      "role = Service \<Longrightarrow> token_digest (prims E) password = Inr (the hash)" and
    i: "insert_user (?n hash m) d = Inr (i, d')" and u: "u = to_user ((?n hash m)\<lparr>u_id := i\<rparr>)" by (metis fst_conv)
  have cols: "u_cols (?n hash m) = material_columns m" by (simp add: fields)
  obtain c where
    c: "vault d' = Some v" "validate_vault_material v d' = Inr c" "vault_key_material v = Inr c"
      "matches (ctx_key actor) (Good (km_key_check c))" and
    new: "get_user d' i = Some ((?n hash m)\<lparr>u_id := i\<rparr>)" "user_key_material ((?n hash m)\<lparr>u_id := i\<rparr>) = Inr m"
      "open_material (prims E) password m = Inr (Some (ctx_key actor))"
      "users d' = users d @ [(?n hash m)\<lparr>u_id := i\<rparr>]" "users_unique (users d')"
    by (rule created_account_key [OF assms(1-4) i admin cols m assms(6)])
  show ?thesis
  proof (cases "role = Service")
    case True
    with hash(1) obtain h where h: "hash = Some h" by auto
    define n where "n = (?n hash m)\<lparr>u_id := i\<rparr>"
    have n: "u_service_token_hash n = Some h" "u_role n = Service" "u_active n"
      using True h by (simp_all add: n_def fields)
    have d': "users d' = users d @ [n]" using new(4) by (simp add: n_def)
    have "\<forall>x \<in> set (users d). u_service_token_hash x \<noteq> Some h"
      using unique_token [OF new(5) [unfolded d'] n(1)] by blast
    then have "find (\<lambda>x. u_service_token_hash x = Some h \<and> u_role x = Service \<and> u_active x) (users d) = None"
      by (auto simp: find_None_iff)
    then have "find (\<lambda>x. u_service_token_hash x = Some h \<and> u_role x = Service \<and> u_active x) (users d')
        = Some n"
      by (simp add: d' find_append n)
    moreover have "token_digest (prims E) (dr_service_token w) = Inr h" using True hash(3) h password by simp
    moreover have "u_id n = i" "get_user d' i = Some n" "user_key_material n = Inr m" using new(1,2) by (simp_all add: n_def)
    ultimately have "resolve_service_token E (dr_service_token w) d' d'
        = Inr \<lparr>ctx_user = n, ctx_key = ctx_key actor, ctx_token = None\<rparr>"
      using True c new(3) password n by (simp add: resolve_service_token_def)
    then show ?thesis using True u assms(8) by (simp add: owner_id_def fields n_def)
  next
    case False
    have "find (\<lambda>x. u_username x = username \<and> u_active x \<and> u_role x \<noteq> Service) (users d) = None"
      using fresh by (auto simp: username_taken_def find_None_iff)
    then have "login_candidate username d' = Some ((?n hash m)\<lparr>u_id := i\<rparr>)"
      using False by (simp add: login_candidate_def new(4) find_append fields)
    then have check: "login_check E username password w' d' d' = Inr (Some ((?n hash m)\<lparr>u_id := i\<rparr>, ctx_key actor))"
      using False c new(1-3) by (simp add: login_check_def fields)
    obtain fp where "credential_fingerprint (prims E) ((?n hash m)\<lparr>u_id := i\<rparr>) = Inr fp"
      using new(2) credential_fingerprint_Inr by blast
    moreover have "temporary_password = Some password" using False hash(2) password by auto
    ultimately show ?thesis
      using False u c(1) assms(7)
      by (simp add: login_def check enter_def migrate_folder_links_def open_user_session_def Let_def to_user_def fields)
  qed
qed

theorem created_accounts_work_witness:
  "\<exists>u credential d' r. create_user sample_E account_ctx [120] Member (Some [100]) sample_draw account_db account_db
       = Inr ((u, credential), d')
     \<and> rq_result (login sample_E sample_defaults [120] [100] sample_draw d' d' empty_store) = Inr (r, d')
     \<and> ar_valid r \<and> ar_user r = Some u"
proof -
  obtain v where v: "vault account_db = Some v" "v_folder_links_ready v"
      "v_cols v = material_columns (sample_material [97])" using account_vault by blast
  have "is_ok (wrap_key_material (sample_primitives []) sample_salt sample_nonce [100] sample_key DEFAULT_KDF)"
    using sample_wrap_ok [of 100 sample_salt "replicate 32 5", OF _ _ sample_VaultKey]
    by (auto simp: sample_salt_def wrap_key_material_def create_key_material_def is_ok_iff result_simps sample_key_def)
  then obtain m where m: "wrap_key_material (sample_primitives []) sample_salt sample_nonce [100] sample_key DEFAULT_KDF = Inr m"
    by (auto simp: is_ok_iff)
  have "still_admin account_ctx account_db"
    by (simp add: still_admin_def account_ctx_def get_user_def account_users v sample_check matches_def)
  then obtain r d' where run: "create_user sample_E account_ctx [120] Member (Some [100]) sample_draw account_db account_db = Inr (r, d')"
    using m by (simp add: create_user_def require_admin_def is_admin_def account_ctx_def account_users username_taken_def
        sample_draw_def insert_user_def users_unique_def new_user_def store_user_material_def Let_def)
  obtain u credential where r: "r = (u, credential)" by (cases r)
  have key: "genuine sample_E (ctx_key account_ctx)" "0 < user_of account_ctx"
    using sample_genuine by (simp_all add: account_ctx_def account_users)
  from created_accounts_work [OF sample_env_ok sample_draw_ok key(1) account_db_ok run [unfolded r] v(1,2) key(2),
      of sample_defaults sample_draw empty_store] run r
  show ?thesis by auto
qed

text \<open>
  Changing one's password. The change commits only for an active human account whose current
  password opens its material to the session's key; then the new password opens the new material
  to the same key, the obligation to change it is lifted, every other account is untouched, the
  account invariant holds (so the vault follows its primary owner), and of the account's sessions
  only the new one is left.
\<close>

theorem change_password_effect:
  assumes "env_ok E" and "draw_ok w" and "genuine E (ctx_key c)" and "accounts_ok d" and "valid_token (dr_token w)"
    and "transaction len True d (change_password E defaults c current_password new_password True w d vs) = (Inr r, d', vs')"
  shows "\<exists>u u' m. get_user d (user_of c) = Some u \<and> u_active u \<and> u_role (ctx_user c) \<noteq> Service
    \<and> own_password_opens E c current_password (projr (user_key_material u)) = Inr ()
    \<and> get_user d' = (get_user d)(user_of c \<mapsto> u') \<and> user_key_material u' = Inr m
    \<and> open_material (prims E) new_password m = Inr (Some (ctx_key c)) \<and> \<not> u_must_change_password u'
    \<and> accounts_ok d' \<and> ar_session_token r = Some (dr_token w)
    \<and> digest (prims E) (dr_token w) \<in> digests vs'
    \<and> (\<forall>(dg, s) \<in> set (vs_sessions vs'). se_user_id s = user_of c \<longrightarrow> dg = digest (prims E) (dr_token w))"
proof -
  let ?q = "change_password E defaults c current_password new_password True w d vs"
  let ?dg = "digest (prims E) (dr_token w)"
  from assms(6) have run: "rq_result ?q = Inr (r, d')" and vs': "vs' = run_hooks (rq_after_commit ?q) (rq_sessions ?q)"
    by (simp_all add: transaction_Inr)
  from change_password_Inr [OF run] obtain u' where
    check: "change_password_check E c current_password new_password w d = Inr (u', d')" by blast
  let ?vs\<^sub>1 = "refresh_timeout defaults (dr_refresh_at w) d' vs"
  let ?s = "open_user_session E u' (ctx_key c) w d' ?vs\<^sub>1"
  have q: "?q = after_commit (\<lambda>vs. case revoke_user_except (prims E) (user_of c) (dr_token w) vs of
      Inl e \<Rightarrow> vs | Inr (_, vs') \<Rightarrow> vs') ?s"
    by (simp add: change_password_def check Let_def)
  have ascii: "list_all (\<lambda>x. x < 128) (dr_token w)"
    using assms(5) by (auto simp: valid_token_def list_all_iff token_char_def)
  have "rq_after_commit ?s = []" by (auto simp: open_user_session_def Let_def split: sum.splits)
  then have store: "vs' = (rq_sessions ?s)\<lparr>vs_sessions := filter (\<lambda>(dg, s). \<not> (se_user_id s = user_of c \<and> dg \<noteq> ?dg))
      (vs_sessions (rq_sessions ?s))\<rparr>"
    using ascii by (simp add: vs' q revoke_user_except_store)
  from run q have result: "rq_result ?s = Inr (r, d')" by simp
  from open_user_session_store [OF refl result] obtain s where
    "map_of (vs_sessions (rq_sessions ?s)) ?dg = Some s" by blast
  then have kept: "?dg \<in> digests vs'" by (force simp: store digests_def dest: map_of_SomeD)
  have only: "\<forall>(dg, s) \<in> set (vs_sessions vs'). se_user_id s = user_of c \<longrightarrow> dg = ?dg" by (auto simp: store)
  have token: "ar_session_token r = Some (dr_token w)" using result by (auto simp: open_user_session_Inr)
  note ok = change_password_accounts [OF assms(1-4) check]
  from change_password_check_Inr [OF check] obtain m u d\<^sub>2 where
    m: "wrap_key_material (prims E) (dr_salt w) (dr_nonce w) new_password (ctx_key c) DEFAULT_KDF = Inr m" and
    u: "get_user d (user_of c) = Some u" "u_active u" "u_role (ctx_user c) \<noteq> Service"
      "own_password_opens E c current_password (projr (user_key_material u)) = Inr ()" and
    u': "u' = (store_user_material m u)\<lparr>u_must_change_password := False\<rparr>" and
    d\<^sub>2: "update_user_row u' d = Inr d\<^sub>2" and d': "d' = sync_vault m (u_id u) d\<^sub>2" by metis
  have "u_id u' = user_of c" using get_user_id [OF u(1)] by (simp add: u' store_user_material_def)
  then have get: "get_user d' = (get_user d)(user_of c \<mapsto> u')"
    using d\<^sub>2 u(1) by (auto simp: d' get_user_def update_user_row_Inr row_simps fun_eq_iff)
  have "user_key_material u' = Inr m \<and> open_material (prims E) new_password m = Inr (Some (ctx_key c))
      \<and> \<not> u_must_change_password u'"
    using wrapped_material [OF assms(1-3) m] by (simp add: u' user_key_material_def store_user_material_def)
  with u get ok token kept only show ?thesis by blast
qed

theorem change_password_effect_witness:
  "\<exists>r d' vs' u' m. transaction (\<lambda>_. 0) True account_db (change_password sample_E sample_defaults account_ctx [97] [98] True
       sample_draw account_db account_store) = (Inr r, d', vs')
     \<and> get_user d' 7 = Some u' \<and> user_key_material u' = Inr m
     \<and> open_material (sample_primitives []) [98] m = Inr (Some sample_key)"
proof -
  obtain v where v: "vault account_db = Some v" "v_owner_user_id v = Some 7"
      "v_cols v = material_columns (sample_material [97])" using account_vault by blast
  have wrap: "wrap_key_material (sample_primitives []) sample_salt sample_nonce [98] sample_key DEFAULT_KDF = Inr (sample_material [98])"
    using sample_material [of 98]
    by (auto simp: wrap_key_material_def create_key_material_def result_simps sample_key_def)
  let ?u = "(account_user 7 Admin 98)\<lparr>u_must_change_password := False\<rparr>"
  let ?d = "account_db\<lparr>users := [?u, account_user 8 Member 98]\<rparr>"
  have current: "still_current account_ctx (sample_material [97]) account_db = Inr (account_user 7 Admin 97, v)"
    by (simp add: still_current_def v validate_vault_material_def vault_key_material_def sample_columns get_user_def
        account_users account_material account_ctx_def matches_def)
  have new: "(store_user_material (sample_material [98]) (account_user 7 Admin 97))\<lparr>u_must_change_password := False\<rparr> = ?u"
    by (simp add: store_user_material_def account_user_def)
  have row: "update_user_row ?u account_db = Inr ?d"
    by (simp add: update_user_row_def Let_def account_users users_unique_def set_row_def)
  have check: "change_password_check sample_E account_ctx [97] [98] sample_draw account_db
      = Inr (?u, sync_vault (sample_material [98]) 7 ?d)"
    using current row new
    by (simp add: change_password_check_def account_ctx_def account_users account_material own_password_opens_def
        sample_columns matches_def sample_draw_def wrap Let_def)
  let ?d' = "sync_vault (sample_material [98]) 7 ?d"
  have cap: "enforce_backup_capacity (\<lambda>_. 0) ?d' = Inr ()"
    by (simp add: enforce_backup_capacity_def estimated_backup_def account_db_def empty_db_def sync_vault_def
        MAX_FRAMES_def MAX_BACKUP_BYTES_def BACKUP_FIXED_OVERHEAD_def)
  have "user_key_material ?u = Inr (sample_material [98])"
    by (simp add: user_key_material_def account_users sample_columns)
  then obtain fp where fp: "credential_fingerprint (sample_primitives []) ?u = Inr fp"
    using credential_fingerprint_Inr by blast
  obtain r vs' where run: "transaction (\<lambda>_. 0) True account_db (change_password sample_E sample_defaults account_ctx [97] [98] True
      sample_draw account_db account_store) = (Inr r, ?d', vs')"
    by (simp add: transaction_Inr change_password_def check cap open_user_session_def fp Let_def)
  have key: "genuine sample_E (ctx_key account_ctx)" "valid_token (dr_token sample_draw)"
    using sample_genuine by (simp_all add: account_ctx_def sample_draw_def)
  have "user_of account_ctx = 7" "ctx_key account_ctx = sample_key" by (simp_all add: account_ctx_def account_users)
  with change_password_effect [OF sample_env_ok sample_draw_ok key(1) account_db_ok key(2) run] run show ?thesis by auto
qed

end
