(* ===== verification/Validators.thy ===== *)
theory Validators
  imports Records
begin

text \<open>
  Input validation (\<^verbatim>\<open>backend/validators.py\<close> and the request schemas of \<^verbatim>\<open>backend/schemas.py\<close>):
  password strength, text that can be stored and addressed, two-factor secrets, and the cleaning
  of an entry payload. What Python and pydantic (\<open>pd_trim\<close>, the stripping of a string field) take
  from the Unicode tables, and the query parser of urllib, are the fields of \<open>text_ops\<close>;
  \<open>text_ok\<close> states what they do on ASCII text and that stripping cuts a string at both ends. A refused value
  is \<open>Inl ValueError\<close>, the class pydantic turns into a validation error.
\<close>

section \<open>Text operations of the standard library\<close>

record text_ops =
  py_strip :: "ustr \<Rightarrow> ustr"
  pd_trim :: "ustr \<Rightarrow> ustr"
  py_lower :: "ustr \<Rightarrow> ustr"
  py_upper :: "ustr \<Rightarrow> ustr"
  py_islower :: "nat \<Rightarrow> bool"
  py_isupper :: "nat \<Rightarrow> bool"
  py_isdigit :: "nat \<Rightarrow> bool"
  py_isalnum :: "nat \<Rightarrow> bool"
  otp_query_secret :: "ustr \<Rightarrow> ustr"

definition ascii_space :: "nat \<Rightarrow> bool" where
  "ascii_space c \<longleftrightarrow> c = 32 \<or> (9 \<le> c \<and> c \<le> 13) \<or> (28 \<le> c \<and> c \<le> 31)"

definition ascii_strip :: "ustr \<Rightarrow> ustr" where
  "ascii_strip s = rev (dropWhile ascii_space (rev (dropWhile ascii_space s)))"

definition ascii_upper :: "nat \<Rightarrow> nat" where
  "ascii_upper c = (if 97 \<le> c \<and> c \<le> 122 then c - 32 else c)"

definition ascii_lower :: "nat \<Rightarrow> nat" where
  "ascii_lower c = (if 65 \<le> c \<and> c \<le> 90 then c + 32 else c)"

definition cuts :: "(ustr \<Rightarrow> ustr) \<Rightarrow> bool" where
  "cuts f \<longleftrightarrow> (\<forall>s. f (f s) = f s) \<and> (\<forall>s. \<exists>a b. s = a @ f s @ b)"

definition text_ok :: "text_ops \<Rightarrow> bool" where
  "text_ok T \<longleftrightarrow>
     (\<forall>s. list_all (\<lambda>c. c < 128) s \<longrightarrow> py_strip T s = ascii_strip s \<and> py_lower T s = map ascii_lower s
        \<and> py_upper T s = map ascii_upper s)
     \<and> cuts (py_strip T) \<and> cuts (pd_trim T)"

section \<open>validators.py\<close>

definition character_classes :: "text_ops \<Rightarrow> ustr \<Rightarrow> nat" where
  "character_classes T password =
     length (filter (\<lambda>b. b) [\<exists>c \<in> set password. py_islower T c, \<exists>c \<in> set password. py_isupper T c,
       \<exists>c \<in> set password. py_isdigit T c, \<exists>c \<in> set password. \<not> py_isalnum T c])"

definition MIN_MASTER_PASSWORD_LENGTH :: nat where "MIN_MASTER_PASSWORD_LENGTH = 12"
definition MIN_CHARACTER_CLASSES :: nat where "MIN_CHARACTER_CLASSES = 2"

definition validate_master_password_strength :: "text_ops \<Rightarrow> ustr \<Rightarrow> error + ustr" where
  "validate_master_password_strength T password =
     andThen (ensure (MIN_MASTER_PASSWORD_LENGTH \<le> length password) ValueError) (\<lambda>_.
     andThen (ensure (MIN_CHARACTER_CLASSES \<le> character_classes T password) ValueError) (\<lambda>_.
     Inr password))"

definition require_unicode_text :: "ustr \<Rightarrow> error + ustr" where
  "require_unicode_text s = andThen (ensure (is_ok (utf8 s)) ValueError) (\<lambda>_. Inr s)"

definition reject_nul :: "ustr \<Rightarrow> error + ustr" where
  "reject_nul s = andThen (ensure (0 \<notin> set s) ValueError) (\<lambda>_. Inr s)"

definition addressable_name :: "ustr \<Rightarrow> error + ustr" where
  "addressable_name s =
     andThen (ensure (s \<noteq> utext ''.'' \<and> s \<noteq> utext ''..'') ValueError) (\<lambda>_.
     andThen (ensure (s \<noteq> utext ''trash'') ValueError) (\<lambda>_. Inr s))"

definition base32_char :: "nat \<Rightarrow> bool" where
  "base32_char c \<longleftrightarrow> (65 \<le> c \<and> c \<le> 90) \<or> (50 \<le> c \<and> c \<le> 55)"

definition rstrip_eq :: "ustr \<Rightarrow> ustr" where
  "rstrip_eq s = rev (dropWhile (\<lambda>c. c = 61) (rev s))"

definition normalize_totp_secret :: "text_ops \<Rightarrow> ustr option \<Rightarrow> error + ustr option" where
  "normalize_totp_secret T raw =
     (case raw of
        None \<Rightarrow> Inr None
      | Some r \<Rightarrow>
          if r = [] then Inr None
          else
            let stripped = py_strip T r;
                value = (if take 10 (py_lower T stripped) = utext ''otpauth://''
                         then otp_query_secret T stripped else stripped);
                cleaned = rstrip_eq (py_upper T (filter (\<lambda>c. c \<noteq> 32) value))
            in if cleaned = [] then Inr None
               else andThen (ensure (list_all base32_char cleaned) ValueError) (\<lambda>_. Inr (Some cleaned)))"

definition normalize_totp_secret_leniently :: "text_ops \<Rightarrow> ustr option \<Rightarrow> ustr option" where
  "normalize_totp_secret_leniently T raw =
     (case normalize_totp_secret T raw of Inr v \<Rightarrow> v | Inl e \<Rightarrow> raw)"

section \<open>The entry payload\<close>

definition MAX_TAGS :: nat where "MAX_TAGS = 20"
definition MAX_TAG_LENGTH :: nat where "MAX_TAG_LENGTH = 40"
definition MAX_CUSTOM_FIELDS :: nat where "MAX_CUSTOM_FIELDS = 30"
definition MAX_FIELD_LABEL :: nat where "MAX_FIELD_LABEL = 100"
definition MAX_FIELD_VALUE :: nat where "MAX_FIELD_VALUE = 4096"
definition MAX_FOLDER_LENGTH :: nat where "MAX_FOLDER_LENGTH = 200"
definition MAX_DESCRIPTION_LENGTH :: nat where "MAX_DESCRIPTION_LENGTH = 10000"

text \<open>The fields of \<^verbatim>\<open>Password\<close>; \<open>pw_kind\<close> is text in a request and cleaned by validation.\<close>

record 'kind payload =
  pw_name :: ustr
  pw_kind :: 'kind
  pw_username :: "ustr option"
  pw_value :: ustr
  pw_url :: "ustr option"
  pw_totp_secret :: "ustr option"
  pw_description :: "ustr option"
  pw_tags :: "ustr list"
  pw_custom_fields :: "stored_field list"
  pw_folder :: "ustr option"
  pw_folder_id :: "nat option"
  pw_favorite :: bool

type_synonym password = "entry_kind payload"

definition optional :: "('a \<Rightarrow> error + 'a) \<Rightarrow> 'a option \<Rightarrow> error + 'a option" where
  "optional check x = (case x of None \<Rightarrow> Inr None | Some y \<Rightarrow> andThen (check y) (\<lambda>z. Inr (Some z)))"

text \<open>A stripped string within its length limits.\<close>

definition text_field :: "text_ops \<Rightarrow> nat \<Rightarrow> nat \<Rightarrow> ustr \<Rightarrow> error + ustr" where
  "text_field T lo hi raw =
     (let s = pd_trim T raw
      in andThen (ensure (lo \<le> length s \<and> length s \<le> hi) ValueError) (\<lambda>_. require_unicode_text s))"

fun clean_tags_into :: "text_ops \<Rightarrow> ustr list \<Rightarrow> ustr list \<Rightarrow> ustr list" where
  "clean_tags_into T cleaned [] = cleaned"
| "clean_tags_into T cleaned (raw # tags) =
     (let tag = py_strip T (take MAX_TAG_LENGTH (py_strip T raw))
      in clean_tags_into T (if tag \<noteq> [] \<and> tag \<notin> set cleaned then cleaned @ [tag] else cleaned) tags)"

definition clean_tags :: "text_ops \<Rightarrow> ustr list \<Rightarrow> ustr list" where
  "clean_tags T tags = clean_tags_into T [] tags"

definition clean_kind :: "ustr \<Rightarrow> entry_kind" where
  "clean_kind s = (if s = utext ''note'' then Note else Login)"

definition clean_folder :: "ustr option \<Rightarrow> ustr option" where
  "clean_folder f = (if f = Some [] then None else f)"

definition custom_field :: "text_ops \<Rightarrow> stored_field \<Rightarrow> error + stored_field" where
  "custom_field T f =
     andThen (text_field T 0 MAX_FIELD_LABEL (sf_label f)) (\<lambda>label.
     andThen (text_field T 0 MAX_FIELD_VALUE (sf_value f)) (\<lambda>value.
     Inr (f\<lparr>sf_label := label, sf_value := value\<rparr>)))"

definition validate_password :: "text_ops \<Rightarrow> ustr payload \<Rightarrow> error + password" where
  "validate_password T raw =
     andThen (text_field T 1 255 (pw_name raw)) (\<lambda>name.
     andThen (reject_nul name) (\<lambda>_.
     andThen (addressable_name name) (\<lambda>_.
     andThen (require_unicode_text (pd_trim T (pw_kind raw))) (\<lambda>kind.
     andThen (optional (text_field T 0 255) (pw_username raw)) (\<lambda>username.
     andThen (optional reject_nul username) (\<lambda>_.
     andThen (ensure (1 \<le> length (pw_value raw)) ValueError) (\<lambda>_.
     andThen (require_unicode_text (pw_value raw)) (\<lambda>value.
     andThen (optional (text_field T 0 2048) (pw_url raw)) (\<lambda>url.
     andThen (optional (text_field T 0 512) (pw_totp_secret raw)) (\<lambda>secret.
     andThen (normalize_totp_secret T secret) (\<lambda>totp.
     andThen (optional (text_field T 0 MAX_DESCRIPTION_LENGTH) (pw_description raw)) (\<lambda>description.
     andThen (optional reject_nul description) (\<lambda>_.
     andThen (ensure (length (pw_tags raw) \<le> MAX_TAGS) ValueError) (\<lambda>_.
     andThen (map_res (\<lambda>tag. require_unicode_text (pd_trim T tag)) (pw_tags raw)) (\<lambda>tags.
     andThen (ensure (length (pw_custom_fields raw) \<le> MAX_CUSTOM_FIELDS) ValueError) (\<lambda>_.
     andThen (map_res (custom_field T) (pw_custom_fields raw)) (\<lambda>fields.
     andThen (optional (text_field T 0 MAX_FOLDER_LENGTH) (pw_folder raw)) (\<lambda>folder.
     andThen (ensure (case pw_folder_id raw of None \<Rightarrow> True | Some i \<Rightarrow> 0 < i) ValueError) (\<lambda>_.
     Inr \<lparr>pw_name = name, pw_kind = clean_kind kind, pw_username = username, pw_value = value, pw_url = url,
       pw_totp_secret = totp, pw_description = description, pw_tags = clean_tags T tags,
       pw_custom_fields = filter (\<lambda>f. sf_label f \<noteq> []) fields, pw_folder = clean_folder folder,
       pw_folder_id = pw_folder_id raw, pw_favorite = pw_favorite raw\<rparr>)))))))))))))))))))"

text \<open>\<^verbatim>\<open>RestoredPassword\<close>: only what the database cannot store is refused.\<close>

definition restored_field :: "stored_field \<Rightarrow> error + stored_field" where
  "restored_field f =
     andThen (require_unicode_text (sf_label f)) (\<lambda>_.
     andThen (require_unicode_text (sf_value f)) (\<lambda>_. Inr f))"

definition validate_restored_password :: "text_ops \<Rightarrow> ustr payload \<Rightarrow> error + password" where
  "validate_restored_password T raw =
     andThen (ensure (pw_name raw \<noteq> []) ValueError) (\<lambda>_.
     andThen (require_unicode_text (pw_name raw)) (\<lambda>name.
     andThen (reject_nul name) (\<lambda>_.
     andThen (require_unicode_text (pw_kind raw)) (\<lambda>kind.
     andThen (optional require_unicode_text (pw_username raw)) (\<lambda>username.
     andThen (optional reject_nul username) (\<lambda>_.
     andThen (ensure (pw_value raw \<noteq> []) ValueError) (\<lambda>_.
     andThen (require_unicode_text (pw_value raw)) (\<lambda>value.
     andThen (optional require_unicode_text (pw_url raw)) (\<lambda>url.
     andThen (optional require_unicode_text (pw_totp_secret raw)) (\<lambda>secret.
     andThen (optional require_unicode_text (pw_description raw)) (\<lambda>description.
     andThen (optional reject_nul description) (\<lambda>_.
     andThen (map_res require_unicode_text (pw_tags raw)) (\<lambda>tags.
     andThen (map_res restored_field (pw_custom_fields raw)) (\<lambda>fields.
     andThen (optional require_unicode_text (pw_folder raw)) (\<lambda>folder.
     Inr \<lparr>pw_name = name, pw_kind = clean_kind kind, pw_username = username, pw_value = value, pw_url = url,
       pw_totp_secret = normalize_totp_secret_leniently T secret, pw_description = description, pw_tags = tags,
       pw_custom_fields = fields, pw_folder = clean_folder folder, pw_folder_id = None,
       pw_favorite = pw_favorite raw\<rparr>)))))))))))))))"

section \<open>Other payloads\<close>

definition username_char :: "nat \<Rightarrow> bool" where
  "username_char c \<longleftrightarrow> (97 \<le> c \<and> c \<le> 122) \<or> (48 \<le> c \<and> c \<le> 57)"

text \<open>Lower-cased, then stripped, 2 to 64 characters, \<^verbatim>\<open>[a-z0-9][a-z0-9._@-]*\<close>.\<close>

definition validate_username :: "text_ops \<Rightarrow> ustr \<Rightarrow> error + ustr" where
  "validate_username T raw =
     (let s = pd_trim T (py_lower T raw)
      in andThen (ensure (2 \<le> length s \<and> length s \<le> 64) ValueError) (\<lambda>_.
         andThen (ensure (case s of [] \<Rightarrow> False | c # cs \<Rightarrow> username_char c
           \<and> list_all (\<lambda>x. username_char x \<or> x \<in> set (utext ''._@-'')) cs) ValueError) (\<lambda>_. Inr s)))"

text \<open>
  \<^verbatim>\<open>ShareUpdatePayload\<close>: an expiry with a time zone, given as the wall time and its offset in
  microseconds, is converted to UTC and must lie in the future.
\<close>

definition validate_expiry :: "time \<Rightarrow> (time \<times> int option) option \<Rightarrow> error + time option" where
  "validate_expiry now value =
     (case value of
        None \<Rightarrow> Inr None
      | Some (t, zone) \<Rightarrow>
          andThen (orElse zone ValueError) (\<lambda>offset.
          andThen (ensure (now < t - offset) ValueError) (\<lambda>_. Inr (Some (t - offset)))))"

definition validate_settings :: "settings_row \<Rightarrow> error + settings_row" where
  "validate_settings s =
     andThen (ensure (30000 \<le> s_inactivity_ms s \<and> s_inactivity_ms s \<le> 3600000) ValueError) (\<lambda>_.
     andThen (ensure (5000 \<le> s_warn_before_ms s \<and> s_warn_before_ms s \<le> 600000) ValueError) (\<lambda>_.
     andThen (ensure (10000 \<le> s_hidden_ms s \<and> s_hidden_ms s \<le> 3600000) ValueError) (\<lambda>_.
     andThen (ensure (100 \<le> s_debounce_ms s \<and> s_debounce_ms s \<le> 10000) ValueError) (\<lambda>_.
     andThen (ensure (5000 \<le> s_clipboard_clear_ms s \<and> s_clipboard_clear_ms s \<le> 600000) ValueError) (\<lambda>_.
     andThen (ensure (s_warn_before_ms s < s_inactivity_ms s) ValueError) (\<lambda>_. Inr s))))))"

definition validate_user_create :: "text_ops \<Rightarrow> user_role \<Rightarrow> ustr option \<Rightarrow> error + ustr option" where
  "validate_user_create T role temporary_password =
     andThen (ensure (case temporary_password of None \<Rightarrow> True | Some p \<Rightarrow> 1 \<le> length p \<and> length p \<le> 1024)
       ValueError) (\<lambda>_.
     if role \<noteq> Service then
       andThen (orElse temporary_password ValueError) (\<lambda>p.
       andThen (validate_master_password_strength T p) (\<lambda>_. Inr temporary_password))
     else andThen (ensure (temporary_password = None) ValueError) (\<lambda>_. Inr temporary_password))"

definition validate_folder_name :: "text_ops \<Rightarrow> ustr \<Rightarrow> error + ustr" where
  "validate_folder_name T raw = andThen (text_field T 1 MAX_FOLDER_LENGTH raw) reject_nul"

definition validate_group_name :: "text_ops \<Rightarrow> ustr \<Rightarrow> error + ustr" where
  "validate_group_name T raw = andThen (text_field T 1 100 raw) reject_nul"

section \<open>Lemmas\<close>

lemma cuts_length:
  assumes "cuts f"
  shows "length (f s) \<le> length s"
proof -
  from assms obtain a b where "s = a @ f s @ b" unfolding cuts_def by blast
  then have "length s = length a + length (f s) + length b" by (metis add.assoc length_append)
  then show ?thesis by simp
qed

lemma text_field_Inr:
  "text_field T lo hi raw = Inr s \<longleftrightarrow> s = pd_trim T raw \<and> lo \<le> length s \<and> length s \<le> hi \<and> is_ok (utf8 s)"
  by (auto simp: text_field_def require_unicode_text_def Let_def result_simps)

lemma custom_field_limits:
  "custom_field T f = Inr g \<Longrightarrow> length (sf_label g) \<le> MAX_FIELD_LABEL \<and> length (sf_value g) \<le> MAX_FIELD_VALUE"
  by (auto simp: custom_field_def text_field_Inr result_simps)

lemma map_res_results: "map_res f xs = Inr ys \<Longrightarrow> y \<in> set ys \<Longrightarrow> \<exists>x \<in> set xs. f x = Inr y"
  by (induction xs arbitrary: ys) (auto simp: result_simps)

lemma clean_tags_into_ok:
  assumes "cuts (py_strip T)"
  shows "distinct cleaned \<Longrightarrow> distinct (clean_tags_into T cleaned tags)
    \<and> set (clean_tags_into T cleaned tags) \<subseteq> set cleaned \<union> {t. t \<noteq> [] \<and> length t \<le> MAX_TAG_LENGTH \<and> py_strip T t = t}
    \<and> length (clean_tags_into T cleaned tags) \<le> length cleaned + length tags"
proof (induction tags arbitrary: cleaned)
  case (Cons raw tags)
  let ?t = "py_strip T (take MAX_TAG_LENGTH (py_strip T raw))"
  let ?c = "if ?t \<noteq> [] \<and> ?t \<notin> set cleaned then cleaned @ [?t] else cleaned"
  have "length ?t \<le> MAX_TAG_LENGTH"
    using cuts_length [OF assms, of "take MAX_TAG_LENGTH (py_strip T raw)"] by simp
  moreover have "py_strip T ?t = ?t" using assms by (simp add: cuts_def)
  ultimately have c: "set ?c \<subseteq> set cleaned \<union> {t. t \<noteq> [] \<and> length t \<le> MAX_TAG_LENGTH \<and> py_strip T t = t}"
    "distinct ?c" "length ?c \<le> Suc (length cleaned)"
    using Cons.prems by auto
  from Cons.IH [OF c(2)] have IH: "distinct (clean_tags_into T ?c tags)"
    "set (clean_tags_into T ?c tags) \<subseteq> set ?c \<union> {t. t \<noteq> [] \<and> length t \<le> MAX_TAG_LENGTH \<and> py_strip T t = t}"
    "length (clean_tags_into T ?c tags) \<le> length ?c + length tags" by blast+
  have eq: "clean_tags_into T cleaned (raw # tags) = clean_tags_into T ?c tags" by (simp add: Let_def)
  show ?case unfolding eq using IH c by (intro conjI) (blast, blast, force)
qed simp

lemma base32_ascii: "list_all base32_char s \<Longrightarrow> list_all (\<lambda>c. c < 128) s"
  by (auto simp: list_all_iff base32_char_def)

lemma base32_fixed:
  assumes "text_ok T" and "list_all base32_char s"
  shows "py_strip T s = s" and "py_upper T s = s" and "take 10 (py_lower T s) \<noteq> utext ''otpauth://''"
    and "filter (\<lambda>c. c \<noteq> 32) s = s" and "rstrip_eq s = s"
proof -
  have ends: "dropWhile Q s = s" "dropWhile Q (rev s) = rev s" if "\<And>c. base32_char c \<Longrightarrow> \<not> Q c" for Q
  proof -
    show "dropWhile Q s = s" using assms(2) that by (cases s) simp_all
    show "dropWhile Q (rev s) = rev s" using assms(2) that by (cases s rule: rev_cases) simp_all
  qed
  note T = assms(1) [unfolded text_ok_def, THEN conjunct1, rule_format, OF base32_ascii [OF assms(2)]]
  have "\<And>c. base32_char c \<Longrightarrow> \<not> ascii_space c" by (auto simp: base32_char_def ascii_space_def)
  from ends [OF this] show "py_strip T s = s" using T by (simp add: ascii_strip_def)
  show "py_upper T s = s"
    using T assms(2) by (auto simp: list_all_iff base32_char_def ascii_upper_def intro!: map_idI)
  show "filter (\<lambda>c. c \<noteq> 32) s = s"
    using assms(2) by (auto simp: list_all_iff base32_char_def filter_id_conv)
  have "\<And>c. base32_char c \<Longrightarrow> c \<noteq> 61" by (auto simp: base32_char_def)
  from ends [OF this] show "rstrip_eq s = s" by (simp add: rstrip_eq_def)
  have "58 \<notin> set (map ascii_lower s)"
    using assms(2) by (auto simp: list_all_iff base32_char_def ascii_lower_def split: if_splits)
  moreover have "58 \<in> set (utext ''otpauth://'')" by code_simp
  ultimately show "take 10 (py_lower T s) \<noteq> utext ''otpauth://''" using T by (metis in_set_takeD)
qed

lemma normalize_totp_secret_Some:
  "normalize_totp_secret T raw = Inr (Some s) \<Longrightarrow> s \<noteq> [] \<and> list_all base32_char s"
  by (auto simp: normalize_totp_secret_def Let_def result_simps split: option.splits if_splits)

section \<open>A concrete text environment\<close>

text \<open>ASCII tables everywhere; the query parser finds no secret.\<close>

definition ascii_ops :: text_ops where
  "ascii_ops = \<lparr>py_strip = ascii_strip, pd_trim = ascii_strip, py_lower = map ascii_lower, py_upper = map ascii_upper,
     py_islower = (\<lambda>c. 97 \<le> c \<and> c \<le> 122), py_isupper = (\<lambda>c. 65 \<le> c \<and> c \<le> 90),
     py_isdigit = (\<lambda>c. 48 \<le> c \<and> c \<le> 57),
     py_isalnum = (\<lambda>c. (97 \<le> c \<and> c \<le> 122) \<or> (65 \<le> c \<and> c \<le> 90) \<or> (48 \<le> c \<and> c \<le> 57)),
     otp_query_secret = (\<lambda>_. [])\<rparr>"

lemma dropWhile_cut: "\<exists>a. s = a @ dropWhile Q s"
  by (metis takeWhile_dropWhile_id)

lemma ascii_strip_cuts: "cuts ascii_strip"
proof -
  have "\<exists>a b. s = a @ ascii_strip s @ b" for s
  proof -
    obtain a where a: "s = a @ dropWhile ascii_space s" using dropWhile_cut by blast
    obtain b where "rev (dropWhile ascii_space s) = b @ dropWhile ascii_space (rev (dropWhile ascii_space s))"
      using dropWhile_cut by blast
    then have "dropWhile ascii_space s = ascii_strip s @ rev b"
      unfolding ascii_strip_def by (metis rev_append rev_rev_ident)
    with a show ?thesis by metis
  qed
  moreover have "ascii_strip (ascii_strip s) = ascii_strip s" for s
  proof -
    let ?m = "dropWhile ascii_space s"
    have front: "?m = [] \<or> \<not> ascii_space (hd ?m)" using hd_dropWhile [of ascii_space s] by auto
    have strip: "ascii_strip s = rev (dropWhile ascii_space (rev ?m))" by (simp add: ascii_strip_def)
    obtain b where b: "?m = ascii_strip s @ b"
      unfolding strip by (metis dropWhile_cut rev_append rev_rev_ident)
    have "dropWhile ascii_space (ascii_strip s) = ascii_strip s"
      using front b by (cases "ascii_strip s") auto
    moreover have "dropWhile ascii_space (rev (ascii_strip s)) = rev (ascii_strip s)"
      unfolding strip by (simp add: dropWhile_idem)
    ultimately show ?thesis by (simp add: ascii_strip_def [of "ascii_strip s"])
  qed
  ultimately show ?thesis by (simp add: cuts_def)
qed

lemma ascii_ops_ok: "text_ok ascii_ops"
  by (simp add: text_ok_def ascii_ops_def ascii_strip_cuts)

section \<open>Properties\<close>


definition sample_payload :: "ustr payload" where
  "sample_payload = \<lparr>pw_name = utext '' mail '', pw_kind = utext ''login'', pw_username = None, pw_value = [32, 120],
     pw_url = None, pw_totp_secret = Some (utext ''abc d234=''), pw_description = None,
     pw_tags = [utext ''a'', utext '' a '', []], pw_custom_fields = [], pw_folder = Some [], pw_folder_id = None,
     pw_favorite = False\<rparr>"

lemma sample_payload_valid:
  "validate_password ascii_ops sample_payload = Inr \<lparr>pw_name = utext ''mail'', pw_kind = Login, pw_username = None,
     pw_value = [32, 120], pw_url = None, pw_totp_secret = Some (utext ''ABCD234''), pw_description = None,
     pw_tags = [utext ''a''], pw_custom_fields = [], pw_folder = None, pw_folder_id = None, pw_favorite = False\<rparr>"
  by code_simp


text \<open>
  Two-factor secrets have one stored form. A normalized secret is non-empty base32, and
  normalizing it again, strictly or leniently, changes nothing.
\<close>

theorem totp_normal_form:
  assumes "text_ok T" and "normalize_totp_secret T raw = Inr (Some s)"
  shows "list_all base32_char s \<and> s \<noteq> [] \<and> normalize_totp_secret T (Some s) = Inr (Some s)
    \<and> normalize_totp_secret_leniently T (Some s) = Some s"
proof -
  have s: "s \<noteq> []" "list_all base32_char s" using normalize_totp_secret_Some [OF assms(2)] by blast+
  note fixed = base32_fixed [OF assms(1) s(2)]
  have "normalize_totp_secret T (Some s) = Inr (Some s)"
    using s fixed by (simp add: normalize_totp_secret_def Let_def)
  with s show ?thesis by (simp add: normalize_totp_secret_leniently_def)
qed

theorem totp_normal_form_witness:
  "normalize_totp_secret ascii_ops (Some (utext ''abc d234='')) = Inr (Some (utext ''ABCD234''))
     \<and> normalize_totp_secret ascii_ops (Some (utext ''ABCD234'')) = Inr (Some (utext ''ABCD234''))"
proof -
  have "normalize_totp_secret ascii_ops (Some (utext ''abc d234='')) = Inr (Some (utext ''ABCD234''))" by code_simp
  with totp_normal_form [OF ascii_ops_ok this] show ?thesis by simp
qed

end
