(* ===== verification/Passwords.thy ===== *)
theory Passwords
  imports Access Validators
begin

text \<open>
  Entries (\<^verbatim>\<open>backend/crud/password.py\<close>, \<^verbatim>\<open>PasswordCRUD\<close>) and the access checks around them
  (\<^verbatim>\<open>backend/crud/access.py\<close>, \<^verbatim>\<open>AuthorizedPasswordCRUD\<close>). A payload is a validated
  \<^verbatim>\<open>Password\<close>. \<open>entry_draw\<close> holds what an operation draws: the uid and nonce of a new entry, uid
  and nonce of a new folder, the text of the current time in a history item, and the current time
  as stored (one reading per operation).
\<close>

section \<open>Documents and responses\<close>

record entry_draw =
  ed_uid :: bytes
  ed_nonce :: bytes
  ed_folder :: "bytes \<times> bytes"
  ed_time_text :: ustr
  ed_now :: time

definition HISTORY_LIMIT :: nat where "HISTORY_LIMIT = 10"

definition document_from :: "password \<Rightarrow> history_item list \<Rightarrow> entry_document" where
  "document_from p history =
     \<lparr>doc_name = pw_name p, doc_kind = pw_kind p, doc_username = pw_username p, doc_value = pw_value p,
      doc_url = pw_url p, doc_totp_secret = pw_totp_secret p, doc_description = pw_description p,
      doc_tags = pw_tags p, doc_custom_fields = pw_custom_fields p, doc_folder = clean_folder (pw_folder p),
      doc_favorite = pw_favorite p, doc_history = history\<rparr>"

record password_response =
  pr_id :: nat
  pr_document :: entry_document
  pr_totp_secret :: "ustr option"
  pr_folder :: "ustr option"
  pr_folder_id :: "nat option"
  pr_backed_up :: bool
  pr_created :: "time cell"
  pr_updated :: "time cell"
  pr_deleted :: "time cell option"
  pr_attachment_count :: nat

definition to_response :: "text_ops \<Rightarrow> entry_row \<Rightarrow> entry_document \<Rightarrow> nat \<Rightarrow> password_response" where
  "to_response T e doc count =
     \<lparr>pr_id = e_id e, pr_document = doc,
      pr_totp_secret = normalize_totp_secret_leniently T (doc_totp_secret doc),
      pr_folder = clean_folder (doc_folder doc), pr_folder_id = e_folder_id e, pr_backed_up = e_backed_up e,
      pr_created = e_created e, pr_updated = e_updated e, pr_deleted = e_deleted e,
      pr_attachment_count = count\<rparr>"

definition attachment_count :: "db \<Rightarrow> nat \<Rightarrow> nat" where
  "attachment_count d i = length (filter (\<lambda>a. at_entry_id a = i) (attachments d))"

section \<open>Folders of an entry\<close>

definition flush_or_conflict :: "error + 'a \<Rightarrow> error + 'a" where
  "flush_or_conflict r = catching (\<lambda>e. if e = IntegrityError then InvalidRequest else e) r"

definition folder_named ::
    "env \<Rightarrow> vault_key \<Rightarrow> bytes \<times> bytes \<Rightarrow> nat option \<Rightarrow> ustr option \<Rightarrow> db \<Rightarrow> error + nat option \<times> db" where
  "folder_named E key random owner name d =
     (case clean_folder name of
        None \<Rightarrow> Inr (None, d)
      | Some n \<Rightarrow>
          andThen (orElse owner InvalidRequest) (\<lambda>i.
          andThen (folder_name_index (prims E) key i n) (\<lambda>ix.
          case row_of (\<lambda>f. (f_owner_id f, f_name_index f)) (i, Good ix) (folders d) of
            None \<Rightarrow>
              andThen (seal_folder E key (snd random)
                \<lparr>f_id = 0, f_uid = Good (fst random), f_owner_id = i, f_name_index = Good ix,
                 f_document = Good []\<rparr> n) (\<lambda>f.
              andThen (insert_folder f d) (\<lambda>(j, d'). Inr (Some j, d')))
          | Some f \<Rightarrow> andThen (open_folder E key f) (\<lambda>_. Inr (Some (f_id f), d)))))"

text \<open>\<^verbatim>\<open>_folder_for\<close>: the folder and the payload with the folder's stored name.\<close>

definition payload_folder ::
    "env \<Rightarrow> vault_key \<Rightarrow> bytes \<times> bytes \<Rightarrow> nat option \<Rightarrow> password \<Rightarrow> db \<Rightarrow> error + nat option \<times> password \<times> db" where
  "payload_folder E key random owner p d =
     (case pw_folder_id p of
        Some i \<Rightarrow>
          andThen (orElse (get_folder d i) InvalidRequest) (\<lambda>f.
          andThen (open_folder E key f) (\<lambda>name.
          andThen (ensure (pw_folder p = None \<or> pw_folder p = Some [] \<or> pw_folder p = Some name) InvalidRequest) (\<lambda>_.
          Inr (Some (f_id f), p\<lparr>pw_folder := Some name\<rparr>, d))))
      | None \<Rightarrow>
          andThen (folder_named E key random owner (pw_folder p) d) (\<lambda>(folder, d'). Inr (folder, p, d')))"

section \<open>PasswordCRUD\<close>

definition new_entry :: "entry_draw \<Rightarrow> nat option \<Rightarrow> nat option \<Rightarrow> entry_row" where
  "new_entry w owner folder =
     \<lparr>e_id = 0, e_uid = Good (ed_uid w), e_created = Good (ed_now w), e_updated = Good (ed_now w), e_deleted = None,
      e_owner_id = owner, e_folder_id = folder, e_name_index = Good [], e_document = Good [], e_backed_up = False\<rparr>"

definition create_password ::
    "env \<Rightarrow> nat option \<Rightarrow> password \<Rightarrow> vault_key \<Rightarrow> entry_draw \<Rightarrow> db \<Rightarrow> error + db" where
  "create_password E owner p key w d =
     andThen (payload_folder E key (ed_folder w) owner p d) (\<lambda>(folder, resolved, d\<^sub>1).
     andThen (seal_entry E key (ed_nonce w) (new_entry w owner folder) (document_from resolved [])) (\<lambda>e.
     andThen (flush_or_conflict (insert_entry e d\<^sub>1)) (\<lambda>(i, d\<^sub>2). Inr d\<^sub>2)))"

definition next_history :: "entry_document \<Rightarrow> password \<Rightarrow> ustr \<Rightarrow> history_item list" where
  "next_history current p time_text =
     (if doc_value current \<noteq> pw_value p \<and> pw_kind p = Login
      then take HISTORY_LIMIT (\<lparr>h_value = doc_value current, h_changed_at = time_text\<rparr> # doc_history current)
      else doc_history current)"

definition update_password ::
    "env \<Rightarrow> nat option \<Rightarrow> ustr \<Rightarrow> password \<Rightarrow> vault_key \<Rightarrow> entry_draw \<Rightarrow> db \<Rightarrow> error + db" where
  "update_password E owner name p key w d =
     andThen (find_entry E key name False None d) (\<lambda>(e, current).
     andThen (if doc_name current \<noteq> pw_name p then active_entry_exists E key (pw_name p) d else Inr False) (\<lambda>taken.
     andThen (ensure (\<not> taken) InvalidRequest) (\<lambda>_.
     andThen (payload_folder E key (ed_folder w) owner p d) (\<lambda>(folder, resolved, d\<^sub>1).
     andThen (seal_entry E key (ed_nonce w) (e\<lparr>e_folder_id := folder\<rparr>)
       (document_from resolved (next_history current p (ed_time_text w)))) (\<lambda>e'.
     flush_or_conflict (update_entry (ed_now w) (e'\<lparr>e_backed_up := False\<rparr>) d\<^sub>1))))))"

definition set_favorite ::
    "env \<Rightarrow> ustr \<Rightarrow> bool \<Rightarrow> vault_key \<Rightarrow> entry_draw \<Rightarrow> db \<Rightarrow> error + db" where
  "set_favorite E name favorite key w d =
     andThen (find_entry E key name False None d) (\<lambda>(e, doc).
     andThen (seal_entry E key (ed_nonce w) e (doc\<lparr>doc_favorite := favorite\<rparr>)) (\<lambda>e'.
     update_entry (ed_now w) e' d))"

definition delete_password :: "env \<Rightarrow> ustr \<Rightarrow> vault_key \<Rightarrow> time \<Rightarrow> db \<Rightarrow> error + db" where
  "delete_password E name key now d =
     andThen (find_entry E key name False None d) (\<lambda>(e, _).
     update_entry now (e\<lparr>e_deleted := Some (Good now)\<rparr>) d)"

definition restore_password ::
    "env \<Rightarrow> ustr \<Rightarrow> nat option \<Rightarrow> vault_key \<Rightarrow> time \<Rightarrow> db \<Rightarrow> error + db" where
  "restore_password E name entry_id key now d =
     andThen (find_entry E key name True entry_id d) (\<lambda>(e, _).
     andThen (active_entry_exists E key name d) (\<lambda>taken.
     andThen (ensure (\<not> taken) InvalidRequest) (\<lambda>_.
     flush_or_conflict (update_entry now (e\<lparr>e_deleted := None\<rparr>) d))))"

definition purge_password :: "env \<Rightarrow> ustr \<Rightarrow> nat option \<Rightarrow> vault_key \<Rightarrow> db \<Rightarrow> error + db" where
  "purge_password E name entry_id key d =
     andThen (find_entry E key name True entry_id d) (\<lambda>(e, _). Inr (delete_entry_row (e_id e) d))"

text \<open>Listings skip rows that are damaged and stop at any other error.\<close>

fun readable_rows :: "env \<Rightarrow> vault_key \<Rightarrow> entry_row list \<Rightarrow> error + (entry_row \<times> entry_document) list" where
  "readable_rows E key [] = Inr []"
| "readable_rows E key (e # es) =
     (case open_entry E key e of
        Inr doc \<Rightarrow> andThen (readable_rows E key es) (\<lambda>xs. Inr ((e, doc) # xs))
      | Inl err \<Rightarrow> if err = VaultDamaged then readable_rows E key es else Inl err)"

text \<open>\<^verbatim>\<open>ORDER BY deleted DESC, id DESC\<close>; the active ones are sorted by name afterwards.\<close>

definition trash_order :: "entry_row list \<Rightarrow> entry_row list" where
  "trash_order es = sort_key (\<lambda>e. (- deleted_rank e, - int (e_id e))) es"

definition listed ::
    "text_ops \<Rightarrow> env \<Rightarrow> vault_key \<Rightarrow> bool \<Rightarrow> nat list option \<Rightarrow> db \<Rightarrow> error + password_response list" where
  "listed T E key deleted entry_ids d =
     (let rows = filter (\<lambda>e. (e_deleted e \<noteq> None) = deleted
            \<and> (case entry_ids of None \<Rightarrow> True | Some ids \<Rightarrow> e_id e \<in> set ids)) (entries d)
      in andThen (readable_rows E key (if deleted then trash_order rows else rows)) (\<lambda>xs.
         Inr (map (\<lambda>(e, doc). to_response T e doc (attachment_count d (e_id e)))
           (if deleted then xs else sort_key (\<lambda>(e, doc). doc_name doc) xs))))"

definition get_password ::
    "text_ops \<Rightarrow> env \<Rightarrow> ustr \<Rightarrow> vault_key \<Rightarrow> db \<Rightarrow> error + password_response" where
  "get_password T E name key d =
     andThen (find_entry E key name False None d) (\<lambda>(e, doc).
     Inr (to_response T e doc (attachment_count d (e_id e))))"

section \<open>AuthorizedPasswordCRUD\<close>

definition folder_writable :: "auth_context \<Rightarrow> time \<Rightarrow> db \<Rightarrow> nat \<Rightarrow> error + folder_row" where
  "folder_writable c now d i =
     andThen (get_folder_or_404 d i) (\<lambda>f.
     andThen (ensure (permission_for d now f (user_of c) \<in> {Some Owner, Some WriteAccess}) Forbidden) (\<lambda>_.
     Inr f))"

definition authorized_create ::
    "env \<Rightarrow> auth_context \<Rightarrow> password \<Rightarrow> vault_key \<Rightarrow> entry_draw \<Rightarrow> db \<Rightarrow> error + db" where
  "authorized_create E c p key w d =
     andThen (case pw_folder_id p of None \<Rightarrow> Inr None
              | Some i \<Rightarrow> andThen (folder_writable c (ed_now w) d i) (\<lambda>f. Inr (Some f))) (\<lambda>folder.
     andThen (create_password E (Some (owner_id c)) p key w d) (\<lambda>d\<^sub>1.
     andThen (find_entry E key (pw_name p) False None d\<^sub>1) (\<lambda>(e, _).
     let e' = e\<lparr>e_owner_id := Some (case folder of None \<Rightarrow> owner_id c | Some f \<Rightarrow> f_owner_id f)\<rparr>;
         audit = (\<lambda>d. case e_folder_id e of None \<Rightarrow> d
           | Some i \<Rightarrow> insert_audit (audit_of c (ed_now w) ''folder'' ''entry_added'' i) d);
         share = (\<lambda>d. if u_role (ctx_user c) = Service \<and> e_folder_id e = None
           then put_entry_access \<lparr>ea_entry_id = e_id e, ea_user_id = user_of c, ea_permission = Write,
                  ea_expires_at = None, ea_granted_by = Some (owner_id c)\<rparr> d
           else d)
     in andThen (update_entry (ed_now w) e' d\<^sub>1) (\<lambda>d\<^sub>2. Inr (share (audit d\<^sub>2))))))"

definition moved_payload :: "entry_row \<Rightarrow> entry_document \<Rightarrow> password \<Rightarrow> password" where
  "moved_payload e current p =
     (if pw_folder_id p = None \<and> e_folder_id e \<noteq> None \<and> pw_folder p = doc_folder current
      then p\<lparr>pw_folder_id := e_folder_id e\<rparr> else p)"

definition check_move ::
    "auth_context \<Rightarrow> time \<Rightarrow> entry_row \<Rightarrow> password \<Rightarrow> db \<Rightarrow> error + db" where
  "check_move c now e p d =
     (if pw_folder_id p = e_folder_id e then Inr d
      else
        andThen (require c now d (e_id e) Owner) (\<lambda>_.
        andThen (case pw_folder_id p of None \<Rightarrow> Inr ()
          | Some i \<Rightarrow> andThen (folder_writable c now d i) (\<lambda>f.
              ensure (Some (f_owner_id f) = e_owner_id e) InvalidRequest)) (\<lambda>_.
        let audit = (\<lambda>action folder d. case folder of None \<Rightarrow> d
              | Some i \<Rightarrow> insert_audit (audit_of c now ''folder'' action i) d)
        in Inr (audit ''entry_added'' (pw_folder_id p) (audit ''entry_removed'' (e_folder_id e) d)))))"

definition authorized_update ::
    "env \<Rightarrow> auth_context \<Rightarrow> ustr \<Rightarrow> password \<Rightarrow> vault_key \<Rightarrow> entry_draw \<Rightarrow> db \<Rightarrow> error + db" where
  "authorized_update E c name p key w d =
     andThen (entry_by_name E c (ed_now w) name key WriteAccess False None d) (\<lambda>e.
     andThen (open_entry E key e) (\<lambda>current.
     let p' = moved_payload e current p
     in andThen (check_move c (ed_now w) e p' d) (\<lambda>d\<^sub>1.
        update_password E (Some (owner_id c)) name p' key w d\<^sub>1)))"

definition authorized_favorite ::
    "env \<Rightarrow> auth_context \<Rightarrow> ustr \<Rightarrow> bool \<Rightarrow> vault_key \<Rightarrow> entry_draw \<Rightarrow> db \<Rightarrow> error + db" where
  "authorized_favorite E c name favorite key w d =
     andThen (entry_by_name E c (ed_now w) name key WriteAccess False None d) (\<lambda>_.
     set_favorite E name favorite key w d)"

definition authorized_delete ::
    "env \<Rightarrow> auth_context \<Rightarrow> ustr \<Rightarrow> vault_key \<Rightarrow> time \<Rightarrow> db \<Rightarrow> error + db" where
  "authorized_delete E c name key now d =
     andThen (entry_by_name E c now name key WriteAccess False None d) (\<lambda>_. delete_password E name key now d)"

definition authorized_restore ::
    "env \<Rightarrow> auth_context \<Rightarrow> ustr \<Rightarrow> nat option \<Rightarrow> vault_key \<Rightarrow> time \<Rightarrow> db \<Rightarrow> error + db" where
  "authorized_restore E c name entry_id key now d =
     andThen (entry_by_name E c now name key WriteAccess True entry_id d) (\<lambda>_.
     restore_password E name entry_id key now d)"

definition authorized_purge ::
    "env \<Rightarrow> auth_context \<Rightarrow> ustr \<Rightarrow> nat option \<Rightarrow> vault_key \<Rightarrow> time \<Rightarrow> db \<Rightarrow> error + db" where
  "authorized_purge E c name entry_id key now d =
     andThen (entry_by_name E c now name key Owner True entry_id d) (\<lambda>_. purge_password E name entry_id key d)"

record listed_entry =
  le_response :: password_response
  le_access :: entry_access_info

text \<open>\<^verbatim>\<open>access[response.id]\<close> raises when the access map lacks the entry.\<close>

definition authorized_list ::
    "text_ops \<Rightarrow> env \<Rightarrow> auth_context \<Rightarrow> vault_key \<Rightarrow> bool \<Rightarrow> time \<Rightarrow> db \<Rightarrow> error + listed_entry list" where
  "authorized_list T E c key deleted now d =
     andThen (listed T E key deleted (Some (visible_ids c now deleted d)) d) (\<lambda>rs.
     andThen (access_map E c now deleted d) (\<lambda>infos.
     map_res (\<lambda>r. andThen (orElse (row_of ei_entry_id (pr_id r) infos) ValueError) (\<lambda>i.
       Inr \<lparr>le_response = r, le_access = i\<rparr>)) rs))"

definition authorized_get ::
    "text_ops \<Rightarrow> env \<Rightarrow> auth_context \<Rightarrow> ustr \<Rightarrow> vault_key \<Rightarrow> time \<Rightarrow> db \<Rightarrow> error + listed_entry" where
  "authorized_get T E c name key now d =
     andThen (entry_by_name E c now name key ReadAccess False None d) (\<lambda>e.
     andThen (get_password T E name key d) (\<lambda>r.
     andThen (orElse (e_owner_id e) ValueError) (\<lambda>i.
     andThen (orElse (get_user d i) ValueError) (\<lambda>u.
     andThen (permission c now d (e_id e)) (\<lambda>p.
     andThen (entry_sources E c now d (e_id e)) (\<lambda>ss.
     Inr \<lparr>le_response = r, le_access = \<lparr>ei_entry_id = e_id e, ei_owner_id = i, ei_owner_username = u_username u,
       ei_access = p, ei_sources = ss\<rparr>\<rparr>))))))"

section \<open>Lemmas\<close>

text \<open>Resolving the folder of a payload may add a folder and changes nothing else.\<close>

definition folders_grow :: "db \<Rightarrow> db \<Rightarrow> bool" where
  "folders_grow d d' \<longleftrightarrow> d' = d\<lparr>folders := folders d', seq_folders := seq_folders d'\<rparr>
     \<and> (\<forall>j g. get_folder d j = Some g \<longrightarrow> get_folder d' j = Some g) \<and> folder_ids_ok d'"

lemma folders_grow_refl: "folder_ids_ok d \<Longrightarrow> folders_grow d d"
  by (simp add: folders_grow_def)

lemma folders_growD:
  assumes "folders_grow d d'"
  shows "entries d' = entries d" "users d' = users d" "entry_access d' = entry_access d"
    "folder_user_access d' = folder_user_access d" "folder_group_access d' = folder_group_access d"
    "group_members d' = group_members d" "attachments d' = attachments d" "seq_entries d' = seq_entries d"
    "vault d' = vault d" "get_folder d j = Some g \<Longrightarrow> get_folder d' j = Some g" "folder_ids_ok d'"
proof -
  from assms have d': "d' = d\<lparr>folders := folders d', seq_folders := seq_folders d'\<rparr>"
    and "\<forall>j g. get_folder d j = Some g \<longrightarrow> get_folder d' j = Some g" "folder_ids_ok d'"
    by (simp_all add: folders_grow_def)
  then show "get_folder d j = Some g \<Longrightarrow> get_folder d' j = Some g" "folder_ids_ok d'" by blast+
  show "entries d' = entries d" "users d' = users d" "entry_access d' = entry_access d"
    "folder_user_access d' = folder_user_access d" "folder_group_access d' = folder_group_access d"
    "group_members d' = group_members d" "attachments d' = attachments d" "seq_entries d' = seq_entries d"
    "vault d' = vault d"
    by (subst d', simp)+
qed

lemma insert_folder_grows:
  "insert_folder f d = Inr (i, d') \<Longrightarrow> folder_ids_ok d \<Longrightarrow> folders_grow d d'"
  using insert_folder_Inr [of f d i d']
  by (auto simp: folders_grow_def insert_folder_def Let_def result_simps)

lemma folder_named_Inr:
  assumes "folder_named E key random owner name d = Inr (folder, d')" and "folder_ids_ok d"
  shows "folders_grow d d'" and "folder = None \<longleftrightarrow> clean_folder name = None"
    and "folder = Some i \<Longrightarrow> \<exists>f. get_folder d' i = Some f \<and> owner = Some (f_owner_id f)"
proof -
  have *: "folders_grow d d' \<and> (folder = None \<longleftrightarrow> clean_folder name = None)
    \<and> (\<forall>i. folder = Some i \<longrightarrow> (\<exists>f. get_folder d' i = Some f \<and> owner = Some (f_owner_id f)))"
  proof (cases "clean_folder name")
    case None
    with assms show ?thesis by (simp add: folder_named_def folders_grow_refl)
  next
    case (Some n)
    with assms(1) obtain j ix where j: "owner = Some j" and ix: "folder_name_index (prims E) key j n = Inr ix"
      by (auto simp: folder_named_def result_simps)
    let ?k = "\<lambda>f. (f_owner_id f, f_name_index f)"
    show ?thesis
    proof (cases "row_of ?k (j, Good ix) (folders d)")
      case None
      with assms(1) Some j ix obtain f i where
        f: "seal_folder E key (snd random) \<lparr>f_id = 0, f_uid = Good (fst random), f_owner_id = j,
            f_name_index = Good ix, f_document = Good []\<rparr> n = Inr f" and
        ins: "insert_folder f d = Inr (i, d')" and folder: "folder = Some i"
        by (auto simp: folder_named_def result_simps)
      have "f_owner_id f = j" using folder_rows.seal_keeps_frame [OF f] by (cases f) (simp add: folder_frame_def)
      with insert_folder_Inr(1) [OF ins assms(2)] insert_folder_grows [OF ins assms(2)] Some folder j
      show ?thesis by auto
    next
      case (Some f)
      with assms(1) \<open>clean_folder name = Some n\<close> j ix have "folder = Some (f_id f)" "d' = d"
        by (auto simp: folder_named_def result_simps)
      moreover from row_of_Some [OF Some] have "f \<in> set (folders d)" "f_owner_id f = j" by auto
      moreover from this assms(2) have "get_folder d (f_id f) = Some f"
        by (simp add: get_folder_def folder_ids_ok_def row_of_in_set)
      ultimately show ?thesis using assms(2) j \<open>clean_folder name = Some n\<close> by (auto simp: folders_grow_refl)
    qed
  qed
  then show "folders_grow d d'" "folder = None \<longleftrightarrow> clean_folder name = None"
    "folder = Some i \<Longrightarrow> \<exists>f. get_folder d' i = Some f \<and> owner = Some (f_owner_id f)" by blast+
qed

lemma payload_folder_Inr:
  assumes "payload_folder E key random owner p d = Inr (folder, resolved, d')" and "folder_ids_ok d"
  shows "folders_grow d d'" and "pw_name resolved = pw_name p" and "pw_value resolved = pw_value p"
    and "pw_folder_id p \<noteq> None \<Longrightarrow> folder = pw_folder_id p \<and> d' = d"
    and "pw_folder_id p = None \<Longrightarrow> folder = None \<longleftrightarrow> clean_folder (pw_folder p) = None"
    and "pw_folder_id p = None \<Longrightarrow> folder = Some i \<Longrightarrow> \<exists>f. get_folder d' i = Some f \<and> owner = Some (f_owner_id f)"
proof -
  show "folders_grow d d'" "pw_name resolved = pw_name p" "pw_value resolved = pw_value p"
    using assms
    by (auto simp: payload_folder_def result_simps folders_grow_refl split: option.splits intro: folder_named_Inr(1))
  show "pw_folder_id p \<noteq> None \<Longrightarrow> folder = pw_folder_id p \<and> d' = d"
    using assms(1) by (auto simp: payload_folder_def get_folder_def result_simps dest: row_of_Some)
  show "pw_folder_id p = None \<Longrightarrow> folder = None \<longleftrightarrow> clean_folder (pw_folder p) = None"
    "pw_folder_id p = None \<Longrightarrow> folder = Some i \<Longrightarrow> \<exists>f. get_folder d' i = Some f \<and> owner = Some (f_owner_id f)"
    using assms by (auto simp: payload_folder_def result_simps dest: folder_named_Inr(2,3))
qed

lemma keys_ok_folder_ids: "keys_ok d \<Longrightarrow> folder_ids_ok d"
  by (simp add: keys_ok_def folder_ids_ok_def)

lemma flush_or_conflict_Inr [result_simps]: "flush_or_conflict r = Inr x \<longleftrightarrow> r = Inr x"
  by (simp add: flush_or_conflict_def result_simps)

lemma insert_entry_Inr:
  assumes "insert_entry e d = Inr (i, d')" and "keys_ok d"
  shows "i = Suc (seq_entries d)" and "d' = d\<lparr>entries := entries d @ [e\<lparr>e_id := i\<rparr>], seq_entries := i\<rparr>"
    and "entries_unique (entries d')" and "get_entry d i = None" and "get_entry d' = (get_entry d)(i \<mapsto> e\<lparr>e_id := i\<rparr>)"
    and "distinct (map e_id (entries d'))"
proof -
  from assms(1) show i: "i = Suc (seq_entries d)"
      and d': "d' = d\<lparr>entries := entries d @ [e\<lparr>e_id := i\<rparr>], seq_entries := i\<rparr>"
      and "entries_unique (entries d')"
    by (auto simp: insert_entry_def Let_def result_simps)
  show new: "get_entry d i = None"
    using assms(2) i by (force simp: get_entry_def row_of_None keys_ok_def)
  show "get_entry d' = (get_entry d)(i \<mapsto> e\<lparr>e_id := i\<rparr>)"
    using new by (auto simp: d' get_entry_def row_simps fun_eq_iff split: option.splits)
  show "distinct (map e_id (entries d'))"
    using assms(2) i by (force simp: d' keys_ok_def)
qed

text \<open>What an update does to the entry it finds, and that it does nothing to any other.\<close>

lemma find_entry_get:
  assumes "find_entry E key name deleted entry_id d = Inr (e, doc)" and "keys_ok d"
  shows "get_entry d (e_id e) = Some e" and "open_entry E key e = Inr doc" and "doc_name doc = name"
proof -
  show "open_entry E key e = Inr doc" "doc_name doc = name" using assms(1) by (auto simp: find_entry_Inr)
  show "get_entry d (e_id e) = Some e"
    using find_entry_row(1) [OF assms(1)] assms(2) by (simp add: get_entry_def keys_ok_def row_of_in_set)
qed

lemma update_password_Inr:
  assumes "env_ok E" and "length (ed_nonce w) = NONCE_BYTES" and "keys_ok d"
    and "update_password E owner name p key w d = Inr d'"
  obtains e current folder resolved d\<^sub>1 e' where
    "find_entry E key name False None d = Inr (e, current)"
    "payload_folder E key (ed_folder w) owner p d = Inr (folder, resolved, d\<^sub>1)"
    "get_entry d' = (get_entry d)(e_id e \<mapsto> e')"
    "open_entry E key e' = Inr (document_from resolved (next_history current p (ed_time_text w)))"
    "e_folder_id e' = folder" "e_owner_id e' = e_owner_id e" "e_deleted e' = None" "e_uid e' = e_uid e"
    "d' = d\<^sub>1\<lparr>entries := entries d'\<rparr>"
proof -
  from assms(4) obtain e current folder resolved d\<^sub>1 s where
    find: "find_entry E key name False None d = Inr (e, current)" and
    folder: "payload_folder E key (ed_folder w) owner p d = Inr (folder, resolved, d\<^sub>1)" and
    s: "seal_entry E key (ed_nonce w) (e\<lparr>e_folder_id := folder\<rparr>)
        (document_from resolved (next_history current p (ed_time_text w))) = Inr s" and
    d': "update_entry (ed_now w) (s\<lparr>e_backed_up := False\<rparr>) d\<^sub>1 = Inr d'"
    unfolding update_password_def by (auto simp: result_simps)
  note frame = entry_frame_eqD [OF entry_rows.seal_keeps_frame [OF s], simplified]
  have grow: "folders_grow d d\<^sub>1" using payload_folder_Inr(1) [OF folder] assms(3) by (simp add: keys_ok_folder_ids)
  note same = folders_growD [OF grow]
  have ids: "distinct (map e_id (entries d\<^sub>1))" using assms(3) by (simp add: same keys_ok_def)
  have get1: "get_entry d\<^sub>1 = get_entry d" by (simp add: get_entry_def same fun_eq_iff)
  note found = find_entry_get [OF find assms(3)]
  have "get_entry d\<^sub>1 (e_id (s\<lparr>e_backed_up := False\<rparr>)) \<noteq> None" using found(1) by (simp add: get1 frame)
  then obtain e' where "e' = s\<lparr>e_backed_up := False\<rparr> \<or> e' = s\<lparr>e_backed_up := False\<rparr>\<lparr>e_updated := Good (ed_now w)\<rparr>"
      "get_entry d' = (get_entry d\<^sub>1)(e_id (s\<lparr>e_backed_up := False\<rparr>) \<mapsto> e')" "d' = d\<^sub>1\<lparr>entries := entries d'\<rparr>"
    by (rule update_entry_Inr [OF d' ids])
  then have e': "e' = s\<lparr>e_backed_up := False\<rparr> \<or> e' = s\<lparr>e_backed_up := False, e_updated := Good (ed_now w)\<rparr>"
      "get_entry d' = (get_entry d\<^sub>1)(e_id s \<mapsto> e')" "d' = d\<^sub>1\<lparr>entries := entries d'\<rparr>"
    by simp_all
  have "entry_readable (e\<lparr>e_folder_id := folder\<rparr>)"
    using entry_rows.opened_is_readable [OF found(2)] by (simp add: entry_readable_def)
  from open_entry_seal_entry [OF assms(1,2) this s]
  have "open_entry E key (s\<lparr>e_backed_up := False\<rparr>) =
      Inr (document_from resolved (next_history current p (ed_time_text w)))"
    by (simp add: open_entry_def)
  with e'(1) have opened: "open_entry E key e' = Inr (document_from resolved (next_history current p (ed_time_text w)))"
    by auto
  have fields: "e_folder_id e' = folder" "e_owner_id e' = e_owner_id e" "e_uid e' = e_uid e" "e_deleted e' = e_deleted e"
    using e'(1) frame by auto
  have "e_deleted e = None" using find_entry_row(2) [OF find] by simp
  with fields that [OF find folder _ opened] e'(2,3) get1 frame show thesis by simp
qed

text \<open>A move is checked and recorded; nothing but the audit log changes.\<close>

definition audits_only :: "db \<Rightarrow> db \<Rightarrow> bool" where
  "audits_only d d' \<longleftrightarrow> d' = d\<lparr>access_audit := access_audit d', seq_audit := seq_audit d'\<rparr>"

lemma audits_only_insert: "audits_only d d' \<Longrightarrow> audits_only d (insert_audit a d')"
  unfolding audits_only_def insert_audit_def by (cases d; cases d') simp

lemma audits_onlyD:
  assumes "audits_only d d'"
  shows "entries d' = entries d" "folders d' = folders d" "keys_ok d' = keys_ok d" "attachments d' = attachments d"
    "entry_access d' = entry_access d" "folder_user_access d' = folder_user_access d"
    "folder_group_access d' = folder_group_access d" "group_members d' = group_members d" "users d' = users d"
    "seq_entries d' = seq_entries d"
  by (subst assms [unfolded audits_only_def]; simp add: keys_ok_def)+

lemma check_move_Inr:
  assumes "check_move c now e p d = Inr d'"
  shows "audits_only d d'" and "pw_folder_id p \<noteq> e_folder_id e \<Longrightarrow> permission c now d (e_id e) = Inr Owner"
    and "pw_folder_id p = Some i \<Longrightarrow> pw_folder_id p \<noteq> e_folder_id e \<Longrightarrow>
      \<exists>f. get_folder d i = Some f \<and> e_owner_id e = Some (f_owner_id f)"
proof -
  have "audits_only d d" by (simp add: audits_only_def)
  with assms show "audits_only d d'"
    unfolding check_move_def Let_def
    by (auto simp: result_simps split: if_splits option.splits intro!: audits_only_insert)
  show "pw_folder_id p \<noteq> e_folder_id e \<Longrightarrow> permission c now d (e_id e) = Inr Owner"
    using assms unfolding check_move_def by (auto simp: require_def result_simps split: if_splits)
  show "\<exists>f. get_folder d i = Some f \<and> e_owner_id e = Some (f_owner_id f)"
    if "pw_folder_id p = Some i" "pw_folder_id p \<noteq> e_folder_id e"
    using assms that unfolding check_move_def
    by (auto simp: folder_writable_def get_folder_or_404_def result_simps split: if_splits)
qed

lemma find_entry_cong: "entries d' = entries d \<Longrightarrow> find_entry E key name deleted i d' = find_entry E key name deleted i d"
  by (simp add: find_entry_def)

lemma entry_by_name_Inr:
  "entry_by_name E c now name key needed deleted i d = Inr e \<longleftrightarrow>
     (\<exists>doc p. find_entry E key name deleted i d = Inr (e, doc) \<and> permission c now d (e_id e) = Inr p
        \<and> access_rank (Some needed) \<le> access_rank (Some p))"
  by (auto simp: entry_by_name_def require_Inr result_simps)

lemma moved_payload_fields [simp]:
  "pw_name (moved_payload e current p) = pw_name p" "pw_folder (moved_payload e current p) = pw_folder p"
  "document_from (moved_payload e current p) h = document_from p h"
  "next_history current (moved_payload e current p) s = next_history current p s"
  by (simp_all add: moved_payload_def document_from_def next_history_def)

lemma moved_payload_folder_id:
  "pw_folder_id (moved_payload e current p) = None \<Longrightarrow> pw_folder_id p = None"
  "pw_folder_id (moved_payload e current p) \<noteq> pw_folder_id p \<Longrightarrow> pw_folder_id (moved_payload e current p) = e_folder_id e"
  by (auto simp: moved_payload_def split: if_splits)

lemma payload_folder_document:
  "payload_folder E key random owner p d = Inr (folder, resolved, d') \<Longrightarrow>
     document_from resolved h = (document_from p h)\<lparr>doc_folder := doc_folder (document_from resolved h)\<rparr>"
  by (auto simp: payload_folder_def document_from_def result_simps split: option.splits)

lemma length_next_history: "length (next_history current p s) \<le> max HISTORY_LIMIT (length (doc_history current))"
  by (auto simp: next_history_def)

text \<open>An update by an authorized user, from the entry found to the row written.\<close>

lemma authorized_update_Inr:
  assumes "env_ok E" and "length (ed_nonce w) = NONCE_BYTES" and "keys_ok d"
    and "authorized_update E c name p key w d = Inr d'"
  obtains e current folder resolved d\<^sub>0 d\<^sub>1 e' q where
    "find_entry E key name False None d = Inr (e, current)"
    "permission c (ed_now w) d (e_id e) = Inr q" "q = WriteAccess \<or> q = Owner"
    "check_move c (ed_now w) e (moved_payload e current p) d = Inr d\<^sub>0"
    "payload_folder E key (ed_folder w) (Some (owner_id c)) (moved_payload e current p) d\<^sub>0 = Inr (folder, resolved, d\<^sub>1)"
    "get_entry d' = (get_entry d)(e_id e \<mapsto> e')"
    "open_entry E key e' = Inr (document_from resolved (next_history current p (ed_time_text w)))"
    "e_folder_id e' = folder" "e_owner_id e' = e_owner_id e" "e_deleted e' = None" "e_uid e' = e_uid e"
    "d' = d\<^sub>1\<lparr>entries := entries d'\<rparr>"
proof -
  from assms(4) obtain e current doc d\<^sub>0 q where
    found: "find_entry E key name False None d = Inr (e, doc)" and
    q: "permission c (ed_now w) d (e_id e) = Inr q" "access_rank (Some WriteAccess) \<le> access_rank (Some q)" and
    cur: "open_entry E key e = Inr current" and
    move: "check_move c (ed_now w) e (moved_payload e current p) d = Inr d\<^sub>0" and
    run: "update_password E (Some (owner_id c)) name (moved_payload e current p) key w d\<^sub>0 = Inr d'"
    by (auto simp: authorized_update_def entry_by_name_Inr result_simps Let_def)
  have current: "current = doc" using cur find_entry_get(2) [OF found assms(3)] by simp
  note same = audits_onlyD [OF check_move_Inr(1) [OF move]]
  have keys: "keys_ok d\<^sub>0" using assms(3) by (simp add: same)
  obtain e2 current2 folder resolved d\<^sub>1 e' where
    upd: "find_entry E key name False None d\<^sub>0 = Inr (e2, current2)"
      "payload_folder E key (ed_folder w) (Some (owner_id c)) (moved_payload e current p) d\<^sub>0 = Inr (folder, resolved, d\<^sub>1)"
      "get_entry d' = (get_entry d\<^sub>0)(e_id e2 \<mapsto> e')"
      "open_entry E key e' = Inr (document_from resolved (next_history current2 (moved_payload e current p) (ed_time_text w)))"
      "e_folder_id e' = folder" "e_owner_id e' = e_owner_id e2" "e_deleted e' = None" "e_uid e' = e_uid e2"
      "d' = d\<^sub>1\<lparr>entries := entries d'\<rparr>"
    by (rule update_password_Inr [OF assms(1,2) keys run])
  have e2: "e2 = e" "current2 = current"
    using upd(1) found current by (simp_all add: find_entry_cong [OF same(1)])
  have get: "get_entry d\<^sub>0 = get_entry d" by (simp add: get_entry_def same fun_eq_iff)
  have "q = WriteAccess \<or> q = Owner" using q(2) by (cases q) simp_all
  with that [OF _ q(1) _ move upd(2) _ _ upd(5) _ upd(7) _ upd(9)] found current upd(3,4,6,8) e2 get
  show thesis by simp
qed

section \<open>Concrete entries\<close>

text \<open>An entry outside every folder, owned by the administrator and shared with the member for writing.\<close>

definition sample_password :: "ustr option \<Rightarrow> password" where
  "sample_password folder =
     \<lparr>pw_name = [110], pw_kind = Login, pw_username = None, pw_value = [120], pw_url = None, pw_totp_secret = None,
      pw_description = None, pw_tags = [], pw_custom_fields = [], pw_folder = folder, pw_folder_id = None,
      pw_favorite = False\<rparr>"

definition sample_entry_draw :: entry_draw where
  "sample_entry_draw = \<lparr>ed_uid = [9], ed_nonce = sample_nonce, ed_folder = ([8], sample_nonce), ed_time_text = [],
     ed_now = 50\<rparr>"

definition shared_db :: db where
  "shared_db = sample_db\<lparr>entries := [sample_entry None None],
     entry_access := [\<lparr>ea_entry_id = 4, ea_user_id = 8, ea_permission = Write, ea_expires_at = None,
       ea_granted_by = Some 7\<rparr>]\<rparr>"

lemma sample_document [simp]:
  "document_from (sample_password f) [] = sample_doc [110] (clean_folder f)"
  "next_history (sample_doc [110] g) (sample_password f) s = []"
  by (simp_all add: document_from_def sample_password_def sample_doc_def next_history_def)

lemma sample_password_fields [simp]:
  "pw_name (sample_password f) = [110]" "pw_folder (sample_password f) = f" "pw_folder_id (sample_password f) = None"
  by (simp_all add: sample_password_def)

lemma sample_nonce_drawn: "length (ed_nonce sample_entry_draw) = NONCE_BYTES"
  by (simp add: sample_entry_draw_def length_sample_nonce)

lemma shared_keys_ok: "keys_ok shared_db"
  using sample_keys_ok by (simp add: keys_ok_def shared_db_def sample_db_defs)

lemma open_entry_index:
  "open_entry E k e = Inr doc \<Longrightarrow> \<exists>ix. name_index (prims E) k (doc_name doc) = Inr ix \<and> e_name_index e = Good ix"
  by (cases "e_name_index e") (auto simp: open_entry_def result_simps)

lemma find_sample:
  assumes "entries d = [sample_entry link f]" and "f \<in> {None, Some [65], Some [66]}"
  shows "find_entry sample_E sample_key [110] False None d = Inr (sample_entry link f, sample_doc [110] f)"
proof -
  have opened: "open_entry sample_E sample_key (sample_entry link f) = Inr (sample_doc [110] f)"
    using assms(2) by simp
  then obtain ix where "name_index (prims sample_E) sample_key [110] = Inr ix" "e_name_index (sample_entry link f) = Good ix"
    using open_entry_index by fastforce
  with assms opened show ?thesis by (simp add: find_entry_def named_rows_def)
qed

lemma member_folder_ok: "is_ok (utf8 (folder_index_text 8 [66]))" "is_ok (folder_ad (Good [u]) 8)"
  by (code_simp, simp add: folder_ad_def to_bytes8_def associated_data_def pack_u_def)

text \<open>The member stores the shared entry under a folder name of its own.\<close>

lemma shared_update_runs:
  obtains d' where "authorized_update sample_E (sample_ctx 8 Member) [110] (sample_password (Some [66])) sample_key
    sample_entry_draw shared_db = Inr d'"
proof -
  let ?c = "sample_ctx 8 Member" and ?p = "sample_password (Some [66])" and ?e = "sample_entry None None"
  have entries: "entries shared_db = [?e]" by (simp add: shared_db_def)
  note found = find_sample [OF this, simplified]
  have "permission ?c 50 shared_db 4 = Inr WriteAccess"
    by (simp add: permission_def shared_db_def get_entry_def sample_db_defs sample_ctx_def Let_def
        direct_entry_permissions_def grant_active_def)
  with found have gate: "entry_by_name sample_E ?c 50 [110] sample_key WriteAccess False None shared_db = Inr ?e"
    by (simp add: entry_by_name_def require_def)
  obtain ix where ix: "folder_name_index (prims sample_E) sample_key 8 [66] = Inr ix"
    using member_folder_ok(1) by (auto simp: folder_name_index_def is_ok_iff)
  let ?f = "\<lparr>f_id = 0, f_uid = Good [8], f_owner_id = 8, f_name_index = Good ix, f_document = Good []\<rparr>"
  obtain f where f: "seal_folder sample_E sample_key sample_nonce ?f [66] = Inr f"
    using projr_ok [of "seal_folder sample_E sample_key sample_nonce ?f [66]"]
    by (auto simp: seal_folder_ok member_folder_ok)
  note frame = folder_frame_eqD [OF folder_rows.seal_keeps_frame [OF f], simplified]
  have "insert_folder f shared_db = Inr (4, shared_db\<lparr>folders := [sample_folder, f\<lparr>f_id := 4\<rparr>], seq_folders := 4\<rparr>)"
    by (simp add: insert_folder_def shared_db_def sample_db_defs folders_unique_def frame Let_def)
  then have folder: "payload_folder sample_E sample_key ([8], sample_nonce) (Some 8) ?p shared_db =
      Inr (Some 4, ?p, shared_db\<lparr>folders := [sample_folder, f\<lparr>f_id := 4\<rparr>], seq_folders := 4\<rparr>)"
    using ix f by (simp add: payload_folder_def folder_named_def clean_folder_def shared_db_def
        sample_db_defs row_of_def)
  obtain s where s: "seal_entry sample_E sample_key sample_nonce (?e\<lparr>e_folder_id := Some 4\<rparr>) (sample_doc [110] (Some [66])) = Inr s"
    using projr_ok [of "seal_entry sample_E sample_key sample_nonce (?e\<lparr>e_folder_id := Some 4\<rparr>) (sample_doc [110] (Some [66]))"]
    by (auto simp: seal_entry_ok)
  note s_frame = entry_frame_eqD [OF entry_rows.seal_keeps_frame [OF s], simplified]
  have "is_ok (update_password sample_E (Some 8) [110] ?p sample_key sample_entry_draw shared_db)"
    using found folder s
    by (simp add: update_password_def sample_entry_draw_def flush_or_conflict_def update_entry_def entries set_row_def
        entries_unique_def active_indexes_def s_frame clean_folder_def Let_def)
  moreover have "authorized_update sample_E ?c [110] ?p sample_key sample_entry_draw shared_db =
      update_password sample_E (Some 8) [110] ?p sample_key sample_entry_draw shared_db"
    using gate by (simp add: authorized_update_def sample_entry_draw_def moved_payload_def check_move_def
        owner_id_def sample_ctx_def sample_user_def)
  ultimately have "is_ok (authorized_update sample_E ?c [110] ?p sample_key sample_entry_draw shared_db)" by simp
  with that show thesis by (auto simp: is_ok_iff)
qed

section \<open>Properties\<close>



text \<open>
  C33: A write grant can become ownership. When a human user with write access to an entry that is in
  no folder updates it with a folder name instead of a folder id, the entry is put into that
  user's own folder, and the user then has owner access to it at every time, while the stored
  owner stays who it was.
\<close>

theorem writer_takes_over:
  assumes "env_ok E" and "length (ed_nonce w) = NONCE_BYTES" and "keys_ok d"
    and "authorized_update E c name p key w d = Inr d'"
    and "find_entry E key name False None d = Inr (e, current)" and "e_folder_id e = None"
    and "pw_folder_id p = None" and "clean_folder (pw_folder p) \<noteq> None" and "owner_id c = user_of c"
  shows "permission c later_time d' (e_id e) = Inr Owner
    \<and> (\<exists>e'. get_entry d' (e_id e) = Some e' \<and> e_owner_id e' = e_owner_id e)"
proof -
  obtain e2 current2 folder resolved d\<^sub>0 d\<^sub>1 e' q where
    upd: "find_entry E key name False None d = Inr (e2, current2)"
      "permission c (ed_now w) d (e_id e2) = Inr q" "q = WriteAccess \<or> q = Owner"
      "check_move c (ed_now w) e2 (moved_payload e2 current2 p) d = Inr d\<^sub>0"
      "payload_folder E key (ed_folder w) (Some (owner_id c)) (moved_payload e2 current2 p) d\<^sub>0 = Inr (folder, resolved, d\<^sub>1)"
      "get_entry d' = (get_entry d)(e_id e2 \<mapsto> e')"
      "open_entry E key e' = Inr (document_from resolved (next_history current2 p (ed_time_text w)))"
      "e_folder_id e' = folder" "e_owner_id e' = e_owner_id e2" "e_deleted e' = None" "e_uid e' = e_uid e2"
      "d' = d\<^sub>1\<lparr>entries := entries d'\<rparr>"
    by (rule authorized_update_Inr [OF assms(1-4)])
  have e2: "e2 = e" using upd(1) assms(5) by simp
  have ids: "folder_ids_ok d\<^sub>0"
    using assms(3) by (simp add: keys_ok_folder_ids audits_onlyD [OF check_move_Inr(1) [OF upd(4)]])
  have p: "pw_folder_id (moved_payload e2 current2 p) = None" using assms(6,7) by (simp add: moved_payload_def e2)
  have "get_folder d' = get_folder d\<^sub>1" by (subst upd(12), simp add: get_folder_def fun_eq_iff)
  with payload_folder_Inr(5,6) [OF upd(5) ids p] assms(8,9)
  obtain i f where "folder = Some i" "get_folder d' i = Some f" "f_owner_id f = user_of c" by auto
  with upd(6,8,9) e2 show ?thesis by (simp add: permission_def Let_def)
qed

theorem writer_takes_over_witness:
  "\<exists>d'. authorized_update sample_E (sample_ctx 8 Member) [110] (sample_password (Some [66])) sample_key
       sample_entry_draw shared_db = Inr d'
     \<and> permission (sample_ctx 8 Member) 50 shared_db 4 = Inr WriteAccess
     \<and> permission (sample_ctx 8 Member) 60 d' 4 = Inr Owner"
proof -
  obtain d' where run: "authorized_update sample_E (sample_ctx 8 Member) [110] (sample_password (Some [66])) sample_key
      sample_entry_draw shared_db = Inr d'"
    by (rule shared_update_runs)
  have "entries shared_db = [sample_entry None None]" by (simp add: shared_db_def)
  note found = find_sample [OF this, simplified]
  have "permission (sample_ctx 8 Member) 50 shared_db 4 = Inr WriteAccess"
    by (simp add: permission_def shared_db_def get_entry_def sample_db_defs sample_ctx_def Let_def
        direct_entry_permissions_def grant_active_def)
  moreover have "permission (sample_ctx 8 Member) 60 d' (e_id (sample_entry None None)) = Inr Owner"
    using writer_takes_over [OF sample_env_ok sample_nonce_drawn shared_keys_ok run found, of 60]
    by (simp add: clean_folder_def owner_id_def sample_ctx_def sample_user_def)
  ultimately show ?thesis using run by auto
qed

end
