(* ===== verification/Entry_Lifecycle.thy ===== *)
theory Entry_Lifecycle
  imports Passwords "HOL-Library.Multiset"
begin

text \<open>
  The life of an entry under \<^verbatim>\<open>AuthorizedPasswordCRUD\<close>: created and found again, moved to the
  trash and back, purged, and listed. The definitions are in Passwords; this theory proves what
  the operations do together.
\<close>

section \<open>Active names\<close>

lemma active_unique:
  assumes "entries_unique es" and "e \<in> set es" "f \<in> set es" and "e_deleted e = None" "e_deleted f = None"
    and "e_name_index e = e_name_index f"
  shows "e = f"
proof -
  let ?es = "filter (\<lambda>e. e_deleted e = None) es"
  from assms(1) have "distinct (map e_name_index ?es)" by (simp add: entries_unique_def active_indexes_def)
  with assms show ?thesis by (auto simp: distinct_map inj_on_def)
qed

text \<open>An active entry that opens is what a lookup of its name finds.\<close>

lemma active_found:
  assumes "entries_unique (entries d)" and "e \<in> set (entries d)" and "e_deleted e = None"
    and "open_entry E key e = Inr doc" and "0 \<notin> set (doc_name doc)"
  shows "find_entry E key (doc_name doc) False None d = Inr (e, doc)"
proof -
  obtain ix where ix: "name_index (prims E) key (doc_name doc) = Inr ix" "e_name_index e = Good ix"
    using open_entry_index [OF assms(4)] by blast
  let ?rows = "named_rows ix False None (entries d)"
  have rows: "f \<in> set ?rows \<longleftrightarrow> f = e" for f
  proof
    assume "f \<in> set ?rows"
    then have "f \<in> set (entries d)" "e_deleted f = None" "e_name_index e = e_name_index f"
      using ix(2) by (simp_all add: named_rows_def)
    then show "f = e" using active_unique [OF assms(1,2) _ assms(3)] by blast
  next
    assume "f = e"
    then show "f \<in> set ?rows" using assms(2,3) ix(2) by (simp add: named_rows_def)
  qed
  then have "?rows \<noteq> []" by (metis empty_iff empty_set)
  then obtain f where f: "newest ?rows = Some f" using newest_None by blast
  then have "newest ?rows = Some e" using newest_in [OF f] rows by simp
  with ix(1) assms(4,5) show ?thesis by (simp add: find_entry_Inr)
qed

lemma active_found_only:
  assumes "entries_unique (entries d)" and "find_entry E key name False None d = Inr (f, doc')"
    and "e \<in> set (entries d)" and "e_deleted e = None" and "open_entry E key e = Inr doc" and "doc_name doc = name"
  shows "f = e \<and> doc' = doc"
proof -
  have "0 \<notin> set name" using assms(2) by (auto simp: find_entry_Inr)
  with active_found [OF assms(1,3,4,5)] assms(2,6) show ?thesis by simp
qed

section \<open>Creating\<close>

lemma folders_grow_keys:
  assumes "folders_grow d d'" and "keys_ok d"
  shows "keys_ok d'"
proof -
  obtain fs n where "d' = d\<lparr>folders := fs, seq_folders := n\<rparr>" "folder_ids_ok d'"
    using assms(1) by (auto simp: folders_grow_def)
  with assms(2) show ?thesis by (simp add: keys_ok_def folder_ids_ok_def)
qed

lemma create_password_Inr:
  assumes "env_ok E" and "length (ed_nonce w) = NONCE_BYTES" and "keys_ok d"
    and "create_password E owner p key w d = Inr d'"
  obtains folder resolved d\<^sub>1 e where
    "payload_folder E key (ed_folder w) owner p d = Inr (folder, resolved, d\<^sub>1)"
    "d' = d\<^sub>1\<lparr>entries := entries d @ [e], seq_entries := e_id e\<rparr>" "e_id e = Suc (seq_entries d)"
    "open_entry E key e = Inr (document_from resolved [])" "e_deleted e = None" "e_folder_id e = folder"
    "entries_unique (entries d')" "get_entry d (e_id e) = None" "get_entry d' = (get_entry d)(e_id e \<mapsto> e)"
    "distinct (map e_id (entries d'))"
proof -
  from assms(4) obtain folder resolved d\<^sub>1 s i where
    folder: "payload_folder E key (ed_folder w) owner p d = Inr (folder, resolved, d\<^sub>1)" and
    s: "seal_entry E key (ed_nonce w) (new_entry w owner folder) (document_from resolved []) = Inr s" and
    ins: "insert_entry s d\<^sub>1 = Inr (i, d')"
    unfolding create_password_def by (auto simp: result_simps)
  note frame = entry_frame_eqD [OF entry_rows.seal_keeps_frame [OF s], simplified]
  have grow: "folders_grow d d\<^sub>1" using payload_folder_Inr(1) [OF folder] assms(3) by (simp add: keys_ok_folder_ids)
  note same = folders_growD [OF grow]
  have get: "get_entry d\<^sub>1 = get_entry d" by (simp add: get_entry_def same fun_eq_iff)
  note new = insert_entry_Inr [OF ins folders_grow_keys [OF grow assms(3)]]
  have "entry_readable (new_entry w owner folder)" by (simp add: entry_readable_def new_entry_def)
  from open_entry_seal_entry [OF assms(1,2) this s]
  have opened: "open_entry E key (s\<lparr>e_id := i\<rparr>) = Inr (document_from resolved [])" by (simp add: open_entry_def)
  show thesis
    using that [OF folder, of "s\<lparr>e_id := i\<rparr>"] new opened frame by (simp add: same get new_entry_def)
qed

lemma folder_writable_Inr:
  "folder_writable c now d i = Inr f \<longleftrightarrow>
     get_folder d i = Some f \<and> (permission_for d now f (user_of c) = Some Owner
       \<or> permission_for d now f (user_of c) = Some WriteAccess)"
  by (auto simp: folder_writable_def get_folder_or_404_def result_simps)

lemma authorized_create_Inr:
  assumes "env_ok E" and "length (ed_nonce w) = NONCE_BYTES" and "keys_ok d"
    and "authorized_create E c p key w d = Inr d'"
  obtains folder resolved d\<^sub>1 e where
    "payload_folder E key (ed_folder w) (Some (owner_id c)) p d = Inr (folder, resolved, d\<^sub>1)"
    "e_id e = Suc (seq_entries d)" "open_entry E key e = Inr (document_from resolved [])" "e_deleted e = None"
    "e_folder_id e = folder" "entries_unique (entries d')" "get_entry d (e_id e) = None"
    "get_entry d' = (get_entry d)(e_id e \<mapsto> e)" "e \<in> set (entries d')" "0 \<notin> set (pw_name p)"
    "case pw_folder_id p of None \<Rightarrow> e_owner_id e = Some (owner_id c)
       | Some i \<Rightarrow> (\<exists>f. folder_writable c (ed_now w) d i = Inr f \<and> e_owner_id e = Some (f_owner_id f))"
    "folders d' = folders d\<^sub>1" "folder_user_access d' = folder_user_access d"
    "folder_group_access d' = folder_group_access d" "group_members d' = group_members d"
    "entry_access d' = (if u_role (ctx_user c) = Service \<and> folder = None
       then entry_access (put_entry_access \<lparr>ea_entry_id = e_id e, ea_user_id = user_of c, ea_permission = Write,
              ea_expires_at = None, ea_granted_by = Some (owner_id c)\<rparr> d) else entry_access d)"
    "distinct (map e_id (entries d'))"
proof -
  let ?audit = "\<lambda>folder d. case folder of None \<Rightarrow> d
      | Some i \<Rightarrow> insert_audit (audit_of c (ed_now w) ''folder'' ''entry_added'' i) d"
  let ?share = "\<lambda>e d. if u_role (ctx_user c) = Service \<and> e_folder_id e = None
      then put_entry_access \<lparr>ea_entry_id = e_id e, ea_user_id = user_of c, ea_permission = Write,
             ea_expires_at = None, ea_granted_by = Some (owner_id c)\<rparr> d else d"
  let ?owner = "\<lambda>folder. Some (case folder of None \<Rightarrow> owner_id c | Some f \<Rightarrow> f_owner_id f)"
  from assms(4) obtain target d\<^sub>2 e doc d\<^sub>3 where
    target: "(case pw_folder_id p of None \<Rightarrow> Inr None
       | Some i \<Rightarrow> andThen (folder_writable c (ed_now w) d i) (\<lambda>f. Inr (Some f))) = Inr target" and
    create: "create_password E (Some (owner_id c)) p key w d = Inr d\<^sub>2" and
    find: "find_entry E key (pw_name p) False None d\<^sub>2 = Inr (e, doc)" and
    upd: "update_entry (ed_now w) (e\<lparr>e_owner_id := ?owner target\<rparr>) d\<^sub>2 = Inr d\<^sub>3" and
    d': "d' = ?share e (?audit (e_folder_id e) d\<^sub>3)"
    unfolding authorized_create_def Let_def by (auto simp: result_simps)
  obtain folder resolved d\<^sub>1 f where new:
    "payload_folder E key (ed_folder w) (Some (owner_id c)) p d = Inr (folder, resolved, d\<^sub>1)"
    "d\<^sub>2 = d\<^sub>1\<lparr>entries := entries d @ [f], seq_entries := e_id f\<rparr>" "e_id f = Suc (seq_entries d)"
    "open_entry E key f = Inr (document_from resolved [])" "e_deleted f = None" "e_folder_id f = folder"
    "entries_unique (entries d\<^sub>2)" "get_entry d (e_id f) = None" "get_entry d\<^sub>2 = (get_entry d)(e_id f \<mapsto> f)"
    "distinct (map e_id (entries d\<^sub>2))"
    by (rule create_password_Inr [OF assms(1-3) create])
  have "pw_name resolved = pw_name p"
    using payload_folder_Inr(2) [OF new(1)] assms(3) by (simp add: keys_ok_folder_ids)
  then have "e = f \<and> doc = document_from resolved []"
    using active_found_only [OF new(7) find _ new(5,4)] new(2) by (simp add: document_from_def)
  then have e: "e = f" ..
  have "get_entry d\<^sub>2 (e_id (e\<lparr>e_owner_id := ?owner target\<rparr>)) \<noteq> None" by (simp add: new(9) e)
  then obtain e' where e': "e' = e\<lparr>e_owner_id := ?owner target\<rparr> \<or> e' = e\<lparr>e_owner_id := ?owner target\<rparr>\<lparr>e_updated := Good (ed_now w)\<rparr>"
      "e_id e' = e_id (e\<lparr>e_owner_id := ?owner target\<rparr>)"
      "get_entry d\<^sub>3 = (get_entry d\<^sub>2)(e_id (e\<lparr>e_owner_id := ?owner target\<rparr>) \<mapsto> e')"
      "d\<^sub>3 = d\<^sub>2\<lparr>entries := entries d\<^sub>3\<rparr>" "map e_id (entries d\<^sub>3) = map e_id (entries d\<^sub>2)"
    by (rule update_entry_Inr [OF upd new(10)])
  have same: "entries d' = entries d\<^sub>3" by (simp add: d' put_entry_access_def split: option.splits)
  have fields: "e_id e' = e_id f" "e_deleted e' = None" "e_folder_id e' = folder" "e_owner_id e' = ?owner target"
    using e'(1) e new(5,6) by auto
  have get: "get_entry d' = (get_entry d)(e_id e' \<mapsto> e')"
    using e'(3) new(9) e fields(1) by (simp add: get_entry_def same fun_eq_iff)
  have opened: "open_entry E key e' = Inr (document_from resolved [])"
    using e'(1) new(4) e by auto
  have "get_entry d' (e_id e') = Some e'" by (simp add: get)
  then have "e' \<in> set (entries d')" by (auto simp: get_entry_def dest: row_of_Some)
  moreover have "entries_unique (entries d')"
    using update_entry_unique [OF upd new(7)] same by simp
  moreover have "0 \<notin> set (pw_name p)" using find by (auto simp: find_entry_Inr)
  moreover have "case pw_folder_id p of None \<Rightarrow> e_owner_id e' = Some (owner_id c)
       | Some i \<Rightarrow> (\<exists>f. folder_writable c (ed_now w) d i = Inr f \<and> e_owner_id e' = Some (f_owner_id f))"
    using target fields(4) by (auto simp: result_simps split: option.splits)
  moreover have tables: "folders d' = folders d\<^sub>1" "folder_user_access d' = folder_user_access d"
      "folder_group_access d' = folder_group_access d" "group_members d' = group_members d"
      "entry_access d' = entry_access (?share e d)"
    using payload_folder_Inr(1) [OF new(1)] assms(3) entries_only [OF e'(4)]
    by (simp_all add: d' new(2) put_entry_access_def keys_ok_folder_ids folders_growD split: option.splits)
  moreover have "distinct (map e_id (entries d'))" using e'(5) new(10) same by simp
  moreover have "e_id e = e_id e'" "e_folder_id e = folder" using fields(1) e new(6) by simp_all
  ultimately show thesis using that [OF new(1) _ opened fields(2,3) _ _ get] fields(1) new(3,8)
    by (simp add: put_entry_access_def)
qed


lemma created_access:
  assumes "shares_ok d'" and "get_entry d' (e_id e) = Some e"
    and "entry_owned d' e (user_of c) \<or> entry_granted d' now e (user_of c) Write"
  shows "permission c now d' (e_id e) = Inr Owner \<or> permission c now d' (e_id e) = Inr WriteAccess"
  using assms by (auto simp: permission_Inr [OF assms(1)] entry_decision_def)

section \<open>The trash\<close>

lemma open_entry_deleted:
  "e_deleted e = None \<Longrightarrow> open_entry E k (e\<lparr>e_deleted := Some (Good t)\<rparr>) = open_entry E k e"
  "e_deleted e = Some (Good t) \<Longrightarrow> open_entry E k (e\<lparr>e_deleted := None\<rparr>) = open_entry E k e"
  by (simp_all add: open_entry_def)

text \<open>The permission on an entry depends on its owner, its folder and the grants only.\<close>

lemma rank_write: "2 \<le> access_rank (Some p) \<longleftrightarrow> p = Owner \<or> p = WriteAccess"
  by (cases p) simp_all

lemma permission_same_place:
  assumes "d' = d\<lparr>entries := entries d'\<rparr>" and "get_entry d i = Some e" "get_entry d' i = Some e'"
    and "e_owner_id e' = e_owner_id e" "e_folder_id e' = e_folder_id e"
  shows "permission c now d' i = permission c now d i"
proof -
  note same = entries_only [OF assms(1)]
  have tables: "direct_entry_permissions d' = direct_entry_permissions d" "direct_folder_permissions d' = direct_folder_permissions d"
    "group_folder_permissions d' = group_folder_permissions d" "get_folder d' = get_folder d"
    by (simp_all add: direct_entry_permissions_def direct_folder_permissions_def group_folder_permissions_def
        get_folder_def same fun_eq_iff)
  show ?thesis 
    by (simp only: permission_def assms(2-5) tables orElse_simps andThen_simps)
qed

lemma set_row_unique:
  assumes "entries_unique es" and "distinct (map e_id es)" and "e \<in> set es" and "e_id e' = e_id e"
    and "e_name_index e' = e_name_index e" "e_deleted e' = e_deleted e" "e_uid e' = e_uid e"
  shows "entries_unique (set_row e_id e' es)"
proof -
  have row: "x = e" if "x \<in> set es" "e_id x = e_id e" for x
    using that assms(2,3) by (auto simp: distinct_map inj_on_def)
  have "map e_uid (set_row e_id e' es) = map e_uid es"
    using assms(4,7) row by (auto simp: set_row_def)
  moreover have "active_indexes (set_row e_id e' es) = active_indexes es"
  proof -
    have "active_indexes (set_row e_id e' xs) = active_indexes xs" if "set xs \<subseteq> set es" for xs
      using that assms(4,5,6) row by (induction xs) (auto simp: set_row_def active_indexes_def)
    then show ?thesis by simp
  qed
  ultimately show ?thesis using assms(1) by (simp add: entries_unique_def)
qed

lemma set_row_twice: "e_id e' = e_id e \<Longrightarrow> set_row e_id e' (set_row e_id e es) = set_row e_id e' es"
  by (induction es) (auto simp: set_row_def)

lemma trash_row_Inr:
  assumes "update_entry now (e\<lparr>e_deleted := Some (Good now)\<rparr>) d = Inr d'" and "distinct (map e_id (entries d))"
    and "e \<in> set (entries d)" and "e_deleted e = None"
  shows "d' = d\<lparr>entries := set_row e_id (e\<lparr>e_deleted := Some (Good now), e_updated := Good now\<rparr>) (entries d)\<rparr>"
proof -
  have "e\<lparr>e_deleted := Some (Good now)\<rparr> \<notin> set (entries d)"
  proof
    assume "e\<lparr>e_deleted := Some (Good now)\<rparr> \<in> set (entries d)"
    then have "e\<lparr>e_deleted := Some (Good now)\<rparr> = e"
      using assms(2,3) by (auto simp: distinct_map inj_on_def)
    then have "e_deleted (e\<lparr>e_deleted := Some (Good now)\<rparr>) = e_deleted e" by simp
    with assms(4) show False by simp
  qed
  with assms(1) show ?thesis by (auto simp: update_entry_def Let_def result_simps)
qed

lemma delete_password_Inr:
  assumes "keys_ok d" and "delete_password E name key now d = Inr d'"
  obtains e doc where "find_entry E key name False None d = Inr (e, doc)"
    "d' = d\<lparr>entries := set_row e_id (e\<lparr>e_deleted := Some (Good now), e_updated := Good now\<rparr>) (entries d)\<rparr>"
proof -
  from assms(2) obtain e doc where find: "find_entry E key name False None d = Inr (e, doc)"
      and upd: "update_entry now (e\<lparr>e_deleted := Some (Good now)\<rparr>) d = Inr d'"
    by (auto simp: delete_password_def result_simps)
  from trash_row_Inr [OF upd] find_entry_row(1,2) [OF find] assms(1) find that
  show thesis by (simp add: keys_ok_def)
qed

text \<open>Restoring the entry just deleted, while its name is free.\<close>

lemma restore_deleted:
  assumes "distinct (map e_id (entries d))" and "entries_unique (entries d)"
    and "find_entry E key name False None d = Inr (e, doc)"
    and "d\<^sub>1 = d\<lparr>entries := set_row e_id (e\<lparr>e_deleted := Some (Good now), e_updated := Good now\<rparr>) (entries d)\<rparr>"
    and "active_entry_exists E key name d\<^sub>1 = Inr False"
    and "permission c' now' d\<^sub>1 (e_id e) = Inr q" and "q = Owner \<or> q = WriteAccess"
  shows "authorized_restore E c' name (Some (e_id e)) key now' d\<^sub>1 =
      Inr (d\<lparr>entries := set_row e_id (e\<lparr>e_updated := Good now'\<rparr>) (entries d)\<rparr>)"
proof -
  let ?e1 = "e\<lparr>e_deleted := Some (Good now), e_updated := Good now\<rparr>"
  note row = find_entry_row [OF assms(3)]
  have del: "e_deleted e = None" using row(2) by simp
  from assms(3) obtain ix where ix: "name_index (prims E) key name = Inr ix" "e_name_index e = Good ix"
      and name: "0 \<notin> set name" "open_entry E key e = Inr doc" "doc_name doc = name"
    using row(4) by (auto simp: find_entry_Inr)
  have opened: "open_entry E key ?e1 = Inr doc" using open_entry_deleted(1) [OF del] name(2) by simp
  have at_id: "f \<in> set (entries d\<^sub>1) \<Longrightarrow> e_id f = e_id e \<Longrightarrow> f = ?e1" for f
    by (auto simp: assms(4) set_row_def split: if_splits)
  have "?e1 \<in> set (entries d\<^sub>1)" using row(1) by (force simp: assms(4) set_row_def)
  then have "?e1 \<in> set (named_rows ix True (Some (e_id e)) (entries d\<^sub>1))" using ix(2) by (simp add: named_rows_def)
  moreover have "f = ?e1" if "f \<in> set (named_rows ix True (Some (e_id e)) (entries d\<^sub>1))" for f
    using that by (intro at_id) (simp_all add: named_rows_def)
  ultimately have in_rows: "set (named_rows ix True (Some (e_id e)) (entries d\<^sub>1)) = {?e1}" by blast
  have "newest (named_rows ix True (Some (e_id e)) (entries d\<^sub>1)) = Some ?e1"
  proof (cases "newest (named_rows ix True (Some (e_id e)) (entries d\<^sub>1))")
    case None
    with in_rows show ?thesis by simp
  next
    case (Some f)
    with newest_in [OF Some] in_rows show ?thesis by simp
  qed
  with ix(1) name opened have found: "find_entry E key name True (Some (e_id e)) d\<^sub>1 = Inr (?e1, doc)"
    by (simp add: find_entry_Inr)
  with assms(6,7) have gate: "entry_by_name E c' now' name key WriteAccess True (Some (e_id e)) d\<^sub>1 = Inr ?e1"
    by (auto simp: entry_by_name_Inr rank_write)
  have "e\<lparr>e_updated := Good now\<rparr> \<notin> set (entries d\<^sub>1)"
    using at_id [of "e\<lparr>e_updated := Good now\<rparr>"] del by (cases e) auto
  moreover have "entries_unique (set_row e_id (e\<lparr>e_updated := Good now'\<rparr>) (entries d))"
    using set_row_unique [OF assms(2,1) row(1), of "e\<lparr>e_updated := Good now'\<rparr>"] by simp
  moreover have "e\<lparr>e_deleted := None, e_updated := t\<rparr> = e\<lparr>e_updated := t\<rparr>"
      "e\<lparr>e_updated := t, e_deleted := None\<rparr> = e\<lparr>e_updated := t\<rparr>" for t
    using del by (cases e, simp)+
  ultimately have "update_entry now' (?e1\<lparr>e_deleted := None\<rparr>) d\<^sub>1 =
      Inr (d\<lparr>entries := set_row e_id (e\<lparr>e_updated := Good now'\<rparr>) (entries d)\<rparr>)"
    by (simp add: update_entry_def assms(4) set_row_twice Let_def)
  with gate found assms(5) show ?thesis
    by (simp add: authorized_restore_def restore_password_def flush_or_conflict_def)
qed

section \<open>Listings\<close>

lemma readable_rows_Inr:
  "readable_rows E key es = Inr xs \<Longrightarrow>
     xs = map (\<lambda>e. (e, projr (open_entry E key e))) (filter (\<lambda>e. is_ok (open_entry E key e)) es)"
  by (induction es arbitrary: xs) (auto simp: result_simps split: sum.splits if_splits)

lemma map_res_map: "map_res f xs = Inr ys \<Longrightarrow> (\<And>x y. f x = Inr y \<Longrightarrow> g y = h x) \<Longrightarrow> map g ys = map h xs"
  by (induction xs arbitrary: ys) (auto simp: result_simps)

lemma listed_Inr:
  assumes "listed T E key deleted (Some ids) d = Inr rs" and "distinct (map e_id (entries d))"
  shows "set (map (\<lambda>r. (pr_id r, pr_document r)) rs) = {(e_id e, doc) | e doc. e \<in> set (entries d)
        \<and> (e_deleted e \<noteq> None) = deleted \<and> e_id e \<in> set ids \<and> open_entry E key e = Inr doc}"
    and "distinct (map pr_id rs)" and "\<not> deleted \<Longrightarrow> sorted (map (\<lambda>r. doc_name (pr_document r)) rs)"
proof -
  let ?rows = "filter (\<lambda>e. (e_deleted e \<noteq> None) = deleted \<and> e_id e \<in> set ids) (entries d)"
  from assms(1) obtain xs where xs: "readable_rows E key (if deleted then trash_order ?rows else ?rows) = Inr xs"
    and rs: "rs = map (\<lambda>(e, doc). to_response T e doc (attachment_count d (e_id e)))
           (if deleted then xs else sort_key (\<lambda>(e, doc). doc_name doc) xs)"
    using that unfolding listed_def Let_def option.case result_simps by blast
  let ?read = "filter (\<lambda>e. is_ok (open_entry E key e)) (if deleted then trash_order ?rows else ?rows)"
  have xs': "xs = map (\<lambda>e. (e, projr (open_entry E key e))) ?read" using readable_rows_Inr [OF xs] .
  have ids: "distinct (map e_id ?rows)" using assms(2) by (simp add: distinct_map_filter)
  have perm: "mset (trash_order ?rows) = mset ?rows" by (simp add: trash_order_def)
  have sets: "set (trash_order ?rows) = set ?rows" by (simp only: trash_order_def set_sort)
  have "mset (map e_id (trash_order ?rows)) = mset (map e_id ?rows)" using perm by (simp only: mset_map)
  from mset_eq_imp_distinct_iff [OF this] ids have "distinct (map e_id (trash_order ?rows))" by simp
  with ids have "distinct (map e_id (if deleted then trash_order ?rows else ?rows))" by (cases deleted) (simp_all only: if_True if_False)
  then have "distinct (map e_id ?read)" by (simp only: distinct_map_filter)
  moreover have "map (\<lambda>x. e_id (fst x)) xs = map e_id ?read" by (simp add: xs' comp_def)
  ultimately have dist: "distinct (map (\<lambda>x. e_id (fst x)) xs)" by simp
  have "mset (map (\<lambda>x. e_id (fst x)) (sort_key k xs)) = mset (map (\<lambda>x. e_id (fst x)) xs)" for k :: "entry_row \<times> entry_document \<Rightarrow> ustr"
    by simp
  then have dist': "distinct (map (\<lambda>x. e_id (fst x)) (sort_key k xs))" for k :: "entry_row \<times> entry_document \<Rightarrow> ustr"
    using mset_eq_imp_distinct_iff dist by metis
  show "distinct (map pr_id rs)"
    using dist dist' by (auto simp: rs to_response_def comp_def case_prod_unfold)
  have xset: "(e, doc) \<in> set xs \<longleftrightarrow> e \<in> set (entries d) \<and> (e_deleted e \<noteq> None) = deleted \<and> e_id e \<in> set ids
      \<and> open_entry E key e = Inr doc" for e doc
    using sets by (auto simp: xs' is_ok_iff)
  have "set (map (\<lambda>r. (pr_id r, pr_document r)) rs) = (\<lambda>x. (e_id (fst x), snd x)) ` set xs"
    by (simp add: rs to_response_def image_image case_prod_unfold)
  also have "\<dots> = {(e_id e, doc) | e doc. (e, doc) \<in> set xs}" by force
  finally show "set (map (\<lambda>r. (pr_id r, pr_document r)) rs) = {(e_id e, doc) | e doc. e \<in> set (entries d)
        \<and> (e_deleted e \<noteq> None) = deleted \<and> e_id e \<in> set ids \<and> open_entry E key e = Inr doc}"
    unfolding xset .
  show "sorted (map (\<lambda>r. doc_name (pr_document r)) rs)" if "\<not> deleted"
    using that sorted_sort_key [of "\<lambda>(e, doc). doc_name doc" xs]
    by (simp add: rs to_response_def comp_def case_prod_unfold)
qed

lemma access_map_Inr:
  assumes "access_map E c now deleted d = Inr infos" and "i \<in> set infos"
  shows "permission c now d (ei_entry_id i) = Inr (ei_access i)"
  using map_res_results [OF assms(1) [unfolded access_map_def] assms(2)] by (auto simp: result_simps)

text \<open>What a listing shows, of which entries and in which order.\<close>

lemma authorized_list_Inr:
  assumes "keys_ok d" and "authorized_list T E c key deleted now d = Inr rs"
  shows "set (map (\<lambda>r. (pr_id (le_response r), pr_document (le_response r), ei_access (le_access r))) rs) =
      {(e_id e, doc, p) | e doc p. e \<in> set (entries d) \<and> (e_deleted e \<noteq> None) = deleted
        \<and> permission c now d (e_id e) = Inr p \<and> open_entry E key e = Inr doc}"
    and "distinct (map (\<lambda>r. pr_id (le_response r)) rs)"
    and "\<not> deleted \<Longrightarrow> sorted (map (\<lambda>r. doc_name (pr_document (le_response r))) rs)"
proof -
  from assms(2) obtain qs infos where qs: "listed T E key deleted (Some (visible_ids c now deleted d)) d = Inr qs"
    and infos: "access_map E c now deleted d = Inr infos"
    and rs: "map_res (\<lambda>r. andThen (orElse (row_of ei_entry_id (pr_id r) infos) ValueError) (\<lambda>i.
       Inr \<lparr>le_response = r, le_access = i\<rparr>)) qs = Inr rs"
    by (auto simp: authorized_list_def result_simps)
  have ids: "distinct (map e_id (entries d))" using assms(1) by (simp add: keys_ok_def)
  have responses: "map le_response rs = qs"
    by (subst map_res_map [OF rs, where h = "\<lambda>x. x"]) (auto simp: result_simps)
  have granted: "permission c now d (pr_id (le_response r)) = Inr (ei_access (le_access r))" if r: "r \<in> set rs" for r
  proof -
    obtain q i where "row_of ei_entry_id (pr_id q) infos = Some i" "r = \<lparr>le_response = q, le_access = i\<rparr>"
      using map_res_results [OF rs r] by (auto simp: result_simps)
    with access_map_Inr [OF infos, of i] row_of_Some [of ei_entry_id "pr_id q" infos i] show ?thesis by simp
  qed
  have seen: "e_id e \<in> set (visible_ids c now deleted d) \<longleftrightarrow> (\<exists>p. permission c now d (e_id e) = Inr p)"
    if "e \<in> set (entries d)" "(e_deleted e \<noteq> None) = deleted" for e
    using that by (auto simp: visible_rows [OF assms(1)] is_ok_iff)
  note shown = listed_Inr [OF qs ids]
  let ?row = "\<lambda>r. (pr_id r, pr_document r)"
  let ?may = "{(e_id e, doc) | e doc. e \<in> set (entries d) \<and> (e_deleted e \<noteq> None) = deleted
        \<and> (\<exists>p. permission c now d (e_id e) = Inr p) \<and> open_entry E key e = Inr doc}"
  have rows: "(\<lambda>r. ?row (le_response r)) ` set rs = ?may"
  proof -
    have "(\<lambda>r. ?row (le_response r)) ` set rs = set (map ?row qs)" by (simp add: responses [symmetric] image_image)
    also have "\<dots> = ?may" unfolding shown(1) using seen by blast
    finally show ?thesis .
  qed
  have "(\<lambda>r. (pr_id (le_response r), pr_document (le_response r), ei_access (le_access r))) ` set rs =
      {(i, doc, p). (i, doc) \<in> (\<lambda>r. ?row (le_response r)) ` set rs \<and> permission c now d i = Inr p}"
    using granted by force
  then show "set (map (\<lambda>r. (pr_id (le_response r), pr_document (le_response r), ei_access (le_access r))) rs) =
      {(e_id e, doc, p) | e doc p. e \<in> set (entries d) \<and> (e_deleted e \<noteq> None) = deleted
        \<and> permission c now d (e_id e) = Inr p \<and> open_entry E key e = Inr doc}"
    unfolding rows by auto
  have "map (\<lambda>r. pr_id (le_response r)) rs = map pr_id qs"
    "map (\<lambda>r. doc_name (pr_document (le_response r))) rs = map (\<lambda>r. doc_name (pr_document r)) qs"
    by (simp_all add: responses [symmetric] comp_def)
  with shown(2,3) show "distinct (map (\<lambda>r. pr_id (le_response r)) rs)"
    "\<not> deleted \<Longrightarrow> sorted (map (\<lambda>r. doc_name (pr_document (le_response r))) rs)" by simp_all
qed

section \<open>Properties\<close>

text \<open>
  Creating an entry. It takes a new id, a lookup of its name finds it with the document of the
  payload, its name was free among the active entries, and no other entry has changed. It belongs
  to the owner of the folder given by id, on which the user needs write access, else to the user
  (for a service account, its owner). The user can write the new entry, except a service account
  that puts it into a folder by name.
\<close>

theorem create_effect:
  assumes "env_ok E" and "length (ed_nonce w) = NONCE_BYTES" and "keys_ok d"
    and "u_role (ctx_user c) = Service \<or> owner_id c = user_of c"
    and "authorized_create E c p key w d = Inr d'"
  shows "\<exists>e doc. find_entry E key (pw_name p) False None d' = Inr (e, doc)
    \<and> doc = (document_from p [])\<lparr>doc_folder := doc_folder doc\<rparr> \<and> e_id e = Suc (seq_entries d)
    \<and> get_entry d (e_id e) = None \<and> get_entry d' = (get_entry d)(e_id e \<mapsto> e)
    \<and> (\<forall>f \<in> set (entries d). e_deleted f = None \<longrightarrow> e_name_index f \<noteq> e_name_index e)
    \<and> (case pw_folder_id p of None \<Rightarrow> e_owner_id e = Some (owner_id c)
       | Some i \<Rightarrow> (\<exists>f. get_folder d i = Some f \<and> e_folder_id e = Some i \<and> e_owner_id e = Some (f_owner_id f)
           \<and> (permission_for d (ed_now w) f (user_of c) = Some Owner
              \<or> permission_for d (ed_now w) f (user_of c) = Some WriteAccess)))
    \<and> (u_role (ctx_user c) = Service \<and> pw_folder_id p = None \<and> clean_folder (pw_folder p) \<noteq> None
       \<or> permission c (ed_now w) d' (e_id e) = Inr Owner \<or> permission c (ed_now w) d' (e_id e) = Inr WriteAccess)"
proof -
  obtain folder resolved d\<^sub>1 e where new:
    "payload_folder E key (ed_folder w) (Some (owner_id c)) p d = Inr (folder, resolved, d\<^sub>1)"
    "e_id e = Suc (seq_entries d)" "open_entry E key e = Inr (document_from resolved [])" "e_deleted e = None"
    "e_folder_id e = folder" "entries_unique (entries d')" "get_entry d (e_id e) = None"
    "get_entry d' = (get_entry d)(e_id e \<mapsto> e)" "e \<in> set (entries d')" "0 \<notin> set (pw_name p)"
    "case pw_folder_id p of None \<Rightarrow> e_owner_id e = Some (owner_id c)
       | Some i \<Rightarrow> (\<exists>f. folder_writable c (ed_now w) d i = Inr f \<and> e_owner_id e = Some (f_owner_id f))"
    "folders d' = folders d\<^sub>1" "folder_user_access d' = folder_user_access d"
    "folder_group_access d' = folder_group_access d" "group_members d' = group_members d"
    "entry_access d' = (if u_role (ctx_user c) = Service \<and> folder = None
       then entry_access (put_entry_access \<lparr>ea_entry_id = e_id e, ea_user_id = user_of c, ea_permission = Write,
              ea_expires_at = None, ea_granted_by = Some (owner_id c)\<rparr> d) else entry_access d)"
    "distinct (map e_id (entries d'))"
    by (rule authorized_create_Inr [OF assms(1-3,5)])
  note folder = payload_folder_Inr [OF new(1) keys_ok_folder_ids [OF assms(3)]]
  have name: "doc_name (document_from resolved []) = pw_name p" using folder(2) by (simp add: document_from_def)
  have found: "find_entry E key (pw_name p) False None d' = Inr (e, document_from resolved [])"
    using active_found [OF new(6,9,4,3)] new(10) by (simp add: name)
  have free: "e_name_index f \<noteq> e_name_index e" if f: "f \<in> set (entries d)" "e_deleted f = None" for f
  proof
    assume "e_name_index f = e_name_index e"
    have "get_entry d (e_id f) = Some f" using f(1) assms(3) by (simp add: get_entry_def keys_ok_def row_of_in_set)
    with new(7) have "get_entry d' (e_id f) = Some f" "f \<noteq> e" by (auto simp: new(8))
    then have "f \<in> set (entries d')" by (auto simp: get_entry_def dest: row_of_Some)
    with active_unique [OF new(6) this new(9) f(2) new(4)] \<open>f \<noteq> e\<close> \<open>e_name_index f = _\<close> show False by blast
  qed
  have "distinct (map ea_key (entry_access d'))"
    using assms(3) by (simp add: new(16) keys_ok_def put_entry_access_def distinct_upsert)
  then have ok: "shares_ok d'"
    using new(17) folders_growD(11) [OF folder(1)] assms(3)
    by (simp add: shares_ok_def new(12,13) folder_ids_ok_def keys_ok_def)
  have get: "get_entry d' (e_id e) = Some e" by (simp add: new(8))
  have "u_role (ctx_user c) = Service \<and> pw_folder_id p = None \<and> clean_folder (pw_folder p) \<noteq> None
     \<or> entry_owned d' e (user_of c) \<or> entry_granted d' (ed_now w) e (user_of c) Write"
  proof (cases "pw_folder_id p")
    case (Some i)
    then obtain f where f: "get_folder d i = Some f" "permission_for d (ed_now w) f (user_of c) = Some Owner
        \<or> permission_for d (ed_now w) f (user_of c) = Some WriteAccess" "e_owner_id e = Some (f_owner_id f)"
      using new(11) by (auto simp: folder_writable_Inr)
    have "f_owner_id f = user_of c \<or> folder_grants d (ed_now w) i (user_of c) Write"
      using f(1,2) assms(3)
      by (auto simp: permission_for_grants keys_ok_def get_folder_def dest: row_of_Some split: if_splits)
    moreover have "folder_grants d' (ed_now w) i (user_of c) Write = folder_grants d (ed_now w) i (user_of c) Write"
      by (simp add: granted_directly_def granted_by_group_def new(13,14,15))
    ultimately show ?thesis
      using f(3) folder(4) Some new(5) by (auto simp: entry_owned_def entry_granted_def folder_granted_def)
  next
    case None
    with new(11) have owner: "e_owner_id e = Some (owner_id c)" by simp
    show ?thesis
    proof (cases "u_role (ctx_user c) = Service \<and> folder = None")
      case True
      have keys: "distinct (map ea_key (entry_access d))" using assms(3) by (simp add: keys_ok_def)
      let ?r = "\<lparr>ea_entry_id = e_id e, ea_user_id = user_of c, ea_permission = Write, ea_expires_at = None,
          ea_granted_by = Some (owner_id c)\<rparr>"
      have "shared_with d' (ed_now w) = shared_with (put_entry_access ?r d) (ed_now w)"
        using True by (simp add: shared_with_def new(16) fun_eq_iff)
      then have "shared_with d' (ed_now w) (e_id e) (user_of c) Write"
        by (simp add: shared_with_put [OF keys] grant_active_def)
      then show ?thesis by (simp add: entry_granted_def)
    next
      case False
      with assms(4) owner folder(5) [OF None] None show ?thesis by (auto simp: entry_owned_def)
    qed
  qed
  with created_access [OF ok get] have "u_role (ctx_user c) = Service \<and> pw_folder_id p = None \<and> clean_folder (pw_folder p) \<noteq> None
       \<or> permission c (ed_now w) d' (e_id e) = Inr Owner \<or> permission c (ed_now w) d' (e_id e) = Inr WriteAccess"
    by blast
  moreover have "case pw_folder_id p of None \<Rightarrow> e_owner_id e = Some (owner_id c)
       | Some i \<Rightarrow> (\<exists>f. get_folder d i = Some f \<and> e_folder_id e = Some i \<and> e_owner_id e = Some (f_owner_id f)
           \<and> (permission_for d (ed_now w) f (user_of c) = Some Owner
              \<or> permission_for d (ed_now w) f (user_of c) = Some WriteAccess))"
    using new(5,11) folder(4) by (auto simp: folder_writable_Inr split: option.splits)
  moreover have "document_from resolved [] = (document_from p [])\<lparr>doc_folder := doc_folder (document_from resolved [])\<rparr>"
    using payload_folder_document [OF new(1)] .
  ultimately show ?thesis using found free new(2,7,8) by blast
qed

theorem create_effect_witness:
  "\<exists>d' e doc. authorized_create sample_E (sample_ctx 7 Admin) (sample_password None) sample_key sample_entry_draw
       (sample_db\<lparr>entries := []\<rparr>) = Inr d'
     \<and> find_entry sample_E sample_key [110] False None d' = Inr (e, doc) \<and> e_id e = 5 \<and> doc_value doc = [120]"
proof -
  let ?c = "sample_ctx 7 Admin" and ?p = "sample_password None" and ?d = "sample_db\<lparr>entries := []\<rparr>"
  let ?new = "new_entry sample_entry_draw (Some 7) None"
  obtain s where s: "seal_entry sample_E sample_key sample_nonce ?new (sample_doc [110] None) = Inr s"
    using projr_ok [of "seal_entry sample_E sample_key sample_nonce ?new (sample_doc [110] None)"]
    by (auto simp: seal_entry_ok new_entry_def sample_entry_draw_def)
  note frame = entry_frame_eqD [OF entry_rows.seal_keeps_frame [OF s], simplified]
  have "entry_readable ?new" by (simp add: entry_readable_def new_entry_def)
  from open_entry_seal_entry [OF sample_env_ok length_sample_nonce this s]
  have opened: "open_entry sample_E sample_key (s\<lparr>e_id := 5\<rparr>) = Inr (sample_doc [110] None)"
    by (simp add: open_entry_def)
  let ?d1 = "?d\<lparr>entries := [s\<lparr>e_id := 5\<rparr>], seq_entries := 5\<rparr>"
  have create: "create_password sample_E (Some 7) ?p sample_key sample_entry_draw ?d = Inr ?d1"
    using s by (simp add: create_password_def payload_folder_def folder_named_def clean_folder_def
        sample_entry_draw_def flush_or_conflict_def insert_entry_def entries_unique_def active_indexes_def
        sample_db_def Let_def)
  have "entries_unique (entries ?d1)" by (simp add: entries_unique_def active_indexes_def)
  from active_found [OF this _ _ opened]
  have found: "find_entry sample_E sample_key [110] False None ?d1 = Inr (s\<lparr>e_id := 5\<rparr>, sample_doc [110] None)"
    by (simp add: frame new_entry_def)
  have "is_ok (authorized_create sample_E ?c ?p sample_key sample_entry_draw ?d)"
    using create found
    by (simp add: authorized_create_def owner_id_def sample_ctx_def sample_user_def update_entry_def set_row_def
        entries_unique_def active_indexes_def frame new_entry_def Let_def)
  then obtain d' where run: "authorized_create sample_E ?c ?p sample_key sample_entry_draw ?d = Inr d'"
    by (auto simp: is_ok_iff)
  have keys: "keys_ok ?d" using sample_keys_ok by (simp add: keys_ok_def)
  have "u_role (ctx_user ?c) = Service \<or> owner_id ?c = user_of ?c"
    by (simp add: owner_id_def sample_ctx_def sample_user_def)
  from create_effect [OF sample_env_ok sample_nonce_drawn keys this run] obtain e doc where
    found': "find_entry sample_E sample_key [110] False None d' = Inr (e, doc)" "e_id e = 5" and
    doc: "doc = (sample_doc [110] None)\<lparr>doc_folder := doc_folder doc\<rparr>"
    by (auto simp: sample_db_def clean_folder_def)
  have "doc_value doc = [120]" by (subst doc) (simp add: sample_doc_def)
  with found' run show ?thesis by blast
qed

text \<open>
  The trash gives back what it was given. Deleting an entry needs write access, stamps it with the
  time and touches no other entry; its name is then free. Any user who has write access to it can
  at once restore it by its id, and it is the same entry again but for its update time.
\<close>

theorem trash_round_trip:
  assumes "keys_ok d" and "entries_unique (entries d)" and "authorized_delete E c name key now d = Inr d\<^sub>1"
  shows "\<exists>e doc. find_entry E key name False None d = Inr (e, doc)
    \<and> (permission c now d (e_id e) = Inr Owner \<or> permission c now d (e_id e) = Inr WriteAccess)
    \<and> get_entry d\<^sub>1 = (get_entry d)(e_id e \<mapsto> e\<lparr>e_deleted := Some (Good now), e_updated := Good now\<rparr>)
    \<and> find_entry E key name False None d\<^sub>1 = Inl NotFound
    \<and> (\<forall>c' now'. permission c' now' d (e_id e) = Inr Owner \<or> permission c' now' d (e_id e) = Inr WriteAccess \<longrightarrow>
        (\<exists>d\<^sub>2. authorized_restore E c' name (Some (e_id e)) key now' d\<^sub>1 = Inr d\<^sub>2
          \<and> get_entry d\<^sub>2 = (get_entry d)(e_id e \<mapsto> e\<lparr>e_updated := Good now'\<rparr>)))"
proof -
  from assms(3) have del: "delete_password E name key now d = Inr d\<^sub>1"
    and gate: "\<exists>e. entry_by_name E c now name key WriteAccess False None d = Inr e"
    by (auto simp: authorized_delete_def result_simps)
  from assms(1) del obtain e doc where find: "find_entry E key name False None d = Inr (e, doc)"
    and d1: "d\<^sub>1 = d\<lparr>entries := set_row e_id (e\<lparr>e_deleted := Some (Good now), e_updated := Good now\<rparr>) (entries d)\<rparr>"
    by (rule delete_password_Inr)
  let ?e1 = "e\<lparr>e_deleted := Some (Good now), e_updated := Good now\<rparr>"
  note row = find_entry_row [OF find] and found = find_entry_get [OF find assms(1)]
  have del: "e_deleted e = None" using row(2) by simp
  have access: "permission c now d (e_id e) = Inr Owner \<or> permission c now d (e_id e) = Inr WriteAccess"
    using gate find by (auto simp: entry_by_name_Inr rank_write)
  have ids: "distinct (map e_id (entries d))" using assms(1) by (simp add: keys_ok_def)
  have get1: "get_entry d\<^sub>1 = (get_entry d)(e_id e \<mapsto> ?e1)"
    using found(1) by (auto simp: d1 get_entry_def row_simps fun_eq_iff)
  obtain ix where ix: "name_index (prims E) key name = Inr ix" "e_name_index e = Good ix"
    using row(4) by blast
  have others: "f \<noteq> e \<Longrightarrow> f \<in> set (entries d) \<Longrightarrow> e_deleted f = None \<Longrightarrow> e_name_index f \<noteq> Good ix" for f
    using active_unique [OF assms(2) row(1) _ del] ix(2) by metis
  have gone: "\<not> (e_name_index f = Good ix \<and> e_deleted f = None)" if "f \<in> set (entries d\<^sub>1)" for f
  proof -
    from that have "f = ?e1 \<or> f \<in> set (entries d) \<and> e_id f \<noteq> e_id e"
      by (auto simp: d1 set_row_def split: if_splits)
    with others [of f] show ?thesis by auto
  qed
  have free: "find_entry E key name False None d\<^sub>1 = Inl NotFound"
  proof -
    have "named_rows ix False None (entries d\<^sub>1) = []"
      using gone by (auto simp: named_rows_def filter_empty_conv)
    moreover have "0 \<notin> set name" using find by (auto simp: find_entry_Inr)
    ultimately show ?thesis using ix(1) by (simp add: find_entry_def)
  qed
  have restore: "\<exists>d\<^sub>2. authorized_restore E c' name (Some (e_id e)) key now' d\<^sub>1 = Inr d\<^sub>2
      \<and> get_entry d\<^sub>2 = (get_entry d)(e_id e \<mapsto> e\<lparr>e_updated := Good now'\<rparr>)"
    if "permission c' now' d (e_id e) = Inr Owner \<or> permission c' now' d (e_id e) = Inr WriteAccess" for c' now'
  proof -
    from that obtain q where q: "permission c' now' d (e_id e) = Inr q" "q = Owner \<or> q = WriteAccess" by blast
    have "permission c' now' d\<^sub>1 (e_id e) = Inr q"
    proof -
      have "d\<^sub>1 = d\<lparr>entries := entries d\<^sub>1\<rparr>" "get_entry d\<^sub>1 (e_id e) = Some ?e1"
        by (simp add: d1, simp add: get1)
      from permission_same_place [OF this(1) found(1) this(2)] q(1) show ?thesis by simp
    qed
    moreover have "active_entry_exists E key name d\<^sub>1 = Inr False"
      using ix(1) gone by (auto simp: active_entry_exists_def)
    moreover have "get_entry (d\<lparr>entries := set_row e_id (e\<lparr>e_updated := Good now'\<rparr>) (entries d)\<rparr>)
        = (get_entry d)(e_id e \<mapsto> e\<lparr>e_updated := Good now'\<rparr>)"
      using found(1) by (auto simp: get_entry_def row_simps fun_eq_iff)
    ultimately show ?thesis using restore_deleted [OF ids assms(2) find d1] q(2) by blast
  qed
  show ?thesis using find access get1 free restore by blast
qed

theorem trash_round_trip_witness:
  "\<exists>d\<^sub>1 d\<^sub>2. authorized_delete sample_E (sample_ctx 8 Member) [110] sample_key 50 shared_db = Inr d\<^sub>1
     \<and> find_entry sample_E sample_key [110] False None d\<^sub>1 = Inl NotFound
     \<and> authorized_restore sample_E (sample_ctx 7 Admin) [110] (Some 4) sample_key 60 d\<^sub>1 = Inr d\<^sub>2
     \<and> get_entry d\<^sub>2 4 = Some ((sample_entry None None)\<lparr>e_updated := Good 60\<rparr>)"
proof -
  let ?e = "sample_entry None None"
  have entries: "entries shared_db = [?e]" by (simp add: shared_db_def)
  note found = find_sample [OF this, simplified]
  have p: "permission (sample_ctx 8 Member) 50 shared_db 4 = Inr WriteAccess"
      "permission (sample_ctx 7 Admin) 60 shared_db 4 = Inr Owner"
    by (simp_all add: permission_def shared_db_def get_entry_def sample_db_defs sample_ctx_def Let_def
        direct_entry_permissions_def grant_active_def)
  have unique: "entries_unique (entries shared_db)" by (simp add: entries entries_unique_def active_indexes_def)
  have "is_ok (authorized_delete sample_E (sample_ctx 8 Member) [110] sample_key 50 shared_db)"
    using found p by (simp add: authorized_delete_def entry_by_name_def require_def delete_password_def update_entry_def
        entries set_row_def entries_unique_def active_indexes_def Let_def)
  then obtain d1 where run: "authorized_delete sample_E (sample_ctx 8 Member) [110] sample_key 50 shared_db = Inr d1"
    by (auto simp: is_ok_iff)
  from trash_round_trip [OF shared_keys_ok unique run] found p
  have "find_entry sample_E sample_key [110] False None d1 = Inl NotFound"
    "\<exists>d\<^sub>2. authorized_restore sample_E (sample_ctx 7 Admin) [110] (Some 4) sample_key 60 d1 = Inr d\<^sub>2
       \<and> get_entry d\<^sub>2 = (get_entry shared_db)(4 \<mapsto> ?e\<lparr>e_updated := Good 60\<rparr>)"
    by auto
  with run show ?thesis by auto
qed

text \<open>
  C34: A listing shows exactly what the user may see. Among the active or among the deleted entries,
  each entry that the permission check admits and that opens is listed once, with its decrypted
  document and the user's permission on it; entries the check refuses never appear, damaged ones
  are left out, and the active ones come in the order of their names.
\<close>

theorem listing_exact:
  assumes "keys_ok d" and "authorized_list T E c key deleted now d = Inr rs"
  shows "set (map (\<lambda>r. (pr_id (le_response r), pr_document (le_response r), ei_access (le_access r))) rs) =
      {(e_id e, doc, p) | e doc p. e \<in> set (entries d) \<and> (e_deleted e \<noteq> None) = deleted
        \<and> permission c now d (e_id e) = Inr p \<and> open_entry E key e = Inr doc}
    \<and> distinct (map (\<lambda>r. pr_id (le_response r)) rs)
    \<and> (deleted \<or> sorted (map (\<lambda>r. doc_name (pr_document (le_response r))) rs))"
  using authorized_list_Inr [OF assms] by blast

theorem listing_exact_witness:
  "\<exists>rs. authorized_list ascii_ops sample_E (sample_ctx 7 Admin) sample_key False 60 shared_db = Inr rs
     \<and> (4, sample_doc [110] None, Owner) \<in>
         set (map (\<lambda>r. (pr_id (le_response r), pr_document (le_response r), ei_access (le_access r))) rs)"
proof -
  let ?c = "sample_ctx 7 Admin" and ?e = "sample_entry None None"
  have entries: "entries shared_db = [?e]" "users shared_db = users sample_db" by (simp_all add: shared_db_def)
  have p: "permission ?c 60 shared_db 4 = Inr Owner"
    by (simp add: permission_def shared_db_def get_entry_def sample_db_defs sample_ctx_def Let_def)
  have visible: "visible_ids ?c 60 False shared_db = [4]"
    by (simp add: visible_rows [OF shared_keys_ok] entries p)
  have "is_ok (listed ascii_ops sample_E sample_key False (Some [4]) shared_db)"
    by (simp add: listed_def entries)
  then obtain qs where qs: "listed ascii_ops sample_E sample_key False (Some [4]) shared_db = Inr qs"
    by (auto simp: is_ok_iff)
  have ids: "pr_id q = 4" if "q \<in> set qs" for q
    using qs that by (auto simp: listed_def entries to_response_def)
  obtain ss where "entry_sources sample_E ?c 60 shared_db 4 = Inr ss"
    by (simp add: entry_sources_def get_entry_def entries sample_ctx_def sample_user_def)
  moreover have "users sample_db = [sample_user 7 Admin, sample_user 8 Member]" "u_id (sample_user i r) = i" for i r
    by (simp_all add: sample_db_def sample_user_def)
  ultimately obtain infos where infos: "access_map sample_E ?c 60 False shared_db = Inr infos"
      and "\<exists>i. row_of ei_entry_id 4 infos = Some i"
    by (simp add: access_map_def visible entries p)
  then obtain i where i: "row_of ei_entry_id 4 infos = Some i" by blast
  have "is_ok (map_res (\<lambda>r. andThen (orElse (row_of ei_entry_id (pr_id r) infos) ValueError) (\<lambda>i.
       Inr \<lparr>le_response = r, le_access = i\<rparr>)) xs)" if "set xs \<subseteq> set qs" for xs
    using that ids i by (induction xs) (auto simp: is_ok_iff result_simps)
  then obtain rs where run: "authorized_list ascii_ops sample_E ?c sample_key False 60 shared_db = Inr rs"
    using qs infos visible by (auto simp: authorized_list_def is_ok_iff)
  have "(e_id ?e, sample_doc [110] None, Owner) \<in>
      set (map (\<lambda>r. (pr_id (le_response r), pr_document (le_response r), ei_access (le_access r))) rs)"
    unfolding listing_exact [OF shared_keys_ok run, THEN conjunct1] using p by (force simp: entries)
  then have "(4, sample_doc [110] None, Owner) \<in>
      set (map (\<lambda>r. (pr_id (le_response r), pr_document (le_response r), ei_access (le_access r))) rs)" by simp
  with run show ?thesis by blast
qed

end
