(* ===== verification/Attachments.thy ===== *)
theory Attachments
  imports Entry_Lifecycle
begin

text \<open>
  Attachments of entries (\<^verbatim>\<open>backend/crud/attachment.py\<close> and \<^verbatim>\<open>AuthorizedAttachmentCRUD\<close> of
  \<^verbatim>\<open>backend/crud/access.py\<close>) and the removal of damaged rows (\<^verbatim>\<open>backend/crud/damage.py\<close>).
  \<open>attachment_draw\<close> holds what adding one draws: uid, the nonces of metadata and content, and the
  current time. \<open>num r\<close> is the number SQLite's \<^verbatim>\<open>SUM\<close> takes for a stored size that is not an
  integer.
\<close>

section \<open>AttachmentCRUD\<close>

record attachment_draw =
  td_uid :: bytes
  td_nonces :: "bytes \<times> bytes"
  td_now :: time

definition MAX_ATTACHMENT_BYTES :: nat where "MAX_ATTACHMENT_BYTES = 5 * 1024 * 1024"
definition MAX_ATTACHMENTS_PER_ENTRY :: nat where "MAX_ATTACHMENTS_PER_ENTRY = 20"
definition MAX_TOTAL_BYTES :: int where "MAX_TOTAL_BYTES = 25 * 1024 * 1024"

record attachment_response =
  ar_id :: nat
  ar_metadata :: attachment_metadata
  ar_size_bytes :: "int cell"
  ar_created :: "time cell"

definition attachment_to_response :: "attachment_row \<Rightarrow> attachment_metadata \<Rightarrow> attachment_response" where
  "attachment_to_response a m =
     \<lparr>ar_id = at_id a, ar_metadata = m, ar_size_bytes = at_size_bytes a, ar_created = at_created a\<rparr>"

definition entry_attachments :: "db \<Rightarrow> nat \<Rightarrow> attachment_row list" where
  "entry_attachments d entry_id = filter (\<lambda>a. at_entry_id a = entry_id) (attachments d)"

definition get_entry_attachment :: "db \<Rightarrow> nat \<Rightarrow> nat \<Rightarrow> error + attachment_row" where
  "get_entry_attachment d entry_id attachment_id =
     orElse (row_of at_id attachment_id (entry_attachments d entry_id)) NotFound"

fun readable_attachments ::
    "env \<Rightarrow> vault_key \<Rightarrow> bytes cell \<Rightarrow> attachment_row list \<Rightarrow> error + attachment_response list" where
  "readable_attachments E key uid [] = Inr []"
| "readable_attachments E key uid (a # as) =
     (case open_attachment_metadata E key a uid of
        Inr m \<Rightarrow> andThen (readable_attachments E key uid as) (\<lambda>rs. Inr (attachment_to_response a m # rs))
      | Inl err \<Rightarrow> if err = VaultDamaged then readable_attachments E key uid as else Inl err)"

definition list_attachments :: "env \<Rightarrow> ustr \<Rightarrow> vault_key \<Rightarrow> db \<Rightarrow> error + attachment_response list" where
  "list_attachments E name key d =
     andThen (find_entry E key name False None d) (\<lambda>(e, _).
     readable_attachments E key (e_uid e)
       (sort_key (\<lambda>a. (cell_rank (at_created a), at_id a)) (entry_attachments d (e_id e))))"

fun size_value :: "(int \<Rightarrow> int) \<Rightarrow> int cell \<Rightarrow> int" where
  "size_value num (Good n) = n"
| "size_value num (Corrupt r) = num r"

definition check_capacity :: "(int \<Rightarrow> int) \<Rightarrow> nat \<Rightarrow> nat \<Rightarrow> db \<Rightarrow> error + unit" where
  "check_capacity num entry_id size_bytes d =
     (let rows = entry_attachments d entry_id; used = sum_list (map (\<lambda>a. size_value num (at_size_bytes a)) rows)
      in andThen (ensure (length rows < MAX_ATTACHMENTS_PER_ENTRY) InvalidRequest) (\<lambda>_.
         ensure (used + int size_bytes \<le> MAX_TOTAL_BYTES) InvalidRequest))"

definition new_attachment :: "attachment_draw \<Rightarrow> nat \<Rightarrow> attachment_row" where
  "new_attachment w entry_id =
     \<lparr>at_id = 0, at_uid = Good (td_uid w), at_created = Good (td_now w), at_entry_id = entry_id,
      at_size_bytes = Good 0, at_meta = Good [], at_content = Good []\<rparr>"

definition add_attachment ::
    "(int \<Rightarrow> int) \<Rightarrow> env \<Rightarrow> ustr \<Rightarrow> attachment_metadata \<Rightarrow> bytes \<Rightarrow> vault_key \<Rightarrow> attachment_draw \<Rightarrow> db \<Rightarrow>
       error + attachment_response \<times> db" where
  "add_attachment num E name metadata data key w d =
     andThen (ensure (data \<noteq> []) InvalidRequest) (\<lambda>_.
     andThen (ensure (length data \<le> MAX_ATTACHMENT_BYTES) InvalidRequest) (\<lambda>_.
     andThen (find_entry E key name False None d) (\<lambda>(e, _).
     andThen (check_capacity num (e_id e) (length data) d) (\<lambda>_.
     andThen (seal_attachment E key (fst (td_nonces w)) (snd (td_nonces w)) (new_attachment w (e_id e)) (e_uid e)
       metadata data) (\<lambda>a.
     andThen (insert_attachment a d) (\<lambda>(i, d').
     Inr (attachment_to_response (a\<lparr>at_id := i\<rparr>) metadata, d')))))))"

definition get_attachment_data ::
    "env \<Rightarrow> ustr \<Rightarrow> nat \<Rightarrow> vault_key \<Rightarrow> db \<Rightarrow> error + attachment_metadata \<times> bytes" where
  "get_attachment_data E name attachment_id key d =
     andThen (find_entry E key name False None d) (\<lambda>(e, _).
     andThen (get_entry_attachment d (e_id e) attachment_id) (\<lambda>a.
     andThen (open_attachment_metadata E key a (e_uid e)) (\<lambda>m.
     andThen (open_attachment_content E key a (e_uid e)) (\<lambda>data. Inr (m, data)))))"

definition delete_attachment :: "env \<Rightarrow> ustr \<Rightarrow> nat \<Rightarrow> vault_key \<Rightarrow> db \<Rightarrow> error + db" where
  "delete_attachment E name attachment_id key d =
     andThen (find_entry E key name False None d) (\<lambda>(e, _).
     andThen (get_entry_attachment d (e_id e) attachment_id) (\<lambda>a. Inr (delete_attachment_row (at_id a) d)))"

section \<open>AuthorizedAttachmentCRUD\<close>

definition authorized_attachments ::
    "env \<Rightarrow> auth_context \<Rightarrow> ustr \<Rightarrow> vault_key \<Rightarrow> time \<Rightarrow> db \<Rightarrow> error + attachment_response list" where
  "authorized_attachments E c name key now d =
     andThen (entry_by_name E c now name key ReadAccess False None d) (\<lambda>_. list_attachments E name key d)"

definition authorized_add_attachment ::
    "(int \<Rightarrow> int) \<Rightarrow> env \<Rightarrow> auth_context \<Rightarrow> ustr \<Rightarrow> attachment_metadata \<Rightarrow> bytes \<Rightarrow> vault_key \<Rightarrow>
       attachment_draw \<Rightarrow> db \<Rightarrow> error + attachment_response \<times> db" where
  "authorized_add_attachment num E c name metadata data key w d =
     andThen (entry_by_name E c (td_now w) name key WriteAccess False None d) (\<lambda>_.
     add_attachment num E name metadata data key w d)"

definition authorized_attachment_data ::
    "env \<Rightarrow> auth_context \<Rightarrow> ustr \<Rightarrow> nat \<Rightarrow> vault_key \<Rightarrow> time \<Rightarrow> db \<Rightarrow> error + attachment_metadata \<times> bytes" where
  "authorized_attachment_data E c name attachment_id key now d =
     andThen (entry_by_name E c now name key ReadAccess False None d) (\<lambda>_.
     get_attachment_data E name attachment_id key d)"

definition authorized_delete_attachment ::
    "env \<Rightarrow> auth_context \<Rightarrow> ustr \<Rightarrow> nat \<Rightarrow> vault_key \<Rightarrow> time \<Rightarrow> db \<Rightarrow> error + db" where
  "authorized_delete_attachment E c name attachment_id key now d =
     andThen (entry_by_name E c now name key WriteAccess False None d) (\<lambda>_.
     delete_attachment E name attachment_id key d)"

section \<open>Damaged rows\<close>

datatype damaged_kind = DamagedEntries | DamagedAttachments

text \<open>A read that fails with \<^verbatim>\<open>VaultDamaged\<close> means damage; any other error is raised.\<close>

definition damage_of :: "error + 'a \<Rightarrow> error + bool" where
  "damage_of r = (case r of Inr _ \<Rightarrow> Inr False | Inl e \<Rightarrow> if e = VaultDamaged then Inr True else Inl e)"

definition entry_is_damaged :: "env \<Rightarrow> vault_key \<Rightarrow> entry_row \<Rightarrow> error + bool" where
  "entry_is_damaged E key e = damage_of (open_entry E key e)"

definition attachment_is_damaged :: "env \<Rightarrow> vault_key \<Rightarrow> db \<Rightarrow> attachment_row \<Rightarrow> error + bool" where
  "attachment_is_damaged E key d a =
     (case get_entry d (at_entry_id a) of
        None \<Rightarrow> Inr True
      | Some e \<Rightarrow> damage_of (andThen (open_attachment_metadata E key a (e_uid e)) (\<lambda>_.
          open_attachment_content E key a (e_uid e))))"

fun filter_res :: "('a \<Rightarrow> error + bool) \<Rightarrow> 'a list \<Rightarrow> error + 'a list" where
  "filter_res f [] = Inr []"
| "filter_res f (x # xs) =
     andThen (f x) (\<lambda>b. andThen (filter_res f xs) (\<lambda>ys. Inr (if b then x # ys else ys)))"

text \<open>\<open>entry_ids\<close> and \<open>owner\<close> are the fields of a \<^verbatim>\<open>DamageCRUD\<close>.\<close>

definition find_damaged ::
    "env \<Rightarrow> nat list option \<Rightarrow> vault_key \<Rightarrow> db \<Rightarrow> error + nat list \<times> nat list" where
  "find_damaged E entry_ids key d =
     (let within = (\<lambda>i. case entry_ids of None \<Rightarrow> True | Some ids \<Rightarrow> i \<in> set ids)
      in andThen (filter_res (entry_is_damaged E key) (sort_key e_id (filter (\<lambda>e. within (e_id e)) (entries d)))) (\<lambda>es.
         andThen (filter_res (attachment_is_damaged E key d)
           (sort_key at_id (filter (\<lambda>a. within (at_entry_id a)) (attachments d)))) (\<lambda>as.
         Inr (map e_id es, map at_id as))))"

definition remove_damaged ::
    "env \<Rightarrow> nat option \<Rightarrow> vault_key \<Rightarrow> damaged_kind \<Rightarrow> nat \<Rightarrow> db \<Rightarrow> error + db" where
  "remove_damaged E owner key kind row_id d =
     (case kind of
        DamagedEntries \<Rightarrow>
          andThen (orElse (get_entry d row_id) NotFound) (\<lambda>e.
          andThen (ensure (owner = None \<or> e_owner_id e = owner) NotFound) (\<lambda>_.
          andThen (entry_is_damaged E key e) (\<lambda>damaged.
          andThen (ensure damaged InvalidRequest) (\<lambda>_. Inr (delete_entry_row (e_id e) d)))))
      | DamagedAttachments \<Rightarrow>
          andThen (orElse (get_attachment d row_id) NotFound) (\<lambda>a.
          andThen (ensure (owner = None \<or> (case get_entry d (at_entry_id a) of
            None \<Rightarrow> False | Some e \<Rightarrow> e_owner_id e = owner)) NotFound) (\<lambda>_.
          andThen (attachment_is_damaged E key d a) (\<lambda>damaged.
          andThen (ensure damaged InvalidRequest) (\<lambda>_. Inr (delete_attachment_row (at_id a) d))))))"

text \<open>\<^verbatim>\<open>get_damage_crud\<close> of \<^verbatim>\<open>backend/api/endpoints/deps.py\<close>: what a request may repair.\<close>

definition damage_scope :: "auth_context \<Rightarrow> time \<Rightarrow> db \<Rightarrow> nat list option \<times> nat option" where
  "damage_scope c now d =
     (if u_role (ctx_user c) = Admin then (None, None)
      else (Some (visible_ids c now False d @ visible_ids c now True d), Some (owner_id c)))"

section \<open>Lemmas\<close>

lemma check_capacity_Inr:
  "check_capacity num i n d = Inr x \<longleftrightarrow> length (entry_attachments d i) < MAX_ATTACHMENTS_PER_ENTRY
     \<and> sum_list (map (\<lambda>a. size_value num (at_size_bytes a)) (entry_attachments d i)) + int n \<le> MAX_TOTAL_BYTES"
  by (simp add: check_capacity_def Let_def result_simps)

lemma add_attachment_Inr:
  assumes "env_ok E" and "length (fst (td_nonces w)) = NONCE_BYTES" "length (snd (td_nonces w)) = NONCE_BYTES"
    and "add_attachment num E name m data key w d = Inr (r, d')"
  obtains e doc a where "find_entry E key name False None d = Inr (e, doc)"
    "data \<noteq> []" "length data \<le> MAX_ATTACHMENT_BYTES"
    "check_capacity num (e_id e) (length data) d = Inr ()"
    "at_id a = Suc (seq_attachments d)" "at_entry_id a = e_id e" "at_size_bytes a = Good (int (length data))"
    "d' = d\<lparr>attachments := attachments d @ [a], seq_attachments := at_id a\<rparr>"
    "open_attachment_metadata E key a (e_uid e) = Inr m" "open_attachment_content E key a (e_uid e) = Inr data"
    "r = attachment_to_response a m"
proof -
  from assms(4) obtain e doc s i where
    data: "data \<noteq> []" "length data \<le> MAX_ATTACHMENT_BYTES" and
    find: "find_entry E key name False None d = Inr (e, doc)" and
    cap: "check_capacity num (e_id e) (length data) d = Inr ()" and
    s: "seal_attachment E key (fst (td_nonces w)) (snd (td_nonces w)) (new_attachment w (e_id e)) (e_uid e) m data = Inr s" and
    ins: "insert_attachment s d = Inr (i, d')" and r: "r = attachment_to_response (s\<lparr>at_id := i\<rparr>) m"
    unfolding add_attachment_def by (auto simp: result_simps)
  have i: "i = Suc (seq_attachments d)" "d' = d\<lparr>attachments := attachments d @ [s\<lparr>at_id := i\<rparr>], seq_attachments := i\<rparr>"
    using ins by (auto simp: insert_attachment_def Let_def result_simps)
  have "is_good (at_created (new_attachment w (e_id e)))" by (simp add: new_attachment_def)
  note opened = open_seal_attachment [OF assms(1-3) this data(1) s]
  have fields: "at_entry_id s = e_id e" "at_size_bytes s = Good (int (length data))"
    using s by (auto simp: seal_attachment_def new_attachment_def result_simps)
  have "open_attachment_metadata E key (s\<lparr>at_id := i\<rparr>) (e_uid e) = Inr m"
    "open_attachment_content E key (s\<lparr>at_id := i\<rparr>) (e_uid e) = Inr data"
    using opened by (simp_all add: open_attachment_metadata_def open_attachment_content_def)
  with that [OF find data cap, of "s\<lparr>at_id := i\<rparr>"] i fields r show thesis by simp
qed

lemma permission_cong:
  assumes "entries d' = entries d" "folders d' = folders d" "entry_access d' = entry_access d"
    "folder_user_access d' = folder_user_access d" "folder_group_access d' = folder_group_access d"
    "group_members d' = group_members d"
  shows "permission c now d' i = permission c now d i"
proof -
  have "direct_entry_permissions d' = direct_entry_permissions d" "direct_folder_permissions d' = direct_folder_permissions d"
    "group_folder_permissions d' = group_folder_permissions d" "get_folder d' = get_folder d" "get_entry d' = get_entry d"
    by (simp_all add: direct_entry_permissions_def direct_folder_permissions_def group_folder_permissions_def
        get_folder_def get_entry_def assms fun_eq_iff)
  then show ?thesis by (simp only: permission_def)
qed

lemma damage_of_Inr: "damage_of r = Inr b \<longleftrightarrow> (if b then r = Inl VaultDamaged else is_ok r)"
  by (auto simp: damage_of_def split: sum.splits)

lemma remove_entry_Inr:
  "remove_damaged E owner key DamagedEntries i d = Inr d' \<longleftrightarrow>
     (\<exists>e. get_entry d i = Some e \<and> open_entry E key e = Inl VaultDamaged \<and> (owner = None \<or> e_owner_id e = owner)
        \<and> d' = delete_entry_row (e_id e) d)"
  by (auto simp: remove_damaged_def entry_is_damaged_def damage_of_Inr result_simps)

lemma remove_attachment_Inr:
  "remove_damaged E owner key DamagedAttachments i d = Inr d' \<longleftrightarrow>
     (\<exists>a. get_attachment d i = Some a \<and> attachment_is_damaged E key d a = Inr True
        \<and> (owner = None \<or> (\<exists>e. get_entry d (at_entry_id a) = Some e \<and> e_owner_id e = owner))
        \<and> d' = delete_attachment_row (at_id a) d)"
  by (auto simp: remove_damaged_def result_simps split: option.splits)

lemma filter_res_Inr: "filter_res f xs = Inr ys \<Longrightarrow> set ys = {x \<in> set xs. f x = Inr True}"
  by (induction xs arbitrary: ys) (auto simp: result_simps split: if_splits)

lemma find_damaged_rows:
  assumes "find_damaged E entry_ids key d = Inr (es, as)"
  shows "set es \<subseteq> e_id ` {e \<in> set (entries d). entry_is_damaged E key e = Inr True}"
    and "set as \<subseteq> at_id ` {a \<in> set (attachments d). attachment_is_damaged E key d a = Inr True}"
proof -
  let ?within = "\<lambda>i. case entry_ids of None \<Rightarrow> True | Some ids \<Rightarrow> i \<in> set ids"
  from assms obtain xs ys where
    xs: "filter_res (entry_is_damaged E key) (sort_key e_id (filter (\<lambda>e. ?within (e_id e)) (entries d))) = Inr xs" and
    ys: "filter_res (attachment_is_damaged E key d) (sort_key at_id (filter (\<lambda>a. ?within (at_entry_id a)) (attachments d))) = Inr ys" and
    "es = map e_id xs" "as = map at_id ys"
    unfolding find_damaged_def Let_def result_simps by blast
  with filter_res_Inr [OF xs] filter_res_Inr [OF ys]
  show "set es \<subseteq> e_id ` {e \<in> set (entries d). entry_is_damaged E key e = Inr True}"
    "set as \<subseteq> at_id ` {a \<in> set (attachments d). attachment_is_damaged E key d a = Inr True}" by auto
qed

lemma get_entry_delete:
  "get_entry (delete_entry_row i d) = (get_entry d)(i := None)" "get_entry (delete_attachment_row j d) = get_entry d"
  by (auto simp: get_entry_def delete_entry_row_def delete_attachment_row_def row_simps fun_eq_iff)

section \<open>Properties\<close>

text \<open>
  C35: An attachment comes back as it was stored, within the limits. Adding one needs write access to
  the entry and at most 5 MB of content; it takes a new id and changes nothing else, and every
  user who can read the entry then gets exactly the stored file name, type and content. The entry
  has at most 20 attachments and 25 MB of them.
\<close>

theorem attachment_round_trip:
  assumes "env_ok E" and "length (fst (td_nonces w)) = NONCE_BYTES" and "length (snd (td_nonces w)) = NONCE_BYTES"
    and "keys_ok d" and "authorized_add_attachment num E c name m data key w d = Inr (r, d')"
  shows "\<exists>e doc a. find_entry E key name False None d = Inr (e, doc)
    \<and> (permission c (td_now w) d (e_id e) = Inr Owner \<or> permission c (td_now w) d (e_id e) = Inr WriteAccess)
    \<and> d' = d\<lparr>attachments := attachments d @ [a], seq_attachments := ar_id r\<rparr> \<and> get_attachment d (ar_id r) = None
    \<and> data \<noteq> [] \<and> length data \<le> MAX_ATTACHMENT_BYTES
    \<and> length (entry_attachments d' (e_id e)) \<le> MAX_ATTACHMENTS_PER_ENTRY
    \<and> sum_list (map (\<lambda>a. size_value num (at_size_bytes a)) (entry_attachments d' (e_id e))) \<le> MAX_TOTAL_BYTES
    \<and> (\<forall>c' now' q. permission c' now' d (e_id e) = Inr q \<longrightarrow>
        authorized_attachment_data E c' name (ar_id r) key now' d' = Inr (m, data))"
proof -
  from assms(5) have add: "add_attachment num E name m data key w d = Inr (r, d')"
    and gate: "\<exists>e. entry_by_name E c (td_now w) name key WriteAccess False None d = Inr e"
    by (auto simp: authorized_add_attachment_def result_simps)
  obtain e doc a where new: "find_entry E key name False None d = Inr (e, doc)"
    "data \<noteq> []" "length data \<le> MAX_ATTACHMENT_BYTES"
    "check_capacity num (e_id e) (length data) d = Inr ()"
    "at_id a = Suc (seq_attachments d)" "at_entry_id a = e_id e" "at_size_bytes a = Good (int (length data))"
    "d' = d\<lparr>attachments := attachments d @ [a], seq_attachments := at_id a\<rparr>"
    "open_attachment_metadata E key a (e_uid e) = Inr m" "open_attachment_content E key a (e_uid e) = Inr data"
    "r = attachment_to_response a m"
    by (rule add_attachment_Inr [OF assms(1-3) add])
  have access: "permission c (td_now w) d (e_id e) = Inr Owner \<or> permission c (td_now w) d (e_id e) = Inr WriteAccess"
    using gate new(1) by (auto simp: entry_by_name_Inr rank_write)
  have id: "ar_id r = at_id a" by (simp add: new(11) attachment_to_response_def)
  have fresh: "row_of at_id (at_id a) (filter P (attachments d)) = None" for P
    using assms(4) new(5) by (fastforce simp: row_of_None keys_ok_def)
  then have none: "get_attachment d (ar_id r) = None"
    using fresh [of "\<lambda>_. True"] by (simp add: id get_attachment_def)
  have rows: "entry_attachments d' (e_id e) = entry_attachments d (e_id e) @ [a]"
    by (simp add: new(8) entry_attachments_def new(6))
  have same: "entries d' = entries d" by (simp add: new(8))
  have perm: "permission c' now' d' i = permission c' now' d i" for c' now' i
    by (rule permission_cong) (simp_all add: new(8))
  have found: "get_entry_attachment d' (e_id e) (at_id a) = Inr a"
    using fresh [of "\<lambda>x. at_entry_id x = e_id e"]
    unfolding get_entry_attachment_def rows by (simp add: entry_attachments_def row_simps)
  have "authorized_attachment_data E c' name (ar_id r) key now' d' = Inr (m, data)"
    if "permission c' now' d (e_id e) = Inr q" for c' now' q
  proof -
    have "access_rank (Some ReadAccess) \<le> access_rank (Some q)" by (cases q) simp_all
    with that perm have "require c' now' d' (e_id e) ReadAccess = Inr q" by (simp add: require_Inr)
    then show ?thesis using new(1,9,10) found
      by (simp add: authorized_attachment_data_def entry_by_name_def get_attachment_data_def
          find_entry_cong [OF same] id)
  qed
  moreover have "length (entry_attachments d' (e_id e)) \<le> MAX_ATTACHMENTS_PER_ENTRY"
      "sum_list (map (\<lambda>a. size_value num (at_size_bytes a)) (entry_attachments d' (e_id e))) \<le> MAX_TOTAL_BYTES"
    using new(4,7) by (simp_all add: rows check_capacity_Inr)
  moreover have "d' = d\<lparr>attachments := attachments d @ [a], seq_attachments := ar_id r\<rparr>" using new(8) id by simp
  ultimately show ?thesis using new(1-3) access none by blast
qed

theorem attachment_round_trip_witness:
  "\<exists>r d'. authorized_add_attachment (\<lambda>_. 0) sample_E (sample_ctx 8 Member) [110]
       \<lparr>am_filename = [102], am_content_type = None\<rparr> [1, 2, 3] sample_key
       \<lparr>td_uid = [7], td_nonces = (sample_nonce, sample_nonce), td_now = 50\<rparr> shared_db = Inr (r, d')
     \<and> authorized_attachment_data sample_E (sample_ctx 7 Admin) [110] (ar_id r) sample_key 60 d' =
       Inr (\<lparr>am_filename = [102], am_content_type = None\<rparr>, [1, 2, 3])"
proof -
  let ?e = "sample_entry None None" and ?m = "\<lparr>am_filename = [102], am_content_type = None\<rparr>"
  let ?w = "\<lparr>td_uid = [7], td_nonces = (sample_nonce, sample_nonce), td_now = 50\<rparr>"
  have entries: "entries shared_db = [?e]" "attachments shared_db = []"
    by (simp_all add: shared_db_def sample_db_defs)
  note found = find_sample [OF entries(1), simplified]
  have p: "permission (sample_ctx 8 Member) 50 shared_db 4 = Inr WriteAccess"
      "permission (sample_ctx 7 Admin) 60 shared_db 4 = Inr Owner"
    by (simp_all add: permission_def shared_db_def get_entry_def sample_db_defs sample_ctx_def Let_def
        direct_entry_permissions_def grant_active_def)
  have "is_ok (attachment_metadata_ad (Good [7]) (e_uid ?e))" "is_ok (attachment_content_ad (Good [7]) (e_uid ?e))"
    by (simp_all add: attachment_metadata_ad_def attachment_content_ad_def associated_data_def pack_u_def)
  then obtain a where a: "seal_attachment sample_E sample_key sample_nonce sample_nonce (new_attachment ?w 4) (e_uid ?e)
      ?m [1, 2, 3] = Inr a"
    using projr_ok [of "seal_attachment sample_E sample_key sample_nonce sample_nonce (new_attachment ?w 4) (e_uid ?e) ?m [1, 2, 3]"]
    by (auto simp: seal_attachment_def new_attachment_def vk_seal_attachment_metadata_def vk_seal_attachment_content_def
        sample_env_def latin1_def is_ok_iff)
  have "is_ok (authorized_add_attachment (\<lambda>_. 0) sample_E (sample_ctx 8 Member) [110] ?m [1, 2, 3] sample_key ?w shared_db)"
    using found p a by (simp add: authorized_add_attachment_def entry_by_name_def require_def add_attachment_def
        check_capacity_def entry_attachments_def entries insert_attachment_def attachments_unique_def
        MAX_ATTACHMENT_BYTES_def MAX_ATTACHMENTS_PER_ENTRY_def MAX_TOTAL_BYTES_def Let_def)
  then obtain r d' where run: "authorized_add_attachment (\<lambda>_. 0) sample_E (sample_ctx 8 Member) [110] ?m [1, 2, 3]
      sample_key ?w shared_db = Inr (r, d')"
    by (auto simp: is_ok_iff)
  have "length (fst (td_nonces ?w)) = NONCE_BYTES" "length (snd (td_nonces ?w)) = NONCE_BYTES"
    by (simp_all add: length_sample_nonce)
  from attachment_round_trip [OF sample_env_ok this shared_keys_ok run] found p(2) run show ?thesis by auto
qed

text \<open>
  Only damaged rows are removed. A removal succeeds only for a row of the given owner (of any owner
  for an administrator) that fails its integrity check, and it deletes no entry that still opens;
  conversely every damaged row the check finds can be removed.
\<close>

theorem only_damaged_removed:
  assumes "keys_ok d"
  shows "(\<forall>d' e doc. remove_damaged E owner key kind i d = Inr d' \<longrightarrow> get_entry d (e_id e) = Some e \<longrightarrow>
        open_entry E key e = Inr doc \<longrightarrow> get_entry d' (e_id e) = Some e)
    \<and> (\<forall>d'. remove_damaged E owner key DamagedEntries i d = Inr d' \<longrightarrow>
        (\<exists>e. get_entry d i = Some e \<and> open_entry E key e = Inl VaultDamaged \<and> (owner = None \<or> e_owner_id e = owner)
          \<and> get_entry d' = (get_entry d)(i := None)))
    \<and> (\<forall>es as. find_damaged E entry_ids key d = Inr (es, as) \<longrightarrow>
        (\<forall>j \<in> set es. is_ok (remove_damaged E None key DamagedEntries j d))
        \<and> (\<forall>j \<in> set as. is_ok (remove_damaged E None key DamagedAttachments j d)))"
proof -
  have row: "get_entry d j = Some e \<Longrightarrow> e_id e = j" for j e by (auto simp: get_entry_def dest: row_of_Some)
  have "get_entry d' (e_id e) = Some e"
    if "remove_damaged E owner key kind i d = Inr d'" "get_entry d (e_id e) = Some e" "open_entry E key e = Inr doc" for d' e doc
  proof (cases kind)
    case DamagedEntries
    with that(1) obtain f where f: "get_entry d i = Some f" "open_entry E key f = Inl VaultDamaged"
        "d' = delete_entry_row (e_id f) d"
      by (auto simp: remove_entry_Inr)
    have "e_id e \<noteq> e_id f"
    proof
      assume "e_id e = e_id f"
      with row [OF f(1)] f(1) that(2) have "e = f" by simp
      with f(2) that(3) show False by simp
    qed
    with f(3) that(2) show ?thesis by (simp add: get_entry_delete)
  next
    case DamagedAttachments
    with that show ?thesis by (auto simp: remove_attachment_Inr get_entry_delete)
  qed
  moreover have "\<exists>e. get_entry d i = Some e \<and> open_entry E key e = Inl VaultDamaged \<and> (owner = None \<or> e_owner_id e = owner)
      \<and> get_entry d' = (get_entry d)(i := None)" if "remove_damaged E owner key DamagedEntries i d = Inr d'" for d'
    using that by (auto simp: remove_entry_Inr get_entry_delete dest: row)
  moreover have "is_ok (remove_damaged E None key DamagedEntries j d)"
    if "find_damaged E entry_ids key d = Inr (es, as)" "j \<in> set es" for es as j
  proof -
    from find_damaged_rows(1) [OF that(1)] that(2)
    obtain e where "e \<in> set (entries d)" "e_id e = j" "entry_is_damaged E key e = Inr True" by blast
    then show ?thesis using assms
      by (auto simp: is_ok_iff remove_entry_Inr entry_is_damaged_def damage_of_Inr get_entry_def keys_ok_def row_of_in_set)
  qed
  moreover have "is_ok (remove_damaged E None key DamagedAttachments j d)"
    if "find_damaged E entry_ids key d = Inr (es, as)" "j \<in> set as" for es as j
  proof -
    from find_damaged_rows(2) [OF that(1)] that(2)
    obtain a where "a \<in> set (attachments d)" "at_id a = j" "attachment_is_damaged E key d a = Inr True" by blast
    then show ?thesis using assms
      by (auto simp: is_ok_iff remove_attachment_Inr get_attachment_def keys_ok_def row_of_in_set)
  qed
  ultimately show ?thesis by blast
qed

theorem only_damaged_removed_witness:
  "find_damaged sample_E None sample_key (shared_db\<lparr>entries := [(sample_entry None None)\<lparr>e_document := Corrupt 0\<rparr>]\<rparr>)
     = Inr ([4], [])
   \<and> is_ok (remove_damaged sample_E None sample_key DamagedEntries 4
       (shared_db\<lparr>entries := [(sample_entry None None)\<lparr>e_document := Corrupt 0\<rparr>]\<rparr>))"
proof -
  let ?d = "shared_db\<lparr>entries := [(sample_entry None None)\<lparr>e_document := Corrupt 0\<rparr>]\<rparr>"
  have keys: "keys_ok ?d" using shared_keys_ok by (simp add: keys_ok_def shared_db_def)
  obtain ad where "entry_ad (Good [2]) = Inr ad" using sample_ads_ok(2) by (auto simp: is_ok_iff)
  then have found: "find_damaged sample_E None sample_key ?d = Inr ([4], [])"
    by (simp add: find_damaged_def entry_is_damaged_def damage_of_def open_entry_def vk_open_entry_def open_sealed_def
        catching_def as_damaged_def shared_db_def sample_db_defs)
  with only_damaged_removed [OF keys, of sample_E None sample_key DamagedEntries 4 None] show ?thesis by auto
qed

end
