(* ===== verification/Password_Import.thy ===== *)
theory Password_Import
  imports Attachments
begin

text \<open>
  Importing entries from a CSV file (\<^verbatim>\<open>backend/crud/password.py\<close>): mapping the columns of other
  password managers, turning rows into payloads, validating all of them before anything is
  written, and storing them. \<open>csv_table\<close> stands for decoding the file and \<^verbatim>\<open>csv.DictReader\<close>: the
  header cells and one association list per row, without the cells that have no column or no
  value. \<open>draw n\<close> holds the random values and the time row number \<open>n\<close> uses.

  SQLAlchemy writes an added row at the next flush: \<open>im_pending\<close> holds the entries added since.
  A flush happens where the code asks for one and before a query (autoflush).
\<close>

section \<open>Columns and cells\<close>

datatype csv_field = F_name | F_username | F_value | F_url | F_description | F_folder | F_type | F_totp_secret

fun csv_field_aliases :: "csv_field \<Rightarrow> ustr list" where
  "csv_field_aliases F_name = map utext [''name'', ''title'', ''account'', ''login_name'', ''item name'']"
| "csv_field_aliases F_username =
     map utext [''username'', ''login_username'', ''user'', ''email'', ''login'', ''e-mail'']"
| "csv_field_aliases F_value = map utext [''password'', ''login_password'', ''pass'']"
| "csv_field_aliases F_url =
     map utext [''url'', ''uri'', ''login_uri'', ''website'', ''web site'', ''site'', ''link'']"
| "csv_field_aliases F_description =
     map utext [''notes'', ''note'', ''description'', ''comment'', ''comments'', ''extra'']"
| "csv_field_aliases F_folder = map utext [''folder'', ''grouping'', ''group'', ''category'', ''collection'']"
| "csv_field_aliases F_type = map utext [''type'', ''item type'', ''item_type'']"
| "csv_field_aliases F_totp_secret =
     map utext [''totp'', ''login_totp'', ''otpauth'', ''otp'', ''2fa'', ''otp_auth'', ''totpauth'']"

definition csv_note_types :: "ustr list" where
  "csv_note_types = map utext [''note'', ''secure note'', ''securenote'', ''secure_note'']"

definition csv_unsupported_types :: "ustr list" where
  "csv_unsupported_types =
     map utext [''card'', ''creditcard'', ''credit card'', ''identity'', ''alias'', ''sshkey'', ''ssh key'', ''ssh_key'']"

type_synonym csv_row = "(ustr \<times> ustr) list"

text \<open>A dictionary built from a list keeps the last value of a key.\<close>

definition dict_of :: "('a \<times> 'b) list \<Rightarrow> 'a \<Rightarrow> 'b option" where
  "dict_of kvs = map_of (rev kvs)"

definition map_csv_columns :: "text_ops \<Rightarrow> ustr list \<Rightarrow> csv_field \<Rightarrow> ustr list" where
  "map_csv_columns T fieldnames f =
     (let normalized = dict_of (map (\<lambda>n. (py_lower T (py_strip T n), n)) fieldnames)
      in map the (filter (\<lambda>c. c \<noteq> None) (map normalized (csv_field_aliases f))))"

definition csv_cell :: "text_ops \<Rightarrow> csv_row \<Rightarrow> (csv_field \<Rightarrow> ustr list) \<Rightarrow> csv_field \<Rightarrow> bool \<Rightarrow> ustr option" where
  "csv_cell T row column_for f strip =
     (let cells = map (\<lambda>c. let raw = case_option [] id (map_of row c) in if strip then py_strip T raw else raw) (column_for f)
      in case filter (\<lambda>s. s \<noteq> []) cells of [] \<Rightarrow> None | s # _ \<Rightarrow> Some s)"

definition csv_totp :: "text_ops \<Rightarrow> csv_row \<Rightarrow> (csv_field \<Rightarrow> ustr list) \<Rightarrow> ustr option" where
  "csv_totp T row column_for =
     (case normalize_totp_secret T (csv_cell T row column_for F_totp_secret True) of Inr s \<Rightarrow> s | Inl e \<Rightarrow> None)"

datatype csv_item = Blank | Ignored "ustr option" ustr | Fields "ustr payload"

definition csv_payload :: "ustr \<Rightarrow> ustr \<Rightarrow> ustr payload" where
  "csv_payload name value =
     \<lparr>pw_name = name, pw_kind = utext ''login'', pw_username = None, pw_value = value, pw_url = None,
      pw_totp_secret = None, pw_description = None, pw_tags = [], pw_custom_fields = [], pw_folder = None,
      pw_folder_id = None, pw_favorite = False\<rparr>"

definition csv_fields :: "text_ops \<Rightarrow> csv_row \<Rightarrow> (csv_field \<Rightarrow> ustr list) \<Rightarrow> csv_item" where
  "csv_fields T row column_for =
     (let cell = csv_cell T row column_for;
          name = cell F_name True;
          item_type = case_option [] id (cell F_type True);
          kind = py_lower T item_type
      in if \<forall>kv \<in> set row. py_strip T (snd kv) = [] then Blank
         else if kind \<in> set csv_note_types then
           (case name of
              None \<Rightarrow> Ignored None (utext ''secure note without a name'')
            | Some n \<Rightarrow>
                (case cell F_description False of
                   None \<Rightarrow> Ignored name (utext ''secure note without text'')
                 | Some body \<Rightarrow>
                     if py_strip T body = [] then Ignored name (utext ''secure note without text'')
                     else Fields ((csv_payload n body)\<lparr>pw_kind := utext ''note'', pw_folder := cell F_folder True\<rparr>)))
         else if kind \<in> set csv_unsupported_types then
           Ignored name ([39] @ take 40 item_type @ [39] @ utext '' items can'' @ [39] @ utext ''t be imported'')
         else
           (case name of
              None \<Rightarrow> Ignored None (utext ''no name'')
            | Some n \<Rightarrow>
                (case cell F_value False of
                   None \<Rightarrow> Ignored name (utext ''no password'')
                 | Some value \<Rightarrow>
                     Fields ((csv_payload n value)\<lparr>pw_username := cell F_username True, pw_url := cell F_url True,
                       pw_totp_secret := csv_totp T row column_for, pw_description := cell F_description True,
                       pw_folder := cell F_folder True\<rparr>))))"

section \<open>Validation\<close>

record import_report =
  rp_where :: ustr
  rp_name :: "ustr option"
  rp_reason :: ustr

text \<open>The third component counts the rows that do not validate; any of them refuses the file.\<close>

fun validate_rows ::
    "(ustr payload \<Rightarrow> error + password) \<Rightarrow> (ustr \<times> csv_item) list \<Rightarrow>
       (ustr \<times> password) list \<times> import_report list \<times> nat" where
  "validate_rows schema [] = ([], [], 0)"
| "validate_rows schema ((place, item) # rows) =
     (case validate_rows schema rows of (valid, ignored, problems) \<Rightarrow>
        (case item of
           Blank \<Rightarrow> (valid, ignored, problems)
         | Ignored name reason \<Rightarrow>
             (valid, \<lparr>rp_where = place, rp_name = map_option (take 100) name, rp_reason = reason\<rparr> # ignored, problems)
         | Fields raw \<Rightarrow>
             (case schema raw of
                Inr p \<Rightarrow> ((place, p) # valid, ignored, problems)
              | Inl e \<Rightarrow> (valid, ignored, Suc problems))))"

definition validate_import ::
    "(ustr payload \<Rightarrow> error + password) \<Rightarrow> (ustr \<times> csv_item) list \<Rightarrow>
       error + (ustr \<times> password) list \<times> import_report list" where
  "validate_import schema rows =
     (case validate_rows schema rows of (valid, ignored, problems) \<Rightarrow>
        andThen (ensure (problems = 0) InvalidRequest) (\<lambda>_. Inr (valid, ignored)))"

section \<open>Unique names\<close>

definition MAX_NAME_LENGTH :: nat where "MAX_NAME_LENGTH = 255"

definition numbered_name :: "ustr \<Rightarrow> nat \<Rightarrow> ustr" where
  "numbered_name name number =
     (let suffix = utext '' ('' @ decimal number @ utext '')''; limit = max MAX_NAME_LENGTH (length name)
      in take (limit - length suffix) name @ suffix)"

text \<open>The search may not end: then there is no value.\<close>

partial_function (option) unique_name ::
    "primitives \<Rightarrow> vault_key \<Rightarrow> bytes cell list \<Rightarrow> ustr \<Rightarrow> nat \<Rightarrow> (error + ustr) option" where
  "unique_name P key taken name number =
     (case name_index P key (numbered_name name number) of
        Inl e \<Rightarrow> Some (Inl e)
      | Inr ix \<Rightarrow>
          if Good ix \<in> set taken then unique_name P key taken name (Suc number)
          else Some (Inr (numbered_name name number)))"

section \<open>Storing\<close>

datatype on_conflict = Skip | Overwrite

record import_state =
  im_db :: db
  im_pending :: "entry_row list"
  im_existing :: "(bytes cell \<times> entry_row) list"
  im_taken :: "bytes cell list"
  im_seen :: "bytes list"
  im_renamed :: "import_report list"
  im_imported :: nat
  im_skipped :: nat
  im_overwritten :: nat

text \<open>
  The active entries by name index: all of them (\<^verbatim>\<open>PasswordCRUD\<close>) or those of one owner
  (\<^verbatim>\<open>AuthorizedPasswordCRUD\<close>).
\<close>

definition load_active :: "nat option \<Rightarrow> db \<Rightarrow> (bytes cell \<times> entry_row) list" where
  "load_active owner d =
     rev (map (\<lambda>e. (e_name_index e, e))
       (filter (\<lambda>e. e_deleted e = None \<and> (owner = None \<or> e_owner_id e = owner)) (entries d)))"

definition import_flush :: "import_state \<Rightarrow> error + import_state" where
  "import_flush st =
     andThen (fold_res (\<lambda>e d. andThen (insert_entry e d) (\<lambda>(i, d'). Inr d')) (im_pending st) (im_db st)) (\<lambda>d.
     Inr (st\<lparr>im_db := d, im_pending := []\<rparr>))"

definition add_imported ::
    "env \<Rightarrow> nat option \<Rightarrow> vault_key \<Rightarrow> entry_draw \<Rightarrow> bytes \<Rightarrow> password \<Rightarrow> import_state \<Rightarrow> error + import_state" where
  "add_imported E owner key w ix p st =
     andThen (if pw_folder_id p = None \<and> clean_folder (pw_folder p) \<noteq> None then import_flush st else Inr st) (\<lambda>st\<^sub>1.
     andThen (payload_folder E key (ed_folder w) owner p (im_db st\<^sub>1)) (\<lambda>(folder, resolved, d).
     andThen (seal_entry E key (ed_nonce w) (new_entry w owner folder) (document_from resolved [])) (\<lambda>e.
     Inr (st\<^sub>1\<lparr>im_db := d, im_pending := im_pending st\<^sub>1 @ [e], im_existing := (Good ix, e) # im_existing st\<^sub>1\<rparr>))))"

definition upsert_entry ::
    "env \<Rightarrow> nat option \<Rightarrow> on_conflict \<Rightarrow> vault_key \<Rightarrow> entry_draw \<Rightarrow> bytes \<Rightarrow> password \<Rightarrow> import_state \<Rightarrow>
       error + import_state" where
  "upsert_entry E owner conflict key w ix p st =
     (case map_of (im_existing st) (Good ix) of
        None \<Rightarrow>
          andThen (add_imported E owner key w ix p st) (\<lambda>st'. Inr (st'\<lparr>im_imported := Suc (im_imported st')\<rparr>))
      | Some current \<Rightarrow>
          andThen (open_entry E key current) (\<lambda>_.
          if conflict = Skip then Inr (st\<lparr>im_skipped := Suc (im_skipped st)\<rparr>)
          else
            andThen (update_entry (ed_now w) (current\<lparr>e_deleted := Some (Good (ed_now w))\<rparr>) (im_db st)) (\<lambda>d.
            andThen (import_flush (st\<lparr>im_db := d\<rparr>)) (\<lambda>st\<^sub>1.
            andThen (add_imported E owner key w ix p st\<^sub>1) (\<lambda>st'.
            Inr (st'\<lparr>im_overwritten := Suc (im_overwritten st')\<rparr>))))))"

text \<open>One row, under the name it is imported as.\<close>

definition import_named ::
    "env \<Rightarrow> nat option \<Rightarrow> on_conflict \<Rightarrow> vault_key \<Rightarrow> entry_draw \<Rightarrow> password \<Rightarrow> import_state \<Rightarrow> error + import_state" where
  "import_named E owner conflict key w p st =
     andThen (name_index (prims E) key (pw_name p)) (\<lambda>ix.
     upsert_entry E owner conflict key w ix p (st\<lparr>im_seen := ix # im_seen st, im_taken := Good ix # im_taken st\<rparr>))"

definition renamed_report :: "ustr \<Rightarrow> ustr \<Rightarrow> ustr \<Rightarrow> bool \<Rightarrow> import_report" where
  "renamed_report place name unique foreign =
     \<lparr>rp_where = place, rp_name = Some (take 100 name),
      rp_reason = utext ''imported as '' @ [39] @ take 120 unique @ [39] @ utext '' because ''
        @ (if foreign then utext ''that active name is already in use''
           else utext ''the file has another entry with this name'')\<rparr>"

definition import_row ::
    "env \<Rightarrow> nat option \<Rightarrow> on_conflict \<Rightarrow> vault_key \<Rightarrow> entry_draw \<Rightarrow> ustr \<times> password \<Rightarrow> import_state \<Rightarrow>
       (error + import_state) option" where
  "import_row E owner conflict key w row st =
     (case row of (place, p) \<Rightarrow>
        (case name_index (prims E) key (pw_name p) of
           Inl e \<Rightarrow> Some (Inl e)
         | Inr ix \<Rightarrow>
             let foreign = Good ix \<in> set (im_taken st) \<and> map_of (im_existing st) (Good ix) = None
             in if ix \<in> set (im_seen st) \<or> foreign then
                  (case unique_name (prims E) key (im_taken st) (pw_name p) 2 of
                     None \<Rightarrow> None
                   | Some (Inl e) \<Rightarrow> Some (Inl e)
                   | Some (Inr unique) \<Rightarrow>
                       Some (import_named E owner conflict key w (p\<lparr>pw_name := unique\<rparr>)
                         (st\<lparr>im_renamed := im_renamed st @ [renamed_report place (pw_name p) unique foreign]\<rparr>)))
                else Some (import_named E owner conflict key w p st)))"

fun import_rows ::
    "env \<Rightarrow> nat option \<Rightarrow> on_conflict \<Rightarrow> vault_key \<Rightarrow> (nat \<Rightarrow> entry_draw) \<Rightarrow> nat \<Rightarrow> (ustr \<times> password) list \<Rightarrow>
       import_state \<Rightarrow> (error + import_state) option" where
  "import_rows E owner conflict key draw n [] st = Some (Inr st)"
| "import_rows E owner conflict key draw n (row # rows) st =
     (case import_row E owner conflict key (draw n) row st of
        None \<Rightarrow> None
      | Some (Inl e) \<Rightarrow> Some (Inl e)
      | Some (Inr st') \<Rightarrow> import_rows E owner conflict key draw (Suc n) rows st')"

definition initial_import :: "nat option \<Rightarrow> db \<Rightarrow> import_state" where
  "initial_import only d =
     \<lparr>im_db = d, im_pending = [], im_existing = load_active only d, im_taken = active_indexes (entries d),
      im_seen = [], im_renamed = [], im_imported = 0, im_skipped = 0, im_overwritten = 0\<rparr>"

record import_result =
  ir_imported :: nat
  ir_skipped :: nat
  ir_overwritten :: nat
  ir_total :: nat
  ir_ignored :: nat
  ir_ignored_rows :: "import_report list"
  ir_renamed :: nat
  ir_renamed_rows :: "import_report list"

definition REPORTED_IGNORED_ROWS :: nat where "REPORTED_IGNORED_ROWS = 100"

definition import_result_of :: "import_state \<Rightarrow> import_report list \<Rightarrow> import_result" where
  "import_result_of st ignored =
     \<lparr>ir_imported = im_imported st, ir_skipped = im_skipped st, ir_overwritten = im_overwritten st,
      ir_total = im_imported st + im_skipped st + im_overwritten st, ir_ignored = length ignored,
      ir_ignored_rows = take REPORTED_IGNORED_ROWS ignored, ir_renamed = length (im_renamed st),
      ir_renamed_rows = take REPORTED_IGNORED_ROWS (im_renamed st)\<rparr>"

text \<open>\<open>only\<close> is the owner whose entries may be overwritten, \<open>owner\<close> the owner of what is added.\<close>

definition store_import ::
    "env \<Rightarrow> nat option \<Rightarrow> nat option \<Rightarrow> on_conflict \<Rightarrow> vault_key \<Rightarrow> (nat \<Rightarrow> entry_draw) \<Rightarrow> (ustr \<times> password) list \<Rightarrow>
       import_report list \<Rightarrow> db \<Rightarrow> (error + import_result \<times> db) option" where
  "store_import E only owner conflict key draw rows ignored d =
     map_option (\<lambda>r. andThen r (\<lambda>st. andThen (flush_or_conflict (import_flush st)) (\<lambda>st'.
         Inr (import_result_of st' ignored, im_db st'))))
       (import_rows E owner conflict key draw 0 rows (initial_import only d))"

definition numbered_rows :: "csv_row list \<Rightarrow> (ustr \<times> csv_row) list" where
  "numbered_rows rows = map (\<lambda>(i, row). (utext ''row '' @ decimal i, row)) (enumerate 2 rows)"

definition import_passwords_csv ::
    "text_ops \<Rightarrow> (bytes \<Rightarrow> error + ustr list \<times> csv_row list) \<Rightarrow> env \<Rightarrow> auth_context \<Rightarrow> bytes \<Rightarrow> vault_key \<Rightarrow> on_conflict \<Rightarrow>
       (nat \<Rightarrow> entry_draw) \<Rightarrow> db \<Rightarrow> (error + import_result \<times> db) option" where
  "import_passwords_csv T csv_table E c file_bytes key conflict draw d =
     (case csv_table file_bytes of
        Inl e \<Rightarrow> Some (Inl InvalidRequest)
      | Inr (fieldnames, rows) \<Rightarrow>
          let column_for = map_csv_columns T fieldnames
          in if fieldnames = [] \<or> column_for F_name = [] \<or> column_for F_value = [] then Some (Inl InvalidRequest)
             else
               case validate_import (validate_password T)
                      (map (\<lambda>(place, row). (place, csv_fields T row column_for)) (numbered_rows rows)) of
                 Inl e \<Rightarrow> Some (Inl e)
               | Inr (valid, ignored) \<Rightarrow>
                   store_import E (Some (owner_id c)) (Some (owner_id c)) conflict key draw valid ignored d)"

end
