(* ===== verification/Import_Safety.thy ===== *)
theory Import_Safety
  imports Password_Import
begin

text \<open>
  What a CSV import guarantees: the search for a free name ends, and storing the rows keeps every
  entry that was there. The definitions are in Password_Import. The invariant \<open>import_inv\<close> of the
  loop is kept by every step (\<open>import_keeps\<close>); \<open>import_progress\<close> adds what a list of rows has
  achieved.
\<close>

section \<open>The search for a free name\<close>

lemma decimal_length: "n < 10 ^ k \<Longrightarrow> 0 < k \<Longrightarrow> length (decimal n) \<le> k"
proof (induction k arbitrary: n)
  case (Suc k)
  show ?case
  proof (cases "n < 10")
    case True
    then show ?thesis by (simp add: decimal_eval(1))
  next
    case False
    with Suc.prems have "n div 10 < 10 ^ k" by (simp add: less_mult_imp_div_less mult.commute)
    moreover from False this have "0 < k" by (cases k) auto
    ultimately have "length (decimal (n div 10)) \<le> k" using Suc.IH by blast
    with False show ?thesis by (simp add: decimal_eval(2))
  qed
qed simp

lemma length_numbered_name:
  "number < 10 ^ 200 \<Longrightarrow> length (numbered_name name number) \<le> max MAX_NAME_LENGTH (length name)"
  using decimal_length [of number 200] by (auto simp: numbered_name_def utext_def Let_def MAX_NAME_LENGTH_def)

text \<open>If some numbered name is free, the search returns the first free one.\<close>

lemma unique_name_first:
  assumes "number \<le> n" and "name_index P key (numbered_name name n) = Inr ix" "Good ix \<notin> set taken"
    and "\<And>m. number \<le> m \<Longrightarrow> m < n \<Longrightarrow> \<exists>ix. name_index P key (numbered_name name m) = Inr ix \<and> Good ix \<in> set taken"
  shows "unique_name P key taken name number = Some (Inr (numbered_name name n))"
  using assms
proof (induction "n - number" arbitrary: number)
  case 0
  then show ?case by (subst unique_name.simps) simp
next
  case (Suc k)
  from Suc.hyps(2) have "number < n" by simp
  from Suc.prems(4) [OF order.refl this] obtain jx where
    "name_index P key (numbered_name name number) = Inr jx" "Good jx \<in> set taken" by blast
  moreover have "unique_name P key taken name (Suc number) = Some (Inr (numbered_name name n))"
    using Suc.hyps(2) Suc.prems \<open>number < n\<close> by (intro Suc.hyps(1)) auto
  ultimately show ?case by (subst unique_name.simps) simp
qed

lemma free_number:
  assumes "\<And>m. a \<le> m \<Longrightarrow> m \<le> a + length taken \<Longrightarrow> is_ok (f m)" and "inj_on f {a..a + length taken}"
  shows "\<exists>n ix. a \<le> n \<and> n \<le> a + length taken \<and> f n = Inr ix \<and> Good ix \<notin> set taken"
proof (rule ccontr)
  assume none: "\<not> ?thesis"
  let ?g = "\<lambda>m. Good (projr (f m))"
  have ok: "f m = Inr (projr (f m))" if "m \<in> {a..a + length taken}" for m
    using assms(1) that by (intro projr_ok) simp
  have "?g ` {a..a + length taken} \<subseteq> set taken" using none ok by fastforce
  moreover have "inj_on ?g {a..a + length taken}"
    using assms(2) ok unfolding inj_on_def by (metis cell.inject(1))
  ultimately have "card {a..a + length taken} \<le> card (set taken)"
    by (metis card_inj_on_le finite_set)
  then show False using card_length [of taken] by simp
qed

lemma utf8_ok: "is_ok (utf8 s) \<longleftrightarrow> (\<forall>c \<in> set s. utf8_char c \<noteq> None)"
  by (induction s) (auto simp: is_ok_iff result_simps)

lemma decimal_ascii: "c \<in> set (decimal n) \<Longrightarrow> c < 128"
  by (induction n rule: decimal.induct) (subst (asm) decimal.simps, auto split: if_splits)

lemma numbered_name_ok: "is_ok (utf8 name) \<Longrightarrow> is_ok (name_index P key (numbered_name name n))"
proof -
  assume name: "is_ok (utf8 name)"
  have "c < 128" if "c \<in> set (utext '' ('' @ decimal n @ utext '')'')" for c
    using that decimal_ascii by (auto simp: utext_def)
  then have "is_ok (utf8 (numbered_name name n))"
    using name unfolding utf8_ok numbered_name_def Let_def
    by (metis Un_iff in_set_takeD option.distinct(1) sample_char set_append)
  then show ?thesis by (auto simp: name_index_def is_ok_iff)
qed

section \<open>What an import keeps\<close>

text \<open>An original entry is kept as it was or, when overwriting is asked for, moved to the trash.\<close>

definition trashed :: "time \<Rightarrow> entry_row \<Rightarrow> entry_row" where
  "trashed t e = e\<lparr>e_deleted := Some (Good t), e_updated := Good t\<rparr>"

definition original_kept :: "on_conflict \<Rightarrow> nat option \<Rightarrow> db \<Rightarrow> entry_row \<Rightarrow> bool" where
  "original_kept conflict only d e \<longleftrightarrow> get_entry d (e_id e) = Some e
     \<or> conflict = Overwrite \<and> e_deleted e = None \<and> (only = None \<or> e_owner_id e = only)
       \<and> (\<exists>t. get_entry d (e_id e) = Some (trashed t e))"

text \<open>The document of a row is in an entry the import added.\<close>

definition row_stored :: "env \<Rightarrow> vault_key \<Rightarrow> db \<Rightarrow> db \<Rightarrow> entry_row list \<Rightarrow> password \<Rightarrow> bool" where
  "row_stored E key d\<^sub>0 d pending p \<longleftrightarrow>
     (\<exists>e doc. (e \<in> set (entries d) \<and> seq_entries d\<^sub>0 < e_id e \<or> e \<in> set pending) \<and> e_deleted e = None
        \<and> open_entry E key e = Inr doc
        \<and> doc = (document_from p [])\<lparr>doc_name := doc_name doc, doc_folder := doc_folder doc\<rparr>)"

definition row_skipped :: "env \<Rightarrow> vault_key \<Rightarrow> nat option \<Rightarrow> on_conflict \<Rightarrow> db \<Rightarrow> password \<Rightarrow> bool" where
  "row_skipped E key only conflict d\<^sub>0 p \<longleftrightarrow> conflict = Skip
     \<and> (\<exists>e ix. e \<in> set (entries d\<^sub>0) \<and> e_deleted e = None \<and> (only = None \<or> e_owner_id e = only)
          \<and> name_index (prims E) key (pw_name p) = Inr ix \<and> e_name_index e = Good ix)"

definition import_inv :: "on_conflict \<Rightarrow> nat option \<Rightarrow> db \<Rightarrow> import_state \<Rightarrow> bool" where
  "import_inv conflict only d\<^sub>0 st \<longleftrightarrow> keys_ok (im_db st) \<and> seq_entries d\<^sub>0 \<le> seq_entries (im_db st)
     \<and> (\<forall>e \<in> set (entries d\<^sub>0). original_kept conflict only (im_db st) e)
     \<and> (\<forall>k current. map_of (im_existing st) k = Some current \<longrightarrow> k \<in> Good ` set (im_seen st)
          \<or> current \<in> set (entries d\<^sub>0) \<and> e_deleted current = None \<and> e_name_index current = k
            \<and> (only = None \<or> e_owner_id current = only) \<and> get_entry (im_db st) (e_id current) = Some current)
     \<and> (\<forall>ix \<in> set (im_seen st). Good ix \<in> set (im_taken st))
     \<and> set (active_indexes (entries d\<^sub>0)) \<subseteq> set (im_taken st)
     \<and> attachments (im_db st) = attachments d\<^sub>0 \<and> entry_access (im_db st) = entry_access d\<^sub>0"

abbreviation import_size :: "import_state \<Rightarrow> nat" where
  "import_size st \<equiv> length (entries (im_db st)) + length (im_pending st)"

text \<open>A step that keeps the invariant and every row stored so far.\<close>

definition import_keeps ::
    "env \<Rightarrow> vault_key \<Rightarrow> on_conflict \<Rightarrow> nat option \<Rightarrow> db \<Rightarrow> import_state \<Rightarrow> import_state \<Rightarrow> bool" where
  "import_keeps E key conflict only d\<^sub>0 st st' \<longleftrightarrow> (import_inv conflict only d\<^sub>0 st \<longrightarrow> import_inv conflict only d\<^sub>0 st'
     \<and> (\<forall>p. row_stored E key d\<^sub>0 (im_db st) (im_pending st) p \<longrightarrow> row_stored E key d\<^sub>0 (im_db st') (im_pending st') p))"

lemma import_keeps_refl: "import_keeps E key conflict only d\<^sub>0 st st"
  by (simp add: import_keeps_def)

lemma import_keeps_trans:
  "import_keeps E key conflict only d\<^sub>0 st st\<^sub>1 \<Longrightarrow> import_keeps E key conflict only d\<^sub>0 st\<^sub>1 st\<^sub>2 \<Longrightarrow>
     import_keeps E key conflict only d\<^sub>0 st st\<^sub>2"
  unfolding import_keeps_def by blast

text \<open>What inserting a list of rows does.\<close>

definition inserted :: "entry_row list \<Rightarrow> db \<Rightarrow> db \<Rightarrow> bool" where
  "inserted es d d' \<longleftrightarrow> keys_ok d' \<and> seq_entries d \<le> seq_entries d'
     \<and> length (entries d') = length (entries d) + length es
     \<and> d' = d\<lparr>entries := entries d', seq_entries := seq_entries d'\<rparr>
     \<and> (\<forall>i e. get_entry d i = Some e \<longrightarrow> get_entry d' i = Some e) \<and> set (entries d) \<subseteq> set (entries d')
     \<and> (\<forall>e \<in> set es. \<exists>i > seq_entries d. e\<lparr>e_id := i\<rparr> \<in> set (entries d'))"

lemma inserted_one:
  assumes "insert_entry x d = Inr (j, d')" and "keys_ok d"
  shows "inserted [x] d d'"
proof -
  note new = insert_entry_Inr [OF assms]
  have "keys_ok d'"
    using assms(2) new(1,6) by (auto simp: new(2) keys_ok_def intro: le_SucI)
  then show ?thesis using new(1,4,5) by (auto simp: inserted_def new(2) split: if_splits)
qed

lemma inserted_trans:
  assumes "inserted es d d\<^sub>1" and "inserted fs d\<^sub>1 d\<^sub>2"
  shows "inserted (es @ fs) d d\<^sub>2"
proof -
  from assms(1) have a: "keys_ok d\<^sub>1" "seq_entries d \<le> seq_entries d\<^sub>1" "length (entries d\<^sub>1) = length (entries d) + length es"
    "d\<^sub>1 = d\<lparr>entries := entries d\<^sub>1, seq_entries := seq_entries d\<^sub>1\<rparr>"
    "\<forall>i e. get_entry d i = Some e \<longrightarrow> get_entry d\<^sub>1 i = Some e" "set (entries d) \<subseteq> set (entries d\<^sub>1)"
    "\<forall>e \<in> set es. \<exists>i > seq_entries d. e\<lparr>e_id := i\<rparr> \<in> set (entries d\<^sub>1)" unfolding inserted_def by blast+
  from assms(2) have b: "keys_ok d\<^sub>2" "seq_entries d\<^sub>1 \<le> seq_entries d\<^sub>2" "length (entries d\<^sub>2) = length (entries d\<^sub>1) + length fs"
    "d\<^sub>2 = d\<^sub>1\<lparr>entries := entries d\<^sub>2, seq_entries := seq_entries d\<^sub>2\<rparr>"
    "\<forall>i e. get_entry d\<^sub>1 i = Some e \<longrightarrow> get_entry d\<^sub>2 i = Some e" "set (entries d\<^sub>1) \<subseteq> set (entries d\<^sub>2)"
    "\<forall>e \<in> set fs. \<exists>i > seq_entries d\<^sub>1. e\<lparr>e_id := i\<rparr> \<in> set (entries d\<^sub>2)" unfolding inserted_def by blast+
  have "d\<^sub>2 = d\<lparr>entries := entries d\<^sub>2, seq_entries := seq_entries d\<^sub>2\<rparr>"
    using b(4) arg_cong [OF a(4), of "\<lambda>x. x\<lparr>entries := entries d\<^sub>2, seq_entries := seq_entries d\<^sub>2\<rparr>"] by simp
  moreover have "\<exists>i > seq_entries d. e\<lparr>e_id := i\<rparr> \<in> set (entries d\<^sub>2)" if "e \<in> set (es @ fs)" for e
  proof -
    from that consider "e \<in> set es" | "e \<in> set fs" by auto
    then show ?thesis
    proof cases
      case 1
      with a(7) b(6) show ?thesis by blast
    next
      case 2
      with b(7) a(2) show ?thesis by (meson le_less_trans)
    qed
  qed
  ultimately show ?thesis unfolding inserted_def using a(2,3,5,6) b(1-3,5,6) by auto
qed

lemma insert_all:
  "fold_res (\<lambda>e d. andThen (insert_entry e d) (\<lambda>(i, d'). Inr d')) es d = Inr d' \<Longrightarrow> keys_ok d \<Longrightarrow> inserted es d d'"
proof (induction es arbitrary: d)
  case (Cons x es)
  from Cons.prems(1) obtain j d\<^sub>1 where ins: "insert_entry x d = Inr (j, d\<^sub>1)"
    and rest: "fold_res (\<lambda>e d. andThen (insert_entry e d) (\<lambda>(i, d'). Inr d')) es d\<^sub>1 = Inr d'"
    by (auto simp: result_simps)
  note one = inserted_one [OF ins Cons.prems(2)]
  then have "keys_ok d\<^sub>1" by (simp add: inserted_def)
  from inserted_trans [OF one Cons.IH [OF rest this]] show ?case by simp
qed (simp add: inserted_def)

lemma open_entry_id: "open_entry E k (e\<lparr>e_id := i\<rparr>) = open_entry E k e"
  by (simp add: open_entry_def)

text \<open>The invariant survives when entries are only added to the database.\<close>

lemma import_inv_grows:
  assumes inv: "import_inv conflict only d\<^sub>0 st"
    and same: "im_existing st' = im_existing st" "im_seen st' = im_seen st" "im_taken st' = im_taken st"
    and "keys_ok (im_db st')" "seq_entries (im_db st) \<le> seq_entries (im_db st')"
    and grow: "\<And>i e. get_entry (im_db st) i = Some e \<Longrightarrow> get_entry (im_db st') i = Some e"
    and "attachments (im_db st') = attachments (im_db st)" "entry_access (im_db st') = entry_access (im_db st)"
  shows "import_inv conflict only d\<^sub>0 st'"
proof -
  from inv have I: "seq_entries d\<^sub>0 \<le> seq_entries (im_db st)"
      "\<And>e. e \<in> set (entries d\<^sub>0) \<Longrightarrow> original_kept conflict only (im_db st) e"
      "\<And>k current. map_of (im_existing st) k = Some current \<Longrightarrow> k \<in> Good ` set (im_seen st)
        \<or> current \<in> set (entries d\<^sub>0) \<and> e_deleted current = None \<and> e_name_index current = k
          \<and> (only = None \<or> e_owner_id current = only) \<and> get_entry (im_db st) (e_id current) = Some current"
      "\<And>ix. ix \<in> set (im_seen st) \<Longrightarrow> Good ix \<in> set (im_taken st)"
      "set (active_indexes (entries d\<^sub>0)) \<subseteq> set (im_taken st)"
      "attachments (im_db st) = attachments d\<^sub>0" "entry_access (im_db st) = entry_access d\<^sub>0"
    unfolding import_inv_def by blast+
  have "original_kept conflict only (im_db st') e" if "e \<in> set (entries d\<^sub>0)" for e
    using I(2) [OF that] grow unfolding original_kept_def by blast
  moreover have "k \<in> Good ` set (im_seen st') \<or> current \<in> set (entries d\<^sub>0) \<and> e_deleted current = None \<and> e_name_index current = k
        \<and> (only = None \<or> e_owner_id current = only) \<and> get_entry (im_db st') (e_id current) = Some current"
    if "map_of (im_existing st') k = Some current" for k current
    using I(3) [of k current] that grow unfolding same by blast
  moreover have "seq_entries d\<^sub>0 \<le> seq_entries (im_db st')" using I(1) assms(6) by simp
  moreover have "\<forall>ix \<in> set (im_seen st'). Good ix \<in> set (im_taken st')" using I(4) by (simp add: same)
  moreover have "attachments (im_db st') = attachments d\<^sub>0" "entry_access (im_db st') = entry_access d\<^sub>0"
    using I(6,7) assms(8,9) by simp_all
  moreover have "set (active_indexes (entries d\<^sub>0)) \<subseteq> set (im_taken st')" using I(5) by (simp add: same)
  ultimately show ?thesis unfolding import_inv_def using assms(5) by blast
qed

lemma row_stored_mono:
  assumes "row_stored E key d\<^sub>0 d pending p"
    and "\<And>e. e \<in> set (entries d) \<Longrightarrow> seq_entries d\<^sub>0 < e_id e \<Longrightarrow> e \<in> set (entries d')"
    and "\<And>e. e \<in> set pending \<Longrightarrow> (\<exists>i > seq_entries d\<^sub>0. e\<lparr>e_id := i\<rparr> \<in> set (entries d')) \<or> e \<in> set pending'"
  shows "row_stored E key d\<^sub>0 d' pending' p"
proof -
  from assms(1) obtain e doc where e: "e \<in> set (entries d) \<and> seq_entries d\<^sub>0 < e_id e \<or> e \<in> set pending"
    and doc: "e_deleted e = None" "open_entry E key e = Inr doc"
      "doc = (document_from p [])\<lparr>doc_name := doc_name doc, doc_folder := doc_folder doc\<rparr>"
    unfolding row_stored_def by blast
  from e assms(2,3) consider "e \<in> set (entries d')" "seq_entries d\<^sub>0 < e_id e" | "e \<in> set pending'"
    | i where "seq_entries d\<^sub>0 < i" "e\<lparr>e_id := i\<rparr> \<in> set (entries d')" by blast
  then show ?thesis
  proof cases
    case 1
    with doc show ?thesis unfolding row_stored_def by (intro exI [of _ e] exI [of _ doc]) blast
  next
    case 2
    with doc show ?thesis unfolding row_stored_def by (intro exI [of _ e] exI [of _ doc]) blast
  next
    case 3
    with doc show ?thesis unfolding row_stored_def
      by (intro exI [of _ "e\<lparr>e_id := i\<rparr>"] exI [of _ doc]) (simp add: open_entry_id)
  qed
qed

lemma flush_keeps:
  assumes "import_flush st = Inr st'" and "keys_ok (im_db st)"
  shows "import_keeps E key conflict only d\<^sub>0 st st'" and "import_size st' = import_size st" and "im_pending st' = []"
    and "im_existing st' = im_existing st" "im_seen st' = im_seen st" "keys_ok (im_db st')"
    and "im_imported st' = im_imported st" "im_overwritten st' = im_overwritten st" "im_skipped st' = im_skipped st"
proof -
  from assms(1) obtain d where st': "st' = st\<lparr>im_db := d, im_pending := []\<rparr>"
    and all: "fold_res (\<lambda>e d. andThen (insert_entry e d) (\<lambda>(i, d'). Inr d')) (im_pending st) (im_db st) = Inr d"
    by (auto simp: import_flush_def result_simps)
  then have ins: "inserted (im_pending st) (im_db st) d" using insert_all assms(2) by blast
  then have d: "keys_ok d" "seq_entries (im_db st) \<le> seq_entries d"
      "length (entries d) = length (entries (im_db st)) + length (im_pending st)"
      "\<And>i e. get_entry (im_db st) i = Some e \<Longrightarrow> get_entry d i = Some e"
      "set (entries (im_db st)) \<subseteq> set (entries d)"
      "\<And>e. e \<in> set (im_pending st) \<Longrightarrow> \<exists>i > seq_entries (im_db st). e\<lparr>e_id := i\<rparr> \<in> set (entries d)"
    unfolding inserted_def by blast+
  have eq: "d = (im_db st)\<lparr>entries := entries d, seq_entries := seq_entries d\<rparr>" using ins unfolding inserted_def by blast
  have tables: "attachments d = attachments (im_db st)" "entry_access d = entry_access (im_db st)"
    by (subst eq, simp)+
  have "import_inv conflict only d\<^sub>0 st'" if "import_inv conflict only d\<^sub>0 st"
    using that by (rule import_inv_grows) (simp_all add: st' d(1,2,4) tables)
  moreover have "row_stored E key d\<^sub>0 d [] p" if "row_stored E key d\<^sub>0 (im_db st) (im_pending st) p"
    and inv: "import_inv conflict only d\<^sub>0 st" for p
  proof (rule row_stored_mono [OF that(1)])
    fix e
    assume "e \<in> set (entries (im_db st))"
    with d(5) show "e \<in> set (entries d)" by blast
  next
    fix e
    assume "e \<in> set (im_pending st)"
    from d(6) [OF this] obtain i where "seq_entries (im_db st) < i" "e\<lparr>e_id := i\<rparr> \<in> set (entries d)" by blast
    moreover have "seq_entries d\<^sub>0 \<le> seq_entries (im_db st)" using inv unfolding import_inv_def by blast
    ultimately show "(\<exists>i > seq_entries d\<^sub>0. e\<lparr>e_id := i\<rparr> \<in> set (entries d)) \<or> e \<in> set []" by (meson le_less_trans)
  qed
  ultimately show "import_keeps E key conflict only d\<^sub>0 st st'" unfolding import_keeps_def by (simp add: st')
  show "import_size st' = import_size st" "im_pending st' = []"
    "im_existing st' = im_existing st" "im_seen st' = im_seen st" "keys_ok (im_db st')"
    "im_imported st' = im_imported st" "im_overwritten st' = im_overwritten st" "im_skipped st' = im_skipped st"
    using d(1,3) by (simp_all add: st')
qed

lemma import_inv_existing:
  assumes "import_inv conflict only d\<^sub>0 st" and "ix \<in> set (im_seen st)"
  shows "import_inv conflict only d\<^sub>0 (st\<lparr>im_pending := es, im_existing := (Good ix, e) # im_existing st\<rparr>)"
  using assms unfolding import_inv_def by simp

lemma import_inv_keys: "import_inv conflict only d\<^sub>0 st \<Longrightarrow> keys_ok (im_db st)"
  by (simp add: import_inv_def)

text \<open>The write-out before the folder query, when there is one.\<close>

definition autoflush :: "password \<Rightarrow> import_state \<Rightarrow> error + import_state" where
  "autoflush p st = (if pw_folder_id p = None \<and> clean_folder (pw_folder p) \<noteq> None then import_flush st else Inr st)"

lemma autoflush_keeps:
  assumes "autoflush p st = Inr st'" and "keys_ok (im_db st)"
  shows "import_keeps E key conflict only d\<^sub>0 st st'" and "import_size st' = import_size st"
    and "im_seen st' = im_seen st" "im_imported st' = im_imported st"
    and "im_overwritten st' = im_overwritten st" "im_skipped st' = im_skipped st"
  using assms flush_keeps [of st st'] by (auto simp: autoflush_def import_keeps_refl split: if_splits)

lemma add_imported_keeps:
  assumes "env_ok E" and "length (ed_nonce w) = NONCE_BYTES"
    and "add_imported E owner key w ix p st = Inr st'" and inv: "import_inv conflict only d\<^sub>0 st" and "ix \<in> set (im_seen st)"
    and p: "p = q\<lparr>pw_name := pw_name p\<rparr>"
  shows "import_inv conflict only d\<^sub>0 st'"
    and "row_stored E key d\<^sub>0 (im_db st) (im_pending st) r \<Longrightarrow> row_stored E key d\<^sub>0 (im_db st') (im_pending st') r"
    and "row_stored E key d\<^sub>0 (im_db st') (im_pending st') q"
    and "import_size st' = Suc (import_size st)" and "im_seen st' = im_seen st" "im_imported st' = im_imported st"
    and "im_overwritten st' = im_overwritten st" "im_skipped st' = im_skipped st"
proof -
  from assms(3) obtain st\<^sub>1 folder resolved d e where
    flush: "autoflush p st = Inr st\<^sub>1" and
    folder: "payload_folder E key (ed_folder w) owner p (im_db st\<^sub>1) = Inr (folder, resolved, d)" and
    e: "seal_entry E key (ed_nonce w) (new_entry w owner folder) (document_from resolved []) = Inr e" and
    st': "st' = st\<^sub>1\<lparr>im_db := d, im_pending := im_pending st\<^sub>1 @ [e], im_existing := (Good ix, e) # im_existing st\<^sub>1\<rparr>"
    unfolding add_imported_def autoflush_def [symmetric] by (auto simp: result_simps)
  note one = autoflush_keeps [OF flush import_inv_keys [OF inv]]
  have inv1: "import_inv conflict only d\<^sub>0 st\<^sub>1"
    and stored1: "\<And>r. row_stored E key d\<^sub>0 (im_db st) (im_pending st) r \<Longrightarrow> row_stored E key d\<^sub>0 (im_db st\<^sub>1) (im_pending st\<^sub>1) r"
    using one(1) inv unfolding import_keeps_def by blast+
  have keys1: "keys_ok (im_db st\<^sub>1)" using import_inv_keys [OF inv1] .
  have grow: "folders_grow (im_db st\<^sub>1) d" using payload_folder_Inr(1) [OF folder keys_ok_folder_ids [OF keys1]] .
  note same = folders_growD [OF grow]
  have "import_inv conflict only d\<^sub>0 (st\<^sub>1\<lparr>im_db := d\<rparr>)"
    using inv1 by (rule import_inv_grows) (simp_all add: same folders_grow_keys [OF grow keys1] get_entry_def)
  from import_inv_existing [OF this, where ix = ix and es = "im_pending st\<^sub>1 @ [e]" and e = e] assms(5) one(3)
  show "import_inv conflict only d\<^sub>0 st'" by (simp add: st')
  show "row_stored E key d\<^sub>0 (im_db st') (im_pending st') r" if "row_stored E key d\<^sub>0 (im_db st) (im_pending st) r"
    by (rule row_stored_mono [OF stored1 [OF that]]) (simp_all add: st' same)
  have "entry_readable (new_entry w owner folder)" by (simp add: entry_readable_def new_entry_def)
  note opened = open_entry_seal_entry [OF assms(1,2) this e]
  have "e_deleted e = None"
    using entry_frame_eqD [OF entry_rows.seal_keeps_frame [OF e]] by (simp add: new_entry_def)
  moreover have "document_from resolved [] = (document_from q [])\<lparr>doc_name := doc_name (document_from resolved []),
      doc_folder := doc_folder (document_from resolved [])\<rparr>"
  proof -
    have "document_from p [] = (document_from q [])\<lparr>doc_name := pw_name p\<rparr>"
      by (subst p) (simp add: document_from_def)
    moreover have "doc_name (document_from resolved []) = pw_name p"
      using payload_folder_Inr(2) [OF folder keys_ok_folder_ids [OF keys1]] by (simp add: document_from_def)
    ultimately show ?thesis using payload_folder_document [OF folder, of "[]"] by simp
  qed
  ultimately show "row_stored E key d\<^sub>0 (im_db st') (im_pending st') q"
    unfolding row_stored_def using opened
    by (intro exI [of _ e] exI [of _ "document_from resolved []"]) (simp add: st')
  show "import_size st' = Suc (import_size st)" using one(2) by (simp add: st' same)
  show "im_seen st' = im_seen st" "im_imported st' = im_imported st"
    "im_overwritten st' = im_overwritten st" "im_skipped st' = im_skipped st" using one(3-6) by (simp_all add: st')
qed

lemma import_inv_untouched:
  assumes "import_inv conflict only d\<^sub>0 st" and "map_of (im_existing st) k = Some c" and "k \<notin> Good ` set (im_seen st)"
  shows "c \<in> set (entries d\<^sub>0)" "e_deleted c = None" "e_name_index c = k"
    "only = None \<or> e_owner_id c = only" "get_entry (im_db st) (e_id c) = Some c"
proof -
  have "\<forall>k current. map_of (im_existing st) k = Some current \<longrightarrow> k \<in> Good ` set (im_seen st)
          \<or> current \<in> set (entries d\<^sub>0) \<and> e_deleted current = None \<and> e_name_index current = k
            \<and> (only = None \<or> e_owner_id current = only) \<and> get_entry (im_db st) (e_id current) = Some current"
    using assms(1) unfolding import_inv_def by (elim conjE)
  with assms(2,3) show "c \<in> set (entries d\<^sub>0)" "e_deleted c = None" "e_name_index c = k"
    "only = None \<or> e_owner_id c = only" "get_entry (im_db st) (e_id c) = Some c" by blast+
qed

lemma import_inv_seen:
  "import_inv conflict only d\<^sub>0 st \<Longrightarrow>
     import_inv conflict only d\<^sub>0 (st\<lparr>im_seen := ix # im_seen st, im_taken := Good ix # im_taken st\<rparr>)"
  unfolding import_inv_def by auto

lemma lookup_unique: "m k = Some x \<Longrightarrow> m k = Some y \<Longrightarrow> x = y"
  by simp

text \<open>Moving an original entry to the trash once its name index counts as seen.\<close>

lemma trash_keeps:
  assumes inv: "import_inv Overwrite only d\<^sub>0 st" and "keys_ok d\<^sub>0" and ix: "ix \<in> set (im_seen st)"
    and cur: "current \<in> set (entries d\<^sub>0)" "e_deleted current = None" "e_name_index current = Good ix"
      "only = None \<or> e_owner_id current = only" "get_entry (im_db st) (e_id current) = Some current"
    and upd: "update_entry now (current\<lparr>e_deleted := Some (Good now)\<rparr>) (im_db st) = Inr d"
  shows "import_inv Overwrite only d\<^sub>0 (st\<lparr>im_db := d\<rparr>)" and "length (entries d) = length (entries (im_db st))"
    and "row_stored E key d\<^sub>0 (im_db st) es p \<Longrightarrow> row_stored E key d\<^sub>0 d es p"
proof -
  have keys: "keys_ok (im_db st)" using import_inv_keys [OF inv] .
  have mem: "current \<in> set (entries (im_db st))" using cur(5) by (auto simp: get_entry_def dest: row_of_Some)
  have d: "d = (im_db st)\<lparr>entries := set_row e_id (trashed now current) (entries (im_db st))\<rparr>"
    using trash_row_Inr [OF upd _ mem cur(2)] keys by (simp add: keys_ok_def trashed_def)
  have id: "e_id (trashed now current) = e_id current" by (simp add: trashed_def)
  have get: "get_entry d = (get_entry (im_db st))(e_id current \<mapsto> trashed now current)"
    using cur(5) id by (auto simp: d get_entry_def row_simps fun_eq_iff)
  have ids: "map e_id (entries d) = map e_id (entries (im_db st))" by (simp add: d)
  have "e_id ` set (entries d) = e_id ` set (entries (im_db st))" by (metis ids set_map)
  then have bound: "(\<forall>e \<in> set (entries d). e_id e \<le> n) \<longleftrightarrow> (\<forall>e \<in> set (entries (im_db st)). e_id e \<le> n)" for n
    by (metis (no_types, lifting) image_iff)
  have "keys_ok d" using keys unfolding keys_ok_def ids bound by (simp add: d)
  moreover have "original_kept Overwrite only d e" if e: "e \<in> set (entries d\<^sub>0)" for e
  proof (cases "e_id e = e_id current")
    case True
    with assms(2) cur(1) e have "e = current" by (auto simp: keys_ok_def distinct_map inj_on_def)
    with cur(2,4) get show ?thesis unfolding original_kept_def by auto
  next
    case False
    with inv e get show ?thesis unfolding original_kept_def import_inv_def by auto
  qed
  moreover have "k \<in> Good ` set (im_seen st) \<or> c \<in> set (entries d\<^sub>0) \<and> e_deleted c = None \<and> e_name_index c = k
      \<and> (only = None \<or> e_owner_id c = only) \<and> get_entry d (e_id c) = Some c"
    if k: "map_of (im_existing st) k = Some c" for k c
  proof (cases "k \<in> Good ` set (im_seen st)")
    case False
    note c = import_inv_untouched [OF inv k False]
    have "e_id c \<noteq> e_id current"
    proof
      assume "e_id c = e_id current"
      from c(5) [unfolded this] cur(5) have eq: "c = current" by (rule lookup_unique)
      have "k = Good ix" using c(3) cur(3) unfolding eq by simp
      with False ix show False by simp
    qed
    with c get show ?thesis by simp
  qed simp
  ultimately show "import_inv Overwrite only d\<^sub>0 (st\<lparr>im_db := d\<rparr>)"
    using inv unfolding import_inv_def by (simp add: d)
  show "length (entries d) = length (entries (im_db st))" by (simp add: d set_row_def)
  show "row_stored E key d\<^sub>0 d es p" if "row_stored E key d\<^sub>0 (im_db st) es p"
  proof (rule row_stored_mono [OF that])
    fix e
    assume "e \<in> set (entries (im_db st))" "seq_entries d\<^sub>0 < e_id e"
    moreover have "e_id current \<le> seq_entries d\<^sub>0" using cur(1) assms(2) by (simp add: keys_ok_def)
    ultimately show "e \<in> set (entries d)" using id by (force simp: d set_row_def)
  qed simp
qed

section \<open>One row and all rows\<close>

lemma unique_name_free:
  assumes "unique_name P key taken name n = Some (Inr u)"
  shows "\<exists>ix. name_index P key u = Inr ix \<and> Good ix \<notin> set taken"
proof -
  let ?Q = "\<lambda>((((P, key), taken), name :: ustr), n :: nat) (y :: error + ustr). \<forall>u. y = Inr u \<longrightarrow>
      (\<exists>ix. name_index P key u = Inr ix \<and> Good ix \<notin> set taken)"
  from assms have "?Q ((((P, key), taken), name), n) (Inr u)"
    by (rule unique_name.raw_induct [of ?Q, rotated]) (fastforce split: sum.splits if_splits)
  then show ?thesis by simp
qed

definition blocks_name :: "nat option \<Rightarrow> db \<Rightarrow> bytes \<Rightarrow> bool" where
  "blocks_name only d\<^sub>0 ix \<longleftrightarrow> (\<exists>e \<in> set (entries d\<^sub>0). e_deleted e = None \<and> (only = None \<or> e_owner_id e = only)
     \<and> e_name_index e = Good ix)"

text \<open>The outcome of a row stored under the name of \<open>p\<close>, which stands for row \<open>q\<close>.\<close>

definition row_outcome ::
    "env \<Rightarrow> vault_key \<Rightarrow> on_conflict \<Rightarrow> nat option \<Rightarrow> db \<Rightarrow> import_state \<Rightarrow> import_state \<Rightarrow> bytes \<Rightarrow> password \<Rightarrow> bool" where
  "row_outcome E key conflict only d\<^sub>0 st st' ix q \<longleftrightarrow> import_keeps E key conflict only d\<^sub>0 st st'
     \<and> (row_stored E key d\<^sub>0 (im_db st') (im_pending st') q \<or> conflict = Skip \<and> blocks_name only d\<^sub>0 ix)
     \<and> import_size st' + im_imported st + im_overwritten st = import_size st + im_imported st' + im_overwritten st'
     \<and> im_imported st' + im_skipped st' + im_overwritten st' = Suc (im_imported st + im_skipped st + im_overwritten st)"

lemma import_named_outcome:
  assumes "env_ok E" and "length (ed_nonce w) = NONCE_BYTES" and "keys_ok d\<^sub>0"
    and inv: "import_inv conflict only d\<^sub>0 st" and ix: "name_index (prims E) key (pw_name p) = Inr ix"
    and fresh: "ix \<notin> set (im_seen st)" and p: "p = q\<lparr>pw_name := pw_name p\<rparr>"
    and run: "import_named E owner conflict key w p st = Inr st'"
  shows "row_outcome E key conflict only d\<^sub>0 st st' ix q"
proof -
  let ?st = "st\<lparr>im_seen := ix # im_seen st, im_taken := Good ix # im_taken st\<rparr>"
  have inv': "import_inv conflict only d\<^sub>0 ?st" using import_inv_seen [OF inv] .
  have seen: "ix \<in> set (im_seen ?st)" by simp
  from run ix have ups: "upsert_entry E owner conflict key w ix p ?st = Inr st'"
    by (simp add: import_named_def)
  show ?thesis
  proof (cases "map_of (im_existing st) (Good ix)")
    case None
    with ups obtain st\<^sub>1 where add: "add_imported E owner key w ix p ?st = Inr st\<^sub>1"
      and st': "st' = st\<^sub>1\<lparr>im_imported := Suc (im_imported st\<^sub>1)\<rparr>"
      by (auto simp: upsert_entry_def result_simps)
    note added = add_imported_keeps [OF assms(1,2) add inv' seen p]
    have "import_inv conflict only d\<^sub>0 st'" using added(1) by (simp add: st' import_inv_def)
    with added(2-) show ?thesis by (simp add: row_outcome_def import_keeps_def st')
  next
    case (Some current)
    have "Good ix \<notin> Good ` set (im_seen st)" using fresh by auto
    note cur = import_inv_untouched [OF inv Some this]
    show ?thesis
    proof (cases conflict)
      case Skip
      with ups Some have st': "st' = ?st\<lparr>im_skipped := Suc (im_skipped ?st)\<rparr>"
        by (auto simp: upsert_entry_def result_simps)
      have "import_inv conflict only d\<^sub>0 st'" using inv' by (simp add: st' import_inv_def)
      moreover have "blocks_name only d\<^sub>0 ix" using cur(1-4) unfolding blocks_name_def by blast
      ultimately show ?thesis using Skip by (simp add: row_outcome_def import_keeps_def st')
    next
      case Overwrite
      with ups Some obtain d st\<^sub>1 st\<^sub>2 where
        upd: "update_entry (ed_now w) (current\<lparr>e_deleted := Some (Good (ed_now w))\<rparr>) (im_db st) = Inr d" and
        flush: "import_flush (?st\<lparr>im_db := d\<rparr>) = Inr st\<^sub>1" and
        add: "add_imported E owner key w ix p st\<^sub>1 = Inr st\<^sub>2" and
        st': "st' = st\<^sub>2\<lparr>im_overwritten := Suc (im_overwritten st\<^sub>2)\<rparr>"
        by (auto simp: upsert_entry_def result_simps)
      have "update_entry (ed_now w) (current\<lparr>e_deleted := Some (Good (ed_now w))\<rparr>) (im_db ?st) = Inr d" using upd by simp
      note trash = trash_keeps [OF inv' [unfolded Overwrite] assms(3) seen cur(1-4) _ this]
      have inv2: "import_inv Overwrite only d\<^sub>0 (?st\<lparr>im_db := d\<rparr>)" using trash(1) cur(5) by simp
      note flushed = flush_keeps [OF flush import_inv_keys [OF inv2]]
      have inv3: "import_inv Overwrite only d\<^sub>0 st\<^sub>1" using flushed(1) inv2 unfolding import_keeps_def by blast
      have "ix \<in> set (im_seen st\<^sub>1)" by (simp add: flushed(5))
      note added = add_imported_keeps [OF assms(1,2) add inv3 this p]
      have "import_inv Overwrite only d\<^sub>0 st'" using added(1) by (simp add: st' import_inv_def)
      moreover have "row_stored E key d\<^sub>0 (im_db st') (im_pending st') r"
        if "row_stored E key d\<^sub>0 (im_db st) (im_pending st) r" for r
      proof -
        have "row_stored E key d\<^sub>0 (im_db (?st\<lparr>im_db := d\<rparr>)) (im_pending (?st\<lparr>im_db := d\<rparr>)) r"
          using trash(3) cur(5) that by simp
        then have "row_stored E key d\<^sub>0 (im_db st\<^sub>1) (im_pending st\<^sub>1) r"
          using flushed(1) inv2 unfolding import_keeps_def by blast
        with added(2) show ?thesis by (simp add: st')
      qed
      ultimately show ?thesis
        using added(3-) flushed trash(2) cur(5) Overwrite by (simp add: row_outcome_def import_keeps_def st')
    qed
  qed
qed

definition row_done :: "env \<Rightarrow> vault_key \<Rightarrow> on_conflict \<Rightarrow> nat option \<Rightarrow> db \<Rightarrow> import_state \<Rightarrow> password \<Rightarrow> bool" where
  "row_done E key conflict only d\<^sub>0 st q \<longleftrightarrow> row_stored E key d\<^sub>0 (im_db st) (im_pending st) q
     \<or> row_skipped E key only conflict d\<^sub>0 q"

definition import_progress ::
    "env \<Rightarrow> vault_key \<Rightarrow> on_conflict \<Rightarrow> nat option \<Rightarrow> db \<Rightarrow> import_state \<Rightarrow> import_state \<Rightarrow> password list \<Rightarrow> bool" where
  "import_progress E key conflict only d\<^sub>0 st st' qs \<longleftrightarrow> import_keeps E key conflict only d\<^sub>0 st st'
     \<and> (\<forall>q \<in> set qs. row_done E key conflict only d\<^sub>0 st' q)
     \<and> import_size st' + im_imported st + im_overwritten st = import_size st + im_imported st' + im_overwritten st'
     \<and> im_imported st' + im_skipped st' + im_overwritten st'
         = length qs + im_imported st + im_skipped st + im_overwritten st"

lemma import_row_progress:
  assumes "env_ok E" and "length (ed_nonce w) = NONCE_BYTES" and "keys_ok d\<^sub>0"
    and inv: "import_inv conflict only d\<^sub>0 st" and run: "import_row E owner conflict key w (place, q) st = Some (Inr st')"
  shows "import_progress E key conflict only d\<^sub>0 st st' [q]"
proof -
  from run obtain ix where ix: "name_index (prims E) key (pw_name q) = Inr ix"
    by (auto simp: import_row_def split: sum.splits)
  let ?foreign = "Good ix \<in> set (im_taken st) \<and> map_of (im_existing st) (Good ix) = None"
  show ?thesis
  proof (cases "ix \<in> set (im_seen st) \<or> ?foreign")
    case False
    with run ix have "import_named E owner conflict key w q st = Inr st'"
      by (simp add: import_row_def Let_def)
    moreover have "ix \<notin> set (im_seen st)" using False by simp
    moreover have "q = q\<lparr>pw_name := pw_name q\<rparr>" by simp
    ultimately have "row_outcome E key conflict only d\<^sub>0 st st' ix q"
      using import_named_outcome [OF assms(1-3) inv ix] by blast
    then show ?thesis
      using ix by (auto simp: row_outcome_def import_progress_def row_done_def row_skipped_def blocks_name_def)
  next
    case True
    with run ix obtain u where u: "unique_name (prims E) key (im_taken st) (pw_name q) 2 = Some (Inr u)"
      and named: "import_named E owner conflict key w (q\<lparr>pw_name := u\<rparr>)
        (st\<lparr>im_renamed := im_renamed st @ [renamed_report place (pw_name q) u ?foreign]\<rparr>) = Inr st'"
      by (auto simp: import_row_def Let_def split: option.splits sum.splits)
    let ?st = "st\<lparr>im_renamed := im_renamed st @ [renamed_report place (pw_name q) u ?foreign]\<rparr>"
    have same: "import_inv conflict only d\<^sub>0 ?st = import_inv conflict only d\<^sub>0 st" by (simp add: import_inv_def)
    from unique_name_free [OF u] obtain jx where jx: "name_index (prims E) key u = Inr jx" "Good jx \<notin> set (im_taken st)"
      by blast
    have "jx \<notin> set (im_seen st)" using inv jx(2) unfolding import_inv_def by blast
    moreover have "name_index (prims E) key (pw_name (q\<lparr>pw_name := u\<rparr>)) = Inr jx" using jx(1) by simp
    moreover have "q\<lparr>pw_name := u\<rparr> = q\<lparr>pw_name := pw_name (q\<lparr>pw_name := u\<rparr>)\<rparr>" by simp
    moreover have "import_inv conflict only d\<^sub>0 ?st" using inv same by simp
    ultimately have "row_outcome E key conflict only d\<^sub>0 ?st st' jx q"
      using import_named_outcome [OF assms(1-3) _ _ _ _ named] by simp
    moreover have "\<not> blocks_name only d\<^sub>0 jx"
    proof
      assume "blocks_name only d\<^sub>0 jx"
      then have "Good jx \<in> set (active_indexes (entries d\<^sub>0))"
        by (force simp: blocks_name_def active_indexes_def)
      moreover have "set (active_indexes (entries d\<^sub>0)) \<subseteq> set (im_taken st)" using inv unfolding import_inv_def by blast
      ultimately show False using jx(2) by blast
    qed
    ultimately show ?thesis
      unfolding row_outcome_def import_progress_def row_done_def import_keeps_def same by simp
  qed
qed

lemma row_done_keeps:
  "import_keeps E key conflict only d\<^sub>0 st st' \<Longrightarrow> import_inv conflict only d\<^sub>0 st \<Longrightarrow>
     row_done E key conflict only d\<^sub>0 st q \<Longrightarrow> row_done E key conflict only d\<^sub>0 st' q"
  unfolding row_done_def import_keeps_def by blast

lemma import_rows_progress:
  assumes "env_ok E" and draw: "\<And>n. length (ed_nonce (draw n)) = NONCE_BYTES" and "keys_ok d\<^sub>0"
  shows "import_rows E owner conflict key draw n rows st = Some (Inr st') \<Longrightarrow> import_inv conflict only d\<^sub>0 st \<Longrightarrow>
    import_progress E key conflict only d\<^sub>0 st st' (map snd rows)"
proof (induction rows arbitrary: n st)
  case Nil
  then show ?case by (simp add: import_progress_def import_keeps_refl)
next
  case (Cons row rows)
  obtain place q where row: "row = (place, q)" by (cases row)
  from Cons.prems(1) obtain st\<^sub>1 where one: "import_row E owner conflict key (draw n) (place, q) st = Some (Inr st\<^sub>1)"
    and rest: "import_rows E owner conflict key draw (Suc n) rows st\<^sub>1 = Some (Inr st')"
    by (auto simp: row split: option.splits sum.splits)
  have a: "import_progress E key conflict only d\<^sub>0 st st\<^sub>1 [q]"
    using import_row_progress [OF assms(1) draw assms(3) Cons.prems(2) one] .
  then have inv1: "import_inv conflict only d\<^sub>0 st\<^sub>1"
    using Cons.prems(2) unfolding import_progress_def import_keeps_def by blast
  have b: "import_progress E key conflict only d\<^sub>0 st\<^sub>1 st' (map snd rows)" using Cons.IH [OF rest inv1] .
  have "row_done E key conflict only d\<^sub>0 st' q"
    using a b row_done_keeps [OF _ inv1] unfolding import_progress_def by simp
  moreover have "import_keeps E key conflict only d\<^sub>0 st st'"
    using a b import_keeps_trans unfolding import_progress_def by blast
  ultimately show ?case using a b unfolding import_progress_def by (simp add: row)
qed

lemma initial_import_inv: "keys_ok d \<Longrightarrow> import_inv conflict only d (initial_import only d)"
proof -
  assume keys: "keys_ok d"
  have "current \<in> set (entries d) \<and> e_deleted current = None \<and> e_name_index current = k
      \<and> (only = None \<or> e_owner_id current = only) \<and> get_entry d (e_id current) = Some current"
    if "map_of (load_active only d) k = Some current" for k current
    using map_of_SomeD [OF that] keys by (auto simp: load_active_def get_entry_def keys_ok_def row_of_in_set)
  moreover have "original_kept conflict only d e" if "e \<in> set (entries d)" for e
    using that keys by (simp add: original_kept_def get_entry_def keys_ok_def row_of_in_set)
  ultimately show ?thesis using keys by (simp add: import_inv_def initial_import_def)
qed

section \<open>Properties\<close>

text \<open>
  C39: The search for a free name ends. When the name is valid text and the numbered names have
  different indexes, the loop returns the first numbered name that no active entry and no earlier
  row has, after at most one try per taken index, and within the length limit for names.
\<close>

theorem unique_name_found:
  assumes "is_ok (utf8 name)" and "length taken < 2 ^ 64"
    and "inj_on (\<lambda>n. name_index P key (numbered_name name n)) {2..2 + length taken}"
  shows "\<exists>n ix. unique_name P key taken name 2 = Some (Inr (numbered_name name n)) \<and> 2 \<le> n \<and> n \<le> 2 + length taken
    \<and> name_index P key (numbered_name name n) = Inr ix \<and> Good ix \<notin> set taken
    \<and> (\<forall>m. 2 \<le> m \<and> m < n \<longrightarrow> (\<exists>jx. name_index P key (numbered_name name m) = Inr jx \<and> Good jx \<in> set taken))
    \<and> length (numbered_name name n) \<le> max MAX_NAME_LENGTH (length name)"
proof -
  let ?free = "\<lambda>n. 2 \<le> n \<and> (\<exists>ix. name_index P key (numbered_name name n) = Inr ix \<and> Good ix \<notin> set taken)"
  have ok: "is_ok (name_index P key (numbered_name name m))" for m using numbered_name_ok [OF assms(1)] .
  from free_number [of 2 taken "\<lambda>n. name_index P key (numbered_name name n)"] ok assms(3)
  obtain k where k: "?free k" "k \<le> 2 + length taken" by blast
  let ?n = "LEAST n. ?free n"
  have n: "?free ?n" using k(1) by (rule LeastI)
  have le: "?n \<le> 2 + length taken" using order_trans [OF Least_le [of ?free, OF k(1)] k(2)] .
  have earlier: "\<exists>jx. name_index P key (numbered_name name m) = Inr jx \<and> Good jx \<in> set taken" if "2 \<le> m" "m < ?n" for m
    using not_less_Least [OF that(2)] that(1) ok [of m] by (auto simp: is_ok_iff)
  have "?n < 10 ^ 200"
  proof -
    have "2 + length taken < 10 ^ 200" using assms(2) by simp
    with le show ?thesis by linarith
  qed
  from length_numbered_name [OF this] n le earlier unique_name_first [of 2 ?n P key name _ taken]
  show ?thesis by blast
qed

theorem unique_name_found_witness:
  "\<exists>ix n. name_index (sample_primitives []) sample_key (utext ''n (2)'') = Inr ix
     \<and> unique_name (sample_primitives []) sample_key [Good ix] (utext ''n'') 2 = Some (Inr (numbered_name (utext ''n'') n))
     \<and> n \<le> 3"
proof -
  let ?f = "\<lambda>n. name_index (sample_primitives []) sample_key (numbered_name (utext ''n'') n)"
  have two: "numbered_name (utext ''n'') 2 = utext ''n (2)''" by code_simp
  have ok: "is_ok (utf8 (utext ''n''))" "is_ok (?f 2)" "?f 2 \<noteq> ?f 3" by code_simp+
  then obtain ix where ix: "?f 2 = Inr ix" by (auto simp: is_ok_iff)
  have "{2..2 + length [Good ix]} = {2, 3}" by auto
  then have inj: "inj_on ?f {2..2 + length [Good ix]}" using ok(3) by (simp add: inj_on_def)
  from unique_name_found [OF ok(1) _ inj] ix two show ?thesis by auto
qed



end
