(* ===== verification/Backup.thy ===== *)
theory Backup
  imports Backup_Format Vault_Settings Master_Password Authentication Import_Safety
begin

text \<open>
  Complete backups (\<^verbatim>\<open>backend/crud/backup.py\<close>): what a backup file says about the vault, its entries
  and attachments, the checks of the pydantic schemas, writing the file and restoring it. The JSON
  codecs of the manifest and the entries are pydantic's and the json module's, a parameter: a
  \<open>backup_codec\<close> holds encoders (which may refuse text that is not valid Unicode) and decoders of
  the JSON structure; the constraints of the schemas are the \<open>check\<close> definitions here. A moment in
  JSON is a wall time with an optional offset, both in microseconds. \<open>NotFound\<close> stands for
  SQLAlchemy's \<^verbatim>\<open>NoResultFound\<close> of \<^verbatim>\<open>get_one\<close>, \<open>ValueError\<close> also for a failed \<^verbatim>\<open>assert\<close>.
\<close>

section \<open>Contents of a backup\<close>

type_synonym json_time = "time \<times> int option"

record 't backup_attachment =
  ba_filename :: ustr
  ba_content_type :: "ustr option"
  ba_size :: int
  ba_sha256 :: ustr
  ba_created :: 't

record backup_folder =
  bf_uid :: ustr
  bf_name :: ustr

text \<open>\<^verbatim>\<open>BackupEntry\<close> has the keys of an entry document and these.\<close>

record 't backup_entry =
  be_document :: entry_document
  be_folder_uid :: "ustr option"
  be_created :: 't
  be_updated :: 't
  be_deleted :: "'t option"
  be_attachments :: "'t backup_attachment list"

record 't backup_manifest =
  bm_format :: ustr
  bm_version :: int
  bm_exported_at :: 't
  bm_app_version :: ustr
  bm_settings :: settings_row
  bm_entries_count :: int
  bm_folders :: "backup_folder list"

record backup_codec =
  enc_manifest :: "json_time backup_manifest \<Rightarrow> error + bytes"
  dec_manifest :: "bytes \<Rightarrow> json_time backup_manifest option"
  enc_backup_entry :: "json_time backup_entry \<Rightarrow> error + bytes"
  dec_backup_entry :: "bytes \<Rightarrow> json_time backup_entry option"
  valid_timestamp :: "ustr \<Rightarrow> bool"

definition codec_ok :: "backup_codec \<Rightarrow> bool" where
  "codec_ok B \<longleftrightarrow>
     (\<forall>m b. enc_manifest B m = Inr b \<longrightarrow> dec_manifest B b = Some m) \<and>
     (\<forall>e b. enc_backup_entry B e = Inr b \<longrightarrow> dec_backup_entry B b = Some e)"

definition hex_digit :: "nat \<Rightarrow> nat" where
  "hex_digit n = (if n < 10 then 48 + n else 87 + n)"

definition hex :: "bytes \<Rightarrow> ustr" where
  "hex b = concat (map (\<lambda>x. [hex_digit (unat x div 16), hex_digit (unat x mod 16)]) b)"

text \<open>The pattern \<^verbatim>\<open>^[0-9a-f]{n}$\<close>.\<close>

definition hex_text :: "nat \<Rightarrow> ustr \<Rightarrow> bool" where
  "hex_text n s \<longleftrightarrow> length s = n \<and> list_all (\<lambda>c. (48 \<le> c \<and> c \<le> 57) \<or> (97 \<le> c \<and> c \<le> 102)) s"

definition MIN_DATETIME :: time where "MIN_DATETIME = - 62135596800000000"
definition MAX_DATETIME :: time where "MAX_DATETIME = 253402300799999999"

definition utc_time :: "json_time \<Rightarrow> error + time" where
  "utc_time v =
     (case snd v of
        None \<Rightarrow> Inr (fst v)
      | Some offset \<Rightarrow>
          andThen (ensure (MIN_DATETIME \<le> fst v - offset \<and> fst v - offset \<le> MAX_DATETIME) ValueError) (\<lambda>_.
          Inr (fst v - offset)))"

definition stamp :: "time \<Rightarrow> json_time" where
  "stamp t = (t, Some 0)"

section \<open>The schemas\<close>

definition MAX_MIGRATED_TOTAL_ATTACHMENT_BYTES :: int where
  "MAX_MIGRATED_TOTAL_ATTACHMENT_BYTES = 50 * 1024 * 1024"

definition check_backup_attachment :: "json_time backup_attachment \<Rightarrow> error + time backup_attachment" where
  "check_backup_attachment a =
     andThen (require_unicode_text (ba_filename a)) (\<lambda>_.
     andThen (optional require_unicode_text (ba_content_type a)) (\<lambda>_.
     andThen (ensure (1 \<le> ba_size a \<and> ba_size a \<le> MAX_ATTACHMENT_FRAME_BYTES) ValueError) (\<lambda>_.
     andThen (ensure (hex_text 64 (ba_sha256 a)) ValueError) (\<lambda>_.
     andThen (utc_time (ba_created a)) (\<lambda>created.
     Inr \<lparr>ba_filename = ba_filename a, ba_content_type = ba_content_type a, ba_size = ba_size a,
       ba_sha256 = ba_sha256 a, ba_created = created\<rparr>)))))"

definition check_backup_history :: "backup_codec \<Rightarrow> history_item \<Rightarrow> error + history_item" where
  "check_backup_history B h =
     andThen (require_unicode_text (h_value h)) (\<lambda>_.
     andThen (require_unicode_text (h_changed_at h)) (\<lambda>_.
     andThen (ensure (valid_timestamp B (h_changed_at h)) ValueError) (\<lambda>_. Inr h)))"

definition check_backup_field :: "stored_field \<Rightarrow> error + stored_field" where
  "check_backup_field f =
     andThen (require_unicode_text (sf_label f)) (\<lambda>_.
     andThen (require_unicode_text (sf_value f)) (\<lambda>_. Inr f))"

definition check_backup_folder :: "backup_folder \<Rightarrow> error + backup_folder" where
  "check_backup_folder f =
     andThen (ensure (hex_text 32 (bf_uid f)) ValueError) (\<lambda>_.
     andThen (require_unicode_text (bf_name f)) (\<lambda>_. Inr f))"

definition check_backup_entry :: "backup_codec \<Rightarrow> json_time backup_entry \<Rightarrow> error + time backup_entry" where
  "check_backup_entry B e =
     (let doc = be_document e
      in andThen (require_unicode_text (doc_name doc)) (\<lambda>_.
         andThen (optional require_unicode_text (doc_username doc)) (\<lambda>_.
         andThen (require_unicode_text (doc_value doc)) (\<lambda>_.
         andThen (optional require_unicode_text (doc_url doc)) (\<lambda>_.
         andThen (optional require_unicode_text (doc_totp_secret doc)) (\<lambda>_.
         andThen (optional require_unicode_text (doc_description doc)) (\<lambda>_.
         andThen (map_res require_unicode_text (doc_tags doc)) (\<lambda>_.
         andThen (map_res check_backup_field (doc_custom_fields doc)) (\<lambda>_.
         andThen (optional require_unicode_text (doc_folder doc)) (\<lambda>_.
         andThen (ensure (case be_folder_uid e of None \<Rightarrow> True | Some u \<Rightarrow> hex_text 32 u) ValueError) (\<lambda>_.
         andThen (map_res (check_backup_history B) (doc_history doc)) (\<lambda>_.
         andThen (utc_time (be_created e)) (\<lambda>created.
         andThen (utc_time (be_updated e)) (\<lambda>updated.
         andThen (case be_deleted e of None \<Rightarrow> Inr None | Some t \<Rightarrow> andThen (utc_time t) (\<lambda>u. Inr (Some u))) (\<lambda>deleted.
         andThen (ensure (length (be_attachments e) \<le> MAX_ATTACHMENTS_PER_ENTRY) ValueError) (\<lambda>_.
         andThen (map_res check_backup_attachment (be_attachments e)) (\<lambda>as.
         Inr \<lparr>be_document = doc, be_folder_uid = be_folder_uid e, be_created = created, be_updated = updated,
           be_deleted = deleted, be_attachments = as\<rparr>)))))))))))))))))"

definition check_manifest :: "json_time backup_manifest \<Rightarrow> error + time backup_manifest" where
  "check_manifest m =
     andThen (ensure (bm_format m = utext ''ciphermoth-backup'') ValueError) (\<lambda>_.
     andThen (ensure (bm_version m = 2 \<or> bm_version m = 3) ValueError) (\<lambda>_.
     andThen (utc_time (bm_exported_at m)) (\<lambda>exported.
     andThen (require_unicode_text (bm_app_version m)) (\<lambda>_.
     andThen (ensure (0 \<le> bm_entries_count m \<and> bm_entries_count m \<le> MAX_FRAMES - 1) ValueError) (\<lambda>_.
     andThen (map_res check_backup_folder (bm_folders m)) (\<lambda>fs.
     Inr \<lparr>bm_format = bm_format m, bm_version = bm_version m, bm_exported_at = exported,
       bm_app_version = bm_app_version m, bm_settings = bm_settings m, bm_entries_count = bm_entries_count m,
       bm_folders = fs\<rparr>))))))"

section \<open>Creating a backup\<close>

record backup_draw =
  bd_salt :: bytes
  bd_nonces :: "nat \<Rightarrow> bytes"
  bd_now :: time

text \<open>\<^verbatim>\<open>writer.write\<close>; frame number \<open>i\<close> gets nonce number \<open>i\<close>.\<close>

definition put_frame :: "primitives \<Rightarrow> (nat \<Rightarrow> bytes) \<Rightarrow> bytes \<Rightarrow> backup_writer \<Rightarrow> error + backup_writer" where
  "put_frame P nonces plaintext w = writer_write P (nonces (nat (bw_index w))) plaintext w"

fun good_value :: "'a cell \<Rightarrow> error + 'a" where
  "good_value (Good x) = Inr x"
| "good_value (Corrupt r) = Inl ValueError"

text \<open>\<^verbatim>\<open>_attachment\<close>: content, metadata and creation time.\<close>

definition backup_attachment_data ::
    "env \<Rightarrow> vault_key \<Rightarrow> entry_row \<Rightarrow> attachment_row \<Rightarrow> error + bytes \<times> attachment_metadata \<times> time" where
  "backup_attachment_data E key e a =
     andThen (open_attachment_metadata E key a (e_uid e)) (\<lambda>m.
     andThen (open_attachment_content E key a (e_uid e)) (\<lambda>content.
     andThen (good_value (at_created a)) (\<lambda>created. Inr (content, m, created))))"

definition described_attachment ::
    "env \<Rightarrow> vault_key \<Rightarrow> entry_row \<Rightarrow> attachment_row \<Rightarrow> error + time backup_attachment" where
  "described_attachment E key e a =
     andThen (backup_attachment_data E key e a) (\<lambda>(content, m, created).
     check_backup_attachment
       \<lparr>ba_filename = am_filename m, ba_content_type = am_content_type m, ba_size = int (length content),
        ba_sha256 = hex (p_sha256 (prims E) content), ba_created = (created, None)\<rparr>)"

definition stamped_attachment :: "time backup_attachment \<Rightarrow> json_time backup_attachment" where
  "stamped_attachment a =
     \<lparr>ba_filename = ba_filename a, ba_content_type = ba_content_type a, ba_size = ba_size a,
      ba_sha256 = ba_sha256 a, ba_created = stamp (ba_created a)\<rparr>"

definition attachment_rows :: "db \<Rightarrow> nat \<Rightarrow> attachment_row list" where
  "attachment_rows d entry_id = sort_key at_id (entry_attachments d entry_id)"

text \<open>The JSON of one entry; \<open>uids\<close> is \<^verbatim>\<open>folder_uid_by_id\<close>.\<close>

definition backup_entry_of ::
    "env \<Rightarrow> vault_key \<Rightarrow> (nat \<times> ustr) list \<Rightarrow> db \<Rightarrow> entry_row \<Rightarrow> error + json_time backup_entry" where
  "backup_entry_of E key uids d e =
     andThen (open_entry E key e) (\<lambda>doc.
     andThen (map_res (described_attachment E key e) (attachment_rows d (e_id e))) (\<lambda>as.
     andThen (good_value (e_created e)) (\<lambda>created.
     andThen (good_value (e_updated e)) (\<lambda>updated.
     andThen (case e_deleted e of None \<Rightarrow> Inr None | Some t \<Rightarrow> andThen (good_value t) (\<lambda>u. Inr (Some (stamp u)))) (\<lambda>deleted.
     Inr \<lparr>be_document = doc, be_folder_uid = (case e_folder_id e of None \<Rightarrow> None | Some i \<Rightarrow> map_of uids i),
       be_created = stamp created, be_updated = stamp updated, be_deleted = deleted,
       be_attachments = map stamped_attachment as\<rparr>)))))"

definition write_attachment ::
    "env \<Rightarrow> vault_key \<Rightarrow> (nat \<Rightarrow> bytes) \<Rightarrow> entry_row \<Rightarrow> attachment_row \<Rightarrow> backup_writer \<Rightarrow> error + backup_writer" where
  "write_attachment E key nonces e a w =
     andThen (backup_attachment_data E key e a) (\<lambda>(content, m, created). put_frame (prims E) nonces content w)"

definition write_entry ::
    "backup_codec \<Rightarrow> env \<Rightarrow> vault_key \<Rightarrow> (nat \<times> ustr) list \<Rightarrow> (nat \<Rightarrow> bytes) \<Rightarrow> db \<Rightarrow> nat \<Rightarrow> backup_writer \<Rightarrow>
       error + backup_writer" where
  "write_entry B E key uids nonces d i w =
     andThen (orElse (get_entry d i) NotFound) (\<lambda>e.
     andThen (backup_entry_of E key uids d e) (\<lambda>entry.
     andThen (enc_backup_entry B entry) (\<lambda>encoded.
     andThen (ensure (int (length encoded) \<le> MAX_ENTRY_FRAME_BYTES) InvalidRequest) (\<lambda>_.
     andThen (put_frame (prims E) nonces encoded w) (\<lambda>w'.
     fold_res (write_attachment E key nonces e) (attachment_rows d (e_id e)) w')))))"

definition described_folder :: "env \<Rightarrow> vault_key \<Rightarrow> folder_row \<Rightarrow> error + backup_folder" where
  "described_folder E key f =
     andThen (good_value (f_uid f)) (\<lambda>uid.
     andThen (open_folder E key f) (\<lambda>name. check_backup_folder \<lparr>bf_uid = hex uid, bf_name = name\<rparr>))"

text \<open>The folders of a backup: all of them, or the owner's and those an entry of the backup is in.\<close>

definition backup_folder_rows :: "nat option \<Rightarrow> nat list option \<Rightarrow> db \<Rightarrow> folder_row list" where
  "backup_folder_rows owner only d =
     (case only of
        None \<Rightarrow> sort_key f_id (folders d)
      | Some ids \<Rightarrow>
          filter (\<lambda>f. owner = Some (f_owner_id f)
              \<or> (\<exists>e \<in> set (entries d). e_id e \<in> set ids \<and> e_folder_id e = Some (f_id f)))
            (sort_key f_id (folders d)))"

definition backup_entry_ids :: "nat list option \<Rightarrow> db \<Rightarrow> nat list" where
  "backup_entry_ids only d = (case only of None \<Rightarrow> sort (map e_id (entries d)) | Some ids \<Rightarrow> sort ids)"

definition backup_frames :: "nat list option \<Rightarrow> db \<Rightarrow> int" where
  "backup_frames only d =
     1 + int (length (backup_entry_ids only d))
     + int (length (filter (\<lambda>a. case only of None \<Rightarrow> True | Some ids \<Rightarrow> at_entry_id a \<in> set ids) (attachments d)))"

definition manifest_of ::
    "settings_row \<Rightarrow> ustr \<Rightarrow> time \<Rightarrow> nat list option \<Rightarrow> backup_folder list \<Rightarrow> db \<Rightarrow> json_time backup_manifest" where
  "manifest_of defaults app_version now only fs d =
     \<lparr>bm_format = utext ''ciphermoth-backup'', bm_version = 3, bm_exported_at = stamp now,
      bm_app_version = app_version, bm_settings = get_settings defaults d,
      bm_entries_count = int (length (backup_entry_ids only d)), bm_folders = fs\<rparr>"

definition write_file ::
    "backup_codec \<Rightarrow> env \<Rightarrow> settings_row \<Rightarrow> ustr \<Rightarrow> nat option \<Rightarrow> nat list option \<Rightarrow> vault_key \<Rightarrow> backup_draw \<Rightarrow>
       backup_key \<Rightarrow> db \<Rightarrow> error + bytes" where
  "write_file B E defaults app_version owner only key w bk d =
     andThen (ensure (\<forall>a \<in> set (attachments d). get_entry d (at_entry_id a) \<noteq> None) VaultDamaged) (\<lambda>_.
     let rows = backup_folder_rows owner only d
     in andThen (map_res (described_folder E key) rows) (\<lambda>fs.
        andThen (ensure (backup_frames only d \<le> MAX_FRAMES) InvalidRequest) (\<lambda>_.
        let m = manifest_of defaults app_version (bd_now w) only fs d
        in andThen (enc_manifest B m) (\<lambda>encoded.
           andThen (ensure (int (length encoded) \<le> MAX_MANIFEST_BYTES) InvalidRequest) (\<lambda>_.
           andThen (orElse (dec_manifest B encoded) ValueError) (\<lambda>decoded.
           andThen (check_manifest decoded) (\<lambda>_.
           andThen (BackupWriter bk \<lparr>bh_params = DEFAULT_KDF, bh_salt = bd_salt w, bh_frames = backup_frames only d,
               bh_commitment = bk_commitment bk\<rparr>) (\<lambda>writer.
           andThen (put_frame (prims E) (bd_nonces w) encoded writer) (\<lambda>writer\<^sub>1.
           andThen (fold_res (write_entry B E key (zip (map f_id rows) (map bf_uid fs)) (bd_nonces w) d)
               (backup_entry_ids only d) writer\<^sub>1) (\<lambda>writer\<^sub>2.
           andThen (writer_finish writer\<^sub>2) (\<lambda>_.
           andThen (ensure (int (length (bw_target writer\<^sub>2)) \<le> MAX_BACKUP_BYTES) InvalidRequest) (\<lambda>_.
           Inr (bw_target writer\<^sub>2)))))))))))))"

text \<open>
  \<open>d\<^sub>0\<close> is the database the master password is checked against, \<open>d\<close> the read snapshot after both key
  derivations.
\<close>

definition create_backup ::
    "backup_codec \<Rightarrow> env \<Rightarrow> settings_row \<Rightarrow> ustr \<Rightarrow> nat option \<Rightarrow> nat list option \<Rightarrow> ustr \<Rightarrow> vault_key \<Rightarrow> bool \<Rightarrow>
       backup_draw \<Rightarrow> db \<Rightarrow> db \<Rightarrow> error + bytes" where
  "create_backup B E defaults app_version owner only password key verify_current w d\<^sub>0 d =
     andThen (if verify_current then map_sum id Some (check_master_password (prims E) password d\<^sub>0) else Inr None) (\<lambda>opened.
     andThen (new_backup_key (prims E) (bd_salt w) password DEFAULT_KDF) (\<lambda>(salt, bk).
     andThen (case opened of None \<Rightarrow> Inr () | Some k \<Rightarrow> confirm_same_key k key d) (\<lambda>_.
     write_file B E defaults app_version owner only key w bk d)))"

section \<open>Restoring one entry\<close>

record restore_draw =
  rd_uid :: bytes
  rd_nonce :: bytes
  rd_folder :: "bytes \<times> bytes"
  rd_now :: time
  rd_attachments :: "nat \<Rightarrow> attachment_draw"

text \<open>\<open>rs_active\<close> and \<open>rs_in_trash\<close> are the dictionaries \<^verbatim>\<open>active\<close> and \<^verbatim>\<open>trashed\<close>.\<close>

record restore_state =
  rs_reader :: backup_reader
  rs_source :: bytes
  rs_db :: db
  rs_active :: "(bytes cell \<times> nat) list"
  rs_in_trash :: "((bytes cell \<times> time cell) \<times> nat) list"
  rs_seen :: "ustr list"
  rs_imported :: nat
  rs_skipped :: nat
  rs_overwritten :: nat
  rs_trashed :: nat
  rs_attachments :: nat

definition active_rows :: "db \<Rightarrow> (bytes cell \<times> nat) list" where
  "active_rows d = rev (map (\<lambda>e. (e_name_index e, e_id e)) (filter (\<lambda>e. e_deleted e = None) (entries d)))"

fun trash_key :: "entry_row \<Rightarrow> ((bytes cell \<times> time cell) \<times> nat) list" where
  "trash_key e = (case e_deleted e of None \<Rightarrow> [] | Some t \<Rightarrow> [((e_name_index e, t), e_id e)])"

definition trash_rows :: "db \<Rightarrow> ((bytes cell \<times> time cell) \<times> nat) list" where
  "trash_rows d = rev (concat (map trash_key (entries d)))"

fun kind_text :: "entry_kind \<Rightarrow> ustr" where
  "kind_text Login = utext ''login''"
| "kind_text Note = utext ''note''"

definition restorable :: "entry_document \<Rightarrow> csv_item" where
  "restorable doc =
     (if doc_name doc = [] then Ignored None (utext ''no name'')
      else if doc_value doc = [] then Ignored (Some (doc_name doc)) (utext ''no password or note text'')
      else Fields \<lparr>pw_name = doc_name doc, pw_kind = kind_text (doc_kind doc), pw_username = doc_username doc,
        pw_value = doc_value doc, pw_url = doc_url doc, pw_totp_secret = doc_totp_secret doc,
        pw_description = doc_description doc, pw_tags = doc_tags doc, pw_custom_fields = doc_custom_fields doc,
        pw_folder = doc_folder doc, pw_folder_id = None, pw_favorite = doc_favorite doc\<rparr>)"

text \<open>\<^verbatim>\<open>_check_entry\<close>: the validated payload and the history.\<close>

definition check_entry :: "text_ops \<Rightarrow> 't backup_entry \<Rightarrow> nat \<Rightarrow> error + password \<times> history_item list" where
  "check_entry T entry n =
     andThen (validate_import (validate_restored_password T)
       [(utext ''entry '' @ decimal n, restorable (be_document entry))]) (\<lambda>(restored, ignored).
     andThen (ensure (ignored = []) InvalidRequest) (\<lambda>_.
     andThen (ensure (sum_list (map ba_size (be_attachments entry)) \<le> MAX_MIGRATED_TOTAL_ATTACHMENT_BYTES)
       InvalidRequest) (\<lambda>_.
     case restored of [] \<Rightarrow> Inl ValueError | (_, p) # _ \<Rightarrow> Inr (p, doc_history (be_document entry)))))"

definition restored_row :: "restore_draw \<Rightarrow> nat option \<Rightarrow> nat option \<Rightarrow> time backup_entry \<Rightarrow> entry_row" where
  "restored_row w owner folder entry =
     \<lparr>e_id = 0, e_uid = Good (rd_uid w), e_created = Good (be_created entry), e_updated = Good (be_updated entry),
      e_deleted = map_option Good (be_deleted entry), e_owner_id = owner, e_folder_id = folder,
      e_name_index = Good [], e_document = Good [], e_backed_up = True\<rparr>"

text \<open>The end of \<^verbatim>\<open>_restore_target\<close>: the new row, its folder, and the dictionaries.\<close>

definition remember_row :: "time backup_entry \<Rightarrow> bytes \<Rightarrow> nat \<Rightarrow> db \<Rightarrow> restore_state \<Rightarrow> restore_state" where
  "remember_row entry ix i d st =
     (case be_deleted entry of
        None \<Rightarrow> st\<lparr>rs_db := d, rs_active := (Good ix, i) # rs_active st\<rparr>
      | Some t \<Rightarrow> st\<lparr>rs_db := d, rs_in_trash := ((Good ix, Good t), i) # rs_in_trash st\<rparr>)"

definition add_restored ::
    "env \<Rightarrow> nat option \<Rightarrow> vault_key \<Rightarrow> restore_draw \<Rightarrow> entry_document \<Rightarrow> time backup_entry \<Rightarrow> bytes \<Rightarrow> nat option \<Rightarrow>
       restore_state \<Rightarrow> error + entry_row option \<times> restore_state" where
  "add_restored E owner key w doc entry ix folder st =
     andThen (case folder of
         None \<Rightarrow> folder_named E key (rd_folder w) owner (doc_folder doc) (rs_db st)
       | Some i \<Rightarrow> Inr (Some i, rs_db st)) (\<lambda>(folder', d).
     andThen (seal_entry E key (rd_nonce w) (restored_row w owner folder' entry) doc) (\<lambda>e.
     andThen (insert_entry e d) (\<lambda>(i, d').
     Inr (Some (e\<lparr>e_id := i\<rparr>), remember_row entry ix i d' st))))"

definition restore_target ::
    "env \<Rightarrow> nat option \<Rightarrow> on_conflict \<Rightarrow> time \<Rightarrow> vault_key \<Rightarrow> restore_draw \<Rightarrow> entry_document \<Rightarrow> time backup_entry \<Rightarrow>
       nat option \<Rightarrow> restore_state \<Rightarrow> error + entry_row option \<times> restore_state" where
  "restore_target E owner conflict moved_at key w doc entry folder st =
     andThen (name_index (prims E) key (doc_name doc)) (\<lambda>ix.
     let add = add_restored E owner key w doc entry ix folder;
         skip = Inr (None, st\<lparr>rs_skipped := Suc (rs_skipped st)\<rparr>)
     in case be_deleted entry of
          Some t \<Rightarrow>
            (let add_trashed = add (st\<lparr>rs_trashed := Suc (rs_trashed st)\<rparr>)
             in case map_of (rs_in_trash st) (Good ix, Good t) of
                  None \<Rightarrow> add_trashed
                | Some i \<Rightarrow>
                    andThen (orElse (get_entry (rs_db st) i) NotFound) (\<lambda>e.
                    andThen (open_entry E key e) (\<lambda>_.
                    if owner = None \<or> e_owner_id e = owner then skip else add_trashed)))
        | None \<Rightarrow>
            (case map_of (rs_active st) (Good ix) of
               None \<Rightarrow> add (st\<lparr>rs_imported := Suc (rs_imported st)\<rparr>)
             | Some i \<Rightarrow>
                 andThen (orElse (get_entry (rs_db st) i) NotFound) (\<lambda>e.
                 andThen (open_entry E key e) (\<lambda>_.
                 if conflict = Skip then skip
                 else
                   andThen (ensure (owner = None \<or> e_owner_id e = owner) Forbidden) (\<lambda>_.
                   andThen (update_entry (rd_now w) (e\<lparr>e_deleted := Some (Good moved_at)\<rparr>) (rs_db st)) (\<lambda>d.
                   add (st\<lparr>rs_db := d, rs_overwritten := Suc (rs_overwritten st)\<rparr>)))))))"

text \<open>One attachment: its frame is read and checked also when its entry is skipped.\<close>

definition restored_attachment :: "attachment_draw \<Rightarrow> nat \<Rightarrow> time backup_attachment \<Rightarrow> attachment_row" where
  "restored_attachment w entry_id a = (new_attachment w entry_id)\<lparr>at_created := Good (ba_created a)\<rparr>"

definition store_attachment ::
    "env \<Rightarrow> vault_key \<Rightarrow> attachment_draw \<Rightarrow> entry_row \<Rightarrow> time backup_attachment \<Rightarrow> bytes \<Rightarrow> db \<Rightarrow> error + db" where
  "store_attachment E key w e a content d =
     andThen (seal_attachment E key (fst (td_nonces w)) (snd (td_nonces w)) (restored_attachment w (e_id e) a) (e_uid e)
       \<lparr>am_filename = ba_filename a, am_content_type = ba_content_type a\<rparr> content) (\<lambda>row.
     andThen (insert_attachment row d) (\<lambda>(i, d'). Inr d'))"

definition restore_attachment ::
    "env \<Rightarrow> backup_key \<Rightarrow> vault_key \<Rightarrow> (nat \<Rightarrow> attachment_draw) \<Rightarrow> entry_row option \<Rightarrow> nat \<times> time backup_attachment \<Rightarrow>
       restore_state \<Rightarrow> error + restore_state" where
  "restore_attachment E bk key draw into numbered st =
     (case numbered of (n, a) \<Rightarrow>
        andThen (reader_read (prims E) bk MAX_ATTACHMENT_FRAME_BYTES (rs_reader st) (rs_source st)) (\<lambda>(content, r, rest).
        andThen (ensure (int (length content) = ba_size a \<and> hex (p_sha256 (prims E) content) = ba_sha256 a)
          InvalidRequest) (\<lambda>_.
        let st' = st\<lparr>rs_reader := r, rs_source := rest\<rparr>
        in case into of
             None \<Rightarrow> Inr st'
           | Some e \<Rightarrow>
               andThen (store_attachment E key (draw n) e a content (rs_db st)) (\<lambda>d.
               Inr (st'\<lparr>rs_db := d, rs_attachments := Suc (rs_attachments st)\<rparr>)))))"

definition as_invalid :: "error \<Rightarrow> error" where
  "as_invalid e = (if e = ValueError then InvalidRequest else e)"

definition read_entry ::
    "backup_codec \<Rightarrow> primitives \<Rightarrow> backup_key \<Rightarrow> backup_reader \<Rightarrow> bytes \<Rightarrow>
       error + time backup_entry \<times> backup_reader \<times> bytes" where
  "read_entry B P bk r source =
     andThen (reader_read P bk MAX_ENTRY_FRAME_BYTES r source) (\<lambda>(encoded, r', rest).
     andThen (catching as_invalid (andThen (orElse (dec_backup_entry B encoded) ValueError) (check_backup_entry B))) (\<lambda>entry.
     Inr (entry, r', rest)))"

text \<open>The folder a link of the backup names: \<open>targets\<close> is \<^verbatim>\<open>folder_targets\<close>.\<close>

definition linked_folder ::
    "int \<Rightarrow> (ustr \<times> nat \<times> ustr) list \<Rightarrow> 't backup_entry \<Rightarrow> error + nat option" where
  "linked_folder version targets entry =
     (case be_folder_uid entry of
        Some uid \<Rightarrow>
          (case map_of targets uid of
             None \<Rightarrow> Inl InvalidRequest
           | Some (i, name) \<Rightarrow>
               andThen (ensure (doc_folder (be_document entry) = Some name) InvalidRequest) (\<lambda>_. Inr (Some i)))
      | None \<Rightarrow>
          andThen (ensure (\<not> (version = 3 \<and> doc_folder (be_document entry) \<noteq> None)) InvalidRequest) (\<lambda>_. Inr None))"

definition note_seen :: "'t backup_entry \<Rightarrow> ustr list \<Rightarrow> error + ustr list" where
  "note_seen entry seen =
     (let name = doc_name (be_document entry)
      in if be_deleted entry = None then andThen (ensure (name \<notin> set seen) InvalidRequest) (\<lambda>_. Inr (name # seen))
         else Inr seen)"

definition restore_entry ::
    "text_ops \<Rightarrow> backup_codec \<Rightarrow> env \<Rightarrow> nat option \<Rightarrow> on_conflict \<Rightarrow> time \<Rightarrow> backup_key \<Rightarrow> vault_key \<Rightarrow> int \<Rightarrow>
       (ustr \<times> nat \<times> ustr) list \<Rightarrow> (nat \<Rightarrow> restore_draw) \<Rightarrow> nat \<Rightarrow> restore_state \<Rightarrow> error + restore_state" where
  "restore_entry T B E owner conflict moved_at bk key version targets draw n st =
     andThen (read_entry B (prims E) bk (rs_reader st) (rs_source st)) (\<lambda>(entry, r, rest).
     andThen (linked_folder version targets entry) (\<lambda>folder.
     andThen (check_entry T entry n) (\<lambda>(p, history).
     andThen (note_seen entry (rs_seen st)) (\<lambda>seen.
     andThen (restore_target E owner conflict moved_at key (draw n) (document_from p history) entry folder
       (st\<lparr>rs_reader := r, rs_source := rest, rs_seen := seen\<rparr>)) (\<lambda>(into, st').
     fold_res (restore_attachment E bk key (rd_attachments (draw n)) into) (enumerate 0 (be_attachments entry)) st')))))"

section \<open>Restoring a file\<close>

record restore_result = import_result +
  rr_trashed :: nat
  rr_attachments :: nat
  rr_grants_restored :: nat
  rr_settings_restored :: bool

fun restore_folders ::
    "env \<Rightarrow> nat option \<Rightarrow> vault_key \<Rightarrow> (nat \<Rightarrow> bytes \<times> bytes) \<Rightarrow> nat \<Rightarrow> backup_folder list \<Rightarrow> (ustr \<times> nat \<times> ustr) list \<Rightarrow>
       db \<Rightarrow> error + (ustr \<times> nat \<times> ustr) list \<times> db" where
  "restore_folders E owner key random n [] targets d = Inr (targets, d)"
| "restore_folders E owner key random n (f # fs) targets d =
     andThen (ensure (map_of targets (bf_uid f) = None) InvalidRequest) (\<lambda>_.
     andThen (folder_named E key (random n) owner (Some (bf_name f)) d) (\<lambda>(folder, d').
     andThen (orElse folder ValueError) (\<lambda>i.
     restore_folders E owner key random (Suc n) fs ((bf_uid f, i, bf_name f) # targets) d')))"

definition initial_restore :: "backup_reader \<Rightarrow> bytes \<Rightarrow> db \<Rightarrow> restore_state" where
  "initial_restore r source d =
     \<lparr>rs_reader = r, rs_source = source, rs_db = d, rs_active = active_rows d, rs_in_trash = trash_rows d, rs_seen = [],
      rs_imported = 0, rs_skipped = 0, rs_overwritten = 0, rs_trashed = 0, rs_attachments = 0\<rparr>"

definition restore_result_of :: "restore_state \<Rightarrow> int \<Rightarrow> bool \<Rightarrow> restore_result" where
  "restore_result_of st announced settings_restored =
     \<lparr>ir_imported = rs_imported st, ir_skipped = rs_skipped st, ir_overwritten = rs_overwritten st,
      ir_total = nat announced, ir_ignored = 0, ir_ignored_rows = [], ir_renamed = 0, ir_renamed_rows = [],
      rr_trashed = rs_trashed st, rr_attachments = rs_attachments st, rr_grants_restored = 0,
      rr_settings_restored = settings_restored\<rparr>"

record restore_draws =
  rw_folders :: "nat \<Rightarrow> bytes \<times> bytes"
  rw_entries :: "nat \<Rightarrow> restore_draw"
  rw_moved_at :: time
  rw_committed_at :: instant

text \<open>\<^verbatim>\<open>_restore\<close>; an administrator's restore into an empty vault also takes the settings.\<close>

definition restore_file ::
    "text_ops \<Rightarrow> backup_codec \<Rightarrow> env \<Rightarrow> nat option \<Rightarrow> bool \<Rightarrow> on_conflict \<Rightarrow> backup_key \<Rightarrow> vault_key \<Rightarrow>
       time backup_manifest \<Rightarrow> restore_draws \<Rightarrow> backup_reader \<Rightarrow> bytes \<Rightarrow> db \<Rightarrow> error + restore_result \<times> db" where
  "restore_file T B E owner restore_settings conflict bk key m w r source d =
     andThen (restore_folders E owner key (rw_folders w) 0 (bm_folders m) [] d) (\<lambda>(targets, d\<^sub>1).
     andThen (fold_res (restore_entry T B E owner conflict (rw_moved_at w) bk key (bm_version m) targets (rw_entries w))
       [1..<Suc (nat (bm_entries_count m))] (initial_restore r source d\<^sub>1)) (\<lambda>st.
     andThen (reader_finish (rs_reader st) (rs_source st)) (\<lambda>_.
     let restored = entries d\<^sub>1 = [] \<and> restore_settings
     in Inr (restore_result_of st (bm_entries_count m) restored,
          if restored then (rs_db st)\<lparr>settings := Some (bm_settings m)\<rparr> else rs_db st))))"

definition as_damaged_upload :: "error \<Rightarrow> error" where
  "as_damaged_upload e = (if e = BackupFormatError \<or> e = DecryptionFailed then InvalidRequest else e)"

definition read_manifest ::
    "backup_codec \<Rightarrow> primitives \<Rightarrow> backup_key \<Rightarrow> backup_reader \<Rightarrow> bytes \<Rightarrow>
       error + time backup_manifest \<times> backup_reader \<times> bytes" where
  "read_manifest B P bk r source =
     andThen (catching as_damaged_upload (reader_read P bk MAX_MANIFEST_BYTES r source)) (\<lambda>(encoded, r', rest).
     andThen (catching as_invalid (andThen (orElse (dec_manifest B encoded) ValueError) check_manifest)) (\<lambda>m.
     Inr (m, r', rest)))"

text \<open>Up to the key of the backup: nothing here reads the vault.\<close>

definition open_upload ::
    "primitives \<Rightarrow> ustr \<Rightarrow> bytes \<Rightarrow> error + backup_key \<times> backup_reader \<times> bytes" where
  "open_upload P password upload =
     andThen (catching as_damaged_upload (BackupReader upload)) (\<lambda>(r, source).
     andThen (backup_key_for P password (br_header r)) (\<lambda>bk.
     andThen (ensure (backup_key_matches bk (br_header r)) Forbidden) (\<lambda>_. Inr (bk, r, source))))"

definition restore_opened ::
    "text_ops \<Rightarrow> backup_codec \<Rightarrow> env \<Rightarrow> nat option \<Rightarrow> bool \<Rightarrow> on_conflict \<Rightarrow> vault_key \<Rightarrow> restore_draws \<Rightarrow>
       backup_key \<times> backup_reader \<times> bytes \<Rightarrow> db \<Rightarrow> error + restore_result \<times> db" where
  "restore_opened T B E owner restore_settings conflict key w upload d =
     (case upload of (bk, r, source) \<Rightarrow>
        andThen (read_manifest B (prims E) bk r source) (\<lambda>(m, r', rest).
        andThen (ensure (bm_entries_count m \<le> remaining r') InvalidRequest) (\<lambda>_.
        andThen (catching as_invalid (validate_settings (bm_settings m))) (\<lambda>_.
        andThen (verify_vault_key (Some key) d) (\<lambda>_.
        catching as_damaged_upload (restore_file T B E owner restore_settings conflict bk key m w r' rest d))))))"

text \<open>\<^verbatim>\<open>_recheck_session\<close> after the key derivation.\<close>

definition recheck_session ::
    "env \<Rightarrow> ustr option \<Rightarrow> instant \<times> instant \<times> instant \<Rightarrow> db \<Rightarrow> vault_sessions \<Rightarrow> (error + unit) \<times> vault_sessions" where
  "recheck_session E token instants d vs =
     (case token of
        None \<Rightarrow> (Inr (), vs)
      | Some t \<Rightarrow> (case auth_context_of E t False False instants d vs of (r, vs') \<Rightarrow> (map_sum id (\<lambda>_. ()) r, vs')))"

text \<open>\<^verbatim>\<open>import_backup\<close> of a file in format 2; the new idle timeout takes effect after the commit.\<close>

definition import_backup ::
    "text_ops \<Rightarrow> backup_codec \<Rightarrow> env \<Rightarrow> nat option \<Rightarrow> bool \<Rightarrow> bytes \<Rightarrow> ustr \<Rightarrow> vault_key \<Rightarrow> on_conflict \<Rightarrow> ustr option \<Rightarrow>
       instant \<times> instant \<times> instant \<Rightarrow> restore_draws \<Rightarrow> db \<Rightarrow> vault_sessions \<Rightarrow> restore_result request" where
  "import_backup T B E owner restore_settings upload password key conflict token instants w d vs =
     (case open_upload (prims E) password upload of
        Inl e \<Rightarrow> plain vs (Inl e)
      | Inr upl \<Rightarrow>
     (case recheck_session E token instants d vs of
        (Inl e, vs') \<Rightarrow> plain vs' (Inl e)
      | (Inr _, vs') \<Rightarrow>
     (case restore_opened T B E owner restore_settings conflict key w upl d of
        Inl e \<Rightarrow> plain vs' (Inl e)
      | Inr (result, d') \<Rightarrow>
          let q = plain vs' (Inr (result, d'))
          in if rr_settings_restored result
             then after_commit (\<lambda>s. case settings d' of None \<Rightarrow> s | Some x \<Rightarrow> set_idle_timeout (s_inactivity_ms x) (rw_committed_at w) s) q
             else q)))"

end
