(* ===== verification/Restore_Safety.thy ===== *)
theory Restore_Safety
  imports Backup
begin

text \<open>
  What restoring a backup does to the vault. The definitions are in Backup. \<open>read_item\<close> is the
  reading side of one step of the restore loop: an entry with the contents of its attachments; a
  restore reads the whole file as a list of items (\<open>restore_reads\<close>) and adds or skips each of them
  (\<open>adds_item\<close>, \<open>skips_item\<close>), under the invariant \<open>restore_inv\<close>.
\<close>

section \<open>The items of a file\<close>

type_synonym item = "time backup_entry \<times> bytes list"

definition content_matches :: "primitives \<Rightarrow> time backup_attachment \<Rightarrow> bytes \<Rightarrow> bool" where
  "content_matches P a content \<longleftrightarrow> int (length content) = ba_size a \<and> hex (p_sha256 P content) = ba_sha256 a"

fun read_attachments ::
    "primitives \<Rightarrow> backup_key \<Rightarrow> time backup_attachment list \<Rightarrow> backup_reader \<Rightarrow> bytes \<Rightarrow>
       error + bytes list \<times> backup_reader \<times> bytes" where
  "read_attachments P bk [] r source = Inr ([], r, source)"
| "read_attachments P bk (a # as) r source =
     andThen (reader_read P bk MAX_ATTACHMENT_FRAME_BYTES r source) (\<lambda>(content, r', rest).
     andThen (ensure (content_matches P a content) InvalidRequest) (\<lambda>_.
     andThen (read_attachments P bk as r' rest) (\<lambda>(contents, r'', rest').
     Inr (content # contents, r'', rest'))))"

definition read_item ::
    "backup_codec \<Rightarrow> primitives \<Rightarrow> backup_key \<Rightarrow> backup_reader \<Rightarrow> bytes \<Rightarrow> error + item \<times> backup_reader \<times> bytes" where
  "read_item B P bk r source =
     andThen (read_entry B P bk r source) (\<lambda>(entry, r', rest).
     andThen (read_attachments P bk (be_attachments entry) r' rest) (\<lambda>(contents, r'', rest').
     Inr ((entry, contents), r'', rest')))"

section \<open>Checking an entry\<close>

text \<open>The document a restored entry gets: the two-factor secret normalized if it can be, no empty folder name.\<close>

definition restored_document :: "text_ops \<Rightarrow> entry_document \<Rightarrow> entry_document" where
  "restored_document T doc =
     doc\<lparr>doc_totp_secret := normalize_totp_secret_leniently T (doc_totp_secret doc),
         doc_folder := clean_folder (doc_folder doc)\<rparr>"

lemma require_unicode_text_Inr [result_simps]: "require_unicode_text s = Inr z \<longleftrightarrow> is_ok (utf8 s) \<and> z = s"
  by (auto simp: require_unicode_text_def result_simps)

lemma optional_Inr_same:
  assumes "\<And>x y. f x = Inr y \<Longrightarrow> y = x"
  shows "optional f v = Inr z \<Longrightarrow> z = v"
  using assms by (auto simp: optional_def result_simps split: option.splits)

lemma map_res_Inr_same:
  assumes "\<And>x y. f x = Inr y \<Longrightarrow> y = x"
  shows "map_res f xs = Inr ys \<Longrightarrow> ys = xs"
  using assms by (induction xs arbitrary: ys) (auto simp: result_simps)

lemma clean_kind_text: "clean_kind (kind_text k) = k"
  by (cases k) (simp_all add: clean_kind_def utext_def)

lemma validate_restored_Inr:
  assumes "validate_restored_password T raw = Inr p"
  shows "p = \<lparr>pw_name = pw_name raw, pw_kind = clean_kind (pw_kind raw), pw_username = pw_username raw,
    pw_value = pw_value raw, pw_url = pw_url raw,
    pw_totp_secret = normalize_totp_secret_leniently T (pw_totp_secret raw), pw_description = pw_description raw,
    pw_tags = pw_tags raw, pw_custom_fields = pw_custom_fields raw, pw_folder = clean_folder (pw_folder raw),
    pw_folder_id = None, pw_favorite = pw_favorite raw\<rparr>"
proof -
  have uni: "require_unicode_text s = Inr z \<Longrightarrow> z = s" for s z by (simp add: result_simps)
  have stored: "restored_field f = Inr z \<Longrightarrow> z = f" for f z by (auto simp: restored_field_def result_simps)
  from assms obtain username url secret description tags fields folder where
    parts: "optional require_unicode_text (pw_username raw) = Inr username" "optional require_unicode_text (pw_url raw) = Inr url"
    "optional require_unicode_text (pw_totp_secret raw) = Inr secret"
    "optional require_unicode_text (pw_description raw) = Inr description"
    "map_res require_unicode_text (pw_tags raw) = Inr tags" "map_res restored_field (pw_custom_fields raw) = Inr fields"
    "optional require_unicode_text (pw_folder raw) = Inr folder"
    and p: "p = \<lparr>pw_name = pw_name raw, pw_kind = clean_kind (pw_kind raw), pw_username = username, pw_value = pw_value raw,
      pw_url = url, pw_totp_secret = normalize_totp_secret_leniently T secret, pw_description = description, pw_tags = tags,
      pw_custom_fields = fields, pw_folder = clean_folder folder, pw_folder_id = None, pw_favorite = pw_favorite raw\<rparr>"
    unfolding validate_restored_password_def by (auto simp: result_simps)
  then have "username = pw_username raw" "url = pw_url raw" "secret = pw_totp_secret raw"
    "description = pw_description raw" "tags = pw_tags raw" "fields = pw_custom_fields raw" "folder = pw_folder raw"
    using optional_Inr_same [OF uni] map_res_Inr_same [OF uni] map_res_Inr_same [OF stored] by blast+
  with p show ?thesis by simp
qed

lemma check_entry_Inr:
  assumes "check_entry T entry n = Inr (p, history)"
  shows "document_from p history = restored_document T (be_document entry)"
proof -
  let ?doc = "be_document entry"
  from assms obtain restored ignored where
    valid: "validate_import (validate_restored_password T) [(utext ''entry '' @ decimal n, restorable ?doc)]
      = Inr (restored, ignored)" and "ignored = []" and
    p: "(case restored of [] \<Rightarrow> Inl ValueError | (_, q) # _ \<Rightarrow> Inr (q, doc_history ?doc)) = Inr (p, history)"
    by (auto simp: check_entry_def result_simps)
  then obtain raw where raw: "restorable ?doc = Fields raw" "validate_restored_password T raw = Inr p"
      "history = doc_history ?doc"
    by (auto simp: validate_import_def result_simps split: csv_item.splits sum.splits list.splits)
  then have "raw = \<lparr>pw_name = doc_name ?doc, pw_kind = kind_text (doc_kind ?doc), pw_username = doc_username ?doc,
        pw_value = doc_value ?doc, pw_url = doc_url ?doc, pw_totp_secret = doc_totp_secret ?doc,
        pw_description = doc_description ?doc, pw_tags = doc_tags ?doc, pw_custom_fields = doc_custom_fields ?doc,
        pw_folder = doc_folder ?doc, pw_folder_id = None, pw_favorite = doc_favorite ?doc\<rparr>"
    by (auto simp: restorable_def split: if_splits)
  with validate_restored_Inr [OF raw(2)] raw(3) show ?thesis
    by (simp add: document_from_def restored_document_def clean_kind_text clean_folder_def)
qed

section \<open>Adding one entry\<close>

text \<open>Everything of a database but its entries, folders and attachments.\<close>

definition rest_of :: "db \<Rightarrow> db" where
  "rest_of d = d\<lparr>entries := [], seq_entries := 0, folders := [], seq_folders := 0, attachments := [],
     seq_attachments := 0\<rparr>"

lemma rest_ofD:
  assumes "rest_of d = rest_of d'"
  shows "vault d = vault d'" "users d = users d'" "entry_access d = entry_access d'" "groups d = groups d'"
    "group_members d = group_members d'" "folder_user_access d = folder_user_access d'"
    "folder_group_access d = folder_group_access d'" "access_audit d = access_audit d'" "settings d = settings d'"
  using arg_cong [OF assms, of vault] arg_cong [OF assms, of users] arg_cong [OF assms, of entry_access]
    arg_cong [OF assms, of groups] arg_cong [OF assms, of group_members] arg_cong [OF assms, of folder_user_access]
    arg_cong [OF assms, of folder_group_access] arg_cong [OF assms, of access_audit] arg_cong [OF assms, of settings]
  by (simp_all add: rest_of_def)

definition row_holds ::
    "env \<Rightarrow> text_ops \<Rightarrow> vault_key \<Rightarrow> nat option \<Rightarrow> time backup_entry \<Rightarrow> entry_row \<Rightarrow> bool" where
  "row_holds E T key owner entry e \<longleftrightarrow> e_owner_id e = owner \<and> e_created e = Good (be_created entry)
     \<and> e_updated e = Good (be_updated entry) \<and> e_deleted e = map_option Good (be_deleted entry)
     \<and> open_entry E key e = Inr (restored_document T (be_document entry))"

definition adds_row ::
    "env \<Rightarrow> text_ops \<Rightarrow> vault_key \<Rightarrow> nat option \<Rightarrow> time backup_entry \<Rightarrow> bytes \<Rightarrow> db \<Rightarrow> entry_row \<Rightarrow> db \<Rightarrow> bool" where
  "adds_row E T key owner entry ix d e d' \<longleftrightarrow> keys_ok d' \<and> rest_of d' = rest_of d \<and> attachments d' = attachments d
     \<and> (\<forall>j g. get_folder d j = Some g \<longrightarrow> get_folder d' j = Some g)
     \<and> e_id e = Suc (seq_entries d) \<and> seq_entries d' = e_id e \<and> length (entries d') = Suc (length (entries d))
     \<and> get_entry d' = (get_entry d)(e_id e \<mapsto> e) \<and> row_holds E T key owner entry e \<and> e_name_index e = Good ix"

lemma folder_named_grows:
  "folder_named E key random owner name d = Inr (folder, d') \<Longrightarrow> keys_ok d \<Longrightarrow>
     folders_grow d d' \<and> keys_ok d' \<and> rest_of d' = rest_of d"
proof -
  assume "folder_named E key random owner name d = Inr (folder, d')" and keys: "keys_ok d"
  then have grow: "folders_grow d d'" using folder_named_Inr(1) keys_ok_folder_ids by blast
  then have "d' = d\<lparr>folders := folders d', seq_folders := seq_folders d'\<rparr>" by (simp add: folders_grow_def)
  then have "rest_of d' = rest_of (d\<lparr>folders := folders d', seq_folders := seq_folders d'\<rparr>)" by simp
  then have "rest_of d' = rest_of d" by (simp add: rest_of_def)
  with grow folders_grow_keys [OF grow keys] show ?thesis by blast
qed

lemma entry_document_index:
  assumes "seal_entry E k n e doc = Inr e'" and "name_index (prims E) k (doc_name doc) = Inr ix"
  shows "e_name_index e' = Good ix"
  using assms by (auto simp: seal_entry_def result_simps)

lemma add_restored_Inr:
  assumes "env_ok E" and "length (rd_nonce w) = NONCE_BYTES" and "keys_ok (rs_db st)"
    and "name_index (prims E) key (doc_name doc) = Inr ix" and doc: "doc = restored_document T (be_document entry)"
    and "add_restored E owner key w doc entry ix folder st = Inr (into, st')"
  obtains e d' where "into = Some e" and "adds_row E T key owner entry ix (rs_db st) e d'"
    and "st' = remember_row entry ix (e_id e) d' st"
proof -
  let ?d = "rs_db st"
  from assms(6) obtain folder' d s i d' where
    folder: "(case folder of None \<Rightarrow> folder_named E key (rd_folder w) owner (doc_folder doc) ?d
       | Some j \<Rightarrow> Inr (Some j, ?d)) = Inr (folder', d)" and
    s: "seal_entry E key (rd_nonce w) (restored_row w owner folder' entry) doc = Inr s" and
    ins: "insert_entry s d = Inr (i, d')" and into: "into = Some (s\<lparr>e_id := i\<rparr>)" and
    st': "st' = remember_row entry ix i d' st"
    unfolding add_restored_def by (elim andThen_Inr [THEN iffD1, elim_format] exE conjE) (auto simp: result_simps)
  have grow: "folders_grow ?d d \<and> keys_ok d \<and> rest_of d = rest_of ?d"
  proof (cases folder)
    case None
    with folder folder_named_grows assms(3) show ?thesis by fastforce
  next
    case (Some j)
    with folder have "d = ?d" by simp
    with assms(3) folders_grow_refl keys_ok_folder_ids show ?thesis by blast
  qed
  then have grows: "folders_grow ?d d" and keys: "keys_ok d" and rest: "rest_of d = rest_of ?d" by blast+
  note same = folders_growD [OF grows] and new = insert_entry_Inr [OF ins keys]
  note frame = entry_frame_eqD [OF entry_rows.seal_keeps_frame [OF s]]
  have "entry_readable (restored_row w owner folder' entry)"
    by (simp add: entry_readable_def restored_row_def split: option.splits)
  from open_entry_seal_entry [OF assms(1,2) this s]
  have "open_entry E key (s\<lparr>e_id := i\<rparr>) = Inr doc" by (simp add: open_entry_id)
  then have row: "row_holds E T key owner entry (s\<lparr>e_id := i\<rparr>)"
    using frame by (simp add: row_holds_def doc restored_row_def)
  have "inserted [s] d d'" using inserted_one [OF ins keys] .
  then have len: "length (entries d') = Suc (length (entries d))" "keys_ok d'" by (simp_all add: inserted_def)
  have get: "get_entry d' = (get_entry ?d)(i \<mapsto> s\<lparr>e_id := i\<rparr>)"
    using new(5) same(1) by (simp add: get_entry_def fun_eq_iff)
  have "adds_row E T key owner entry ix ?d (s\<lparr>e_id := i\<rparr>) d'"
    unfolding adds_row_def using row len get new(1) same rest entry_document_index [OF s assms(4)]
    by (simp add: new(2) rest_of_def get_folder_def)
  from that [OF into this] st' show thesis by simp
qed

section \<open>How the vault may change\<close>

definition moved_row :: "time \<Rightarrow> time \<Rightarrow> entry_row \<Rightarrow> entry_row" where
  "moved_row moved_at now e = e\<lparr>e_deleted := Some (Good moved_at), e_updated := Good now\<rparr>"

text \<open>
  A vault that only grew, except that (if \<open>overwrites\<close>) entries of the owner were moved to the trash
  at the time of the restore. New attachments belong to new entries.
\<close>

definition evolves :: "on_conflict \<Rightarrow> nat option \<Rightarrow> time \<Rightarrow> bool \<Rightarrow> db \<Rightarrow> db \<Rightarrow> bool" where
  "evolves conflict owner moved_at overwrites d d' \<longleftrightarrow> keys_ok d' \<and> rest_of d' = rest_of d
     \<and> seq_entries d \<le> seq_entries d' \<and> (\<forall>j g. get_folder d j = Some g \<longrightarrow> get_folder d' j = Some g)
     \<and> (\<exists>as. attachments d' = attachments d @ as
          \<and> (\<forall>a \<in> set as. seq_entries d < at_entry_id a \<and> at_entry_id a \<le> seq_entries d'))
     \<and> (\<forall>i e. get_entry d i = Some e \<longrightarrow> get_entry d' i = Some e
          \<or> overwrites \<and> conflict = Overwrite \<and> e_deleted e = None \<and> (owner = None \<or> e_owner_id e = owner)
            \<and> (\<exists>u. get_entry d' i = Some (moved_row moved_at u e)))"

lemma evolvesD:
  assumes "evolves conflict owner t b d d'"
  shows "keys_ok d'" "rest_of d' = rest_of d" "seq_entries d \<le> seq_entries d'"
    "get_folder d j = Some g \<Longrightarrow> get_folder d' j = Some g"
    "\<exists>as. attachments d' = attachments d @ as
       \<and> (\<forall>a \<in> set as. seq_entries d < at_entry_id a \<and> at_entry_id a \<le> seq_entries d')"
    "get_entry d i = Some e \<Longrightarrow> get_entry d' i = Some e
       \<or> b \<and> conflict = Overwrite \<and> e_deleted e = None \<and> (owner = None \<or> e_owner_id e = owner)
         \<and> (\<exists>u. get_entry d' i = Some (moved_row t u e))"
  using assms unfolding evolves_def by (elim conjE; blast)+

lemma evolves_refl: "keys_ok d \<Longrightarrow> evolves conflict owner t b d d"
  by (simp add: evolves_def)

lemma evolves_weaken: "evolves conflict owner t b d d' \<Longrightarrow> (b \<Longrightarrow> c) \<Longrightarrow> evolves conflict owner t c d d'"
  unfolding evolves_def by blast

lemma moved_row_deleted: "e_deleted (moved_row t u e) \<noteq> None" "e_id (moved_row t u e) = e_id e"
  by (simp_all add: moved_row_def)

lemma evolves_trans:
  assumes "evolves conflict owner t b d d\<^sub>1" and "evolves conflict owner t c d\<^sub>1 d\<^sub>2"
  shows "evolves conflict owner t (b \<or> c) d d\<^sub>2"
proof -
  note one = evolvesD [OF assms(1)] and two = evolvesD [OF assms(2)]
  from one(5) two(5) obtain as bs where at: "attachments d\<^sub>2 = attachments d @ (as @ bs)"
      "\<forall>a \<in> set as. seq_entries d < at_entry_id a \<and> at_entry_id a \<le> seq_entries d\<^sub>1"
      "\<forall>a \<in> set bs. seq_entries d\<^sub>1 < at_entry_id a \<and> at_entry_id a \<le> seq_entries d\<^sub>2" by auto
  have "seq_entries d < at_entry_id a \<and> at_entry_id a \<le> seq_entries d\<^sub>2" if "a \<in> set (as @ bs)" for a
    using that at(2,3) one(3) two(3) by (auto dest!: bspec)
  moreover have "get_entry d\<^sub>2 i = Some e
      \<or> (b \<or> c) \<and> conflict = Overwrite \<and> e_deleted e = None \<and> (owner = None \<or> e_owner_id e = owner)
        \<and> (\<exists>u. get_entry d\<^sub>2 i = Some (moved_row t u e))" if "get_entry d i = Some e" for i e
    using one(6) [OF that]
  proof
    assume "get_entry d\<^sub>1 i = Some e"
    from two(6) [OF this] show ?thesis by blast
  next
    assume "b \<and> conflict = Overwrite \<and> e_deleted e = None \<and> (owner = None \<or> e_owner_id e = owner)
        \<and> (\<exists>u. get_entry d\<^sub>1 i = Some (moved_row t u e))"
    then obtain u where u: "b" "conflict = Overwrite" "e_deleted e = None" "owner = None \<or> e_owner_id e = owner"
      "get_entry d\<^sub>1 i = Some (moved_row t u e)" by blast
    from two(6) [OF u(5)] moved_row_deleted(1) have "get_entry d\<^sub>2 i = Some (moved_row t u e)" by blast
    with u show ?thesis by blast
  qed
  ultimately show ?thesis
    unfolding evolves_def using one(2,3) two(1-4) at(1) one(4) by (auto intro: order_trans)
qed

lemma adds_row_evolves:
  assumes "adds_row E T key owner entry ix d e d'" and "keys_ok d"
  shows "evolves conflict owner' t b d d'"
proof -
  from assms have a: "keys_ok d'" "rest_of d' = rest_of d" "attachments d' = attachments d"
    "\<forall>j g. get_folder d j = Some g \<longrightarrow> get_folder d' j = Some g" "e_id e = Suc (seq_entries d)" "seq_entries d' = e_id e"
    "get_entry d' = (get_entry d)(e_id e \<mapsto> e)" unfolding adds_row_def by blast+
  have "i \<noteq> e_id e" if "get_entry d i = Some x" for i x
    using that assms(2) a(5) by (force simp: get_entry_def keys_ok_def dest: row_of_Some)
  with a show ?thesis by (simp add: evolves_def)
qed

lemma entries_keys:
  assumes "d' = d\<lparr>entries := entries d'\<rparr>" and "map e_id (entries d') = map e_id (entries d)" and "keys_ok d"
  shows "keys_ok d'"
proof -
  have "e_id ` set (entries d') = e_id ` set (entries d)" using assms(2) by (metis set_map)
  then have "(\<forall>e \<in> set (entries d'). e_id e \<le> n) \<longleftrightarrow> (\<forall>e \<in> set (entries d). e_id e \<le> n)" for n
    by (metis (no_types, lifting) image_iff)
  with assms(3) have "keys_ok (d\<lparr>entries := entries d'\<rparr>)" by (simp add: keys_ok_def assms(2))
  with assms(1) show ?thesis by simp
qed

lemma move_to_trash:
  assumes "update_entry now (e\<lparr>e_deleted := Some (Good t)\<rparr>) d = Inr d'" and "keys_ok d"
    and "get_entry d (e_id e) = Some e" and "e_deleted e = None" and "owner = None \<or> e_owner_id e = owner"
  shows "evolves Overwrite owner t True d d'" and "length (entries d') = length (entries d)"
    and "get_entry d' = (get_entry d)(e_id e \<mapsto> moved_row t now e)" and "seq_entries d' = seq_entries d"
    and "attachments d' = attachments d"
proof -
  let ?e = "e\<lparr>e_deleted := Some (Good t)\<rparr>"
  have ids: "distinct (map e_id (entries d))" using assms(2) by (simp add: keys_ok_def)
  have some: "get_entry d (e_id ?e) \<noteq> None" using assms(3) by simp
  from update_entry_Inr [OF assms(1) ids some] obtain f where f: "f = ?e \<or> f = ?e\<lparr>e_updated := Good now\<rparr>"
      "get_entry d' = (get_entry d)(e_id ?e \<mapsto> f)" and d': "d' = d\<lparr>entries := entries d'\<rparr>"
      "map e_id (entries d') = map e_id (entries d)" by blast
  have new: "?e \<notin> set (entries d)"
  proof
    assume "?e \<in> set (entries d)"
    from row_of_in_set [OF ids this] have "get_entry d (e_id ?e) = Some ?e" by (simp add: get_entry_def)
    with assms(3) have "e = ?e" by simp
    then have "e_deleted e = e_deleted ?e" by (rule arg_cong)
    with assms(4) show False by simp
  qed
  then have rows: "entries d' = set_row e_id (moved_row t now e) (entries d)"
    using assms(1) by (auto simp: update_entry_def Let_def result_simps moved_row_def)
  then show "length (entries d') = length (entries d)" by (simp add: set_row_def)
  show get: "get_entry d' = (get_entry d)(e_id e \<mapsto> moved_row t now e)"
    using assms(3) by (auto simp: get_entry_def rows row_simps moved_row_deleted fun_eq_iff)
  have same: "attachments d' = attachments d" "folders d' = folders d" "seq_entries d' = seq_entries d"
    by (subst d'(1), simp)+
  then show "seq_entries d' = seq_entries d" "attachments d' = attachments d" by simp_all
  have "rest_of d' = rest_of d" by (subst d'(1), simp add: rest_of_def)
  with entries_keys [OF d' assms(2)] same assms(3-5) get show "evolves Overwrite owner t True d d'"
    by (auto simp: evolves_def get_folder_def)
qed

section \<open>Stored and skipped items\<close>

definition attachment_holds ::
    "env \<Rightarrow> vault_key \<Rightarrow> bytes cell \<Rightarrow> attachment_row \<Rightarrow> time backup_attachment \<times> bytes \<Rightarrow> bool" where
  "attachment_holds E key uid a described = (case described of (b, content) \<Rightarrow>
     open_attachment_metadata E key a uid = Inr \<lparr>am_filename = ba_filename b, am_content_type = ba_content_type b\<rparr>
     \<and> open_attachment_content E key a uid = Inr content \<and> at_created a = Good (ba_created b))"

definition attachments_hold :: "env \<Rightarrow> vault_key \<Rightarrow> db \<Rightarrow> entry_row \<Rightarrow> item \<Rightarrow> bool" where
  "attachments_hold E key d e it \<longleftrightarrow> length (snd it) = length (be_attachments (fst it))
     \<and> list_all2 (attachment_holds E key (e_uid e)) (entry_attachments d (e_id e)) (zip (be_attachments (fst it)) (snd it))"

text \<open>An item of the file is in the vault: as a new row, which another item may have moved to the trash.\<close>

definition item_stored ::
    "env \<Rightarrow> text_ops \<Rightarrow> vault_key \<Rightarrow> nat option \<Rightarrow> time \<Rightarrow> bool \<Rightarrow> nat \<Rightarrow> db \<Rightarrow> item \<Rightarrow> bool" where
  "item_stored E T key owner moved_at overwrites first d it \<longleftrightarrow>
     (\<exists>e e'. row_holds E T key owner (fst it) e \<and> attachments_hold E key d e it \<and> first < e_id e
        \<and> get_entry d (e_id e) = Some e' \<and> (e' = e \<or> overwrites \<and> (\<exists>u. e' = moved_row moved_at u e)))"

text \<open>An item is skipped only for an entry with its name index that is active, or in the trash since the same moment.\<close>

definition item_skipped :: "env \<Rightarrow> vault_key \<Rightarrow> nat option \<Rightarrow> on_conflict \<Rightarrow> db \<Rightarrow> item \<Rightarrow> bool" where
  "item_skipped E key owner conflict d it \<longleftrightarrow>
     (\<exists>e ix. get_entry d (e_id e) = Some e \<and> name_index (prims E) key (doc_name (be_document (fst it))) = Inr ix
        \<and> e_name_index e = Good ix \<and> e_deleted e = map_option Good (be_deleted (fst it))
        \<and> (if be_deleted (fst it) = None then conflict = Skip else owner = None \<or> e_owner_id e = owner))"

lemma evolves_attachments:
  assumes "evolves conflict owner t b d d'" and "get_entry d i = Some e" and "keys_ok d"
  shows "entry_attachments d' i = entry_attachments d i"
proof -
  have i: "i \<le> seq_entries d" using assms(2,3) by (auto simp: get_entry_def keys_ok_def dest!: row_of_Some)
  from evolvesD(5) [OF assms(1)] obtain as where as: "attachments d' = attachments d @ as"
    "\<forall>a \<in> set as. seq_entries d < at_entry_id a" by blast
  then have "filter (\<lambda>a. at_entry_id a = i) as = []" using i by (auto simp: filter_empty_conv)
  with as(1) show ?thesis by (simp add: entry_attachments_def)
qed

lemma stored_evolves:
  assumes "evolves conflict owner t b d d'" and "keys_ok d" and "item_stored E T key owner t c first d it"
  shows "item_stored E T key owner t (c \<or> b) first d' it"
proof -
  from assms(3) obtain e e' where e: "row_holds E T key owner (fst it) e" "attachments_hold E key d e it"
    "first < e_id e" "get_entry d (e_id e) = Some e'" "e' = e \<or> c \<and> (\<exists>u. e' = moved_row t u e)"
    unfolding item_stored_def by blast
  have "attachments_hold E key d' e it"
    using e(2) evolves_attachments [OF assms(1) e(4) assms(2)] by (simp add: attachments_hold_def)
  moreover from evolvesD(6) [OF assms(1) e(4)]
  have "\<exists>f. get_entry d' (e_id e) = Some f \<and> (f = e \<or> (c \<or> b) \<and> (\<exists>u. f = moved_row t u e))"
  proof
    assume "b \<and> conflict = Overwrite \<and> e_deleted e' = None \<and> (owner = None \<or> e_owner_id e' = owner)
        \<and> (\<exists>u. get_entry d' (e_id e) = Some (moved_row t u e'))"
    moreover from this e(5) moved_row_deleted(1) have "e' = e" by blast
    ultimately show ?thesis by blast
  next
    assume "get_entry d' (e_id e) = Some e'"
    with e(5) show ?thesis by blast
  qed
  ultimately show ?thesis unfolding item_stored_def using e(1,3) by blast
qed

lemma skipped_evolves:
  assumes "evolves conflict owner t b d d'" and "item_skipped E key owner conflict d it"
  shows "item_skipped E key owner conflict d' it"
proof -
  from assms(2) obtain e ix where e: "get_entry d (e_id e) = Some e"
      "name_index (prims E) key (doc_name (be_document (fst it))) = Inr ix"
      "e_name_index e = Good ix" "e_deleted e = map_option Good (be_deleted (fst it))"
      "if be_deleted (fst it) = None then conflict = Skip else owner = None \<or> e_owner_id e = owner"
    unfolding item_skipped_def by blast
  have "\<not> (conflict = Overwrite \<and> e_deleted e = None)" using e(4,5) by (auto split: if_splits)
  with evolvesD(6) [OF assms(1) e(1)] have "get_entry d' (e_id e) = Some e" by blast
  with e show ?thesis unfolding item_skipped_def by blast
qed

section \<open>The dictionaries of the loop\<close>

definition rows_found :: "(bytes cell \<times> nat) list \<Rightarrow> ((bytes cell \<times> time cell) \<times> nat) list \<Rightarrow> db \<Rightarrow> bool" where
  "rows_found active trash d \<longleftrightarrow>
     (\<forall>k i. map_of active k = Some i \<longrightarrow> (\<exists>e. get_entry d i = Some e \<and> e_name_index e = k \<and> e_deleted e = None))
     \<and> (\<forall>k i. map_of trash k = Some i \<longrightarrow>
          (\<exists>e. get_entry d i = Some e \<and> e_name_index e = fst k \<and> e_deleted e = Some (snd k)))"

abbreviation maps_ok :: "restore_state \<Rightarrow> bool" where
  "maps_ok st \<equiv> rows_found (rs_active st) (rs_in_trash st) (rs_db st)"

lemma remember_row_simps [simp]:
  "rs_db (remember_row entry ix i d st) = d" "rs_seen (remember_row entry ix i d st) = rs_seen st"
  "rs_reader (remember_row entry ix i d st) = rs_reader st" "rs_source (remember_row entry ix i d st) = rs_source st"
  "rs_imported (remember_row entry ix i d st) = rs_imported st" "rs_skipped (remember_row entry ix i d st) = rs_skipped st"
  "rs_overwritten (remember_row entry ix i d st) = rs_overwritten st" "rs_trashed (remember_row entry ix i d st) = rs_trashed st"
  "rs_attachments (remember_row entry ix i d st) = rs_attachments st"
  by (simp_all add: remember_row_def split: option.splits)

lemma remember_row_found:
  assumes add: "adds_row E T key owner entry ix d e d'" and "keys_ok d"
    and active: "\<And>k i. be_deleted entry = None \<longrightarrow> k \<noteq> Good ix \<Longrightarrow> map_of (rs_active st) k = Some i \<Longrightarrow>
      \<exists>e. get_entry d i = Some e \<and> e_name_index e = k \<and> e_deleted e = None"
    and trash: "\<And>k i. map_of (rs_in_trash st) k = Some i \<Longrightarrow>
      \<exists>e. get_entry d i = Some e \<and> e_name_index e = fst k \<and> e_deleted e = Some (snd k)"
  shows "maps_ok (remember_row entry ix (e_id e) d' st)"
proof -
  from add have get: "get_entry d' = (get_entry d)(e_id e \<mapsto> e)" and new: "e_id e = Suc (seq_entries d)"
    and e: "e_name_index e = Good ix" "e_deleted e = map_option Good (be_deleted entry)"
    unfolding adds_row_def row_holds_def by blast+
  have old: "i \<noteq> e_id e" if "get_entry d i = Some x" for i x
    using that assms(2) new by (force simp: get_entry_def keys_ok_def dest: row_of_Some)
  have keep: "\<exists>x. get_entry d' i = Some x \<and> Q x" if "\<exists>x. get_entry d i = Some x \<and> Q x" for i Q
    using that old by (auto simp: get)
  have here: "get_entry d' (e_id e) = Some e" by (simp add: get)
  show ?thesis
  proof (cases "be_deleted entry")
    case None
    with keep [OF active] keep [OF trash] e here show ?thesis
      by (simp add: remember_row_def rows_found_def)
  next
    case (Some t)
    with keep [OF active] keep [OF trash] e here show ?thesis
      by (fastforce simp: remember_row_def rows_found_def)
  qed
qed

section \<open>One step of the loop\<close>

text \<open>What changes when a row is added: the state before its attachments.\<close>

definition target_added ::
    "env \<Rightarrow> text_ops \<Rightarrow> vault_key \<Rightarrow> nat option \<Rightarrow> on_conflict \<Rightarrow> time \<Rightarrow> time backup_entry \<Rightarrow> restore_state \<Rightarrow> entry_row \<Rightarrow>
       restore_state \<Rightarrow> bool" where
  "target_added E T key owner conflict moved_at entry st e st' \<longleftrightarrow>
     (\<exists>d ix. evolves conflict owner moved_at (rs_overwritten st' \<noteq> rs_overwritten st) (rs_db st) d
        \<and> attachments d = attachments (rs_db st) \<and> seq_entries d = seq_entries (rs_db st)
        \<and> length (entries d) = length (entries (rs_db st)) \<and> adds_row E T key owner entry ix d e (rs_db st'))
     \<and> maps_ok st' \<and> rs_overwritten st \<le> rs_overwritten st' \<and> rs_skipped st' = rs_skipped st
     \<and> rs_imported st' + rs_overwritten st' + rs_trashed st' = Suc (rs_imported st + rs_overwritten st + rs_trashed st)"

lemma name_restored [simp]: "doc_name (restored_document T doc) = doc_name doc"
  by (simp add: restored_document_def)

lemma rows_foundD:
  assumes "rows_found active trash d"
  shows "map_of active k = Some i \<Longrightarrow> \<exists>e. get_entry d i = Some e \<and> e_id e = i \<and> e_name_index e = k \<and> e_deleted e = None"
    and "map_of trash j = Some i \<Longrightarrow>
      \<exists>e. get_entry d i = Some e \<and> e_id e = i \<and> e_name_index e = fst j \<and> e_deleted e = Some (snd j)"
  using assms unfolding rows_found_def by (fastforce simp: get_entry_def dest: row_of_Some)+

text \<open>A new row beside what is there.\<close>

lemma added_beside:
  assumes "env_ok E" and "length (rd_nonce w) = NONCE_BYTES" and keys: "keys_ok (rs_db st)" and found: "maps_ok st"
    and ix: "name_index (prims E) key (doc_name (be_document entry)) = Inr ix"
    and add: "add_restored E owner key w (restored_document T (be_document entry)) entry ix folder st\<^sub>1 = Inr (into, st')"
    and same: "rs_db st\<^sub>1 = rs_db st" "rs_active st\<^sub>1 = rs_active st" "rs_in_trash st\<^sub>1 = rs_in_trash st"
      "rs_reader st\<^sub>1 = rs_reader st" "rs_source st\<^sub>1 = rs_source st" "rs_overwritten st\<^sub>1 = rs_overwritten st"
      "rs_skipped st\<^sub>1 = rs_skipped st" "rs_imported st\<^sub>1 + rs_trashed st\<^sub>1 = Suc (rs_imported st + rs_trashed st)"
  shows "rs_reader st' = rs_reader st \<and> rs_source st' = rs_source st
    \<and> (\<exists>e. into = Some e \<and> target_added E T key owner conflict t entry st e st')"
proof -
  have keys': "keys_ok (rs_db st\<^sub>1)" using keys same(1) by simp
  have ix': "name_index (prims E) key (doc_name (restored_document T (be_document entry))) = Inr ix" using ix by simp
  from add_restored_Inr [OF assms(1,2) keys' ix' refl add] obtain e d' where
    e: "into = Some e" "adds_row E T key owner entry ix (rs_db st\<^sub>1) e d'" "st' = remember_row entry ix (e_id e) d' st\<^sub>1"
    by blast
  have "maps_ok st\<^sub>1" using found same by simp
  note rows = rows_foundD [OF this]
  have "maps_ok st'" unfolding e(3)
  proof (rule remember_row_found [OF e(2) keys'])
    fix k i
    assume "map_of (rs_active st\<^sub>1) k = Some i"
    from rows(1) [OF this] show "\<exists>x. get_entry (rs_db st\<^sub>1) i = Some x \<and> e_name_index x = k \<and> e_deleted x = None" by metis
  next
    fix k i
    assume "map_of (rs_in_trash st\<^sub>1) k = Some i"
    from rows(2) [OF this]
    show "\<exists>x. get_entry (rs_db st\<^sub>1) i = Some x \<and> e_name_index x = fst k \<and> e_deleted x = Some (snd k)" by metis
  qed
  moreover have "evolves conflict owner t False (rs_db st) (rs_db st)" using evolves_refl keys .
  ultimately have "target_added E T key owner conflict t entry st e st'"
    unfolding target_added_def using e(2,3) same by (intro conjI exI [of _ "rs_db st"] exI [of _ ix]) simp_all
  with e same show ?thesis by simp
qed

text \<open>A new row in the place of an active one, which moves to the trash.\<close>

lemma added_instead:
  assumes "env_ok E" and "length (rd_nonce w) = NONCE_BYTES" and keys: "keys_ok (rs_db st)" and found: "maps_ok st"
    and ix: "name_index (prims E) key (doc_name (be_document entry)) = Inr ix" and active: "be_deleted entry = None"
    and e: "get_entry (rs_db st) (e_id e) = Some e" "e_name_index e = Good ix" "e_deleted e = None"
      "owner = None \<or> e_owner_id e = owner"
    and upd: "update_entry (rd_now w) (e\<lparr>e_deleted := Some (Good t)\<rparr>) (rs_db st) = Inr d"
    and add: "add_restored E owner key w (restored_document T (be_document entry)) entry ix folder
      (st\<lparr>rs_db := d, rs_overwritten := Suc (rs_overwritten st)\<rparr>) = Inr (into, st')"
  shows "rs_reader st' = rs_reader st \<and> rs_source st' = rs_source st
    \<and> (\<exists>e. into = Some e \<and> target_added E T key owner Overwrite t entry st e st')"
proof -
  let ?st = "st\<lparr>rs_db := d, rs_overwritten := Suc (rs_overwritten st)\<rparr>"
  note moved = move_to_trash [OF upd keys e(1,3,4)]
  have keys1: "keys_ok (rs_db ?st)" using evolvesD(1) [OF moved(1)] by simp
  have ix': "name_index (prims E) key (doc_name (restored_document T (be_document entry))) = Inr ix" using ix by simp
  from add_restored_Inr [OF assms(1,2) keys1 ix' refl add] obtain f d' where
    f: "into = Some f" "adds_row E T key owner entry ix (rs_db ?st) f d'" "st' = remember_row entry ix (e_id f) d' ?st"
    by blast
  have other: "\<exists>x. get_entry d j = Some x \<and> Q x" if x: "\<exists>x. get_entry (rs_db st) j = Some x \<and> e_id x = j \<and> Q x" and no: "\<not> Q e"
    for j Q
  proof -
    from x obtain x where "get_entry (rs_db st) j = Some x" "Q x" by blast
    moreover from this no e(1) have "j \<noteq> e_id e" by force
    ultimately show ?thesis unfolding moved(3) by simp
  qed
  have "maps_ok st'" unfolding f(3)
  proof (rule remember_row_found [OF f(2) keys1])
    fix k i
    assume "be_deleted entry = None \<longrightarrow> k \<noteq> Good ix" "map_of (rs_active ?st) k = Some i"
    with other [OF rows_foundD(1) [OF found]] active e(2)
    show "\<exists>x. get_entry (rs_db ?st) i = Some x \<and> e_name_index x = k \<and> e_deleted x = None" by simp
  next
    fix k i
    assume "map_of (rs_in_trash ?st) k = Some i"
    with other [OF rows_foundD(2) [OF found]] e(3)
    show "\<exists>x. get_entry (rs_db ?st) i = Some x \<and> e_name_index x = fst k \<and> e_deleted x = Some (snd k)" by simp
  qed
  moreover have "evolves Overwrite owner t (rs_overwritten st' \<noteq> rs_overwritten st) (rs_db st) d"
    using moved(1) by (simp add: f(3))
  ultimately have "target_added E T key owner Overwrite t entry st f st'"
    unfolding target_added_def using f(2,3) moved(2,4,5) by (intro conjI exI [of _ d] exI [of _ ix]) simp_all
  with f show ?thesis by simp
qed

definition target_outcome ::
    "env \<Rightarrow> text_ops \<Rightarrow> vault_key \<Rightarrow> nat option \<Rightarrow> on_conflict \<Rightarrow> time \<Rightarrow> item \<Rightarrow> restore_state \<Rightarrow> entry_row option \<Rightarrow>
       restore_state \<Rightarrow> bool" where
  "target_outcome E T key owner conflict moved_at it st into st' \<longleftrightarrow> rs_reader st' = rs_reader st \<and> rs_source st' = rs_source st
     \<and> (case into of
          None \<Rightarrow> item_skipped E key owner conflict (rs_db st) it \<and> st' = st\<lparr>rs_skipped := Suc (rs_skipped st)\<rparr>
        | Some e \<Rightarrow> target_added E T key owner conflict moved_at (fst it) st e st')"

lemma restore_target_outcome:
  assumes "env_ok E" and "length (rd_nonce w) = NONCE_BYTES" and keys: "keys_ok (rs_db st)" and found: "maps_ok st"
    and run: "restore_target E owner conflict t key w (restored_document T (be_document entry)) entry folder st = Inr (into, st')"
  shows "target_outcome E T key owner conflict t (entry, cs) st into st'"
proof -
  let ?add = "\<lambda>ix. add_restored E owner key w (restored_document T (be_document entry)) entry ix folder"
  from run obtain ix where ix: "name_index (prims E) key (doc_name (be_document entry)) = Inr ix"
    by (auto simp: restore_target_def result_simps)
  have skip: ?thesis if "into = None" "st' = st\<lparr>rs_skipped := Suc (rs_skipped st)\<rparr>" "get_entry (rs_db st) (e_id e) = Some e"
      "e_name_index e = Good ix" "e_deleted e = map_option Good (be_deleted entry)"
      "if be_deleted entry = None then conflict = Skip else owner = None \<or> e_owner_id e = owner" for e
    using that ix by (auto simp: target_outcome_def item_skipped_def)
  note beside = added_beside [OF assms(1-4) ix, where T = T and conflict = conflict and t = t and into = into and st' = st']
  show ?thesis
  proof (cases "be_deleted entry")
    case (Some m)
    have trash: ?thesis if "?add ix (st\<lparr>rs_trashed := Suc (rs_trashed st)\<rparr>) = Inr (into, st')"
      using beside [OF that] by (auto simp: target_outcome_def)
    show ?thesis
    proof (cases "map_of (rs_in_trash st) (Good ix, Good m)")
      case None
      with run ix Some trash show ?thesis by (simp add: restore_target_def Let_def)
    next
      case there: (Some i)
      from rows_foundD(2) [OF found there] obtain e where e: "get_entry (rs_db st) i = Some e" "e_id e = i"
        "e_name_index e = Good ix" "e_deleted e = Some (Good m)" by auto
      with run ix Some there trash skip [of e] show ?thesis
        by (auto simp: restore_target_def Let_def result_simps split: if_splits)
    qed
  next
    case none: None
    have new: ?thesis if "?add ix (st\<lparr>rs_imported := Suc (rs_imported st)\<rparr>) = Inr (into, st')"
      using beside [OF that] by (auto simp: target_outcome_def)
    show ?thesis
    proof (cases "map_of (rs_active st) (Good ix)")
      case None
      with run ix none new show ?thesis by (simp add: restore_target_def Let_def)
    next
      case there: (Some i)
      from rows_foundD(1) [OF found there] obtain e where e: "get_entry (rs_db st) (e_id e) = Some e" "e_id e = i"
        "e_name_index e = Good ix" "e_deleted e = None" by auto
      show ?thesis
      proof (cases conflict)
        case Skip
        with run ix none there e skip [of e] show ?thesis by (auto simp: restore_target_def Let_def result_simps)
      next
        case Overwrite
        with run ix none there e obtain d where own: "owner = None \<or> e_owner_id e = owner" and
          upd: "update_entry (rd_now w) (e\<lparr>e_deleted := Some (Good t)\<rparr>) (rs_db st) = Inr d" and
          add: "?add ix (st\<lparr>rs_db := d, rs_overwritten := Suc (rs_overwritten st)\<rparr>) = Inr (into, st')"
          by (auto simp: restore_target_def Let_def result_simps)
        from added_instead [OF assms(1-4) ix none e(1,3,4) own upd add] Overwrite show ?thesis
          by (auto simp: target_outcome_def)
      qed
    qed
  qed
qed

text \<open>The attachments of one entry: read and checked, and stored if the entry is.\<close>

definition attachments_outcome ::
    "env \<Rightarrow> vault_key \<Rightarrow> entry_row option \<Rightarrow> time backup_attachment list \<Rightarrow> bytes list \<Rightarrow> restore_state \<Rightarrow> restore_state \<Rightarrow> bool" where
  "attachments_outcome E key into as contents st st' \<longleftrightarrow> length contents = length as
     \<and> (\<exists>rows. (case into of None \<Rightarrow> rows = []
            | Some e \<Rightarrow> list_all2 (attachment_holds E key (e_uid e)) rows (zip as contents) \<and> (\<forall>a \<in> set rows. at_entry_id a = e_id e))
          \<and> rs_db st' = (rs_db st)\<lparr>attachments := attachments (rs_db st) @ rows, seq_attachments := seq_attachments (rs_db st')\<rparr>)
     \<and> keys_ok (rs_db st')
     \<and> st' = st\<lparr>rs_reader := rs_reader st', rs_source := rs_source st', rs_db := rs_db st', rs_attachments := rs_attachments st'\<rparr>"

lemma insert_attachment_Inr:
  assumes "insert_attachment a d = Inr (i, d')" and "keys_ok d"
  shows "d' = d\<lparr>attachments := attachments d @ [a\<lparr>at_id := i\<rparr>], seq_attachments := i\<rparr>" and "keys_ok d'"
proof -
  from assms(1) show d': "d' = d\<lparr>attachments := attachments d @ [a\<lparr>at_id := i\<rparr>], seq_attachments := i\<rparr>"
    by (auto simp: insert_attachment_def Let_def result_simps)
  have "i = Suc (seq_attachments d)" using assms(1) by (auto simp: insert_attachment_def Let_def result_simps)
  with assms(2) show "keys_ok d'" unfolding d' by (force simp: keys_ok_def)
qed

lemma store_attachment_Inr:
  assumes "env_ok E" and "length (fst (td_nonces w)) = NONCE_BYTES" "length (snd (td_nonces w)) = NONCE_BYTES"
    and "keys_ok d" and "content \<noteq> []" and "store_attachment E key w e b content d = Inr d'"
  obtains a where "d' = d\<lparr>attachments := attachments d @ [a], seq_attachments := seq_attachments d'\<rparr>" and "keys_ok d'"
    and "attachment_holds E key (e_uid e) a (b, content)" and "at_entry_id a = e_id e"
proof -
  let ?m = "\<lparr>am_filename = ba_filename b, am_content_type = ba_content_type b\<rparr>"
  from assms(6) obtain s i where
    s: "seal_attachment E key (fst (td_nonces w)) (snd (td_nonces w)) (restored_attachment w (e_id e) b) (e_uid e) ?m content = Inr s" and
    ins: "insert_attachment s d = Inr (i, d')"
    by (auto simp: store_attachment_def result_simps)
  have "is_good (at_created (restored_attachment w (e_id e) b))" by (simp add: restored_attachment_def)
  note opened = open_seal_attachment [OF assms(1-3) this assms(5) s]
  have "at_entry_id s = e_id e" "at_created s = Good (ba_created b)"
    using s by (auto simp: seal_attachment_def restored_attachment_def new_attachment_def result_simps)
  with opened have "attachment_holds E key (e_uid e) (s\<lparr>at_id := i\<rparr>) (b, content)" "at_entry_id (s\<lparr>at_id := i\<rparr>) = e_id e"
    by (simp_all add: attachment_holds_def open_attachment_metadata_def open_attachment_content_def)
  moreover note row = insert_attachment_Inr [OF ins assms(4)]
  moreover have "d' = d\<lparr>attachments := attachments d @ [s\<lparr>at_id := i\<rparr>], seq_attachments := seq_attachments d'\<rparr>"
    by (subst (2) row(1), simp add: row(1))
  ultimately show thesis using that by blast
qed

lemma attachments_outcome_append:
  assumes "attachments_outcome E key into as cs st st\<^sub>1" and "attachments_outcome E key into bs ds st\<^sub>1 st'"
  shows "attachments_outcome E key into (as @ bs) (cs @ ds) st st'"
proof -
  from assms(1) obtain rows where a: "length cs = length as"
    "case into of None \<Rightarrow> rows = [] | Some e \<Rightarrow> list_all2 (attachment_holds E key (e_uid e)) rows (zip as cs) \<and> (\<forall>a \<in> set rows. at_entry_id a = e_id e)"
    "rs_db st\<^sub>1 = (rs_db st)\<lparr>attachments := attachments (rs_db st) @ rows, seq_attachments := seq_attachments (rs_db st\<^sub>1)\<rparr>"
    "st\<^sub>1 = st\<lparr>rs_reader := rs_reader st\<^sub>1, rs_source := rs_source st\<^sub>1, rs_db := rs_db st\<^sub>1, rs_attachments := rs_attachments st\<^sub>1\<rparr>"
    unfolding attachments_outcome_def by blast
  from assms(2) obtain more where b: "length ds = length bs"
    "case into of None \<Rightarrow> more = [] | Some e \<Rightarrow> list_all2 (attachment_holds E key (e_uid e)) more (zip bs ds) \<and> (\<forall>a \<in> set more. at_entry_id a = e_id e)"
    "rs_db st' = (rs_db st\<^sub>1)\<lparr>attachments := attachments (rs_db st\<^sub>1) @ more, seq_attachments := seq_attachments (rs_db st')\<rparr>"
    "keys_ok (rs_db st')"
    "st' = st\<^sub>1\<lparr>rs_reader := rs_reader st', rs_source := rs_source st', rs_db := rs_db st', rs_attachments := rs_attachments st'\<rparr>"
    unfolding attachments_outcome_def by blast
  have db: "rs_db st' = (rs_db st)\<lparr>attachments := attachments (rs_db st) @ rows @ more, seq_attachments := seq_attachments (rs_db st')\<rparr>"
    by (subst b(3), subst (1 2) a(3), simp)
  have st: "st' = st\<lparr>rs_reader := rs_reader st', rs_source := rs_source st', rs_db := rs_db st', rs_attachments := rs_attachments st'\<rparr>"
    by (subst b(5), subst a(4), simp)
  have "case into of None \<Rightarrow> rows @ more = [] | Some e \<Rightarrow>
      list_all2 (attachment_holds E key (e_uid e)) (rows @ more) (zip (as @ bs) (cs @ ds)) \<and> (\<forall>a \<in> set (rows @ more). at_entry_id a = e_id e)"
    using a(1,2) b(2) by (auto simp: zip_append list_all2_appendI split: option.splits)
  with a(1) b(1,4) db st show ?thesis unfolding attachments_outcome_def by auto
qed

lemma restore_attachments_outcome:
  assumes "env_ok E" and draws: "\<And>n. length (fst (td_nonces (draw n))) = NONCE_BYTES \<and> length (snd (td_nonces (draw n))) = NONCE_BYTES"
  shows "fold_res (restore_attachment E bk key draw into) (enumerate n as) st = Inr st' \<Longrightarrow> keys_ok (rs_db st) \<Longrightarrow>
    \<forall>a \<in> set as. 1 \<le> ba_size a \<Longrightarrow>
    \<exists>contents. read_attachments (prims E) bk as (rs_reader st) (rs_source st) = Inr (contents, rs_reader st', rs_source st')
      \<and> attachments_outcome E key into as contents st st'"
proof (induction as arbitrary: n st)
  case Nil
  from Nil.prems(1) have "st' = st" by simp
  moreover have "attachments_outcome E key into [] [] st st"
    unfolding attachments_outcome_def
    by (intro conjI exI [of _ "[]"]) (simp_all add: Nil.prems(2) split: option.splits)
  ultimately show ?case by simp
next
  case (Cons b as)
  from Cons.prems(1) obtain st\<^sub>1 where one: "restore_attachment E bk key draw into (n, b) st = Inr st\<^sub>1"
    and rest: "fold_res (restore_attachment E bk key draw into) (enumerate (Suc n) as) st\<^sub>1 = Inr st'"
    by (auto simp: result_simps)
  from one obtain content r source where
    read: "reader_read (prims E) bk MAX_ATTACHMENT_FRAME_BYTES (rs_reader st) (rs_source st) = Inr (content, r, source)"
    and matches: "content_matches (prims E) b content"
    and into: "(case into of None \<Rightarrow> Inr (st\<lparr>rs_reader := r, rs_source := source\<rparr>)
       | Some e \<Rightarrow> andThen (store_attachment E key (draw n) e b content (rs_db st)) (\<lambda>d.
           Inr (st\<lparr>rs_reader := r, rs_source := source, rs_db := d, rs_attachments := Suc (rs_attachments st)\<rparr>))) = Inr st\<^sub>1"
    by (auto simp: restore_attachment_def content_matches_def Let_def result_simps)
  have "content \<noteq> []" using matches Cons.prems(3) by (auto simp: content_matches_def)
  have first: "attachments_outcome E key into [b] [content] st st\<^sub>1 \<and> rs_reader st\<^sub>1 = r \<and> rs_source st\<^sub>1 = source"
  proof (cases into)
    case None
    with into Cons.prems(2) show ?thesis by (auto simp: attachments_outcome_def)
  next
    case (Some e)
    with into obtain d where d: "store_attachment E key (draw n) e b content (rs_db st) = Inr d"
      and st\<^sub>1: "st\<^sub>1 = st\<lparr>rs_reader := r, rs_source := source, rs_db := d, rs_attachments := Suc (rs_attachments st)\<rparr>"
      by (auto simp: result_simps)
    from store_attachment_Inr [OF assms(1) conjunct1 [OF draws] conjunct2 [OF draws] Cons.prems(2) \<open>content \<noteq> []\<close> d] obtain a where
      a: "d = (rs_db st)\<lparr>attachments := attachments (rs_db st) @ [a], seq_attachments := seq_attachments d\<rparr>" "keys_ok d"
        "attachment_holds E key (e_uid e) a (b, content)" "at_entry_id a = e_id e" by blast
    then show ?thesis unfolding attachments_outcome_def Some option.case
      by (intro conjI exI [of _ "[a]"]) (simp_all add: st\<^sub>1)
  qed
  have keys1: "keys_ok (rs_db st\<^sub>1)" using first by (simp add: attachments_outcome_def)
  have "\<forall>a \<in> set as. 1 \<le> ba_size a" using Cons.prems(3) by simp
  from Cons.IH [OF rest keys1 this] first obtain contents where
    cs: "read_attachments (prims E) bk as r source = Inr (contents, rs_reader st', rs_source st')"
      "attachments_outcome E key into as contents st\<^sub>1 st'" by auto
  have "attachments_outcome E key into (b # as) (content # contents) st st'"
    using attachments_outcome_append [OF conjunct1 [OF first] cs(2)] by simp
  with read matches cs(1) show ?case by simp
qed

section \<open>The whole loop\<close>

definition attachments_bound :: "db \<Rightarrow> bool" where
  "attachments_bound d \<longleftrightarrow> (\<forall>a \<in> set (attachments d). at_entry_id a \<le> seq_entries d)"

abbreviation rows_added :: "restore_state \<Rightarrow> nat" where
  "rows_added st \<equiv> rs_imported st + rs_overwritten st + rs_trashed st"

text \<open>What reading and restoring a list of items does.\<close>

definition items_done ::
    "env \<Rightarrow> text_ops \<Rightarrow> vault_key \<Rightarrow> nat option \<Rightarrow> on_conflict \<Rightarrow> time \<Rightarrow> item list \<Rightarrow> restore_state \<Rightarrow> restore_state \<Rightarrow> bool" where
  "items_done E T key owner conflict moved_at its st st' \<longleftrightarrow>
     evolves conflict owner moved_at (rs_overwritten st' \<noteq> rs_overwritten st) (rs_db st) (rs_db st')
     \<and> rs_overwritten st \<le> rs_overwritten st' \<and> rs_skipped st \<le> rs_skipped st' \<and> maps_ok st' \<and> attachments_bound (rs_db st')
     \<and> (\<forall>it \<in> set its. item_stored E T key owner moved_at (rs_overwritten st' \<noteq> rs_overwritten st) (seq_entries (rs_db st)) (rs_db st') it
          \<or> rs_skipped st' \<noteq> 0 \<and> item_skipped E key owner conflict (rs_db st') it)
     \<and> length (entries (rs_db st')) + rows_added st = length (entries (rs_db st)) + rows_added st'
     \<and> rows_added st' + rs_skipped st' = length its + rows_added st + rs_skipped st"

lemma read_entry_sizes:
  assumes "read_entry B P bk r source = Inr (entry, r', rest)"
  shows "\<forall>a \<in> set (be_attachments entry). 1 \<le> ba_size a"
proof -
  from assms obtain raw where "check_backup_entry B raw = Inr entry"
    by (auto simp: read_entry_def result_simps)
  then have checked: "map_res check_backup_attachment (be_attachments raw) = Inr (be_attachments entry)"
    by (auto simp: check_backup_entry_def Let_def result_simps)
  have "\<exists>x. check_backup_attachment x = Inr a" if "a \<in> set (be_attachments entry)" for a
    using map_res_results [OF checked that] by blast
  then show ?thesis by (fastforce simp: check_backup_attachment_def result_simps)
qed

lemma bound_evolves: "evolves conflict owner t b d d' \<Longrightarrow> attachments_bound d \<Longrightarrow> attachments_bound d'"
  using evolvesD(3,5) [of conflict owner t b d d'] by (fastforce simp: attachments_bound_def)

lemma evolves_add_attachments:
  assumes "evolves conflict owner t b d d\<^sub>1" and d': "d' = d\<^sub>1\<lparr>attachments := attachments d\<^sub>1 @ rows, seq_attachments := n\<rparr>"
    and "keys_ok d'" and "\<forall>a \<in> set rows. seq_entries d < at_entry_id a \<and> at_entry_id a \<le> seq_entries d\<^sub>1"
  shows "evolves conflict owner t b d d'"
proof -
  note one = evolvesD [OF assms(1)]
  from one(5) obtain as where as: "attachments d\<^sub>1 = attachments d @ as"
    "\<forall>a \<in> set as. seq_entries d < at_entry_id a \<and> at_entry_id a \<le> seq_entries d\<^sub>1" by blast
  have "rest_of d' = rest_of d" using one(2) by (simp add: d' rest_of_def)
  moreover have "\<forall>i. get_entry d' i = get_entry d\<^sub>1 i" "\<forall>i. get_folder d' i = get_folder d\<^sub>1 i" "seq_entries d' = seq_entries d\<^sub>1"
    by (simp_all add: d' get_entry_def get_folder_def)
  moreover have "\<exists>bs. attachments d' = attachments d @ bs
      \<and> (\<forall>a \<in> set bs. seq_entries d < at_entry_id a \<and> at_entry_id a \<le> seq_entries d\<^sub>1)"
    using as assms(4) by (intro exI [of _ "as @ rows"]) (auto simp: d')
  ultimately show ?thesis unfolding evolves_def using assms(3) one(3,4,6) by simp
qed

lemma restore_entry_item:
  assumes "env_ok E" and "length (rd_nonce (draw n)) = NONCE_BYTES"
    and draws: "\<And>i. length (fst (td_nonces (rd_attachments (draw n) i))) = NONCE_BYTES
      \<and> length (snd (td_nonces (rd_attachments (draw n) i))) = NONCE_BYTES"
    and keys: "keys_ok (rs_db st)" and found: "maps_ok st"
    and run: "restore_entry T B E owner conflict t bk key version targets draw n st = Inr st'"
  obtains entry contents st\<^sub>1 st\<^sub>2 into where
    "read_item B (prims E) bk (rs_reader st) (rs_source st) = Inr ((entry, contents), rs_reader st', rs_source st')"
    and "rs_db st\<^sub>1 = rs_db st" "rs_overwritten st\<^sub>1 = rs_overwritten st" "rs_skipped st\<^sub>1 = rs_skipped st"
      "rs_imported st\<^sub>1 = rs_imported st" "rs_trashed st\<^sub>1 = rs_trashed st"
    and "maps_ok st\<^sub>1" and "target_outcome E T key owner conflict t (entry, contents) st\<^sub>1 into st\<^sub>2"
    and "attachments_outcome E key into (be_attachments entry) contents st\<^sub>2 st'"
proof -
  from run obtain entry r rest folder p history seen into st\<^sub>2 where
    entry: "read_entry B (prims E) bk (rs_reader st) (rs_source st) = Inr (entry, r, rest)" and
    check: "check_entry T entry n = Inr (p, history)" and
    into: "restore_target E owner conflict t key (draw n) (document_from p history) entry folder
       (st\<lparr>rs_reader := r, rs_source := rest, rs_seen := seen\<rparr>) = Inr (into, st\<^sub>2)" and
    atts: "fold_res (restore_attachment E bk key (rd_attachments (draw n)) into) (enumerate 0 (be_attachments entry)) st\<^sub>2 = Inr st'"
    by (auto simp: restore_entry_def result_simps)
  let ?st = "st\<lparr>rs_reader := r, rs_source := rest, rs_seen := seen\<rparr>"
  have st: "keys_ok (rs_db ?st)" "maps_ok ?st" using keys found by simp_all
  note outcome = restore_target_outcome [OF assms(1,2) st into [unfolded check_entry_Inr [OF check]]]
  have keys2: "keys_ok (rs_db st\<^sub>2)"
  proof (cases into)
    case None
    with outcome keys show ?thesis by (simp add: target_outcome_def)
  next
    case (Some e)
    with outcome show ?thesis by (auto simp: target_outcome_def target_added_def adds_row_def)
  qed
  from restore_attachments_outcome [OF assms(1) draws atts keys2 read_entry_sizes [OF entry]] obtain contents where
    contents: "read_attachments (prims E) bk (be_attachments entry) (rs_reader st\<^sub>2) (rs_source st\<^sub>2) = Inr (contents, rs_reader st', rs_source st')"
      "attachments_outcome E key into (be_attachments entry) contents st\<^sub>2 st'" by blast
  have "rs_reader st\<^sub>2 = r" "rs_source st\<^sub>2 = rest" using outcome by (simp_all add: target_outcome_def)
  with entry contents(1) have "read_item B (prims E) bk (rs_reader st) (rs_source st) = Inr ((entry, contents), rs_reader st', rs_source st')"
    by (simp add: read_item_def)
  with that [of entry contents ?st into st\<^sub>2] found outcome contents(2) show thesis by simp
qed

lemma attachments_outcome_same:
  assumes "attachments_outcome E key into as cs st st'"
  shows "rs_overwritten st' = rs_overwritten st" "rs_imported st' = rs_imported st" "rs_trashed st' = rs_trashed st"
    "rs_skipped st' = rs_skipped st" "rs_active st' = rs_active st" "rs_in_trash st' = rs_in_trash st" "keys_ok (rs_db st')"
proof -
  from assms have eq: "st' = st\<lparr>rs_reader := rs_reader st', rs_source := rs_source st', rs_db := rs_db st', rs_attachments := rs_attachments st'\<rparr>"
    and "keys_ok (rs_db st')" unfolding attachments_outcome_def by blast+
  then show "keys_ok (rs_db st')" by blast
  show "rs_overwritten st' = rs_overwritten st" "rs_imported st' = rs_imported st" "rs_trashed st' = rs_trashed st"
    "rs_skipped st' = rs_skipped st" "rs_active st' = rs_active st" "rs_in_trash st' = rs_in_trash st"
    by (subst eq, simp)+
qed

lemma skipped_item_done:
  assumes skip: "item_skipped E key owner conflict (rs_db st) it" and st\<^sub>1: "st\<^sub>1 = st\<lparr>rs_skipped := Suc (rs_skipped st)\<rparr>"
    and atts: "attachments_outcome E key None as cs st\<^sub>1 st'"
    and "keys_ok (rs_db st)" and found: "maps_ok st" and bound: "attachments_bound (rs_db st)"
  shows "items_done E T key owner conflict t [it] st st'"
proof -
  note same = attachments_outcome_same [OF atts]
  from atts have db: "rs_db st' = (rs_db st)\<lparr>attachments := attachments (rs_db st) @ [], seq_attachments := seq_attachments (rs_db st')\<rparr>"
    by (simp add: attachments_outcome_def st\<^sub>1)
  have "evolves conflict owner t False (rs_db st) (rs_db st)" using assms(4) by (rule evolves_refl)
  from evolves_add_attachments [OF this db same(7)] have ev: "evolves conflict owner t False (rs_db st) (rs_db st')" by simp
  have "get_entry (rs_db st') = get_entry (rs_db st)" by (subst db) (simp add: get_entry_def fun_eq_iff)
  then have "maps_ok st'" using found same(5,6) by (simp add: rows_found_def st\<^sub>1)
  moreover have "length (entries (rs_db st')) = length (entries (rs_db st))" by (subst db) simp
  ultimately show ?thesis
    unfolding items_done_def using ev skipped_evolves [OF ev skip] bound_evolves [OF ev bound] same by (simp add: st\<^sub>1)
qed

lemma added_item_here:
  assumes added: "target_added E T key owner conflict t entry st e st\<^sub>1"
    and atts: "attachments_outcome E key (Some e) (be_attachments entry) contents st\<^sub>1 st'"
    and keys: "keys_ok (rs_db st)" and bound: "attachments_bound (rs_db st)"
  shows "evolves conflict owner t (rs_overwritten st\<^sub>1 \<noteq> rs_overwritten st) (rs_db st) (rs_db st')"
    and "row_holds E T key owner entry e" and "attachments_hold E key (rs_db st') e (entry, contents)"
    and "get_entry (rs_db st') = get_entry (rs_db st\<^sub>1)" and "get_entry (rs_db st') (e_id e) = Some e"
    and "e_id e = Suc (seq_entries (rs_db st))" and "seq_entries (rs_db st') = e_id e"
    and "length (entries (rs_db st')) = Suc (length (entries (rs_db st)))"
proof -
  let ?b = "rs_overwritten st\<^sub>1 \<noteq> rs_overwritten st"
  from added obtain d ix where d: "evolves conflict owner t ?b (rs_db st) d" "attachments d = attachments (rs_db st)"
      "seq_entries d = seq_entries (rs_db st)" "length (entries d) = length (entries (rs_db st))"
      "adds_row E T key owner entry ix d e (rs_db st\<^sub>1)"
    unfolding target_added_def by blast
  from d(5) have row: "attachments (rs_db st\<^sub>1) = attachments d" "e_id e = Suc (seq_entries d)" "seq_entries (rs_db st\<^sub>1) = e_id e"
    "length (entries (rs_db st\<^sub>1)) = Suc (length (entries d))" "get_entry (rs_db st\<^sub>1) = (get_entry d)(e_id e \<mapsto> e)"
    "row_holds E T key owner entry e" unfolding adds_row_def by blast+
  from atts obtain rows where rows: "length contents = length (be_attachments entry)"
    "list_all2 (attachment_holds E key (e_uid e)) rows (zip (be_attachments entry) contents)" "\<forall>a \<in> set rows. at_entry_id a = e_id e"
    and db: "rs_db st' = (rs_db st\<^sub>1)\<lparr>attachments := attachments (rs_db st\<^sub>1) @ rows, seq_attachments := seq_attachments (rs_db st')\<rparr>"
    unfolding attachments_outcome_def option.case by blast
  show get: "get_entry (rs_db st') = get_entry (rs_db st\<^sub>1)" by (subst db) (simp add: get_entry_def fun_eq_iff)
  show "row_holds E T key owner entry e" using row(6) .
  show "get_entry (rs_db st') (e_id e) = Some e" by (simp add: get row(5))
  show "e_id e = Suc (seq_entries (rs_db st))" using row(2) d(3) by simp
  show "seq_entries (rs_db st') = e_id e" by (subst db) (simp add: row(3))
  show "length (entries (rs_db st')) = Suc (length (entries (rs_db st)))" by (subst db) (simp add: row(4) d(4))
  have "evolves conflict owner t ?b (rs_db st) (rs_db st\<^sub>1)"
    using evolves_trans [OF d(1) adds_row_evolves [OF d(5) evolvesD(1) [OF d(1)], where b = False]] by simp
  from evolves_add_attachments [OF this db attachments_outcome_same(7) [OF atts]] rows(3) row(2,3) d(3)
  show "evolves conflict owner t ?b (rs_db st) (rs_db st')" by simp
  have "filter (\<lambda>a. at_entry_id a = e_id e) (attachments (rs_db st)) = []"
    using bound row(2) d(3) by (auto simp: attachments_bound_def filter_empty_conv)
  moreover have "filter (\<lambda>a. at_entry_id a = e_id e) rows = rows" using rows(3) by simp
  moreover have "attachments (rs_db st') = attachments (rs_db st) @ rows" by (subst db) (simp add: row(1) d(2))
  ultimately have "entry_attachments (rs_db st') (e_id e) = rows" by (simp add: entry_attachments_def)
  then show "attachments_hold E key (rs_db st') e (entry, contents)" using rows by (simp add: attachments_hold_def)
qed

lemma added_item_done:
  assumes added: "target_added E T key owner conflict t entry st e st\<^sub>1"
    and atts: "attachments_outcome E key (Some e) (be_attachments entry) contents st\<^sub>1 st'"
    and keys: "keys_ok (rs_db st)" and bound: "attachments_bound (rs_db st)"
  shows "items_done E T key owner conflict t [(entry, contents)] st st'"
proof -
  note same = attachments_outcome_same [OF atts] and here = added_item_here [OF assms]
  from added have st\<^sub>1: "maps_ok st\<^sub>1" "rs_overwritten st \<le> rs_overwritten st\<^sub>1" "rs_skipped st\<^sub>1 = rs_skipped st"
      "rows_added st\<^sub>1 = Suc (rows_added st)" unfolding target_added_def by blast+
  have "item_stored E T key owner t (rs_overwritten st\<^sub>1 \<noteq> rs_overwritten st) (seq_entries (rs_db st)) (rs_db st') (entry, contents)"
    unfolding item_stored_def using here(2,3,5,6) by (intro exI [of _ e]) simp
  moreover have "maps_ok st'" using st\<^sub>1(1) same(5,6) by (simp add: rows_found_def here(4))
  ultimately show ?thesis
    unfolding items_done_def using here(1,8) bound_evolves [OF here(1) bound] same st\<^sub>1(2-4) by simp
qed

lemma item_stored_weaken:
  "item_stored E T key owner t b first d it \<Longrightarrow> (b \<Longrightarrow> c) \<Longrightarrow> least \<le> first \<Longrightarrow> item_stored E T key owner t c least d it"
  unfolding item_stored_def by (elim exE conjE, intro exI conjI) (auto intro: le_less_trans)

lemma items_done_Cons:
  assumes "items_done E T key owner conflict t [it] st st\<^sub>1" and "items_done E T key owner conflict t its st\<^sub>1 st'"
  shows "items_done E T key owner conflict t (it # its) st st'"
proof -
  let ?b = "rs_overwritten st\<^sub>1 \<noteq> rs_overwritten st" and ?c = "rs_overwritten st' \<noteq> rs_overwritten st\<^sub>1"
    and ?o = "rs_overwritten st' \<noteq> rs_overwritten st"
  from assms(1) have a: "evolves conflict owner t ?b (rs_db st) (rs_db st\<^sub>1)" "rs_overwritten st \<le> rs_overwritten st\<^sub>1"
    "item_stored E T key owner t ?b (seq_entries (rs_db st)) (rs_db st\<^sub>1) it \<or> rs_skipped st\<^sub>1 \<noteq> 0 \<and> item_skipped E key owner conflict (rs_db st\<^sub>1) it"
    unfolding items_done_def by simp_all
  from assms(2) have b: "evolves conflict owner t ?c (rs_db st\<^sub>1) (rs_db st')" "rs_overwritten st\<^sub>1 \<le> rs_overwritten st'"
    "\<And>x. x \<in> set its \<Longrightarrow> item_stored E T key owner t ?c (seq_entries (rs_db st\<^sub>1)) (rs_db st') x \<or> rs_skipped st' \<noteq> 0 \<and> item_skipped E key owner conflict (rs_db st') x"
    "rs_skipped st\<^sub>1 \<le> rs_skipped st'"
    unfolding items_done_def by simp_all
  have flag: "?b \<or> ?c \<Longrightarrow> ?o" using a(2) b(2) by linarith
  have skip: "rs_skipped st\<^sub>1 \<noteq> 0 \<Longrightarrow> rs_skipped st' \<noteq> 0" using b(4) by linarith
  have le: "seq_entries (rs_db st) \<le> seq_entries (rs_db st\<^sub>1)" using evolvesD(3) [OF a(1)] .
  have "evolves conflict owner t ?o (rs_db st) (rs_db st')"
    using evolves_weaken [OF evolves_trans [OF a(1) b(1)] flag] .
  moreover have "item_stored E T key owner t ?o (seq_entries (rs_db st)) (rs_db st') it \<or> rs_skipped st' \<noteq> 0 \<and> item_skipped E key owner conflict (rs_db st') it"
    using skip a(3) item_stored_weaken [OF stored_evolves [OF b(1) evolvesD(1) [OF a(1)]] flag order.refl] skipped_evolves [OF b(1)]
    by blast
  moreover have "item_stored E T key owner t ?o (seq_entries (rs_db st)) (rs_db st') x \<or> rs_skipped st' \<noteq> 0 \<and> item_skipped E key owner conflict (rs_db st') x"
    if "x \<in> set its" for x
    using b(3) [OF that] item_stored_weaken [OF _ flag le] by blast
  ultimately show ?thesis using assms a(2) b(2) unfolding items_done_def by auto
qed

lemma restore_entry_done:
  assumes "env_ok E" and "length (rd_nonce (draw n)) = NONCE_BYTES"
    and draws: "\<And>i. length (fst (td_nonces (rd_attachments (draw n) i))) = NONCE_BYTES
      \<and> length (snd (td_nonces (rd_attachments (draw n) i))) = NONCE_BYTES"
    and keys: "keys_ok (rs_db st)" and found: "maps_ok st" and bound: "attachments_bound (rs_db st)"
    and run: "restore_entry T B E owner conflict t bk key version targets draw n st = Inr st'"
  shows "\<exists>it. read_item B (prims E) bk (rs_reader st) (rs_source st) = Inr (it, rs_reader st', rs_source st')
    \<and> items_done E T key owner conflict t [it] st st'"
proof -
  obtain entry contents st\<^sub>1 st\<^sub>2 into where
    item: "read_item B (prims E) bk (rs_reader st) (rs_source st) = Inr ((entry, contents), rs_reader st', rs_source st')"
    and same: "rs_db st\<^sub>1 = rs_db st" "rs_overwritten st\<^sub>1 = rs_overwritten st" "rs_skipped st\<^sub>1 = rs_skipped st"
      "rs_imported st\<^sub>1 = rs_imported st" "rs_trashed st\<^sub>1 = rs_trashed st"
    and found1: "maps_ok st\<^sub>1" and outcome: "target_outcome E T key owner conflict t (entry, contents) st\<^sub>1 into st\<^sub>2"
    and atts: "attachments_outcome E key into (be_attachments entry) contents st\<^sub>2 st'"
    by (rule restore_entry_item [OF assms(1-5) run])
  have keys1: "keys_ok (rs_db st\<^sub>1)" and bound1: "attachments_bound (rs_db st\<^sub>1)" using keys bound same(1) by simp_all
  have "items_done E T key owner conflict t [(entry, contents)] st\<^sub>1 st'"
  proof (cases into)
    case None
    with outcome have "item_skipped E key owner conflict (rs_db st\<^sub>1) (entry, contents)" "st\<^sub>2 = st\<^sub>1\<lparr>rs_skipped := Suc (rs_skipped st\<^sub>1)\<rparr>"
      by (simp_all add: target_outcome_def)
    from skipped_item_done [OF this atts [unfolded None] keys1 found1 bound1] show ?thesis .
  next
    case (Some e)
    with outcome have "target_added E T key owner conflict t entry st\<^sub>1 e st\<^sub>2" by (simp add: target_outcome_def)
    from added_item_done [OF this atts [unfolded Some] keys1 bound1] show ?thesis .
  qed
  then have "items_done E T key owner conflict t [(entry, contents)] st st'" by (simp add: items_done_def same)
  with item show ?thesis by blast
qed

lemma restore_entries_done:
  assumes "env_ok E" and "\<And>n. length (rd_nonce (draw n)) = NONCE_BYTES"
    and draws: "\<And>n i. length (fst (td_nonces (rd_attachments (draw n) i))) = NONCE_BYTES
      \<and> length (snd (td_nonces (rd_attachments (draw n) i))) = NONCE_BYTES"
  shows "fold_res (restore_entry T B E owner conflict t bk key version targets draw) ns st = Inr st' \<Longrightarrow>
    keys_ok (rs_db st) \<Longrightarrow> maps_ok st \<Longrightarrow> attachments_bound (rs_db st) \<Longrightarrow>
    \<exists>its. reads (read_item B (prims E) bk) (length ns) (rs_reader st) (rs_source st) = Inr (its, rs_reader st', rs_source st')
      \<and> length its = length ns \<and> items_done E T key owner conflict t its st st'"
proof (induction ns arbitrary: st)
  case Nil
  then show ?case using evolves_refl by (simp add: items_done_def)
next
  case (Cons n ns)
  from Cons.prems(1) obtain st\<^sub>1 where one: "restore_entry T B E owner conflict t bk key version targets draw n st = Inr st\<^sub>1"
    and rest: "fold_res (restore_entry T B E owner conflict t bk key version targets draw) ns st\<^sub>1 = Inr st'"
    by (auto simp: result_simps)
  from restore_entry_done [OF assms(1,2) draws Cons.prems(2-4) one] obtain it where
    it: "read_item B (prims E) bk (rs_reader st) (rs_source st) = Inr (it, rs_reader st\<^sub>1, rs_source st\<^sub>1)"
      "items_done E T key owner conflict t [it] st st\<^sub>1" by blast
  then have "evolves conflict owner t (rs_overwritten st\<^sub>1 \<noteq> rs_overwritten st) (rs_db st) (rs_db st\<^sub>1)" "maps_ok st\<^sub>1"
      "attachments_bound (rs_db st\<^sub>1)" unfolding items_done_def by blast+
  from Cons.IH [OF rest evolvesD(1) [OF this(1)] this(2,3)] obtain its where
    its: "reads (read_item B (prims E) bk) (length ns) (rs_reader st\<^sub>1) (rs_source st\<^sub>1) = Inr (its, rs_reader st', rs_source st')"
      "length its = length ns" "items_done E T key owner conflict t its st\<^sub>1 st'" by blast
  with it items_done_Cons [OF it(2) its(3)] show ?case by simp
qed

lemma restore_folders_grows:
  "restore_folders E owner key random n fs targets d = Inr (targets', d') \<Longrightarrow> keys_ok d \<Longrightarrow>
     evolves conflict owner t False d d' \<and> entries d' = entries d \<and> attachments d' = attachments d \<and> seq_entries d' = seq_entries d"
proof (induction fs arbitrary: n targets d)
  case Nil
  then show ?case using evolves_refl by simp
next
  case (Cons f fs)
  from Cons.prems(1) obtain folder d\<^sub>1 i where
    one: "folder_named E key (random n) owner (Some (bf_name f)) d = Inr (folder, d\<^sub>1)" and
    rest: "restore_folders E owner key random (Suc n) fs ((bf_uid f, i, bf_name f) # targets) d\<^sub>1 = Inr (targets', d')"
    by (auto simp: result_simps)
  from folder_named_grows [OF one Cons.prems(2)] have grow: "folders_grow d d\<^sub>1" "keys_ok d\<^sub>1" "rest_of d\<^sub>1 = rest_of d" by blast+
  note same = folders_growD [OF grow(1)]
  have "evolves conflict owner t False d d\<^sub>1"
    unfolding evolves_def using grow(2,3) same by (simp add: get_entry_def)
  from evolves_trans [OF this conjunct1 [OF Cons.IH [OF rest grow(2)]]] Cons.IH [OF rest grow(2)] same show ?case by simp
qed

lemma initial_maps: "keys_ok d \<Longrightarrow> maps_ok (initial_restore r source d)"
proof -
  assume keys: "keys_ok d"
  have row: "get_entry d (e_id e) = Some e" if "e \<in> set (entries d)" for e
    using that keys by (simp add: get_entry_def keys_ok_def row_of_in_set)
  have "\<exists>e. get_entry d i = Some e \<and> e_name_index e = k \<and> e_deleted e = None" if "map_of (active_rows d) k = Some i" for k i
    using map_of_SomeD [OF that] row by (auto simp: active_rows_def)
  moreover have "\<exists>e. get_entry d i = Some e \<and> e_name_index e = fst k \<and> e_deleted e = Some (snd k)"
    if "map_of (trash_rows d) k = Some i" for k i
    using map_of_SomeD [OF that] row by (auto simp: trash_rows_def split: option.splits)
  ultimately show ?thesis by (simp add: rows_found_def initial_restore_def)
qed

section \<open>A whole file\<close>

text \<open>All that a file says: its manifest and its items, with nothing after them.\<close>

definition upload_items ::
    "backup_codec \<Rightarrow> primitives \<Rightarrow> ustr \<Rightarrow> bytes \<Rightarrow> error + time backup_manifest \<times> item list" where
  "upload_items B P password upload =
     andThen (open_upload P password upload) (\<lambda>(bk, r, source).
     andThen (read_manifest B P bk r source) (\<lambda>(m, r', rest).
     andThen (reads (read_item B P bk) (nat (bm_entries_count m)) r' rest) (\<lambda>(its, r'', rest').
     andThen (reader_finish r'' rest') (\<lambda>_. Inr (m, its)))))"

definition draws_ok :: "restore_draws \<Rightarrow> bool" where
  "draws_ok w \<longleftrightarrow> (\<forall>n. length (rd_nonce (rw_entries w n)) = NONCE_BYTES
     \<and> (\<forall>i. length (fst (td_nonces (rd_attachments (rw_entries w n) i))) = NONCE_BYTES
          \<and> length (snd (td_nonces (rd_attachments (rw_entries w n) i))) = NONCE_BYTES))"

text \<open>What a restore does to the vault, in terms of the items of the file.\<close>

definition restores_items ::
    "env \<Rightarrow> text_ops \<Rightarrow> vault_key \<Rightarrow> nat option \<Rightarrow> on_conflict \<Rightarrow> time \<Rightarrow> item list \<Rightarrow> db \<Rightarrow> restore_result \<Rightarrow> db \<Rightarrow> bool" where
  "restores_items E T key owner conflict moved_at its d result d' \<longleftrightarrow>
     evolves conflict owner moved_at (ir_overwritten result \<noteq> 0) d (d'\<lparr>settings := settings d\<rparr>)
     \<and> (\<forall>it \<in> set its. item_stored E T key owner moved_at (ir_overwritten result \<noteq> 0) (seq_entries d) d' it
          \<or> ir_skipped result \<noteq> 0 \<and> item_skipped E key owner conflict d' it)
     \<and> length (entries d') = length (entries d) + ir_imported result + ir_overwritten result + rr_trashed result
     \<and> length its = ir_imported result + ir_overwritten result + rr_trashed result + ir_skipped result
     \<and> ir_total result = length its"

lemma item_settings:
  "item_stored E T key owner t b n (d\<lparr>settings := x\<rparr>) it = item_stored E T key owner t b n d it"
  "item_skipped E key owner conflict (d\<lparr>settings := x\<rparr>) it = item_skipped E key owner conflict d it"
  by (simp_all add: item_stored_def item_skipped_def attachments_hold_def entry_attachments_def get_entry_def)

lemma restore_file_done:
  assumes "env_ok E" and "draws_ok w" and keys: "keys_ok d" and bound: "attachments_bound d"
    and run: "restore_file T B E owner admin conflict bk key m w r source d = Inr (result, d')"
  shows "\<exists>its r' rest. reads (read_item B (prims E) bk) (nat (bm_entries_count m)) r source = Inr (its, r', rest)
    \<and> reader_finish r' rest = Inr () \<and> restores_items E T key owner conflict (rw_moved_at w) its d result d'
    \<and> rr_settings_restored result = (entries d = [] \<and> admin)
    \<and> settings d' = (if entries d = [] \<and> admin then Some (bm_settings m) else settings d)"
proof -
  from run obtain targets d\<^sub>1 st where
    folders: "restore_folders E owner key (rw_folders w) 0 (bm_folders m) [] d = Inr (targets, d\<^sub>1)" and
    loop: "fold_res (restore_entry T B E owner conflict (rw_moved_at w) bk key (bm_version m) targets (rw_entries w))
       [1..<Suc (nat (bm_entries_count m))] (initial_restore r source d\<^sub>1) = Inr st" and
    fin: "reader_finish (rs_reader st) (rs_source st) = Inr ()" and
    result: "result = restore_result_of st (bm_entries_count m) (entries d\<^sub>1 = [] \<and> admin)" and
    d': "d' = (if entries d\<^sub>1 = [] \<and> admin then (rs_db st)\<lparr>settings := Some (bm_settings m)\<rparr> else rs_db st)"
    by (auto simp: restore_file_def Let_def result_simps)
  note grown = restore_folders_grows [OF folders keys, of conflict "rw_moved_at w"]
  have keys1: "keys_ok d\<^sub>1" and same: "entries d\<^sub>1 = entries d" "seq_entries d\<^sub>1 = seq_entries d"
    using grown evolvesD(1) by blast+
  let ?st = "initial_restore r source d\<^sub>1"
  have start: "rs_db ?st = d\<^sub>1" "rs_reader ?st = r" "rs_source ?st = source" "rs_overwritten ?st = 0" "rs_skipped ?st = 0"
    "rs_imported ?st = 0" "rs_trashed ?st = 0" by (simp_all add: initial_restore_def)
  have ok: "keys_ok (rs_db ?st)" "maps_ok ?st" "attachments_bound (rs_db ?st)"
    using keys1 initial_maps [OF keys1, of r source] bound grown start(1) by (simp_all add: attachments_bound_def)
  have draws: "length (rd_nonce (rw_entries w n)) = NONCE_BYTES" "length (fst (td_nonces (rd_attachments (rw_entries w n) i))) = NONCE_BYTES
      \<and> length (snd (td_nonces (rd_attachments (rw_entries w n) i))) = NONCE_BYTES" for n i
    using assms(2) by (simp_all add: draws_ok_def)
  have count: "length [1..<Suc (nat (bm_entries_count m))] = nat (bm_entries_count m)" by (simp only: length_upt)
  from restore_entries_done [OF assms(1) draws loop ok, unfolded count start] obtain its where
    its: "reads (read_item B (prims E) bk) (nat (bm_entries_count m)) r source = Inr (its, rs_reader st, rs_source st)"
      "length its = nat (bm_entries_count m)" "items_done E T key owner conflict (rw_moved_at w) its ?st st" by blast
  note evolved = items_done_def [THEN iffD1, OF its(3), unfolded start]
  have total: "evolves conflict owner (rw_moved_at w) (rs_overwritten st \<noteq> 0) d (rs_db st)"
    using evolves_trans [OF conjunct1 [OF grown] conjunct1 [OF evolved]] by simp
  have settings: "settings (rs_db st) = settings d"
    using evolvesD(2) [OF total] rest_ofD(9) by blast
  then have "d'\<lparr>settings := settings d\<rparr> = rs_db st" by (simp add: d')
  with total have "evolves conflict owner (rw_moved_at w) (ir_overwritten result \<noteq> 0) d (d'\<lparr>settings := settings d\<rparr>)"
    by (simp add: result restore_result_of_def)
  moreover have "\<forall>it \<in> set its. item_stored E T key owner (rw_moved_at w) (ir_overwritten result \<noteq> 0) (seq_entries d) d' it
      \<or> ir_skipped result \<noteq> 0 \<and> item_skipped E key owner conflict d' it"
    using evolved by (simp add: result restore_result_of_def d' item_settings same)
  moreover have "length (entries d') = length (entries d) + ir_imported result + ir_overwritten result + rr_trashed result"
    "length its = ir_imported result + ir_overwritten result + rr_trashed result + ir_skipped result" "ir_total result = length its"
    using evolved its(2) by (simp_all add: result restore_result_of_def d' same)
  moreover have "settings d' = (if entries d = [] \<and> admin then Some (bm_settings m) else settings d)"
    using settings by (simp add: d' same)
  ultimately have "restores_items E T key owner conflict (rw_moved_at w) its d result d'"
      "settings d' = (if entries d = [] \<and> admin then Some (bm_settings m) else settings d)"
    unfolding restores_items_def by blast+
  moreover have "rr_settings_restored result = (entries d = [] \<and> admin)" by (simp add: result restore_result_of_def same)
  ultimately show ?thesis using its(1) fin by blast
qed

lemma import_backup_done:
  assumes "env_ok E" and "draws_ok w" and keys: "keys_ok d" and bound: "attachments_bound d"
    and run: "rq_result (import_backup T B E owner admin upload password key conflict token instants w d vs) = Inr (result, d')"
  shows "\<exists>m its. upload_items B (prims E) password upload = Inr (m, its)
    \<and> restores_items E T key owner conflict (rw_moved_at w) its d result d'
    \<and> settings d' = (if entries d = [] \<and> admin then Some (bm_settings m) else settings d)"
proof -
  from run obtain upl where upl: "open_upload (prims E) password upload = Inr upl"
    and opened: "restore_opened T B E owner admin conflict key w upl d = Inr (result, d')"
    unfolding import_backup_def by (auto simp: Let_def split: sum.splits prod.splits if_splits)
  obtain bk r source where parts: "upl = (bk, r, source)" by (cases upl)
  from opened obtain m r' rest where m: "read_manifest B (prims E) bk r source = Inr (m, r', rest)"
    and rest: "restore_file T B E owner admin conflict bk key m w r' rest d = Inr (result, d')"
    by (auto simp: restore_opened_def parts result_simps)
  from restore_file_done [OF assms(1-4) rest] upl m parts show ?thesis
    by (fastforce simp: upload_items_def)
qed

end
