(* ===== verification/Backup_Round_Trip.thy ===== *)
theory Backup_Round_Trip
  imports Restore_Safety
begin

text \<open>
  From a vault into a backup file and back. What \<open>create_backup\<close> writes is read as the items of its
  entries (\<open>created_items\<close>); with the lemmas of Restore_Safety this gives the two properties of
  backups: a restore destroys nothing, and it brings back the entries the backup was made of.
\<close>

section \<open>Frames\<close>

text \<open>The reader stands where the writer stood.\<close>

definition reads_at :: "backup_writer \<Rightarrow> backup_reader \<Rightarrow> bool" where
  "reads_at w r \<longleftrightarrow> br_raw r = bw_header w \<and> br_index r = bw_index w \<and> bh_frames (br_header r) = bw_frames w"

abbreviation skip_frames :: "nat \<Rightarrow> backup_reader \<Rightarrow> backup_reader" where
  "skip_frames n r \<equiv> r\<lparr>br_index := br_index r + int n\<rparr>"

text \<open>The frames at the reader's position, whatever limit above their size is set.\<close>

fun frames_read :: "primitives \<Rightarrow> backup_key \<Rightarrow> bytes list \<Rightarrow> backup_reader \<Rightarrow> bytes \<Rightarrow> bytes \<Rightarrow> bool" where
  "frames_read P k [] r source rest \<longleftrightarrow> rest = source"
| "frames_read P k (p # ps) r source rest \<longleftrightarrow>
     (\<exists>mid. (\<forall>limit. int (length p) \<le> limit \<longrightarrow> reader_read P k limit r source = Inr (p, skip_frames 1 r, mid))
        \<and> frames_read P k ps (skip_frames 1 r) mid rest)"

definition writes :: "primitives \<Rightarrow> backup_writer \<Rightarrow> bytes list \<Rightarrow> backup_writer \<Rightarrow> bool" where
  "writes P w ps w' \<longleftrightarrow> (\<exists>out. w' = w\<lparr>bw_target := bw_target w @ out, bw_index := bw_index w + int (length ps)\<rparr>
     \<and> (\<forall>r t. reads_at w r \<longrightarrow> frames_read P (bw_key w) ps r (out @ t) t))"

lemma frames_read_append:
  "frames_read P k ps r source mid \<Longrightarrow> frames_read P k qs (skip_frames (length ps) r) mid rest \<Longrightarrow>
     frames_read P k (ps @ qs) r source rest"
proof (induction ps arbitrary: r source)
  case (Cons p ps)
  then obtain m where "\<forall>limit. int (length p) \<le> limit \<longrightarrow> reader_read P k limit r source = Inr (p, skip_frames 1 r, m)"
    and "frames_read P k ps (skip_frames 1 r) m mid" by auto
  moreover have "frames_read P k qs (skip_frames (length ps) (skip_frames 1 r)) mid rest"
    using Cons.prems(2) by (simp add: algebra_simps)
  ultimately show ?case using Cons.IH by auto
qed simp

lemma writes_Nil: "writes P w [] w"
  unfolding writes_def by (intro exI [of _ "[]"]) simp

lemma writes_append:
  assumes "writes P w ps w\<^sub>1" and "writes P w\<^sub>1 qs w\<^sub>2"
  shows "writes P w (ps @ qs) w\<^sub>2"
proof -
  from assms(1) obtain out where a: "w\<^sub>1 = w\<lparr>bw_target := bw_target w @ out, bw_index := bw_index w + int (length ps)\<rparr>"
    "\<And>r t. reads_at w r \<Longrightarrow> frames_read P (bw_key w) ps r (out @ t) t" unfolding writes_def by blast
  from assms(2) obtain more where b: "w\<^sub>2 = w\<^sub>1\<lparr>bw_target := bw_target w\<^sub>1 @ more, bw_index := bw_index w\<^sub>1 + int (length qs)\<rparr>"
    "\<And>r t. reads_at w\<^sub>1 r \<Longrightarrow> frames_read P (bw_key w\<^sub>1) qs r (more @ t) t" unfolding writes_def by blast
  have "frames_read P (bw_key w) (ps @ qs) r ((out @ more) @ t) t" if r: "reads_at w r" for r t
  proof (rule frames_read_append)
    show "frames_read P (bw_key w) ps r ((out @ more) @ t) (more @ t)" using a(2) [OF r, of "more @ t"] by simp
    have "reads_at w\<^sub>1 (skip_frames (length ps) r)" using r by (simp add: reads_at_def a(1))
    from b(2) [OF this, of t] show "frames_read P (bw_key w) qs (skip_frames (length ps) r) (more @ t) t" by (simp add: a(1))
  qed
  then show ?thesis unfolding writes_def by (intro exI [of _ "out @ more"]) (simp add: a(1) b(1))
qed

lemma put_frame_writes:
  assumes "primitives_ok P" and "\<And>n. length (nonces n) = NONCE_BYTES" and "put_frame P nonces p w = Inr w'"
  shows "writes P w [p] w'"
proof -
  let ?r = "\<lparr>br_raw = bw_header w, br_header = \<lparr>bh_params = DEFAULT_KDF, bh_salt = [], bh_frames = bw_frames w, bh_commitment = []\<rparr>,
    br_index = bw_index w\<rparr>"
  have run: "writer_write P (nonces (nat (bw_index w))) p w = Inr w'" using assms(3) by (simp add: put_frame_def)
  obtain out where out: "w' = w\<lparr>bw_target := bw_target w @ out, bw_index := bw_index w + 1\<rparr>"
    by (rule written_frame_reads [OF assms(1,2) order.refl run, of ?r]) simp_all
  have "reader_read P (bw_key w) limit r (out @ t) = Inr (p, skip_frames 1 r, t)"
    if pos: "reads_at w r" and lim: "int (length p) \<le> limit" for r limit t
  proof -
    from pos have at: "br_raw r = bw_header w" "br_index r = bw_index w" "bh_frames (br_header r) = bw_frames w"
      by (simp_all add: reads_at_def)
    obtain out' where out': "w' = w\<lparr>bw_target := bw_target w @ out', bw_index := bw_index w + 1\<rparr>"
      "\<And>t. reader_read P (bw_key w) limit r (out' @ t) = Inr (p, r\<lparr>br_index := br_index r + 1\<rparr>, t)"
      by (rule written_frame_reads [OF assms(1,2) lim run at]) blast
    have "bw_target w @ out' = bw_target w @ out" using arg_cong [OF out'(1) [unfolded out], of bw_target] by simp
    with out'(2) show ?thesis by simp
  qed
  then show ?thesis unfolding writes_def by (intro exI [of _ out]) (simp add: out)
qed

section \<open>Writing entries\<close>

lemma write_attachments_writes:
  assumes "primitives_ok (prims E)" and "\<And>n. length (nonces n) = NONCE_BYTES"
  shows "fold_res (write_attachment E key nonces e) as w = Inr w' \<Longrightarrow>
    \<exists>contents. list_all2 (\<lambda>a c. \<exists>m created. backup_attachment_data E key e a = Inr (c, m, created)) as contents
      \<and> writes (prims E) w contents w'"
proof (induction as arbitrary: w)
  case Nil
  then show ?case using writes_Nil by simp
next
  case (Cons a as)
  from Cons.prems obtain w\<^sub>1 where first: "write_attachment E key nonces e a w = Inr w\<^sub>1"
    and rest: "fold_res (write_attachment E key nonces e) as w\<^sub>1 = Inr w'" by (auto simp: result_simps)
  from first obtain c m created where data: "backup_attachment_data E key e a = Inr (c, m, created)"
    and one: "put_frame (prims E) nonces c w = Inr w\<^sub>1" by (auto simp: write_attachment_def result_simps)
  from Cons.IH [OF rest] obtain contents where
    cs: "list_all2 (\<lambda>a c. \<exists>m created. backup_attachment_data E key e a = Inr (c, m, created)) as contents"
      "writes (prims E) w\<^sub>1 contents w'" by blast
  have "writes (prims E) w (c # contents) w'"
    using writes_append [OF put_frame_writes [OF assms one] cs(2)] by simp
  with data cs(1) show ?case by (intro exI [of _ "c # contents"]) simp
qed

text \<open>What the backup holds of an entry.\<close>

definition entry_written ::
    "env \<Rightarrow> vault_key \<Rightarrow> (nat \<times> ustr) list \<Rightarrow> db \<Rightarrow> nat \<Rightarrow> json_time backup_entry \<Rightarrow> bytes list \<Rightarrow> bool" where
  "entry_written E key uids d i entry contents \<longleftrightarrow>
     (\<exists>e. get_entry d i = Some e \<and> backup_entry_of E key uids d e = Inr entry
        \<and> list_all2 (\<lambda>a c. \<exists>m created. backup_attachment_data E key e a = Inr (c, m, created)) (attachment_rows d i) contents)"

lemma write_entry_writes:
  assumes "primitives_ok (prims E)" and "\<And>n. length (nonces n) = NONCE_BYTES"
    and "write_entry B E key uids nonces d i w = Inr w'"
  shows "\<exists>entry encoded contents. entry_written E key uids d i entry contents \<and> enc_backup_entry B entry = Inr encoded
    \<and> int (length encoded) \<le> MAX_ENTRY_FRAME_BYTES \<and> writes (prims E) w (encoded # contents) w'"
proof -
  from assms(3) obtain e entry encoded w\<^sub>1 where e: "get_entry d i = Some e" "backup_entry_of E key uids d e = Inr entry"
    and encoded: "enc_backup_entry B entry = Inr encoded" "int (length encoded) \<le> MAX_ENTRY_FRAME_BYTES"
    and one: "put_frame (prims E) nonces encoded w = Inr w\<^sub>1"
    and atts: "fold_res (write_attachment E key nonces e) (attachment_rows d (e_id e)) w\<^sub>1 = Inr w'"
    by (auto simp: write_entry_def result_simps)
  have "e_id e = i" using e(1) by (auto simp: get_entry_def dest: row_of_Some)
  with write_attachments_writes [OF assms(1,2) atts] obtain contents where
    cs: "list_all2 (\<lambda>a c. \<exists>m created. backup_attachment_data E key e a = Inr (c, m, created)) (attachment_rows d i) contents"
      "writes (prims E) w\<^sub>1 contents w'" by auto
  have "writes (prims E) w (encoded # contents) w'"
    using writes_append [OF put_frame_writes [OF assms(1,2) one] cs(2)] by simp
  with e cs(1) encoded show ?thesis unfolding entry_written_def by blast
qed

section \<open>Reading them back\<close>

text \<open>The item a backup holds of entry \<open>i\<close>: document, times, and attachments with their contents.\<close>

definition describes :: "env \<Rightarrow> vault_key \<Rightarrow> db \<Rightarrow> nat \<Rightarrow> item \<Rightarrow> bool" where
  "describes E key d i it \<longleftrightarrow>
     (\<exists>e. get_entry d i = Some e \<and> open_entry E key e = Inr (be_document (fst it)) \<and> e_created e = Good (be_created (fst it))
        \<and> e_updated e = Good (be_updated (fst it)) \<and> e_deleted e = map_option Good (be_deleted (fst it))
        \<and> length (snd it) = length (be_attachments (fst it))
        \<and> list_all2 (attachment_holds E key (e_uid e)) (attachment_rows d i) (zip (be_attachments (fst it)) (snd it)))"

lemma good_value_Inr [result_simps]: "good_value c = Inr x \<longleftrightarrow> c = Good x"
  by (cases c) auto

lemma utc_stamp: "utc_time (stamp t) = Inr u \<Longrightarrow> u = t"
  by (simp add: utc_time_def stamp_def result_simps)

lemma check_stamped: "check_backup_attachment (stamped_attachment a) = Inr b \<Longrightarrow> b = a"
  by (cases a) (auto simp: check_backup_attachment_def stamped_attachment_def result_simps dest: utc_stamp)

lemma check_stamped_list: "map_res check_backup_attachment (map stamped_attachment as) = Inr bs \<Longrightarrow> bs = as"
  by (induction as arbitrary: bs) (auto simp: result_simps dest: check_stamped)

lemma described_attachment_holds:
  assumes "described_attachment E key e a = Inr b" and "backup_attachment_data E key e a = Inr (c, m, created)"
  shows "attachment_holds E key (e_uid e) a (b, c)" and "content_matches (prims E) b c"
    and "int (length c) \<le> MAX_ATTACHMENT_FRAME_BYTES"
  using assms
  by (auto simp: described_attachment_def backup_attachment_data_def check_backup_attachment_def attachment_holds_def
      content_matches_def utc_time_def result_simps)

lemma described_attachments_hold:
  "map_res (described_attachment E key e) as = Inr bs \<Longrightarrow>
     list_all2 (\<lambda>a c. \<exists>m created. backup_attachment_data E key e a = Inr (c, m, created)) as contents \<Longrightarrow>
     list_all2 (attachment_holds E key (e_uid e)) as (zip bs contents) \<and> list_all2 (content_matches (prims E)) bs contents
     \<and> (\<forall>c \<in> set contents. int (length c) \<le> MAX_ATTACHMENT_FRAME_BYTES)"
proof (induction as arbitrary: bs contents)
  case (Cons a as)
  from Cons.prems(1) obtain b bs' where b: "described_attachment E key e a = Inr b" "bs = b # bs'"
      "map_res (described_attachment E key e) as = Inr bs'" by (auto simp: result_simps)
  from Cons.prems(2) obtain c cs m created where c: "backup_attachment_data E key e a = Inr (c, m, created)" "contents = c # cs"
      "list_all2 (\<lambda>a c. \<exists>m created. backup_attachment_data E key e a = Inr (c, m, created)) as cs"
    by (auto simp: list_all2_Cons1)
  from Cons.IH [OF b(3) c(3)] described_attachment_holds [OF b(1) c(1)] b(2) c(2) show ?case by simp
qed simp

lemma entry_written_describes:
  assumes "entry_written E key uids d i raw contents" and "check_backup_entry B raw = Inr entry"
  shows "describes E key d i (entry, contents)" and "list_all2 (content_matches (prims E)) (be_attachments entry) contents"
    and "\<forall>c \<in> set contents. int (length c) \<le> MAX_ATTACHMENT_FRAME_BYTES"
proof -
  from assms(1) obtain e where e: "get_entry d i = Some e" and raw: "backup_entry_of E key uids d e = Inr raw"
    and cs: "list_all2 (\<lambda>a c. \<exists>m created. backup_attachment_data E key e a = Inr (c, m, created)) (attachment_rows d i) contents"
    unfolding entry_written_def by blast
  have "e_id e = i" using e by (auto simp: get_entry_def dest: row_of_Some)
  with raw obtain doc as created updated deleted where doc: "open_entry E key e = Inr doc"
    and as: "map_res (described_attachment E key e) (attachment_rows d i) = Inr as"
    and times: "e_created e = Good created" "e_updated e = Good updated"
      "(case e_deleted e of None \<Rightarrow> Inr None | Some t \<Rightarrow> andThen (good_value t) (\<lambda>u. Inr (Some (stamp u)))) = Inr deleted"
    and parts: "be_document raw = doc" "be_created raw = stamp created" "be_updated raw = stamp updated" "be_deleted raw = deleted"
      "be_attachments raw = map stamped_attachment as"
    unfolding backup_entry_of_def by (auto simp: result_simps)
  from assms(2) obtain created' updated' deleted' as' where
    checked: "utc_time (be_created raw) = Inr created'" "utc_time (be_updated raw) = Inr updated'"
      "(case be_deleted raw of None \<Rightarrow> Inr None | Some t \<Rightarrow> andThen (utc_time t) (\<lambda>u. Inr (Some u))) = Inr deleted'"
      "map_res check_backup_attachment (be_attachments raw) = Inr as'"
      "be_document entry = be_document raw" "be_created entry = created'" "be_updated entry = updated'"
      "be_deleted entry = deleted'" "be_attachments entry = as'"
    unfolding check_backup_entry_def Let_def by (auto simp: result_simps)
  have same: "created' = created" "updated' = updated" "as' = as"
    using checked(1,2,4) utc_stamp check_stamped_list by (auto simp: parts)
  have "e_deleted e = map_option Good deleted'"
    using times(3) checked(3) by (auto simp: parts result_simps utc_time_def stamp_def split: option.splits)
  moreover note held = described_attachments_hold [OF as cs]
  moreover from held have "length contents = length as" using list_all2_lengthD by metis
  ultimately show "describes E key d i (entry, contents)"
    unfolding describes_def using e doc times parts(1) checked(5-9) same by simp
  show "list_all2 (content_matches (prims E)) (be_attachments entry) contents"
    "\<forall>c \<in> set contents. int (length c) \<le> MAX_ATTACHMENT_FRAME_BYTES" using held checked(9) same(3) by simp_all
qed

lemma read_written_attachments:
  "frames_read P bk contents r source rest \<Longrightarrow> list_all2 (content_matches P) as contents \<Longrightarrow>
     \<forall>c \<in> set contents. int (length c) \<le> MAX_ATTACHMENT_FRAME_BYTES \<Longrightarrow>
     read_attachments P bk as r source = Inr (contents, skip_frames (length contents) r, rest)"
proof (induction as arbitrary: contents r source)
  case (Cons a as)
  then obtain c contents' where c: "contents = c # contents'" "content_matches P a c" "list_all2 (content_matches P) as contents'"
    by (auto simp: list_all2_Cons1)
  with Cons.prems(1,3) obtain mid where mid: "reader_read P bk MAX_ATTACHMENT_FRAME_BYTES r source = Inr (c, skip_frames 1 r, mid)"
    "frames_read P bk contents' (skip_frames 1 r) mid rest" by auto
  from Cons.IH [OF mid(2) c(3)] Cons.prems(3) mid(1) c(1,2) show ?case by (simp add: algebra_simps)
qed simp

text \<open>The frames of one entry.\<close>

definition frames_hold ::
    "backup_codec \<Rightarrow> env \<Rightarrow> vault_key \<Rightarrow> (nat \<times> ustr) list \<Rightarrow> db \<Rightarrow> nat \<Rightarrow> bytes list \<Rightarrow> bool" where
  "frames_hold B E key uids d i frames \<longleftrightarrow>
     (\<exists>raw encoded contents. frames = encoded # contents \<and> entry_written E key uids d i raw contents
        \<and> enc_backup_entry B raw = Inr encoded \<and> int (length encoded) \<le> MAX_ENTRY_FRAME_BYTES)"

text \<open>An entry whose JSON the schema of the restore accepts.\<close>

definition entry_fits :: "backup_codec \<Rightarrow> env \<Rightarrow> vault_key \<Rightarrow> (nat \<times> ustr) list \<Rightarrow> db \<Rightarrow> nat \<Rightarrow> bool" where
  "entry_fits B E key uids d i \<longleftrightarrow>
     (\<forall>e raw. get_entry d i = Some e \<longrightarrow> backup_entry_of E key uids d e = Inr raw \<longrightarrow> is_ok (check_backup_entry B raw))"

lemma read_written_item:
  assumes "codec_ok B" and "frames_hold B E key uids d i frames" and "frames_read (prims E) bk frames r source rest"
  shows "entry_fits B E key uids d i \<Longrightarrow> is_ok (read_item B (prims E) bk r source)"
    and "read_item B (prims E) bk r source = Inr (it, r', rest') \<Longrightarrow>
      describes E key d i it \<and> r' = skip_frames (length frames) r \<and> rest' = rest"
proof -
  from assms(2) obtain raw encoded contents where frames: "frames = encoded # contents"
    and raw: "entry_written E key uids d i raw contents" "enc_backup_entry B raw = Inr encoded"
      "int (length encoded) \<le> MAX_ENTRY_FRAME_BYTES" unfolding frames_hold_def by blast
  from assms(3) raw(3) frames obtain mid where
    mid: "reader_read (prims E) bk MAX_ENTRY_FRAME_BYTES r source = Inr (encoded, skip_frames 1 r, mid)"
      "frames_read (prims E) bk contents (skip_frames 1 r) mid rest" by auto
  have dec: "dec_backup_entry B encoded = Some raw" using assms(1) raw(2) by (simp add: codec_ok_def)
  have item: "read_item B (prims E) bk r source = Inr ((entry, contents), skip_frames (length frames) r, rest)"
      and described: "describes E key d i (entry, contents)" if "check_backup_entry B raw = Inr entry" for entry
  proof -
    note written = entry_written_describes [OF raw(1) that]
    from read_written_attachments [OF mid(2) written(2,3)]
    show "read_item B (prims E) bk r source = Inr ((entry, contents), skip_frames (length frames) r, rest)"
      using mid(1) dec that by (simp add: read_item_def read_entry_def frames algebra_simps)
    show "describes E key d i (entry, contents)" using written(1) .
  qed
  show "is_ok (read_item B (prims E) bk r source)" if "entry_fits B E key uids d i"
    using that raw(1) item unfolding entry_fits_def entry_written_def by (auto simp: is_ok_iff)
  show "describes E key d i it \<and> r' = skip_frames (length frames) r \<and> rest' = rest"
    if run: "read_item B (prims E) bk r source = Inr (it, r', rest')"
  proof -
    from run mid(1) dec obtain entry where "check_backup_entry B raw = Inr entry"
      by (auto simp: read_item_def read_entry_def result_simps)
    from item [OF this] described [OF this] run show ?thesis by auto
  qed
qed

lemma frames_read_split:
  "frames_read P k (ps @ qs) r source rest \<Longrightarrow>
     \<exists>mid. frames_read P k ps r source mid \<and> frames_read P k qs (skip_frames (length ps) r) mid rest"
proof (induction ps arbitrary: r source)
  case (Cons p ps)
  then obtain m where m: "\<forall>limit. int (length p) \<le> limit \<longrightarrow> reader_read P k limit r source = Inr (p, skip_frames 1 r, m)"
    "frames_read P k (ps @ qs) (skip_frames 1 r) m rest" by auto
  from Cons.IH [OF m(2)] obtain mid where mid: "frames_read P k ps (skip_frames 1 r) m mid"
    "frames_read P k qs (skip_frames (length ps) (skip_frames 1 r)) mid rest" by blast
  have "frames_read P k qs (skip_frames (length (p # ps)) r) mid rest" using mid(2) by (simp add: add.assoc)
  with m(1) mid(1) show ?case unfolding frames_read.simps append_Cons by blast
qed simp

lemma written_entries:
  assumes "primitives_ok (prims E)" and "\<And>n. length (nonces n) = NONCE_BYTES"
  shows "fold_res (write_entry B E key uids nonces d) ids w = Inr w' \<Longrightarrow>
    \<exists>fss. list_all2 (frames_hold B E key uids d) ids fss \<and> writes (prims E) w (concat fss) w'"
proof (induction ids arbitrary: w)
  case Nil
  then show ?case using writes_Nil by simp
next
  case (Cons i ids)
  from Cons.prems obtain w\<^sub>1 where one: "write_entry B E key uids nonces d i w = Inr w\<^sub>1"
    and rest: "fold_res (write_entry B E key uids nonces d) ids w\<^sub>1 = Inr w'" by (auto simp: result_simps)
  from write_entry_writes [OF assms one] obtain frames where
    frames: "frames_hold B E key uids d i frames" "writes (prims E) w frames w\<^sub>1" unfolding frames_hold_def by blast
  from Cons.IH [OF rest] obtain fss where "list_all2 (frames_hold B E key uids d) ids fss" "writes (prims E) w\<^sub>1 (concat fss) w'"
    by blast
  with frames writes_append [OF frames(2) this(2)] show ?case by (intro exI [of _ "frames # fss"]) simp
qed

lemma read_written_entries:
  assumes "codec_ok B"
  shows "list_all2 (frames_hold B E key uids d) ids fss \<Longrightarrow> frames_read (prims E) bk (concat fss) r source rest \<Longrightarrow>
    ((\<forall>i \<in> set ids. entry_fits B E key uids d i) \<longrightarrow> is_ok (reads (read_item B (prims E) bk) (length ids) r source))
    \<and> (\<forall>its r' rest'. reads (read_item B (prims E) bk) (length ids) r source = Inr (its, r', rest') \<longrightarrow>
         list_all2 (describes E key d) ids its \<and> r' = skip_frames (length (concat fss)) r \<and> rest' = rest)"
proof (induction ids arbitrary: fss r source)
  case (Cons i ids)
  then obtain frames fss' where fs: "fss = frames # fss'" "frames_hold B E key uids d i frames"
    "list_all2 (frames_hold B E key uids d) ids fss'" by (auto simp: list_all2_Cons1)
  with Cons.prems(2) have "frames_read (prims E) bk (frames @ concat fss') r source rest" by simp
  from frames_read_split [OF this] obtain mid where mid: "frames_read (prims E) bk frames r source mid"
    "frames_read (prims E) bk (concat fss') (skip_frames (length frames) r) mid rest" by blast
  note item = read_written_item [OF assms fs(2) mid(1)] and IH = Cons.IH [OF fs(3) mid(2)]
  have "is_ok (reads (read_item B (prims E) bk) (length (i # ids)) r source)" if fit: "\<forall>i \<in> set (i # ids). entry_fits B E key uids d i"
  proof -
    from item(1) fit obtain it r\<^sub>1 s\<^sub>1 where it: "read_item B (prims E) bk r source = Inr (it, r\<^sub>1, s\<^sub>1)" by (auto simp: is_ok_iff)
    with item(2) [OF it] IH fit show ?thesis by (auto simp: is_ok_iff)
  qed
  moreover have "list_all2 (describes E key d) (i # ids) its \<and> r' = skip_frames (length (concat fss)) r \<and> rest' = rest"
    if rd: "reads (read_item B (prims E) bk) (length (i # ids)) r source = Inr (its, r', rest')" for its r' rest'
  proof -
    from rd obtain it r\<^sub>1 s\<^sub>1 its' where it: "read_item B (prims E) bk r source = Inr (it, r\<^sub>1, s\<^sub>1)" "its = it # its'"
      "reads (read_item B (prims E) bk) (length ids) r\<^sub>1 s\<^sub>1 = Inr (its', r', rest')" by (auto simp: result_simps)
    from item(2) [OF it(1)] IH it(2,3) fs(1) show ?thesis by (auto simp: algebra_simps)
  qed
  ultimately show ?case by blast
qed simp

lemma header_written:
  assumes "BackupWriter bk h = Inr w" and "length (bh_salt h) = 16" and "length (bh_commitment h) = 32"
    and "is_ok (require_supported (bh_params h))" and "1 \<le> bh_frames h" and "bh_frames h \<le> MAX_FRAMES"
  shows "BackupReader (bw_target w @ out) = Inr (\<lparr>br_raw = bw_target w, br_header = h, br_index = 0\<rparr>, out)"
    and "bw_header w = bw_target w" and "bw_frames w = bh_frames h" and "bw_index w = 0" and "bw_key w = bk"
proof -
  from assms(1) obtain raw where raw: "header_pack h = Inr raw"
    and w: "w = \<lparr>bw_target = raw, bw_key = bk, bw_header = raw, bw_frames = bh_frames h, bw_index = 0\<rparr>"
    by (auto simp: BackupWriter_def result_simps)
  have parse: "header_parse raw = Inr h" using header_parse_pack [OF raw assms(2-5)] .
  then have "length raw = BACKUP_HEADER_BYTES" by (simp add: header_parse_def result_simps)
  with parse assms(6) show "BackupReader (bw_target w @ out) = Inr (\<lparr>br_raw = bw_target w, br_header = h, br_index = 0\<rparr>, out)"
    by (simp add: BackupReader_Inr w)
  show "bw_header w = bw_target w" "bw_frames w = bh_frames h" "bw_index w = 0" "bw_key w = bk" by (simp_all add: w)
qed

definition backup_draw_ok :: "backup_draw \<Rightarrow> bool" where
  "backup_draw_ok w \<longleftrightarrow> length (bd_salt w) = 16 \<and> (\<forall>n. length (bd_nonces w n) = NONCE_BYTES)"

text \<open>What is in a created file: the manifest, then the frames of every entry.\<close>

abbreviation folder_uids :: "env \<Rightarrow> vault_key \<Rightarrow> nat option \<Rightarrow> nat list option \<Rightarrow> db \<Rightarrow> backup_folder list \<Rightarrow> (nat \<times> ustr) list" where
  "folder_uids E key owner only d fs \<equiv> zip (map f_id (backup_folder_rows owner only d)) (map bf_uid fs)"

lemma created_frames:
  assumes "env_ok E" and "backup_draw_ok w"
    and "create_backup B E defaults app_version owner only password key verify_current w d\<^sub>0 d = Inr upload"
  obtains fs fss m encoded bk r out where "map_res (described_folder E key) (backup_folder_rows owner only d) = Inr fs"
    and "list_all2 (frames_hold B E key (folder_uids E key owner only d fs) d) (backup_entry_ids only d) fss"
    and "enc_manifest B (manifest_of defaults app_version (bd_now w) only fs d) = Inr encoded"
    and "int (length encoded) \<le> MAX_MANIFEST_BYTES" and "int (length (concat fss)) = backup_frames only d - 1"
    and "dec_manifest B encoded = Some m" and "is_ok (check_manifest m)"
    and "open_upload (prims E) password upload = Inr (bk, r, out)" and "frames_read (prims E) bk (encoded # concat fss) r out []"
    and "br_index r = 0" and "bh_frames (br_header r) = backup_frames only d"
proof -
  note P = env_okD(1) [OF assms(1)]
  from assms(3) obtain salt bk where key: "new_backup_key (prims E) (bd_salt w) password DEFAULT_KDF = Inr (salt, bk)"
    and written: "write_file B E defaults app_version owner only key w bk d = Inr upload"
    unfolding create_backup_def by (auto simp: result_simps)
  let ?h = "\<lparr>bh_params = DEFAULT_KDF, bh_salt = bd_salt w, bh_frames = backup_frames only d, bh_commitment = bk_commitment bk\<rparr>"
  from written obtain fs encoded m writer\<^sub>0 writer\<^sub>1 writer\<^sub>2 where
    fs: "map_res (described_folder E key) (backup_folder_rows owner only d) = Inr fs" and
    frames: "backup_frames only d \<le> MAX_FRAMES" and
    manifest: "enc_manifest B (manifest_of defaults app_version (bd_now w) only fs d) = Inr encoded"
      "int (length encoded) \<le> MAX_MANIFEST_BYTES" "dec_manifest B encoded = Some m" "is_ok (check_manifest m)" and
    w0: "BackupWriter bk ?h = Inr writer\<^sub>0" and w1: "put_frame (prims E) (bd_nonces w) encoded writer\<^sub>0 = Inr writer\<^sub>1" and
    w2: "fold_res (write_entry B E key (folder_uids E key owner only d fs) (bd_nonces w) d)
       (backup_entry_ids only d) writer\<^sub>1 = Inr writer\<^sub>2" and
    fin: "writer_finish writer\<^sub>2 = Inr ()" and upload: "upload = bw_target writer\<^sub>2"
    unfolding write_file_def Let_def by (auto simp: result_simps is_ok_iff)
  have nonces: "\<And>n. length (bd_nonces w n) = NONCE_BYTES" and salt: "length (bd_salt w) = 16"
    using assms(2) by (simp_all add: backup_draw_ok_def)
  from key obtain derived where derived: "argon2id (prims E) password (bd_salt w) DEFAULT_KDF = Inr derived"
    and bk: "bk = BackupKey (prims E) derived" by (auto simp: new_backup_key_def result_simps)
  have "is_ok (require_supported (bh_params ?h))" "1 \<le> bh_frames ?h" "length (bh_commitment ?h) = 32"
    using primitives_okD(3) [OF P] by (simp_all add: require_supported_def kdf_bounds backup_frames_def bk BackupKey_def)
  note header = header_written [OF w0, simplified, OF salt this(3) [simplified] this(1) [simplified] this(2) [simplified] frames]
  note w1' = put_frame_writes [OF P nonces w1]
  from written_entries [OF P nonces w2] obtain fss where
    fss: "list_all2 (frames_hold B E key (folder_uids E key owner only d fs) d) (backup_entry_ids only d) fss"
      "writes (prims E) writer\<^sub>1 (concat fss) writer\<^sub>2" by blast
  from writes_append [OF w1' fss(2)] obtain out where out: "upload = bw_target writer\<^sub>0 @ out"
    "\<And>r t. reads_at writer\<^sub>0 r \<Longrightarrow> frames_read (prims E) bk (encoded # concat fss) r (out @ t) t"
    and ends: "bw_index writer\<^sub>2 = bw_index writer\<^sub>0 + int (length (encoded # concat fss))" "bw_frames writer\<^sub>2 = bw_frames writer\<^sub>0"
    unfolding writes_def upload header(5) by auto
  let ?r = "\<lparr>br_raw = bw_target writer\<^sub>0, br_header = ?h, br_index = 0\<rparr>"
  have "reads_at writer\<^sub>0 ?r" by (simp add: reads_at_def header(2-4))
  from out(2) [OF this, of "[]"] have all: "frames_read (prims E) bk (encoded # concat fss) ?r out []" by simp
  have opened: "open_upload (prims E) password upload = Inr (bk, ?r, out)"
    using header(1) [of out] derived
    by (simp add: open_upload_def out(1) backup_key_for_def backup_key_matches_def bk)
  have count: "int (length (concat fss)) = backup_frames only d - 1"
    using fin ends header(3,4) by (auto simp: writer_finish_def result_simps)
  show thesis by (rule that [OF fs fss(1) manifest(1,2) count manifest(3,4) opened all]) simp_all
qed

end
