(* ===== verification/Backup_Samples.thy ===== *)
theory Backup_Samples
  imports Backup_Round_Trip
begin

text \<open>
  A vault with one entry, a codec for it, and the run that backs it up and restores it into an empty
  vault of the same key: the inputs at which the properties of backups are applied.
\<close>

definition sample_manifest :: "db \<Rightarrow> json_time backup_manifest" where
  "sample_manifest d = manifest_of sample_defaults [49] 0 None [] d"

definition sample_backup_entry :: "json_time backup_entry" where
  "sample_backup_entry = \<lparr>be_document = sample_doc [110] None, be_folder_uid = None, be_created = stamp 0, be_updated = stamp 0,
     be_deleted = None, be_attachments = []\<rparr>"

definition backed_up :: db where
  "backed_up = empty_db\<lparr>
     vault := Some \<lparr>v_format_version = 2, v_folder_links_ready = True, v_owner_user_id = Some 7,
       v_cols = material_columns (sample_material [97])\<rparr>,
     users := [sample_user 7 Admin], seq_users := 7, entries := [sample_entry None None], seq_entries := 4\<rparr>"

definition sample_codec :: backup_codec where
  "sample_codec =
     \<lparr>enc_manifest = (\<lambda>m. if m = sample_manifest backed_up then Inr [1] else Inl ValueError),
      dec_manifest = (\<lambda>_. Some (sample_manifest backed_up)),
      enc_backup_entry = (\<lambda>e. if e = sample_backup_entry then Inr [2] else Inl ValueError),
      dec_backup_entry = (\<lambda>_. Some sample_backup_entry), valid_timestamp = (\<lambda>_. True)\<rparr>"

definition sample_backup_draw :: backup_draw where
  "sample_backup_draw = \<lparr>bd_salt = sample_salt, bd_nonces = (\<lambda>_. sample_nonce), bd_now = 0\<rparr>"

lemma sample_codec_ok: "codec_ok sample_codec"
  by (simp add: codec_ok_def sample_codec_def)

lemma sample_backup_draw_ok: "backup_draw_ok sample_backup_draw"
  by (simp add: backup_draw_ok_def sample_backup_draw_def sample_salt_def)

lemma backed_up_rows [simp]:
  "entries backed_up = [sample_entry None None]" "attachments backed_up = []" "folders backed_up = []" "settings backed_up = None"
  by (simp_all add: backed_up_def empty_db_def)

lemma backed_up_entry:
  "get_entry backed_up 4 = Some (sample_entry None None)"
  "backup_entry_of sample_E sample_key [] backed_up (sample_entry None None) = Inr sample_backup_entry"
  by (simp_all add: get_entry_def backup_entry_of_def attachment_rows_def entry_attachments_def sample_backup_entry_def)

lemma sample_header_ok:
  "length s = 16 \<Longrightarrow> 0 \<le> n \<Longrightarrow> n < 100 \<Longrightarrow> \<exists>w. BackupWriter bk \<lparr>bh_params = DEFAULT_KDF, bh_salt = s, bh_frames = n,
     bh_commitment = c\<rparr> = Inr w \<and> bw_frames w = n \<and> bw_index w = 0 \<and> length (bw_target w) = 75"
  by (simp add: BackupWriter_def header_pack_def pack_s_def pack_u_def BACKUP_VERSION_def BACKUP_KDF_ARGON2ID_def kdf_bounds)

lemma sample_frame_ok: "0 \<le> bw_index w \<Longrightarrow> bw_index w < bw_frames w \<Longrightarrow> bw_frames w < 100 \<Longrightarrow> length p < 100 \<Longrightarrow>
   \<exists>w'. put_frame (sample_primitives []) nonces p w = Inr w' \<and> bw_frames w' = bw_frames w \<and> bw_index w' = bw_index w + 1
      \<and> length (bw_target w') = length (bw_target w) + 4 + length (nonces (nat (bw_index w))) + length p + 16"
  using primitives_okD(2) [OF sample_primitives_ok, of "[]"]
  by (simp add: put_frame_def writer_write_def seal_frame_def frame_associated_data_def pack_u_def ensure_def)

lemma sample_file_ids: "backup_entry_ids None backed_up = [4]" "backup_frames None backed_up = 2" "backup_folder_rows None None backed_up = []"
  by (simp_all add: backup_entry_ids_def backup_frames_def backup_folder_rows_def)

lemma sample_created: "\<exists>upload. create_backup sample_codec sample_E sample_defaults [49] None None [97] sample_key False sample_backup_draw
    backed_up backed_up = Inr upload"
proof -
  let ?P = "sample_primitives []"
  obtain bk where bk: "new_backup_key ?P sample_salt [97] DEFAULT_KDF = Inr (sample_salt, bk)"
    by (simp add: new_backup_key_def argon2id_def require_supported_def kdf_bounds)
  let ?h = "\<lparr>bh_params = DEFAULT_KDF, bh_salt = sample_salt, bh_frames = 2, bh_commitment = bk_commitment bk\<rparr>"
  from sample_header_ok [of sample_salt 2] obtain w\<^sub>0 where w0: "BackupWriter bk ?h = Inr w\<^sub>0" and
    at: "bw_frames w\<^sub>0 = 2" "bw_index w\<^sub>0 = 0" "length (bw_target w\<^sub>0) = 75" by (auto simp: sample_salt_def)
  from sample_frame_ok [of w\<^sub>0 "[1]" "\<lambda>_. sample_nonce"] at obtain w\<^sub>1 where w1: "put_frame ?P (\<lambda>_. sample_nonce) [1] w\<^sub>0 = Inr w\<^sub>1"
    "bw_frames w\<^sub>1 = 2" "bw_index w\<^sub>1 = 1" "length (bw_target w\<^sub>1) = 108" by (auto simp: size_defs)
  from sample_frame_ok [of w\<^sub>1 "[2]" "\<lambda>_. sample_nonce"] w1 obtain w\<^sub>2 where w2: "put_frame ?P (\<lambda>_. sample_nonce) [2] w\<^sub>1 = Inr w\<^sub>2"
    "bw_frames w\<^sub>2 = 2" "bw_index w\<^sub>2 = 2" "length (bw_target w\<^sub>2) = 141" by (auto simp: size_defs)
  have entry: "write_entry sample_codec sample_E sample_key [] (\<lambda>_. sample_nonce) backed_up 4 w\<^sub>1 = Inr w\<^sub>2"
    using w2(1) backed_up_entry
    by (simp add: write_entry_def sample_codec_def MAX_ENTRY_FRAME_BYTES_def attachment_rows_def entry_attachments_def)
  have enc: "enc_manifest sample_codec (manifest_of sample_defaults [49] 0 None [] backed_up) = Inr [1]"
    "dec_manifest sample_codec [1] = Some (sample_manifest backed_up)" by (simp_all add: sample_codec_def sample_manifest_def)
  have check: "is_ok (check_manifest (sample_manifest backed_up))"
    by (simp add: check_manifest_def sample_manifest_def manifest_of_def sample_file_ids utc_time_def stamp_def
      MIN_DATETIME_def MAX_DATETIME_def require_unicode_text_def MAX_FRAMES_def)
  then show ?thesis 
    using bk w0 w1(1) w2(2-4) entry enc 
    by (auto simp: create_backup_def write_file_def sample_backup_draw_def sample_file_ids Let_def MAX_FRAMES_def MAX_MANIFEST_BYTES_def
       is_ok_iff writer_finish_def MAX_BACKUP_BYTES_def)
qed

definition restored_sample :: "time backup_entry" where
  "restored_sample = \<lparr>be_document = sample_doc [110] None, be_folder_uid = None, be_created = 0, be_updated = 0,
     be_deleted = None, be_attachments = []\<rparr>"

lemma sample_entry_checked: "check_backup_entry sample_codec sample_backup_entry = Inr restored_sample"
  by (simp add: check_backup_entry_def sample_backup_entry_def restored_sample_def sample_doc_def utc_time_def stamp_def optional_def
    MIN_DATETIME_def MAX_DATETIME_def require_unicode_text_def ensure_def)

lemma sample_entry_fits: "entry_fits sample_codec sample_E sample_key [] backed_up 4"
  by (simp add: entry_fits_def backed_up_entry sample_entry_checked)

definition sample_restore_draws :: restore_draws where
  "sample_restore_draws =
     \<lparr>rw_folders = (\<lambda>_. ([], [])),
      rw_entries = (\<lambda>_. \<lparr>rd_uid = [9], rd_nonce = sample_nonce, rd_folder = ([], []), rd_now = 0,
        rd_attachments = (\<lambda>_. \<lparr>td_uid = [7], td_nonces = (sample_nonce, sample_nonce), td_now = 0\<rparr>)\<rparr>),
      rw_moved_at = 0, rw_committed_at = sample_instant\<rparr>"

lemma sample_restore_draws_ok: "draws_ok sample_restore_draws"
  by (simp add: draws_ok_def sample_restore_draws_def)

lemma sample_restored_document [simp]: "restored_document T (sample_doc n None) = sample_doc n None"
  by (simp add: restored_document_def sample_doc_def normalize_totp_secret_leniently_def normalize_totp_secret_def clean_folder_def)

lemma sample_checked: "\<exists>p h. check_entry T restored_sample n = Inr (p, h) \<and> document_from p h = sample_doc [110] None"
proof -
  have "is_ok (check_entry T restored_sample n)"
    by (simp add: check_entry_def restored_sample_def restorable_def sample_doc_def validate_import_def
      validate_restored_password_def require_unicode_text_def reject_nul_def optional_def ensure_def utext_def
      MAX_MIGRATED_TOTAL_ATTACHMENT_BYTES_def)
  then obtain p h where "check_entry T restored_sample n = Inr (p, h)" by (auto simp: is_ok_iff)
  with check_entry_Inr [OF this] show ?thesis by (simp add: restored_sample_def)
qed

abbreviation emptied :: db where "emptied \<equiv> backed_up\<lparr>entries := []\<rparr>"

lemma sample_target:
  assumes "rs_db st = emptied" and "rs_active st = []" and "rs_overwritten st = 0" and "rs_skipped st = 0"
  shows "\<exists>e st'. restore_target sample_E (Some 7) Skip 0 sample_key (rw_entries sample_restore_draws n) (sample_doc [110] None)
    restored_sample None st = Inr (e, st') \<and> rs_reader st' = rs_reader st \<and> rs_source st' = rs_source st
      \<and> rs_overwritten st' = 0 \<and> rs_skipped st' = 0"
proof -
  let ?w = "rw_entries sample_restore_draws n"
  let ?row = "restored_row ?w (Some 7) None restored_sample"
  have w: "rd_nonce ?w = sample_nonce" "e_uid ?row = Good [9]" by (simp_all add: sample_restore_draws_def restored_row_def)
  obtain s where s: "seal_entry sample_E sample_key sample_nonce ?row (sample_doc [110] None) = Inr s"
    using projr_ok [of "seal_entry sample_E sample_key sample_nonce ?row (sample_doc [110] None)"]
    by (auto simp: seal_entry_ok restored_row_def sample_restore_draws_def)
  then obtain ix where ix: "name_index (prims sample_E) sample_key [110] = Inr ix" by (auto simp: seal_entry_def result_simps)
  have "insert_entry s emptied = Inr (5, emptied\<lparr>entries := [s\<lparr>e_id := 5\<rparr>], seq_entries := 5\<rparr>)"
    by (simp add: insert_entry_def backed_up_def empty_db_def entries_unique_def active_indexes_def Let_def)
  moreover have "be_deleted restored_sample = None" by (simp add: restored_sample_def)
  ultimately show ?thesis using s ix w(1) assms
    by (simp add: restore_target_def add_restored_def folder_named_def remember_row_def clean_folder_def Let_def)
qed

lemma sample_entry_restored:
  assumes "read_entry sample_codec (sample_primitives []) bk (rs_reader st) (rs_source st) = Inr (restored_sample, r, rest)"
    and "rs_db st = emptied" and "rs_active st = []" and "rs_overwritten st = 0" and "rs_skipped st = 0" and "rs_seen st = []"
  shows "\<exists>st'. restore_entry T sample_codec sample_E (Some 7) Skip 0 bk sample_key 3 [] (rw_entries sample_restore_draws) n st = Inr st'
    \<and> rs_reader st' = r \<and> rs_source st' = rest \<and> rs_overwritten st' = 0 \<and> rs_skipped st' = 0"
proof -
  obtain p h where check: "check_entry T restored_sample n = Inr (p, h)" "document_from p h = sample_doc [110] None"
    using sample_checked by blast
  let ?st = "st\<lparr>rs_reader := r, rs_source := rest, rs_seen := [[110]]\<rparr>"
  obtain e st' where "restore_target sample_E (Some 7) Skip 0 sample_key (rw_entries sample_restore_draws n) (sample_doc [110] None)
      restored_sample None ?st = Inr (e, st')" "rs_reader st' = r" "rs_source st' = rest" "rs_overwritten st' = 0" "rs_skipped st' = 0"
    using sample_target [of ?st n] assms by auto
  moreover have "linked_folder 3 [] restored_sample = Inr None" "note_seen restored_sample [] = Inr [[110]]"
      "be_attachments restored_sample = []"
    by (simp_all add: linked_folder_def note_seen_def restored_sample_def)
  ultimately show ?thesis using assms check by (simp add: restore_entry_def)
qed

lemma sample_imported:
  assumes "upload_items sample_codec (sample_primitives []) [97] upload = Inr (m, its)"
  shows "\<exists>result d'. rq_result (import_backup T sample_codec sample_E (Some 7) True upload [97] sample_key Skip None instants
      sample_restore_draws emptied vs) = Inr (result, d') \<and> ir_skipped result = 0 \<and> ir_overwritten result = 0"
proof -
  from assms obtain bk r source r' rest r'' where opened: "open_upload (sample_primitives []) [97] upload = Inr (bk, r, source)"
    and m: "read_manifest sample_codec (sample_primitives []) bk r source = Inr (m, r', rest)"
    and its: "reads (read_item sample_codec (sample_primitives []) bk) (nat (bm_entries_count m)) r' rest = Inr (its, r'', [])"
    and fin: "br_index r'' = bh_frames (br_header r'')"
    by (auto simp: upload_items_def reader_finish_def result_simps)
  from m have "check_manifest (sample_manifest backed_up) = Inr m"
    by (auto simp: read_manifest_def sample_codec_def result_simps)
  then have manifest: "bm_entries_count m = 1" "bm_version m = 3" "bm_folders m = []" "bm_settings m = sample_defaults"
    by (auto simp: check_manifest_def sample_manifest_def manifest_of_def sample_file_ids get_settings_def stored_settings_def result_simps)
  then have "nat (bm_entries_count m) = Suc 0" by simp
  with its have item: "\<exists>it. read_item sample_codec (sample_primitives []) bk r' rest = Inr (it, r'', [])"
    by (auto simp: result_simps)
  have "dec_backup_entry sample_codec b = Some sample_backup_entry" for b by (simp add: sample_codec_def)
  with item have entry: "read_entry sample_codec (sample_primitives []) bk r' rest = Inr (restored_sample, r'', [])"
    by (auto simp: read_item_def read_entry_def sample_entry_checked restored_sample_def result_simps)
  then have room: "bm_entries_count m \<le> remaining r'"
    by (auto simp: read_entry_def reader_read_def result_simps remaining_def manifest Let_def)
  let ?st = "initial_restore r' rest emptied"
  from sample_entry_restored [of bk ?st r'' "[]" T 1] entry obtain st' where
    st': "restore_entry T sample_codec sample_E (Some 7) Skip 0 bk sample_key 3 [] (rw_entries sample_restore_draws) 1 ?st = Inr st'"
      "rs_reader st' = r''" "rs_source st' = []" "rs_overwritten st' = 0" "rs_skipped st' = 0"
    by (auto simp: initial_restore_def active_rows_def)
  have "rw_moved_at sample_restore_draws = 0" "[Suc 0..<Suc (Suc 0)] = [1]" by (simp_all add: sample_restore_draws_def)
  with st' fin manifest have "\<exists>result d'. restore_file T sample_codec sample_E (Some 7) True Skip bk sample_key m sample_restore_draws
      r' rest emptied = Inr (result, d') \<and> ir_skipped result = 0 \<and> ir_overwritten result = 0"
    by (simp add: restore_file_def reader_finish_def restore_result_of_def Let_def)
  moreover have "validate_settings sample_defaults = Inr sample_defaults" by (simp add: validate_settings_def sample_defaults_def ensure_def)
  moreover have "is_ok (verify_vault_key (Some sample_key) emptied)"
    by (simp add: verify_vault_key_def backed_up_def sample_check matches_def)
  ultimately have "\<exists>result d'. restore_opened T sample_codec sample_E (Some 7) True Skip sample_key sample_restore_draws (bk, r, source) emptied
      = Inr (result, d') \<and> ir_skipped result = 0 \<and> ir_overwritten result = 0"
    using m room by (auto simp: restore_opened_def manifest is_ok_iff)
  then show ?thesis using opened by (auto simp: import_backup_def recheck_session_def Let_def)
qed

lemma emptied_ok: "db_ok emptied"
  by (simp add: db_ok_def keys_ok_def fk_ok_def backed_up_def empty_db_def entries_unique_def active_indexes_def folders_unique_def
    groups_unique_def users_unique_def attachments_unique_def sample_user_def)

end
