(* ===== verification/Backup_Properties.thy ===== *)
theory Backup_Properties
  imports Backup_Samples
begin

text \<open>
  What complete backups promise: a created file reads back as the entries of the vault, restoring it
  brings them back, a restore destroys nothing, and a file that is cut short, extended or opened with
  another password is refused. Reading a file is composed of readers with the contract
  \<open>prefix_reader\<close>, so that the contract holds for the whole of it.
\<close>

section \<open>Readers of readers\<close>

lemma prefix_reader_pure: "prefix_reader (\<lambda>st source. andThen (v st) (\<lambda>y. Inr (y, st, source)))"
  by unfold_locales (auto simp: result_simps)

lemma prefix_reader_bind:
  assumes "prefix_reader f" and "\<And>x. prefix_reader (g x)"
  shows "prefix_reader (\<lambda>st source. andThen (f st source) (\<lambda>(x, st', rest). g x st' rest))"
proof
  fix st source y st'' rest
  assume "andThen (f st source) (\<lambda>(x, st', rest). g x st' rest) = Inr (y, st'', rest)"
  then obtain x st' mid where x: "f st source = Inr (x, st', mid)" and y: "g x st' mid = Inr (y, st'', rest)"
    by (auto simp: result_simps)
  from prefix_reader.consumes [OF assms(1) x] obtain u where u: "source = u @ mid" "\<And>t. f st (u @ t) = Inr (x, st', t)"
      "\<And>v w. u = v @ w \<Longrightarrow> w \<noteq> [] \<Longrightarrow> \<not> is_ok (f st v)" by blast
  from prefix_reader.consumes [OF assms(2) y] obtain r where r: "mid = r @ rest" "\<And>t. g x st' (r @ t) = Inr (y, st'', t)"
      "\<And>v w. r = v @ w \<Longrightarrow> w \<noteq> [] \<Longrightarrow> \<not> is_ok (g x st' v)" by blast
  have "\<not> is_ok (andThen (f st v) (\<lambda>(x, st', rest). g x st' rest))" if "u @ r = v @ w" and "w \<noteq> []" for v w
  proof -
    from that(1) consider z where "u = v @ z" "w = z @ r" "z \<noteq> []" | z where "v = u @ z" "r = z @ w"
      by (auto simp: append_eq_append_conv2) fastforce
    then show ?thesis
      by cases (use that(2) u r(3) in \<open>auto simp: is_ok_iff result_simps\<close>)
  qed
  with u(1,2) r(1,2) show "\<exists>used. source = used @ rest
      \<and> (\<forall>t. andThen (f st (used @ t)) (\<lambda>(x, st', rest). g x st' rest) = Inr (y, st'', t))
      \<and> (\<forall>v w. used = v @ w \<longrightarrow> w \<noteq> [] \<longrightarrow> \<not> is_ok (andThen (f st v) (\<lambda>(x, st', rest). g x st' rest)))"
    by (intro exI [of _ "u @ r"]) auto
qed

lemma prefix_reader_catching:
  assumes "prefix_reader f"
  shows "prefix_reader (\<lambda>st source. catching h (f st source))"
proof
  fix st source x st' rest
  assume "catching h (f st source) = Inr (x, st', rest)"
  then have "f st source = Inr (x, st', rest)" by (simp add: result_simps)
  from prefix_reader.consumes [OF assms this] show "\<exists>used. source = used @ rest
      \<and> (\<forall>t. catching h (f st (used @ t)) = Inr (x, st', t))
      \<and> (\<forall>v w. used = v @ w \<longrightarrow> w \<noteq> [] \<longrightarrow> \<not> is_ok (catching h (f st v)))"
    by (simp add: is_ok_iff result_simps)
qed

interpretation entry_reader: prefix_reader "read_entry B P bk" for B P bk
  unfolding read_entry_def
  by (rule prefix_reader_bind [OF frame_reader.prefix_reader_axioms prefix_reader_pure])

lemma attachments_prefix_reader: "prefix_reader (read_attachments P bk as)"
proof (induction as)
  case Nil
  show ?case using prefix_reader_pure [of "\<lambda>_. Inr []"] by simp
next
  case (Cons a as)
  have "prefix_reader (\<lambda>r source. andThen (ensure (content_matches P a c) InvalidRequest) (\<lambda>_.
      andThen (read_attachments P bk as r source) (\<lambda>(cs, r', rest). Inr (c # cs, r', rest))))" for c
  proof (cases "content_matches P a c")
    case True
    then show ?thesis using prefix_reader_bind [OF Cons prefix_reader_pure [of "\<lambda>_. Inr (c # _)"]] 
      by (simp add: ensure_def)
  next
    case False
    then show ?thesis by unfold_locales (simp add: ensure_def)
  qed
  from prefix_reader_bind [OF frame_reader.prefix_reader_axioms this] show ?case by simp
qed

interpretation item_reader: prefix_reader "read_item B P bk" for B P bk
  unfolding read_item_def
  by (rule prefix_reader_bind [OF entry_reader.prefix_reader_axioms])
    (rule prefix_reader_bind [OF attachments_prefix_reader], use prefix_reader_pure [of "\<lambda>_. Inr _"] in simp)

lemma reads_prefix_reader:
  assumes "prefix_reader rd"
  shows "prefix_reader (reads rd n)"
  by (rule prefix_reader.intro) (rule prefix_reader.reads_consume [OF assms])

section \<open>The whole file\<close>

definition read_contents ::
    "backup_codec \<Rightarrow> primitives \<Rightarrow> backup_key \<Rightarrow> backup_reader \<Rightarrow> bytes \<Rightarrow>
       error + (time backup_manifest \<times> item list) \<times> backup_reader \<times> bytes" where
  "read_contents B P bk r source =
     andThen (read_manifest B P bk r source) (\<lambda>(m, r', rest).
     andThen (reads (read_item B P bk) (nat (bm_entries_count m)) r' rest) (\<lambda>(its, r'', rest'). Inr ((m, its), r'', rest')))"

lemma upload_items_contents:
  "upload_items B P password upload =
     andThen (open_upload P password upload) (\<lambda>(bk, r, source).
     andThen (read_contents B P bk r source) (\<lambda>((m, its), r', rest).
     andThen (reader_finish r' rest) (\<lambda>_. Inr (m, its))))"
  by (auto simp: upload_items_def read_contents_def andThen_def split: sum.splits prod.splits)

interpretation manifest_reader: prefix_reader "read_manifest B P bk" for B P bk
  unfolding read_manifest_def
  by (rule prefix_reader_bind [OF prefix_reader_catching [OF frame_reader.prefix_reader_axioms] prefix_reader_pure])

interpretation contents_reader: prefix_reader "read_contents B P bk" for B P bk
  unfolding read_contents_def
  by (rule prefix_reader_bind [OF manifest_reader.prefix_reader_axioms])
    (rule prefix_reader_bind [OF reads_prefix_reader [OF item_reader.prefix_reader_axioms]],
      use prefix_reader_pure [of "\<lambda>_. Inr _"] in simp)

lemma open_upload_Inr:
  "open_upload P password upload = Inr (bk, r, source) \<longleftrightarrow>
     BackupReader upload = Inr (r, source) \<and> backup_key_for P password (br_header r) = Inr bk
     \<and> backup_key_matches bk (br_header r)"
  by (auto simp: open_upload_def result_simps)

text \<open>A file that reads as a backup is the only one among its prefixes and extensions.\<close>

lemma upload_items_exact:
  assumes "upload_items B P password (short @ extra) = Inr (m, its)" and "extra \<noteq> []"
  shows "\<not> is_ok (upload_items B P password short)"
proof
  assume "is_ok (upload_items B P password short)"
  then obtain bk' r' source' c' r'' where short: "open_upload P password short = Inr (bk', r', source')"
    "read_contents B P bk' r' source' = Inr (c', r'', [])"
    by (auto simp: is_ok_iff upload_items_contents reader_finish_def result_simps)
  from assms(1) obtain bk r source c r\<^sub>1 where whole: "open_upload P password (short @ extra) = Inr (bk, r, source)"
    "read_contents B P bk r source = Inr (c, r\<^sub>1, [])"
    by (auto simp: upload_items_contents reader_finish_def result_simps)
  from short(1) obtain raw where raw: "short = raw @ source'" "length raw = BACKUP_HEADER_BYTES"
    by (auto simp: open_upload_Inr BackupReader_Inr)
  have "BackupReader (short @ extra) = Inr (r', source' @ extra)"
    using short(1) raw by (auto simp: open_upload_Inr BackupReader_Inr)
  with whole(1) short(1) have same: "r = r'" "source = source' @ extra" "bk = bk'" by (auto simp: open_upload_Inr)
  from contents_reader.consumes [OF whole(2)] assms(2) same have "\<not> is_ok (read_contents B P bk' r' source')" by auto
  with short(2) show False by (simp add: is_ok_iff)
qed

section \<open>Reading a created file\<close>

lemma created_items:
  assumes "env_ok E" and "codec_ok B" and "backup_draw_ok w"
    and "create_backup B E defaults app_version owner only password key verify_current w d\<^sub>0 d = Inr upload"
  shows "(\<And>fs i. map_res (described_folder E key) (backup_folder_rows owner only d) = Inr fs \<Longrightarrow> i \<in> set (backup_entry_ids only d) \<Longrightarrow>
      entry_fits B E key (folder_uids E key owner only d fs) d i) \<Longrightarrow> is_ok (upload_items B (prims E) password upload)"
    and "upload_items B (prims E) password upload = Inr (m, its) \<Longrightarrow>
      list_all2 (describes E key d) (backup_entry_ids only d) its \<and> bm_settings m = get_settings defaults d"
proof -
  obtain fs fss m\<^sub>0 encoded bk r out where fs: "map_res (described_folder E key) (backup_folder_rows owner only d) = Inr fs"
    and fss: "list_all2 (frames_hold B E key (folder_uids E key owner only d fs) d) (backup_entry_ids only d) fss"
    and enc: "enc_manifest B (manifest_of defaults app_version (bd_now w) only fs d) = Inr encoded"
      "int (length encoded) \<le> MAX_MANIFEST_BYTES"
    and count: "int (length (concat fss)) = backup_frames only d - 1"
    and dec: "dec_manifest B encoded = Some m\<^sub>0" "is_ok (check_manifest m\<^sub>0)"
    and opened: "open_upload (prims E) password upload = Inr (bk, r, out)" "br_index r = 0" "bh_frames (br_header r) = backup_frames only d"
    and frames: "frames_read (prims E) bk (encoded # concat fss) r out []"
    by (rule created_frames [OF assms(1,3,4)])
  from dec(2) obtain m\<^sub>1 where m\<^sub>1: "check_manifest m\<^sub>0 = Inr m\<^sub>1" by (auto simp: is_ok_iff)
  have "m\<^sub>0 = manifest_of defaults app_version (bd_now w) only fs d" using assms(2) enc(1) dec(1) by (simp add: codec_ok_def)
  with m\<^sub>1 have manifest: "nat (bm_entries_count m\<^sub>1) = length (backup_entry_ids only d)" "bm_settings m\<^sub>1 = get_settings defaults d"
    by (auto simp: check_manifest_def manifest_of_def result_simps)
  from frames enc(2) obtain mid where mid: "reader_read (prims E) bk MAX_MANIFEST_BYTES r out = Inr (encoded, skip_frames 1 r, mid)"
    "frames_read (prims E) bk (concat fss) (skip_frames 1 r) mid []" by auto
  have first: "read_manifest B (prims E) bk r out = Inr (m\<^sub>1, skip_frames 1 r, mid)"
    using mid(1) dec(1) m\<^sub>1 by (simp add: read_manifest_def)
  note rest = read_written_entries [OF assms(2) fss mid(2), folded manifest(1)]
  show "is_ok (upload_items B (prims E) password upload)"
    if "\<And>fs i. map_res (described_folder E key) (backup_folder_rows owner only d) = Inr fs \<Longrightarrow> i \<in> set (backup_entry_ids only d) \<Longrightarrow>
      entry_fits B E key (folder_uids E key owner only d fs) d i"
  proof -
    have "\<forall>i \<in> set (backup_entry_ids only d). entry_fits B E key (folder_uids E key owner only d fs) d i" using that fs by blast
    with rest obtain its r' rest' where its: "reads (read_item B (prims E) bk) (nat (bm_entries_count m\<^sub>1)) (skip_frames 1 r) mid
        = Inr (its, r', rest')" by (auto simp: is_ok_iff)
    with rest have "r' = skip_frames (length (concat fss)) (skip_frames 1 r)" "rest' = []" by blast+
    with its first opened count show ?thesis by (simp add: upload_items_def reader_finish_def)
  qed
  show "list_all2 (describes E key d) (backup_entry_ids only d) its \<and> bm_settings m = get_settings defaults d"
    if "upload_items B (prims E) password upload = Inr (m, its)"
    using that opened(1) first rest manifest(2) by (auto simp: upload_items_def result_simps)
qed

lemma db_ok_bound: "db_ok d \<Longrightarrow> attachments_bound d"
  unfolding db_ok_def fk_ok_def keys_ok_def attachments_bound_def by (fastforce simp: get_entry_def dest: row_of_Some)

lemma describes_stored:
  assumes "describes E key d i it" and "item_stored E T key' owner moved_at overwrites first d' it"
  obtains e e' doc n where "get_entry d i = Some e" and "open_entry E key e = Inr doc" and "first < e_id n" and "get_entry d' (e_id n) = Some e'"
    and "e' = n \<or> overwrites \<and> (\<exists>u. e' = moved_row moved_at u n)"
    and "e_owner_id n = owner" and "open_entry E key' n = Inr (restored_document T doc)"
    and "e_created n = e_created e" and "e_updated n = e_updated e" and "e_deleted n = e_deleted e"
    and "list_all2 (attachment_holds E key (e_uid e)) (attachment_rows d i) (zip (be_attachments (fst it)) (snd it))"
    and "list_all2 (attachment_holds E key' (e_uid n)) (entry_attachments d' (e_id n)) (zip (be_attachments (fst it)) (snd it))"
proof -
  from assms(1) obtain e where e: "get_entry d i = Some e" "open_entry E key e = Inr (be_document (fst it))"
      "e_created e = Good (be_created (fst it))" "e_updated e = Good (be_updated (fst it))"
      "e_deleted e = map_option Good (be_deleted (fst it))"
      "list_all2 (attachment_holds E key (e_uid e)) (attachment_rows d i) (zip (be_attachments (fst it)) (snd it))"
    unfolding describes_def by blast
  from assms(2) obtain n e' where n: "row_holds E T key' owner (fst it) n" "attachments_hold E key' d' n it" "first < e_id n"
      "get_entry d' (e_id n) = Some e'" "e' = n \<or> overwrites \<and> (\<exists>u. e' = moved_row moved_at u n)"
    unfolding item_stored_def by blast
  show thesis
    by (rule that [OF e(1,2) n(3-5) _ _ _ _ _ e(6)]) (use n(1,2) e(3-5) in \<open>simp_all add: row_holds_def attachments_hold_def\<close>)
qed

text \<open>Two rows hold the same attachment, each under its own key and entry.\<close>

definition same_attachment ::
    "env \<Rightarrow> vault_key \<Rightarrow> bytes cell \<Rightarrow> vault_key \<Rightarrow> bytes cell \<Rightarrow> attachment_row \<Rightarrow> attachment_row \<Rightarrow> bool" where
  "same_attachment E key uid key' uid' a a' \<longleftrightarrow>
     (\<exists>m content. open_attachment_metadata E key a uid = Inr m \<and> open_attachment_metadata E key' a' uid' = Inr m
        \<and> open_attachment_content E key a uid = Inr content \<and> open_attachment_content E key' a' uid' = Inr content
        \<and> at_created a' = at_created a)"

lemma held_attachment_same:
  "attachment_holds E key uid a x \<Longrightarrow> attachment_holds E key' uid' a' x \<Longrightarrow> same_attachment E key uid key' uid' a a'"
  by (cases x) (simp add: attachment_holds_def same_attachment_def)

lemma held_attachments_same:
  "list_all2 (attachment_holds E key uid) as ds \<Longrightarrow> list_all2 (attachment_holds E key' uid') as' ds \<Longrightarrow>
     list_all2 (same_attachment E key uid key' uid') as as'"
proof (induction as arbitrary: as' ds)
  case (Cons a as)
  from Cons.prems(1) obtain x xs where x: "ds = x # xs" "attachment_holds E key uid a x" "list_all2 (attachment_holds E key uid) as xs"
    unfolding list_all2_Cons1 by blast
  with Cons.prems(2) obtain b bs where b: "as' = b # bs" "attachment_holds E key' uid' b x" "list_all2 (attachment_holds E key' uid') bs xs"
    unfolding x(1) list_all2_Cons2 by blast
  from held_attachment_same [OF x(2) b(2)] Cons.IH [OF x(3) b(3)] b(1) show ?case by simp
qed simp

lemma sample_upload:
  obtains upload m its where "create_backup sample_codec sample_E sample_defaults [49] None None [97] sample_key False
      sample_backup_draw backed_up backed_up = Inr upload"
    and "upload_items sample_codec (prims sample_E) [97] upload = Inr (m, its)"
proof -
  obtain upload where created: "create_backup sample_codec sample_E sample_defaults [49] None None [97] sample_key False
      sample_backup_draw backed_up backed_up = Inr upload" using sample_created by blast
  from created_items(1) [OF sample_env_ok sample_codec_ok sample_backup_draw_ok created]
  have "is_ok (upload_items sample_codec (prims sample_E) [97] upload)" by (auto simp: sample_file_ids sample_entry_fits)
  with that created show thesis by (auto simp: is_ok_iff)
qed

section \<open>Properties\<close>

text \<open>
  A created backup reads back as the vault. Under its password the file holds the settings and,
  in order of their ids, exactly the entries it was made of: the document, creation, update and
  deletion times of each, and its attachments with name, type, time and content. The entries must
  fit the schema of the backup (Unicode text, dates in range, at most ten attachments).
\<close>

theorem created_backup_reads:
  assumes "env_ok E" and "codec_ok B" and "backup_draw_ok w"
    and "create_backup B E defaults app_version owner only password key verify_current w d\<^sub>0 d = Inr upload"
    and "\<And>fs i. map_res (described_folder E key) (backup_folder_rows owner only d) = Inr fs \<Longrightarrow> i \<in> set (backup_entry_ids only d) \<Longrightarrow>
      entry_fits B E key (zip (map f_id (backup_folder_rows owner only d)) (map bf_uid fs)) d i"
  shows "\<exists>m its. upload_items B (prims E) password upload = Inr (m, its) \<and> bm_settings m = get_settings defaults d
    \<and> list_all2 (describes E key d) (backup_entry_ids only d) its"
  using created_items [OF assms(1-4)] assms(5) by (fastforce simp: is_ok_iff)

theorem created_backup_reads_witness:
  "\<exists>upload m its. create_backup sample_codec sample_E sample_defaults [49] None None [97] sample_key False sample_backup_draw
      backed_up backed_up = Inr upload
     \<and> upload_items sample_codec (prims sample_E) [97] upload = Inr (m, its)
     \<and> list_all2 (describes sample_E sample_key backed_up) [4] its"
proof -
  obtain upload where created: "create_backup sample_codec sample_E sample_defaults [49] None None [97] sample_key False
      sample_backup_draw backed_up backed_up = Inr upload" using sample_created by blast
  from created_backup_reads [OF sample_env_ok sample_codec_ok sample_backup_draw_ok created] created show ?thesis
    by (auto simp: sample_file_ids sample_entry_fits)
qed

text \<open>
  C2: A restore brings back what was backed up, into any vault under any key. If it reports that
  nothing was skipped or overwritten, every entry of the backup is in the vault as a new entry of
  the restoring user: with its document (a two-factor secret in normal form), its three times, in
  the trash if it was there, and with all its attachments in order; the vault grew by as many
  entries as the backup has. An administrator's restore into an empty vault takes the settings too.
\<close>

theorem backup_restores_vault:
  assumes "env_ok E" and "codec_ok B" and "backup_draw_ok w" and "draws_ok w'" and "db_ok d\<^sub>1"
    and "create_backup B E defaults app_version owner only password key verify_current w d\<^sub>0 d = Inr upload"
    and "rq_result (import_backup T B E owner' admin upload password key' conflict token instants w' d\<^sub>1 vs) = Inr (result, d')"
    and "ir_skipped result = 0" and "ir_overwritten result = 0"
  shows "(\<forall>i \<in> set (backup_entry_ids only d). \<exists>e e' doc.
        get_entry d i = Some e \<and> open_entry E key e = Inr doc
        \<and> seq_entries d\<^sub>1 < e_id e' \<and> get_entry d' (e_id e') = Some e' \<and> e_owner_id e' = owner'
        \<and> open_entry E key' e' = Inr (restored_document T doc)
        \<and> e_created e' = e_created e \<and> e_updated e' = e_updated e \<and> e_deleted e' = e_deleted e
        \<and> list_all2 (same_attachment E key (e_uid e) key' (e_uid e')) (attachment_rows d i) (entry_attachments d' (e_id e')))
    \<and> length (entries d') = length (entries d\<^sub>1) + length (backup_entry_ids only d)
    \<and> (entries d\<^sub>1 = [] \<and> admin \<longrightarrow> settings d' = Some (get_settings defaults d))"
proof -
  have keys: "keys_ok d\<^sub>1" using assms(5) by (simp add: db_ok_def)
  from import_backup_done [OF assms(1,4) keys db_ok_bound [OF assms(5)] assms(7)] obtain m its where
    items: "upload_items B (prims E) password upload = Inr (m, its)" and
    restored: "restores_items E T key' owner' conflict (rw_moved_at w') its d\<^sub>1 result d'" and
    settings: "settings d' = (if entries d\<^sub>1 = [] \<and> admin then Some (bm_settings m) else settings d\<^sub>1)" by blast
  from created_items(2) [OF assms(1-3,6) items] have held: "list_all2 (describes E key d) (backup_entry_ids only d) its"
    and "bm_settings m = get_settings defaults d" by blast+
  note facts = restored [unfolded restores_items_def assms(8,9), simplified]
  have "\<exists>e e' doc. get_entry d i = Some e \<and> open_entry E key e = Inr doc
        \<and> seq_entries d\<^sub>1 < e_id e' \<and> get_entry d' (e_id e') = Some e' \<and> e_owner_id e' = owner'
        \<and> open_entry E key' e' = Inr (restored_document T doc)
        \<and> e_created e' = e_created e \<and> e_updated e' = e_updated e \<and> e_deleted e' = e_deleted e
        \<and> list_all2 (same_attachment E key (e_uid e) key' (e_uid e')) (attachment_rows d i) (entry_attachments d' (e_id e'))"
    if "i \<in> set (backup_entry_ids only d)" for i
  proof -
    from held that obtain it where it: "it \<in> set its" "describes E key d i it"
      by (metis in_set_conv_nth list_all2_conv_all_nth)
    with facts have stored: "item_stored E T key' owner' (rw_moved_at w') False (seq_entries d\<^sub>1) d' it" by blast
    show ?thesis
      by (rule describes_stored [OF it(2) stored]) (use held_attachments_same in blast)
  qed
  moreover have "length (entries d') = length (entries d\<^sub>1) + length (backup_entry_ids only d)"
    using facts list_all2_lengthD [OF held] by simp
  ultimately show ?thesis using settings \<open>bm_settings m = get_settings defaults d\<close> by simp
qed

theorem backup_restores_vault_witness:
  "\<exists>upload result d'. create_backup sample_codec sample_E sample_defaults [49] None None [97] sample_key False sample_backup_draw
      backed_up backed_up = Inr upload
     \<and> rq_result (import_backup ascii_ops sample_codec sample_E (Some 7) True upload [97] sample_key Skip None
         (sample_instant, sample_instant, sample_instant) sample_restore_draws emptied sample_store) = Inr (result, d')
     \<and> length (entries d') = 1 \<and> settings d' = Some sample_defaults"
proof -
  obtain upload m its where created: "create_backup sample_codec sample_E sample_defaults [49] None None [97] sample_key False
      sample_backup_draw backed_up backed_up = Inr upload"
    and "upload_items sample_codec (prims sample_E) [97] upload = Inr (m, its)" by (rule sample_upload)
  then obtain result d' where imported: "rq_result (import_backup ascii_ops sample_codec sample_E (Some 7) True upload [97] sample_key Skip None
      (sample_instant, sample_instant, sample_instant) sample_restore_draws emptied sample_store) = Inr (result, d')"
      "ir_skipped result = 0" "ir_overwritten result = 0" using sample_imported by fastforce
  from backup_restores_vault [OF sample_env_ok sample_codec_ok sample_backup_draw_ok sample_restore_draws_ok emptied_ok created imported]
  show ?thesis using created imported(1)
    by (auto simp: sample_file_ids get_settings_def stored_settings_def)
qed



text \<open>
  A damaged file changes nothing. A created backup that is cut short anywhere or has anything
  after its end is refused with an error, whatever the vault holds, and so is any file under a
  password other than its own, before the vault is even read.
\<close>

theorem damaged_restore_refused:
  assumes "env_ok E" and "codec_ok B" and "backup_draw_ok w" and "draws_ok w'" and "db_ok d\<^sub>1"
    and "create_backup B E defaults app_version owner only password key verify_current w d\<^sub>0 d = Inr (short @ extra)" and "extra \<noteq> []"
    and "\<And>fs i. map_res (described_folder E key) (backup_folder_rows owner only d) = Inr fs \<Longrightarrow> i \<in> set (backup_entry_ids only d) \<Longrightarrow>
      entry_fits B E key (zip (map f_id (backup_folder_rows owner only d)) (map bf_uid fs)) d i"
  shows "\<not> is_ok (rq_result (import_backup T B E owner' admin short password key' conflict token instants w' d\<^sub>1 vs))
    \<and> \<not> is_ok (rq_result (import_backup T B E owner' admin (short @ extra @ extra) password key' conflict token instants w' d\<^sub>1 vs))
    \<and> (BackupReader f = Inr (r, source) \<longrightarrow> backup_key_for (prims E) other (br_header r) = Inr bk \<longrightarrow>
        \<not> backup_key_matches bk (br_header r) \<longrightarrow>
        import_backup T B E owner' admin f other key' conflict token instants w' d\<^sub>1 vs = plain vs (Inl Forbidden))"
proof -
  have keys: "keys_ok d\<^sub>1" using assms(5) by (simp add: db_ok_def)
  have "is_ok (upload_items B (prims E) password (short @ extra))" using created_items(1) [OF assms(1-3,6)] assms(8) by blast
  with upload_items_exact assms(7) have bad: "\<not> is_ok (upload_items B (prims E) password short)"
      "\<not> is_ok (upload_items B (prims E) password (short @ extra @ extra))"
    by (auto simp: is_ok_iff)
  have "is_ok (upload_items B (prims E) password f)"
    if "is_ok (rq_result (import_backup T B E owner' admin f password key' conflict token instants w' d\<^sub>1 vs))" for f
    using that import_backup_done [OF assms(1,4) keys db_ok_bound [OF assms(5)]] unfolding is_ok_iff by (metis prod.collapse)
  with bad show ?thesis by (auto simp: import_backup_def open_upload_def ensure_def)
qed

theorem damaged_restore_refused_witness:
  "\<exists>upload. create_backup sample_codec sample_E sample_defaults [49] None None [97] sample_key False sample_backup_draw
      backed_up backed_up = Inr upload
     \<and> \<not> is_ok (rq_result (import_backup ascii_ops sample_codec sample_E (Some 7) True (butlast upload) [97] sample_key Skip None
         (sample_instant, sample_instant, sample_instant) sample_restore_draws emptied sample_store))"
proof -
  obtain upload m its where created: "create_backup sample_codec sample_E sample_defaults [49] None None [97] sample_key False
      sample_backup_draw backed_up backed_up = Inr upload"
    and items: "upload_items sample_codec (prims sample_E) [97] upload = Inr (m, its)" by (rule sample_upload)
  have "upload \<noteq> []" using items by (auto simp: upload_items_def open_upload_Inr BackupReader_Inr BACKUP_HEADER_BYTES_def result_simps)
  then have "upload = butlast upload @ [last upload]" by simp
  with created have split: "create_backup sample_codec sample_E sample_defaults [49] None None [97] sample_key False
      sample_backup_draw backed_up backed_up = Inr (butlast upload @ [last upload])" by simp
  have "\<not> is_ok (rq_result (import_backup ascii_ops sample_codec sample_E (Some 7) True (butlast upload) [97] sample_key Skip None
         (sample_instant, sample_instant, sample_instant) sample_restore_draws emptied sample_store))"
    using damaged_restore_refused [OF sample_env_ok sample_codec_ok sample_backup_draw_ok sample_restore_draws_ok emptied_ok split]
    by (auto simp: sample_file_ids sample_entry_fits)
  with created show ?thesis by blast
qed

end
