(* ===== verification/Files.thy ===== *)
theory Files
  imports Prelude "HOL-Library.Sublist"
begin

text \<open>
  Programs over files, for \<^verbatim>\<open>backend/storage.py\<close>. A file system maps paths (relative to the data
  folder, which is the empty path) to folders and files. A program is a function of the world: it
  gives the file systems it passes through, its result, and the world it ends in. A process that is
  killed leaves one of these file systems behind. Every change of a file may fail as the operating
  system likes: \<open>faults\<close> says which attempts do. Flushing to the disk changes no file here.
\<close>

datatype storage_error = StorageError | OSError | DatabaseError

type_synonym path = "string list"

datatype node = Folder | File bytes

type_synonym tree = "path \<Rightarrow> node option"

text \<open>\<open>locked\<close>: another process holds the lock of the data folder. \<open>attempts\<close> counts the changes tried.\<close>

record world =
  files :: tree
  faults :: "nat \<Rightarrow> bool"
  attempts :: nat
  locked :: bool

type_synonym 'a io = "world \<Rightarrow> tree list \<times> (storage_error + 'a) \<times> world"

definition give :: "'a \<Rightarrow> 'a io" where
  "give x w = ([], Inr x, w)"

definition fail :: "storage_error \<Rightarrow> 'a io" where
  "fail e w = ([], Inl e, w)"

definition thenDo :: "'a io \<Rightarrow> ('a \<Rightarrow> 'b io) \<Rightarrow> 'b io" where
  "thenDo m k w =
     (case m w of
        (t, Inl e, w') \<Rightarrow> (t, Inl e, w')
      | (t, Inr x, w') \<Rightarrow> (case k x w' of (t', r, w'') \<Rightarrow> (t @ t', r, w'')))"

abbreviation andDo :: "unit io \<Rightarrow> 'b io \<Rightarrow> 'b io" where
  "andDo m n \<equiv> thenDo m (\<lambda>_. n)"

text \<open>\<^verbatim>\<open>try: m except e: h(e)\<close>\<close>

definition rescue :: "(storage_error \<Rightarrow> 'a io) \<Rightarrow> 'a io \<Rightarrow> 'a io" where
  "rescue h m w =
     (case m w of
        (t, Inl e, w') \<Rightarrow> (case h e w' of (t', r, w'') \<Rightarrow> (t @ t', r, w''))
      | (t, Inr x, w') \<Rightarrow> (t, Inr x, w'))"

text \<open>\<^verbatim>\<open>except BaseException: cleanup; raise\<close>\<close>

definition undoing :: "unit io \<Rightarrow> 'a io \<Rightarrow> 'a io" where
  "undoing cleanup m = rescue (\<lambda>e. andDo cleanup (fail e)) m"

text \<open>\<^verbatim>\<open>except e: raise StorageError\<close> for the errors in \<open>es\<close>\<close>

definition reporting :: "storage_error set \<Rightarrow> 'a io \<Rightarrow> 'a io" where
  "reporting es m = rescue (\<lambda>e. fail (if e \<in> es then StorageError else e)) m"

definition onlyIf :: "bool \<Rightarrow> unit io \<Rightarrow> unit io" where
  "onlyIf c m = (if c then m else give ())"

definition insist :: "bool \<Rightarrow> unit io" where
  "insist c = (if c then give () else fail StorageError)"

definition looking :: "(tree \<Rightarrow> 'a io) \<Rightarrow> 'a io" where
  "looking f w = f (files w) w"

fun forAll :: "('a \<Rightarrow> unit io) \<Rightarrow> 'a list \<Rightarrow> unit io" where
  "forAll f [] = give ()"
| "forAll f (x # xs) = andDo (f x) (forAll f xs)"

section \<open>Changes\<close>

text \<open>One attempt to change files; \<open>None\<close> if the operating system refuses it.\<close>

definition act :: "(tree \<Rightarrow> tree option) \<Rightarrow> unit io" where
  "act f w =
     (let w' = w\<lparr>attempts := Suc (attempts w)\<rparr>
      in case (if faults w (attempts w) then None else f (files w)) of
           None \<Rightarrow> ([], Inl OSError, w')
         | Some t \<Rightarrow> ([t], Inr (), w'\<lparr>files := t\<rparr>))"

definition is_file :: "tree \<Rightarrow> path \<Rightarrow> bool" where
  "is_file t p = (case t p of Some (File b) \<Rightarrow> True | _ \<Rightarrow> False)"

definition contents :: "tree \<Rightarrow> path \<Rightarrow> bytes option" where
  "contents t p = (case t p of Some (File b) \<Rightarrow> Some b | _ \<Rightarrow> None)"

definition filled :: "tree \<Rightarrow> path \<Rightarrow> bool" where
  "filled t p = (case t p of Some (File b) \<Rightarrow> b \<noteq> [] | _ \<Rightarrow> False)"

definition in_folder :: "tree \<Rightarrow> path \<Rightarrow> bool" where
  "in_folder t p \<longleftrightarrow> t (butlast p) = Some Folder"

text \<open>\<^verbatim>\<open>mkdir(parents=..., exist_ok=...)\<close>\<close>

definition tree_mkdir :: "bool \<Rightarrow> bool \<Rightarrow> path \<Rightarrow> tree \<Rightarrow> tree option" where
  "tree_mkdir parents exist_ok p t =
     (if (t p \<noteq> None \<and> \<not> exist_ok) \<or> (\<not> parents \<and> \<not> in_folder t p) \<or> list_ex (is_file t) (prefixes p) then None
      else Some (\<lambda>q. if t q = None \<and> prefix q p then Some Folder else t q))"

text \<open>\<^verbatim>\<open>open(O_CREAT | O_EXCL)\<close>\<close>

definition tree_create :: "path \<Rightarrow> tree \<Rightarrow> tree option" where
  "tree_create p t = (if t p = None \<and> in_folder t p then Some (t(p \<mapsto> File [])) else None)"

definition tree_write :: "path \<Rightarrow> bytes \<Rightarrow> tree \<Rightarrow> tree option" where
  "tree_write p b t = (if t p = Some Folder \<or> \<not> in_folder t p then None else Some (t(p \<mapsto> File b)))"

text \<open>\<^verbatim>\<open>unlink(missing_ok=True)\<close>\<close>

definition tree_unlink :: "path \<Rightarrow> tree \<Rightarrow> tree option" where
  "tree_unlink p t = (if t p = Some Folder then None else Some (t(p := None)))"

text \<open>\<^verbatim>\<open>os.replace\<close>: a file, or a folder with what is in it, takes the place of a file or of nothing.\<close>

definition tree_replace :: "path \<Rightarrow> path \<Rightarrow> tree \<Rightarrow> tree option" where
  "tree_replace p q t =
     (if t p = None \<or> \<not> in_folder t q \<or> prefix p q \<or> prefix q p \<or> t q = Some Folder
         \<or> (t p = Some Folder \<and> t q \<noteq> None) then None
      else Some (\<lambda>r. if prefix q r then t (p @ drop (length q) r) else if prefix p r then None else t r))"

definition tree_rmtree :: "path \<Rightarrow> tree \<Rightarrow> tree option" where
  "tree_rmtree p t = Some (\<lambda>q. if prefix p q then None else t q)"

definition sync :: "path \<Rightarrow> unit io" where
  "sync p = act (\<lambda>t. if t p = None then None else Some t)"

text \<open>\<^verbatim>\<open>suppress(...)\<close>: errors are ignored.\<close>

definition quietly :: "unit io \<Rightarrow> unit io" where
  "quietly m = rescue (\<lambda>e. give ()) m"

text \<open>\<^verbatim>\<open>shutil.copyfile\<close>: the copy is created and then filled.\<close>

definition copy_file :: "path \<Rightarrow> path \<Rightarrow> unit io" where
  "copy_file p q =
     andDo (act (\<lambda>t. if is_file t p then tree_write q [] t else None))
       (act (\<lambda>t. case contents t p of None \<Rightarrow> None | Some b \<Rightarrow> tree_write q b t))"

section \<open>Triples\<close>

text \<open>
  From a world with \<open>P\<close> the program passes only through file systems with \<open>I\<close> and ends with \<open>Q\<close> or, after
  an error, with \<open>R\<close>.
\<close>

definition leads ::
    "(tree \<Rightarrow> bool) \<Rightarrow> (world \<Rightarrow> bool) \<Rightarrow> 'a io \<Rightarrow> ('a \<Rightarrow> world \<Rightarrow> bool) \<Rightarrow> (storage_error \<Rightarrow> world \<Rightarrow> bool) \<Rightarrow> bool" where
  "leads I P m Q R \<longleftrightarrow>
     (\<forall>w t r w'. P w \<longrightarrow> m w = (t, r, w') \<longrightarrow>
        (\<forall>u \<in> set t. I u) \<and> (case r of Inl e \<Rightarrow> R e w' | Inr x \<Rightarrow> Q x w'))"

lemma leads_give: "(\<And>w. P w \<Longrightarrow> Q x w) \<Longrightarrow> leads I P (give x) Q R"
  by (auto simp: leads_def give_def)

lemma leads_fail: "(\<And>w. P w \<Longrightarrow> R e w) \<Longrightarrow> leads I P (fail e) Q R"
  by (auto simp: leads_def fail_def)

lemma leadsD:
  "leads I P m Q R \<Longrightarrow> P w \<Longrightarrow> m w = (t, r, w') \<Longrightarrow> (\<forall>u \<in> set t. I u) \<and> (case r of Inl e \<Rightarrow> R e w' | Inr x \<Rightarrow> Q x w')"
  unfolding leads_def by blast

lemma leads_thenDo:
  assumes "leads I P m M R" and "\<And>x. leads I (M x) (k x) Q R"
  shows "leads I P (thenDo m k) Q R"
  unfolding leads_def
proof (intro allI impI)
  fix w t r w'
  assume P: "P w" and run: "thenDo m k w = (t, r, w')"
  obtain t\<^sub>1 r\<^sub>1 w\<^sub>1 where one: "m w = (t\<^sub>1, r\<^sub>1, w\<^sub>1)" by (cases "m w")
  note first = leadsD [OF assms(1) P one]
  show "(\<forall>u \<in> set t. I u) \<and> (case r of Inl e \<Rightarrow> R e w' | Inr x \<Rightarrow> Q x w')"
  proof (cases r\<^sub>1)
    case (Inl e)
    with run one first show ?thesis by (auto simp: thenDo_def)
  next
    case (Inr x)
    obtain t\<^sub>2 r\<^sub>2 w\<^sub>2 where two: "k x w\<^sub>1 = (t\<^sub>2, r\<^sub>2, w\<^sub>2)" by (cases "k x w\<^sub>1")
    from first Inr have "M x w\<^sub>1" by simp
    from leadsD [OF assms(2) this two] first run one two Inr show ?thesis by (auto simp: thenDo_def)
  qed
qed

lemma leads_rescue:
  assumes "leads I P m Q M" and "\<And>e. leads I (M e) (h e) Q R"
  shows "leads I P (rescue h m) Q R"
  unfolding leads_def
proof (intro allI impI)
  fix w t r w'
  assume P: "P w" and run: "rescue h m w = (t, r, w')"
  obtain t\<^sub>1 r\<^sub>1 w\<^sub>1 where one: "m w = (t\<^sub>1, r\<^sub>1, w\<^sub>1)" by (cases "m w")
  note first = leadsD [OF assms(1) P one]
  show "(\<forall>u \<in> set t. I u) \<and> (case r of Inl e \<Rightarrow> R e w' | Inr x \<Rightarrow> Q x w')"
  proof (cases r\<^sub>1)
    case (Inr x)
    with run one first show ?thesis by (auto simp: rescue_def)
  next
    case (Inl e)
    obtain t\<^sub>2 r\<^sub>2 w\<^sub>2 where two: "h e w\<^sub>1 = (t\<^sub>2, r\<^sub>2, w\<^sub>2)" by (cases "h e w\<^sub>1")
    from first Inl have "M e w\<^sub>1" by simp
    from leadsD [OF assms(2) this two] first run one two Inl show ?thesis by (auto simp: rescue_def)
  qed
qed

lemma leads_weaken:
  assumes "leads I P m Q R" and "\<And>w. P' w \<Longrightarrow> P w" and "\<And>x w. Q x w \<Longrightarrow> Q' x w" and "\<And>e w. R e w \<Longrightarrow> R' e w"
  shows "leads I P' m Q' R'"
  unfolding leads_def
proof (intro allI impI)
  fix w t r w'
  assume "P' w" and run: "m w = (t, r, w')"
  from leadsD [OF assms(1) assms(2) [OF this(1)] run] assms(3,4)
  show "(\<forall>u \<in> set t. I u) \<and> (case r of Inl e \<Rightarrow> R' e w' | Inr x \<Rightarrow> Q' x w')" by (cases r) auto
qed

lemma leads_looking: "(\<And>t. leads I (\<lambda>w. P w \<and> files w = t) (f t) Q R) \<Longrightarrow> leads I P (looking f) Q R"
  unfolding leads_def looking_def by blast

lemma leads_act:
  assumes "\<And>w t. P w \<Longrightarrow> f (files w) = Some t \<Longrightarrow> I t \<and> Q () (w\<lparr>attempts := Suc (attempts w), files := t\<rparr>)"
    and "\<And>w. P w \<Longrightarrow> R OSError (w\<lparr>attempts := Suc (attempts w)\<rparr>)"
  shows "leads I P (act f) Q R"
  unfolding leads_def act_def using assms by (auto simp: Let_def split: option.splits if_splits)

lemma leads_forAll:
  assumes "\<And>x. x \<in> set xs \<Longrightarrow> leads I P (f x) (\<lambda>_. P) R"
  shows "leads I P (forAll f xs) (\<lambda>_. P) R"
  using assms by (induction xs) (auto intro: leads_give leads_thenDo)

lemma leads_onlyIf: "(c \<Longrightarrow> leads I P m (\<lambda>_. Q) R) \<Longrightarrow> (\<And>w. \<not> c \<Longrightarrow> P w \<Longrightarrow> Q w) \<Longrightarrow> leads I P (onlyIf c m) (\<lambda>_. Q) R"
  by (auto simp: onlyIf_def intro: leads_give)

lemma leads_insist: "(\<And>w. c \<Longrightarrow> P w \<Longrightarrow> Q () w) \<Longrightarrow> (\<And>w. \<not> c \<Longrightarrow> P w \<Longrightarrow> R StorageError w) \<Longrightarrow> leads I P (insist c) Q R"
  by (auto simp: insist_def intro: leads_give leads_fail)

text \<open>What depends on the files only: a change keeps it, whatever the attempt.\<close>

abbreviation only :: "(tree \<Rightarrow> bool) \<Rightarrow> world \<Rightarrow> bool" where
  "only I w \<equiv> I (files w)"

definition keeps :: "(tree \<Rightarrow> bool) \<Rightarrow> 'a io \<Rightarrow> bool" where
  "keeps I m \<longleftrightarrow> leads I (only I) m (\<lambda>_. only I) (\<lambda>_. only I)"

named_theorems keeping

lemma keeps_give [keeping]: "keeps I (give x)"
  by (auto simp: keeps_def intro: leads_give)

lemma keeps_fail [keeping]: "keeps I (fail e)"
  by (auto simp: keeps_def intro: leads_fail)

lemma keeps_thenDo [keeping]: "keeps I m \<Longrightarrow> (\<And>x. keeps I (k x)) \<Longrightarrow> keeps I (thenDo m k)"
  unfolding keeps_def by (rule leads_thenDo)

lemma keeps_rescue [keeping]: "keeps I m \<Longrightarrow> (\<And>e. keeps I (h e)) \<Longrightarrow> keeps I (rescue h m)"
  unfolding keeps_def by (rule leads_rescue)

lemma keeps_undoing [keeping]: "keeps I m \<Longrightarrow> keeps I c \<Longrightarrow> keeps I (undoing c m)"
  by (simp add: undoing_def keeping)

lemma keeps_reporting [keeping]: "keeps I m \<Longrightarrow> keeps I (reporting es m)"
  by (simp add: reporting_def keeping)

lemma keeps_if [keeping]: "(c \<Longrightarrow> keeps I m) \<Longrightarrow> (\<not> c \<Longrightarrow> keeps I n) \<Longrightarrow> keeps I (if c then m else n)"
  by simp

lemma keeps_onlyIf [keeping]: "(c \<Longrightarrow> keeps I m) \<Longrightarrow> keeps I (onlyIf c m)"
  by (simp add: onlyIf_def keeping)

lemma keeps_insist [keeping]: "keeps I (insist c)"
  by (simp add: insist_def keeping)

lemma keeps_quietly [keeping]: "keeps I m \<Longrightarrow> keeps I (quietly m)"
  by (simp add: quietly_def keeping)

lemma keeps_looking: "(\<And>t. I t \<Longrightarrow> leads I (\<lambda>w. files w = t) (f t) (\<lambda>_. only I) (\<lambda>_. only I)) \<Longrightarrow> keeps I (looking f)"
  unfolding keeps_def leads_def looking_def by blast

lemma keeps_looking_any [keeping]: "(\<And>t. keeps I (f t)) \<Longrightarrow> keeps I (looking f)"
  unfolding keeps_def leads_def looking_def by blast

lemma keeps_act: "(\<And>t t'. I t \<Longrightarrow> f t = Some t' \<Longrightarrow> I t') \<Longrightarrow> keeps I (act f)"
  unfolding keeps_def by (rule leads_act) auto

lemma keeps_sync [keeping]: "keeps I (sync p)"
  unfolding sync_def by (rule keeps_act) (auto split: if_splits)

lemma keeps_forAll [keeping]: "(\<And>x. x \<in> set xs \<Longrightarrow> keeps I (f x)) \<Longrightarrow> keeps I (forAll f xs)"
  by (induction xs) (auto simp: keeping)

lemma keeps_leads: "keeps I m \<Longrightarrow> (\<And>w. P w \<Longrightarrow> I (files w)) \<Longrightarrow> leads I P m (\<lambda>_. only I) (\<lambda>_. only I)"
  unfolding keeps_def by (erule leads_weaken) auto

lemma leads_insist_then:
  "(c \<Longrightarrow> leads I P m Q R) \<Longrightarrow> (\<And>w. \<not> c \<Longrightarrow> P w \<Longrightarrow> R StorageError w) \<Longrightarrow> leads I P (andDo (insist c) m) Q R"
  by (cases c) (auto simp: leads_def insist_def thenDo_def give_def fail_def)

text \<open>One stage of a program: it keeps \<open>I\<close>, which implies the invariant of the whole.\<close>

lemma stage:
  assumes "keeps I m" and "\<And>t. I t \<Longrightarrow> J t"
  shows "leads J (only I) m (\<lambda>_. only I) (\<lambda>_. only J)"
  unfolding leads_def
proof (intro allI impI)
  fix w t r w' assume "I (files w)" "m w = (t, r, w')"
  from leadsD [OF assms(1) [unfolded keeps_def] this] assms(2)
  show "(\<forall>u \<in> set t. J u) \<and> (case r of Inl e \<Rightarrow> J (files w') | Inr x \<Rightarrow> I (files w'))" by (cases r) auto
qed

lemma then_stage:
  assumes "keeps I m" and "\<And>t. I t \<Longrightarrow> J t" and "\<And>x. leads J (only I) (k x) Q (\<lambda>_. only J)"
  shows "leads J (only I) (thenDo m k) Q (\<lambda>_. only J)"
  by (rule leads_thenDo [OF stage [OF assms(1,2)] assms(3)])

lemma leads_looking_any: "(\<And>t. leads I P (f t) Q R) \<Longrightarrow> leads I P (looking f) Q R"
  unfolding leads_def looking_def by blast

lemma leads_if: "(c \<Longrightarrow> leads I P m Q R) \<Longrightarrow> (\<not> c \<Longrightarrow> leads I P n Q R) \<Longrightarrow> leads I P (if c then m else n) Q R"
  by simp

lemma last_stage:
  assumes "keeps I m" and "\<And>t. I t \<Longrightarrow> J t"
  shows "leads J (only I) m (\<lambda>_. only J) (\<lambda>_. only J)"
  by (rule leads_weaken [OF stage [OF assms]]) (use assms(2) in auto)

lemma leads_reporting: "leads I P m Q (\<lambda>_. only J) \<Longrightarrow> leads I P (reporting es m) Q (\<lambda>_. only J)"
  unfolding reporting_def by (erule leads_rescue) (auto intro: leads_fail)

end
