(* ===== verification/Storage.thy ===== *)
theory Storage
  imports Files
begin

text \<open>
  The vault file on disk (\<^verbatim>\<open>backend/storage.py\<close>): identity and format checks, start-up checks, snapshots,
  schema migrations, restoring a snapshot and setting a vault aside. SQLite is a parameter: what it
  reads from a database file with its write-ahead log and journals, what its online backup writes,
  what taking and folding a database does to the files. Error messages are left out, file modes
  are, and \<^verbatim>\<open>fsync\<close> may fail but changes nothing. Names with a time stamp get it as an argument.
\<close>

section \<open>SQLite\<close>

text \<open>What \<^verbatim>\<open>PRAGMA\<close>s and queries find in a readable file; a format marker that is no integer is \<open>None\<close>.\<close>

record view =
  vw_application_id :: int
  vw_user_version :: int
  vw_objects :: nat
  vw_formats :: "int option list"
  vw_quick_ok :: bool
  vw_intact :: bool
  vw_references_ok :: bool

record db_files =
  df_main :: bytes
  df_wal :: "bytes option"
  df_shm :: "bytes option"
  df_journal :: "bytes option"

datatype taken = Taken | Unreadable | Refused

text \<open>
  \<open>sq_view\<close> is \<open>None\<close> if SQLite raises \<^verbatim>\<open>DatabaseError\<close>; \<open>sq_copy wal\<close> is the file that \<^verbatim>\<open>Connection.backup\<close> and
  \<^verbatim>\<open>PRAGMA journal_mode\<close> leave; \<open>sq_fold\<close> is a truncating checkpoint; the last three are transactions.
\<close>

record sqlite =
  sq_version :: "nat \<times> nat \<times> nat"
  sq_view :: "db_files \<Rightarrow> view option"
  sq_copy :: "bool \<Rightarrow> db_files \<Rightarrow> bytes"
  sq_take :: "db_files \<Rightarrow> taken \<times> db_files"
  sq_fold :: "db_files \<Rightarrow> db_files"
  sq_reset_settings :: "db_files \<Rightarrow> db_files option"
  sq_migrate_users :: "db_files \<Rightarrow> db_files option"
  sq_migrate_folders :: "db_files \<Rightarrow> db_files option"

abbreviation lone_file :: "bytes \<Rightarrow> db_files" where
  "lone_file b \<equiv> \<lparr>df_main = b, df_wal = None, df_shm = None, df_journal = None\<rparr>"

text \<open>A backup reads as its source does; taking a database with checkpoints off leaves its data alone.\<close>

definition sqlite_ok :: "sqlite \<Rightarrow> bool" where
  "sqlite_ok Q \<longleftrightarrow>
     (\<forall>wal f v. sq_view Q f = Some v \<longrightarrow> sq_view Q (lone_file (sq_copy Q wal f)) = Some v \<and> sq_copy Q wal f \<noteq> [])
     \<and> (\<forall>f. df_main (snd (sq_take Q f)) = df_main f \<and> df_wal (snd (sq_take Q f)) = df_wal f)"

section \<open>What file this is\<close>

definition MIN_SQLITE_VERSION :: "nat \<times> nat \<times> nat" where "MIN_SQLITE_VERSION = (3, 51, 3)"
definition APPLICATION_ID :: int where "APPLICATION_ID = 0x434D5448"
definition SCHEMA_VERSION :: int where "SCHEMA_VERSION = 4"
definition MULTIUSER_SCHEMA_VERSION :: int where "MULTIUSER_SCHEMA_VERSION = 3"
definition PREVIOUS_SCHEMA_VERSION :: int where "PREVIOUS_SCHEMA_VERSION = 2"
definition FORMAT_1_SCHEMA :: int where "FORMAT_1_SCHEMA = 1"
definition VAULT_FORMAT :: int where "VAULT_FORMAT = 2"

datatype file_problem =
    NotAVault | Format1Vault | NeedsUsers | NeedsFolders | NewerSchema | UnsupportedSchema
  | SeveralKeyRows | InvalidMarker | NewerFormat | UnsupportedFormat

definition identity_problem :: "int \<Rightarrow> int \<Rightarrow> file_problem option" where
  "identity_problem application_id user_version =
     (if application_id \<noteq> APPLICATION_ID then Some NotAVault
      else if user_version = FORMAT_1_SCHEMA then Some Format1Vault
      else if user_version = PREVIOUS_SCHEMA_VERSION then Some NeedsUsers
      else if user_version = MULTIUSER_SCHEMA_VERSION then Some NeedsFolders
      else if SCHEMA_VERSION < user_version then Some NewerSchema
      else if user_version \<noteq> SCHEMA_VERSION then Some UnsupportedSchema
      else None)"

definition format_problem :: "int option list \<Rightarrow> file_problem option" where
  "format_problem formats =
     (if 1 < length formats then Some SeveralKeyRows
      else case formats of
        [] \<Rightarrow> None
      | f # _ \<Rightarrow> (case f of
            None \<Rightarrow> Some InvalidMarker
          | Some n \<Rightarrow> if n \<noteq> VAULT_FORMAT then (if VAULT_FORMAT < n then Some NewerFormat else Some UnsupportedFormat)
                     else None))"

definition view_problem :: "view \<Rightarrow> file_problem option" where
  "view_problem v =
     (case identity_problem (vw_application_id v) (vw_user_version v) of
        Some problem \<Rightarrow> Some problem
      | None \<Rightarrow> format_problem (vw_formats v))"

definition blank_view :: "view \<Rightarrow> bool" where
  "blank_view v \<longleftrightarrow> vw_application_id v = 0 \<and> vw_user_version v = 0 \<and> vw_objects v = 0"

datatype schema_action = CreateSchema | KeepSchema

definition ensure_schema :: "view \<Rightarrow> storage_error + schema_action" where
  "ensure_schema v =
     (if blank_view v then Inr CreateSchema
      else andThen (ensure (view_problem v = None) StorageError) (\<lambda>_. Inr KeepSchema))"

text \<open>\<^verbatim>\<open>check_connection\<close>: is there any problem?\<close>

definition check_connection :: "view \<Rightarrow> bool" where
  "check_connection v \<longleftrightarrow> \<not> vw_intact v \<or> \<not> vw_references_ok v \<or> view_problem v \<noteq> None"

section \<open>Files of a vault\<close>

definition vault_file :: path where "vault_file = [''vault.db'']"
definition lock_file :: path where "lock_file = [''vault.lock'']"
definition snapshot_dir :: path where "snapshot_dir = [''snapshots'']"
definition pending_dir :: path where "pending_dir = [''snapshots'', ''set-aside-in-progress'']"

text \<open>\<^verbatim>\<open>path.with_name(path.name + suffix)\<close>\<close>

definition named :: "path \<Rightarrow> string \<Rightarrow> path" where
  "named p ending = butlast p @ [last p @ ending]"

definition sidecars :: "string list" where
  "sidecars = [''-wal'', ''-shm'', ''-journal'']"

definition staged_file :: path where "staged_file = named vault_file ''.restoring''"

definition db_at :: "tree \<Rightarrow> path \<Rightarrow> db_files" where
  "db_at t p =
     \<lparr>df_main = (case contents t p of None \<Rightarrow> [] | Some b \<Rightarrow> b), df_wal = contents t (named p ''-wal''),
      df_shm = contents t (named p ''-shm''), df_journal = contents t (named p ''-journal'')\<rparr>"

text \<open>What SQLite leaves of the files of a database; a transaction is atomic.\<close>

definition write_db :: "path \<Rightarrow> db_files \<Rightarrow> tree \<Rightarrow> tree option" where
  "write_db p f t =
     Some (t(p \<mapsto> File (df_main f), named p ''-wal'' := map_option File (df_wal f),
             named p ''-shm'' := map_option File (df_shm f), named p ''-journal'' := map_option File (df_journal f)))"

fun version_le :: "nat \<times> nat \<times> nat \<Rightarrow> nat \<times> nat \<times> nat \<Rightarrow> bool" where
  "version_le (a, b, c) (a', b', c') \<longleftrightarrow> a < a' \<or> a = a' \<and> (b < b' \<or> b = b' \<and> c \<le> c')"

definition require_supported_sqlite :: "sqlite \<Rightarrow> unit io" where
  "require_supported_sqlite Q = insist (version_le MIN_SQLITE_VERSION (sq_version Q))"

definition connect_existing :: "path \<Rightarrow> unit io" where
  "connect_existing p = looking (\<lambda>t. insist (is_file t p))"

definition read_view :: "sqlite \<Rightarrow> path \<Rightarrow> view io" where
  "read_view Q p = looking (\<lambda>t. case sq_view Q (db_at t p) of None \<Rightarrow> fail DatabaseError | Some v \<Rightarrow> give v)"

definition check_file :: "sqlite \<Rightarrow> path \<Rightarrow> bool io" where
  "check_file Q p =
     andDo (require_supported_sqlite Q)
       (rescue (\<lambda>e. if e = DatabaseError then give True else fail e)
         (andDo (connect_existing p) (thenDo (read_view Q p) (\<lambda>v. give (check_connection v)))))"

text \<open>\<^verbatim>\<open>_discard\<close>\<close>

definition discard :: "path \<Rightarrow> unit io" where
  "discard p = forAll (\<lambda>s. act (tree_unlink (named p s))) ([] # sidecars)"

text \<open>\<^verbatim>\<open>src.backup(dst)\<close> into an existing file\<close>

definition backup_into :: "sqlite \<Rightarrow> bool \<Rightarrow> path \<Rightarrow> path \<Rightarrow> unit io" where
  "backup_into Q wal source p =
     looking (\<lambda>t. case sq_view Q (db_at t source) of
         None \<Rightarrow> fail DatabaseError
       | Some v \<Rightarrow> act (tree_write p (sq_copy Q wal (db_at t source))))"

text \<open>\<^verbatim>\<open>_copy\<close>\<close>

definition copy_vault :: "sqlite \<Rightarrow> path \<Rightarrow> path \<Rightarrow> bool \<Rightarrow> unit io" where
  "copy_vault Q source destination wal =
     (let partial = named destination ''.partial''
      in andDo (discard partial)
        (andDo (act (tree_create partial))
        (undoing (discard partial)
          (andDo (connect_existing source)
          (andDo (backup_into Q wal source partial)
          (thenDo (read_view Q partial) (\<lambda>v.
           andDo (insist (\<not> check_connection v))
          (andDo (sync partial)
          (andDo (act (tree_replace partial destination)) (sync (butlast destination)))))))))))"

section \<open>Starting\<close>

definition refuse_pending_set_aside :: "unit io" where
  "refuse_pending_set_aside = looking (\<lambda>t. insist (t pending_dir = None))"

definition refuse_orphaned_journals :: "path \<Rightarrow> unit io" where
  "refuse_orphaned_journals p =
     looking (\<lambda>t. insist (filled t p \<or> \<not> filled t (named p ''-wal'') \<and> \<not> filled t (named p ''-journal'')))"

definition refuse_unusable_file :: "sqlite \<Rightarrow> path \<Rightarrow> unit io" where
  "refuse_unusable_file Q p =
     looking (\<lambda>t. if \<not> filled t p then give ()
       else thenDo (reporting {DatabaseError}
           (andDo (connect_existing p) (thenDo (read_view Q p) (\<lambda>v.
            if blank_view v then give True
            else andDo (insist (view_problem v = None)) (give (vw_quick_ok v))))))
         (\<lambda>sound. insist sound))"

text \<open>\<open>writable\<close>: what \<^verbatim>\<open>os.access\<close> says of the folder and the vault file.\<close>

definition prepare_data_dir :: "sqlite \<Rightarrow> bool \<Rightarrow> path io" where
  "prepare_data_dir Q writable =
     andDo (reporting {OSError} (act (tree_mkdir True True [])))
    (andDo refuse_pending_set_aside
    (andDo (refuse_orphaned_journals vault_file)
    (andDo (refuse_unusable_file Q vault_file)
    (andDo (reporting {OSError}
       (andDo (looking (\<lambda>t. if t vault_file \<noteq> None then give () else act (tree_create vault_file)))
         (if writable then give () else fail OSError)))
     (give vault_file)))))"

section \<open>The lock of the data folder\<close>

definition open_lock :: "tree \<Rightarrow> tree option" where
  "open_lock t =
     (if t lock_file = Some Folder \<or> \<not> in_folder t lock_file then None
      else Some (if t lock_file = None then t(lock_file \<mapsto> File []) else t))"

definition acquire_lock :: "unit io" where
  "acquire_lock =
     andDo (reporting {OSError} (andDo (act (tree_mkdir True True [])) (act open_lock)))
       (\<lambda>w. insist (\<not> locked w) w)"

definition with_lock :: "'a io \<Rightarrow> 'a io" where
  "with_lock m = andDo acquire_lock m"

section \<open>Snapshots and migrations\<close>

text \<open>\<^verbatim>\<open>timestamped\<close>, with the text of the time\<close>

definition timestamped :: "string \<Rightarrow> string \<Rightarrow> string" where
  "timestamped kind time_text = kind @ ''-'' @ time_text @ ''.db''"

definition snapshot :: "sqlite \<Rightarrow> string \<Rightarrow> path option \<Rightarrow> path io" where
  "snapshot Q time_text destination =
     andDo (require_supported_sqlite Q)
    (andDo (reporting {OSError} (act (tree_mkdir True True snapshot_dir)))
    (let destination = (case destination of None \<Rightarrow> snapshot_dir @ [timestamped ''vault'' time_text] | Some p \<Rightarrow> p)
     in andDo (insist (\<not> (butlast destination = [] \<and> prefix ''vault.db'' (last destination))))
       (andDo (looking (\<lambda>t. insist (t destination = None)))
       (andDo (reporting {DatabaseError, OSError} (copy_vault Q vault_file destination False))
        (give destination)))))"

text \<open>A transaction on a writable connection; \<open>None\<close> is rolled back.\<close>

definition transact :: "(db_files \<Rightarrow> db_files option) \<Rightarrow> path \<Rightarrow> unit io" where
  "transact f p =
     andDo (connect_existing p)
       (looking (\<lambda>t. case f (db_at t p) of None \<Rightarrow> fail DatabaseError | Some d \<Rightarrow> act (write_db p d)))"

definition reset_settings :: "sqlite \<Rightarrow> string \<Rightarrow> path io" where
  "reset_settings Q time_text =
     andDo (require_supported_sqlite Q)
       (with_lock (thenDo (snapshot Q time_text None) (\<lambda>saved.
          andDo (reporting {DatabaseError} (transact (sq_reset_settings Q) vault_file)) (give saved))))"

text \<open>What \<^verbatim>\<open>migrate_users\<close> and \<^verbatim>\<open>migrate_folders\<close> have in common.\<close>

definition migrate :: "sqlite \<Rightarrow> string \<Rightarrow> string \<Rightarrow> int \<Rightarrow> (db_files \<Rightarrow> db_files option) \<Rightarrow> path io" where
  "migrate Q kind time_text expected change =
     (let saved = snapshot_dir @ [timestamped kind time_text]
      in andDo (require_supported_sqlite Q)
        (andDo (act (tree_mkdir True True snapshot_dir))
        (andDo (with_lock (reporting {DatabaseError}
           (andDo (connect_existing vault_file)
           (thenDo (read_view Q vault_file) (\<lambda>v.
            andDo (insist (vw_application_id v = APPLICATION_ID \<and> vw_user_version v = expected))
           (andDo (insist (vw_intact v \<and> vw_references_ok v \<and> format_problem (vw_formats v) = None))
           (andDo (looking (\<lambda>t. insist (t saved = None)))
           (andDo (act (tree_create saved))
           (andDo (undoing (discard saved) (backup_into Q False vault_file saved))
           (andDo (sync saved)
           (andDo (sync snapshot_dir)
            (transact change vault_file))))))))))))
        (thenDo (check_file Q vault_file) (\<lambda>problems. andDo (insist (\<not> problems)) (give saved))))))"

definition migrate_users :: "sqlite \<Rightarrow> string \<Rightarrow> path io" where
  "migrate_users Q time_text = migrate Q ''pre-users'' time_text PREVIOUS_SCHEMA_VERSION (sq_migrate_users Q)"

definition migrate_folders :: "sqlite \<Rightarrow> string \<Rightarrow> path io" where
  "migrate_folders Q time_text = migrate Q ''pre-folders'' time_text MULTIUSER_SCHEMA_VERSION (sq_migrate_folders Q)"

definition migrate_users_if_needed :: "sqlite \<Rightarrow> string \<Rightarrow> path option io" where
  "migrate_users_if_needed Q time_text =
     looking (\<lambda>t. if \<not> filled t vault_file then give None
       else thenDo (rescue (\<lambda>e. if e = DatabaseError then give None else fail e)
           (andDo (connect_existing vault_file) (thenDo (read_view Q vault_file) (\<lambda>v. give (Some v)))))
         (\<lambda>found. case found of
            None \<Rightarrow> give None
          | Some v \<Rightarrow>
              if vw_application_id v \<noteq> APPLICATION_ID then give None
              else if vw_user_version v = PREVIOUS_SCHEMA_VERSION then thenDo (migrate_users Q time_text) (\<lambda>p. give (Some p))
              else if vw_user_version v = MULTIUSER_SCHEMA_VERSION then thenDo (migrate_folders Q time_text) (\<lambda>p. give (Some p))
              else give None))"

section \<open>Restoring a snapshot\<close>

text \<open>\<^verbatim>\<open>_take_exclusively\<close>: whether there is a connection.\<close>

definition take_exclusively :: "sqlite \<Rightarrow> path \<Rightarrow> bool io" where
  "take_exclusively Q live =
     andDo (connect_existing live)
       (looking (\<lambda>t. case sq_take Q (db_at t live) of (outcome, d) \<Rightarrow>
          andDo (act (write_db live d))
            (case outcome of Taken \<Rightarrow> give True | Unreadable \<Rightarrow> give False | Refused \<Rightarrow> fail StorageError)))"

definition keep_raw :: "path \<Rightarrow> path \<Rightarrow> unit io" where
  "keep_raw live kept =
     andDo (forAll (\<lambda>s. looking (\<lambda>t.
         let source = named live s; copied = kept @ [last source]
         in onlyIf (t source \<noteq> None) (andDo (copy_file source copied) (sync copied)))) [[], ''-wal''])
    (andDo (sync kept) (sync (butlast kept)))"

definition move_sidecars :: "path \<Rightarrow> path \<Rightarrow> unit io" where
  "move_sidecars live kept =
     andDo (forAll (\<lambda>s. looking (\<lambda>t.
         let sidecar = named live s
         in onlyIf (t sidecar \<noteq> None) (act (tree_replace sidecar (kept @ [last sidecar @ ''.unfolded'']))))) sidecars)
    (andDo (sync kept) (sync (butlast live)))"

definition fold_wal :: "sqlite \<Rightarrow> path \<Rightarrow> unit io" where
  "fold_wal Q live = quietly (looking (\<lambda>t. act (write_db live (sq_fold Q (db_at t live)))))"

definition kept_name :: "string \<Rightarrow> string \<Rightarrow> string" where
  "kept_name kind time_text = kind @ ''-'' @ time_text"

text \<open>\<^verbatim>\<open>_retire\<close>\<close>

definition retire :: "sqlite \<Rightarrow> string \<Rightarrow> path \<Rightarrow> path option io" where
  "retire Q time_text live =
     looking (\<lambda>t.
       let has_vault = filled t live; kept = snapshot_dir @ [kept_name ''replaced'' time_text]
       in if \<not> has_vault \<and> list_all (\<lambda>s. t (named live s) = None) sidecars then give None
          else thenDo (if has_vault then take_exclusively Q live else give False) (\<lambda>connected.
            andDo (act (tree_mkdir False False kept))
           (andDo (undoing (quietly (act (tree_rmtree kept))) (onlyIf has_vault (keep_raw live kept)))
           (andDo (onlyIf connected (fold_wal Q live))
           (andDo (move_sidecars live kept)
            (give (Some kept)))))))"

definition restore_snapshot :: "sqlite \<Rightarrow> string \<Rightarrow> path \<Rightarrow> path option io" where
  "restore_snapshot Q time_text source =
     thenDo (check_file Q source) (\<lambda>problems.
     andDo (insist (\<not> problems))
       (rescue (\<lambda>e. if e = DatabaseError then fail e else andDo (discard staged_file) (fail StorageError))
         (with_lock
           (andDo refuse_pending_set_aside
           (andDo (act (tree_mkdir True True snapshot_dir))
           (andDo (reporting {DatabaseError} (copy_vault Q source staged_file True))
           (thenDo (retire Q time_text vault_file) (\<lambda>kept.
            andDo (act (tree_replace staged_file vault_file))
           (andDo (sync []) (give kept))))))))))"

section \<open>Setting a vault aside\<close>

definition move_aside :: "path \<Rightarrow> unit io" where
  "move_aside p =
     looking (\<lambda>t.
       if t p = None then give ()
       else andDo (insist (t (pending_dir @ [last p]) = None)) (act (tree_replace p (pending_dir @ [last p]))))"

definition set_aside :: "sqlite \<Rightarrow> string \<Rightarrow> path option io" where
  "set_aside Q time_text =
     andDo (require_supported_sqlite Q)
      (reporting {OSError} (with_lock (looking (\<lambda>t.
         let paths = map (named vault_file) ([] # sidecars); kept = snapshot_dir @ [kept_name ''set-aside'' time_text]
         in if t pending_dir = None \<and> list_all (\<lambda>p. t p = None) paths then give None
            else andDo (if filled t vault_file then thenDo (take_exclusively Q vault_file) (\<lambda>_. give ()) else give ())
             (andDo (act (tree_mkdir True True snapshot_dir))
             (andDo (act (tree_mkdir False True pending_dir))
             (andDo (sync snapshot_dir)
             (andDo (sync [])
             (andDo (forAll move_aside paths)
             (andDo (sync pending_dir)
             (andDo (sync [])
             (andDo (act (tree_replace pending_dir kept))
             (andDo (sync snapshot_dir)
             (andDo (sync [])
              (give (Some kept))))))))))))))))"

end
