(* ===== verification/Storage_Safety.thy ===== *)
theory Storage_Safety
  imports Storage
begin

text \<open>
  What the vault file is safe from. Every program of Storage is taken with arbitrary failures of the
  operating system, and its properties hold for each file system it passes through, so also when the
  process is killed there. \<open>keeps I\<close> collects the invariants; \<open>leads\<close> strings the stages together.
\<close>

section \<open>Changes of files\<close>

lemmas tree_defs = tree_mkdir_def tree_create_def tree_write_def tree_unlink_def tree_replace_def open_lock_def write_db_def

lemmas path_defs = vault_file_def lock_file_def snapshot_dir_def pending_dir_def staged_file_def named_def sidecars_def

lemma contents_Some: "contents t p = Some b \<longleftrightarrow> t p = Some (File b)"
  by (auto simp: contents_def split: option.splits node.splits)

text \<open>Outside of the places \<open>S\<close> no file changes, appears or vanishes.\<close>

definition untouched :: "tree \<Rightarrow> path set \<Rightarrow> tree \<Rightarrow> bool" where
  "untouched t\<^sub>0 S t \<longleftrightarrow> (\<forall>q. (\<forall>p \<in> S. \<not> prefix p q) \<longrightarrow> contents t q = contents t\<^sub>0 q)"

lemma untouchedD: "untouched t\<^sub>0 S t \<Longrightarrow> \<forall>p \<in> S. \<not> prefix p q \<Longrightarrow> contents t q = contents t\<^sub>0 q"
  unfolding untouched_def by blast

lemma untouched_refl [simp]: "untouched t S t"
  by (simp add: untouched_def)

lemma untouched_trans: "untouched t\<^sub>0 S t \<Longrightarrow> untouched t S t' \<Longrightarrow> untouched t\<^sub>0 S t'"
  by (simp add: untouched_def)

lemma untouched_more: "untouched t\<^sub>0 S t \<Longrightarrow> S \<subseteq> S' \<Longrightarrow> untouched t\<^sub>0 S' t"
  unfolding untouched_def by blast

lemma keeps_untouched_act:
  assumes "\<And>t t' q. f t = Some t' \<Longrightarrow> \<forall>p \<in> S. \<not> prefix p q \<Longrightarrow> contents t' q = contents t q"
  shows "keeps (untouched t\<^sub>0 S) (act f)"
  by (rule keeps_act, erule untouched_trans) (use assms in \<open>unfold untouched_def, blast\<close>)

text \<open>What depends on untouched files only is kept.\<close>

lemma keeps_by_untouched:
  assumes "\<And>t\<^sub>0. keeps (untouched t\<^sub>0 S) m" and "\<And>t t'. I t \<Longrightarrow> untouched t S t' \<Longrightarrow> I t'"
  shows "keeps I m"
  unfolding keeps_def leads_def
proof (intro allI impI)
  fix w t r w' assume "I (files w)" and run: "m w = (t, r, w')"
  with assms(2) leadsD [OF assms(1) [of "files w", unfolded keeps_def] _ run]
  show "(\<forall>u \<in> set t. I u) \<and> (case r of Inl e \<Rightarrow> I (files w') | Inr x \<Rightarrow> I (files w'))" by (cases r) auto
qed

lemma untouched_mkdir [keeping]: "keeps (untouched t\<^sub>0 S) (act (tree_mkdir parents exist_ok p))"
  by (rule keeps_untouched_act) (auto simp: tree_mkdir_def contents_def split: if_splits)

text \<open>\<open>reached S p\<close>: the path is in one of the places that may change.\<close>

abbreviation reached :: "path set \<Rightarrow> path \<Rightarrow> bool" where
  "reached S p \<equiv> \<exists>p' \<in> S. prefix p' p"

lemma unreached: "reached S p \<Longrightarrow> \<forall>p \<in> S. \<not> prefix p q \<Longrightarrow> \<not> prefix p q"
  using prefix_order.trans by blast

lemma untouched_lock [keeping]: "reached S lock_file \<Longrightarrow> keeps (untouched t\<^sub>0 S) (act open_lock)"
  by (rule keeps_untouched_act, drule (1) unreached) (auto simp: open_lock_def contents_def split: if_splits)

lemma untouched_create [keeping]: "reached S p \<Longrightarrow> keeps (untouched t\<^sub>0 S) (act (tree_create p))"
  by (rule keeps_untouched_act, drule (1) unreached) (auto simp: tree_create_def contents_def split: if_splits)

lemma untouched_write [keeping]: "reached S p \<Longrightarrow> keeps (untouched t\<^sub>0 S) (act (tree_write p b))"
  by (rule keeps_untouched_act, drule (1) unreached) (auto simp: tree_write_def contents_def split: if_splits)

lemma untouched_unlink [keeping]: "reached S p \<Longrightarrow> keeps (untouched t\<^sub>0 S) (act (tree_unlink p))"
  by (rule keeps_untouched_act, drule (1) unreached) (auto simp: tree_unlink_def contents_def split: if_splits)

lemma untouched_rmtree [keeping]: "reached S p \<Longrightarrow> keeps (untouched t\<^sub>0 S) (act (tree_rmtree p))"
  by (rule keeps_untouched_act, drule (1) unreached) (auto simp: tree_rmtree_def contents_def)

lemma untouched_replace [keeping]:
  assumes "reached S p" and "reached S q"
  shows "keeps (untouched t\<^sub>0 S) (act (tree_replace p q))"
proof (rule keeps_untouched_act)
  fix t t' r
  assume "tree_replace p q t = Some t'" "\<forall>p \<in> S. \<not> prefix p r"
  moreover from this have "\<not> prefix p r" "\<not> prefix q r" using unreached assms by blast+
  ultimately show "contents t' r = contents t r" by (auto simp: tree_replace_def contents_def split: if_splits)
qed

lemma untouched_write_db [keeping]:
  assumes "reached S p" and "\<forall>s \<in> set sidecars. reached S (named p s)"
  shows "keeps (untouched t\<^sub>0 S) (act (write_db p d))"
proof (rule keeps_untouched_act)
  fix t t' r
  assume "write_db p d t = Some t'" and r: "\<forall>p \<in> S. \<not> prefix p r"
  moreover from assms(2) have "reached S (named p ''-wal'')" "reached S (named p ''-shm'')" "reached S (named p ''-journal'')"
    by (simp_all add: sidecars_def)
  from unreached [OF this(1) r] unreached [OF this(2) r] unreached [OF this(3) r] unreached [OF assms(1) r]
  have "r \<noteq> p" "r \<noteq> named p ''-wal''" "r \<noteq> named p ''-shm''" "r \<noteq> named p ''-journal''" by auto
  ultimately show "contents t' r = contents t r" by (auto simp: write_db_def contents_def)
qed

lemma keeps_acquire_lock [keeping]:
  "keeps I (act (tree_mkdir True True [])) \<Longrightarrow> keeps I (act open_lock) \<Longrightarrow> keeps I acquire_lock"
proof -
  assume "keeps I (act (tree_mkdir True True []))" "keeps I (act open_lock)"
  moreover have "keeps I (\<lambda>w. insist (\<not> locked w) w)"
    by (auto simp: keeps_def leads_def insist_def give_def fail_def)
  ultimately show ?thesis by (simp add: acquire_lock_def keeping)
qed

lemma keeps_require [keeping]: "keeps I (require_supported_sqlite Q)"
  by (simp add: require_supported_sqlite_def keeping)

lemma keeps_connect [keeping]: "keeps I (connect_existing p)"
  by (simp add: connect_existing_def keeping)

lemma keeps_read_view [keeping]: "keeps I (read_view Q p)"
  by (auto simp: read_view_def intro!: keeping split: option.splits)

lemma keeps_check_file [keeping]: "keeps I (check_file Q p)"
  by (auto simp: check_file_def intro!: keeping)

section \<open>Setting aside\<close>

lemma untouched_take [keeping]:
  "reached S p \<Longrightarrow> \<forall>s \<in> set sidecars. reached S (named p s) \<Longrightarrow> keeps (untouched t\<^sub>0 S) (take_exclusively Q p)"
  by (auto simp: take_exclusively_def intro!: keeping split: prod.splits taken.splits)

lemma keeps_refuse_pending [keeping]: "keeps I refuse_pending_set_aside"
  by (simp add: refuse_pending_set_aside_def keeping)

abbreviation aside_places :: "string \<Rightarrow> path set" where
  "aside_places s \<equiv> {lock_file, vault_file, pending_dir, snapshot_dir @ [kept_name ''set-aside'' s]} \<union> named vault_file ` set sidecars"

lemma set_aside_untouched: "keeps (untouched t\<^sub>0 (aside_places s)) (set_aside Q s)"
  unfolding set_aside_def with_lock_def move_aside_def Let_def
  by (intro keeping) (auto simp: path_defs)

text \<open>The data of a vault: its file and its write-ahead log; where an interrupted attempt may have left it.\<close>

definition data_names :: "string set" where "data_names = {''vault.db'', ''vault.db-wal''}"

definition somewhere :: "tree \<Rightarrow> string \<Rightarrow> bytes \<Rightarrow> bool" where
  "somewhere t x b \<longleftrightarrow> contents t [x] = Some b \<or> contents t (pending_dir @ [x]) = Some b"

definition aside_kept :: "string \<Rightarrow> path" where
  "aside_kept s = snapshot_dir @ [kept_name ''set-aside'' s]"

definition gathering :: "tree \<Rightarrow> string \<Rightarrow> tree \<Rightarrow> bool" where
  "gathering t\<^sub>0 s t \<longleftrightarrow> (\<forall>q. prefix (aside_kept s) q \<longrightarrow> t q = None)
     \<and> (\<forall>x \<in> data_names. \<forall>b. somewhere t\<^sub>0 x b \<longrightarrow> somewhere t x b)"

definition vault_names :: "string list" where
  "vault_names = [''vault.db'', ''vault.db-wal'', ''vault.db-shm'', ''vault.db-journal'']"

definition gone :: "string set \<Rightarrow> tree \<Rightarrow> bool" where
  "gone xs t \<longleftrightarrow> (\<forall>x \<in> xs. t [x] = None)"

definition gathered :: "tree \<Rightarrow> string \<Rightarrow> tree \<Rightarrow> bool" where
  "gathered t\<^sub>0 s t \<longleftrightarrow> gone (set vault_names) t \<and> t pending_dir = None
     \<and> (\<forall>x \<in> data_names. \<forall>b. somewhere t\<^sub>0 x b \<longrightarrow> contents t (aside_kept s @ [x]) = Some b)"

lemmas aside_defs = data_names_def aside_kept_def kept_name_def path_defs

lemma gathering_by_contents:
  assumes "gathering t\<^sub>0 s t" and "\<And>q. prefix (aside_kept s) q \<Longrightarrow> t q = None \<Longrightarrow> t' q = None"
    and "\<And>q b. t q = Some (File b) \<Longrightarrow> t' q = Some (File b)"
  shows "gathering t\<^sub>0 s t'"
  using assms unfolding gathering_def somewhere_def contents_Some by blast

lemma gathering_mkdir [keeping]:
  assumes "\<not> prefix (aside_kept s) p"
  shows "keeps (gathering t\<^sub>0 s) (act (tree_mkdir parents exist_ok p))"
proof (rule keeps_act)
  fix t t' assume g: "gathering t\<^sub>0 s t" and "tree_mkdir parents exist_ok p t = Some t'"
  then have t': "t' = (\<lambda>q. if t q = None \<and> prefix q p then Some Folder else t q)" by (auto simp: tree_mkdir_def split: if_splits)
  show "gathering t\<^sub>0 s t'"
    by (rule gathering_by_contents [OF g]) (use assms prefix_order.trans in \<open>auto simp: t'\<close>)
qed

lemma gathering_lock [keeping]: "keeps (gathering t\<^sub>0 s) (act open_lock)"
proof (rule keeps_act)
  fix t t' assume g: "gathering t\<^sub>0 s t" and "open_lock t = Some t'"
  then show "gathering t\<^sub>0 s t'"
    by (intro gathering_by_contents [OF g]) (auto simp: open_lock_def aside_defs split: if_splits)
qed

lemma write_db_same:
  assumes "write_db p d t = Some t'" and "is_file t p" and "p \<noteq> []"
    and "df_main d = df_main (db_at t p)" and "df_wal d = df_wal (db_at t p)"
  shows "contents t' p = contents t p" and "contents t' (named p ''-wal'') = contents t (named p ''-wal'')"
    and "q \<notin> {p, named p ''-wal'', named p ''-shm'', named p ''-journal''} \<Longrightarrow> t' q = t q"
    and "q \<in> {named p ''-wal'', named p ''-shm'', named p ''-journal''} \<Longrightarrow> t' q \<noteq> Some Folder"
proof -
  have "named p x \<noteq> p" if "x \<noteq> []" for x
    using that assms(3) by (metis append_butlast_last_id last_snoc named_def self_append_conv)
  then have "named p ''-wal'' \<noteq> p" "named p ''-shm'' \<noteq> p" "named p ''-journal'' \<noteq> p" by simp_all
  moreover have "named p x = named p y \<longleftrightarrow> x = y" for x y by (simp add: named_def)
  ultimately show "contents t' p = contents t p" "contents t' (named p ''-wal'') = contents t (named p ''-wal'')"
    "q \<notin> {p, named p ''-wal'', named p ''-shm'', named p ''-journal''} \<Longrightarrow> t' q = t q"
    "q \<in> {named p ''-wal'', named p ''-shm'', named p ''-journal''} \<Longrightarrow> t' q \<noteq> Some Folder"
    using assms by (auto simp: write_db_def db_at_def contents_def is_file_def split: option.splits node.splits)
qed

lemma sqlite_okD:
  assumes "sqlite_ok Q"
  shows "sq_view Q f = Some v \<Longrightarrow> sq_view Q (lone_file (sq_copy Q wal f)) = Some v"
    and "sq_view Q f = Some v \<Longrightarrow> sq_copy Q wal f \<noteq> []"
    and "df_main (snd (sq_take Q f)) = df_main f" and "df_wal (snd (sq_take Q f)) = df_wal f"
  using assms unfolding sqlite_ok_def by blast+

lemma leads_connect: "leads I (only I) (connect_existing p) (\<lambda>_ w. I (files w) \<and> is_file (files w) p) (\<lambda>_. only I)"
  unfolding connect_existing_def
  by (rule leads_looking) (auto intro!: leads_insist)

text \<open>Taking the vault file keeps whatever depends on the data and on the other files.\<close>

lemma keeps_take:
  assumes "sqlite_ok Q" and "p \<noteq> []"
    and "\<And>t t'. I t \<Longrightarrow> contents t' p = contents t p \<Longrightarrow> contents t' (named p ''-wal'') = contents t (named p ''-wal'') \<Longrightarrow>
      (\<And>q. q \<notin> {p, named p ''-wal'', named p ''-shm'', named p ''-journal''} \<Longrightarrow> t' q = t q) \<Longrightarrow>
      (\<And>q. q \<in> {named p ''-wal'', named p ''-shm'', named p ''-journal''} \<Longrightarrow> t' q \<noteq> Some Folder) \<Longrightarrow> I t'"
  shows "keeps I (take_exclusively Q p)"
  unfolding keeps_def take_exclusively_def
proof (rule leads_thenDo [OF leads_connect], rule leads_looking)
  fix u t
  obtain outcome d where take: "sq_take Q (db_at t p) = (outcome, d)" by (cases "sq_take Q (db_at t p)")
  then have d: "df_main d = df_main (db_at t p)" "df_wal d = df_wal (db_at t p)" using sqlite_okD(3,4) [OF assms(1), of "db_at t p"] by simp_all
  have "leads I (\<lambda>w. (I (files w) \<and> is_file (files w) p) \<and> files w = t) (act (write_db p d)) (\<lambda>_. only I) (\<lambda>_. only I)"
    using assms(3) [of t] write_db_same [OF _ _ assms(2) d] by (intro leads_act) auto
  then show "leads I (\<lambda>w. (I (files w) \<and> is_file (files w) p) \<and> files w = t)
     (case sq_take Q (db_at t p) of (outcome, d) \<Rightarrow> andDo (act (write_db p d))
        (case outcome of Taken \<Rightarrow> give True | Unreadable \<Rightarrow> give False | Refused \<Rightarrow> fail StorageError))
     (\<lambda>_. only I) (\<lambda>_. only I)"
    by (auto simp: take intro!: leads_thenDo leads_give leads_fail split: taken.splits)
qed

lemma gathering_take [keeping]: "sqlite_ok Q \<Longrightarrow> keeps (gathering t\<^sub>0 s) (take_exclusively Q vault_file)"
proof (erule keeps_take)
  fix t t' assume g: "gathering t\<^sub>0 s t" and same: "contents t' vault_file = contents t vault_file"
    "contents t' (named vault_file ''-wal'') = contents t (named vault_file ''-wal'')"
    "\<And>q. q \<notin> {vault_file, named vault_file ''-wal'', named vault_file ''-shm'', named vault_file ''-journal''} \<Longrightarrow> t' q = t q"
  have "prefix (aside_kept s) q \<Longrightarrow> t' q = t q" for q by (rule same(3)) (auto simp: aside_defs)
  moreover have "t' (pending_dir @ [x]) = t (pending_dir @ [x])" for x by (rule same(3)) (auto simp: aside_defs)
  ultimately show "gathering t\<^sub>0 s t'" using g same(1,2)
    by (auto simp: gathering_def somewhere_def data_names_def contents_def path_defs)
qed (simp add: vault_file_def)

lemma replaced:
  "tree_replace p q t = Some t' \<Longrightarrow> t' = (\<lambda>r. if prefix q r then t (p @ drop (length q) r) else if prefix p r then None else t r)"
  by (auto simp: tree_replace_def split: if_splits)

lemma gathering_moved:
  assumes "gathering t\<^sub>0 s t" and "tree_replace [x] (pending_dir @ [x]) t = Some t'" and "t (pending_dir @ [x]) = None"
    and "s \<noteq> ''in-progress''" and "x \<noteq> ''snapshots''"
  shows "gathering t\<^sub>0 s t'"
proof -
  from replaced [OF assms(2)] have t': "t' r = (if prefix (pending_dir @ [x]) r then t ([x] @ drop 3 r) else if prefix [x] r then None else t r)"
    for r by (simp add: pending_dir_def numeral_3_eq_3)
  have "t' q = None" if "prefix (aside_kept s) q" for q
  proof -
    from that obtain r where "q = aside_kept s @ r" by (auto simp: prefix_def)
    with assms(4) have "\<not> prefix (pending_dir @ [x]) q" by (simp add: aside_defs)
    with assms(1) that show ?thesis by (auto simp: t' gathering_def)
  qed
  moreover have "somewhere t' y b" if "somewhere t y b" for y b
    using that assms(3,5) by (auto simp: somewhere_def contents_Some t' pending_dir_def)
  ultimately show ?thesis using assms(1) by (simp add: gathering_def)
qed

definition aside_safe :: "tree \<Rightarrow> string \<Rightarrow> tree \<Rightarrow> bool" where
  "aside_safe t\<^sub>0 s t \<longleftrightarrow> gathering t\<^sub>0 s t \<or> gathered t\<^sub>0 s t"

abbreviation moved :: "tree \<Rightarrow> string \<Rightarrow> string set \<Rightarrow> tree \<Rightarrow> bool" where
  "moved t\<^sub>0 s xs t \<equiv> gathering t\<^sub>0 s t \<and> gone xs t"

lemma aside_step:
  assumes "s \<noteq> ''in-progress''" and "x \<noteq> ''snapshots''"
  shows "leads (aside_safe t\<^sub>0 s) (only (moved t\<^sub>0 s xs)) (move_aside [x]) (\<lambda>_. only (moved t\<^sub>0 s (insert x xs)))
    (\<lambda>_. only (aside_safe t\<^sub>0 s))"
  unfolding move_aside_def
proof (rule leads_looking)
  fix t
  have step: "moved t\<^sub>0 s (insert x xs) t'"
    if "moved t\<^sub>0 s xs t" "tree_replace [x] (pending_dir @ [x]) t = Some t'" "t (pending_dir @ [x]) = None" for t'
  proof -
    have "t' [y] = (if y = x then None else t [y])" for y using replaced [OF that(2)] by (simp add: pending_dir_def)
    with gathering_moved [OF _ that(2,3) assms] that(1) show ?thesis by (simp add: gone_def)
  qed
  show "leads (aside_safe t\<^sub>0 s) (\<lambda>w. only (moved t\<^sub>0 s xs) w \<and> files w = t)
     (if t [x] = None then give ()
      else andDo (insist (t (pending_dir @ [last [x]]) = None)) (act (tree_replace [x] (pending_dir @ [last [x]]))))
     (\<lambda>_. only (moved t\<^sub>0 s (insert x xs))) (\<lambda>_. only (aside_safe t\<^sub>0 s))"
  proof (intro leads_if leads_insist_then leads_give leads_act)
    fix w t' assume "only (moved t\<^sub>0 s xs) w \<and> files w = t" "t (pending_dir @ [last [x]]) = None"
      and "tree_replace [x] (pending_dir @ [last [x]]) (files w) = Some t'"
    then have "moved t\<^sub>0 s (insert x xs) t'" using step [of t'] by auto
    then show "aside_safe t\<^sub>0 s t' \<and> only (moved t\<^sub>0 s (insert x xs)) (w\<lparr>attempts := Suc (attempts w), files := t'\<rparr>)"
      by (simp add: aside_safe_def)
  qed (auto simp: aside_safe_def gone_def)
qed

text \<open>The last step: the folder gets its final name.\<close>

lemma gathered_renamed:
  assumes "moved t\<^sub>0 s (set vault_names) t" and "tree_replace pending_dir (aside_kept s) t = Some t'" and "s \<noteq> ''in-progress''"
  shows "gathered t\<^sub>0 s t'"
proof -
  from replaced [OF assms(2)] have t': "t' r = (if prefix (aside_kept s) r then t (pending_dir @ drop 2 r) else if prefix pending_dir r then None else t r)"
    for r by (simp add: aside_kept_def snapshot_dir_def numeral_2_eq_2)
  have "contents t' (aside_kept s @ [y]) = Some b" if "somewhere t y b" "t [y] = None" for y b
    using that by (auto simp: somewhere_def contents_Some t' aside_defs)
  moreover have "t' pending_dir = None" using assms(3) by (simp add: t' aside_defs)
  moreover have "t' [x] = t [x]" for x by (simp add: t' aside_defs)
  ultimately show ?thesis using assms(1)
    by (auto simp: gathering_def gathered_def gone_def data_names_def vault_names_def)
qed

lemma aside_loop:
  assumes "s \<noteq> ''in-progress''"
  shows "leads (aside_safe t\<^sub>0 s) (only (gathering t\<^sub>0 s)) (forAll move_aside (map (named vault_file) ([] # sidecars)))
    (\<lambda>_. only (moved t\<^sub>0 s (set vault_names))) (\<lambda>_. only (aside_safe t\<^sub>0 s))"
proof -
  have paths: "map (named vault_file) ([] # sidecars) = map (\<lambda>x. [x]) vault_names" by (simp add: path_defs vault_names_def)
  have "leads (aside_safe t\<^sub>0 s) (only (moved t\<^sub>0 s xs)) (forAll move_aside (map (\<lambda>x. [x]) ys))
      (\<lambda>_. only (moved t\<^sub>0 s (set ys \<union> xs))) (\<lambda>_. only (aside_safe t\<^sub>0 s))" if "''snapshots'' \<notin> set ys" for ys xs
    using that
  proof (induction ys arbitrary: xs)
    case Nil
    show ?case by (auto intro: leads_give)
  next
    case (Cons y ys)
    from Cons.prems Cons.IH [of "insert y xs"] have "leads (aside_safe t\<^sub>0 s) (only (moved t\<^sub>0 s (insert y xs))) (forAll move_aside (map (\<lambda>x. [x]) ys))
      (\<lambda>_. only (moved t\<^sub>0 s (set (y # ys) \<union> xs))) (\<lambda>_. only (aside_safe t\<^sub>0 s))" by simp
    with aside_step [OF assms, of y] Cons.prems show ?case by (auto intro: leads_thenDo)
  qed
  moreover have "''snapshots'' \<notin> set vault_names" by (simp add: vault_names_def)
  ultimately have "leads (aside_safe t\<^sub>0 s) (only (moved t\<^sub>0 s {})) (forAll move_aside (map (\<lambda>x. [x]) vault_names))
      (\<lambda>_. only (moved t\<^sub>0 s (set vault_names \<union> {}))) (\<lambda>_. only (aside_safe t\<^sub>0 s))" by blast
  then show ?thesis unfolding paths by (simp add: gone_def)
qed

lemma set_aside_safe:
  assumes "sqlite_ok Q" and "s \<noteq> ''in-progress''"
  shows "leads (aside_safe t\<^sub>0 s) (only (gathering t\<^sub>0 s)) (set_aside Q s) (\<lambda>_. only (aside_safe t\<^sub>0 s)) (\<lambda>_. only (aside_safe t\<^sub>0 s))"
proof -
  let ?g = "gathering t\<^sub>0 s" and ?J = "aside_safe t\<^sub>0 s" and ?m = "moved t\<^sub>0 s (set vault_names)"
  have g: "?g t \<Longrightarrow> ?J t" and m: "?m t \<Longrightarrow> ?J t" and d: "gathered t\<^sub>0 s t \<Longrightarrow> ?J t" for t by (simp_all add: aside_safe_def)
  have far: "\<not> prefix (aside_kept s) []" "\<not> prefix (aside_kept s) snapshot_dir" "\<not> prefix (aside_kept s) pending_dir"
    using assms(2) by (simp_all add: aside_defs)
  have rename: "leads ?J (only ?m) (act (tree_replace pending_dir (aside_kept s))) (\<lambda>_. only (gathered t\<^sub>0 s)) (\<lambda>_. only ?J)"
    by (rule leads_act) (auto simp: m d gathered_renamed [OF _ _ assms(2)])
  have before: "keeps ?g (require_supported_sqlite Q)" "keeps ?g acquire_lock" "keeps ?g (sync p)"
      "keeps ?g (act (tree_mkdir True True snapshot_dir))" "keeps ?g (act (tree_mkdir False True pending_dir))"
      "keeps ?g (if c then thenDo (take_exclusively Q vault_file) (\<lambda>_. give ()) else give ())" for p c
    by (intro keeping far assms(1))+
  show ?thesis
    unfolding set_aside_def with_lock_def Let_def aside_kept_def [symmetric]
    by (intro leads_reporting then_stage [OF before(1) g] then_stage [OF before(2) g] leads_looking_any leads_if
      then_stage [OF before(6) g] then_stage [OF before(4) g] then_stage [OF before(5) g] then_stage [OF before(3) g]
      leads_thenDo [OF aside_loop [OF assms(2)]] then_stage [OF keeps_sync m] leads_thenDo [OF rename]
      last_stage [OF _ g] last_stage [OF _ d] keeping)
qed

section \<open>Finishing an interrupted set-aside\<close>

text \<open>What a data folder looks like on which set-aside has been started, or not yet.\<close>

definition tidy :: "tree \<Rightarrow> bool" where
  "tidy t \<longleftrightarrow> t [] = Some Folder \<and> t lock_file \<noteq> Some Folder \<and> (t snapshot_dir = None \<or> t snapshot_dir = Some Folder)
     \<and> (t pending_dir = None \<or> t pending_dir = Some Folder)
     \<and> (t pending_dir \<noteq> None \<longrightarrow> t snapshot_dir \<noteq> None)
     \<and> (t pending_dir = None \<longrightarrow> (\<forall>x. t (pending_dir @ [x]) = None))
     \<and> (\<forall>x \<in> set vault_names. t [x] \<noteq> Some Folder \<and> (t [x] = None \<or> t (pending_dir @ [x]) = None))
     \<and> (\<forall>b. t vault_file = Some (File b) \<longrightarrow> b \<noteq> [] \<longrightarrow> (\<forall>x \<in> set vault_names. t (pending_dir @ [x]) = None))"

lemma path_neqs:
  "x \<in> set vault_names \<Longrightarrow> [x] \<noteq> lock_file" "x \<in> set vault_names \<Longrightarrow> [x] \<noteq> snapshot_dir" "[x] \<noteq> pending_dir" "[x] \<noteq> pending_dir @ [y]"
  "pending_dir @ [y] \<noteq> lock_file" "pending_dir @ [y] \<noteq> snapshot_dir" "pending_dir @ [y] \<noteq> pending_dir" "pending_dir @ [y] \<noteq> vault_file"
  "snapshot_dir \<noteq> pending_dir" "snapshot_dir \<noteq> lock_file" "lock_file \<noteq> pending_dir" "snapshot_dir \<noteq> []" "pending_dir \<noteq> []" "lock_file \<noteq> []"
  "vault_file \<noteq> lock_file" "vault_file \<noteq> snapshot_dir" "vault_file \<noteq> pending_dir" "vault_file \<noteq> []"
  by (auto simp: vault_names_def path_defs)

lemmas path_simps = path_neqs path_neqs [symmetric]

lemma vault_name: "vault_file = [''vault.db'']" "''vault.db'' \<in> set vault_names"
  by (simp_all add: vault_file_def vault_names_def)

text \<open>A change of one folder or of the lock.\<close>

lemma tidy_folder:
  assumes "tidy t" and "p = snapshot_dir \<or> p = pending_dir \<and> t snapshot_dir \<noteq> None" and "t p = None"
  shows "tidy (t(p \<mapsto> Folder))"
  using assms(1,2) unfolding tidy_def
  by (elim conjE disjE) (simp_all add: path_simps)

lemma tidy_lock_file: "tidy t \<Longrightarrow> tidy (t(lock_file \<mapsto> File b))"
  unfolding tidy_def
  by (elim conjE) (simp add: path_simps)

lemma tidy_lock [keeping]: "keeps tidy (act open_lock)"
  by (rule keeps_act) (auto simp: open_lock_def tidy_lock_file split: if_splits)

lemma mkdir_single:
  assumes "tree_mkdir parents exist_ok p t = Some t'" and "\<And>q. strict_prefix q p \<Longrightarrow> t q \<noteq> None"
  shows "t' = (if t p = None then t(p \<mapsto> Folder) else t)"
proof
  fix q
  have t': "t' q = (if t q = None \<and> prefix q p then Some Folder else t q)" using assms(1) by (auto simp: tree_mkdir_def split: if_splits)
  show "t' q = (if t p = None then t(p \<mapsto> Folder) else t) q"
  proof (cases "q = p")
    case False
    with assms(2) [of q] have "\<not> (t q = None \<and> prefix q p)" by (auto simp: strict_prefix_def)
    with False show ?thesis by (auto simp: t')
  next
    case True
    with t' show ?thesis by auto
  qed
qed

lemma tidy_mkdir:
  assumes "tidy t" and "p = [] \<or> p = snapshot_dir \<or> p = pending_dir \<and> t snapshot_dir \<noteq> None" and "tree_mkdir parents exist_ok p t = Some t'"
  shows "tidy t'" and "p = snapshot_dir \<Longrightarrow> t' snapshot_dir = Some Folder" and "p = pending_dir \<Longrightarrow> t' pending_dir = Some Folder"
proof -
  have root: "t [] = Some Folder" using assms(1) by (simp add: tidy_def)
  have "t q \<noteq> None" if "strict_prefix q p" for q
  proof -
    from assms(2) that have "q = [] \<or> p = pending_dir \<and> q = snapshot_dir"
      by (auto simp: strict_prefix_def prefix_Cons path_defs)
    with root assms(2) show ?thesis by (auto simp: path_simps)
  qed
  from mkdir_single [OF assms(3) this] have t': "t' = (if t p = None then t(p \<mapsto> Folder) else t)" .
  show "tidy t'" using assms(1,2) root tidy_folder by (auto simp: t')
  from assms(1) show "p = snapshot_dir \<Longrightarrow> t' snapshot_dir = Some Folder" "p = pending_dir \<Longrightarrow> t' pending_dir = Some Folder"
    by (auto simp: t' tidy_def)
qed

lemma tidy_moved:
  assumes "tidy t" and "x \<in> set vault_names" and "tree_replace [x] (pending_dir @ [x]) t = Some t'" and "t (pending_dir @ [x]) = None"
    and "x = ''vault.db'' \<or> t vault_file = None"
  shows "tidy t'"
proof -
  have t': "t' r = (if prefix (pending_dir @ [x]) r then t ([x] @ drop 3 r) else if prefix [x] r then None else t r)" for r
    using replaced [OF assms(3)] by (simp add: pending_dir_def numeral_3_eq_3)
  have same: "t' [] = t []" "t' lock_file = t lock_file" "t' snapshot_dir = t snapshot_dir" "t' pending_dir = t pending_dir"
    using assms(2) by (auto simp: t' path_defs vault_names_def)
  have names: "t' [y] = (if y = x then None else t [y])" "t' (pending_dir @ [y]) = (if y = x then t [x] else t (pending_dir @ [y]))"
    if "y \<in> set vault_names" for y
    using assms(2) that by (auto simp: t' path_defs vault_names_def)
  have "t pending_dir \<noteq> None" using assms(3) by (auto simp: tree_replace_def in_folder_def pending_dir_def split: if_splits)
  moreover have "t' vault_file = None" using names(1) [of "''vault.db''"] assms(5) vault_name by auto
  moreover have "t [x] \<noteq> Some Folder" "t' (pending_dir @ [y]) = t (pending_dir @ [y])" if "y \<noteq> x" for y
    using assms(1,2) that by (auto simp: tidy_def t' path_defs vault_names_def)
  ultimately show ?thesis
    using assms(1,4) unfolding tidy_def same by (elim conjE) (auto simp: names)
qed

lemma tidy_renamed:
  assumes "tidy t" and "tree_replace pending_dir (aside_kept s) t = Some t'" and "s \<noteq> ''in-progress''"
  shows "tidy t'"
proof -
  have t': "t' r = (if prefix (aside_kept s) r then t (pending_dir @ drop 2 r) else if prefix pending_dir r then None else t r)" for r
    using replaced [OF assms(2)] by (simp add: aside_kept_def snapshot_dir_def numeral_2_eq_2)
  have same: "t' [] = t []" "t' lock_file = t lock_file" "t' snapshot_dir = t snapshot_dir" "t' [x] = t [x]" for x
    by (auto simp: t' aside_defs)
  have "t' pending_dir = None" "t' (pending_dir @ [x]) = None" for x using assms(3) by (auto simp: t' aside_defs)
  with assms(1) show ?thesis
    unfolding tidy_def vault_file_def same by (elim conjE) simp
qed

lemma tidy_take: "sqlite_ok Q \<Longrightarrow> keeps (\<lambda>t. tidy t \<and> filled t vault_file) (take_exclusively Q vault_file)"
proof (erule keeps_take)
  fix t t' assume tidy: "tidy t \<and> filled t vault_file" and same: "contents t' vault_file = contents t vault_file"
    "\<And>q. q \<notin> {vault_file, named vault_file ''-wal'', named vault_file ''-shm'', named vault_file ''-journal''} \<Longrightarrow> t' q = t q"
    "\<And>q. q \<in> {named vault_file ''-wal'', named vault_file ''-shm'', named vault_file ''-journal''} \<Longrightarrow> t' q \<noteq> Some Folder"
  have f: "filled t' vault_file" using tidy same(1) by (auto simp: filled_def contents_def split: option.splits node.splits)
  have eq: "t' [] = t []" "t' lock_file = t lock_file" "t' snapshot_dir = t snapshot_dir" "t' pending_dir = t pending_dir"
    "t' (pending_dir @ [x]) = t (pending_dir @ [x])" for x
    by (rule same(2), simp add: path_defs)+
  have "t' [x] \<noteq> Some Folder" if "x \<in> set vault_names" for x
  proof (cases "x = ''vault.db''")
    case True
    with f show ?thesis by (auto simp: path_defs filled_def)
  next
    case False
    with that have "[x] \<in> {named vault_file ''-wal'', named vault_file ''-shm'', named vault_file ''-journal''}"
      by (auto simp: vault_names_def path_defs)
    then show ?thesis by (rule same(3))
  qed
  moreover have "\<forall>x \<in> set vault_names. t (pending_dir @ [x]) = None"
    using tidy by (auto simp: tidy_def filled_def split: option.splits node.splits)
  ultimately show "tidy t' \<and> filled t' vault_file" using tidy f unfolding tidy_def eq by simp
qed (simp add: vault_file_def)

abbreviation tidy_moves :: "string set \<Rightarrow> tree \<Rightarrow> bool" where
  "tidy_moves xs t \<equiv> tidy t \<and> t pending_dir \<noteq> None \<and> gone xs t"

lemma tidy_step:
  assumes "x \<in> set vault_names" and "x = ''vault.db'' \<or> ''vault.db'' \<in> xs" and "tidy_moves xs t" and "t [x] \<noteq> None"
    and "tree_replace [x] (pending_dir @ [x]) t = Some t'"
  shows "tidy_moves (insert x xs) t'"
proof -
  have "t (pending_dir @ [x]) = None" "x = ''vault.db'' \<or> t vault_file = None"
    using assms(1-4) by (auto simp: tidy_def gone_def vault_file_def)
  from tidy_moved [OF _ assms(1,5) this] assms(3) have "tidy t'" by blast
  moreover have "t' [y] = (if y = x then None else t [y])" for y using replaced [OF assms(5)] by (simp add: pending_dir_def)
  moreover have "t' pending_dir = t pending_dir" using replaced [OF assms(5)] assms(1) by (auto simp: pending_dir_def vault_names_def)
  ultimately show ?thesis using assms(3) by (simp add: gone_def)
qed

section \<open>Undisturbed runs\<close>

text \<open>A program that succeeds when nothing fails and no other process holds the lock.\<close>

definition calm :: "world \<Rightarrow> bool" where
  "calm w \<longleftrightarrow> (\<forall>n. \<not> faults w n) \<and> \<not> locked w"

definition sure :: "(tree \<Rightarrow> bool) \<Rightarrow> 'a io \<Rightarrow> ('a \<Rightarrow> tree \<Rightarrow> bool) \<Rightarrow> bool" where
  "sure P m Q \<longleftrightarrow> (\<forall>w. calm w \<longrightarrow> P (files w) \<longrightarrow> (\<exists>t x w'. m w = (t, Inr x, w') \<and> calm w' \<and> Q x (files w')))"

lemma sure_give: "(\<And>t. P t \<Longrightarrow> Q x t) \<Longrightarrow> sure P (give x) Q"
  by (simp add: sure_def give_def)

lemma sure_thenDo: "sure P m M \<Longrightarrow> (\<And>x. sure (M x) (k x) Q) \<Longrightarrow> sure P (thenDo m k) Q"
  unfolding sure_def thenDo_def by (fastforce split: prod.splits)

lemma sure_rescue: "sure P m Q \<Longrightarrow> sure P (rescue h m) Q"
  unfolding sure_def rescue_def by fastforce

lemma sure_looking: "(\<And>t. P t \<Longrightarrow> sure (\<lambda>u. u = t) (f t) Q) \<Longrightarrow> sure P (looking f) Q"
  unfolding sure_def looking_def by blast

lemma sure_insist: "(\<And>t. P t \<Longrightarrow> c) \<Longrightarrow> (\<And>t. P t \<Longrightarrow> Q () t) \<Longrightarrow> sure P (insist c) Q"
  unfolding sure_def insist_def by (auto simp: give_def)

lemma sure_act: "(\<And>t. P t \<Longrightarrow> \<exists>t'. f t = Some t' \<and> Q () t') \<Longrightarrow> sure P (act f) Q"
  unfolding sure_def act_def calm_def by (fastforce simp: Let_def)

lemma sure_weaken: "sure P m Q \<Longrightarrow> (\<And>t. P' t \<Longrightarrow> P t) \<Longrightarrow> (\<And>x t. Q x t \<Longrightarrow> Q' x t) \<Longrightarrow> sure P' m Q'"
  unfolding sure_def by metis

lemma sure_sync: "(\<And>t. P t \<Longrightarrow> t p \<noteq> None) \<Longrightarrow> sure P (sync p) (\<lambda>_. P)"
  unfolding sync_def by (rule sure_act) auto

lemma sure_mkdir:
  assumes "p = [] \<or> p = snapshot_dir \<or> p = pending_dir \<and> \<not> parents" and "\<And>t. P t \<Longrightarrow> tidy t \<and> (p = pending_dir \<longrightarrow> t snapshot_dir \<noteq> None)"
    and "\<And>t t'. P t \<Longrightarrow> tidy t' \<Longrightarrow> (p = snapshot_dir \<longrightarrow> t' snapshot_dir = Some Folder) \<Longrightarrow> (p = pending_dir \<longrightarrow> t' pending_dir = Some Folder) \<Longrightarrow>
      (\<And>q. t q \<noteq> None \<Longrightarrow> t' q = t q) \<Longrightarrow> (\<And>q. \<not> prefix q p \<Longrightarrow> t' q = t q) \<Longrightarrow> Q () t'"
  shows "sure P (act (tree_mkdir parents True p)) Q"
proof (rule sure_act)
  fix t assume P: "P t"
  then have t: "tidy t" "p = pending_dir \<longrightarrow> t snapshot_dir \<noteq> None" using assms(2) by blast+
  then have "t [] = Some Folder" "t snapshot_dir = None \<or> t snapshot_dir = Some Folder" "t pending_dir = None \<or> t pending_dir = Some Folder"
    by (simp_all add: tidy_def)
  then have "tree_mkdir parents True p t \<noteq> None"
    using assms(1) t(2) by (auto simp: tree_mkdir_def in_folder_def is_file_def path_defs)
  then obtain t' where t': "tree_mkdir parents True p t = Some t'" by blast
  then have eq: "t' = (\<lambda>q. if t q = None \<and> prefix q p then Some Folder else t q)" by (auto simp: tree_mkdir_def split: if_splits)
  have "p = [] \<or> p = snapshot_dir \<or> p = pending_dir \<and> t snapshot_dir \<noteq> None" using assms(1) t(2) by blast
  note made = tidy_mkdir [OF t(1) this t']
  have "Q () t'" by (rule assms(3) [OF P made(1)]) (use made(2,3) in \<open>simp_all add: eq\<close>)
  with t' show "\<exists>t'. tree_mkdir parents True p t = Some t' \<and> Q () t'" by blast
qed

lemma sure_lock:
  assumes "\<And>t. P t \<Longrightarrow> tidy t" and "\<And>t t'. P t \<Longrightarrow> tidy t' \<Longrightarrow> (\<And>q. q \<noteq> [] \<Longrightarrow> q \<noteq> lock_file \<Longrightarrow> t' q = t q) \<Longrightarrow> Q () t'"
  shows "sure P acquire_lock Q"
proof -
  have "sure P (act (tree_mkdir True True [])) (\<lambda>_ t'. tidy t' \<and> (\<exists>t. P t \<and> (\<forall>q. q \<noteq> [] \<longrightarrow> t' q = t q)))"
    by (rule sure_mkdir) (use assms(1) in \<open>auto simp: path_simps\<close>)
  moreover have "sure (\<lambda>t'. tidy t' \<and> (\<exists>t. P t \<and> (\<forall>q. q \<noteq> [] \<longrightarrow> t' q = t q))) (act open_lock) Q"
  proof (rule sure_act)
    fix t' assume t': "tidy t' \<and> (\<exists>t. P t \<and> (\<forall>q. q \<noteq> [] \<longrightarrow> t' q = t q))"
    then obtain t where t: "P t" "\<And>q. q \<noteq> [] \<Longrightarrow> t' q = t q" by blast
    have "t' lock_file \<noteq> Some Folder" "in_folder t' lock_file" using t' by (simp_all add: tidy_def in_folder_def lock_file_def)
    then have "open_lock t' = Some (if t' lock_file = None then t'(lock_file \<mapsto> File []) else t')" by (simp add: open_lock_def)
    moreover have "Q () (if t' lock_file = None then t'(lock_file \<mapsto> File []) else t')"
      by (rule assms(2) [OF t(1)]) (use t' t(2) tidy_lock_file in auto)
    ultimately show "\<exists>t''. open_lock t' = Some t'' \<and> Q () t''" by blast
  qed
  ultimately have opened: "sure P (reporting {OSError} (andDo (act (tree_mkdir True True [])) (act open_lock))) Q"
    unfolding reporting_def by (intro sure_rescue sure_thenDo)
  show ?thesis
    unfolding acquire_lock_def
    by (rule sure_thenDo [OF opened]) (simp add: sure_def insist_def calm_def give_def)
qed

lemma sure_keeps:
  assumes "sure P m Q" and "keeps I m" and "\<And>t. P t \<Longrightarrow> I t"
  shows "sure P m (\<lambda>x t. Q x t \<and> I t)"
  unfolding sure_def
proof (intro allI impI)
  fix w assume "calm w" "P (files w)"
  moreover from this assms(1) obtain t x w' where "m w = (t, Inr x, w')" "calm w'" "Q x (files w')" unfolding sure_def by blast
  ultimately show "\<exists>t x w'. m w = (t, Inr x, w') \<and> calm w' \<and> Q x (files w') \<and> I (files w')"
    using leadsD [OF assms(2) [unfolded keeps_def], of w] assms(3) by fastforce
qed

lemma sure_take:
  assumes "\<And>f. fst (sq_take Q f) \<noteq> Refused"
  shows "sure (\<lambda>t. filled t p) (take_exclusively Q p) (\<lambda>_ _. True)"
  unfolding take_exclusively_def connect_existing_def
proof (intro sure_thenDo sure_looking)
  fix t assume "filled t p"
  then have "is_file t p" by (simp add: filled_def is_file_def split: option.splits node.splits)
  then show "sure (\<lambda>u. u = t) (insist (is_file t p)) (\<lambda>_ _. True)" by (auto intro: sure_insist)
next
  fix t
  obtain outcome d where take: "sq_take Q (db_at t p) = (outcome, d)" by (cases "sq_take Q (db_at t p)")
  with assms [of "db_at t p"] have "outcome \<noteq> Refused" by simp
  then show "sure (\<lambda>u. u = t) (case sq_take Q (db_at t p) of (outcome, d) \<Rightarrow> andDo (act (write_db p d))
      (case outcome of Taken \<Rightarrow> give True | Unreadable \<Rightarrow> give False | Refused \<Rightarrow> fail StorageError)) (\<lambda>_ _. True)"
    unfolding take prod.case
    by (intro sure_thenDo [where M = "\<lambda>_ _. True"] sure_act) (auto simp: write_db_def split: taken.splits intro: sure_give)
qed

text \<open>The state of a second attempt: tidy, and its folder has no name yet.\<close>

abbreviation ready :: "string \<Rightarrow> tree \<Rightarrow> bool" where
  "ready s t \<equiv> tidy t \<and> t (aside_kept s) = None"

lemma ready_take:
  assumes "sqlite_ok Q" and "\<And>f. fst (sq_take Q f) \<noteq> Refused" and t: "ready s t"
  shows "sure (\<lambda>u. u = t) (if filled t vault_file then thenDo (take_exclusively Q vault_file) (\<lambda>_. give ()) else give ()) (\<lambda>_. ready s)"
proof (cases "filled t vault_file")
  case True
  have "keeps (\<lambda>t. t (aside_kept s) = None) (take_exclusively Q vault_file)"
    by (rule keeps_take [OF assms(1)]) (auto simp: aside_defs)
  moreover have "sure (\<lambda>u. u = t) (take_exclusively Q vault_file) (\<lambda>_ _. True)"
    by (rule sure_weaken [OF sure_take [OF assms(2)]]) (use True in auto)
  ultimately have "sure (\<lambda>u. u = t) (take_exclusively Q vault_file) (\<lambda>_ u. (True \<and> tidy u \<and> filled u vault_file) \<and> u (aside_kept s) = None)"
    by (intro sure_keeps tidy_take [OF assms(1)]) (use t True in simp_all)
  then have "sure (\<lambda>u. u = t) (take_exclusively Q vault_file) (\<lambda>_. ready s)" by (rule sure_weaken) auto
  with True show ?thesis by (auto intro: sure_thenDo sure_give)
next
  case False
  with t show ?thesis by (auto intro: sure_give)
qed

lemma ready_step:
  assumes x: "x \<in> set vault_names" "x = ''vault.db'' \<or> ''vault.db'' \<in> xs" and s: "s \<noteq> ''in-progress''"
  shows "sure (\<lambda>t. tidy_moves xs t \<and> t (aside_kept s) = None) (move_aside [x]) (\<lambda>_ t. tidy_moves (insert x xs) t \<and> t (aside_kept s) = None)"
  unfolding move_aside_def
proof (rule sure_looking)
  fix t assume t: "tidy_moves xs t \<and> t (aside_kept s) = None"
  show "sure (\<lambda>u. u = t) (if t [x] = None then give ()
      else andDo (insist (t (pending_dir @ [last [x]]) = None)) (act (tree_replace [x] (pending_dir @ [last [x]]))))
    (\<lambda>_ t. tidy_moves (insert x xs) t \<and> t (aside_kept s) = None)"
  proof (cases "t [x] = None")
    case True
    with t show ?thesis by (auto simp: gone_def intro!: sure_give)
  next
    case False
    from t x(1) False have free: "t (pending_dir @ [x]) = None" "t [x] \<noteq> Some Folder" "t pending_dir = Some Folder"
      by (auto simp: tidy_def)
    then obtain t' where t': "tree_replace [x] (pending_dir @ [x]) t = Some t'"
      using False x(1) by (auto simp: tree_replace_def in_folder_def pending_dir_def vault_names_def)
    have "t' (aside_kept s) = t (aside_kept s)" using replaced [OF t'] x(1) s by (auto simp: aside_defs vault_names_def)
    with tidy_step [OF x _ False t'] t have "tidy_moves (insert x xs) t' \<and> t' (aside_kept s) = None" by simp
    with t' free(1) False show ?thesis by (auto intro!: sure_thenDo [where M = "\<lambda>_ u. u = t"] sure_insist sure_act)
  qed
qed

lemma ready_moves:
  assumes "s \<noteq> ''in-progress''"
  shows "sure (\<lambda>t. ready s t \<and> t pending_dir \<noteq> None) (forAll move_aside (map (named vault_file) ([] # sidecars)))
     (\<lambda>_ t. ready s t \<and> t pending_dir \<noteq> None \<and> gone (set vault_names) t)"
proof -
  let ?P = "\<lambda>xs t. tidy_moves xs t \<and> t (aside_kept s) = None"
  have "sure (?P xs) (forAll move_aside (map (\<lambda>x. [x]) ys)) (\<lambda>_. ?P (set ys \<union> xs))"
    if "set ys \<subseteq> set vault_names" "''vault.db'' \<in> xs \<or> (\<exists>zs. ys = ''vault.db'' # zs)" for ys xs
    using that
  proof (induction ys arbitrary: xs)
    case Nil
    show ?case by (auto intro: sure_give)
  next
    case (Cons y ys)
    then have "sure (?P (insert y xs)) (forAll move_aside (map (\<lambda>x. [x]) ys)) (\<lambda>_. ?P (set (y # ys) \<union> xs))"
      using Cons.IH [of "insert y xs"] by auto
    with ready_step [OF _ _ assms, of y xs] Cons.prems show ?case by (auto intro!: sure_thenDo)
  qed
  from this [of vault_names "{}"] have "sure (?P {}) (forAll move_aside (map (\<lambda>x. [x]) vault_names)) (\<lambda>_. ?P (set vault_names))"
    by (simp add: vault_names_def)
  moreover have "map (named vault_file) ([] # sidecars) = map (\<lambda>x. [x]) vault_names" by (simp add: path_defs vault_names_def)
  ultimately show ?thesis by (auto simp: gone_def elim!: sure_weaken)
qed

lemma set_aside_finishes:
  assumes "sqlite_ok Q" and "version_le MIN_SQLITE_VERSION (sq_version Q)" and "\<And>f. fst (sq_take Q f) \<noteq> Refused" and "s \<noteq> ''in-progress''"
  shows "sure (ready s) (set_aside Q s) (\<lambda>_ t. gone (set vault_names) t \<and> t pending_dir = None \<and> tidy t)"
proof -
  let ?Q = "\<lambda>_ t. gone (set vault_names) t \<and> t pending_dir = None \<and> tidy t"
  let ?A = "\<lambda>t. ready s t \<and> t snapshot_dir = Some Folder" and ?B = "\<lambda>t. ready s t \<and> t pending_dir \<noteq> None"
  let ?C = "\<lambda>t. ready s t \<and> t pending_dir \<noteq> None \<and> gone (set vault_names) t"
  let ?D = "\<lambda>t. gone (set vault_names) t \<and> t pending_dir = None \<and> tidy t \<and> t snapshot_dir = Some Folder"
  have kept: "aside_kept s \<noteq> []" "aside_kept s \<noteq> lock_file" "\<not> prefix (aside_kept s) snapshot_dir" "\<not> prefix (aside_kept s) pending_dir"
    using assms(4) by (simp_all add: aside_defs)
  have lock: "sure (ready s) acquire_lock (\<lambda>_. ready s)" by (rule sure_lock) (use kept in auto)
  have make: "sure (ready s) (act (tree_mkdir True True snapshot_dir)) (\<lambda>_. ?A)" "sure ?A (act (tree_mkdir False True pending_dir)) (\<lambda>_. ?B)"
    by (rule sure_mkdir; use kept in \<open>auto simp: path_simps\<close>)+
  have sync: "sure ?B (sync snapshot_dir) (\<lambda>_. ?B)" "sure ?B (sync []) (\<lambda>_. ?B)" "sure ?C (sync pending_dir) (\<lambda>_. ?C)" "sure ?C (sync []) (\<lambda>_. ?C)"
    "sure ?D (sync snapshot_dir) (\<lambda>_. ?D)" "sure ?D (sync []) (\<lambda>_. ?D)" by (rule sure_sync; auto simp: tidy_def)+
  have rename: "sure ?C (act (tree_replace pending_dir (aside_kept s))) (\<lambda>_. ?D)"
  proof (rule sure_act)
    fix t assume t: "?C t"
    then have "t snapshot_dir = Some Folder" by (auto simp: tidy_def)
    with t obtain t' where t': "tree_replace pending_dir (aside_kept s) t = Some t'"
      using assms(4) by (auto simp: tree_replace_def in_folder_def aside_defs)
    moreover have "t' pending_dir = None" "t' snapshot_dir = t snapshot_dir" "t' [x] = t [x]" for x
      using replaced [OF t'] assms(4) by (auto simp: aside_defs)
    ultimately show "\<exists>t'. tree_replace pending_dir (aside_kept s) t = Some t' \<and> ?D t'"
      using tidy_renamed [OF _ t' assms(4)] t \<open>t snapshot_dir = Some Folder\<close> by (simp add: gone_def)
  qed
  have body: "sure ?B (andDo (sync snapshot_dir) (andDo (sync []) (andDo (forAll move_aside (map (named vault_file) ([] # sidecars)))
      (andDo (sync pending_dir) (andDo (sync []) (andDo (act (tree_replace pending_dir (aside_kept s)))
      (andDo (sync snapshot_dir) (andDo (sync []) (give (Some (aside_kept s))))))))))) ?Q"
    by (rule sure_thenDo [OF sync(1)] sure_thenDo [OF sync(2)] sure_thenDo [OF ready_moves [OF assms(4)]] sure_thenDo [OF sync(3)] sure_thenDo [OF sync(4)]
      sure_thenDo [OF rename] sure_thenDo [OF sync(5)] sure_thenDo [OF sync(6)] sure_give)+ simp
  show ?thesis
    unfolding set_aside_def with_lock_def reporting_def Let_def aside_kept_def [symmetric]
  proof (rule sure_thenDo [where M = "\<lambda>_. ready s"], simp add: require_supported_sqlite_def assms(2) sure_def insist_def give_def, rule sure_rescue,
      rule sure_thenDo [OF lock], rule sure_looking)
    fix t assume t: "ready s t"
    show "sure (\<lambda>u. u = t) (if t pending_dir = None \<and> list_all (\<lambda>p. t p = None) (map (named vault_file) ([] # sidecars)) then give None
       else andDo (if filled t vault_file then thenDo (take_exclusively Q vault_file) (\<lambda>_. give ()) else give ())
         (andDo (act (tree_mkdir True True snapshot_dir)) (andDo (act (tree_mkdir False True pending_dir))
         (andDo (sync snapshot_dir) (andDo (sync []) (andDo (forAll move_aside (map (named vault_file) ([] # sidecars)))
           (andDo (sync pending_dir) (andDo (sync []) (andDo (act (tree_replace pending_dir (aside_kept s)))
           (andDo (sync snapshot_dir) (andDo (sync []) (give (Some (aside_kept s))))))))))))))  ?Q"
    proof (cases "t pending_dir = None \<and> list_all (\<lambda>p. t p = None) (map (named vault_file) ([] # sidecars))")
      case True
      with t show ?thesis by (auto simp: gone_def vault_names_def path_defs intro!: sure_give)
    next
      case False
      then show ?thesis
        unfolding if_not_P [OF False]
        by (intro sure_thenDo [OF ready_take [OF assms(1,3) t]] sure_thenDo [OF make(1)] sure_thenDo [OF make(2)] body)
    qed
  qed
qed

section \<open>An interrupted set-aside leaves a tidy folder\<close>

lemma keeps_tidy_mkdir:
  "keeps tidy (act (tree_mkdir parents True []))" "keeps tidy (act (tree_mkdir parents True snapshot_dir))"
  by (rule keeps_act, erule tidy_mkdir(1) [rotated 2], assumption, simp)+

lemma leads_tidy_move:
  assumes "x \<in> set vault_names" and "x = ''vault.db'' \<or> ''vault.db'' \<in> xs"
  shows "leads tidy (only (tidy_moves xs)) (move_aside [x]) (\<lambda>_. only (tidy_moves (insert x xs))) (\<lambda>_. only tidy)"
  unfolding move_aside_def
proof (rule leads_looking)
  fix t
  show "leads tidy (\<lambda>w. only (tidy_moves xs) w \<and> files w = t)
     (if t [x] = None then give ()
      else andDo (insist (t (pending_dir @ [last [x]]) = None)) (act (tree_replace [x] (pending_dir @ [last [x]]))))
     (\<lambda>_. only (tidy_moves (insert x xs))) (\<lambda>_. only tidy)"
  proof (cases "t [x] = None")
    case True
    then show ?thesis by (auto simp: gone_def intro!: leads_give)
  next
    case False
    have "leads tidy (\<lambda>w. only (tidy_moves xs) w \<and> files w = t) (act (tree_replace [x] (pending_dir @ [x])))
        (\<lambda>_. only (tidy_moves (insert x xs))) (\<lambda>_. only tidy)"
    proof (rule leads_act)
      fix w t'
      assume "only (tidy_moves xs) w \<and> files w = t" and r: "tree_replace [x] (pending_dir @ [x]) (files w) = Some t'"
      then have "tidy_moves xs t" by auto
      from tidy_step [of x xs t t', OF assms this False] r \<open>_ \<and> files w = t\<close>
      show "tidy t' \<and> only (tidy_moves (insert x xs)) (w\<lparr>attempts := Suc (attempts w), files := t'\<rparr>)" by simp
    qed auto
    with False show ?thesis by (auto intro!: leads_insist_then)
  qed
qed

lemma leads_tidy_moves:
  "leads tidy (\<lambda>w. tidy (files w) \<and> files w pending_dir \<noteq> None) (forAll move_aside (map (named vault_file) ([] # sidecars)))
     (\<lambda>_. only tidy) (\<lambda>_. only tidy)"
proof -
  have "leads tidy (only (tidy_moves xs)) (forAll move_aside (map (\<lambda>x. [x]) ys)) (\<lambda>_. only tidy) (\<lambda>_. only tidy)"
    if "set ys \<subseteq> set vault_names" "''vault.db'' \<in> xs \<or> (\<exists>zs. ys = ''vault.db'' # zs)" for ys xs
    using that
  proof (induction ys arbitrary: xs)
    case Nil
    show ?case by (auto intro: leads_give)
  next
    case (Cons y ys)
    then have "leads tidy (only (tidy_moves (insert y xs))) (forAll move_aside (map (\<lambda>x. [x]) ys)) (\<lambda>_. only tidy) (\<lambda>_. only tidy)"
      using Cons.IH [of "insert y xs"] by auto
    with leads_tidy_move [of y xs] Cons.prems show ?case by (auto intro!: leads_thenDo)
  qed
  from this [of vault_names "{}"] have "leads tidy (only (tidy_moves {})) (forAll move_aside (map (\<lambda>x. [x]) vault_names)) (\<lambda>_. only tidy) (\<lambda>_. only tidy)"
    by (simp add: vault_names_def)
  moreover have "map (named vault_file) ([] # sidecars) = map (\<lambda>x. [x]) vault_names" by (simp add: path_defs vault_names_def)
  ultimately show ?thesis by (auto simp: gone_def elim!: leads_weaken)
qed

lemma leads_tidy_mkdir:
  "leads tidy (only tidy) (act (tree_mkdir True True snapshot_dir)) (\<lambda>_ w. tidy (files w) \<and> files w snapshot_dir \<noteq> None) (\<lambda>_. only tidy)"
  "leads tidy (\<lambda>w. tidy (files w) \<and> files w snapshot_dir \<noteq> None) (act (tree_mkdir False True pending_dir))
     (\<lambda>_ w. tidy (files w) \<and> files w pending_dir \<noteq> None) (\<lambda>_. only tidy)"
proof -
  have "tidy t'" "t' snapshot_dir \<noteq> None" if "tidy t" "tree_mkdir True True snapshot_dir t = Some t'" for t t'
    using tidy_mkdir(1,2) [OF that(1) _ that(2)] by simp_all
  then show "leads tidy (only tidy) (act (tree_mkdir True True snapshot_dir)) (\<lambda>_ w. tidy (files w) \<and> files w snapshot_dir \<noteq> None)
      (\<lambda>_. only tidy)"
    by (intro leads_act) simp_all
next
  have "tidy t'" "t' pending_dir \<noteq> None" if "tidy t \<and> t snapshot_dir \<noteq> None" "tree_mkdir False True pending_dir t = Some t'" for t t'
    using tidy_mkdir(1,3) [OF _ _ that(2)] that(1) by simp_all
  then show "leads tidy (\<lambda>w. tidy (files w) \<and> files w snapshot_dir \<noteq> None) (act (tree_mkdir False True pending_dir))
      (\<lambda>_ w. tidy (files w) \<and> files w pending_dir \<noteq> None) (\<lambda>_. only tidy)"
    by (intro leads_act) simp_all
qed

lemma set_aside_tidy:
  assumes "sqlite_ok Q" and "s \<noteq> ''in-progress''"
  shows "leads tidy (only tidy) (set_aside Q s) (\<lambda>_. only tidy) (\<lambda>_. only tidy)"
proof -
  have before: "keeps tidy (require_supported_sqlite Q)" "keeps tidy acquire_lock" "keeps tidy (sync p)" for p
    by (intro keeping keeps_tidy_mkdir)+
  have take: "leads tidy (\<lambda>w. only tidy w \<and> files w = t) (if filled t vault_file then thenDo (take_exclusively Q vault_file) (\<lambda>_. give ()) else give ())
      (\<lambda>_. only tidy) (\<lambda>_. only tidy)" for t
  proof (cases "filled t vault_file")
    case True
    have "leads tidy (only (\<lambda>t. tidy t \<and> filled t vault_file)) (take_exclusively Q vault_file) (\<lambda>_. only tidy) (\<lambda>_. only tidy)"
      by (rule last_stage [OF tidy_take [OF assms(1)]]) simp
    then have "leads tidy (\<lambda>w. only tidy w \<and> files w = t) (take_exclusively Q vault_file) (\<lambda>_. only tidy) (\<lambda>_. only tidy)"
      by (rule leads_weaken) (use True in auto)
    with True show ?thesis by (auto intro!: leads_thenDo leads_give)
  qed (auto intro: leads_give)
  let ?P = "\<lambda>t. tidy t \<and> t pending_dir \<noteq> None"
  have rename: "keeps tidy (act (tree_replace pending_dir (aside_kept s)))" by (rule keeps_act) (rule tidy_renamed [OF _ _ assms(2)])
  show ?thesis
    unfolding set_aside_def with_lock_def Let_def aside_kept_def [symmetric]
    by (intro leads_reporting then_stage [OF before(1)] then_stage [OF before(2)] leads_looking leads_if leads_thenDo [OF take]
      leads_thenDo [OF leads_tidy_mkdir(1)] leads_thenDo [OF leads_tidy_mkdir(2)] then_stage [OF keeps_sync [of ?P]] leads_thenDo [OF leads_tidy_moves]
      then_stage [OF before(3)] then_stage [OF rename] leads_give) auto
qed

text \<open>A second attempt does not touch what the first has gathered.\<close>

lemma gathered_stays:
  assumes "gathered t\<^sub>0 s t" and "s \<noteq> ''in-progress''" and "\<forall>q. prefix (aside_kept s') q \<longrightarrow> t q = None"
    and "untouched t (aside_places s') t'" and "x \<in> data_names" and "somewhere t\<^sub>0 x b"
  shows "contents t' (aside_kept s @ [x]) = Some b"
proof -
  have kept: "contents t (aside_kept s @ [x]) = Some b" using assms(1,5,6) by (auto simp: gathered_def)
  then have "\<not> prefix (aside_kept s') (aside_kept s @ [x])" using assms(3) by (auto simp: contents_Some)
  moreover have "\<not> prefix lock_file (aside_kept s @ [x])" "\<not> prefix vault_file (aside_kept s @ [x])" "\<not> prefix pending_dir (aside_kept s @ [x])"
      "\<not> prefix (named vault_file y) (aside_kept s @ [x])" for y
    using assms(2) by (simp_all add: aside_defs)
  ultimately have "\<forall>p \<in> aside_places s'. \<not> prefix p (aside_kept s @ [x])" unfolding aside_kept_def by blast
  from untouchedD [OF assms(4) this] kept show ?thesis by simp
qed

section \<open>Names not taken yet\<close>

definition free :: "path \<Rightarrow> tree \<Rightarrow> bool" where
  "free p t \<longleftrightarrow> (\<forall>q. prefix p q \<longrightarrow> t q = None)"

lemma free_act:
  assumes "\<And>t t' q. f t = Some t' \<Longrightarrow> free p t \<Longrightarrow> prefix p q \<Longrightarrow> t' q = None"
  shows "keeps (free p) (act f)"
  by (rule keeps_act) (use assms in \<open>auto simp: free_def\<close>)

lemma free_mkdir [keeping]: "\<not> prefix p q \<Longrightarrow> keeps (free p) (act (tree_mkdir parents exist_ok q))"
  by (rule free_act) (auto simp: tree_mkdir_def free_def split: if_splits dest: prefix_order.trans)

lemma free_lock [keeping]: "\<not> prefix p lock_file \<Longrightarrow> keeps (free p) (act open_lock)"
  by (rule free_act) (auto simp: open_lock_def free_def split: if_splits)

lemma free_replace [keeping]:
  assumes "\<not> prefix p b" and "\<not> prefix b p"
  shows "keeps (free p) (act (tree_replace a b))"
proof (rule free_act)
  fix t t' q assume r: "tree_replace a b t = Some t'" and "free p t" and q: "prefix p q"
  have "\<not> prefix b q" using assms prefix_same_cases q by blast
  with replaced [OF r] \<open>free p t\<close> q show "t' q = None" by (simp add: free_def)
qed

lemma free_take:
  assumes "sqlite_ok Q" and "p \<noteq> []" and "\<forall>q \<in> {p, named p ''-wal'', named p ''-shm'', named p ''-journal''}. \<not> prefix r q"
  shows "keeps (free r) (take_exclusively Q p)"
proof (rule keeps_take [OF assms(1,2)])
  fix t t' assume "free r t" and same: "\<And>q. q \<notin> {p, named p ''-wal'', named p ''-shm'', named p ''-journal''} \<Longrightarrow> t' q = t q"
  have "t' q = t q" if "prefix r q" for q by (rule same) (use assms(3) that in blast)
  with \<open>free r t\<close> show "free r t'" by (simp add: free_def)
qed

lemma set_aside_free:
  assumes "sqlite_ok Q" and "s' \<noteq> s" and "s' \<noteq> ''in-progress''"
  shows "keeps (free (aside_kept s')) (set_aside Q s)"
proof -
  have paths: "map (named vault_file) ([] # sidecars) = map (\<lambda>x. [x]) vault_names" by (simp add: path_defs vault_names_def)
  have take: "keeps (free (aside_kept s')) (take_exclusively Q vault_file)" by (rule free_take [OF assms(1)]) (auto simp: aside_defs)
  show ?thesis
    unfolding set_aside_def with_lock_def Let_def aside_kept_def [symmetric] paths move_aside_def
    by (intro keeping take) (use assms(2,3) in \<open>auto simp: aside_defs vault_names_def\<close>)
qed

end
