(* ===== verification/Storage_Copies.thy ===== *)
theory Storage_Copies
  imports Storage_Safety
begin

text \<open>
  Copies of the vault file: what \<^verbatim>\<open>_copy\<close>, snapshots, migrations and restores guarantee for every file
  system they pass through. Each program is cut into stages, each stage keeps an invariant, and
  \<open>untouched\<close> carries what a stage does not reach.
\<close>

section \<open>A checked copy\<close>

definition family :: "path \<Rightarrow> path set" where
  "family p = named p ` set ([] # sidecars)"

definition apart :: "path set \<Rightarrow> path \<Rightarrow> bool" where
  "apart S p \<longleftrightarrow> (\<forall>q \<in> family p. \<forall>r \<in> S. \<not> prefix r q)"

lemma named_nil [simp]: "p \<noteq> [] \<Longrightarrow> named p [] = p"
  by (simp add: named_def)

lemma db_at_untouched:
  assumes "untouched t\<^sub>0 S t" and "apart S p" and "p \<noteq> []"
  shows "db_at t p = db_at t\<^sub>0 p"
proof -
  have "contents t (named p x) = contents t\<^sub>0 (named p x)" if "x \<in> set ([] # sidecars)" for x
    by (rule untouchedD [OF assms(1)]) (use assms(2) that in \<open>auto simp: apart_def family_def\<close>)
  from this [of "[]"] this [of "''-wal''"] this [of "''-shm''"] this [of "''-journal''"] assms(3)
  show ?thesis by (simp add: db_at_def sidecars_def)
qed

lemma untouched_discard [keeping]: "(\<And>q. q \<in> family p \<Longrightarrow> reached S q) \<Longrightarrow> keeps (untouched t\<^sub>0 S) (discard p)"
  unfolding discard_def family_def by (intro keeping) blast

lemma untouched_copy_file [keeping]: "reached S q \<Longrightarrow> keeps (untouched t\<^sub>0 S) (copy_file p q)"
  unfolding copy_file_def
proof (intro keeps_thenDo keeps_untouched_act)
  fix t t' r assume q: "reached S q" and r: "\<forall>p \<in> S. \<not> prefix p r"
    and "(case contents t p of None \<Rightarrow> None | Some b \<Rightarrow> tree_write q b t) = Some t'"
  with unreached [OF q r] show "contents t' r = contents t r" by (auto simp: tree_write_def contents_def split: option.splits if_splits)
next
  fix t t' r assume q: "reached S q" and r: "\<forall>p \<in> S. \<not> prefix p r"
    and "(if is_file t p then tree_write q [] t else None) = Some t'"
  with unreached [OF q r] show "contents t' r = contents t r" by (auto simp: tree_write_def contents_def split: if_splits)
qed

lemma untouched_backup_into [keeping]: "reached S q \<Longrightarrow> keeps (untouched t\<^sub>0 S) (backup_into Q wal p q)"
  unfolding backup_into_def by (rule keeps_looking_any) (auto intro!: keeping split: option.splits)

lemma leads_undoing:
  assumes "leads J P m Q (\<lambda>_. only J)" and "keeps J c"
  shows "leads J P (undoing c m) Q (\<lambda>_. only J)"
  unfolding undoing_def
  by (rule leads_rescue [OF assms(1)], rule leads_thenDo [OF assms(2) [unfolded keeps_def]], rule leads_fail)

text \<open>The copy gets its name when it is complete and checked; until then the name has what it had.\<close>

definition partial_of :: "path \<Rightarrow> path" where
  "partial_of p = named p ''.partial''"

abbreviation copying :: "tree \<Rightarrow> path set \<Rightarrow> path \<Rightarrow> bytes \<Rightarrow> tree \<Rightarrow> bool" where
  "copying t\<^sub>0 S p b t \<equiv> untouched t\<^sub>0 (insert p S) t \<and> (contents t p = contents t\<^sub>0 p \<or> contents t p = Some b)"

abbreviation copied :: "tree \<Rightarrow> path set \<Rightarrow> path \<Rightarrow> bytes \<Rightarrow> tree \<Rightarrow> bool" where
  "copied t\<^sub>0 S p b t \<equiv> untouched t\<^sub>0 (insert p S) t \<and> contents t p = Some b"

lemma contents_write: "tree_write p b t = Some t' \<Longrightarrow> contents t' p = Some b"
  by (auto simp: tree_write_def contents_def split: if_splits)

lemma contents_replace: "tree_replace p q t = Some t' \<Longrightarrow> contents t' q = contents t p"
  by (drule replaced) (simp add: contents_def)

text \<open>A change that keeps \<open>I\<close>, with what else it does.\<close>

lemma keeps_actD:
  assumes "keeps I (act f)" and "I t" and "f t = Some t'"
  shows "I t'"
proof -
  let ?w = "\<lparr>files = t, faults = \<lambda>_. False, attempts = 0, locked = False\<rparr>"
  have "act f ?w = ([t'], Inr (), ?w\<lparr>attempts := 1, files := t'\<rparr>)" using assms(3) by (simp add: act_def)
  from leadsD [OF assms(1) [unfolded keeps_def] _ this] assms(2) show ?thesis by simp
qed

lemma leads_also:
  assumes "keeps I (act f)" and "\<And>w. P w \<Longrightarrow> I (files w)" and "\<And>w t. P w \<Longrightarrow> f (files w) = Some t \<Longrightarrow> Q t"
  shows "leads I P (act f) (\<lambda>_ w. I (files w) \<and> Q (files w)) (\<lambda>_. only I)"
  by (rule leads_act) (simp_all add: assms(2,3) keeps_actD [OF assms(1) assms(2)])

lemma leads_wider:
  assumes "leads I P m Q (\<lambda>_. only I)" and "\<And>t. I t \<Longrightarrow> J t"
  shows "leads J P m Q (\<lambda>_. only J)"
  unfolding leads_def
proof (intro allI impI)
  fix w t r w' assume "P w" "m w = (t, r, w')"
  from leadsD [OF assms(1) this] assms(2)
  show "(\<forall>u \<in> set t. J u) \<and> (case r of Inl e \<Rightarrow> J (files w') | Inr x \<Rightarrow> Q x w')" by (cases r) auto
qed

lemma leads_backup_into:
  assumes "apart S source" and "source \<noteq> []" and "reached S p"
  shows "leads (untouched t\<^sub>0 S) (only (untouched t\<^sub>0 S)) (backup_into Q wal source p)
    (\<lambda>_ w. untouched t\<^sub>0 S (files w) \<and> contents (files w) p = Some (sq_copy Q wal (db_at t\<^sub>0 source)) \<and> sq_view Q (db_at t\<^sub>0 source) \<noteq> None)
    (\<lambda>_. only (untouched t\<^sub>0 S))"
  unfolding backup_into_def
proof (rule leads_looking)
  fix t
  let ?U = "untouched t\<^sub>0 S"
  let ?C = "\<lambda>w. ?U (files w) \<and> contents (files w) p = Some (sq_copy Q wal (db_at t\<^sub>0 source)) \<and> sq_view Q (db_at t\<^sub>0 source) \<noteq> None"
  show "leads ?U (\<lambda>w. only ?U w \<and> files w = t) (case sq_view Q (db_at t source) of None \<Rightarrow> fail DatabaseError
      | Some v \<Rightarrow> act (tree_write p (sq_copy Q wal (db_at t source)))) (\<lambda>_. ?C) (\<lambda>_. only ?U)"
  proof (cases "?U t")
    case True
    then have same: "db_at t source = db_at t\<^sub>0 source" using db_at_untouched assms(1,2) by blast
    have "leads ?U (\<lambda>w. only ?U w \<and> files w = t) (act (tree_write p b)) (\<lambda>_ w. ?U (files w) \<and> contents (files w) p = Some b) (\<lambda>_. only ?U)" for b
      by (rule leads_also [OF untouched_write [OF assms(3)]]) (auto simp: contents_write)
    then show ?thesis
      unfolding same by (auto split: option.splits intro!: leads_fail)
  next
    case False
    then show ?thesis by (auto simp: leads_def)
  qed
qed

lemma copy_vault_copies:
  assumes S: "family (partial_of p) \<subseteq> S" "\<forall>r \<in> S. \<not> prefix r p" and source: "apart S source" "source \<noteq> []" and "p \<noteq> []"
  shows "leads (copying t\<^sub>0 S p (sq_copy Q wal (db_at t\<^sub>0 source))) (only (untouched t\<^sub>0 S)) (copy_vault Q source p wal)
    (\<lambda>_ w. copied t\<^sub>0 S p (sq_copy Q wal (db_at t\<^sub>0 source)) (files w) \<and> sq_view Q (db_at t\<^sub>0 source) \<noteq> None)
    (\<lambda>_. only (copying t\<^sub>0 S p (sq_copy Q wal (db_at t\<^sub>0 source))))"
proof -
  let ?b = "sq_copy Q wal (db_at t\<^sub>0 source)" and ?U = "untouched t\<^sub>0 S" and ?q = "partial_of p"
  let ?J = "copying t\<^sub>0 S p ?b" and ?C = "\<lambda>t. untouched t\<^sub>0 S t \<and> contents t (partial_of p) = Some (sq_copy Q wal (db_at t\<^sub>0 source)) \<and> sq_view Q (db_at t\<^sub>0 source) \<noteq> None"
  let ?D = "\<lambda>t. copied t\<^sub>0 S p ?b t \<and> sq_view Q (db_at t\<^sub>0 source) \<noteq> None"
  have "?q \<noteq> []" "\<not> prefix ?q p" using S(1) S(2) by (auto simp: partial_of_def named_def family_def)
  then have q: "?q \<in> family ?q" by (simp add: family_def)
  have U: "?J t" if "?U t" for t using that untouchedD [OF that S(2)] by (auto intro: untouched_more)
  have clean: "keeps (untouched t S) (discard ?q)" "keeps (untouched t S) (act (tree_create ?q))" for t
    using S(1) q by (auto intro!: keeping)
  have clean': "keeps ?J (discard ?q)"
    by (rule keeps_by_untouched [OF clean(1)]) (use untouchedD [OF _ S(2)] in \<open>auto intro: untouched_trans untouched_more\<close>)
  have fill: "leads ?J (only ?U) (backup_into Q wal source ?q) (\<lambda>_. only ?C) (\<lambda>_. only ?J)"
    by (rule leads_wider [OF leads_backup_into [OF source] U]) (use S(1) q in auto)
  have rename: "leads ?J (only ?C) (act (tree_replace ?q p)) (\<lambda>_. only ?D) (\<lambda>_. only ?J)"
  proof (rule leads_act)
    fix w t assume C: "only ?C w" and t: "tree_replace ?q p (files w) = Some t"
    have "untouched t\<^sub>0 (insert p S) (files w)" using C untouched_more [of t\<^sub>0 S _ "insert p S"] by blast
    moreover have "keeps (untouched t\<^sub>0 (insert p S)) (act (tree_replace ?q p))" using S(1) q by (intro keeping) auto
    ultimately have "untouched t\<^sub>0 (insert p S) t" using keeps_actD t by blast
    then show "?J t \<and> only ?D (w\<lparr>attempts := Suc (attempts w), files := t\<rparr>)" using contents_replace [OF t] C by simp
  qed (use U in simp)
  show ?thesis
    unfolding copy_vault_def Let_def partial_of_def [symmetric]
    by (intro then_stage [OF clean(1) U] then_stage [OF clean(2) U] leads_undoing [OF _ clean'] then_stage [OF keeps_connect U]
        leads_thenDo [OF fill] then_stage [OF keeps_read_view] then_stage [OF keeps_insist] then_stage [OF keeps_sync]
        leads_thenDo [OF rename] stage [OF keeps_sync]) (auto simp: U)
qed

lemma keeps_both:
  assumes "keeps I m" and "keeps J m"
  shows "keeps (\<lambda>t. I t \<and> J t) m"
  unfolding keeps_def leads_def
proof (intro allI impI)
  fix w t r w' assume "only I w \<and> only J w" and run: "m w = (t, r, w')"
  then have "only I w" "only J w" by simp_all
  with leadsD [OF assms(1) [unfolded keeps_def] _ run] leadsD [OF assms(2) [unfolded keeps_def] _ run]
  show "(\<forall>u \<in> set t. I u \<and> J u) \<and> (case r of Inl e \<Rightarrow> only I w' \<and> only J w' | Inr x \<Rightarrow> only I w' \<and> only J w')"
    by (cases r) simp_all
qed

lemma present_mkdir [keeping]: "keeps (\<lambda>t. c \<longrightarrow> t p \<noteq> None) (act (tree_mkdir parents exist_ok q))"
  by (rule keeps_act) (auto simp: tree_mkdir_def split: if_splits)

lemma present_lock [keeping]: "keeps (\<lambda>t. c \<longrightarrow> t p \<noteq> None) (act open_lock)"
  by (rule keeps_act) (auto simp: open_lock_def split: if_splits)

text \<open>What a program has found out stays true.\<close>

lemma leads_known: "(c \<Longrightarrow> leads I P m Q R) \<Longrightarrow> leads I (\<lambda>w. P w \<and> c) m Q R"
  unfolding leads_def by blast

lemma leads_read_view:
  "(\<And>w. P w \<Longrightarrow> R DatabaseError w) \<Longrightarrow> leads I P (read_view Q p) (\<lambda>v w. P w \<and> sq_view Q (db_at (files w) p) = Some v) R"
  unfolding read_view_def
  by (rule leads_looking) (auto split: option.splits intro!: leads_fail leads_give)

lemma leads_check_file:
  assumes "\<And>w. P w \<Longrightarrow> J (files w)"
  shows "leads J P (check_file Q p)
    (\<lambda>problems w. P w \<and> (\<not> problems \<longrightarrow> (\<exists>v. sq_view Q (db_at (files w) p) = Some v \<and> \<not> check_connection v))) (\<lambda>_. only J)"
proof -
  let ?Q = "\<lambda>problems w. P w \<and> (\<not> problems \<longrightarrow> (\<exists>v. sq_view Q (db_at (files w) p) = Some v \<and> \<not> check_connection v))"
  have "leads J P (andDo (connect_existing p) (thenDo (read_view Q p) (\<lambda>v. give (check_connection v)))) ?Q (\<lambda>_. P)"
    unfolding connect_existing_def
    by (intro leads_thenDo [where M = "\<lambda>_. P"] leads_looking_any leads_insist leads_thenDo [OF leads_read_view] leads_give) auto
  then show ?thesis
    unfolding check_file_def require_supported_sqlite_def
    by (intro leads_insist_then leads_rescue [where M = "\<lambda>_. P"]) (auto intro: leads_give leads_fail assms)
qed

lemma keeps_const [keeping]: "keeps (\<lambda>_. c) m"
  by (auto simp: keeps_def leads_def split: sum.splits)

lemma untouched_transact [keeping]: "(\<And>q. q \<in> family p \<Longrightarrow> reached S q) \<Longrightarrow> p \<noteq> [] \<Longrightarrow> keeps (untouched t\<^sub>0 S) (transact f p)"
  unfolding transact_def
  by (intro keeps_thenDo keeps_looking_any keeping) (auto intro!: keeping simp: family_def split: option.splits)

section \<open>Snapshots\<close>

lemma partial_elsewhere:
  assumes "p \<noteq> []" and "r \<in> family (partial_of p)"
  shows "\<not> prefix r p" and "q \<in> family vault_file \<Longrightarrow> \<not> prefix r q"
proof -
  from assms obtain x where r: "r = butlast p @ [last p @ ''.partial'' @ x]"
    by (auto simp: family_def partial_of_def named_def)
  have "last p @ ''.partial'' @ x \<noteq> last p" by simp
  then show "\<not> prefix r p" using assms(1) unfolding r by (metis append_butlast_last_id same_prefix_prefix prefix_Cons list.inject not_Cons_self2)
  have "CHR ''p'' \<in> set (last p @ ''.partial'' @ x)" by simp
  moreover have "CHR ''p'' \<notin> set y" if "[y] \<in> family vault_file" for y
    using that by (auto simp: family_def path_defs)
  ultimately have "[last p @ ''.partial'' @ x] \<noteq> q" if "q \<in> family vault_file" using that by metis
  moreover have "prefix r q \<Longrightarrow> q \<in> family vault_file \<Longrightarrow> r = q"
    by (auto simp: family_def path_defs r prefix_Cons)
  ultimately show "q \<in> family vault_file \<Longrightarrow> \<not> prefix r q"
    using r by (auto simp: family_def path_defs prefix_Cons append_eq_Cons_conv)
qed

abbreviation snapshot_path :: "string \<Rightarrow> path option \<Rightarrow> path" where
  "snapshot_path time_text destination \<equiv>
     (case destination of None \<Rightarrow> snapshot_dir @ [timestamped ''vault'' time_text] | Some p \<Rightarrow> p)"

lemma snapshot_copies:
  assumes p: "p = snapshot_path s destination" "p \<noteq> []" and S: "S = family (partial_of p)"
    and b: "b = sq_copy Q False (db_at t\<^sub>0 vault_file)"
    and J: "J = (\<lambda>t. copying t\<^sub>0 S p b t \<and> (t\<^sub>0 p \<noteq> None \<longrightarrow> contents t p = contents t\<^sub>0 p))"
  shows "leads J (only (\<lambda>t. t = t\<^sub>0)) (snapshot Q s destination)
    (\<lambda>q w. q = p \<and> t\<^sub>0 p = None \<and> copied t\<^sub>0 S p b (files w) \<and> sq_view Q (db_at t\<^sub>0 vault_file) \<noteq> None
       \<and> \<not> (butlast p = [] \<and> prefix ''vault.db'' (last p))) (\<lambda>_. only J)"
proof -
  let ?U = "\<lambda>t. untouched t\<^sub>0 S t \<and> (t\<^sub>0 p \<noteq> None \<longrightarrow> t p \<noteq> None)"
  have far: "\<forall>r \<in> S. \<not> prefix r p" "apart S vault_file" "vault_file \<noteq> []" using partial_elsewhere [OF p(2)] S
    by (auto simp: apart_def vault_file_def)
  have U: "J t" if "?U t" for t using that untouchedD [OF conjunct1 [OF that] far(1)] by (auto simp: J intro: untouched_more)
  have mkdir: "keeps ?U (act (tree_mkdir True True snapshot_dir))"
    by (intro keeps_both keeping)
  have copy: "leads J (\<lambda>w. ?U (files w) \<and> t\<^sub>0 p = None) (copy_vault Q vault_file p False)
      (\<lambda>_ w. t\<^sub>0 p = None \<and> copied t\<^sub>0 S p b (files w) \<and> sq_view Q (db_at t\<^sub>0 vault_file) \<noteq> None) (\<lambda>_. only J)"
  proof (cases "t\<^sub>0 p = None")
    case True
    from copy_vault_copies [OF _ far p(2), where Q = Q and wal = False and t\<^sub>0 = t\<^sub>0] True show ?thesis
      unfolding J b S by (auto elim!: leads_weaken)
  qed (auto simp: leads_def)
  have check: "leads J (only ?U) (looking (\<lambda>t. insist (t p = None))) (\<lambda>_ w. ?U (files w) \<and> t\<^sub>0 p = None) (\<lambda>_. only J)"
    by (rule leads_looking, rule leads_insist) (use U in auto)
  have "leads J (only ?U) (snapshot Q s destination)
    (\<lambda>q w. q = p \<and> t\<^sub>0 p = None \<and> copied t\<^sub>0 S p b (files w) \<and> sq_view Q (db_at t\<^sub>0 vault_file) \<noteq> None
       \<and> \<not> (butlast p = [] \<and> prefix ''vault.db'' (last p))) (\<lambda>_. only J)"
    unfolding snapshot_def Let_def p(1) [symmetric]
    by (intro then_stage [OF keeps_require U] leads_thenDo [OF leads_reporting [OF stage [OF mkdir U]]] leads_insist_then
        leads_thenDo [OF check] leads_thenDo [OF leads_reporting [OF copy]] leads_give) (use U in auto)
  then show ?thesis by (rule leads_weaken) auto
qed

section \<open>Migrations\<close>

definition saving :: "path \<Rightarrow> path set" where
  "saving p = insert lock_file (family p)"

abbreviation migrating :: "tree \<Rightarrow> path \<Rightarrow> bytes \<Rightarrow> tree \<Rightarrow> bool" where
  "migrating t\<^sub>0 p b t \<equiv>
     untouched t\<^sub>0 (saving p \<union> family vault_file) t
     \<and> (untouched t\<^sub>0 (saving p) t \<or> contents t p = Some b) \<and> (t\<^sub>0 p \<noteq> None \<longrightarrow> contents t p = contents t\<^sub>0 p)"

abbreviation migrated :: "tree \<Rightarrow> path \<Rightarrow> bytes \<Rightarrow> tree \<Rightarrow> bool" where
  "migrated t\<^sub>0 p b t \<equiv>
     untouched t\<^sub>0 (saving p \<union> family vault_file) t \<and> t\<^sub>0 p = None \<and> contents t p = Some b"

text \<open>The copy is complete before the live file changes.\<close>

lemma migrate_saves:
  assumes p: "p = snapshot_dir @ [timestamped kind s]" and none: "t\<^sub>0 p = None" and b: "b = sq_copy Q False (db_at t\<^sub>0 vault_file)"
  shows "leads (migrating t\<^sub>0 p b) (only (untouched t\<^sub>0 (saving p)))
    (andDo (act (tree_create p)) (andDo (undoing (discard p) (backup_into Q False vault_file p))
      (andDo (sync p) (andDo (sync snapshot_dir) (transact change vault_file)))))
    (\<lambda>_. only (migrated t\<^sub>0 p b)) (\<lambda>_. only (migrating t\<^sub>0 p b))"
proof -
  let ?S = "saving p" and ?J = "migrating t\<^sub>0 p b" and ?D = "migrated t\<^sub>0 p b"
  let ?C = "\<lambda>t. untouched t\<^sub>0 (saving p) t \<and> contents t p = Some b"
  have far: "apart ?S vault_file" "vault_file \<noteq> []" "reached ?S p"
    by (auto simp: apart_def family_def saving_def p path_defs)
  have more: "untouched t\<^sub>0 (?S \<union> family vault_file) t" if "untouched t\<^sub>0 ?S t" for t using that by (rule untouched_more) blast
  have U: "?J t" if "untouched t\<^sub>0 ?S t" for t using that none by (simp add: more)
  have D: "?J t" if "?D t" for t using that by simp
  have C: "?D t" if "?C t" for t using that none by (simp add: more)
  have discard: "keeps (untouched t\<^sub>0 ?S) (discard p)" by (rule untouched_discard) (auto simp: saving_def)
  have create: "keeps (untouched t\<^sub>0 ?S) (act (tree_create p))" by (rule untouched_create [OF far(3)])
  have fill: "leads ?J (only (untouched t\<^sub>0 ?S)) (undoing (discard p) (backup_into Q False vault_file p)) (\<lambda>_. only ?C) (\<lambda>_. only ?J)"
    by (rule leads_weaken [OF leads_wider [OF leads_undoing [OF leads_backup_into [OF far] discard] U]]) (simp_all add: b)
  have change: "keeps ?D (transact change vault_file)"
  proof (rule keeps_by_untouched [OF untouched_transact])
    fix t t' assume t: "?D t" and t': "untouched t (family vault_file) t'"
    have "contents t' p = contents t p" by (rule untouchedD [OF t']) (auto simp: family_def p path_defs)
    with t untouched_trans [OF _ untouched_more [OF t', of "?S \<union> family vault_file"]] show "?D t'" by auto
  qed (use far(2) in blast)+
  have commit: "leads ?J (only ?C) (transact change vault_file) (\<lambda>_. only ?D) (\<lambda>_. only ?J)"
    by (rule leads_weaken [OF stage [OF change D]]) (assumption, rule C, assumption+)
  show ?thesis
    by (intro then_stage [OF create U] leads_thenDo [OF fill] then_stage [OF keeps_sync, of ?C] commit) (assumption | rule C D)+
qed

lemma migrate_copies:
  assumes p: "p = snapshot_dir @ [timestamped kind s]" and b: "b = sq_copy Q False (db_at t\<^sub>0 vault_file)"
  shows "leads (migrating t\<^sub>0 p b) (only (\<lambda>t. t = t\<^sub>0)) (migrate Q kind s expected change)
    (\<lambda>q w. q = p \<and> migrated t\<^sub>0 p b (files w)
       \<and> (\<exists>v. sq_view Q (db_at t\<^sub>0 vault_file) = Some v \<and> vw_application_id v = APPLICATION_ID \<and> vw_user_version v = expected)
       \<and> (\<exists>v. sq_view Q (db_at (files w) vault_file) = Some v \<and> \<not> check_connection v)) (\<lambda>_. only (migrating t\<^sub>0 p b))"
proof -
  let ?S = "saving p" and ?J = "migrating t\<^sub>0 p b" and ?D = "migrated t\<^sub>0 p b"
  let ?P = "\<lambda>t. untouched t\<^sub>0 {lock_file} t \<and> (t\<^sub>0 p \<noteq> None \<longrightarrow> t p \<noteq> None)"
  let ?known = "\<exists>v. sq_view Q (db_at t\<^sub>0 vault_file) = Some v \<and> vw_application_id v = APPLICATION_ID \<and> vw_user_version v = expected"
  have far: "apart {lock_file} vault_file" "vault_file \<noteq> []" "\<not> prefix lock_file p"
    by (auto simp: apart_def family_def saving_def p path_defs)
  have P: "?J t" if "?P t" for t
  proof -
    have "untouched t\<^sub>0 ?S t" "untouched t\<^sub>0 (?S \<union> family vault_file) t" using that untouched_more [of t\<^sub>0 "{lock_file}"] by (auto simp: saving_def)
    moreover have "contents t p = contents t\<^sub>0 p" by (rule untouchedD [of _ "{lock_file}"]) (use that far in auto)
    ultimately show ?thesis by simp
  qed
  have D: "?J t" if "?D t" for t using that by simp
  have before: "keeps ?P (act (tree_mkdir True True snapshot_dir))" "keeps ?P acquire_lock"
    by (intro keeps_both keeping; simp)+
  have same: "db_at t vault_file = db_at t\<^sub>0 vault_file" if "?P t" for t using db_at_untouched [OF _ far(1,2)] that by blast
  have view: "leads ?J (only ?P) (read_view Q vault_file) (\<lambda>v w. only ?P w \<and> sq_view Q (db_at t\<^sub>0 vault_file) = Some v) (\<lambda>_. only ?J)"
    by (rule leads_weaken [OF leads_read_view [where P = "only ?P" and R = "\<lambda>_. only ?P"]])
      (assumption, assumption, metis same, rule P, assumption)
  have check: "leads ?J (only ?P) (looking (\<lambda>t. insist (t p = None))) (\<lambda>_ w. untouched t\<^sub>0 ?S (files w) \<and> t\<^sub>0 p = None) (\<lambda>_. only ?J)"
    by (rule leads_looking, rule leads_insist, simp add: untouched_more [of _ "{lock_file}"] saving_def, rule P, blast)
  have save: "leads ?J (only (untouched t\<^sub>0 ?S)) (andDo (act (tree_create p)) (andDo (undoing (discard p) (backup_into Q False vault_file p))
      (andDo (sync p) (andDo (sync snapshot_dir) (transact change vault_file))))) (\<lambda>_ w. only ?D w \<and> known) (\<lambda>_. only ?J)"
    if none: "t\<^sub>0 p = None" and "known" for known
    by (rule leads_weaken [OF migrate_saves [OF p none b]]) (simp_all add: that)
  have locked: "leads ?J (only ?P) (with_lock (reporting {DatabaseError}
           (andDo (connect_existing vault_file)
           (thenDo (read_view Q vault_file) (\<lambda>v.
            andDo (insist (vw_application_id v = APPLICATION_ID \<and> vw_user_version v = expected))
           (andDo (insist (vw_intact v \<and> vw_references_ok v \<and> format_problem (vw_formats v) = None))
           (andDo (looking (\<lambda>t. insist (t p = None)))
           (andDo (act (tree_create p)) (andDo (undoing (discard p) (backup_into Q False vault_file p))
           (andDo (sync p) (andDo (sync snapshot_dir) (transact change vault_file)))))))))))) (\<lambda>_ w. only ?D w \<and> ?known) (\<lambda>_. only ?J)"
    unfolding with_lock_def
    by (intro then_stage [OF before(2) P] then_stage [OF keeps_connect P] leads_reporting leads_thenDo [OF view] leads_known leads_insist_then
        leads_thenDo [OF check] save) (assumption | rule P | blast)+
  have "leads ?J (only ?P) (migrate Q kind s expected change)
    (\<lambda>q w. q = p \<and> ?D (files w) \<and> ?known
       \<and> (\<exists>v. sq_view Q (db_at (files w) vault_file) = Some v \<and> \<not> check_connection v)) (\<lambda>_. only ?J)"
    unfolding migrate_def Let_def p [symmetric]
    by (intro then_stage [OF keeps_require P] then_stage [OF before(1) P] leads_thenDo [OF locked] leads_known
        leads_thenDo [OF leads_check_file [of "only ?D" ?J Q vault_file]] leads_insist_then leads_give)
      (assumption | (insert D, blast))+
  then show ?thesis by (rule leads_weaken) (simp, assumption, assumption)
qed

end
