(* ===== verification/Storage_Restore.thy ===== *)
theory Storage_Restore
  imports Storage_Copies
begin

text \<open>
  Restoring a snapshot. The stages: the copy is staged next to the vault file, the replaced vault is
  kept byte for byte, its log is folded in or moved away, and the staged copy takes its place.
\<close>

definition replaced_kept :: "string \<Rightarrow> path" where
  "replaced_kept s = snapshot_dir @ [kept_name ''replaced'' s]"

text \<open>What a restore may change before the replaced vault is kept.\<close>

definition restore_touches :: "string \<Rightarrow> path set" where
  "restore_touches s =
     {lock_file, staged_file, named vault_file ''-shm'', named vault_file ''-journal'', replaced_kept s} \<union> family (partial_of staged_file)"

definition staged :: "tree \<Rightarrow> string \<Rightarrow> bytes \<Rightarrow> tree \<Rightarrow> bool" where
  "staged t\<^sub>0 s b t \<longleftrightarrow> untouched t\<^sub>0 (restore_touches s) t \<and> contents t staged_file = Some b"

definition kept_raw :: "tree \<Rightarrow> string \<Rightarrow> string set \<Rightarrow> tree \<Rightarrow> bool" where
  "kept_raw t\<^sub>0 s xs t \<longleftrightarrow>
     (\<forall>x \<in> xs. \<forall>b. contents t\<^sub>0 (named vault_file x) = Some b \<longrightarrow> contents t (replaced_kept s @ [last (named vault_file x)]) = Some b)"

definition live_known :: "sqlite \<Rightarrow> tree \<Rightarrow> tree \<Rightarrow> bool" where
  "live_known Q t\<^sub>0 t \<longleftrightarrow> contents t vault_file = contents t\<^sub>0 vault_file
     \<or> (\<exists>d. df_main d = df_main (db_at t\<^sub>0 vault_file) \<and> df_wal d = df_wal (db_at t\<^sub>0 vault_file) \<and> contents t vault_file = Some (df_main (sq_fold Q d)))"

definition in_place :: "tree \<Rightarrow> tree \<Rightarrow> bool" where
  "in_place t\<^sub>0 t \<longleftrightarrow> (\<forall>x \<in> {[], ''-wal''}. contents t (named vault_file x) = contents t\<^sub>0 (named vault_file x))"

definition restore_safe :: "sqlite \<Rightarrow> tree \<Rightarrow> string \<Rightarrow> bytes \<Rightarrow> tree \<Rightarrow> bool" where
  "restore_safe Q t\<^sub>0 s b t \<longleftrightarrow>
     (filled t\<^sub>0 vault_file \<longrightarrow> (in_place t\<^sub>0 t \<or> kept_raw t\<^sub>0 s {[], ''-wal''} t) \<and> (live_known Q t\<^sub>0 t \<or> contents t vault_file = Some b))"

lemmas restore_defs = restore_touches_def replaced_kept_def kept_name_def partial_of_def family_def path_defs

lemma untouched_take_safe [keeping]:
  assumes "sqlite_ok Q" and "p \<noteq> []" and "reached S (named p ''-shm'')" and "reached S (named p ''-journal'')"
  shows "keeps (untouched t\<^sub>0 S) (take_exclusively Q p)"
proof (rule keeps_take [OF assms(1,2)])
  fix t t' assume u: "untouched t\<^sub>0 S t" and same: "contents t' p = contents t p" "contents t' (named p ''-wal'') = contents t (named p ''-wal'')"
    "\<And>q. q \<notin> {p, named p ''-wal'', named p ''-shm'', named p ''-journal''} \<Longrightarrow> t' q = t q"
  have "contents t' q = contents t q" if "\<forall>p \<in> S. \<not> prefix p q" for q
  proof (cases "q \<in> {p, named p ''-wal'', named p ''-shm'', named p ''-journal''}")
    case False
    then show ?thesis using same(3) by (simp add: contents_def)
  next
    case True
    with that assms(3,4) same(1,2) show ?thesis by auto
  qed
  with u show "untouched t\<^sub>0 S t'" by (auto simp: untouched_def)
qed

text \<open>What the stages keep, by what they reach.\<close>

lemma staged_untouched:
  assumes "staged t\<^sub>0 s b t" and "untouched t S t'" and "S \<subseteq> restore_touches s - {staged_file}" and "\<forall>p \<in> S. \<not> prefix p staged_file"
  shows "staged t\<^sub>0 s b t'"
  using assms untouchedD [OF assms(2,4)] untouched_trans [OF _ untouched_more [OF assms(2)]]
  unfolding staged_def by (metis Diff_subset subset_trans)

lemma staged_safe: "staged t\<^sub>0 s b t \<Longrightarrow> restore_safe Q t\<^sub>0 s b' t"
proof -
  assume s: "staged t\<^sub>0 s b t"
  have "contents t (named vault_file x) = contents t\<^sub>0 (named vault_file x)" if "x \<in> {[], ''-wal''}" for x
    by (rule untouchedD [of _ "restore_touches s"]) (use s that in \<open>auto simp: staged_def restore_defs\<close>)
  from this this [of "[]"] show ?thesis by (simp add: restore_safe_def in_place_def live_known_def vault_file_def)
qed

lemma keeps_staged:
  assumes "\<And>t\<^sub>0. keeps (untouched t\<^sub>0 S) m" and "S \<subseteq> restore_touches s - {staged_file}" and "\<forall>p \<in> S. \<not> prefix p staged_file"
  shows "keeps (staged t\<^sub>0 s b) m"
  by (rule keeps_by_untouched [OF assms(1)]) (rule staged_untouched [OF _ _ assms(2,3)])

lemma staged_in_kept: "(\<And>t\<^sub>0. keeps (untouched t\<^sub>0 {replaced_kept s}) m) \<Longrightarrow> keeps (staged t\<^sub>0 s b) m"
  by (rule keeps_staged) (auto simp: restore_defs)

lemma staged_take: "sqlite_ok Q \<Longrightarrow> keeps (staged t\<^sub>0 s b) (take_exclusively Q vault_file)"
  by (rule keeps_staged [where S = "{named vault_file ''-shm'', named vault_file ''-journal''}"], rule untouched_take_safe)
    (auto simp: restore_defs)

section \<open>Keeping the replaced vault\<close>

lemma kept_raw_write:
  assumes "kept_raw t\<^sub>0 s xs t" and "tree_write (replaced_kept s @ [last (named vault_file x)]) b t = Some t'" and "x \<notin> xs"
  shows "kept_raw t\<^sub>0 s xs t'"
proof -
  have "last (named vault_file y) \<noteq> last (named vault_file x)" if "y \<in> xs" for y using assms(3) that by (auto simp: named_def)
  with assms show ?thesis by (auto simp: kept_raw_def tree_write_def contents_def split: if_splits)
qed

lemma keep_raw_step:
  assumes "x \<in> {[], ''-wal''}" and "x \<notin> xs"
  shows "leads (staged t\<^sub>0 s b) (only (\<lambda>t. staged t\<^sub>0 s b t \<and> kept_raw t\<^sub>0 s xs t))
    (looking (\<lambda>t. onlyIf (t (named vault_file x) \<noteq> None)
       (andDo (copy_file (named vault_file x) (replaced_kept s @ [last (named vault_file x)])) (sync (replaced_kept s @ [last (named vault_file x)])))))
    (\<lambda>_. only (\<lambda>t. staged t\<^sub>0 s b t \<and> kept_raw t\<^sub>0 s (insert x xs) t)) (\<lambda>_. only (staged t\<^sub>0 s b))"
proof -
  let ?p = "replaced_kept s @ [last (named vault_file x)]" and ?I = "\<lambda>t. staged t\<^sub>0 s b t \<and> kept_raw t\<^sub>0 s xs t"
  have wrote: "?I t'" if "?I t" "tree_write ?p c t = Some t'" for t t' c
    using keeps_actD [OF staged_in_kept [OF untouched_write] _ that(2)] kept_raw_write [OF _ that(2) assms(2)] that(1) by auto
  have same: "contents t (named vault_file x) = contents t\<^sub>0 (named vault_file x)" if "staged t\<^sub>0 s b t" for t
    by (rule untouchedD [of _ "restore_touches s"]) (use assms(1) that in \<open>auto simp: staged_def restore_defs\<close>)
  have more: "kept_raw t\<^sub>0 s (insert x xs) t'" if "?I t" "contents t (named vault_file x) = Some c" "tree_write ?p c t = Some t'" for t t' c
    using wrote [OF that(1,3)] same that(1,2) contents_write [OF that(3)] by (auto simp: kept_raw_def)
  have copy: "leads (staged t\<^sub>0 s b) (only ?I) (copy_file (named vault_file x) ?p)
      (\<lambda>_. only (\<lambda>t. staged t\<^sub>0 s b t \<and> kept_raw t\<^sub>0 s (insert x xs) t)) (\<lambda>_. only (staged t\<^sub>0 s b))"
    unfolding copy_file_def
  proof (rule leads_thenDo [where M = "\<lambda>_. only ?I"]; rule leads_act)
    fix w t assume I: "only ?I w" and "(if is_file (files w) (named vault_file x) then tree_write ?p [] (files w) else None) = Some t"
    then have t: "tree_write ?p [] (files w) = Some t" by (simp split: if_splits)
    from wrote [OF I t] show "staged t\<^sub>0 s b t \<and> only ?I (w\<lparr>attempts := Suc (attempts w), files := t\<rparr>)" by simp
  next
    fix w t assume I: "only ?I w" and "(case contents (files w) (named vault_file x) of None \<Rightarrow> None | Some c \<Rightarrow> tree_write ?p c (files w)) = Some t"
    then obtain c where c: "contents (files w) (named vault_file x) = Some c" and t: "tree_write ?p c (files w) = Some t"
      by (auto split: option.splits)
    from wrote [OF I t] more [OF I c t]
    show "staged t\<^sub>0 s b t \<and> only (\<lambda>t. staged t\<^sub>0 s b t \<and> kept_raw t\<^sub>0 s (insert x xs) t) (w\<lparr>attempts := Suc (attempts w), files := t\<rparr>)"
      by simp
  qed simp_all
  have absent: "kept_raw t\<^sub>0 s (insert x xs) t" if "?I t" "t (named vault_file x) = None" for t
    using that same [of t] contents_Some [of t "named vault_file x"] by (auto simp: kept_raw_def)
  have "leads (staged t\<^sub>0 s b) (only ?I) (andDo (copy_file (named vault_file x) ?p) (sync ?p))
      (\<lambda>_. only (\<lambda>t. staged t\<^sub>0 s b t \<and> kept_raw t\<^sub>0 s (insert x xs) t)) (\<lambda>_. only (staged t\<^sub>0 s b))"
    by (rule leads_thenDo [OF copy stage [OF keeps_sync]]) simp
  then have both: "leads (staged t\<^sub>0 s b) (\<lambda>w. only ?I w \<and> files w = t) (andDo (copy_file (named vault_file x) ?p) (sync ?p))
      (\<lambda>_. only (\<lambda>t. staged t\<^sub>0 s b t \<and> kept_raw t\<^sub>0 s (insert x xs) t)) (\<lambda>_. only (staged t\<^sub>0 s b))" for t
    by (rule leads_weaken) blast+
  show ?thesis
    by (rule leads_looking, rule leads_onlyIf [OF both]) (use absent in auto)
qed

lemma keep_raw_keeps:
  "leads (staged t\<^sub>0 s b) (only (staged t\<^sub>0 s b)) (keep_raw vault_file (replaced_kept s))
    (\<lambda>_. only (\<lambda>t. staged t\<^sub>0 s b t \<and> kept_raw t\<^sub>0 s {[], ''-wal''} t)) (\<lambda>_. only (staged t\<^sub>0 s b))"
proof -
  let ?I = "\<lambda>xs t. staged t\<^sub>0 s b t \<and> kept_raw t\<^sub>0 s xs t"
  let ?step = "\<lambda>x. looking (\<lambda>t. onlyIf (t (named vault_file x) \<noteq> None)
       (andDo (copy_file (named vault_file x) (replaced_kept s @ [last (named vault_file x)])) (sync (replaced_kept s @ [last (named vault_file x)]))))"
  have loop: "leads (staged t\<^sub>0 s b) (only (?I {})) (forAll ?step [[], ''-wal'']) (\<lambda>_. only (?I {''-wal'', []})) (\<lambda>_. only (staged t\<^sub>0 s b))"
    unfolding forAll.simps
    by (rule leads_thenDo [OF keep_raw_step], simp, simp, rule leads_thenDo [OF keep_raw_step], simp, simp, rule leads_give)
  have all: "leads (staged t\<^sub>0 s b) (only (staged t\<^sub>0 s b)) (forAll ?step [[], ''-wal'']) (\<lambda>_. only (?I {[], ''-wal''})) (\<lambda>_. only (staged t\<^sub>0 s b))"
    by (rule leads_weaken [OF loop]) (simp_all add: kept_raw_def)
  show ?thesis
    unfolding keep_raw_def Let_def
    by (rule leads_thenDo [OF all], rule then_stage [OF keeps_sync], erule conjunct1, rule stage [OF keeps_sync], erule conjunct1)
qed

section \<open>Journals out of the way\<close>

text \<open>What is known once the replaced vault is kept, and which journals are gone.\<close>

definition replacing :: "sqlite \<Rightarrow> tree \<Rightarrow> string \<Rightarrow> bytes \<Rightarrow> string set \<Rightarrow> tree \<Rightarrow> bool" where
  "replacing Q t\<^sub>0 s b xs t \<longleftrightarrow> contents t staged_file = Some b \<and> (\<forall>x \<in> xs. contents t (named vault_file x) = None)
     \<and> (filled t\<^sub>0 vault_file \<longrightarrow> kept_raw t\<^sub>0 s {[], ''-wal''} t \<and> live_known Q t\<^sub>0 t)"

lemma replacing_safe: "replacing Q t\<^sub>0 s b xs t \<Longrightarrow> restore_safe Q t\<^sub>0 s b' t"
  by (simp add: replacing_def restore_safe_def)

lemma replacing_untouched:
  assumes "replacing Q t\<^sub>0 s b xs t" and "untouched t S t'" and "\<forall>p \<in> S. \<not> prefix p staged_file \<and> \<not> prefix p vault_file
      \<and> (\<forall>x \<in> xs. \<not> prefix p (named vault_file x)) \<and> (\<forall>x \<in> {[], ''-wal''}. \<not> prefix p (replaced_kept s @ [last (named vault_file x)]))"
  shows "replacing Q t\<^sub>0 s b xs t'"
proof -
  have "contents t' staged_file = contents t staged_file" "contents t' vault_file = contents t vault_file"
    "x \<in> xs \<Longrightarrow> contents t' (named vault_file x) = contents t (named vault_file x)"
    "x \<in> {[], ''-wal''} \<Longrightarrow> contents t' (replaced_kept s @ [last (named vault_file x)]) = contents t (replaced_kept s @ [last (named vault_file x)])" for x
    by (rule untouchedD [OF assms(2)], use assms(3) in blast)+
  with assms(1) show ?thesis by (auto simp: replacing_def kept_raw_def live_known_def)
qed

lemma staged_same:
  assumes "staged t\<^sub>0 s b t" and "x \<in> {[], ''-wal''}"
  shows "contents t (named vault_file x) = contents t\<^sub>0 (named vault_file x)"
  by (rule untouchedD [of _ "restore_touches s"]) (use assms in \<open>auto simp: staged_def restore_defs\<close>)

lemma staged_replacing:
  assumes "staged t\<^sub>0 s b t" and "filled t\<^sub>0 vault_file \<longrightarrow> kept_raw t\<^sub>0 s {[], ''-wal''} t"
  shows "replacing Q t\<^sub>0 s b {} t"
  using assms staged_same [OF assms(1), of "[]"] by (simp add: replacing_def staged_def live_known_def vault_file_def)

lemma fold_wal_keeps:
  "leads (restore_safe Q t\<^sub>0 s b) (only (\<lambda>t. staged t\<^sub>0 s b t \<and> (filled t\<^sub>0 vault_file \<longrightarrow> kept_raw t\<^sub>0 s {[], ''-wal''} t)))
    (fold_wal Q vault_file) (\<lambda>_. only (replacing Q t\<^sub>0 s b {})) (\<lambda>_. only (restore_safe Q t\<^sub>0 s b))"
proof -
  let ?P = "\<lambda>t. staged t\<^sub>0 s b t \<and> (filled t\<^sub>0 vault_file \<longrightarrow> kept_raw t\<^sub>0 s {[], ''-wal''} t)"
  have folded: "replacing Q t\<^sub>0 s b {} t'" if P: "?P t" and t': "write_db vault_file (sq_fold Q (db_at t vault_file)) t = Some t'" for t t'
  proof -
    have "untouched t (family vault_file) t'"
      by (rule keeps_actD [OF untouched_write_db _ t']) (auto simp: restore_defs)
    then have "contents t' q = contents t q" if "\<forall>p \<in> family vault_file. \<not> prefix p q" for q using that by (rule untouchedD)
    from this [of staged_file] this [of "replaced_kept s @ [x]" for x]
    have same: "contents t' staged_file = contents t staged_file" "contents t' (replaced_kept s @ [x]) = contents t (replaced_kept s @ [x])" for x
      by (auto simp: restore_defs)
    have "df_main (db_at t vault_file) = df_main (db_at t\<^sub>0 vault_file)" "df_wal (db_at t vault_file) = df_wal (db_at t\<^sub>0 vault_file)"
      using staged_same [of t\<^sub>0 s b t "[]"] staged_same [of t\<^sub>0 s b t "''-wal''"] P by (simp_all add: db_at_def vault_file_def)
    moreover have "contents t' vault_file = Some (df_main (sq_fold Q (db_at t vault_file)))"
      using t' by (auto simp: write_db_def contents_def path_defs)
    ultimately show ?thesis using P by (auto simp: replacing_def staged_def kept_raw_def live_known_def same)
  qed
  have "leads (restore_safe Q t\<^sub>0 s b) (only ?P) (looking (\<lambda>t. act (write_db vault_file (sq_fold Q (db_at t vault_file)))))
      (\<lambda>_. only (replacing Q t\<^sub>0 s b {})) (\<lambda>_. only ?P)"
  proof (intro leads_looking leads_act)
    fix t w t' assume w: "only ?P w \<and> files w = t" and "write_db vault_file (sq_fold Q (db_at t vault_file)) (files w) = Some t'"
    then have "replacing Q t\<^sub>0 s b {} t'" using folded by blast
    then show "restore_safe Q t\<^sub>0 s b t' \<and> only (replacing Q t\<^sub>0 s b {}) (w\<lparr>attempts := Suc (attempts w), files := t'\<rparr>)"
      using replacing_safe by simp
  qed simp
  then show ?thesis
    unfolding fold_wal_def quietly_def
    by (rule leads_rescue) (auto intro!: leads_give staged_replacing)
qed

lemma move_sidecar:
  assumes "x \<in> set sidecars" and "x \<notin> xs"
  shows "leads (restore_safe Q t\<^sub>0 s b) (only (replacing Q t\<^sub>0 s b xs))
    (looking (\<lambda>t. onlyIf (t (named vault_file x) \<noteq> None)
       (act (tree_replace (named vault_file x) (replaced_kept s @ [last (named vault_file x) @ ''.unfolded''])))))
    (\<lambda>_. only (replacing Q t\<^sub>0 s b (insert x xs))) (\<lambda>_. only (restore_safe Q t\<^sub>0 s b))"
proof -
  let ?I = "replacing Q t\<^sub>0 s b" and ?p = "named vault_file x"
  let ?q = "replaced_kept s @ [last (named vault_file x) @ ''.unfolded'']"
  have moved: "?I (insert x xs) t'" if "?I xs t" "tree_replace ?p ?q t = Some t'" for t t'
  proof -
    have "untouched t {?p, ?q} t'" by (rule keeps_actD [OF untouched_replace _ that(2)]) auto
    moreover have "\<not> prefix ?p (named vault_file y)" if "y \<in> xs" for y using assms(2) that by (auto simp: path_defs)
    ultimately have "?I xs t'"
      by (intro replacing_untouched [OF that(1)]) (use assms(1) in \<open>auto simp: restore_defs\<close>)
    moreover have "contents t' ?p = None"
      using replaced [OF that(2)] assms(1) by (auto simp: contents_def restore_defs)
    ultimately show ?thesis by (simp add: replacing_def)
  qed
  have step: "leads (restore_safe Q t\<^sub>0 s b) (\<lambda>w. only (?I xs) w \<and> files w = t) (act (tree_replace ?p ?q)) (\<lambda>_. only (?I (insert x xs)))
      (\<lambda>_. only (restore_safe Q t\<^sub>0 s b))" for t
  proof (rule leads_act)
    fix w t' assume "only (?I xs) w \<and> files w = t" "tree_replace ?p ?q (files w) = Some t'"
    then have "?I (insert x xs) t'" using moved by blast
    then show "restore_safe Q t\<^sub>0 s b t' \<and> only (?I (insert x xs)) (w\<lparr>attempts := Suc (attempts w), files := t'\<rparr>)"
      using replacing_safe by simp
  qed (auto intro: replacing_safe)
  show ?thesis
    by (rule leads_looking, rule leads_onlyIf [OF step]) (auto simp: replacing_def contents_def)
qed

lemma move_sidecars_keeps:
  "leads (restore_safe Q t\<^sub>0 s b) (only (replacing Q t\<^sub>0 s b {})) (move_sidecars vault_file (replaced_kept s))
    (\<lambda>_. only (replacing Q t\<^sub>0 s b (set sidecars))) (\<lambda>_. only (restore_safe Q t\<^sub>0 s b))"
proof -
  let ?step = "\<lambda>x. looking (\<lambda>t. onlyIf (t (named vault_file x) \<noteq> None)
       (act (tree_replace (named vault_file x) (replaced_kept s @ [last (named vault_file x) @ ''.unfolded'']))))"
  have loop: "leads (restore_safe Q t\<^sub>0 s b) (only (replacing Q t\<^sub>0 s b {})) (forAll ?step [''-wal'', ''-shm'', ''-journal''])
      (\<lambda>_. only (replacing Q t\<^sub>0 s b {''-journal'', ''-shm'', ''-wal''})) (\<lambda>_. only (restore_safe Q t\<^sub>0 s b))"
    unfolding forAll.simps
    by (rule leads_thenDo [OF move_sidecar], simp add: sidecars_def, simp, rule leads_thenDo [OF move_sidecar], simp add: sidecars_def, simp,
        rule leads_thenDo [OF move_sidecar], simp add: sidecars_def, simp, rule leads_give)
  have all: "{''-journal'', ''-shm'', ''-wal''} = set sidecars" by (auto simp: sidecars_def)
  show ?thesis
    unfolding move_sidecars_def Let_def
    by (rule leads_thenDo [OF loop [unfolded all, folded sidecars_def]])
      (intro then_stage [OF keeps_sync] stage [OF keeps_sync] replacing_safe, assumption+)
qed

lemma staged_filled: "staged t\<^sub>0 s b t \<Longrightarrow> filled t\<^sub>0 vault_file = filled t vault_file"
  using staged_same [of t\<^sub>0 s b t "[]"] by (auto simp: filled_def contents_def vault_file_def split: option.splits node.splits)

lemma retire_body:
  assumes "sqlite_ok Q" and has: "has = filled t\<^sub>0 vault_file"
  shows "leads (restore_safe Q t\<^sub>0 s b) (only (staged t\<^sub>0 s b))
     (thenDo (if has then take_exclusively Q vault_file else give False) (\<lambda>connected.
        andDo (act (tree_mkdir False False (replaced_kept s)))
       (andDo (undoing (quietly (act (tree_rmtree (replaced_kept s)))) (onlyIf has (keep_raw vault_file (replaced_kept s))))
       (andDo (onlyIf connected (fold_wal Q vault_file))
       (andDo (move_sidecars vault_file (replaced_kept s)) (give (Some (replaced_kept s))))))))
     (\<lambda>_. only (replacing Q t\<^sub>0 s b (set sidecars))) (\<lambda>_. only (restore_safe Q t\<^sub>0 s b))"
proof -
  let ?J = "restore_safe Q t\<^sub>0 s b" and ?A = "staged t\<^sub>0 s b"
  let ?K = "\<lambda>t. staged t\<^sub>0 s b t \<and> (filled t\<^sub>0 vault_file \<longrightarrow> kept_raw t\<^sub>0 s {[], ''-wal''} t)"
  note A = staged_safe [of t\<^sub>0 s b _ Q b]
  have take: "keeps ?A (if has then take_exclusively Q vault_file else give False)"
    by (intro keeping staged_take assms(1))
  have made: "keeps ?A (act (tree_mkdir False False (replaced_kept s)))" by (intro staged_in_kept keeping)
  have undo: "keeps ?A (quietly (act (tree_rmtree (replaced_kept s))))" by (intro staged_in_kept keeping) simp
  have raw: "leads ?A (only ?A) (onlyIf has (keep_raw vault_file (replaced_kept s))) (\<lambda>_. only ?K) (\<lambda>_. only ?A)"
    by (rule leads_onlyIf, rule leads_weaken [OF keep_raw_keeps]) (simp_all add: has)
  note kept = leads_wider [OF leads_undoing [OF raw undo] A]
  have fold: "leads ?J (only ?K) (onlyIf connected (fold_wal Q vault_file)) (\<lambda>_. only (replacing Q t\<^sub>0 s b {})) (\<lambda>_. only ?J)" for connected
    by (rule leads_onlyIf [OF fold_wal_keeps]) (rule staged_replacing, blast+)
  show ?thesis
    by (intro then_stage [OF take A] then_stage [OF made A] leads_thenDo [OF kept] leads_thenDo [OF fold] leads_thenDo [OF move_sidecars_keeps]
        leads_give) assumption+
qed

lemma retire_keeps:
  assumes "sqlite_ok Q"
  shows "leads (restore_safe Q t\<^sub>0 s b) (only (staged t\<^sub>0 s b)) (retire Q s vault_file)
    (\<lambda>_. only (replacing Q t\<^sub>0 s b (set sidecars))) (\<lambda>_. only (restore_safe Q t\<^sub>0 s b))"
  unfolding retire_def Let_def replaced_kept_def [symmetric]
proof (rule leads_looking, rule leads_if)
  fix t
  assume none: "\<not> filled t vault_file \<and> list_all (\<lambda>x. t (named vault_file x) = None) sidecars"
  show "leads (restore_safe Q t\<^sub>0 s b) (\<lambda>w. only (staged t\<^sub>0 s b) w \<and> files w = t) (give None) (\<lambda>_. only (replacing Q t\<^sub>0 s b (set sidecars)))
      (\<lambda>_. only (restore_safe Q t\<^sub>0 s b))"
    by (rule leads_give) (use none staged_filled in \<open>auto simp: replacing_def staged_def contents_def list_all_iff\<close>)
next
  fix t
  assume "\<not> (\<not> filled t vault_file \<and> list_all (\<lambda>x. t (named vault_file x) = None) sidecars)"
  show "leads (restore_safe Q t\<^sub>0 s b) (\<lambda>w. only (staged t\<^sub>0 s b) w \<and> files w = t)
     (thenDo (if filled t vault_file then take_exclusively Q vault_file else give False) (\<lambda>connected.
        andDo (act (tree_mkdir False False (replaced_kept s)))
       (andDo (undoing (quietly (act (tree_rmtree (replaced_kept s)))) (onlyIf (filled t vault_file) (keep_raw vault_file (replaced_kept s))))
       (andDo (onlyIf connected (fold_wal Q vault_file))
       (andDo (move_sidecars vault_file (replaced_kept s)) (give (Some (replaced_kept s))))))))
     (\<lambda>_. only (replacing Q t\<^sub>0 s b (set sidecars))) (\<lambda>_. only (restore_safe Q t\<^sub>0 s b))"
  proof (cases "staged t\<^sub>0 s b t")
    case True
    show ?thesis by (rule leads_weaken [OF retire_body [OF assms]]) (use staged_filled [OF True] in blast)+
  next
    case False
    then show ?thesis by (auto simp: leads_def)
  qed
qed

section \<open>The restored file\<close>

definition restored :: "tree \<Rightarrow> string \<Rightarrow> bytes \<Rightarrow> tree \<Rightarrow> bool" where
  "restored t\<^sub>0 s b t \<longleftrightarrow> contents t vault_file = Some b \<and> (\<forall>x \<in> set sidecars. contents t (named vault_file x) = None)
     \<and> (filled t\<^sub>0 vault_file \<longrightarrow> kept_raw t\<^sub>0 s {[], ''-wal''} t)"

lemma restored_safe: "restored t\<^sub>0 s b t \<Longrightarrow> restore_safe Q t\<^sub>0 s b t"
  by (simp add: restored_def restore_safe_def)

lemma restore_replaces:
  assumes "replacing Q t\<^sub>0 s b (set sidecars) t" and "tree_replace staged_file vault_file t = Some t'"
  shows "restored t\<^sub>0 s b t'"
proof -
  have "untouched t {staged_file, vault_file} t'" by (rule keeps_actD [OF untouched_replace _ assms(2)]) auto
  then have same: "contents t' q = contents t q" if "\<forall>p \<in> {staged_file, vault_file}. \<not> prefix p q" for q using that by (rule untouchedD)
  have "contents t' (named vault_file x) = contents t (named vault_file x)" if "x \<in> set sidecars" for x
    by (rule same) (use that in \<open>auto simp: path_defs\<close>)
  moreover have "contents t' (replaced_kept s @ [x]) = contents t (replaced_kept s @ [x])" for x
    by (rule same) (auto simp: restore_defs)
  ultimately show ?thesis
    using assms(1) contents_replace [OF assms(2)] by (auto simp: restored_def replacing_def kept_raw_def)
qed

text \<open>The copy is staged next to the vault file.\<close>

abbreviation staging :: "path set" where
  "staging \<equiv> insert lock_file (family (partial_of staged_file))"

lemma restore_stages:
  assumes "apart staging source" and "source \<noteq> []" and b: "b = sq_copy Q True (db_at t\<^sub>0 source)"
  shows "leads (restore_safe Q t\<^sub>0 s b) (only (untouched t\<^sub>0 staging)) (copy_vault Q source staged_file True)
    (\<lambda>_. only (staged t\<^sub>0 s b)) (\<lambda>_. only (restore_safe Q t\<^sub>0 s b))"
proof -
  have far: "family (partial_of staged_file) \<subseteq> staging" "\<forall>r \<in> staging. \<not> prefix r staged_file" "staged_file \<noteq> []"
    by (auto simp: restore_defs)
  have safe: "restore_safe Q t\<^sub>0 s b t" if "copying t\<^sub>0 staging staged_file b t" for t
  proof -
    have "contents t (named vault_file x) = contents t\<^sub>0 (named vault_file x)" if "x \<in> {[], ''-wal''}" for x
      by (rule untouchedD [of _ "insert staged_file staging"]) (use \<open>copying t\<^sub>0 staging staged_file b t\<close> that in \<open>auto simp: restore_defs\<close>)
    from this this [of "[]"] show ?thesis by (simp add: restore_safe_def in_place_def live_known_def vault_file_def)
  qed
  have finished: "staged t\<^sub>0 s b t" if "copied t\<^sub>0 staging staged_file b t" for t
    unfolding staged_def by (rule conjI [OF untouched_more [OF conjunct1 [OF that]] conjunct2 [OF that]]) (auto simp: restore_touches_def)
  have "leads (restore_safe Q t\<^sub>0 s b) (only (untouched t\<^sub>0 staging)) (copy_vault Q source staged_file True)
      (\<lambda>_ w. copied t\<^sub>0 staging staged_file b (files w) \<and> sq_view Q (db_at t\<^sub>0 source) \<noteq> None) (\<lambda>_. only (restore_safe Q t\<^sub>0 s b))"
    unfolding b by (rule leads_wider [OF copy_vault_copies [OF far(1,2) assms(1,2) far(3)]], rule safe [unfolded b])
  then show ?thesis by (rule leads_weaken) (blast intro: finished)+
qed

lemma safe_untouched:
  assumes "restore_safe Q t\<^sub>0 s b t" and "untouched t (family staged_file) t'"
  shows "restore_safe Q t\<^sub>0 s b t'"
proof -
  have "contents t' (named vault_file x) = contents t (named vault_file x)" if "x \<in> {[], ''-wal''}" for x
    by (rule untouchedD [OF assms(2)]) (use that in \<open>auto simp: restore_defs\<close>)
  moreover have "contents t' (replaced_kept s @ [x]) = contents t (replaced_kept s @ [x])" for x
    by (rule untouchedD [OF assms(2)]) (auto simp: restore_defs)
  moreover from calculation(1) [of "[]"] have "contents t' vault_file = contents t vault_file" by (simp add: vault_file_def)
  ultimately show ?thesis using assms(1) by (simp add: restore_safe_def in_place_def kept_raw_def live_known_def)
qed

lemma restore_leads:
  assumes "sqlite_ok Q" and "apart staging source" and "source \<noteq> []" and b: "b = sq_copy Q True (db_at t\<^sub>0 source)"
  shows "leads (restore_safe Q t\<^sub>0 s b) (only (\<lambda>t. t = t\<^sub>0)) (restore_snapshot Q s source)
    (\<lambda>_ w. restored t\<^sub>0 s b (files w) \<and> (\<exists>v. sq_view Q (db_at t\<^sub>0 source) = Some v \<and> \<not> check_connection v))
    (\<lambda>_. only (restore_safe Q t\<^sub>0 s b))"
proof -
  let ?J = "restore_safe Q t\<^sub>0 s b" and ?U = "untouched t\<^sub>0 staging" and ?R = "\<lambda>t. restored t\<^sub>0 s b t"
  have J: "?J t" if "?U t" for t
  proof -
    have "contents t (named vault_file x) = contents t\<^sub>0 (named vault_file x)" if "x \<in> {[], ''-wal''}" for x
      by (rule untouchedD [OF \<open>?U t\<close>]) (use that in \<open>auto simp: restore_defs\<close>)
    from this this [of "[]"] show ?thesis by (simp add: restore_safe_def in_place_def live_known_def vault_file_def)
  qed
  have lock: "keeps ?U acquire_lock" by (intro keeping) simp
  have clean: "keeps ?J (discard staged_file)"
    by (rule keeps_by_untouched [OF untouched_discard], blast, rule safe_untouched)
  have swap: "leads ?J (only (replacing Q t\<^sub>0 s b (set sidecars))) (act (tree_replace staged_file vault_file)) (\<lambda>_. only ?R) (\<lambda>_. only ?J)"
    by (rule leads_act) (use restore_replaces restored_safe replacing_safe in auto)
  have inner: "leads ?J (only ?U) (with_lock (andDo refuse_pending_set_aside (andDo (act (tree_mkdir True True snapshot_dir))
           (andDo (reporting {DatabaseError} (copy_vault Q source staged_file True))
           (thenDo (retire Q s vault_file) (\<lambda>kept. andDo (act (tree_replace staged_file vault_file)) (andDo (sync []) (give kept))))))))
     (\<lambda>_. only ?R) (\<lambda>_. only ?J)"
    unfolding with_lock_def
    by (intro then_stage [OF lock J] then_stage [OF keeps_refuse_pending J] then_stage [OF untouched_mkdir J]
      leads_thenDo [OF leads_reporting [OF restore_stages [OF assms(2-4)]]] leads_thenDo [OF retire_keeps [OF assms(1)]]
      leads_thenDo [OF swap] then_stage [OF keeps_sync restored_safe] leads_give) assumption+
  have undone: "leads ?J (only ?U) (rescue (\<lambda>e. if e = DatabaseError then fail e else andDo (discard staged_file) (fail StorageError))
      (with_lock (andDo refuse_pending_set_aside (andDo (act (tree_mkdir True True snapshot_dir))
           (andDo (reporting {DatabaseError} (copy_vault Q source staged_file True))
           (thenDo (retire Q s vault_file) (\<lambda>kept. andDo (act (tree_replace staged_file vault_file)) (andDo (sync []) (give kept)))))))))
     (\<lambda>_. only ?R) (\<lambda>_. only ?J)"
    by (rule leads_rescue [OF inner]) (intro leads_if leads_fail leads_thenDo [OF clean [unfolded keeps_def]], assumption+)
  have start: "?J t\<^sub>0" by (rule J) simp
  have "leads ?J (only (\<lambda>t. t = t\<^sub>0)) (check_file Q source)
      (\<lambda>problems w. only (\<lambda>t. t = t\<^sub>0) w \<and> (\<not> problems \<longrightarrow> (\<exists>v. sq_view Q (db_at t\<^sub>0 source) = Some v \<and> \<not> check_connection v))) (\<lambda>_. only ?J)"
    by (rule leads_weaken [OF leads_check_file [of "only (\<lambda>t. t = t\<^sub>0)" ?J Q source]]) (use start in auto)
  then show ?thesis
    unfolding restore_snapshot_def
    by (rule leads_thenDo) (intro leads_known leads_insist_then leads_weaken [OF undone], use start in auto)
qed

text \<open>All that a restore may change.\<close>

definition restore_places :: "string \<Rightarrow> path set" where
  "restore_places s = restore_touches s \<union> family vault_file \<union> family staged_file"

lemma restore_places [simp]:
  "reached (restore_places s) lock_file" "x \<in> set ([] # sidecars) \<Longrightarrow> reached (restore_places s) (named vault_file x)"
  "q \<in> family (partial_of staged_file) \<Longrightarrow> reached (restore_places s) q" "q \<in> family staged_file \<Longrightarrow> reached (restore_places s) q"
  "reached (restore_places s) (partial_of staged_file)" "reached (restore_places s) staged_file" "reached (restore_places s) vault_file"
  "reached (restore_places s) (replaced_kept s)" "reached (restore_places s) (replaced_kept s @ [x])"
  by (auto simp: restore_places_def restore_touches_def) (auto simp: family_def path_defs partial_of_def)

lemma restore_untouched: "keeps (untouched t\<^sub>0 (restore_places s)) (restore_snapshot Q s source)"
  unfolding restore_snapshot_def with_lock_def copy_vault_def retire_def keep_raw_def move_sidecars_def
    fold_wal_def Let_def replaced_kept_def [symmetric] partial_of_def [symmetric]
  by (intro keeping; simp?) (auto simp: restore_places_def restore_touches_def)

end
