(* ===== verification/Storage_Start.thy ===== *)
theory Storage_Start
  imports Storage_Copies
begin

text \<open>
  What start-up does to the data folder (\<^verbatim>\<open>prepare_data_dir\<close>): at most it creates the folder and an empty
  vault file, whatever fails, and it succeeds exactly for the folders that \<open>may_start\<close> describes.
\<close>

definition may_start :: "sqlite \<Rightarrow> bool \<Rightarrow> tree \<Rightarrow> bool" where
  "may_start Q writable t \<longleftrightarrow> writable \<and> t pending_dir = None
     \<and> (if filled t vault_file
        then \<exists>v. sq_view Q (db_at t vault_file) = Some v \<and> (blank_view v \<or> view_problem v = None \<and> vw_quick_ok v)
        else \<not> filled t (named vault_file ''-wal'') \<and> \<not> filled t (named vault_file ''-journal''))"

lemma leads_reporting_all:
  assumes "leads I P m Q (\<lambda>e w. e \<in> insert StorageError es \<and> J w)"
  shows "leads I P (reporting es m) Q (\<lambda>e w. e = StorageError \<and> J w)"
  unfolding reporting_def by (rule leads_rescue [OF assms]) (auto intro: leads_fail)

text \<open>Only the data folder is there, or also an empty vault file.\<close>

definition same_files :: "tree \<Rightarrow> tree \<Rightarrow> bool" where
  "same_files t\<^sub>0 t \<longleftrightarrow> (\<forall>q. q \<noteq> [] \<longrightarrow> t q = t\<^sub>0 q) \<and> contents t [] = contents t\<^sub>0 []"

definition at_most_created :: "tree \<Rightarrow> tree \<Rightarrow> bool" where
  "at_most_created t\<^sub>0 t \<longleftrightarrow> (\<forall>q. contents t q = contents t\<^sub>0 q \<or> q = vault_file \<and> t\<^sub>0 q = None \<and> contents t q = Some [])"

lemma same_files_created: "same_files t\<^sub>0 t \<Longrightarrow> at_most_created t\<^sub>0 t"
  unfolding same_files_def at_most_created_def contents_def by metis

lemma same_files_facts:
  assumes "same_files t\<^sub>0 t"
  shows "t pending_dir = t\<^sub>0 pending_dir" "filled t (named vault_file x) = filled t\<^sub>0 (named vault_file x)" "filled t vault_file = filled t\<^sub>0 vault_file"
    "db_at t vault_file = db_at t\<^sub>0 vault_file" "t vault_file = t\<^sub>0 vault_file"
  using assms by (simp_all add: same_files_def filled_def db_at_def contents_def path_defs)

abbreviation usable :: "sqlite \<Rightarrow> tree \<Rightarrow> bool" where
  "usable Q t \<equiv> filled t vault_file \<longrightarrow> (\<exists>v. sq_view Q (db_at t vault_file) = Some v \<and> (blank_view v \<or> view_problem v = None \<and> vw_quick_ok v))"

lemma refuse_unusable_leads:
  "leads (at_most_created t\<^sub>0) (only (same_files t\<^sub>0)) (refuse_unusable_file Q vault_file)
    (\<lambda>_ w. same_files t\<^sub>0 (files w) \<and> usable Q t\<^sub>0) (\<lambda>e w. e = StorageError \<and> at_most_created t\<^sub>0 (files w))"
  unfolding refuse_unusable_file_def
proof (rule leads_looking, rule leads_if)
  fix t assume "\<not> filled t vault_file"
  then show "leads (at_most_created t\<^sub>0) (\<lambda>w. only (same_files t\<^sub>0) w \<and> files w = t) (give ())
      (\<lambda>_ w. same_files t\<^sub>0 (files w) \<and> usable Q t\<^sub>0) (\<lambda>e w. e = StorageError \<and> at_most_created t\<^sub>0 (files w))"
    by (intro leads_give) (auto dest: same_files_facts(3))
next
  fix t assume "\<not> \<not> filled t vault_file"
  let ?J = "\<lambda>w. at_most_created t\<^sub>0 (files w)" and ?P = "\<lambda>w. only (same_files t\<^sub>0) w \<and> files w = t"
  have seen: "leads (at_most_created t\<^sub>0) ?P (andDo (connect_existing vault_file) (thenDo (read_view Q vault_file) (\<lambda>v.
            if blank_view v then give True else andDo (insist (view_problem v = None)) (give (vw_quick_ok v)))))
      (\<lambda>sound w. same_files t\<^sub>0 (files w) \<and> (sound \<longrightarrow> usable Q t\<^sub>0)) (\<lambda>e w. e \<in> insert StorageError {DatabaseError} \<and> ?J w)"
  proof -
    let ?E = "\<lambda>e w. e \<in> insert StorageError {DatabaseError} \<and> at_most_created t\<^sub>0 (files w)"
    have connect: "leads (at_most_created t\<^sub>0) ?P (connect_existing vault_file) (\<lambda>_. ?P) ?E"
      unfolding connect_existing_def by (rule leads_looking_any, rule leads_insist) (auto simp: same_files_created)
    have view: "leads (at_most_created t\<^sub>0) ?P (read_view Q vault_file) (\<lambda>v w. ?P w \<and> sq_view Q (db_at (files w) vault_file) = Some v) ?E"
      by (rule leads_read_view) (auto simp: same_files_created)
    have found: "usable Q t\<^sub>0" if "same_files t\<^sub>0 (files w)" "sq_view Q (db_at (files w) vault_file) = Some v"
        "blank_view v \<or> view_problem v = None \<and> vw_quick_ok v" for w v
      using that same_files_facts(4) by metis
    have "leads (at_most_created t\<^sub>0) (\<lambda>w. ?P w \<and> sq_view Q (db_at (files w) vault_file) = Some v)
        (if blank_view v then give True else andDo (insist (view_problem v = None)) (give (vw_quick_ok v)))
        (\<lambda>sound w. same_files t\<^sub>0 (files w) \<and> (sound \<longrightarrow> usable Q t\<^sub>0)) ?E" for v
      by (intro leads_if leads_insist_then leads_give conjI impI) (use found same_files_created in blast)+
    then show ?thesis by (intro leads_thenDo [OF connect] leads_thenDo [OF view])
  qed
  show "leads (at_most_created t\<^sub>0) ?P
      (thenDo (reporting {DatabaseError} (andDo (connect_existing vault_file) (thenDo (read_view Q vault_file) (\<lambda>v.
            if blank_view v then give True else andDo (insist (view_problem v = None)) (give (vw_quick_ok v)))))) insist)
      (\<lambda>_ w. same_files t\<^sub>0 (files w) \<and> usable Q t\<^sub>0) (\<lambda>e w. e = StorageError \<and> ?J w)"
    by (rule leads_thenDo [OF leads_reporting_all [OF seen]], rule leads_insist) (simp_all add: same_files_created)
qed

lemma prepare_leads:
  "leads (at_most_created t\<^sub>0) (only (\<lambda>t. t = t\<^sub>0)) (prepare_data_dir Q writable)
    (\<lambda>p w. p = vault_file \<and> at_most_created t\<^sub>0 (files w) \<and> files w vault_file \<noteq> None \<and> may_start Q writable t\<^sub>0)
    (\<lambda>e w. e = StorageError \<and> at_most_created t\<^sub>0 (files w))"
proof -
  let ?U = "same_files t\<^sub>0" and ?J = "at_most_created t\<^sub>0" and ?R = "\<lambda>e w. e = StorageError \<and> at_most_created t\<^sub>0 (files w)"
  have made: "leads ?J (only (\<lambda>t. t = t\<^sub>0)) (reporting {OSError} (act (tree_mkdir True True []))) (\<lambda>_. only ?U) ?R"
  proof (intro leads_reporting_all leads_act)
    fix w :: world and t assume w: "files w = t\<^sub>0" and "tree_mkdir True True [] (files w) = Some t"
    then have "?U t" by (auto simp: tree_mkdir_def same_files_def contents_def split: if_splits)
    then show "?J t \<and> only ?U (w\<lparr>attempts := Suc (attempts w), files := t\<rparr>)" by (simp add: same_files_created)
  next
    fix w :: world assume "files w = t\<^sub>0"
    then show "OSError \<in> insert StorageError {OSError} \<and> ?J (files (w\<lparr>attempts := Suc (attempts w)\<rparr>))"
      by (simp add: at_most_created_def)
  qed
  have pending: "leads ?J (only ?U) refuse_pending_set_aside (\<lambda>_ w. only ?U w \<and> t\<^sub>0 pending_dir = None) ?R"
    unfolding refuse_pending_set_aside_def
    by (rule leads_looking, rule leads_insist) (auto simp: same_files_facts same_files_created)
  have orphans: "leads ?J (only ?U) (refuse_orphaned_journals vault_file)
      (\<lambda>_ w. only ?U w \<and> (filled t\<^sub>0 vault_file \<or> \<not> filled t\<^sub>0 (named vault_file ''-wal'') \<and> \<not> filled t\<^sub>0 (named vault_file ''-journal''))) ?R"
    unfolding refuse_orphaned_journals_def
    by (rule leads_looking, rule leads_insist) (use same_files_facts same_files_created in blast)+
  have create: "leads ?J (only ?U) (reporting {OSError}
       (andDo (looking (\<lambda>t. if t vault_file \<noteq> None then give () else act (tree_create vault_file)))
         (if writable then give () else fail OSError))) (\<lambda>_ w. ?J (files w) \<and> files w vault_file \<noteq> None \<and> writable) ?R"
  proof (rule leads_reporting_all, rule leads_thenDo)
    show "leads ?J (only ?U) (looking (\<lambda>t. if t vault_file \<noteq> None then give () else act (tree_create vault_file)))
      (\<lambda>_ w. ?J (files w) \<and> files w vault_file \<noteq> None) (\<lambda>e w. e \<in> insert StorageError {OSError} \<and> ?J (files w))"
    proof (intro leads_looking leads_if leads_give leads_act)
      fix t t' and w :: world assume w: "only ?U w \<and> files w = t" and "\<not> t vault_file \<noteq> None" and t': "tree_create vault_file (files w) = Some t'"
      then have "t\<^sub>0 vault_file = None" "t' = (files w)(vault_file \<mapsto> File [])"
        using same_files_facts(5) [of t\<^sub>0 t] by (auto simp: tree_create_def split: if_splits)
      moreover have "contents (files w) q = contents t\<^sub>0 q" for q using w by (cases "q = []") (auto simp: same_files_def contents_def)
      ultimately have "?J t'" by (auto simp: at_most_created_def contents_def)
      then show "?J t' \<and> ?J (files (w\<lparr>attempts := Suc (attempts w), files := t'\<rparr>)) \<and> files (w\<lparr>attempts := Suc (attempts w), files := t'\<rparr>) vault_file \<noteq> None"
        using \<open>t' = _\<close> by simp
    qed (auto simp: same_files_created)
    show "leads ?J (\<lambda>w. ?J (files w) \<and> files w vault_file \<noteq> None) (if writable then give () else fail OSError)
      (\<lambda>_ w. ?J (files w) \<and> files w vault_file \<noteq> None \<and> writable) (\<lambda>e w. e \<in> insert StorageError {OSError} \<and> ?J (files w))"
      by (intro leads_if leads_give leads_fail) auto
  qed
  show ?thesis
    unfolding prepare_data_dir_def
    by (intro leads_thenDo [OF made] leads_thenDo [OF pending] leads_thenDo [OF orphans] leads_thenDo [OF refuse_unusable_leads]
        leads_thenDo [OF create] leads_known leads_give) (auto simp: may_start_def)
qed

lemma prepare_succeeds:
  assumes "may_start Q writable t\<^sub>0" and "t\<^sub>0 [] = Some Folder"
  shows "sure (\<lambda>t. t = t\<^sub>0) (prepare_data_dir Q writable) (\<lambda>_ _. True)"
proof -
  let ?P = "\<lambda>t. t = t\<^sub>0"
  have made: "sure ?P (reporting {OSError} (act (tree_mkdir True True []))) (\<lambda>_. ?P)"
    unfolding reporting_def by (intro sure_rescue sure_act) (use assms(2) in \<open>auto simp: tree_mkdir_def is_file_def\<close>)
  have pending: "sure ?P refuse_pending_set_aside (\<lambda>_. ?P)"
    unfolding refuse_pending_set_aside_def by (intro sure_looking sure_insist) (use assms(1) in \<open>auto simp: may_start_def\<close>)
  have orphans: "sure ?P (refuse_orphaned_journals vault_file) (\<lambda>_. ?P)"
    unfolding refuse_orphaned_journals_def by (intro sure_looking sure_insist) (use assms(1) in \<open>auto simp: may_start_def split: if_splits\<close>)
  have usable: "sure ?P (refuse_unusable_file Q vault_file) (\<lambda>_. ?P)"
  proof (cases "filled t\<^sub>0 vault_file")
    case False
    then show ?thesis unfolding refuse_unusable_file_def by (intro sure_looking) (auto intro: sure_give)
  next
    case True
    then have "is_file t\<^sub>0 vault_file" by (simp add: filled_def is_file_def split: option.splits node.splits)
    moreover obtain v where "sq_view Q (db_at t\<^sub>0 vault_file) = Some v" "blank_view v \<or> view_problem v = None \<and> vw_quick_ok v"
      using assms(1) True by (auto simp: may_start_def)
    ultimately show ?thesis using True
      by (auto simp: sure_def refuse_unusable_file_def looking_def connect_existing_def insist_def thenDo_def give_def read_view_def reporting_def rescue_def)
  qed
  have create: "sure ?P (reporting {OSError} (andDo (looking (\<lambda>t. if t vault_file \<noteq> None then give () else act (tree_create vault_file)))
      (if writable then give () else fail OSError))) (\<lambda>_ _. True)"
  proof (unfold reporting_def, intro sure_rescue sure_thenDo [where M = "\<lambda>_ _. True"] sure_looking)
    fix t assume t: "t = t\<^sub>0"
    show "sure (\<lambda>u. u = t) (if t vault_file \<noteq> None then give () else act (tree_create vault_file)) (\<lambda>_ _. True)"
    proof (cases "t vault_file = None")
      case True
      with t assms(2) show ?thesis by (auto simp: tree_create_def in_folder_def vault_file_def intro!: sure_act)
    qed (auto intro: sure_give)
  next
    show "sure (\<lambda>_. True) (if writable then give () else fail OSError) (\<lambda>_ _. True)"
      using assms(1) by (auto simp: may_start_def intro: sure_give)
  qed
  show ?thesis
    unfolding prepare_data_dir_def
    by (rule sure_thenDo [OF made] sure_thenDo [OF pending] sure_thenDo [OF orphans] sure_thenDo [OF usable] sure_thenDo [OF create] sure_give)+ simp
qed

end
