(* ===== verification/Storage_Properties.thy ===== *)
theory Storage_Properties
  imports Storage_Restore Storage_Start
begin

text \<open>
  What \<^verbatim>\<open>backend/storage.py\<close> guarantees for the vault file, and a small vault folder on which every
  property is applied.
\<close>

section \<open>A small vault folder\<close>

text \<open>
  A database is readable if it is not empty; its first byte is the schema version. Folding appends
  the log to the file, a backup is the folded file.
\<close>

definition sample_view :: "bytes \<Rightarrow> view" where
  "sample_view b =
     \<lparr>vw_application_id = APPLICATION_ID, vw_user_version = uint (hd b), vw_objects = 9, vw_formats = [Some VAULT_FORMAT],
      vw_quick_ok = True, vw_intact = True, vw_references_ok = True\<rparr>"

definition sample_folded :: "db_files \<Rightarrow> bytes" where
  "sample_folded f = df_main f @ (case df_wal f of None \<Rightarrow> [] | Some b \<Rightarrow> b)"

definition sample_sqlite :: sqlite where
  "sample_sqlite =
     \<lparr>sq_version = (3, 51, 3), sq_view = \<lambda>f. if df_main f = [] then None else Some (sample_view (df_main f)),
      sq_copy = \<lambda>wal f. sample_folded f, sq_take = \<lambda>f. (Taken, f), sq_fold = \<lambda>f. lone_file (sample_folded f),
      sq_reset_settings = \<lambda>f. Some f, sq_migrate_users = \<lambda>f. Some f,
      sq_migrate_folders = \<lambda>f. Some (f\<lparr>df_main := 4 # tl (df_main f)\<rparr>)\<rparr>"

lemma sample_sqlite_ok: "sqlite_ok sample_sqlite"
  by (auto simp: sqlite_ok_def sample_sqlite_def sample_folded_def sample_view_def split: option.splits)

definition sample_files :: "byte \<Rightarrow> tree" where
  "sample_files schema =
     map_of [([], Folder), (vault_file, File [schema, 7]), (named vault_file ''-wal'', File [9]), (snapshot_dir, Folder),
             (snapshot_dir @ [''old.db''], File [4, 1])]"

definition sample_world :: "byte \<Rightarrow> world" where
  "sample_world schema = \<lparr>files = sample_files schema, faults = \<lambda>_. False, attempts = 0, locked = False\<rparr>"

lemma sample_contents [simp]:
  "contents (sample_files n) vault_file = Some [n, 7]" "contents (sample_files n) (named vault_file ''-wal'') = Some [9]"
  "sample_files n (snapshot_dir @ [x]) = (if x = ''old.db'' then Some (File [4, 1]) else None)"
  by (simp_all add: sample_files_def contents_def path_defs)

lemma run_parts: "m = (fst m, fst (snd m), snd (snd m))"
  by simp


lemma sample_free: "kept_name k s \<noteq> ''old.db'' \<Longrightarrow> \<forall>q. prefix (snapshot_dir @ [kept_name k s]) q \<longrightarrow> sample_files n q = None"
  by (auto simp: sample_files_def path_defs prefix_def)

section \<open>Properties of setting aside\<close>


lemma sample_set_aside_runs:
  "case set_aside sample_sqlite ''T'' (sample_world 4) of (trace, r, w') \<Rightarrow>
     r = Inr (Some (aside_kept ''T'')) \<and> length trace = 14 \<and> (trace ! 7) vault_file = None \<and> (trace ! 7) (named vault_file ''-wal'') \<noteq> None"
  by code_simp

lemmas sample_set_aside = sample_set_aside_runs [unfolded case_prod_beta, THEN conjunct1]
  sample_set_aside_runs [unfolded case_prod_beta, THEN conjunct2, THEN conjunct1]
  sample_set_aside_runs [unfolded case_prod_beta, THEN conjunct2, THEN conjunct2, THEN conjunct1]
  sample_set_aside_runs [unfolded case_prod_beta, THEN conjunct2, THEN conjunct2, THEN conjunct2]




section \<open>Restoring\<close>


abbreviation sample_source :: path where
  "sample_source \<equiv> snapshot_dir @ [''old.db'']"

lemma sample_restore_runs:
  "case restore_snapshot sample_sqlite ''T'' sample_source (sample_world 4) of (trace, r, w') \<Rightarrow>
     r = Inr (Some (replaced_kept ''T'')) \<and> contents (files w') vault_file = Some [4, 1]"
  by code_simp

lemma sample_source_apart: "apart staging sample_source" "sample_source \<noteq> []"
  by (auto simp: apart_def restore_defs)


text \<open>
  A restore that reports success has put a sound snapshot in place: the vault file is a complete copy
  of it that SQLite reads in the same way, and no journal lies next to it that could be replayed
  into it.
\<close>

theorem restore_puts_snapshot:
  assumes "sqlite_ok Q" and "apart staging source" and "source \<noteq> []"
    and "restore_snapshot Q s source w = (trace, Inr kept, w')"
  shows "\<exists>v. sq_view Q (db_at (files w) source) = Some v \<and> \<not> check_connection v
    \<and> db_at (files w') vault_file = lone_file (sq_copy Q True (db_at (files w) source))
    \<and> sq_view Q (db_at (files w') vault_file) = Some v"
proof -
  from leadsD [OF restore_leads [OF assms(1,2,3) refl] refl assms(4)] obtain v where
    finished: "restored (files w) s (sq_copy Q True (db_at (files w) source)) (files w')" and
    v: "sq_view Q (db_at (files w) source) = Some v" "\<not> check_connection v" by auto
  from finished have "db_at (files w') vault_file = lone_file (sq_copy Q True (db_at (files w) source))"
    by (simp add: restored_def db_at_def sidecars_def)
  with v sqlite_okD(1) [OF assms(1) v(1)] show ?thesis by simp
qed

theorem restore_puts_snapshot_witness:
  "\<exists>trace kept w'. restore_snapshot sample_sqlite ''T'' sample_source (sample_world 4) = (trace, Inr kept, w')
     \<and> db_at (files w') vault_file = lone_file [4, 1] \<and> sq_view sample_sqlite (db_at (files w') vault_file) = Some (sample_view [4, 1])"
proof -
  obtain trace kept w' where run: "restore_snapshot sample_sqlite ''T'' sample_source (sample_world 4) = (trace, Inr kept, w')"
    using sample_restore_runs by (auto simp: case_prod_beta) (metis prod.collapse)
  have old: "db_at (files (sample_world 4)) sample_source = lone_file [4, 1]"
    by (simp add: db_at_def sample_world_def sample_files_def contents_def path_defs)
  from restore_puts_snapshot [OF sample_sqlite_ok sample_source_apart run] run show ?thesis
    unfolding old by (auto simp: sample_sqlite_def sample_folded_def)
qed

section \<open>Snapshots and migrations\<close>

text \<open>
  A snapshot is never partial and never overwrites: in every file system on the way its name has what
  it had, or it was free and now has a complete copy. The vault file, its log and every other file stay
  as they are. A snapshot that is reported reads as the vault does.
\<close>

theorem snapshot_is_complete:
  assumes "sqlite_ok Q" and "p = snapshot_path s destination" and "p \<noteq> []"
    and "snapshot Q s destination w = (trace, r, w')" and "t \<in> set trace \<union> {files w'}"
  shows "(contents t p = contents (files w) p
      \<or> files w p = None \<and> contents t p = Some (sq_copy Q False (db_at (files w) vault_file)))
    \<and> (\<forall>q. (\<forall>r \<in> insert p (family (partial_of p)). \<not> prefix r q) \<longrightarrow> contents t q = contents (files w) q)
    \<and> (\<forall>q. r = Inr q \<longrightarrow> q = p \<and> files w p = None \<and> contents (files w') p = Some (sq_copy Q False (db_at (files w) vault_file))
        \<and> \<not> (butlast p = [] \<and> prefix ''vault.db'' (last p))
        \<and> sq_view Q (lone_file (sq_copy Q False (db_at (files w) vault_file))) = sq_view Q (db_at (files w) vault_file))"
proof -
  let ?b = "sq_copy Q False (db_at (files w) vault_file)" and ?S = "family (partial_of p)"
  let ?J = "\<lambda>t. copying (files w) ?S p ?b t \<and> (files w p \<noteq> None \<longrightarrow> contents t p = contents (files w) p)"
  note res = leadsD [OF snapshot_copies [OF assms(2,3) refl refl refl] refl assms(4)]
  have final: "?J (files w')" using res by (cases r) auto
  with res assms(5) have "?J t" by auto
  moreover have "sq_view Q (lone_file ?b) = sq_view Q (db_at (files w) vault_file)" if "sq_view Q (db_at (files w) vault_file) \<noteq> None"
    using that sqlite_okD(1) [OF assms(1)] by auto
  ultimately show ?thesis using res by (auto simp: untouched_def)
qed

lemma sample_snapshot_runs:
  "case snapshot sample_sqlite ''T'' None (sample_world 4) of (trace, r, w') \<Rightarrow>
     r = Inr (snapshot_dir @ [''vault-T.db'']) \<and> contents (files w') (snapshot_dir @ [''vault-T.db'']) = Some [4, 7, 9]"
  by code_simp

theorem snapshot_is_complete_witness:
  "case snapshot sample_sqlite ''T'' None (sample_world 4) of (trace, r, w') \<Rightarrow>
     r = Inr (snapshot_dir @ [''vault-T.db'']) \<and> contents (files w') (snapshot_dir @ [''vault-T.db'']) = Some [4, 7, 9]
     \<and> (\<forall>t \<in> set trace. contents t (snapshot_dir @ [''vault-T.db'']) \<in> {None, Some [4, 7, 9]} \<and> contents t vault_file = Some [4, 7])"
proof -
  let ?run = "snapshot sample_sqlite ''T'' None (sample_world 4)" and ?p = "snapshot_dir @ [''vault-T.db'']"
  have p: "?p = snapshot_path ''T'' None" "?p \<noteq> []" by (simp_all add: timestamped_def)
  have copy: "sq_copy sample_sqlite False (db_at (files (sample_world 4)) vault_file) = [4, 7, 9]"
    by (simp add: sample_sqlite_def sample_folded_def sample_world_def db_at_def)
  have start: "contents (files (sample_world 4)) ?p = None" "contents (files (sample_world 4)) vault_file = Some [4, 7]"
    by (simp_all add: sample_world_def) (simp add: contents_def)
  have away: "\<forall>r \<in> insert ?p (family (partial_of ?p)). \<not> prefix r vault_file"
    by (auto simp: family_def partial_of_def path_defs)
  have "contents t ?p \<in> {None, Some [4, 7, 9]} \<and> contents t vault_file = Some [4, 7]" if "t \<in> set (fst ?run)" for t
    using snapshot_is_complete [OF sample_sqlite_ok p run_parts UnI1 [OF that]] away start(2) unfolding start(1) copy by auto
  with sample_snapshot_runs show ?thesis by (simp add: case_prod_beta)
qed


lemma sample_migration_runs:
  "case migrate_folders sample_sqlite ''T'' (sample_world 3) of (trace, r, w') \<Rightarrow>
     r = Inr (snapshot_dir @ [''pre-folders-T.db'']) \<and> contents (files w') vault_file = Some [4, 7]"
  by code_simp


section \<open>Starting\<close>


lemma sample_start_runs:
  "fst (snd (prepare_data_dir sample_sqlite True (sample_world 4))) = Inr vault_file"
  "fst (snd (prepare_data_dir sample_sqlite True (sample_world 3))) = Inl StorageError"
  by code_simp+


section \<open>Two restores at once\<close>

lemma discard_runs:
  assumes "\<And>n. \<not> faults w n" and "\<forall>q \<in> family p. files w q \<noteq> Some Folder" and "p \<noteq> []"
  shows "\<exists>trace w'. discard p w = (trace, Inr (), w') \<and> files w' p = None"
proof -
  have "\<exists>trace w'. forAll (\<lambda>x. act (tree_unlink (named p x))) xs w = (trace, Inr (), w') \<and> (\<forall>n. \<not> faults w' n)
      \<and> (\<forall>x \<in> set xs. files w' (named p x) = None)" if "\<forall>x \<in> set xs. files w (named p x) \<noteq> Some Folder" "\<forall>n. \<not> faults w n" for xs w
    using that
  proof (induction xs arbitrary: w)
    case (Cons x xs)
    let ?w = "w\<lparr>attempts := Suc (attempts w), files := (files w)(named p x := None)\<rparr>"
    have step: "act (tree_unlink (named p x)) w = ([files ?w], Inr (), ?w)" using Cons.prems by (simp add: act_def tree_unlink_def Let_def)
    have "\<forall>y \<in> set xs. files ?w (named p y) \<noteq> Some Folder" "\<forall>n. \<not> faults ?w n" using Cons.prems by simp_all
    from Cons.IH [OF this] obtain trace w' where run: "forAll (\<lambda>x. act (tree_unlink (named p x))) xs ?w = (trace, Inr (), w')"
      "\<forall>n. \<not> faults w' n" "\<forall>x \<in> set xs. files w' (named p x) = None" by blast
    moreover have "keeps (\<lambda>t. t (named p x) = None) (forAll (\<lambda>x. act (tree_unlink (named p x))) xs)"
      by (intro keeping keeps_act) (auto simp: tree_unlink_def split: if_splits)
    from leadsD [OF this [unfolded keeps_def] _ run(1)] have "files w' (named p x) = None" by simp
    ultimately show ?case using step by (simp add: thenDo_def)
  qed (simp add: give_def)
  from this [of "[] # sidecars" w] assms show ?thesis by (auto simp: discard_def family_def)
qed

text \<open>
  C36: A restore that finds the data folder locked reports so, but first removes the staged file of the
  restore that holds the lock.
\<close>

theorem refused_restore_discards:
  assumes "locked w" and "\<And>n. \<not> faults w n" and "version_le MIN_SQLITE_VERSION (sq_version Q)" and "is_file (files w) source"
    and "sq_view Q (db_at (files w) source) = Some v" and "\<not> check_connection v"
    and "files w [] = Some Folder" and "files w lock_file \<noteq> Some Folder" and "\<forall>q \<in> family staged_file. files w q \<noteq> Some Folder"
  shows "\<exists>trace w'. restore_snapshot Q s source w = (trace, Inl StorageError, w') \<and> files w' staged_file = None"
proof -
  have check: "check_file Q source w = ([], Inr False, w)"
    using assms(3-6) by (simp add: check_file_def require_supported_sqlite_def insist_def thenDo_def rescue_def give_def
      connect_existing_def looking_def read_view_def)
  let ?w = "\<lambda>n t. w\<lparr>attempts := n, files := t\<rparr>"
  let ?t = "if files w lock_file = None then (files w)(lock_file \<mapsto> File []) else files w"
  have "tree_mkdir True True [] (files w) = Some (files w)"
    using assms(7) by (auto simp: tree_mkdir_def is_file_def)
  moreover have "open_lock (files w) = Some ?t" using assms(7,8) by (simp add: open_lock_def in_folder_def lock_file_def)
  ultimately have lock: "acquire_lock w = ([files w, ?t], Inl StorageError, ?w (Suc (Suc (attempts w))) ?t)"
    using assms(1,2) by (simp add: acquire_lock_def reporting_def rescue_def thenDo_def act_def Let_def insist_def fail_def give_def)
  let ?w\<^sub>1 = "?w (Suc (Suc (attempts w))) ?t"
  have "\<forall>q \<in> family staged_file. files ?w\<^sub>1 q \<noteq> Some Folder" using assms(9) by (auto simp: family_def path_defs)
  then obtain trace' w\<^sub>2 where "discard staged_file ?w\<^sub>1 = (trace', Inr (), w\<^sub>2)" "files w\<^sub>2 staged_file = None"
    using discard_runs [of ?w\<^sub>1 staged_file] assms(2) by (auto simp: staged_file_def named_def vault_file_def)
  with lock show ?thesis
    by (simp add: restore_snapshot_def with_lock_def thenDo_def check insist_def give_def rescue_def fail_def)
qed

theorem refused_restore_discards_witness:
  "\<exists>trace w'. restore_snapshot sample_sqlite ''T'' sample_source ((sample_world 4)\<lparr>locked := True, files := (sample_files 4)(staged_file \<mapsto> File [4, 1])\<rparr>)
     = (trace, Inl StorageError, w') \<and> files w' staged_file = None"
proof (rule refused_restore_discards)
  let ?w = "(sample_world 4)\<lparr>locked := True, files := (sample_files 4)(staged_file \<mapsto> File [4, 1])\<rparr>"
  have old: "db_at (files ?w) sample_source = lone_file [4, 1]"
    by (simp add: db_at_def sample_files_def contents_def path_defs)
  show "sq_view sample_sqlite (db_at (files ?w) sample_source) = Some (sample_view [4, 1])"
    unfolding old by (simp add: sample_sqlite_def)
  show "\<not> check_connection (sample_view [4, 1])" by code_simp
  show "\<forall>q \<in> family staged_file. files ?w q \<noteq> Some Folder"
    by (auto simp: family_def path_defs sample_files_def)
qed (simp_all add: sample_world_def sample_sqlite_def MIN_SQLITE_VERSION_def is_file_def sample_files_def path_defs)

end
