(* ===== verification/Framing.thy ===== *)
theory Framing
  imports Prelude
begin

text \<open>
  The binary frames between the desktop shell and the vault core
  (\<^verbatim>\<open>desktop/core/desktop_core/framing.py\<close>) and the thread that reads them
  (\<^verbatim>\<open>reader\<close> of \<^verbatim>\<open>desktop_core/server.py\<close>). A pipe is the list of the pieces in which its bytes
  arrive; a read returns at most the bytes it asks for and never more than one piece. The JSON text
  of a header is the argument \<open>dumps\<close> of \<open>encode\<close>.
\<close>

section \<open>Frames\<close>

definition MAGIC :: bytes where "MAGIC = ascii ''CM''"
definition PROTOCOL_VERSION :: nat where "PROTOCOL_VERSION = 1"
definition PREFIX_SIZE :: nat where "PREFIX_SIZE = 2 + 1 + 1 + 4 + 4 + 4"

definition MAX_HEADER_BYTES :: nat where "MAX_HEADER_BYTES = 64 * 1024"
definition MAX_BODY_BYTES :: nat where "MAX_BODY_BYTES = 24 * 1024 * 1024"
definition DISCARD_CHUNK :: nat where "DISCARD_CHUNK = 64 * 1024"

definition REQUEST :: nat where "REQUEST = 1"
definition RESPONSE :: nat where "RESPONSE = 2"
definition CANCEL :: nat where "CANCEL = 3"
definition READY :: nat where "READY = 4"
definition ERROR :: nat where "ERROR = 5"
definition SHUTDOWN :: nat where "SHUTDOWN = 6"

definition KINDS :: "nat list" where
  "KINDS = [REQUEST, RESPONSE, CANCEL, READY, ERROR, SHUTDOWN]"

record prefix =
  p_kind :: nat
  p_request_id :: nat
  p_header_len :: nat
  p_body_len :: nat

text \<open>\<^verbatim>\<open>struct.Struct(">2sBBIII")\<close>; \<open>None\<close> is \<^verbatim>\<open>Desync\<close>. The argument has \<open>PREFIX_SIZE\<close> bytes.\<close>

definition parse_prefix :: "bytes \<Rightarrow> prefix option" where
  "parse_prefix raw =
     (let magic = take 2 raw;
          version = un_be (take 1 (drop 2 raw));
          kind = un_be (take 1 (drop 3 raw));
          request_id = un_be (take 4 (drop 4 raw));
          header_len = un_be (take 4 (drop 8 raw));
          body_len = un_be (take 4 (drop 12 raw))
      in if magic \<noteq> MAGIC \<or> version \<noteq> PROTOCOL_VERSION then None
         else Some \<lparr>p_kind = kind, p_request_id = request_id,
                    p_header_len = header_len, p_body_len = body_len\<rparr>)"

definition pack_prefix :: "nat \<Rightarrow> int \<Rightarrow> nat \<Rightarrow> nat \<Rightarrow> error + bytes" where
  "pack_prefix kind request_id header_len body_len =
     andThen (pack_u 1 (int PROTOCOL_VERSION)) (\<lambda>v.
     andThen (pack_u 1 (int kind)) (\<lambda>k.
     andThen (pack_u 4 request_id) (\<lambda>i.
     andThen (pack_u 4 (int header_len)) (\<lambda>h.
     andThen (pack_u 4 (int body_len)) (\<lambda>b.
     Inr (MAGIC @ v @ k @ i @ h @ b))))))"

definition encode :: "('h \<Rightarrow> bytes) \<Rightarrow> nat \<Rightarrow> int \<Rightarrow> 'h \<Rightarrow> bytes \<Rightarrow> error + bytes" where
  "encode dumps kind request_id header body =
     (let header_bytes = dumps header
      in andThen (ensure (length header_bytes \<le> MAX_HEADER_BYTES) ValueError) (\<lambda>_.
         andThen (ensure (length body \<le> MAX_BODY_BYTES) ValueError) (\<lambda>_.
         andThen (pack_prefix kind request_id (length header_bytes) (length body)) (\<lambda>p.
         Inr (p @ header_bytes @ body)))))"

section \<open>The pipe\<close>

type_synonym pipe = "bytes list"

text \<open>\<^verbatim>\<open>os.read(fd, n)\<close>: an empty result is the end of the input.\<close>

fun os_read :: "nat \<Rightarrow> pipe \<Rightarrow> bytes \<times> pipe" where
  "os_read n [] = ([], [])"
| "os_read n (piece # ps) =
     (if piece = [] then os_read n ps
      else if length piece \<le> n then (piece, ps)
      else (take n piece, drop n piece # ps))"

lemma os_read_splits: "os_read n ps = (chunk, ps') \<Longrightarrow> concat ps = chunk @ concat ps'"
  by (induction n ps rule: os_read.induct) (auto split: if_splits)

lemma os_read_bounded: "os_read n ps = (chunk, ps') \<Longrightarrow> length chunk \<le> n"
  by (induction n ps rule: os_read.induct) (auto split: if_splits)

lemma os_read_at_end: "os_read n ps = ([], ps') \<Longrightarrow> 0 < n \<Longrightarrow> concat ps = [] \<and> concat ps' = []"
proof (induction n ps rule: os_read.induct)
  case (2 n piece ps)
  then show ?case by (cases "piece = []") (simp_all split: if_splits)
qed simp

text \<open>\<^verbatim>\<open>_read_exact\<close>, the loop with its buffer.\<close>

function read_exact :: "nat \<Rightarrow> bytes \<Rightarrow> pipe \<Rightarrow> bytes option \<times> pipe" where
  "read_exact amount buffer ps =
     (if length buffer < amount then
        (case os_read (min (amount - length buffer) (2 ^ 20)) ps of (chunk, ps') \<Rightarrow>
           if chunk = [] then (None, ps') else read_exact amount (buffer @ chunk) ps')
      else (Some buffer, ps))"
  by pat_completeness auto
termination
  by (relation "measure (\<lambda>(amount, buffer, _). amount - length buffer)") (auto simp: neq_Nil_conv)

text \<open>\<^verbatim>\<open>_discard\<close>\<close>

function discard_bytes :: "nat \<Rightarrow> pipe \<Rightarrow> bool \<times> pipe" where
  "discard_bytes amount ps =
     (if amount = 0 then (True, ps)
      else (case os_read (min amount DISCARD_CHUNK) ps of (chunk, ps') \<Rightarrow>
              if chunk = [] then (False, ps') else discard_bytes (amount - length chunk) ps'))"
  by pat_completeness auto
termination
  by (relation "measure fst") (auto simp: neq_Nil_conv)

declare read_exact.simps [simp del] discard_bytes.simps [simp del]

text \<open>However the bytes arrive, the loops take exactly the bytes asked for, or reach the end.\<close>

lemma read_exact_flat:
  "length buffer \<le> amount \<Longrightarrow> read_exact amount buffer ps = (r, ps') \<Longrightarrow>
     (let n = amount - length buffer in
      if n \<le> length (concat ps) then r = Some (buffer @ take n (concat ps)) \<and> concat ps' = drop n (concat ps)
      else r = None)"
proof (induction amount buffer ps arbitrary: r ps' rule: read_exact.induct)
  case (1 amount buffer ps)
  show ?case
  proof (cases "length buffer < amount")
    case more: True
    obtain chunk qs where read: "os_read (min (amount - length buffer) (2 ^ 20)) ps = (chunk, qs)"
      by fastforce
    note split = os_read_splits [OF read]
    have len: "length chunk \<le> amount - length buffer"
      using os_read_bounded [OF read] by simp
    show ?thesis
    proof (cases "chunk = []")
      case True
      with os_read_at_end [of _ ps qs] read more have "concat ps = []" by simp
      then show ?thesis
        using "1.prems" read True more by (simp add: read_exact.simps [of amount] del: concat_eq_Nil_conv)
    next
      case False
      with "1.prems"(2) read more have "read_exact amount (buffer @ chunk) qs = (r, ps')"
        by (simp add: read_exact.simps [of amount buffer])
      with "1.IH" [OF more read [symmetric] False] len more have
        "let n = amount - length (buffer @ chunk) in
         if n \<le> length (concat qs) then r = Some ((buffer @ chunk) @ take n (concat qs)) \<and> concat ps' = drop n (concat qs)
         else r = None" by simp
      with split len show ?thesis by (auto simp: Let_def split: if_splits)
    qed
  next
    case False
    with "1.prems" show ?thesis by (simp add: read_exact.simps [of amount])
  qed
qed

lemma discard_flat:
  "discard_bytes amount ps = (r, ps') \<Longrightarrow>
     (if amount \<le> length (concat ps) then r \<and> concat ps' = drop amount (concat ps) else \<not> r)"
proof (induction amount ps arbitrary: r ps' rule: discard_bytes.induct)
  case (1 amount ps)
  show ?case
  proof (cases "amount = 0")
    case True
    with "1.prems" show ?thesis by (simp add: discard_bytes.simps)
  next
    case more: False
    obtain chunk qs where read: "os_read (min amount DISCARD_CHUNK) ps = (chunk, qs)"
      by fastforce
    note split = os_read_splits [OF read]
    have len: "length chunk \<le> amount"
      using os_read_bounded [OF read] by simp
    show ?thesis
    proof (cases "chunk = []")
      case True
      with os_read_at_end [of _ ps qs] read more have "concat ps = []"
        by (simp add: DISCARD_CHUNK_def)
      then show ?thesis
        using "1.prems" read True more by (simp add: discard_bytes.simps [of amount] del: concat_eq_Nil_conv)
    next
      case False
      with "1.prems" read more have "discard_bytes (amount - length chunk) qs = (r, ps')"
        by (simp add: discard_bytes.simps [of amount])
      from "1.IH" [OF more read [symmetric] False this] split len show ?thesis
        by (auto split: if_splits)
    qed
  qed
qed

section \<open>The reader\<close>

datatype reason = UnknownKind | HeaderTooLarge | BodyTooLarge

datatype incoming = Eof | Desync | Rejected prefix reason | Frame prefix bytes bytes

definition refusal :: "prefix \<Rightarrow> reason option" where
  "refusal p =
     (if p_kind p \<notin> set KINDS then Some UnknownKind
      else if p_header_len p > MAX_HEADER_BYTES then Some HeaderTooLarge
      else if p_body_len p > MAX_BODY_BYTES then Some BodyTooLarge
      else None)"

lemma read_exact_Some:
  "read_exact n [] ps = (Some x, ps') \<Longrightarrow> concat ps = x @ concat ps' \<and> length x = n"
  using read_exact_flat [of "[]" n ps "Some x" ps'] by (auto simp: Let_def split: if_splits)

lemma discard_True:
  "discard_bytes n ps = (True, ps') \<Longrightarrow> n \<le> length (concat ps) \<and> concat ps' = drop n (concat ps)"
  using discard_flat [of n ps True ps'] by (simp split: if_splits)

lemma read_exact_less:
  "(Some x, ps') = read_exact n [] ps \<Longrightarrow> length (concat ps') + n = length (concat ps)"
  using read_exact_Some [of n ps x ps'] by (metis add.commute length_append)

lemma discard_less: "(True, ps') = discard_bytes n ps \<Longrightarrow> length (concat ps') \<le> length (concat ps)"
  using discard_True [of n ps ps'] by (metis diff_le_self length_drop)

function reader :: "pipe \<Rightarrow> incoming list" where
  "reader ps =
     (case read_exact PREFIX_SIZE [] ps of
        (None, _) \<Rightarrow> [Eof]
      | (Some raw, ps1) \<Rightarrow>
          (case parse_prefix raw of
             None \<Rightarrow> [Desync]
           | Some p \<Rightarrow>
               (case refusal p of
                  Some r \<Rightarrow>
                    (case discard_bytes (p_header_len p + p_body_len p) ps1 of
                       (False, _) \<Rightarrow> [Eof]
                     | (True, ps2) \<Rightarrow> Rejected p r # reader ps2)
                | None \<Rightarrow>
                    (case read_exact (p_header_len p) [] ps1 of
                       (None, _) \<Rightarrow> [Eof]
                     | (Some header, ps2) \<Rightarrow>
                         (case read_exact (p_body_len p) [] ps2 of
                            (None, _) \<Rightarrow> [Eof]
                          | (Some body, ps3) \<Rightarrow> Frame p header body # reader ps3)))))"
  by pat_completeness auto
termination
  by (relation "measure (\<lambda>ps. length (concat ps))")
    (auto simp: PREFIX_SIZE_def simp del: length_concat dest!: read_exact_less discard_less)

declare reader.simps [simp del]

section \<open>What a stream of bytes says\<close>

text \<open>
  The reference: the stream is a sequence of prefixes, each followed by as many bytes as it
  announces, without pieces, buffers or chunks.
\<close>

definition announced :: "prefix \<Rightarrow> nat" where
  "announced p = p_header_len p + p_body_len p"

definition message :: "prefix \<Rightarrow> bytes \<Rightarrow> incoming" where
  "message p payload =
     (case refusal p of
        Some r \<Rightarrow> Rejected p r
      | None \<Rightarrow> Frame p (take (p_header_len p) payload) (drop (p_header_len p) payload))"

function items :: "bytes \<Rightarrow> incoming list" where
  "items stream =
     (if length stream < PREFIX_SIZE then [Eof]
      else (case parse_prefix (take PREFIX_SIZE stream) of
              None \<Rightarrow> [Desync]
            | Some p \<Rightarrow>
                (let rest = drop PREFIX_SIZE stream
                 in if length rest < announced p then [Eof]
                    else message p (take (announced p) rest) # items (drop (announced p) rest))))"
  by pat_completeness auto
termination
  by (relation "measure length") (auto simp: PREFIX_SIZE_def)

declare items.simps [simp del]

lemma read_exact_cases:
  obtains (full) ps' where "n \<le> length (concat ps)"
      "read_exact n [] ps = (Some (take n (concat ps)), ps')" "concat ps' = drop n (concat ps)"
    | (short) ps' where "length (concat ps) < n" "read_exact n [] ps = (None, ps')"
proof -
  obtain r ps' where r: "read_exact n [] ps = (r, ps')" by fastforce
  show thesis
    by (cases "n \<le> length (concat ps)")
      (use read_exact_flat [of "[]" n ps r ps'] r in \<open>auto simp: Let_def simp del: length_concat intro: full short\<close>)
qed

lemma discard_cases:
  obtains (full) ps' where "n \<le> length (concat ps)" "discard_bytes n ps = (True, ps')" "concat ps' = drop n (concat ps)"
    | (short) ps' where "length (concat ps) < n" "discard_bytes n ps = (False, ps')"
proof -
  obtain r ps' where r: "discard_bytes n ps = (r, ps')" by fastforce
  show thesis
    by (cases "n \<le> length (concat ps)")
      (use discard_flat [of n ps r ps'] r in \<open>auto simp del: length_concat intro: full short\<close>)
qed

text \<open>One round of both after a sound prefix \<open>p\<close>, when they agree on what follows.\<close>

lemma reader_round_refused:
  assumes "read_exact PREFIX_SIZE [] ps = (Some raw, ps1)" and "parse_prefix raw = Some p"
    and "refusal p = Some r"
    and "\<And>ps2. concat ps2 = drop (announced p) (concat ps1) \<Longrightarrow> reader ps2 = items (concat ps2)"
  shows "reader ps =
    (if length (concat ps1) < announced p then [Eof]
     else message p (take (announced p) (concat ps1)) # items (drop (announced p) (concat ps1)))"
proof (cases rule: discard_cases [of "announced p" ps1])
  case (full ps2)
  with assms show ?thesis
    by (subst reader.simps) (simp add: message_def announced_def del: length_concat)
next
  case (short ps2)
  with assms show ?thesis
    by (subst reader.simps) (simp add: announced_def del: length_concat)
qed

lemma reader_round_frame:
  assumes "read_exact PREFIX_SIZE [] ps = (Some raw, ps1)" and "parse_prefix raw = Some p"
    and "refusal p = None"
    and "\<And>ps2. concat ps2 = drop (announced p) (concat ps1) \<Longrightarrow> reader ps2 = items (concat ps2)"
  shows "reader ps =
    (if length (concat ps1) < announced p then [Eof]
     else message p (take (announced p) (concat ps1)) # items (drop (announced p) (concat ps1)))"
proof (cases rule: read_exact_cases [of "p_header_len p" ps1])
  case head: (full ps2)
  show ?thesis
  proof (cases rule: read_exact_cases [of "p_body_len p" ps2])
    case (full ps3)
    have "concat ps3 = drop (announced p) (concat ps1)"
      using full head by (simp add: announced_def add.commute)
    moreover from assms(4) [OF this] have "reader ps3 = items (concat ps3)" .
    ultimately show ?thesis using assms(1-3) head full
      by (subst reader.simps) (simp add: message_def announced_def drop_take add.commute del: length_concat)
  next
    case (short ps3)
    then have "length (concat ps1) < announced p"
      using head by (simp add: announced_def del: length_concat)
    with assms(1-3) head(2) short(2) show ?thesis
      by (subst reader.simps) (simp del: length_concat)
  qed
next
  case (short ps2)
  with assms show ?thesis
    by (subst reader.simps) (simp add: announced_def del: length_concat)
qed

lemma reader_items: "reader ps = items (concat ps)"
proof (induction "length (concat ps)" arbitrary: ps rule: less_induct)
  case less
  show ?case
  proof (cases rule: read_exact_cases [of PREFIX_SIZE ps])
    case (short ps')
    then show ?thesis by (subst reader.simps) (simp add: items.simps)
  next
    case (full ps1)
    show ?thesis
    proof (cases "parse_prefix (take PREFIX_SIZE (concat ps))")
      case None
      with full show ?thesis by (subst reader.simps) (simp add: items.simps)
    next
      case (Some p)
      have rest: "reader qs = items (concat qs)" if "concat qs = drop (announced p) (concat ps1)" for qs
        using that full(1,3) by (intro less) (simp add: PREFIX_SIZE_def del: length_concat)
      note rounds = reader_round_refused [OF full(2) Some] reader_round_frame [OF full(2) Some]
      show ?thesis
        using rounds [OF _ rest] full(1,3) Some
        by (subst items.simps) (cases "refusal p"; simp add: Let_def del: length_concat)
    qed
  qed
qed

section \<open>What a writer puts into the stream\<close>

text \<open>The bytes of one frame, whatever its kind and sizes.\<close>

definition wire :: "prefix \<Rightarrow> bytes \<Rightarrow> bytes" where
  "wire p payload =
     MAGIC @ be 1 PROTOCOL_VERSION @ be 1 (p_kind p) @ be 4 (p_request_id p)
       @ be 4 (p_header_len p) @ be 4 (p_body_len p) @ payload"

definition representable :: "prefix \<Rightarrow> bool" where
  "representable p \<longleftrightarrow> p_kind p < 256 \<and> p_request_id p < 256 ^ 4
     \<and> p_header_len p < 256 ^ 4 \<and> p_body_len p < 256 ^ 4"

lemma length_MAGIC [simp]: "length MAGIC = 2"
  by (simp add: MAGIC_def)

lemma parse_prefix_wire:
  assumes "representable p"
  shows "parse_prefix (take PREFIX_SIZE (wire p payload)) = Some p"
proof -
  have "un_be (be 1 (p_kind p)) = p_kind p" "un_be (be 4 (p_request_id p)) = p_request_id p"
    "un_be (be 4 (p_header_len p)) = p_header_len p" "un_be (be 4 (p_body_len p)) = p_body_len p"
    "un_be (be 1 PROTOCOL_VERSION) = PROTOCOL_VERSION"
    using assms un_be_be [of "p_kind p" 1] un_be_be [of PROTOCOL_VERSION 1]
    by (simp_all add: representable_def PROTOCOL_VERSION_def un_be_be del: be.simps)
  then show ?thesis
    by (simp add: parse_prefix_def wire_def PREFIX_SIZE_def take_append drop_append)
qed

lemma items_wire:
  assumes "representable p" and "length payload = announced p"
  shows "items (wire p payload @ stream) = message p payload # items stream"
proof -
  have "take (announced p) (payload @ stream) = payload" "drop (announced p) (payload @ stream) = stream"
    "\<not> length (payload @ stream) < announced p"
    using assms(2) by simp_all
  moreover have "take PREFIX_SIZE (wire p payload @ stream) = take PREFIX_SIZE (wire p payload)"
    "drop PREFIX_SIZE (wire p payload @ stream) = payload @ stream"
    "\<not> length (wire p payload @ stream) < PREFIX_SIZE"
    by (simp_all add: wire_def PREFIX_SIZE_def)
  ultimately show ?thesis using assms
    by (subst items.simps) (simp add: parse_prefix_wire Let_def del: take_append drop_append length_append)
qed

lemma items_Nil [simp]: "items [] = [Eof]"
  by (simp add: items.simps PREFIX_SIZE_def)

lemma pack_prefix_Inr:
  "pack_prefix kind i h b = Inr x \<Longrightarrow>
     representable \<lparr>p_kind = kind, p_request_id = nat i, p_header_len = h, p_body_len = b\<rparr>
     \<and> 0 \<le> i \<and> x @ payload = wire \<lparr>p_kind = kind, p_request_id = nat i, p_header_len = h, p_body_len = b\<rparr> payload"
  by (auto simp: pack_prefix_def result_simps pack_u_Inr representable_def wire_def PROTOCOL_VERSION_def)

text \<open>The frame that a reader should see when \<open>encode\<close> is given these arguments.\<close>

definition frame_of :: "('h \<Rightarrow> bytes) \<Rightarrow> nat \<times> int \<times> 'h \<times> bytes \<Rightarrow> incoming" where
  "frame_of dumps = (\<lambda>(kind, i, header, body).
     Frame \<lparr>p_kind = kind, p_request_id = nat i, p_header_len = length (dumps header),
            p_body_len = length body\<rparr> (dumps header) body)"

abbreviation encode_frame :: "('h \<Rightarrow> bytes) \<Rightarrow> nat \<times> int \<times> 'h \<times> bytes \<Rightarrow> error + bytes" where
  "encode_frame dumps \<equiv> \<lambda>(kind, i, header, body). encode dumps kind i header body"

lemma items_encode:
  assumes "encode_frame dumps f = Inr bs" and "fst f \<in> set KINDS"
  shows "items (bs @ stream) = frame_of dumps f # items stream"
proof -
  obtain kind i header body where f: "f = (kind, i, header, body)" by (cases f)
  define p where "p = \<lparr>p_kind = kind, p_request_id = nat i, p_header_len = length (dumps header),
    p_body_len = length body\<rparr>"
  from assms(1) obtain x where x: "pack_prefix kind i (length (dumps header)) (length body) = Inr x"
    and bs: "bs = x @ dumps header @ body"
    and small: "length (dumps header) \<le> MAX_HEADER_BYTES" "length body \<le> MAX_BODY_BYTES"
    by (auto simp: encode_def f Let_def result_simps)
  have "representable p" and wire: "bs = wire p (dumps header @ body)"
    using pack_prefix_Inr [OF x, of "dumps header @ body"] by (simp_all add: p_def bs)
  moreover have "refusal p = None"
    using assms(2) small by (simp add: refusal_def p_def f)
  ultimately show ?thesis
    by (simp add: items_wire announced_def message_def frame_of_def f p_def)
qed

lemma items_encodes:
  "map_res (encode_frame dumps) fs = Inr bss \<Longrightarrow> list_all (\<lambda>f. fst f \<in> set KINDS) fs \<Longrightarrow>
     items (concat bss @ stream) = map (frame_of dumps) fs @ items stream"
proof (induction fs arbitrary: bss)
  case (Cons f fs)
  then obtain bs bss' where "encode_frame dumps f = Inr bs" "map_res (encode_frame dumps) fs = Inr bss'"
    and "bss = bs # bss'"
    by (auto simp: result_simps split: prod.splits)
  with Cons show ?case by (simp add: items_encode)
qed simp

section \<open>What is delivered\<close>

text \<open>
  What a delivered item may be: a frame of a known kind with a header and a body within the
  limits and of the announced lengths, or the refusal that the prefix deserves.
\<close>

fun deliverable :: "incoming \<Rightarrow> bool" where
  "deliverable (Frame p header body) \<longleftrightarrow>
     p_kind p \<in> set KINDS \<and> length header = p_header_len p \<and> length body = p_body_len p
     \<and> length header \<le> MAX_HEADER_BYTES \<and> length body \<le> MAX_BODY_BYTES"
| "deliverable (Rejected p r) \<longleftrightarrow> refusal p = Some r"
| "deliverable _ \<longleftrightarrow> True"

abbreviation final_item :: "incoming \<Rightarrow> bool" where
  "final_item i \<equiv> i = Eof \<or> i = Desync"

lemma refusal_None:
  "refusal p = None \<longleftrightarrow>
     p_kind p \<in> set KINDS \<and> p_header_len p \<le> MAX_HEADER_BYTES \<and> p_body_len p \<le> MAX_BODY_BYTES"
  by (auto simp: refusal_def)

lemma message_item:
  "length payload = announced p \<Longrightarrow> deliverable (message p payload) \<and> \<not> final_item (message p payload)"
  by (auto simp: message_def announced_def refusal_None split: option.split)

lemma items_last:
  "list_all deliverable (items stream)
   \<and> (\<exists>front e. items stream = front @ [e] \<and> final_item e \<and> list_all (\<lambda>i. \<not> final_item i) front)"
proof (induction stream rule: items.induct)
  case (1 stream)
  show ?case
  proof (cases "\<exists>p. \<not> length stream < PREFIX_SIZE \<and> parse_prefix (take PREFIX_SIZE stream) = Some p
      \<and> \<not> length (drop PREFIX_SIZE stream) < announced p")
    case True
    then obtain p where p: "\<not> length stream < PREFIX_SIZE" "parse_prefix (take PREFIX_SIZE stream) = Some p"
      "\<not> length (drop PREFIX_SIZE stream) < announced p" by blast
    define m where "m = message p (take (announced p) (drop PREFIX_SIZE stream))"
    define tl where "tl = items (drop (announced p) (drop PREFIX_SIZE stream))"
    have eq: "items stream = m # tl"
      using p by (subst items.simps) (simp add: Let_def m_def tl_def)
    have m: "deliverable m" "\<not> final_item m"
      using message_item [of "take (announced p) (drop PREFIX_SIZE stream)" p] p(3) by (simp_all add: m_def)
    from "1.IH" [OF p(1,2) refl p(3)] obtain front e where
      "list_all deliverable tl" "tl = front @ [e]" "final_item e" "list_all (\<lambda>i. \<not> final_item i) front"
      unfolding tl_def by blast
    with m have "list_all deliverable (m # tl)"
      "m # tl = (m # front) @ [e] \<and> final_item e \<and> list_all (\<lambda>i. \<not> final_item i) (m # front)"
      by simp_all
    with eq show ?thesis by metis
  next
    case False
    then have "items stream \<in> {[Eof], [Desync]}"
      by (subst items.simps) (auto simp: Let_def split: option.splits)
    then obtain e where "items stream = [e]" and "final_item e" by auto
    then show ?thesis by auto
  qed
qed

text \<open>
  C23: However the operating system cuts the bytes of the pipe into pieces, the reader delivers
  exactly the items of the byte stream, each frame within the limits and of the announced lengths,
  and ends with one end of input or loss of synchronisation and nothing after it.
\<close>

theorem reader_reads_stream:
  "reader ps = items (concat ps) \<and> list_all deliverable (reader ps)
   \<and> (\<exists>front e. reader ps = front @ [e] \<and> final_item e \<and> list_all (\<lambda>i. \<not> final_item i) front)"
  using items_last [of "concat ps"] by (simp add: reader_items)

lemma be_numeral:
  "be (numeral k) x = be (pred_numeral k) (x div 256) @ [word_of_nat (x mod 256)]"
  by (simp only: numeral_eq_Suc [of k] be.simps)

lemmas frame_simps =
  be_numeral encode_def Let_def ensure_def pack_prefix_def pack_u_def ascii_def MAGIC_def PROTOCOL_VERSION_def
  MAX_HEADER_BYTES_def MAX_BODY_BYTES_def REQUEST_def RESPONSE_def CANCEL_def READY_def ERROR_def SHUTDOWN_def

definition sample_frames :: "(nat \<times> int \<times> string \<times> bytes) list" where
  "sample_frames = [(1, 7, ''{}'', [1, 2]), (3, 7, [], [])]"

definition sample_pipe :: pipe where
  "sample_pipe =
     [[67], [77, 1, 1, 0, 0, 0, 7, 0, 0, 0, 2, 0, 0, 0, 2, 123], [], [125, 1, 2, 67, 77, 1, 3],
      [0, 0, 0, 7, 0, 0, 0, 0, 0, 0, 0, 0, 67, 77, 1, 99, 0, 0, 0, 5, 0, 0, 0, 1, 0],
      [0, 0, 0, 255, 67, 77, 1, 3, 0, 0, 0, 9, 0, 0, 0, 0, 0, 0, 0, 0]]"

definition sample_refused :: prefix where
  "sample_refused = \<lparr>p_kind = 99, p_request_id = 5, p_header_len = 1, p_body_len = 0\<rparr>"

text \<open>
  Frames that the writer encodes are read back one by one with their kind, id, header and body,
  and a frame that is refused for its kind or its sizes is skipped as a whole: every frame before
  and after it still arrives.
\<close>

theorem frames_arrive:
  assumes "map_res (encode_frame dumps) before = Inr xs" and "list_all (\<lambda>f. fst f \<in> set KINDS) before"
    and "representable p" and "refusal p = Some r" and "length payload = announced p"
    and "map_res (encode_frame dumps) after = Inr ys" and "list_all (\<lambda>f. fst f \<in> set KINDS) after"
    and "concat ps = concat xs @ wire p payload @ concat ys"
  shows "reader ps = map (frame_of dumps) before @ Rejected p r # map (frame_of dumps) after @ [Eof]"
  using items_encodes [OF assms(6,7), of "[]"] assms(3-5,8) items_encodes [OF assms(1,2)]
  by (simp add: reader_items items_wire message_def)

theorem frames_arrive_witness:
  "reader sample_pipe =
     map (frame_of ascii) sample_frames @ Rejected sample_refused UnknownKind
     # map (frame_of ascii) [(3, 9, [], [])] @ [Eof]"
proof (rule frames_arrive)
  show "map_res (encode_frame ascii) sample_frames =
      Inr [[67, 77, 1, 1, 0, 0, 0, 7, 0, 0, 0, 2, 0, 0, 0, 2, 123, 125, 1, 2],
           [67, 77, 1, 3, 0, 0, 0, 7, 0, 0, 0, 0, 0, 0, 0, 0]]"
    by (simp add: sample_frames_def frame_simps)
  show "map_res (encode_frame ascii) [(3, 9, [], [])] =
      Inr [[67, 77, 1, 3, 0, 0, 0, 9, 0, 0, 0, 0, 0, 0, 0, 0]]"
    by (simp add: frame_simps)
  show "concat sample_pipe =
      concat [[67, 77, 1, 1, 0, 0, 0, 7, 0, 0, 0, 2, 0, 0, 0, 2, 123, 125, 1, 2],
           [67, 77, 1, 3, 0, 0, 0, 7, 0, 0, 0, 0, 0, 0, 0, 0]]
      @ wire sample_refused [255]
      @ concat [[67, 77, 1, 3, 0, 0, 0, 9, 0, 0, 0, 0, 0, 0, 0, 0]]"
    by (simp add: sample_pipe_def sample_refused_def wire_def frame_simps)
qed (simp_all add: sample_frames_def sample_refused_def representable_def refusal_def announced_def KINDS_def frame_simps)

end
