(* ===== verification/Core_Server.thy ===== *)
theory Core_Server
  imports Framing Sessions
begin

text \<open>
  The vault core's side of the desktop protocol (\<^verbatim>\<open>desktop/core/desktop_core/server.py\<close>): reading a
  request, and \<^verbatim>\<open>CoreServer\<close> as a state machine. The event loop runs one piece of code at a time,
  from one \<^verbatim>\<open>await\<close> to the next; each such piece is one step here, and they come in any order. What
  the application answers, when it answers, and what the vault's sessions are at that time, is left
  open. The JSON decoder and encoder are arguments.
\<close>

section \<open>Requests\<close>

datatype json = JNull | JBool bool | JInt int | JFloat ustr | JStr ustr | JArr "json list" | JObj "(ustr \<times> json) list"

text \<open>\<^verbatim>\<open>json.loads\<close> raises \<^verbatim>\<open>ValueError\<close> (with a message), or \<^verbatim>\<open>RecursionError\<close> when values nest too deeply.\<close>

datatype json_error = NotJson ustr | TooDeep

type_synonym json_loads = "bytes \<Rightarrow> json_error + json"
type_synonym json_dumps = "json \<Rightarrow> bytes"

text \<open>What \<^verbatim>\<open>parse_request\<close> may raise: \<^verbatim>\<open>BadRequest\<close>, or an error that \<^verbatim>\<open>_start\<close> does not catch.\<close>

datatype request_error = BadRequest ustr | Uncaught

definition MAX_IN_FLIGHT :: nat where "MAX_IN_FLIGHT = 16"
definition MAX_PATH :: nat where "MAX_PATH = 8192"
definition MAX_HEADERS :: nat where "MAX_HEADERS = 64"

definition METHODS :: "ustr list" where
  "METHODS = map utext [''GET'', ''POST'', ''PUT'', ''PATCH'', ''DELETE'']"

definition DROPPED_HEADERS :: "ustr list" where
  "DROPPED_HEADERS = map utext [''content-length'', ''transfer-encoding'', ''connection'', ''host'']"

definition ascii_text :: "ustr \<Rightarrow> bool" where
  "ascii_text = list_all (\<lambda>c. c < 128)"

text \<open>\<^verbatim>\<open>str.lower\<close> of ASCII text.\<close>

definition lower_ascii :: "ustr \<Rightarrow> ustr" where
  "lower_ascii = map (\<lambda>c. if 65 \<le> c \<and> c \<le> 90 then c + 32 else c)"

definition get :: "(ustr \<times> json) list \<Rightarrow> string \<Rightarrow> json option" where
  "get members key = map_of members (utext key)"

record api_request =
  r_method :: ustr
  r_path :: ustr
  r_query :: ustr
  r_headers :: "(ustr \<times> ustr) list"

definition good_path :: "ustr \<Rightarrow> bool" where
  "good_path path \<longleftrightarrow> (path \<noteq> [] \<and> hd path = 47) \<and> length path \<le> MAX_PATH \<and> ascii_text path
     \<and> \<not> list_ex (\<lambda>c. c < 33 \<or> c = 127) path"

text \<open>One element of the \<^verbatim>\<open>headers\<close> list: a pair of ASCII texts without CR, LF and NUL.\<close>

definition header_pair :: "json \<Rightarrow> (ustr \<times> ustr) option" where
  "header_pair pair =
     (case pair of
        JArr [JStr name, JStr value] \<Rightarrow>
          if ascii_text name \<and> ascii_text value
             \<and> \<not> list_ex (\<lambda>c. c = 13 \<or> c = 10 \<or> c = 0) (name @ value)
          then Some (name, value) else None
      | _ \<Rightarrow> None)"

fun clean_headers :: "json list \<Rightarrow> request_error + (ustr \<times> ustr) list" where
  "clean_headers [] = Inr []"
| "clean_headers (pair # pairs) =
     (case header_pair pair of
        None \<Rightarrow> Inl (BadRequest (utext ''header pair''))
      | Some (name, value) \<Rightarrow>
          andThen (clean_headers pairs) (\<lambda>clean.
          Inr (if lower_ascii name \<in> set DROPPED_HEADERS then clean else (name, value) # clean)))"

text \<open>
  \<^verbatim>\<open>method not in METHODS\<close> hashes the value: a list or an object is not hashable, and Python raises
  \<^verbatim>\<open>TypeError\<close>.
\<close>

definition check_method :: "json option \<Rightarrow> request_error + ustr" where
  "check_method method =
     (case method of
        Some (JStr m) \<Rightarrow> if m \<in> set METHODS then Inr m else Inl (BadRequest (utext ''method''))
      | Some (JArr _) \<Rightarrow> Inl Uncaught
      | Some (JObj _) \<Rightarrow> Inl Uncaught
      | _ \<Rightarrow> Inl (BadRequest (utext ''method'')))"

definition parse_request :: "json_loads \<Rightarrow> bytes \<Rightarrow> request_error + api_request" where
  "parse_request loads header_bytes =
     (case loads header_bytes of
        Inl TooDeep \<Rightarrow> Inl Uncaught
      | Inl (NotJson m) \<Rightarrow> Inl (BadRequest (utext ''header is not JSON''))
      | Inr (JObj header) \<Rightarrow>
          andThen (check_method (get header ''method'')) (\<lambda>method.
          andThen (case get header ''path'' of
              Some (JStr path) \<Rightarrow> andThen (ensure (good_path path) (BadRequest (utext ''path''))) (\<lambda>_. Inr path)
            | _ \<Rightarrow> Inl (BadRequest (utext ''path''))) (\<lambda>path.
          andThen (case get header ''query'' of
              None \<Rightarrow> Inr []
            | Some (JStr query) \<Rightarrow>
                andThen (ensure (ascii_text query \<and> length query \<le> MAX_PATH) (BadRequest (utext ''query'')))
                  (\<lambda>_. Inr query)
            | _ \<Rightarrow> Inl (BadRequest (utext ''query''))) (\<lambda>query.
          andThen (case get header ''headers'' of
              None \<Rightarrow> Inr []
            | Some (JArr pairs) \<Rightarrow>
                andThen (ensure (length pairs \<le> MAX_HEADERS) (BadRequest (utext ''headers''))) (\<lambda>_. Inr pairs)
            | _ \<Rightarrow> Inl (BadRequest (utext ''headers''))) (\<lambda>pairs.
          andThen (clean_headers pairs) (\<lambda>clean.
          Inr \<lparr>r_method = method, r_path = path, r_query = query, r_headers = clean\<rparr>)))))
      | Inr _ \<Rightarrow> Inl (BadRequest (utext ''header is not an object'')))"

text \<open>The \<^verbatim>\<open>try\<close> block of \<^verbatim>\<open>_start\<close>: an object with a \<^verbatim>\<open>native\<close> member is a file operation.\<close>

datatype core_request = Native "(ustr \<times> json) list" | Api api_request

definition decode_request :: "json_loads \<Rightarrow> bytes \<Rightarrow> request_error + core_request" where
  "decode_request loads header =
     (case loads header of
        Inl TooDeep \<Rightarrow> Inl Uncaught
      | Inl (NotJson m) \<Rightarrow> Inl (BadRequest m)
      | Inr (JObj members) \<Rightarrow>
          if get members ''native'' \<noteq> None then Inr (Native members)
          else andThen (parse_request loads header) (\<lambda>r. Inr (Api r))
      | Inr _ \<Rightarrow> andThen (parse_request loads header) (\<lambda>r. Inr (Api r)))"

section \<open>The session deadline in a response\<close>

text \<open>\<^verbatim>\<open>if not token\<close>\<close>

fun truthy :: "json \<Rightarrow> bool" where
  "truthy JNull = False"
| "truthy (JBool b) = b"
| "truthy (JInt i) = (i \<noteq> 0)"
| "truthy (JFloat f) = (f \<noteq> utext ''0.0'' \<and> f \<noteq> utext ''-0.0'')"
| "truthy (JStr s) = (s \<noteq> [])"
| "truthy (JArr xs) = (xs \<noteq> [])"
| "truthy (JObj ms) = (ms \<noteq> [])"

definition SESSION_ROUTES :: "ustr list" where
  "SESSION_ROUTES = map utext [''/api/master_password/create'', ''/api/master_password/unlock'']"

text \<open>The token whose deadline is asked for; \<open>None\<close> when reading it raises.\<close>

definition session_token :: "json_loads \<Rightarrow> core_request \<Rightarrow> nat \<Rightarrow> bytes \<Rightarrow> json option" where
  "session_token loads request status body =
     (case request of
        Native members \<Rightarrow> Some (case get members ''session'' of None \<Rightarrow> JNull | Some v \<Rightarrow> v)
      | Api r \<Rightarrow>
          if status = 200 \<and> r_path r \<in> set SESSION_ROUTES then
            (case loads body of
               Inr (JObj members) \<Rightarrow>
                 Some (case get members ''session_token'' of None \<Rightarrow> JNull | Some v \<Rightarrow> v)
             | _ \<Rightarrow> None)
          else Some (case find (\<lambda>(name, _). lower_ascii name = utext ''x-ciphermoth-session'') (r_headers r) of
                       None \<Rightarrow> JNull | Some (_, value) \<Rightarrow> JStr value))"

text \<open>
  \<^verbatim>\<open>_session_info\<close>: \<open>None\<close> when it raises (a token that is not text makes \<^verbatim>\<open>re.fullmatch\<close> raise).
\<close>

definition core_session_info ::
    "primitives \<Rightarrow> json_loads \<Rightarrow> core_request \<Rightarrow> nat \<Rightarrow> bytes \<Rightarrow> instant \<Rightarrow> vault_sessions \<Rightarrow>
       json option \<times> vault_sessions" where
  "core_session_info P loads request status body now vs =
     (case session_token loads request status body of
        None \<Rightarrow> (None, vs)
      | Some token \<Rightarrow>
          if \<not> truthy token then (Some JNull, vs)
          else (case token of
             JStr t \<Rightarrow>
               (case info P (Some t) now vs of
                  (Inl _, vs') \<Rightarrow> (Some (JObj [(utext ''expires_in_ms'', JInt 0)]), vs')
                | (Inr i, vs') \<Rightarrow> (Some (JObj [(utext ''expires_in_ms'', JInt (si_expires_in_ms i))]), vs'))
           | _ \<Rightarrow> (None, vs)))"

section \<open>The state of the core\<close>

text \<open>What the core sends: the two kinds of answer (and \<^verbatim>\<open>READY\<close>, once, before it serves).\<close>

datatype outgoing =
    Response nat nat "(ustr \<times> ustr) list" json bytes
  | Error nat string ustr
  | Ready json

definition pair_json :: "ustr \<times> ustr \<Rightarrow> json" where
  "pair_json = (\<lambda>(n, v). JArr [JStr n, JStr v])"

definition outgoing_frame :: "outgoing \<Rightarrow> nat \<times> int \<times> json \<times> bytes" where
  "outgoing_frame m =
     (case m of
        Response i status headers session body \<Rightarrow>
          (RESPONSE, int i,
           JObj [(utext ''status'', JInt (int status)), (utext ''headers'', JArr (map pair_json headers)),
                 (utext ''session'', session)], body)
      | Error i code msg \<Rightarrow>
          (ERROR, int i, JObj [(utext ''code'', JStr (utext code)), (utext ''message'', JStr msg)], [])
      | Ready members \<Rightarrow> (READY, 0, members, []))"

text \<open>A task waits to run, runs inside the application, or is done (\<open>True\<close>: as a cancelled task).\<close>

datatype stage = Created | Running | Done bool

record task =
  t_request :: core_request
  t_body :: bytes
  t_stage :: stage
  t_cancel :: bool

datatype phase = Serving | Draining | Closed | Died | Crashed

record core =
  c_inbox :: "incoming list"
  c_in_flight :: "(nat \<times> task) list"
  c_queue :: "outgoing list"
  c_written :: "outgoing list"
  c_phase :: phase
  c_exit_code :: nat
  c_unretrieved :: "nat list"

text \<open>
  \<open>c_inbox\<close> is what the reader thread still delivers, \<open>c_queue\<close> the queue of the writer thread and
  \<open>c_written\<close> what it took from there; \<open>c_unretrieved\<close> lists the requests whose task or callback
  ended with an exception that asyncio only logs. \<open>Died\<close> is \<^verbatim>\<open>os._exit(3)\<close>, \<open>Crashed\<close> an exception
  out of \<^verbatim>\<open>serve\<close>.
\<close>

definition CoreServer :: "pipe \<Rightarrow> core" where
  "CoreServer proto_in =
     \<lparr>c_inbox = reader proto_in, c_in_flight = [], c_queue = [], c_written = [], c_phase = Serving,
      c_exit_code = 0, c_unretrieved = []\<rparr>"

text \<open>\<^verbatim>\<open>ProtocolWriter.send\<close>: \<open>None\<close> when encoding raises; a full queue ends the process.\<close>

definition send :: "json_dumps \<Rightarrow> outgoing \<Rightarrow> core \<Rightarrow> core option" where
  "send dumps m c =
     (case encode_frame dumps (outgoing_frame m) of
        Inl _ \<Rightarrow> None
      | Inr _ \<Rightarrow>
          Some (if MAX_IN_FLIGHT \<le> length (c_queue c) then c\<lparr>c_phase := Died\<rparr>
                else c\<lparr>c_queue := c_queue c @ [m]\<rparr>))"

section \<open>The pieces of code between two awaits\<close>

text \<open>\<^verbatim>\<open>task.cancel()\<close> of a task that is done does nothing.\<close>

definition cancel :: "task \<Rightarrow> task" where
  "cancel t = (case t_stage t of Done _ \<Rightarrow> t | _ \<Rightarrow> t\<lparr>t_cancel := True\<rparr>)"

definition start :: "json_loads \<Rightarrow> json_dumps \<Rightarrow> nat \<Rightarrow> bytes \<Rightarrow> bytes \<Rightarrow> core \<Rightarrow> core option" where
  "start loads dumps i header body c =
     (if i = 0 then send dumps (Error 0 ''bad_request'' (utext ''request id 0 is reserved'')) c
      else if i \<in> fst ` set (c_in_flight c) then send dumps (Error i ''duplicate_id'' []) c
      else if MAX_IN_FLIGHT \<le> length (c_in_flight c) then send dumps (Error i ''busy'' []) c
      else (case decode_request loads header of
          Inl (BadRequest m) \<Rightarrow> send dumps (Error i ''bad_request'' m) c
        | Inl Uncaught \<Rightarrow> None
        | Inr r \<Rightarrow>
            Some (c\<lparr>c_in_flight := c_in_flight c @
              [(i, \<lparr>t_request = r, t_body = body, t_stage = Created, t_cancel = False\<rparr>)]\<rparr>)))"

text \<open>\<^verbatim>\<open>_drain\<close> up to its \<^verbatim>\<open>asyncio.wait\<close>: every task is cancelled.\<close>

definition begin_drain :: "core \<Rightarrow> core" where
  "begin_drain c =
     c\<lparr>c_phase := Draining, c_in_flight := map (\<lambda>(i, t). (i, cancel t)) (c_in_flight c)\<rparr>"

definition reason_code :: "reason \<Rightarrow> string" where
  "reason_code r = (case r of UnknownKind \<Rightarrow> ''unknown_kind'' | HeaderTooLarge \<Rightarrow> ''header_too_large''
     | BodyTooLarge \<Rightarrow> ''body_too_large'')"

text \<open>One round of \<^verbatim>\<open>serve\<close>; \<open>None\<close> when it raises.\<close>

definition serve_item :: "json_loads \<Rightarrow> json_dumps \<Rightarrow> incoming \<Rightarrow> core \<Rightarrow> core option" where
  "serve_item loads dumps item c =
     (case item of
        Eof \<Rightarrow> Some (begin_drain c)
      | Desync \<Rightarrow>
          map_option (\<lambda>c'. if c_phase c' = Died then c' else begin_drain (c'\<lparr>c_exit_code := 2\<rparr>))
            (send dumps (Error 0 ''desync'' (utext ''bad magic or version'')) c)
      | Rejected p r \<Rightarrow> send dumps (Error (p_request_id p) (reason_code r) []) c
      | Frame p header body \<Rightarrow>
          if p_kind p = REQUEST then start loads dumps (p_request_id p) header body c
          else if p_kind p = CANCEL then
            (case map_of (c_in_flight c) (p_request_id p) of
               None \<Rightarrow> Some c
             | Some t \<Rightarrow> Some (c\<lparr>c_in_flight := upsert fst (p_request_id p, cancel t) (c_in_flight c)\<rparr>))
          else if p_kind p = SHUTDOWN then Some (begin_drain c)
          else send dumps (Error (p_request_id p) ''unexpected_kind'' []) c)"

text \<open>
  How a call of the application ends: \<^verbatim>\<open>CancelledError\<close>, \<^verbatim>\<open>ResponseTooLarge\<close>, another exception,
  or a response, whose session is then looked up at the given instant in the given sessions.
\<close>

datatype outcome =
    AppCancelled
  | AppTooLarge
  | AppFailed
  | AppReply nat "(ustr \<times> ustr) list" bytes instant vault_sessions

definition answer :: "primitives \<Rightarrow> json_loads \<Rightarrow> nat \<Rightarrow> core_request \<Rightarrow> outcome \<Rightarrow> outgoing option" where
  "answer P loads i request outcome =
     (case outcome of
        AppCancelled \<Rightarrow> Some (Error i ''cancelled'' [])
      | AppTooLarge \<Rightarrow> Some (Error i ''response_too_large'' [])
      | AppFailed \<Rightarrow> Some (Error i ''internal'' [])
      | AppReply status headers body now vs \<Rightarrow>
          map_option (\<lambda>session. Response i status headers session body)
            (fst (core_session_info P loads request status body now vs)))"

text \<open>The rest of \<^verbatim>\<open>_handle\<close> after the call; an exception there ends the task without an answer.\<close>

definition finish :: "primitives \<Rightarrow> json_loads \<Rightarrow> json_dumps \<Rightarrow> nat \<Rightarrow> task \<Rightarrow> outcome \<Rightarrow> core \<Rightarrow> core" where
  "finish P loads dumps i t outcome c =
     (let c' = c\<lparr>c_in_flight := upsert fst (i, t\<lparr>t_stage := Done False\<rparr>) (c_in_flight c)\<rparr>
      in case Option.bind (answer P loads i (t_request t) outcome) (\<lambda>m. send dumps m c') of
           None \<Rightarrow> c'\<lparr>c_unretrieved := c_unretrieved c' @ [i]\<rparr>
         | Some c'' \<Rightarrow> c'')"

text \<open>The callback \<^verbatim>\<open>completed\<close>.\<close>

definition completed :: "json_dumps \<Rightarrow> nat \<Rightarrow> bool \<Rightarrow> core \<Rightarrow> core" where
  "completed dumps i cancelled c =
     (let c' = c\<lparr>c_in_flight := del_row fst i (c_in_flight c)\<rparr>
      in if cancelled then
           (case send dumps (Error i ''cancelled'' []) c' of
              None \<Rightarrow> c'\<lparr>c_unretrieved := c_unretrieved c' @ [i]\<rparr>
            | Some c'' \<Rightarrow> c'')
         else c')"

section \<open>Steps\<close>

datatype core_action =
    Serve incoming
  | Begin nat
  | Finish nat outcome
  | Retire nat
  | Write
  | Break
  | Close
  | GiveUp

definition active :: "core \<Rightarrow> bool" where
  "active c \<longleftrightarrow> c_phase c = Serving \<or> c_phase c = Draining"

text \<open>
  \<open>Begin\<close> is the first step of a task: a cancelled one ends before any of its code runs. \<open>Break\<close> is a
  failed write to the pipe. \<open>Close\<close> and \<open>GiveUp\<close> are the two ends of \<^verbatim>\<open>_drain\<close>: no task is left, or
  two seconds have passed.
\<close>

inductive core_step ::
    "primitives \<Rightarrow> json_loads \<Rightarrow> json_dumps \<Rightarrow> core \<Rightarrow> core_action \<Rightarrow> core \<Rightarrow> bool"
  for P loads dumps where
  serve: "c_phase c = Serving \<Longrightarrow> c_inbox c = item # later \<Longrightarrow>
     serve_item loads dumps item (c\<lparr>c_inbox := later\<rparr>) = Some c' \<Longrightarrow>
     core_step P loads dumps c (Serve item) c'"
| crash: "c_phase c = Serving \<Longrightarrow> c_inbox c = item # later \<Longrightarrow>
     serve_item loads dumps item (c\<lparr>c_inbox := later\<rparr>) = None \<Longrightarrow>
     core_step P loads dumps c (Serve item) (c\<lparr>c_inbox := later, c_phase := Crashed\<rparr>)"
| begins: "active c \<Longrightarrow> map_of (c_in_flight c) i = Some t \<Longrightarrow> t_stage t = Created \<Longrightarrow>
     core_step P loads dumps c (Begin i)
       (c\<lparr>c_in_flight := upsert fst (i, t\<lparr>t_stage := if t_cancel t then Done True else Running\<rparr>) (c_in_flight c)\<rparr>)"
| finishes: "active c \<Longrightarrow> map_of (c_in_flight c) i = Some t \<Longrightarrow> t_stage t = Running \<Longrightarrow>
     core_step P loads dumps c (Finish i outcome) (finish P loads dumps i t outcome c)"
| retires: "active c \<Longrightarrow> map_of (c_in_flight c) i = Some t \<Longrightarrow> t_stage t = Done cancelled \<Longrightarrow>
     core_step P loads dumps c (Retire i) (completed dumps i cancelled c)"
| writes: "c_phase c \<noteq> Died \<Longrightarrow> c_queue c = m # ms \<Longrightarrow>
     core_step P loads dumps c Write (c\<lparr>c_queue := ms, c_written := c_written c @ [m]\<rparr>)"
| breaks: "c_phase c \<noteq> Died \<Longrightarrow> core_step P loads dumps c Break (c\<lparr>c_phase := Died\<rparr>)"
| closes: "c_phase c = Draining \<Longrightarrow> c_in_flight c = [] \<Longrightarrow>
     core_step P loads dumps c Close (c\<lparr>c_phase := Closed\<rparr>)"
| gives_up: "c_phase c = Draining \<Longrightarrow>
     core_step P loads dumps c GiveUp (c\<lparr>c_phase := Closed\<rparr>)"

inductive_cases core_stepE: "core_step P loads dumps c a c'"

end
