(* ===== verification/Core_Safety.thy ===== *)
theory Core_Safety
  imports Core_Server
begin

text \<open>
  What holds in every reachable state of the vault core (\<open>Core_Server\<close>): the bounds on its tasks and
  its queue, the accounting of requests and answers, the end of a drain, and what a session lookup
  may change.
\<close>

section \<open>Sending\<close>

lemma send_Some:
  "send dumps m c = Some c' \<Longrightarrow>
     c' = c\<lparr>c_phase := Died\<rparr> \<or> (length (c_queue c) < MAX_IN_FLIGHT \<and> c' = c\<lparr>c_queue := c_queue c @ [m]\<rparr>)"
  by (auto simp: send_def split: sum.splits if_splits)

lemma finish_cases:
  obtains (lost) "answer P loads i (t_request t) outcome = None \<or>
        (\<exists>m. answer P loads i (t_request t) outcome = Some m \<and> send dumps m c = None)"
      "finish P loads dumps i t outcome c =
        c\<lparr>c_in_flight := upsert fst (i, t\<lparr>t_stage := Done False\<rparr>) (c_in_flight c),
          c_unretrieved := c_unretrieved c @ [i]\<rparr>"
    | (died) "c_phase (finish P loads dumps i t outcome c) = Died"
        "finish P loads dumps i t outcome c =
        c\<lparr>c_in_flight := upsert fst (i, t\<lparr>t_stage := Done False\<rparr>) (c_in_flight c), c_phase := Died\<rparr>"
    | (answered) m where "answer P loads i (t_request t) outcome = Some m" "length (c_queue c) < MAX_IN_FLIGHT"
      "finish P loads dumps i t outcome c =
        c\<lparr>c_in_flight := upsert fst (i, t\<lparr>t_stage := Done False\<rparr>) (c_in_flight c),
          c_queue := c_queue c @ [m]\<rparr>"
proof (cases "answer P loads i (t_request t) outcome")
  case None
  then show thesis by (intro lost) (simp_all add: finish_def Let_def)
next
  case (Some m)
  define c' where "c' = c\<lparr>c_in_flight := upsert fst (i, t\<lparr>t_stage := Done False\<rparr>) (c_in_flight c)\<rparr>"
  have eq: "finish P loads dumps i t outcome c =
      (case send dumps m c' of None \<Rightarrow> c'\<lparr>c_unretrieved := c_unretrieved c' @ [i]\<rparr> | Some c'' \<Rightarrow> c'')"
    unfolding finish_def c'_def by (simp only: Let_def Some bind.simps)
  have none: "send dumps m c' = None \<longleftrightarrow> send dumps m c = None"
    by (simp add: send_def split: sum.splits)
  show thesis
  proof (cases "send dumps m c'")
    case None
    with eq none Some show thesis by (intro lost) (auto simp: c'_def)
  next
    case sent: (Some c'')
    from send_Some [OF sent] show thesis
    proof
      assume "c'' = c'\<lparr>c_phase := Died\<rparr>"
      then show thesis using eq sent by (intro died) (simp_all add: c'_def)
    next
      assume "length (c_queue c') < MAX_IN_FLIGHT \<and> c'' = c'\<lparr>c_queue := c_queue c' @ [m]\<rparr>"
      then show thesis using eq sent Some by (intro answered [of m]) (simp_all add: c'_def)
    qed
  qed
qed

section \<open>Bounds\<close>

definition core_inv :: "core \<Rightarrow> bool" where
  "core_inv c \<longleftrightarrow> distinct (map fst (c_in_flight c)) \<and> 0 \<notin> fst ` set (c_in_flight c)
     \<and> length (c_in_flight c) \<le> MAX_IN_FLIGHT \<and> length (c_queue c) \<le> MAX_IN_FLIGHT"

lemma map_of_Some_key: "map_of xs k = Some v \<Longrightarrow> k \<in> fst ` set xs"
  by (metis map_of_eq_None_iff option.distinct(1))

lemma keys_upsert_known:
  "map_of xs k = Some v \<Longrightarrow> map fst (upsert fst (k, w) xs) = map fst xs"
  by (simp add: upsert_def row_of_None map_of_Some_key del: keys_set_row) simp

lemma core_inv_keys:
  "map fst (c_in_flight c') = map fst (c_in_flight c) \<Longrightarrow> length (c_queue c') \<le> MAX_IN_FLIGHT \<Longrightarrow>
     core_inv c \<Longrightarrow> core_inv c'"
  unfolding core_inv_def by (metis length_map list.set_map)

lemma core_inv_send: "send dumps m c = Some c' \<Longrightarrow> core_inv c \<Longrightarrow> core_inv c'"
  by (drule send_Some) (auto simp: core_inv_def)

lemma core_inv_add:
  "core_inv c \<Longrightarrow> i \<noteq> 0 \<Longrightarrow> i \<notin> fst ` set (c_in_flight c) \<Longrightarrow> length (c_in_flight c) < MAX_IN_FLIGHT \<Longrightarrow>
     core_inv (c\<lparr>c_in_flight := c_in_flight c @ [(i, t)]\<rparr>)"
  by (auto simp: core_inv_def)

lemma core_inv_start: "start loads dumps i header body c = Some c' \<Longrightarrow> core_inv c \<Longrightarrow> core_inv c'"
  unfolding start_def
  by (auto simp: not_le intro: core_inv_send core_inv_add split: if_splits sum.splits request_error.splits)

lemma core_inv_drain: "core_inv c \<Longrightarrow> core_inv (begin_drain c)"
  by (rule core_inv_keys [of _ c]) (auto simp: begin_drain_def core_inv_def)

lemma core_inv_frozen: "core_inv c \<Longrightarrow> core_inv (c\<lparr>c_exit_code := k\<rparr>)" "core_inv c \<Longrightarrow> core_inv (c\<lparr>c_phase := ph\<rparr>)"
  "core_inv c \<Longrightarrow> core_inv (c\<lparr>c_inbox := inbox\<rparr>)"
  by (simp_all add: core_inv_def)

lemma core_inv_task:
  "core_inv c \<Longrightarrow> map_of (c_in_flight c) i = Some t \<Longrightarrow>
     core_inv (c\<lparr>c_in_flight := upsert fst (i, t') (c_in_flight c)\<rparr>)"
  by (rule core_inv_keys [of _ c]) (simp_all add: keys_upsert_known core_inv_def)

lemma core_inv_serve_item: "serve_item loads dumps item c = Some c' \<Longrightarrow> core_inv c \<Longrightarrow> core_inv c'"
  unfolding serve_item_def
  by (auto intro: core_inv_send core_inv_start core_inv_drain core_inv_task core_inv_frozen
      split: incoming.splits if_splits option.splits)

lemma core_inv_finish:
  assumes c: "core_inv c" and t: "map_of (c_in_flight c) i = Some t"
  shows "core_inv (finish P loads dumps i t outcome c)"
proof (rule core_inv_keys [of _ c])
  have "length (c_queue c) \<le> MAX_IN_FLIGHT" using c by (simp add: core_inv_def)
  then show "length (c_queue (finish P loads dumps i t outcome c)) \<le> MAX_IN_FLIGHT"
    by - (rule finish_cases [of P loads i t outcome dumps c]; simp)
  show "map fst (c_in_flight (finish P loads dumps i t outcome c)) = map fst (c_in_flight c)"
    by (rule finish_cases [of P loads i t outcome dumps c]) (simp_all add: keys_upsert_known [OF t])
qed (rule c)

lemma core_inv_completed: "core_inv c \<Longrightarrow> core_inv (completed dumps i cancelled c)"
proof -
  assume c: "core_inv c"
  then have "core_inv (c\<lparr>c_in_flight := del_row fst i (c_in_flight c)\<rparr>)"
    by (auto simp: core_inv_def distinct_del_row set_del_row)
      (auto simp: del_row_def intro: order.trans [OF length_filter_le])
  then show ?thesis
    by (auto simp: completed_def Let_def core_inv_def dest!: send_Some split: option.split)
qed

lemma core_inv_write: "core_inv c \<Longrightarrow> c_queue c = m # ms \<Longrightarrow> core_inv (c\<lparr>c_queue := ms, c_written := w\<rparr>)"
  by (simp add: core_inv_def)

lemmas core_inv_intros =
  core_inv_serve_item core_inv_finish core_inv_completed core_inv_task core_inv_frozen core_inv_write

lemma core_inv_step: "core_inv c \<Longrightarrow> core_step P loads dumps c a c' \<Longrightarrow> core_inv c'"
  by (erule core_stepE) (auto intro: core_inv_intros)

section \<open>Every request is answered once\<close>

text \<open>The codes of the errors that answer a request; the others report on frames.\<close>

definition ANSWER_CODES :: "string list" where
  "ANSWER_CODES = [''bad_request'', ''duplicate_id'', ''busy'', ''cancelled'', ''response_too_large'', ''internal'']"

fun answers_to :: "nat \<Rightarrow> outgoing \<Rightarrow> bool" where
  "answers_to i (Response j status headers session body) \<longleftrightarrow> j = i"
| "answers_to i (Error j code msg) \<longleftrightarrow> j = i \<and> code \<in> set ANSWER_CODES"
| "answers_to i (Ready _) \<longleftrightarrow> False"

fun requests_of :: "nat \<Rightarrow> incoming \<Rightarrow> bool" where
  "requests_of i (Frame p header body) \<longleftrightarrow> p_kind p = REQUEST \<and> p_request_id p = i"
| "requests_of i _ \<longleftrightarrow> False"

definition answers :: "nat \<Rightarrow> core \<Rightarrow> nat" where
  "answers i c = length (filter (answers_to i) (c_written c @ c_queue c))"

definition unanswered :: "nat \<Rightarrow> core \<Rightarrow> nat" where
  "unanswered i c =
     (case map_of (c_in_flight c) i of
        None \<Rightarrow> 0
      | Some t \<Rightarrow> if t_stage t = Done False then 0 else 1)"

definition accounted :: "nat \<Rightarrow> core \<Rightarrow> nat" where
  "accounted i c = answers i c + unanswered i c + count_list (c_unretrieved c) i"

definition alive :: "core \<Rightarrow> bool" where
  "alive c \<longleftrightarrow> c_phase c \<noteq> Died \<and> c_phase c \<noteq> Crashed"

fun asks :: "nat \<Rightarrow> core_action \<Rightarrow> nat" where
  "asks i (Serve item) = (if requests_of i item then 1 else 0)"
| "asks i _ = 0"

lemma accounted_send:
  assumes "send dumps m c = Some c'" and "alive c'"
  shows "accounted i c' = accounted i c + (if answers_to i m then 1 else 0)"
  using send_Some [OF assms(1)] assms(2)
  by (auto simp: alive_def accounted_def answers_def unanswered_def)

lemma send_alive: "send dumps m c = Some c' \<Longrightarrow> alive c' \<Longrightarrow> c' = c\<lparr>c_queue := c_queue c @ [m]\<rparr>"
  using send_Some [of dumps m c c'] by (auto simp: alive_def)

lemma accounted_same:
  "c_written c' @ c_queue c' = c_written c @ c_queue c \<Longrightarrow> unanswered i c' = unanswered i c \<Longrightarrow>
     c_unretrieved c' = c_unretrieved c \<Longrightarrow> accounted i c' = accounted i c"
  by (simp add: accounted_def answers_def)

lemma unanswered_task:
  "unanswered i (c\<lparr>c_in_flight := upsert fst (j, t) (c_in_flight c)\<rparr>) =
     (if i = j then (if t_stage t = Done False then 0 else 1) else unanswered i c)"
  by (simp add: unanswered_def map_of_upsert)

lemma unanswered_retired:
  "unanswered i (c\<lparr>c_in_flight := del_row fst j (c_in_flight c)\<rparr>) = (if i = j then 0 else unanswered i c)"
  by (simp add: unanswered_def map_of_del_row)

lemma stage_cancel [simp]: "t_stage (cancel t) = t_stage t"
  by (simp add: cancel_def split: stage.split)

lemma accounted_drain [simp]: "accounted i (begin_drain c) = accounted i c"
  by (rule accounted_same) (simp_all add: begin_drain_def unanswered_def map_of_map split: option.split)

lemma accounted_start:
  assumes "start loads dumps j header body c = Some c'" and "alive c'"
  shows "accounted i c' = accounted i c + (if j = i then 1 else 0)"
proof -
  consider (sent) code m where "send dumps (Error j code m) c = Some c'" "code \<in> set ANSWER_CODES"
    | (added) r where "j \<notin> fst ` set (c_in_flight c)" "c' = c\<lparr>c_in_flight := c_in_flight c @
              [(j, \<lparr>t_request = r, t_body = body, t_stage = Created, t_cancel = False\<rparr>)]\<rparr>"
    using assms(1) unfolding start_def
    by (auto simp: ANSWER_CODES_def split: if_splits sum.splits request_error.splits)
  then show ?thesis
  proof cases
    case sent
    with accounted_send [OF sent(1) assms(2)] show ?thesis by simp
  next
    case added
    then have "map_of (c_in_flight c) j = None"
      by (simp add: map_of_eq_None_iff)
    with added(2) show ?thesis
      by (auto simp: accounted_def answers_def unanswered_def map_add_def split: option.split)
  qed
qed

lemma accounted_serve_item:
  assumes "serve_item loads dumps item c = Some c'" and "alive c'"
  shows "accounted i c' = accounted i c + (if requests_of i item then 1 else 0)"
proof (cases item)
  case Desync
  then obtain c1 where c1: "send dumps (Error 0 ''desync'' (utext ''bad magic or version'')) c = Some c1"
    and c': "c' = (if c_phase c1 = Died then c1 else begin_drain (c1\<lparr>c_exit_code := 2\<rparr>))"
    using assms(1) by (auto simp: serve_item_def)
  have "accounted i (c1\<lparr>c_exit_code := 2\<rparr>) = accounted i c1" by (rule accounted_same) (simp_all add: unanswered_def)
  moreover have "c_phase c1 \<noteq> Died" using assms(2) c' by (auto simp: alive_def)
  then have "c1 = c\<lparr>c_queue := c_queue c @ [Error 0 ''desync'' (utext ''bad magic or version'')]\<rparr>"
    using send_Some [OF c1] by auto
  then have "accounted i c1 = accounted i c"
    by (simp add: accounted_def answers_def unanswered_def ANSWER_CODES_def)
  ultimately show ?thesis using c' \<open>c_phase c1 \<noteq> Died\<close> Desync by simp
next
  case (Rejected p r)
  with accounted_send [of dumps _ c c' i] assms show ?thesis
    by (auto simp: serve_item_def reason_code_def ANSWER_CODES_def split: reason.splits)
next
  case (Frame p header body)
  note item = assms(1) [unfolded serve_item_def Frame incoming.case]
  show ?thesis
  proof (cases "p_kind p = REQUEST")
    case True
    with item accounted_start [of loads dumps "p_request_id p" header body c c' i] assms(2) Frame show ?thesis
      by simp
  next
    case other: False
    show ?thesis
    proof (cases "p_kind p = CANCEL")
      case True
      have "accounted i c' = accounted i c"
      proof (cases "map_of (c_in_flight c) (p_request_id p)")
        case None
        with item other True show ?thesis by simp
      next
        case (Some t)
        with item other True have c': "c' = c\<lparr>c_in_flight := upsert fst (p_request_id p, cancel t) (c_in_flight c)\<rparr>"
          by simp
        show ?thesis unfolding c'
          by (rule accounted_same) (simp_all add: unanswered_task, simp add: unanswered_def Some)
      qed
      with Frame other show ?thesis by simp
    next
      case False
      then have "c' = begin_drain c \<or> send dumps (Error (p_request_id p) ''unexpected_kind'' []) c = Some c'"
        using item other by (simp split: if_splits)
      with accounted_send [of dumps _ c c' i] assms(2) Frame other show ?thesis
        by (auto simp: ANSWER_CODES_def)
    qed
  qed
qed (use assms in \<open>auto simp: serve_item_def\<close>)

lemma answer_answers: "answer P loads j r outcome = Some m \<Longrightarrow> answers_to i m \<longleftrightarrow> i = j"
  by (auto simp: answer_def ANSWER_CODES_def split: outcome.splits)

lemma accounted_simps [simp]:
  "accounted i (c\<lparr>c_inbox := inbox\<rparr>) = accounted i c"
  "accounted i (c\<lparr>c_phase := ph\<rparr>) = accounted i c"
  by (simp_all add: accounted_def answers_def unanswered_def)

lemma accounted_task:
  assumes "map_of (c_in_flight c) j = Some t"
  shows "accounted i (c\<lparr>c_in_flight := upsert fst (j, t') (c_in_flight c)\<rparr>)
      + (if i = j \<and> t_stage t \<noteq> Done False then 1 else 0)
    = accounted i c + (if i = j \<and> t_stage t' \<noteq> Done False then 1 else 0)"
  using assms by (auto simp: accounted_def answers_def unanswered_def map_of_upsert)

lemma accounted_finish:
  assumes t: "map_of (c_in_flight c) j = Some t" "t_stage t = Running"
    and alive: "alive (finish P loads dumps j t outcome c)"
  shows "accounted i (finish P loads dumps j t outcome c) = accounted i c"
proof -
  define c1 where "c1 = c\<lparr>c_in_flight := upsert fst (j, t\<lparr>t_stage := Done False\<rparr>) (c_in_flight c)\<rparr>"
  have c1: "accounted i c1 + (if i = j then 1 else 0) = accounted i c"
    using accounted_task [OF t(1), of i "t\<lparr>t_stage := Done False\<rparr>"] t(2) by (simp add: c1_def)
  show ?thesis
  proof (cases rule: finish_cases [of P loads j t outcome dumps c])
    case lost
    then have "finish P loads dumps j t outcome c = c1\<lparr>c_unretrieved := c_unretrieved c1 @ [j]\<rparr>"
      by (simp add: c1_def)
    with c1 show ?thesis by (auto simp: accounted_def answers_def unanswered_def)
  next
    case died
    with alive show ?thesis by (simp add: alive_def)
  next
    case (answered m)
    then have "finish P loads dumps j t outcome c = c1\<lparr>c_queue := c_queue c1 @ [m]\<rparr>"
      by (simp add: c1_def)
    with c1 answer_answers [OF answered(1), of i] show ?thesis
      by (auto simp: accounted_def answers_def unanswered_def)
  qed
qed

lemma accounted_completed:
  assumes t: "map_of (c_in_flight c) j = Some t" "t_stage t = Done cancelled"
    and alive: "alive (completed dumps j cancelled c)"
  shows "accounted i (completed dumps j cancelled c) = accounted i c"
proof -
  define c1 where "c1 = c\<lparr>c_in_flight := del_row fst j (c_in_flight c)\<rparr>"
  have c1: "accounted i c1 + (if i = j \<and> cancelled then 1 else 0) = accounted i c"
    using t by (auto simp: c1_def accounted_def answers_def unanswered_retired) (auto simp: unanswered_def)
  show ?thesis
  proof (cases "cancelled \<and> send dumps (Error j ''cancelled'' []) c1 \<noteq> None")
    case True
    then obtain c2 where c2: "send dumps (Error j ''cancelled'' []) c1 = Some c2" by auto
    with True have "completed dumps j cancelled c = c2"
      by (simp add: completed_def Let_def c1_def)
    with accounted_send [OF c2, of i] alive c1 True show ?thesis by (auto simp: ANSWER_CODES_def)
  next
    case False
    then have "completed dumps j cancelled c =
        (if cancelled then c1\<lparr>c_unretrieved := c_unretrieved c1 @ [j]\<rparr> else c1)"
      by (auto simp: completed_def Let_def c1_def)
    with c1 show ?thesis by (auto simp: accounted_def answers_def unanswered_def)
  qed
qed

lemma accounted_step:
  assumes "core_step P loads dumps c a c'" and "alive c'"
  shows "accounted i c' = accounted i c + asks i a"
  using assms
proof (cases rule: core_step.cases)
  case (serve item later)
  with accounted_serve_item [OF serve(4) assms(2), of i] show ?thesis by simp
next
  case (begins j t)
  with accounted_task [OF begins(4), of i "t\<lparr>t_stage := if t_cancel t then Done True else Running\<rparr>"]
  show ?thesis by (simp split: if_splits)
next
  case (finishes j t outcome)
  with accounted_finish [OF finishes(4,5), of P loads dumps outcome i] assms(2) show ?thesis by simp
next
  case (retires j t cancelled)
  with accounted_completed [OF retires(4,5), of dumps i] assms(2) show ?thesis by simp
next
  case (writes m ms)
  then show ?thesis by (simp add: accounted_def answers_def unanswered_def)
qed (simp_all add: alive_def)

lemma not_alive_stays: "core_step P loads dumps c a c' \<Longrightarrow> \<not> alive c \<Longrightarrow> \<not> alive c'"
  by (erule core_stepE) (auto simp: alive_def active_def)

text \<open>The items that a run has taken from the reader.\<close>

fun taken_items :: "core_action list \<Rightarrow> incoming list" where
  "taken_items [] = []"
| "taken_items (Serve item # as) = item # taken_items as"
| "taken_items (_ # as) = taken_items as"

lemma send_inbox: "send dumps m c = Some c' \<Longrightarrow> c_inbox c' = c_inbox c"
  by (drule send_Some) auto

lemma serve_item_inbox: "serve_item loads dumps item c = Some c' \<Longrightarrow> c_inbox c' = c_inbox c"
  unfolding serve_item_def start_def
  by (auto simp: begin_drain_def dest: send_inbox
      split: incoming.splits if_splits option.splits sum.splits request_error.splits)

lemma finish_inbox [simp]: "c_inbox (finish P loads dumps i t outcome c) = c_inbox c"
  by (rule finish_cases [of P loads i t outcome dumps c]) simp_all

lemma completed_inbox [simp]: "c_inbox (completed dumps i cancelled c) = c_inbox c"
  by (auto simp: completed_def Let_def dest: send_inbox split: option.split)

lemma step_inbox: "core_step P loads dumps c a c' \<Longrightarrow> c_inbox c = taken_items [a] @ c_inbox c'"
  by (erule core_stepE) (auto dest: serve_item_inbox)

lemma taken_Cons: "taken_items (a # as) = taken_items [a] @ taken_items as"
  by (cases a) simp_all

lemma asks_taken: "asks i a = length (filter (requests_of i) (taken_items [a]))"
  by (cases a) simp_all

lemma accounted_runs:
  "runs (core_step P loads dumps) c as c' \<Longrightarrow> alive c' \<Longrightarrow>
     alive c \<and> accounted i c' = accounted i c + length (filter (requests_of i) (taken_items as))
     \<and> c_inbox c = taken_items as @ c_inbox c'"
proof (induction rule: runs.induct)
  case (runs_Cons c a c1 as c2)
  then have IH: "alive c1" "accounted i c2 = accounted i c1 + length (filter (requests_of i) (taken_items as))"
    "c_inbox c1 = taken_items as @ c_inbox c2" by simp_all
  with accounted_step [OF runs_Cons.hyps(1) IH(1), of i] step_inbox [OF runs_Cons.hyps(1)]
    not_alive_stays [OF runs_Cons.hyps(1)] show ?case
    by (auto simp: taken_Cons [of a as] asks_taken)
qed simp

section \<open>The end of a drain\<close>

definition weight_of :: "task \<Rightarrow> nat" where
  "weight_of t = (case t_stage t of Created \<Rightarrow> 3 | Running \<Rightarrow> 2 | Done _ \<Rightarrow> 1)"

definition weight :: "core \<Rightarrow> nat" where
  "weight c = sum_list (map (\<lambda>(i, t). weight_of t) (c_in_flight c))"

fun task_action :: "core_action \<Rightarrow> bool" where
  "task_action (Begin _) = True"
| "task_action (Finish _ _) = True"
| "task_action (Retire _) = True"
| "task_action _ = False"

lemma set_row_absent: "key r \<notin> key ` set rows \<Longrightarrow> set_row key r rows = rows"
  unfolding set_row_def by (rule map_idI) (auto simp: image_iff)

lemma del_row_absent: "k \<notin> key ` set rows \<Longrightarrow> del_row key k rows = rows"
  by (force simp: del_row_def filter_id_conv)

lemma weight_upsert:
  "distinct (map fst xs) \<Longrightarrow> map_of xs i = Some t \<Longrightarrow>
     sum_list (map (\<lambda>(i, t). weight_of t) (upsert fst (i, t') xs)) + weight_of t =
     sum_list (map (\<lambda>(i, t). weight_of t) xs) + weight_of t'"
proof (induction xs)
  case (Cons x xs)
  show ?case
  proof (cases "fst x = i")
    case True
    with Cons.prems have "set_row fst (i, t') xs = xs"
      by (intro set_row_absent) simp
    with True Cons.prems show ?thesis
      by (cases x) (simp add: upsert_def set_row_def)
  next
    case False
    with Cons have "sum_list (map (\<lambda>(i, t). weight_of t) (upsert fst (i, t') xs)) + weight_of t =
        sum_list (map (\<lambda>(i, t). weight_of t) xs) + weight_of t'" by (cases x) simp
    moreover from False have "upsert fst (i, t') (x # xs) = x # upsert fst (i, t') xs"
      by (simp add: upsert_def set_row_def)
    ultimately show ?thesis by (cases x) simp
  qed
qed simp

lemma weight_del_row:
  "distinct (map fst xs) \<Longrightarrow> map_of xs i = Some t \<Longrightarrow>
     sum_list (map (\<lambda>(i, t). weight_of t) (del_row fst i xs)) + weight_of t =
     sum_list (map (\<lambda>(i, t). weight_of t) xs)"
proof (induction xs)
  case (Cons x xs)
  show ?case
  proof (cases "fst x = i")
    case True
    with Cons.prems have "del_row fst i xs = xs"
      by (intro del_row_absent) simp
    with True Cons.prems show ?thesis by (cases x) (simp add: del_row_def)
  next
    case False
    with Cons show ?thesis by (cases x) (simp add: del_row_def)
  qed
qed simp

lemma weight_finish:
  assumes "core_inv c" and t: "map_of (c_in_flight c) i = Some t" "t_stage t = Running"
  shows "weight (finish P loads dumps i t outcome c) + 1 = weight c"
proof -
  have "c_in_flight (finish P loads dumps i t outcome c) = upsert fst (i, t\<lparr>t_stage := Done False\<rparr>) (c_in_flight c)"
    by (rule finish_cases [of P loads i t outcome dumps c]) simp_all
  with weight_upsert [of "c_in_flight c" i t "t\<lparr>t_stage := Done False\<rparr>"] assms show ?thesis
    by (simp add: weight_def core_inv_def weight_of_def)
qed

lemma weight_completed:
  assumes "core_inv c" and t: "map_of (c_in_flight c) i = Some t" "t_stage t = Done cancelled"
  shows "weight (completed dumps i cancelled c) + 1 = weight c"
proof -
  have "c_in_flight (completed dumps i cancelled c) = del_row fst i (c_in_flight c)"
    by (auto simp: completed_def Let_def dest: send_Some split: option.split)
  with weight_del_row [of "c_in_flight c" i t] assms show ?thesis
    by (simp add: weight_def core_inv_def weight_of_def)
qed

lemma send_phase: "send dumps m c = Some c' \<Longrightarrow> c_phase c' = c_phase c \<or> c_phase c' = Died"
  by (drule send_Some) auto

lemma finish_phase: "c_phase (finish P loads dumps i t outcome c) \<in> {c_phase c, Died}"
  by (rule finish_cases [of P loads i t outcome dumps c]) simp_all

lemma completed_phase: "c_phase (completed dumps i cancelled c) \<in> {c_phase c, Died}"
  by (auto simp: completed_def Let_def dest: send_phase split: option.split)

definition ending :: "core \<Rightarrow> bool" where
  "ending c \<longleftrightarrow> c_phase c \<in> {Draining, Closed, Died}"

lemma ending_step:
  assumes "core_step P loads dumps c a c'" and "core_inv c" and "ending c"
  shows "ending c' \<and> taken_items [a] = [] \<and> weight c' + (if task_action a then 1 else 0) \<le> weight c"
  using assms(1)
proof (cases rule: core_step.cases)
  case (begins i t)
  with weight_upsert [of "c_in_flight c" i t "t\<lparr>t_stage := if t_cancel t then Done True else Running\<rparr>"] assms
  show ?thesis by (auto simp: weight_def core_inv_def weight_of_def ending_def split: if_splits)
next
  case (finishes i t outcome)
  with weight_finish [OF assms(2) finishes(4,5), of P loads dumps outcome]
    finish_phase [of P loads dumps i t outcome c] assms(3)
  show ?thesis by (auto simp: ending_def)
next
  case (retires i t cancelled)
  with weight_completed [OF assms(2) retires(4,5), of dumps] completed_phase [of dumps i cancelled c] assms(3)
  show ?thesis by (auto simp: ending_def)
qed (use assms(3) in \<open>auto simp: ending_def weight_def active_def\<close>)

lemma ending_runs:
  "runs (core_step P loads dumps) c as c' \<Longrightarrow> core_inv c \<Longrightarrow> ending c \<Longrightarrow>
     ending c' \<and> core_inv c' \<and> taken_items as = [] \<and> weight c' + length (filter task_action as) \<le> weight c"
proof (induction rule: runs.induct)
  case (runs_Cons c a c1 as c2)
  with ending_step [OF runs_Cons.hyps(1)] core_inv_step [OF _ runs_Cons.hyps(1)] show ?case
    by (auto simp: taken_Cons [of a as])
qed simp

lemma core_inv_runs: "runs (core_step P loads dumps) c as c' \<Longrightarrow> core_inv c \<Longrightarrow> core_inv c'"
  by (induction rule: runs.induct) (auto intro: core_inv_step)

lemma core_inv_init: "core_inv (CoreServer ps)"
  by (simp add: core_inv_def CoreServer_def)

lemma weight_length: "sum_list (map (\<lambda>(i, t). weight_of t) xs) \<le> 3 * length xs"
  by (induction xs) (auto simp: weight_of_def split: stage.split)

lemma weight_bound: "core_inv c \<Longrightarrow> weight c \<le> 3 * MAX_IN_FLIGHT"
  using weight_length [of "c_in_flight c"] by (simp add: weight_def core_inv_def)

text \<open>While tasks are in flight one of them can make its next step.\<close>

lemma task_can_step:
  assumes "active c" and "c_in_flight c \<noteq> []"
  shows "\<exists>a c'. task_action a \<and> core_step P loads dumps c a c'"
proof -
  obtain i t where t: "map_of (c_in_flight c) i = Some t"
    using assms(2) by (metis map_of_eq_empty_iff not_None_eq)
  show ?thesis
  proof (cases "t_stage t")
    case Created
    show ?thesis using core_step.begins [OF assms(1) t Created, of P loads dumps] task_action.simps(1) by blast
  next
    case Running
    show ?thesis using core_step.finishes [OF assms(1) t Running, of P loads dumps AppFailed] task_action.simps(2) by blast
  next
    case (Done b)
    show ?thesis using core_step.retires [OF assms(1) t Done, of P loads dumps] task_action.simps(3) by blast
  qed
qed

lemma drain_closes:
  "core_inv c \<Longrightarrow> c_phase c = Draining \<Longrightarrow>
     \<exists>as c'. runs (core_step P loads dumps) c as c' \<and> GiveUp \<notin> set as
       \<and> (c_phase c' = Closed \<and> c_in_flight c' = [] \<or> c_phase c' = Died)"
proof (induction "weight c" arbitrary: c rule: less_induct)
  case less
  show ?case
  proof (cases "c_in_flight c = []")
    case True
    with less.prems have "core_step P loads dumps c Close (c\<lparr>c_phase := Closed\<rparr>)"
      by (intro core_step.closes)
    then show ?thesis using True
      by (intro exI [of _ "[Close]"] exI [of _ "c\<lparr>c_phase := Closed\<rparr>"]) (simp add: runs_Cons_iff)
  next
    case False
    have "active c" using less.prems(2) by (simp add: active_def)
    from task_can_step [OF this False] obtain a c1 where a: "task_action a" "core_step P loads dumps c a c1"
      by blast
    have "ending c" using less.prems(2) by (simp add: ending_def)
    from ending_step [OF a(2) less.prems(1) this] a(1) have c1: "ending c1" "weight c1 < weight c" by auto
    have phase: "c_phase c1 = Draining \<or> c_phase c1 = Died"
      using a(2,1) less.prems(2)
    proof (cases rule: core_step.cases)
      case (finishes i t outcome)
      with finish_phase [of P loads dumps i t outcome c] less.prems(2) show ?thesis by auto
    next
      case (retires i t cancelled)
      with completed_phase [of dumps i cancelled c] less.prems(2) show ?thesis by auto
    qed auto
    show ?thesis
    proof (cases "c_phase c1 = Draining")
      case True
      from less.hyps [OF c1(2) core_inv_step [OF less.prems(1) a(2)] True] obtain as c2 where
        "runs (core_step P loads dumps) c1 as c2" "GiveUp \<notin> set as"
        "c_phase c2 = Closed \<and> c_in_flight c2 = [] \<or> c_phase c2 = Died" by blast
      with a show ?thesis
        by (intro exI [of _ "a # as"] exI [of _ c2]) (auto intro: runs.runs_Cons)
    next
      case False
      with a phase show ?thesis
        by (intro exI [of _ "[a]"] exI [of _ c1]) (auto simp: runs_Cons_iff)
    qed
  qed
qed

end
