(* ===== verification/Urls.thy ===== *)
theory Urls
  imports Crypto
begin

text \<open>
  What \<^verbatim>\<open>urllib.parse.unquote\<close> makes of a percent-encoded path: runs of ASCII text become bytes,
  which are decoded as UTF-8 with a replacement character for every maximal ill-formed part. Also
  \<^verbatim>\<open>str.split\<close>, \<^verbatim>\<open>str.join\<close> and \<^verbatim>\<open>str.replace\<close> for single characters. The backend's guards on
  request paths and the desktop bridge use them.
\<close>

section \<open>UTF-8 with replacement\<close>

definition REPLACEMENT :: nat where "REPLACEMENT = 65533"

definition between :: "nat \<Rightarrow> nat \<Rightarrow> byte \<Rightarrow> bool" where
  "between lo hi b \<longleftrightarrow> lo \<le> unat b \<and> unat b \<le> hi"

text \<open>
  The first character of a nonempty byte string and the number of bytes it takes; an ill-formed
  start takes the longest prefix of a well-formed sequence, at least one byte.
\<close>

definition utf8_step :: "byte \<Rightarrow> bytes \<Rightarrow> nat \<times> nat" where
  "utf8_step b bs =
     (let n = unat b;
          more = (\<lambda>i lo hi. i < length bs \<and> between lo hi (bs ! i));
          low = (\<lambda>i. unat (bs ! i) mod 64);
          lo2 = (if n = 224 then 160 else if n = 240 then 144 else 128);
          hi2 = (if n = 237 then 159 else if n = 244 then 143 else 191)
      in if n < 128 then (n, 1)
         else if between 194 223 b then
           (if more 0 128 191 then ((n - 192) * 64 + low 0, 2) else (REPLACEMENT, 1))
         else if between 224 239 b then
           (if \<not> more 0 lo2 hi2 then (REPLACEMENT, 1)
            else if \<not> more 1 128 191 then (REPLACEMENT, 2)
            else ((n - 224) * 4096 + low 0 * 64 + low 1, 3))
         else if between 240 244 b then
           (if \<not> more 0 lo2 hi2 then (REPLACEMENT, 1)
            else if \<not> more 1 128 191 then (REPLACEMENT, 2)
            else if \<not> more 2 128 191 then (REPLACEMENT, 3)
            else ((n - 240) * 262144 + low 0 * 4096 + low 1 * 64 + low 2, 4))
         else (REPLACEMENT, 1))"

text \<open>\<^verbatim>\<open>bytes.decode("utf-8", "replace")\<close>\<close>

function utf8_replace :: "bytes \<Rightarrow> ustr" where
  "utf8_replace [] = []"
| "utf8_replace (b # bs) = (case utf8_step b bs of (c, k) \<Rightarrow> c # utf8_replace (drop (k - 1) bs))"
  by pat_completeness auto
termination by (relation "measure length") auto

declare utf8_replace.simps(2) [simp del]

lemma utf8_step_ascii:
  assumes "utf8_step b bs = (c, k)" and "c < 128"
  shows "k = 1 \<and> c = unat b"
proof -
  have "32 \<le> u mod 64" if "160 \<le> u" "u \<le> 191" for u :: nat
    using that by presburger
  moreover have "16 \<le> u mod 64" if "144 \<le> u" "u \<le> 191" for u :: nat
    using that by presburger
  ultimately show ?thesis
    using assms unfolding utf8_step_def Let_def
    by (fastforce simp: between_def REPLACEMENT_def split: if_splits)
qed

text \<open>Every ASCII character of the result is a byte of the input.\<close>

lemma utf8_replace_ascii:
  "c \<in> set (utf8_replace bs) \<Longrightarrow> c < 128 \<Longrightarrow> \<exists>b \<in> set bs. unat b = c"
proof (induction bs rule: utf8_replace.induct)
  case (2 b bs)
  obtain d k where step: "utf8_step b bs = (d, k)" by fastforce
  with "2.prems" consider "c = d" | "c \<in> set (utf8_replace (drop (k - 1) bs))"
    by (auto simp: utf8_replace.simps(2))
  then show ?case
  proof cases
    case 1
    with utf8_step_ascii [OF step] "2.prems"(2) show ?thesis by auto
  next
    case 2
    with "2.IH" [OF step [symmetric] _ "2.prems"(2)] show ?thesis by (auto dest: in_set_dropD)
  qed
qed simp

section \<open>Percent decoding\<close>

definition url_digit :: "byte \<Rightarrow> nat option" where
  "url_digit b =
     (let n = unat b
      in if 48 \<le> n \<and> n \<le> 57 then Some (n - 48)
         else if 65 \<le> n \<and> n \<le> 70 then Some (n - 55)
         else if 97 \<le> n \<and> n \<le> 102 then Some (n - 87)
         else None)"

text \<open>\<^verbatim>\<open>unquote_to_bytes\<close>: a percent sign that no two hexadecimal digits follow stays.\<close>

fun unquote_to_bytes :: "bytes \<Rightarrow> bytes" where
  "unquote_to_bytes (b # h # l # bs) =
     (if b = 37 \<and> url_digit h \<noteq> None \<and> url_digit l \<noteq> None
      then word_of_nat (16 * the (url_digit h) + the (url_digit l)) # unquote_to_bytes bs
      else b # unquote_to_bytes (h # l # bs))"
| "unquote_to_bytes bs = bs"

definition is_ascii :: "nat \<Rightarrow> bool" where "is_ascii c \<longleftrightarrow> c < 128"

function unquote_runs :: "ustr \<Rightarrow> ustr" where
  "unquote_runs [] = []"
| "unquote_runs (c # cs) =
     (if is_ascii c
      then utf8_replace (unquote_to_bytes (map word_of_nat (takeWhile is_ascii (c # cs))))
           @ unquote_runs (dropWhile is_ascii (c # cs))
      else c # unquote_runs cs)"
  by pat_completeness auto
termination
  by (relation "measure length") (auto simp: le_imp_less_Suc length_dropWhile_le)

declare unquote_runs.simps(2) [simp del]

definition unquote :: "ustr \<Rightarrow> ustr" where
  "unquote text = (if 37 \<notin> set text then text else unquote_runs text)"

section \<open>Searching, splitting and joining\<close>

text \<open>\<^verbatim>\<open>needle in text\<close>\<close>

fun contains :: "'a list \<Rightarrow> 'a list \<Rightarrow> bool" where
  "contains needle [] \<longleftrightarrow> needle = []"
| "contains needle (x # xs) \<longleftrightarrow> take (length needle) (x # xs) = needle \<or> contains needle xs"

lemma contains_iff: "contains needle xs \<longleftrightarrow> (\<exists>us vs. xs = us @ needle @ vs)"
proof (induction xs)
  case (Cons x xs)
  have "take (length needle) (x # xs) = needle \<longleftrightarrow> (\<exists>vs. x # xs = needle @ vs)"
    by (metis append_eq_conv_conj append_take_drop_id)
  then show ?case
    using Cons by (auto simp: append_eq_Cons_conv Cons_eq_append_conv)
qed auto

lemma contains_inner: "contains needle xs \<Longrightarrow> contains needle (us @ xs @ vs)"
  by (metis append.assoc contains_iff)

lemma contains_map: "contains needle xs \<Longrightarrow> contains (map f needle) (map f xs)"
  unfolding contains_iff by (metis map_append)

fun split_on :: "'a \<Rightarrow> 'a list \<Rightarrow> 'a list list" where
  "split_on c [] = [[]]"
| "split_on c (x # xs) =
     (if x = c then [] # split_on c xs
      else (case split_on c xs of s # ss \<Rightarrow> (x # s) # ss | [] \<Rightarrow> [[x]]))"

fun join_with :: "'a \<Rightarrow> 'a list list \<Rightarrow> 'a list" where
  "join_with c [] = []"
| "join_with c [s] = s"
| "join_with c (s # t # ss) = s @ c # join_with c (t # ss)"

definition replace_char :: "'a \<Rightarrow> 'a \<Rightarrow> 'a list \<Rightarrow> 'a list" where
  "replace_char x y = map (\<lambda>c. if c = x then y else c)"

lemma split_on_not_Nil [simp]: "split_on c xs \<noteq> []"
  by (cases xs) (auto split: list.split)

lemma split_on_free: "s \<in> set (split_on c xs) \<Longrightarrow> c \<notin> set s"
proof (induction xs arbitrary: s)
  case (Cons x xs)
  then show ?case by (cases "split_on c xs") (auto split: if_splits)
qed simp

lemma split_on_whole: "c \<notin> set s \<Longrightarrow> split_on c s = [s]"
  by (induction s) auto

lemma split_on_append: "c \<notin> set s \<Longrightarrow> split_on c (s @ c # xs) = s # split_on c xs"
  by (induction s) auto

lemma split_join:
  "ss \<noteq> [] \<Longrightarrow> list_all (\<lambda>s. c \<notin> set s) ss \<Longrightarrow> split_on c (join_with c ss) = ss"
  by (induction c ss rule: join_with.induct) (auto simp: split_on_whole split_on_append)

lemma join_split [simp]: "join_with c (split_on c xs) = xs"
proof (induction xs)
  case (Cons x xs)
  obtain s ss where split: "split_on c xs = s # ss" by (cases "split_on c xs") auto
  with Cons show ?case by (cases ss) auto
qed simp

lemma split_on_inner: "s \<in> set (split_on c xs) \<Longrightarrow> \<exists>us vs. xs = us @ s @ vs"
proof -
  assume "s \<in> set (split_on c xs)"
  moreover have "s \<in> set ss \<Longrightarrow> \<exists>us vs. join_with c ss = us @ s @ vs" for ss
  proof (induction c ss rule: join_with.induct)
    case (3 c t u ss)
    then consider "s = t" | us vs where "join_with c (u # ss) = us @ s @ vs" by auto
    then show ?case
    proof cases
      case 1
      then show ?thesis by (metis append_Nil join_with.simps(3))
    next
      case (2 us vs)
      then have "join_with c (t # u # ss) = (t @ c # us) @ s @ vs" by simp
      then show ?thesis by blast
    qed
  next
    case (2 c t)
    then show ?case by (intro exI [of _ "[]"]) simp
  qed simp
  ultimately show ?thesis by (metis join_split)
qed

lemma replace_char_free: "x \<noteq> y \<Longrightarrow> x \<notin> set (replace_char x y s)"
  by (auto simp: replace_char_def)

lemma replace_char_back: "y \<notin> set s \<Longrightarrow> replace_char y x (replace_char x y s) = s"
  by (induction s) (auto simp: replace_char_def)

section \<open>Where a NUL can come from\<close>

lemma hex_digit_zero: "url_digit b = Some 0 \<Longrightarrow> b = 48"
proof -
  assume "url_digit b = Some 0"
  then have "unat b = 48" by (auto simp: url_digit_def Let_def split: if_splits)
  then have "unat b = unat (48 :: byte)" by simp
  then show "b = 48" by (simp only: word_unat_eq_iff)
qed

lemma hex_digit_less: "url_digit b = Some n \<Longrightarrow> n < 16"
  by (auto simp: url_digit_def Let_def split: if_splits)

lemma unquote_to_bytes_nul:
  "0 \<in> set (unquote_to_bytes bs) \<Longrightarrow> 0 \<in> set bs \<or> contains [37, 48, 48] bs"
proof (induction bs rule: unquote_to_bytes.induct)
  case (1 b h l bs)
  show ?case
  proof (cases "b = 37 \<and> url_digit h \<noteq> None \<and> url_digit l \<noteq> None")
    case True
    then obtain m n where mn: "url_digit h = Some m" "url_digit l = Some n" by auto
    then have "16 * m + n < 256" using hex_digit_less [of h m] hex_digit_less [of l n] by simp
    then have "(word_of_nat (16 * m + n) :: byte) = 0 \<longleftrightarrow> 16 * m + n = 0"
      by (auto simp: word_of_nat_eq_0_iff simp del: of_nat_add of_nat_mult dest: dvd_imp_le)
    with True mn "1.prems" consider "m = 0" "n = 0" | "0 \<in> set (unquote_to_bytes bs)"
      by auto
    then show ?thesis
    proof cases
      case 1
      with mn True have "b # h # l # bs = [37, 48, 48] @ bs" by (simp add: hex_digit_zero)
      then show ?thesis by (metis append_Nil contains_iff)
    next
      case 2
      with "1.IH"(1) [OF True] show ?thesis by auto
    qed
  next
    case False
    with "1.prems" "1.IH"(2) [OF False] show ?thesis by auto
  qed
qed auto

lemma unquote_runs_nul:
  "0 \<in> set (unquote_runs s) \<Longrightarrow> 0 \<in> set s \<or> contains [37, 48, 48] s"
proof (induction s rule: unquote_runs.induct)
  case (2 c cs)
  show ?case
  proof (cases "is_ascii c")
    case True
    define run where "run = takeWhile is_ascii (c # cs)"
    define rest where "rest = dropWhile is_ascii (c # cs)"
    have whole: "c # cs = run @ rest" by (simp add: run_def rest_def)
    have small: "\<And>x. x \<in> set run \<Longrightarrow> x < 128"
      unfolding run_def by (metis is_ascii_def set_takeWhileD)
    from "2.prems" True consider "0 \<in> set (utf8_replace (unquote_to_bytes (map word_of_nat run)))"
      | "0 \<in> set (unquote_runs rest)"
      by (auto simp: unquote_runs.simps(2) run_def rest_def)
    then show ?thesis
    proof cases
      case 1
      then obtain b :: byte where "b \<in> set (unquote_to_bytes (map word_of_nat run))" "unat b = 0"
        using utf8_replace_ascii [of 0] by auto
      then have "0 \<in> set (unquote_to_bytes (map word_of_nat run))"
        by (simp add: unat_eq_0)
      from unquote_to_bytes_nul [OF this] show ?thesis
      proof
        assume "(0 :: byte) \<in> set (map word_of_nat run)"
        then obtain x where x: "x \<in> set run" "(word_of_nat x :: byte) = 0" by auto
        with small [OF x(1)] have "x = 0" by (auto simp: word_of_nat_eq_0_iff dest: dvd_imp_le)
        with x(1) whole show ?thesis by simp
      next
        assume "contains [37, 48, 48] (map word_of_nat run :: bytes)"
        then have "contains (map unat ([37, 48, 48] :: bytes)) (map unat (map word_of_nat run :: bytes))"
          by (rule contains_map)
        moreover have "map unat (map word_of_nat run :: bytes) = run"
          unfolding map_map by (rule map_idI) (use small in \<open>fastforce simp: unat_of_nat\<close>)
        ultimately have "contains [37, 48, 48] run" by simp
        then show ?thesis using contains_inner [of _ run "[]" rest] whole by simp
      qed
    next
      case 2
      with "2.IH"(1) [OF True] have "0 \<in> set rest \<or> contains [37, 48, 48] rest"
        by (simp add: rest_def True)
      then show ?thesis using contains_inner [of _ rest run "[]"] whole by auto
    qed
  next
    case False
    with 2 show ?thesis by (auto simp: unquote_runs.simps(2))
  qed
qed simp

lemma unquote_nul: "0 \<in> set (unquote s) \<Longrightarrow> 0 \<in> set s \<or> contains [37, 48, 48] s"
  using unquote_runs_nul by (auto simp: unquote_def split: if_splits)

end
