(* ===== verification/Core_Bridge.thy ===== *)
theory Core_Bridge
  imports Core_Safety Urls
begin

text \<open>
  From a request frame to a call of the application and back
  (\<^verbatim>\<open>desktop/core/desktop_core/asgi_bridge.py\<close>): the scope that \<^verbatim>\<open>call\<close> builds, the two callbacks it
  gives the application, and the response it returns. Also what a request and a malformed frame can
  and cannot do to the core.
\<close>

section \<open>The scope of a call\<close>

record call_scope =
  cs_method :: ustr
  cs_path :: ustr
  cs_raw_path :: bytes
  cs_query :: bytes
  cs_headers :: "(bytes \<times> bytes) list"

text \<open>\<^verbatim>\<open>str.encode("ascii")\<close> and \<^verbatim>\<open>str.encode("latin-1")\<close>: text up to a last code point.\<close>

definition encode_text :: "nat \<Rightarrow> ustr \<Rightarrow> error + bytes" where
  "encode_text last_code t =
     andThen (ensure (list_all (\<lambda>c. c \<le> last_code) t) ValueError) (\<lambda>_. Inr (map word_of_nat t))"

definition encode_header :: "ustr \<times> ustr \<Rightarrow> error + bytes \<times> bytes" where
  "encode_header =
     (\<lambda>(name, value).
        andThen (encode_text 255 (lower_ascii name)) (\<lambda>n.
        andThen (encode_text 255 value) (\<lambda>v. Inr (n, v))))"

definition bridge_scope :: "api_request \<Rightarrow> bytes \<Rightarrow> error + call_scope" where
  "bridge_scope r body =
     andThen (encode_text 127 (r_path r)) (\<lambda>raw_path.
     andThen (encode_text 127 (r_query r)) (\<lambda>query.
     andThen (map_res encode_header (r_headers r @ [(utext ''content-length'', decimal (length body))])) (\<lambda>headers.
     Inr \<lparr>cs_method = r_method r, cs_path = unquote (r_path r), cs_raw_path = raw_path,
          cs_query = query, cs_headers = headers\<rparr>)))"

section \<open>The callbacks\<close>

text \<open>\<^verbatim>\<open>receive\<close>: the whole body once, then a disconnect when the response is finished.\<close>

datatype received = BodyMessage bytes | Disconnect

definition receive :: "bytes \<Rightarrow> bool \<Rightarrow> received \<times> bool" where
  "receive body request_sent = (if \<not> request_sent then (BodyMessage body, True) else (Disconnect, True))"

record reply =
  rp_status :: "nat option"
  rp_headers :: "(ustr \<times> ustr) list"
  rp_chunks :: "bytes list"
  rp_size :: nat
  rp_output :: bytes
  rp_finished :: bool

datatype app_message = ResponseStart nat "(bytes \<times> bytes) list" | ResponseBody bytes bool

datatype bridge_error = ResponseTooLarge | NoResponse

definition new_reply :: reply where
  "new_reply = \<lparr>rp_status = None, rp_headers = [], rp_chunks = [], rp_size = 0, rp_output = [], rp_finished = False\<rparr>"

text \<open>
  \<^verbatim>\<open>send\<close>; \<open>to_file\<close> says that an output file was given, which takes the body of a response with
  status 200. An exception leaves the size counted.
\<close>

definition bridge_send :: "bool \<Rightarrow> nat \<Rightarrow> app_message \<Rightarrow> reply \<Rightarrow> bridge_error + reply" where
  "bridge_send to_file max_response msg s =
     (case msg of
        ResponseStart status headers \<Rightarrow>
          Inr (s\<lparr>rp_status := Some status,
                 rp_headers := map (\<lambda>(n, v). (map unat n, map unat v)) headers\<rparr>)
      | ResponseBody chunk more_body \<Rightarrow>
          (let size' = rp_size s + length chunk;
               s' = s\<lparr>rp_size := size'\<rparr>
           in andThen (ensure (size' \<le> max_response) ResponseTooLarge) (\<lambda>_.
              andThen (if to_file \<and> rp_status s = Some 200 then Inr (s'\<lparr>rp_output := rp_output s @ chunk\<rparr>)
                       else andThen (ensure (size' \<le> 24 * 1024 * 1024) ResponseTooLarge)
                              (\<lambda>_. Inr (s'\<lparr>rp_chunks := rp_chunks s @ [chunk]\<rparr>))) (\<lambda>s''.
              Inr (if more_body then s'' else s''\<lparr>rp_finished := True\<rparr>)))))"

text \<open>An application that sends these messages and returns; it does not catch what \<^verbatim>\<open>send\<close> raises.\<close>

definition bridge_call ::
    "bool \<Rightarrow> nat \<Rightarrow> app_message list \<Rightarrow> bridge_error + nat \<times> (ustr \<times> ustr) list \<times> bytes" where
  "bridge_call to_file max_response messages =
     andThen (fold_res (bridge_send to_file max_response) messages new_reply) (\<lambda>s.
     andThen (orElse (rp_status s) NoResponse) (\<lambda>status.
     Inr (status, rp_headers s, concat (rp_chunks s))))"

section \<open>Lemmas\<close>

lemma ascii_textD: "ascii_text t \<Longrightarrow> c \<in> set t \<Longrightarrow> c < 128"
  by (auto simp: ascii_text_def list_all_iff)

lemma header_pair_Some:
  "header_pair pair = Some (name, value) \<Longrightarrow>
     ascii_text name \<and> ascii_text value \<and> (\<forall>c \<in> set (name @ value). c \<noteq> 13 \<and> c \<noteq> 10 \<and> c \<noteq> 0)"
  by (auto simp: header_pair_def list_ex_iff split: json.splits list.splits if_splits)

text \<open>What \<open>parse_request\<close> guarantees of the headers it keeps.\<close>

definition clean_header :: "ustr \<times> ustr \<Rightarrow> bool" where
  "clean_header = (\<lambda>(name, value). ascii_text name \<and> ascii_text value
     \<and> list_all (\<lambda>c. c \<noteq> 13 \<and> c \<noteq> 10 \<and> c \<noteq> 0) (name @ value) \<and> lower_ascii name \<notin> set DROPPED_HEADERS)"

lemma clean_headers_Inr:
  "clean_headers pairs = Inr hs \<Longrightarrow> list_all clean_header hs \<and> length hs \<le> length pairs"
proof (induction pairs arbitrary: hs)
  case (Cons pair pairs)
  from Cons.prems obtain name val clean where pair: "header_pair pair = Some (name, val)"
    and clean: "clean_headers pairs = Inr clean"
    and hs: "hs = (if lower_ascii name \<in> set DROPPED_HEADERS then clean else (name, val) # clean)"
    by (auto simp: result_simps split: option.splits)
  from header_pair_Some [OF pair] have "lower_ascii name \<notin> set DROPPED_HEADERS \<Longrightarrow> clean_header (name, val)"
    by (auto simp: clean_header_def list_all_iff)
  with Cons.IH [OF clean] hs show ?case by auto
qed simp

lemma no_headers: "\<exists>pairs. length pairs \<le> MAX_HEADERS \<and> clean_headers pairs = Inr []"
  by (rule exI [of _ "[]"]) simp

lemma parse_request_Inr:
  assumes "parse_request loads header = Inr r"
  shows "r_method r \<in> set METHODS \<and> good_path (r_path r) \<and> ascii_text (r_query r) \<and> length (r_query r) \<le> MAX_PATH
    \<and> list_all clean_header (r_headers r) \<and> length (r_headers r) \<le> MAX_HEADERS"
proof -
  obtain members where m: "loads header = Inr (JObj members)"
    and checks: "check_method (get members ''method'') = Inr (r_method r)"
    "good_path (r_path r)" "ascii_text (r_query r) \<and> length (r_query r) \<le> MAX_PATH"
    "\<exists>pairs. length pairs \<le> MAX_HEADERS \<and> clean_headers pairs = Inr (r_headers r)"
    using assms unfolding parse_request_def
    by (auto simp: result_simps ascii_text_def MAX_PATH_def no_headers
        split: sum.splits json_error.splits json.splits option.splits) blast+
  from checks(4) obtain pairs where "length pairs \<le> MAX_HEADERS" "clean_headers pairs = Inr (r_headers r)"
    by blast
  with clean_headers_Inr have "list_all clean_header (r_headers r) \<and> length (r_headers r) \<le> MAX_HEADERS"
    by (meson order.trans)
  from checks(1) have "r_method r \<in> set METHODS"
    by (auto simp: check_method_def split: option.splits json.splits if_splits)
  moreover have "list_all clean_header (r_headers r) \<and> length (r_headers r) \<le> MAX_HEADERS" by fact
  ultimately show ?thesis using checks(2,3) by blast
qed

lemma send_error:
  assumes "i < 256 ^ 4"
    and "length (dumps (JObj [(utext ''code'', JStr (utext code)), (utext ''message'', JStr m)])) \<le> MAX_HEADER_BYTES"
  shows "send dumps (Error i code m) c \<noteq> None"
proof -
  have "length (dumps (JObj [(utext ''code'', JStr (utext code)), (utext ''message'', JStr m)])) < 4294967296"
    using assms(2) by (rule order.strict_trans1) (simp add: MAX_HEADER_BYTES_def)
  with assms show ?thesis
    by (auto simp: send_def outgoing_frame_def encode_def Let_def ensure_def pack_prefix_def pack_u_def
        ERROR_def PROTOCOL_VERSION_def)
qed

lemma clean_headers_caught: "clean_headers pairs \<noteq> Inl Uncaught"
  by (induction pairs) (auto simp: result_simps split: option.split)

text \<open>The two ways in which reading a request raises an error that \<^verbatim>\<open>_start\<close> does not catch.\<close>

lemma parse_uncaught:
  "parse_request loads header = Inl Uncaught \<longleftrightarrow>
     loads header = Inl TooDeep \<or>
     (\<exists>members v. loads header = Inr (JObj members) \<and> get members ''method'' = Some v
        \<and> ((\<exists>xs. v = JArr xs) \<or> (\<exists>ms. v = JObj ms)))"
proof (cases "loads header")
  case (Inl e)
  then show ?thesis by (cases e) (simp_all add: parse_request_def)
next
  case (Inr j)
  show ?thesis
  proof (cases j)
    case (JObj members)
    have "check_method (get members ''method'') = Inl Uncaught \<longleftrightarrow>
        (\<exists>v. get members ''method'' = Some v \<and> ((\<exists>xs. v = JArr xs) \<or> (\<exists>ms. v = JObj ms)))"
      by (auto simp: check_method_def split: option.splits json.splits)
    moreover have "parse_request loads header = Inl Uncaught \<longleftrightarrow> check_method (get members ''method'') = Inl Uncaught"
      using Inr JObj
      by (auto simp: parse_request_def result_simps clean_headers_caught split: option.splits json.splits)
    ultimately show ?thesis using Inr JObj by simp
  qed (use Inr in \<open>simp_all add: parse_request_def\<close>)
qed

lemma decode_uncaught:
  "decode_request loads header = Inl Uncaught \<longleftrightarrow>
     loads header = Inl TooDeep \<or>
     (\<exists>members v. loads header = Inr (JObj members) \<and> get members ''native'' = None
        \<and> get members ''method'' = Some v \<and> ((\<exists>xs. v = JArr xs) \<or> (\<exists>ms. v = JObj ms)))"
proof (cases "loads header")
  case (Inl e)
  then show ?thesis by (cases e) (simp_all add: decode_request_def)
next
  case (Inr j)
  then show ?thesis
    by (cases j) (simp_all add: decode_request_def result_simps parse_uncaught)
qed

section \<open>From text to bytes\<close>

lemma unat_bytes: "ascii_text t \<Longrightarrow> map unat (map word_of_nat t :: bytes) = t"
  unfolding map_map by (rule map_idI) (auto simp: unat_of_nat dest: ascii_textD)

lemma unat_ascii: "map unat (ascii s) = utext s"
  by (simp add: ascii_def utext_def unat_of_nat)

lemma bytes_are_ascii:
  assumes t: "ascii_text t"
  shows "map word_of_nat t = ascii s \<longleftrightarrow> t = utext s"
proof
  assume "map word_of_nat t = ascii s"
  then show "t = utext s" using unat_bytes [OF t] unat_ascii [of s] by simp
next
  show "t = utext s \<Longrightarrow> map word_of_nat t = ascii s" by (simp add: ascii_def utext_def)
qed

lemma ascii_lower_ascii: "ascii_text t \<Longrightarrow> ascii_text (lower_ascii t)"
  by (auto simp: ascii_text_def lower_ascii_def list_all_iff)

lemma encode_text_ascii: "ascii_text t \<Longrightarrow> 127 \<le> k \<Longrightarrow> encode_text k t = Inr (map word_of_nat t)"
  by (fastforce simp: encode_text_def ensure_def list_all_iff dest: ascii_textD)

definition header_bytes :: "ustr \<times> ustr \<Rightarrow> bytes \<times> bytes" where
  "header_bytes = (\<lambda>(n, v). (map word_of_nat (lower_ascii n), map word_of_nat v))"

lemma encode_headers_ascii:
  "list_all (\<lambda>(n, v). ascii_text n \<and> ascii_text v) hs \<Longrightarrow> map_res encode_header hs = Inr (map header_bytes hs)"
  by (induction hs)
    (auto simp: encode_header_def header_bytes_def encode_text_ascii ascii_lower_ascii)

lemma decimal_digits: "c \<in> set (decimal n) \<Longrightarrow> 48 \<le> c \<and> c \<le> 57"
proof (induction n rule: decimal.induct)
  case (1 n)
  then show ?case
    by (subst (asm) (2) decimal.simps) (auto split: if_splits)
qed

lemma decimal_is_ascii: "ascii_text (decimal n)"
  by (auto simp: ascii_text_def list_all_iff dest: decimal_digits)

lemma bridge_scope_eq:
  assumes "parse_request loads header = Inr r"
  shows "bridge_scope r body =
     Inr \<lparr>cs_method = r_method r, cs_path = unquote (r_path r), cs_raw_path = map word_of_nat (r_path r),
          cs_query = map word_of_nat (r_query r),
          cs_headers = map header_bytes (r_headers r @ [(utext ''content-length'', decimal (length body))])\<rparr>"
proof -
  have "ascii_text (r_path r)" "ascii_text (r_query r)" and hs: "list_all clean_header (r_headers r)"
    using parse_request_Inr [OF assms] by (auto simp: good_path_def)
  moreover have "list_all (\<lambda>(n, v). ascii_text n \<and> ascii_text v)
      (r_headers r @ [(utext ''content-length'', decimal (length body))])"
    using hs by (auto simp: list_all_iff clean_header_def decimal_is_ascii) (auto simp: ascii_text_def utext_def)
  ultimately show ?thesis
    by (simp add: bridge_scope_def encode_text_ascii encode_headers_ascii del: map_res.simps)
qed

lemma plain_byte:
  assumes "c < 128" and "c \<noteq> 13" and "c \<noteq> 10" and "c \<noteq> 0"
  shows "(word_of_nat c :: byte) \<noteq> 13 \<and> (word_of_nat c :: byte) \<noteq> 10 \<and> (word_of_nat c :: byte) \<noteq> 0"
proof -
  have "unat (word_of_nat c :: byte) = c" using assms(1) by (simp add: unat_of_nat)
  moreover have "unat (13 :: byte) = 13" "unat (10 :: byte) = 10" "unat (0 :: byte) = 0" by simp_all
  ultimately show ?thesis using assms by metis
qed

lemma clean_header_bytes:
  assumes "clean_header h"
  shows "fst (header_bytes h) \<notin> ascii ` set [''content-length'', ''transfer-encoding'', ''connection'', ''host'']
    \<and> list_all (\<lambda>b. b \<noteq> 13 \<and> b \<noteq> 10 \<and> b \<noteq> 0) (fst (header_bytes h) @ snd (header_bytes h))"
proof -
  obtain n v where h: "h = (n, v)" by fastforce
  have ascii: "ascii_text (lower_ascii n)" "ascii_text v" and dropped: "lower_ascii n \<notin> set DROPPED_HEADERS"
    and clean: "\<forall>c \<in> set (n @ v). c \<noteq> 13 \<and> c \<noteq> 10 \<and> c \<noteq> 0"
    using assms by (auto simp: clean_header_def h ascii_lower_ascii list_all_iff)
  have "\<forall>c \<in> set (lower_ascii n). c < 128 \<and> c \<noteq> 13 \<and> c \<noteq> 10 \<and> c \<noteq> 0"
    using clean ascii_textD [OF ascii(1)] by (auto simp: lower_ascii_def)
  then show ?thesis
    using dropped clean ascii_textD [OF ascii(2)] bytes_are_ascii [OF ascii(1)] plain_byte
    by (auto simp: header_bytes_def h DROPPED_HEADERS_def list_all_iff)
qed

lemma length_header_clean:
  "list_all (\<lambda>b. b \<noteq> 13 \<and> b \<noteq> 10 \<and> b \<noteq> 0)
     (fst (header_bytes (utext ''content-length'', decimal n)) @ snd (header_bytes (utext ''content-length'', decimal n)))"
proof -
  have "(word_of_nat c :: byte) \<noteq> 13 \<and> (word_of_nat c :: byte) \<noteq> 10 \<and> (word_of_nat c :: byte) \<noteq> 0"
    if "48 \<le> c \<and> c \<le> 57" for c
    using that by (intro plain_byte) auto
  then have "list_all (\<lambda>b :: byte. b \<noteq> 13 \<and> b \<noteq> 10 \<and> b \<noteq> 0) (map word_of_nat (decimal n))"
    using decimal_digits by (auto simp: list_all_iff)
  moreover have "list_all (\<lambda>b :: byte. b \<noteq> 13 \<and> b \<noteq> 10 \<and> b \<noteq> 0) (ascii ''content-length'')"
    by (simp add: ascii_def)
  ultimately show ?thesis
    by (simp add: header_bytes_def lower_ascii_def utext_def ascii_def)
qed

lemma good_path_bytes:
  assumes "good_path path"
  shows "list_all (\<lambda>b. 33 \<le> unat b \<and> unat b < 127) (map word_of_nat path :: bytes)"
proof -
  have "33 \<le> c \<and> c < 127" if "c \<in> set path" for c
  proof -
    have "c < 128" "\<not> c < 33" "c \<noteq> 127"
      using assms that by (auto simp: good_path_def list_ex_iff dest: ascii_textD)
    then show ?thesis by simp
  qed
  then show ?thesis by (fastforce simp: list_all_iff unat_of_nat)
qed

section \<open>Responses\<close>

text \<open>What a response collects stays within the limit of a frame's body.\<close>

lemma bridge_send_size:
  assumes "bridge_send to_file max_response m s = Inr s'"
    and "length (concat (rp_chunks s)) \<le> rp_size s" and "length (concat (rp_chunks s)) \<le> MAX_BODY_BYTES"
  shows "length (concat (rp_chunks s')) \<le> rp_size s' \<and> length (concat (rp_chunks s')) \<le> MAX_BODY_BYTES"
  using assms
  by (cases m) (auto simp: bridge_send_def Let_def result_simps MAX_BODY_BYTES_def split: if_splits)

lemma bridge_call_fits:
  assumes "bridge_call to_file max_response messages = Inr (status, headers, body)"
  shows "length body \<le> MAX_BODY_BYTES"
proof -
  obtain s where s: "fold_res (bridge_send to_file max_response) messages new_reply = Inr s"
    and body: "body = concat (rp_chunks s)"
    using assms by (auto simp: bridge_call_def result_simps)
  have "length (concat (rp_chunks s)) \<le> rp_size s \<and> length (concat (rp_chunks s)) \<le> MAX_BODY_BYTES"
    by (rule fold_res_invariant [OF s]) (use bridge_send_size in \<open>auto simp: new_reply_def\<close>)
  with body show ?thesis by simp
qed

end
