(* ===== verification/Core_Properties.thy ===== *)
theory Core_Properties
  imports Core_Bridge
begin

text \<open>
  The properties of the desktop protocol, with a short history of the core that their witnesses use:
  a request, its task running, and a shutdown.
\<close>

section \<open>A short history\<close>

definition sample_loads :: json_loads where
  "sample_loads header = Inr (JObj [(utext ''method'', JStr (utext ''GET'')), (utext ''path'', JStr (utext ''/''))])"

definition sample_dumps :: json_dumps where "sample_dumps header = [123, 125]"

definition sample_request :: prefix where
  "sample_request = \<lparr>p_kind = REQUEST, p_request_id = 7, p_header_len = 2, p_body_len = 1\<rparr>"

definition sample_shutdown :: prefix where
  "sample_shutdown = \<lparr>p_kind = SHUTDOWN, p_request_id = 0, p_header_len = 0, p_body_len = 0\<rparr>"

definition sample_input :: pipe where
  "sample_input = [wire sample_request [123, 125, 5], wire sample_shutdown []]"

definition sample_task :: "stage \<Rightarrow> bool \<Rightarrow> task" where
  "sample_task st cancelled =
     \<lparr>t_request = Api \<lparr>r_method = utext ''GET'', r_path = utext ''/'', r_query = [], r_headers = []\<rparr>,
      t_body = [5], t_stage = st, t_cancel = cancelled\<rparr>"

definition sample_core :: "(nat \<times> task) list \<Rightarrow> outgoing list \<Rightarrow> phase \<Rightarrow> core" where
  "sample_core tasks out ph =
     \<lparr>c_inbox = [Eof], c_in_flight = tasks, c_queue = out, c_written = [], c_phase = ph, c_exit_code = 0,
      c_unretrieved = []\<rparr>"

lemma sample_reader:
  "reader sample_input = [Frame sample_request [123, 125] [5], Frame sample_shutdown [] [], Eof]"
proof -
  have "representable sample_request" "representable sample_shutdown"
    "refusal sample_request = None" "refusal sample_shutdown = None"
    by (simp_all add: representable_def refusal_def sample_request_def sample_shutdown_def KINDS_def frame_simps)
  moreover have "announced sample_request = 3" "announced sample_shutdown = 0" "p_header_len sample_request = 2"
    by (simp_all add: announced_def sample_request_def sample_shutdown_def)
  ultimately show ?thesis
    using items_wire [of sample_request "[123, 125, 5]" "wire sample_shutdown []"] items_wire [of sample_shutdown "[]" "[]"]
    by (simp add: reader_items sample_input_def message_def)
qed

abbreviation sample_step :: "core \<Rightarrow> core_action \<Rightarrow> core \<Rightarrow> bool" where
  "sample_step \<equiv> core_step (sample_primitives []) sample_loads sample_dumps"

lemma sample_decode: "decode_request sample_loads header = Inr (t_request (sample_task st cancelled))"
  by (simp add: decode_request_def sample_loads_def get_def parse_request_def check_method_def METHODS_def good_path_def
      sample_task_def utext_def ascii_text_def MAX_PATH_def)

lemma sample_send:
  "length (c_queue c) < 16 \<Longrightarrow> outgoing_frame m = (kind, int i, header, []) \<Longrightarrow> kind < 256 \<Longrightarrow> i < 256 ^ 4 \<Longrightarrow>
     send sample_dumps m c = Some (c\<lparr>c_queue := c_queue c @ [m]\<rparr>)"
  by (auto simp: send_def encode_def sample_dumps_def Let_def ensure_def MAX_HEADER_BYTES_def MAX_BODY_BYTES_def
      pack_prefix_def pack_u_def PROTOCOL_VERSION_def MAX_IN_FLIGHT_def)

lemma sample_run:
  "runs sample_step (CoreServer sample_input)
     [Serve (Frame sample_request [123, 125] [5]), Begin 7, Serve (Frame sample_shutdown [] [])]
     (sample_core [(7, sample_task Running True)] [] Draining)"
proof -
  define c1 where "c1 = (CoreServer sample_input)\<lparr>c_inbox := [Frame sample_shutdown [] [], Eof],
    c_in_flight := [(7, sample_task Created False)]\<rparr>"
  define c2 where "c2 = c1\<lparr>c_in_flight := [(7, sample_task Running False)]\<rparr>"
  have "sample_step (CoreServer sample_input) (Serve (Frame sample_request [123, 125] [5])) c1"
    by (rule core_step.serve)
      (simp_all add: CoreServer_def sample_reader c1_def serve_item_def start_def sample_decode [of _ Created False]
        sample_request_def MAX_IN_FLIGHT_def, simp add: sample_task_def)
  moreover have "sample_step c1 (Begin 7) c2"
    using core_step.begins [of c1 7 "sample_task Created False"]
    by (simp add: c1_def c2_def active_def CoreServer_def sample_task_def upsert_def set_row_def)
  moreover have "sample_step c2 (Serve (Frame sample_shutdown [] [])) (sample_core [(7, sample_task Running True)] [] Draining)"
    by (rule core_step.serve)
      (simp_all add: c1_def c2_def CoreServer_def serve_item_def sample_shutdown_def begin_drain_def cancel_def
        sample_core_def sample_task_def REQUEST_def CANCEL_def SHUTDOWN_def)
  ultimately show ?thesis by (auto intro: runs.intros)
qed

lemma sample_run_answered:
  "runs sample_step (CoreServer sample_input)
     ([Serve (Frame sample_request [123, 125] [5]), Begin 7, Serve (Frame sample_shutdown [] [])] @ [Finish 7 AppCancelled])
     (sample_core [(7, sample_task (Done False) True)] [Error 7 ''cancelled'' []] Draining)"
proof -
  let ?c = "sample_core [(7, sample_task Running True)] [] Draining"
  have "finish (sample_primitives []) sample_loads sample_dumps 7 (sample_task Running True) AppCancelled ?c =
      sample_core [(7, sample_task (Done False) True)] [Error 7 ''cancelled'' []] Draining"
  proof -
    have "send sample_dumps (Error 7 ''cancelled'' []) (sample_core [(7, sample_task (Done False) True)] [] Draining)
        = Some (sample_core [(7, sample_task (Done False) True)] [Error 7 ''cancelled'' []] Draining)"
      by (subst sample_send [of _ _ ERROR 7]) (simp_all add: sample_core_def outgoing_frame_def ERROR_def)
    then show ?thesis
      by (simp add: finish_def answer_def Let_def)
        (simp add: sample_core_def sample_task_def upsert_def set_row_def)
  qed
  moreover have "sample_step ?c (Finish 7 AppCancelled)
      (finish (sample_primitives []) sample_loads sample_dumps 7 (sample_task Running True) AppCancelled ?c)"
    by (rule core_step.finishes) (simp_all add: active_def sample_core_def sample_task_def)
  ultimately show ?thesis
    using sample_run by (simp add: runs_Cons_iff) blast
qed

section \<open>Properties\<close>

text \<open>
  C25: Whatever arrives on the pipe and however the tasks, the writer and the reader interleave, the
  core holds at most sixteen requests with different nonzero ids in flight and at most sixteen
  messages in its output queue.
\<close>

theorem core_is_bounded:
  assumes "runs (core_step P loads dumps) (CoreServer ps) as c"
  shows "distinct (map fst (c_in_flight c)) \<and> 0 \<notin> fst ` set (c_in_flight c)
    \<and> length (c_in_flight c) \<le> 16 \<and> length (c_queue c) \<le> 16"
  using core_inv_runs [OF assms core_inv_init] by (simp add: core_inv_def MAX_IN_FLIGHT_def)

theorem core_is_bounded_witness:
  "distinct (map fst (c_in_flight (sample_core [(7, sample_task Running True)] [] Draining)))
   \<and> length (c_in_flight (sample_core [(7, sample_task Running True)] [] Draining)) \<le> 16"
  using core_is_bounded [OF sample_run] by blast

text \<open>
  C20: No request is answered twice and none is lost. At every moment of every history in which the
  process has not ended, the items taken from the pipe are the first ones that the reader delivers,
  and for every id the requests taken with it are as many as the answers sent or queued for it, plus
  one if such a request is still being worked on, plus those whose task ended with an exception that
  asyncio only logs.
\<close>

theorem requests_answered_once:
  assumes "runs (core_step P loads dumps) (CoreServer ps) as c" and "alive c"
  shows "reader ps = taken_items as @ c_inbox c
    \<and> length (filter (requests_of i) (taken_items as)) = answers i c + unanswered i c + count_list (c_unretrieved c) i"
  using accounted_runs [OF assms, of i]
  by (simp add: CoreServer_def accounted_def answers_def unanswered_def)

theorem requests_answered_once_witness:
  "reader sample_input = [Frame sample_request [123, 125] [5], Frame sample_shutdown [] []] @ [Eof]
   \<and> answers 7 (sample_core [(7, sample_task (Done False) True)] [Error 7 ''cancelled'' []] Draining) = 1"
proof -
  let ?c = "sample_core [(7, sample_task (Done False) True)] [Error 7 ''cancelled'' []] Draining"
  have "alive ?c" by (simp add: alive_def sample_core_def)
  from requests_answered_once [OF sample_run_answered this, of 7]
  show ?thesis by (simp add: sample_request_def sample_shutdown_def unanswered_def sample_core_def sample_task_def)
qed



text \<open>
  A request that the core accepts reaches the application as it is meant. The scope can be built;
  it has exactly one content length, the length of the body, and no transfer encoding, connection or
  host header; no header has a line break or NUL in it; the path starts with a slash and has neither
  spaces nor control characters.
\<close>

theorem calls_are_clean:
  assumes "parse_request loads header = Inr r"
  shows "\<exists>sc. bridge_scope r body = Inr sc \<and> cs_method sc \<in> set METHODS
    \<and> filter (\<lambda>(n, v). n = ascii ''content-length'') (cs_headers sc)
        = [(ascii ''content-length'', map word_of_nat (decimal (length body)))]
    \<and> \<not> list_ex (\<lambda>(n, v). n \<in> {ascii ''transfer-encoding'', ascii ''connection'', ascii ''host''}) (cs_headers sc)
    \<and> list_all (\<lambda>(n, v). list_all (\<lambda>b. b \<noteq> 13 \<and> b \<noteq> 10 \<and> b \<noteq> 0) (n @ v)) (cs_headers sc)
    \<and> cs_raw_path sc \<noteq> [] \<and> hd (cs_raw_path sc) = 47 \<and> list_all (\<lambda>b. 33 \<le> unat b \<and> unat b < 127) (cs_raw_path sc)"
proof -
  note r = parse_request_Inr [OF assms]
  let ?length = "(utext ''content-length'', decimal (length body))"
  have clean: "\<And>h. h \<in> set (r_headers r) \<Longrightarrow> clean_header h" using r by (auto simp: list_all_iff)
  have len: "header_bytes ?length = (ascii ''content-length'', map word_of_nat (decimal (length body)))"
    by (simp add: header_bytes_def lower_ascii_def utext_def ascii_def)
  have "filter (\<lambda>(n, v). n = ascii ''content-length'') (map header_bytes (r_headers r)) = []"
    using clean_header_bytes [OF clean] by (fastforce simp: filter_empty_conv)
  moreover have "\<not> list_ex (\<lambda>(n, v). n \<in> {ascii ''transfer-encoding'', ascii ''connection'', ascii ''host''})
      (map header_bytes (r_headers r @ [?length]))"
    using clean_header_bytes [OF clean] len by (fastforce simp: list_ex_iff ascii_def)
  moreover have "list_all (\<lambda>(n, v). list_all (\<lambda>b. b \<noteq> 13 \<and> b \<noteq> 10 \<and> b \<noteq> 0) (n @ v))
      (map header_bytes (r_headers r @ [?length]))"
    using clean_header_bytes [OF clean] length_header_clean [of "length body"] by (fastforce simp: list_all_iff)
  moreover have "list_all (\<lambda>b. 33 \<le> unat b \<and> unat b < 127) (map word_of_nat (r_path r) :: bytes)"
    using r good_path_bytes [of "r_path r"] by simp
  moreover have "(map word_of_nat (r_path r) :: bytes) \<noteq> []" "hd (map word_of_nat (r_path r) :: bytes) = 47"
    using r by (cases "r_path r"; auto simp: good_path_def)+
  ultimately show ?thesis
    using r len by (intro exI [of _ "projr (bridge_scope r body)"]) (simp add: bridge_scope_eq [OF assms])
qed


text \<open>
  Telling the shell when a session ends is not activity: whatever the request and the response
  are, reading the deadline leaves every session as it was, except that it may remove the one that
  has already expired, and it reveals only a number of milliseconds that is not negative.
\<close>

theorem deadline_is_quiet:
  assumes "core_session_info P loads request status body now vs = (r, vs')"
  shows "(vs' = vs \<or> (\<exists>t s. map_of (vs_sessions vs) (digest P t) = Some s \<and> expired vs now s
        \<and> vs' = vs\<lparr>vs_sessions := del_row fst (digest P t) (vs_sessions vs)\<rparr>))
    \<and> (r = None \<or> r = Some JNull \<or> (\<exists>ms \<ge> 0. r = Some (JObj [(utext ''expires_in_ms'', JInt ms)])))"
  using assms
  by (auto simp: core_session_info_def info_def live_def split: option.splits if_splits json.splits prod.splits sum.splits)

theorem calls_are_clean_witness:
  "\<exists>sc. bridge_scope \<lparr>r_method = utext ''GET'', r_path = utext ''/'', r_query = [], r_headers = []\<rparr> [5] = Inr sc
     \<and> filter (\<lambda>(n, v). n = ascii ''content-length'') (cs_headers sc) = [(ascii ''content-length'', [49])]"
proof -
  have "parse_request sample_loads [] = Inr \<lparr>r_method = utext ''GET'', r_path = utext ''/'', r_query = [], r_headers = []\<rparr>"
    by (simp add: sample_loads_def get_def parse_request_def check_method_def METHODS_def good_path_def
        utext_def ascii_text_def MAX_PATH_def)
  from calls_are_clean [OF this, of "[5]"] show ?thesis by (auto simp: decimal.simps)
qed


definition sample_session_request :: core_request where
  "sample_session_request = Api \<lparr>r_method = utext ''GET'', r_path = utext ''/'', r_query = [],
     r_headers = [(utext ''X-Ciphermoth-Session'', sample_token)]\<rparr>"

theorem deadline_is_quiet_witness:
  "case core_session_info (sample_primitives []) sample_loads sample_session_request 200 []
      \<lparr>monotonic = 0, wall = 0\<rparr> sample_store of
     (r, vs') \<Rightarrow> r = Some (JObj [(utext ''expires_in_ms'', JInt 1000)]) \<and> vs' = sample_store
       \<and> (\<exists>ms \<ge> 0. r = Some (JObj [(utext ''expires_in_ms'', JInt ms)]))"
proof -
  have run: "core_session_info (sample_primitives []) sample_loads sample_session_request 200 []
      \<lparr>monotonic = 0, wall = 0\<rparr> sample_store = (Some (JObj [(utext ''expires_in_ms'', JInt 1000)]), sample_store)"
    by (simp add: core_session_info_def session_token_def sample_session_request_def SESSION_ROUTES_def utext_def
        lower_ascii_def info_def sample_store_defs) (simp add: sample_token_def)
  from deadline_is_quiet [OF run] run show ?thesis by auto
qed

definition response_header :: "nat \<Rightarrow> (ustr \<times> ustr) list \<Rightarrow> json \<Rightarrow> json" where
  "response_header status headers session =
     JObj [(utext ''status'', JInt (int status)), (utext ''headers'', JArr (map pair_json headers)),
           (utext ''session'', session)]"

text \<open>
  C24: What the application answers arrives. When the messages of the application make a response, the
  session deadline can be read, the header fits into a frame and the output queue has room, the
  finished task has queued exactly this response, its body is within a frame's limit, and whoever reads
  the frame's bytes from a pipe, in whatever pieces, gets the id, the header and the whole body.
\<close>

theorem replies_arrive:
  assumes "bridge_call False MAX_BODY_BYTES messages = Inr (status, headers, body)"
    and "core_session_info P loads (t_request t) status body now vs = (Some session, vs')"
    and "length (dumps (response_header status headers session)) \<le> MAX_HEADER_BYTES"
    and "i < 256 ^ 4" and "length (c_queue c) < MAX_IN_FLIGHT"
  shows "finish P loads dumps i t (AppReply status headers body now vs) c =
      c\<lparr>c_in_flight := upsert fst (i, t\<lparr>t_stage := Done False\<rparr>) (c_in_flight c),
        c_queue := c_queue c @ [Response i status headers session body]\<rparr>
    \<and> (\<exists>bs. encode_frame dumps (outgoing_frame (Response i status headers session body)) = Inr bs
        \<and> (\<forall>ps. concat ps = bs \<longrightarrow>
             reader ps = [Frame \<lparr>p_kind = RESPONSE, p_request_id = i,
                 p_header_len = length (dumps (response_header status headers session)), p_body_len = length body\<rparr>
               (dumps (response_header status headers session)) body, Eof]))"
proof -
  define frame where "frame = (RESPONSE, int i, response_header status headers session, body)"
  have out: "outgoing_frame (Response i status headers session body) = frame"
    by (simp add: outgoing_frame_def frame_def response_header_def)
  have body: "length body \<le> MAX_BODY_BYTES" by (rule bridge_call_fits [OF assms(1)])
  moreover have "length body < 256 ^ 4" "length (dumps (response_header status headers session)) < 256 ^ 4"
    using body assms(3) by (simp_all add: MAX_BODY_BYTES_def MAX_HEADER_BYTES_def)
  ultimately obtain bs where bs: "encode_frame dumps frame = Inr bs"
    using assms(3,4)
    by (auto simp: frame_def encode_def Let_def ensure_def pack_prefix_def pack_u_def RESPONSE_def PROTOCOL_VERSION_def)
  have "reader ps = [frame_of dumps frame, Eof]" if "concat ps = bs" for ps
    using items_encode [OF bs, of "[]"] that by (simp add: reader_items frame_def KINDS_def)
  moreover have "finish P loads dumps i t (AppReply status headers body now vs) c =
      c\<lparr>c_in_flight := upsert fst (i, t\<lparr>t_stage := Done False\<rparr>) (c_in_flight c),
        c_queue := c_queue c @ [Response i status headers session body]\<rparr>"
    using assms(2,5) bs by (simp add: finish_def answer_def Let_def send_def out)
  ultimately show ?thesis
    using bs by (simp add: out) (simp add: frame_of_def frame_def)
qed

theorem replies_arrive_witness:
  "bridge_call False MAX_BODY_BYTES [ResponseStart 200 [], ResponseBody [1] True, ResponseBody [2] False] = Inr (200, [], [1, 2])
   \<and> finish (sample_primitives []) sample_loads sample_dumps 7 (sample_task Running False)
       (AppReply 200 [] [1, 2] \<lparr>monotonic = 0, wall = 0\<rparr> sample_store) (sample_core [(7, sample_task Running False)] [] Serving)
     = sample_core [(7, sample_task (Done False) False)] [Response 7 200 [] JNull [1, 2]] Serving"
proof -
  have call: "bridge_call False MAX_BODY_BYTES [ResponseStart 200 [], ResponseBody [1] True, ResponseBody [2] False] = Inr (200, [], [1, 2])"
    by (simp add: bridge_call_def bridge_send_def new_reply_def MAX_BODY_BYTES_def ensure_def Let_def)
  have info: "core_session_info (sample_primitives []) sample_loads (t_request (sample_task Running False)) 200 [1, 2]
      \<lparr>monotonic = 0, wall = 0\<rparr> sample_store = (Some JNull, sample_store)"
    by (simp add: core_session_info_def session_token_def sample_task_def SESSION_ROUTES_def utext_def)
  have small: "length (sample_dumps (response_header 200 [] JNull)) \<le> MAX_HEADER_BYTES"
    by (simp add: sample_dumps_def MAX_HEADER_BYTES_def)
  show ?thesis
    using call replies_arrive [where dumps = sample_dumps and i = 7 and c = "sample_core [(7, sample_task Running False)] [] Serving",
      OF call info small]
    by (simp add: sample_core_def MAX_IN_FLIGHT_def) (simp add: sample_task_def upsert_def set_row_def)
qed

end
