(* ===== verification/Http_Guards.thy ===== *)
theory Http_Guards
  imports Urls Sessions
begin

text \<open>
  What the HTTP interface does before a route runs: the guard that keeps an encoded slash inside its
  path segment (\<^verbatim>\<open>api/path_guard.py\<close>), the limit on request bodies (\<^verbatim>\<open>api/body_limit.py\<close>), the
  refusal of retired clients (\<^verbatim>\<open>api/retired_clients.py\<close>), the redaction of the access log
  (\<^verbatim>\<open>api/access_log.py\<close>) and the first dependencies of a route (\<^verbatim>\<open>api/endpoints/deps.py\<close>). A
  middleware gives a refusal (a status code) or passes the request on.
\<close>

section \<open>The scope of a request\<close>

record scope =
  sc_type :: string
  sc_method :: string
  sc_path :: ustr
  sc_raw_path :: "bytes option"
  sc_headers :: "(bytes \<times> bytes) list"

text \<open>\<open>Refused status\<close>: a response of the middleware; \<open>Passed s\<close>: the application is called with \<open>s\<close>.\<close>

datatype verdict = Refused nat | Passed scope

section \<open>Encoded slashes\<close>

definition ENCODED_SLASH :: nat where "ENCODED_SLASH = 0"

definition has_encoded_slash :: "bytes \<Rightarrow> bool" where
  "has_encoded_slash raw \<longleftrightarrow> contains [37, 50, 70] raw \<or> contains [37, 50, 102] raw"

definition latin1_text :: "bytes \<Rightarrow> ustr" where "latin1_text = map unat"

definition entry_name :: "ustr \<Rightarrow> ustr" where
  "entry_name value = replace_char ENCODED_SLASH 47 value"

definition route_path :: "bytes \<Rightarrow> ustr" where
  "route_path raw = join_with 47
     (map (\<lambda>segment. replace_char 47 ENCODED_SLASH (unquote segment)) (split_on 47 (latin1_text raw)))"

definition entry_name_paths :: "scope \<Rightarrow> verdict" where
  "entry_name_paths s =
     (case (if sc_type s = ''http'' then sc_raw_path s else None) of
        None \<Rightarrow> Passed s
      | Some raw \<Rightarrow>
          if raw = [] then Passed s
          else if contains [37, 48, 48] raw then Refused 400
          else if has_encoded_slash raw then Passed (s\<lparr>sc_path := route_path raw\<rparr>)
          else Passed s)"

text \<open>
  The segments that the router sees are those of the raw path, and the name in each is what the
  client encoded there, slashes included.
\<close>

lemma route_path_segments:
  assumes "0 \<notin> set raw" and "\<not> contains [37, 48, 48] raw"
  shows "map entry_name (split_on 47 (route_path raw)) = map unquote (split_on 47 (latin1_text raw))"
    and "length (split_on 47 (route_path raw)) = length (split_on 47 (latin1_text raw))"
proof -
  let ?guard = "\<lambda>segment. replace_char 47 ENCODED_SLASH (unquote segment)"
  have split: "split_on 47 (route_path raw) = map ?guard (split_on 47 (latin1_text raw))"
    unfolding route_path_def
    by (rule split_join) (auto simp: list_all_iff ENCODED_SLASH_def replace_char_free)
  then show "length (split_on 47 (route_path raw)) = length (split_on 47 (latin1_text raw))" by simp
  have "0 \<notin> set (unquote s)" if s: "s \<in> set (split_on 47 (latin1_text raw))" for s
  proof
    assume "0 \<in> set (unquote s)"
    from unquote_nul [OF this] split_on_inner [OF s] have "0 \<in> set (latin1_text raw) \<or> contains [37, 48, 48] (latin1_text raw)"
      by (auto intro: contains_inner)
    then show False
    proof
      assume "0 \<in> set (latin1_text raw)"
      with assms(1) show False by (auto simp: latin1_text_def unat_eq_0)
    next
      assume "contains [37, 48, 48] (latin1_text raw)"
      then have "contains (map word_of_nat [37, 48, 48]) (map word_of_nat (latin1_text raw) :: bytes)"
        by (rule contains_map)
      with assms(2) show False by (simp add: latin1_text_def map_idI)
    qed
  qed
  then have "map (\<lambda>s. entry_name (?guard s)) (split_on 47 (latin1_text raw)) = map unquote (split_on 47 (latin1_text raw))"
    by (auto simp: entry_name_def ENCODED_SLASH_def replace_char_back)
  with split show "map entry_name (split_on 47 (route_path raw)) = map unquote (split_on 47 (latin1_text raw))"
    by (simp add: comp_def)
qed

section \<open>The size of a request body\<close>

definition MIB :: nat where "MIB = 1024 * 1024"
definition DEFAULT_MAX_BODY_BYTES :: nat where "DEFAULT_MAX_BODY_BYTES = 16 * MIB"
definition ATTACHMENT_MAX_BODY_BYTES :: nat where "ATTACHMENT_MAX_BODY_BYTES = 6 * MIB"
definition CSV_IMPORT_MAX_BODY_BYTES :: nat where "CSV_IMPORT_MAX_BODY_BYTES = 11 * MIB"
definition BACKUP_IMPORT_MAX_BODY_BYTES :: nat where
  "BACKUP_IMPORT_MAX_BODY_BYTES = 1024 * MIB + MIB"

text \<open>
  The regular expressions are searched for anywhere in the path, and their \<^verbatim>\<open>$\<close> also matches before
  a line feed that ends the path.
\<close>

definition chomp :: "ustr \<Rightarrow> ustr" where
  "chomp path = (if path \<noteq> [] \<and> last path = 10 then butlast path else path)"

definition ends_with :: "string \<Rightarrow> ustr \<Rightarrow> bool" where
  "ends_with tail path \<longleftrightarrow>
     drop (length path - length tail) path = utext tail \<or>
     drop (length (chomp path) - length tail) (chomp path) = utext tail"

text \<open>\<^verbatim>\<open>/passwords/[^/]+/attachments$\<close>\<close>

fun starts_attachments :: "ustr \<Rightarrow> bool" where
  "starts_attachments path =
     (let rest = drop 11 path; name = takeWhile (\<lambda>c. c \<noteq> 47) rest
      in take 11 path = utext ''/passwords/'' \<and> name \<noteq> [] \<and>
         (drop (length name) rest = utext ''/attachments''
          \<or> drop (length name) rest = utext ''/attachments'' @ [10]))"

fun attachments_route :: "ustr \<Rightarrow> bool" where
  "attachments_route [] \<longleftrightarrow> starts_attachments []"
| "attachments_route (c # cs) \<longleftrightarrow> starts_attachments (c # cs) \<or> attachments_route cs"

definition body_limit_for :: "string \<Rightarrow> ustr \<Rightarrow> nat" where
  "body_limit_for http_method path =
     (if http_method = ''POST'' \<and> attachments_route path then ATTACHMENT_MAX_BODY_BYTES
      else if http_method = ''POST'' \<and> ends_with ''/passwords/import/csv'' path then CSV_IMPORT_MAX_BODY_BYTES
      else if http_method = ''POST'' \<and> ends_with ''/passwords/import'' path then BACKUP_IMPORT_MAX_BODY_BYTES
      else DEFAULT_MAX_BODY_BYTES)"

text \<open>\<^verbatim>\<open>int(value)\<close> of a byte string; \<open>None\<close> is \<^verbatim>\<open>ValueError\<close>. Single underscores may stand between digits.\<close>

definition is_space :: "byte \<Rightarrow> bool" where
  "is_space b \<longleftrightarrow> unat b = 32 \<or> between 9 13 b"

definition strip :: "bytes \<Rightarrow> bytes" where
  "strip bs = rev (dropWhile is_space (rev (dropWhile is_space bs)))"

fun int_digits :: "nat \<Rightarrow> bool \<Rightarrow> bytes \<Rightarrow> nat option" where
  "int_digits acc gap [] = (if gap then None else Some acc)"
| "int_digits acc gap (b # bs) =
     (if between 48 57 b then int_digits (acc * 10 + (unat b - 48)) False bs
      else if b = 95 \<and> \<not> gap then int_digits acc True bs
      else None)"

definition parse_int :: "bytes \<Rightarrow> int option" where
  "parse_int value =
     (let s = strip value;
          digits = (if s \<noteq> [] \<and> (hd s = 43 \<or> hd s = 45) then tl s else s)
      in if 4300 < length (filter (between 48 57) digits) then None
         else map_option (\<lambda>n. if s \<noteq> [] \<and> hd s = 45 then - int n else int n) (int_digits 0 True digits))"

definition declared_length :: "scope \<Rightarrow> int option" where
  "declared_length s =
     (case find (\<lambda>(name, _). name = ascii ''content-length'') (sc_headers s) of
        None \<Rightarrow> None
      | Some (_, value) \<Rightarrow> parse_int value)"

definition body_size_limit :: "scope \<Rightarrow> verdict" where
  "body_size_limit s =
     (if sc_type s \<noteq> ''http'' then Passed s
      else (case declared_length s of
              None \<Rightarrow> Passed s
            | Some n \<Rightarrow> if n > int (body_limit_for (sc_method s) (sc_path s)) then Refused 413 else Passed s))"

text \<open>The messages that the wrapped \<^verbatim>\<open>receive\<close> gives the application; \<open>None\<close> is \<^verbatim>\<open>RequestTooLarge\<close>.\<close>

datatype asgi_message = HttpRequest bytes bool | HttpDisconnect

fun body_of :: "asgi_message \<Rightarrow> bytes" where
  "body_of (HttpRequest body more_body) = body"
| "body_of HttpDisconnect = []"

definition limited_receive :: "nat \<Rightarrow> nat \<Rightarrow> asgi_message \<Rightarrow> asgi_message option \<times> nat" where
  "limited_receive limit received message =
     (case message of
        HttpRequest body more_body \<Rightarrow>
          (let received' = received + length body
           in (if received' > limit then None else Some message, received'))
      | HttpDisconnect \<Rightarrow> (Some message, received))"

text \<open>What an application gets that calls it again and again, also after an error.\<close>

fun limited_receives :: "nat \<Rightarrow> nat \<Rightarrow> asgi_message list \<Rightarrow> asgi_message option list" where
  "limited_receives limit received [] = []"
| "limited_receives limit received (m # ms) =
     (case limited_receive limit received m of
        (r, received') \<Rightarrow> r # limited_receives limit received' ms)"

definition given_bytes :: "asgi_message option list \<Rightarrow> nat" where
  "given_bytes rs = sum_list (map (\<lambda>r. case r of None \<Rightarrow> 0 | Some m \<Rightarrow> length (body_of m)) rs)"

definition sent_bytes :: "asgi_message list \<Rightarrow> nat" where
  "sent_bytes ms = sum_list (map (\<lambda>m. length (body_of m)) ms)"

lemma given_bytes_simps [simp]:
  "given_bytes [] = 0"
  "given_bytes (None # rs) = given_bytes rs"
  "given_bytes (Some m # rs) = length (body_of m) + given_bytes rs"
  by (simp_all add: given_bytes_def)

lemma limited_receives_over:
  "limit < received \<Longrightarrow> given_bytes (limited_receives limit received ms) = 0"
proof (induction ms arbitrary: received)
  case (Cons m ms)
  then show ?case by (cases m) (simp_all add: limited_receive_def Let_def)
qed simp

lemma limited_receives_bound:
  "received \<le> limit \<Longrightarrow> received + given_bytes (limited_receives limit received ms) \<le> limit"
proof (induction ms arbitrary: received)
  case (Cons m ms)
  show ?case
  proof (cases m)
    case (HttpRequest body more_body)
    with Cons.prems Cons.IH [of "received + length body"] limited_receives_over [of limit "received + length body" ms]
    show ?thesis by (cases "limit < received + length body") (simp_all add: limited_receive_def)
  next
    case HttpDisconnect
    with Cons show ?thesis by (simp add: limited_receive_def)
  qed
qed simp

lemma limited_receives_fits:
  "received + sent_bytes ms \<le> limit \<Longrightarrow> limited_receives limit received ms = map Some ms"
proof (induction ms arbitrary: received)
  case (Cons m ms)
  then show ?case
    by (cases m) (auto simp: limited_receive_def sent_bytes_def Let_def)
qed simp

section \<open>Retired clients\<close>

definition lower_bytes :: "bytes \<Rightarrow> bytes" where
  "lower_bytes = map (\<lambda>b. if between 65 90 b then b + 32 else b)"

definition RETIRED_KEY_HEADER :: bytes where
  "RETIRED_KEY_HEADER = ascii ''x-ciphermoth-key-derivation''"

definition RETIRED_UNLOCK :: "string \<times> ustr" where
  "RETIRED_UNLOCK = (''POST'', utext ''/api/master_password/check'')"

definition retired_clients :: "scope \<Rightarrow> verdict" where
  "retired_clients s =
     (if sc_type s = ''http'' then
        if list_ex (\<lambda>(name, _). lower_bytes name = RETIRED_KEY_HEADER) (sc_headers s) then Refused 403
        else if (sc_method s, sc_path s) = RETIRED_UNLOCK then Refused 410
        else Passed s
      else Passed s)"

text \<open>The middlewares in the order of \<^verbatim>\<open>get_application\<close>: the last one added is the first to see a request.\<close>

definition guard_then :: "(scope \<Rightarrow> verdict) \<Rightarrow> (scope \<Rightarrow> verdict) \<Rightarrow> scope \<Rightarrow> verdict" where
  "guard_then f g s = (case f s of Refused status \<Rightarrow> Refused status | Passed s' \<Rightarrow> g s')"

definition request_guards :: "scope \<Rightarrow> verdict" where
  "request_guards = guard_then retired_clients (guard_then entry_name_paths body_size_limit)"

lemma guard_then_Passed:
  "guard_then f g s = Passed s'' \<longleftrightarrow> (\<exists>s'. f s = Passed s' \<and> g s' = Passed s'')"
  by (auto simp: guard_then_def split: verdict.split)

section \<open>The access log\<close>

definition passwords_mark :: ustr where "passwords_mark = utext ''/passwords/''"

text \<open>\<^verbatim>\<open>^(?P<prefix>.*?/passwords/)\<close>: everything up to the first mark, and the rest.\<close>

fun at_mark :: "ustr \<Rightarrow> (ustr \<times> ustr) option" where
  "at_mark [] = None"
| "at_mark (c # cs) =
     (if take (length passwords_mark) (c # cs) = passwords_mark
      then Some (passwords_mark, drop (length passwords_mark) (c # cs))
      else map_option (\<lambda>(before, rest). (c # before, rest)) (at_mark cs))"

text \<open>\<^verbatim>\<open>(?P<rest>.+)$\<close>: no line feed but a last one, which the group leaves out.\<close>

definition match_entries :: "ustr \<Rightarrow> (ustr \<times> ustr) option" where
  "match_entries path =
     (case at_mark path of
        None \<Rightarrow> None
      | Some (before, rest) \<Rightarrow>
          if 10 \<in> set before \<or> chomp rest = [] \<or> 10 \<in> set (chomp rest) then None
          else Some (before, chomp rest))"

definition LITERAL_ROUTES :: "(string \<times> ustr) list" where
  "LITERAL_ROUTES =
     [(''GET'', utext ''trash''), (''POST'', utext ''create''), (''PATCH'', utext ''update''),
      (''POST'', utext ''import''), (''POST'', utext ''import/csv''), (''POST'', utext ''backup'')]"

text \<open>\<open>digit\<close> says which characters \<^verbatim>\<open>\d\<close> matches.\<close>

definition known_suffix :: "(nat \<Rightarrow> bool) \<Rightarrow> ustr \<Rightarrow> bool" where
  "known_suffix digit tail \<longleftrightarrow>
     tail = [] \<or> tail = utext ''/favorite'' \<or> tail = utext ''/restore'' \<or> tail = utext ''/purge''
     \<or> tail = utext ''/attachments''
     \<or> (take 13 tail = utext ''/attachments/'' \<and> drop 13 tail \<noteq> [] \<and> list_all digit (drop 13 tail))"

definition entry_suffix :: "(nat \<Rightarrow> bool) \<Rightarrow> ustr \<Rightarrow> ustr option" where
  "entry_suffix digit rest =
     (let name = takeWhile (\<lambda>c. c \<noteq> 47) rest; tail = drop (length name) rest
      in if name \<noteq> [] \<and> known_suffix digit tail then Some tail else None)"

definition redact_path :: "(nat \<Rightarrow> bool) \<Rightarrow> string \<Rightarrow> ustr \<Rightarrow> ustr" where
  "redact_path digit http_method path_with_query =
     (let path = takeWhile (\<lambda>c. c \<noteq> 63) path_with_query;
          has_query = 63 \<in> set path_with_query;
          redacted =
            (case match_entries path of
               None \<Rightarrow> path
             | Some (before, rest) \<Rightarrow>
                 if (http_method, rest) \<in> set LITERAL_ROUTES then path
                 else before @ (case entry_suffix digit rest of
                        Some tail \<Rightarrow> utext ''{password_name}'' @ tail
                      | None \<Rightarrow> utext ''{redacted}''))
      in redacted @ (if has_query then utext ''?{redacted}'' else []))"

lemma at_mark_first:
  "\<not> contains passwords_mark (before @ butlast passwords_mark) \<Longrightarrow>
     at_mark (before @ passwords_mark @ rest) = Some (before @ passwords_mark, rest)"
proof (induction before)
  case Nil
  then show ?case by (simp add: passwords_mark_def utext_def)
next
  case (Cons c cs)
  have "take (length passwords_mark) (c # cs @ passwords_mark @ rest) \<noteq> passwords_mark"
  proof
    assume hit: "take (length passwords_mark) (c # cs @ passwords_mark @ rest) = passwords_mark"
    have "c # cs @ passwords_mark @ rest = (c # cs @ butlast passwords_mark) @ last passwords_mark # rest"
      by (simp add: passwords_mark_def utext_def)
    moreover have "length passwords_mark \<le> length (c # cs @ butlast passwords_mark)"
      by (simp add: passwords_mark_def utext_def)
    ultimately have "take (length passwords_mark) (c # cs @ butlast passwords_mark) = passwords_mark"
      using hit by (metis append_take_drop_id take_append take_all_iff append_Nil2 diff_is_0_eq take0)
    then have "contains passwords_mark (c # cs @ butlast passwords_mark)" by simp
    with Cons.prems show False by simp
  qed
  moreover from Cons.prems have "\<not> contains passwords_mark (cs @ butlast passwords_mark)"
    by simp
  ultimately show ?case using Cons.IH by simp
qed

section \<open>First dependencies of a route\<close>

definition READ_ONLY_METHODS :: "string list" where "READ_ONLY_METHODS = [''GET'', ''HEAD'']"

definition READ_ONLY_ROUTES :: "string list" where
  "READ_ONLY_ROUTES = [''master-password:unlock'', ''master-password:session-activity'', ''passwords:backup'']"

text \<open>Whether \<^verbatim>\<open>get_session\<close> opens a write transaction.\<close>

definition write_transaction :: "string \<Rightarrow> string option \<Rightarrow> bool" where
  "write_transaction http_method route \<longleftrightarrow>
     http_method \<notin> set READ_ONLY_METHODS \<and> (case route of None \<Rightarrow> True | Some r \<Rightarrow> r \<notin> set READ_ONLY_ROUTES)"

definition get_entry_name :: "ustr \<Rightarrow> ustr option \<Rightarrow> error + ustr" where
  "get_entry_name password_name x_ciphermoth_entry =
     (let name = entry_name password_name
      in case x_ciphermoth_entry of
           None \<Rightarrow> Inr name
         | Some header \<Rightarrow> if unquote header \<noteq> name then Inl InvalidRequest else Inr name)"

definition get_credential ::
    "primitives \<Rightarrow> ustr option \<Rightarrow> instant \<Rightarrow> vault_sessions \<Rightarrow> (error + ustr) \<times> vault_sessions" where
  "get_credential P token now vs =
     (case token of
        None \<Rightarrow> (Inl SessionRequired, vs)
      | Some t \<Rightarrow>
          (case resolve P (Some t) False now vs of
             (Inl e, vs') \<Rightarrow> (Inl e, vs')
           | (Inr key, vs') \<Rightarrow> (Inr t, vs')))"

definition get_session_key ::
    "primitives \<Rightarrow> ustr \<Rightarrow> instant \<Rightarrow> vault_sessions \<Rightarrow> (error + vault_key) \<times> vault_sessions" where
  "get_session_key P credential now vs = resolve P (Some credential) True now vs"

section \<open>Properties\<close>

text \<open>
  C28: A request that passes the guards and has an encoded slash in its path is routed segment by
  segment as the client sent it: the path given to the router has the segments of the raw path, and
  each names what the client encoded, slashes included; nothing else of the request changes. The
  request does not carry the header of a retired client.
\<close>

theorem slashes_stay_inside:
  assumes "request_guards s = Passed s'" and "sc_type s = ''http''" and "sc_raw_path s = Some raw"
    and "0 \<notin> set raw" and "has_encoded_slash raw"
  shows "s' = s\<lparr>sc_path := sc_path s'\<rparr>
    \<and> length (split_on 47 (sc_path s')) = length (split_on 47 (latin1_text raw))
    \<and> map entry_name (split_on 47 (sc_path s')) = map unquote (split_on 47 (latin1_text raw))
    \<and> \<not> list_ex (\<lambda>(name, _). lower_bytes name = RETIRED_KEY_HEADER) (sc_headers s')"
proof -
  from assms(1,2) obtain s1 where "retired_clients s = Passed s" and guarded: "entry_name_paths s = Passed s1"
    and "body_size_limit s1 = Passed s'"
    and fresh: "\<not> list_ex (\<lambda>(name, _). lower_bytes name = RETIRED_KEY_HEADER) (sc_headers s)"
    by (auto simp: request_guards_def guard_then_Passed retired_clients_def split: if_splits)
  then have s': "s' = s1"
    by (auto simp: body_size_limit_def split: if_splits option.splits)
  have "raw \<noteq> []" using assms(5) by (auto simp: has_encoded_slash_def)
  with guarded assms(2,3,5) have nul: "\<not> contains [37, 48, 48] raw" and s1: "s1 = s\<lparr>sc_path := route_path raw\<rparr>"
    by (auto simp: entry_name_paths_def split: if_splits)
  show ?thesis
    using route_path_segments [OF assms(4) nul] fresh by (simp add: s' s1)
qed

definition sample_scope :: scope where
  "sample_scope = \<lparr>sc_type = ''http'', sc_method = ''DELETE'', sc_path = utext ''/passwords/x/purge'',
     sc_raw_path = Some (ascii ''/passwords/x%2Fpurge''), sc_headers = [(ascii ''content-length'', ascii ''7'')]\<rparr>"

theorem slashes_stay_inside_witness:
  "request_guards sample_scope = Passed (sample_scope\<lparr>sc_path := utext ''/passwords/x'' @ 0 # utext ''purge''\<rparr>)
   \<and> map entry_name (split_on 47 (utext ''/passwords/x'' @ 0 # utext ''purge''))
     = map unquote (split_on 47 (latin1_text (ascii ''/passwords/x%2Fpurge'')))"
proof -
  let ?routed = "sample_scope\<lparr>sc_path := utext ''/passwords/x'' @ 0 # utext ''purge''\<rparr>"
  have "retired_clients sample_scope = Passed sample_scope" "entry_name_paths sample_scope = Passed ?routed"
    by code_simp+
  moreover have "declared_length ?routed = Some 7"
    by (simp add: sample_scope_def declared_length_def parse_int_def strip_def is_space_def between_def ascii_def Let_def)
  then have "body_size_limit ?routed = Passed ?routed"
    by (simp add: body_size_limit_def sample_scope_def body_limit_for_def DEFAULT_MAX_BODY_BYTES_def MIB_def)
  ultimately have passed: "request_guards sample_scope = Passed ?routed"
    by (simp add: request_guards_def guard_then_def)
  have "sc_type sample_scope = ''http''" "sc_raw_path sample_scope = Some (ascii ''/passwords/x%2Fpurge'')"
    by (simp_all add: sample_scope_def)
  moreover have "0 \<notin> set (ascii ''/passwords/x%2Fpurge'')" "has_encoded_slash (ascii ''/passwords/x%2Fpurge'')"
    by code_simp+
  ultimately show ?thesis
    using slashes_stay_inside [OF passed] passed by simp
qed

text \<open>
  However a client sends the body of a request, in whatever pieces and with whatever length it
  declares, the application is given at most as many bytes as the limit of the route allows, also if
  it goes on receiving after an error; a body within the limit arrives unchanged, and a request that
  declares a larger one is refused with status 413.
\<close>

theorem bodies_are_limited:
  "given_bytes (limited_receives limit 0 ms) \<le> limit
   \<and> (sent_bytes ms \<le> limit \<longrightarrow> limited_receives limit 0 ms = map Some ms)
   \<and> (sc_type s = ''http'' \<and> declared_length s = Some n \<and> int (body_limit_for (sc_method s) (sc_path s)) < n
      \<longrightarrow> body_size_limit s = Refused 413)
   \<and> body_limit_for (sc_method s) (sc_path s) \<le> BACKUP_IMPORT_MAX_BODY_BYTES"
  using limited_receives_bound [of 0 limit ms] limited_receives_fits [of 0 ms limit]
  by (auto simp: body_size_limit_def body_limit_for_def ATTACHMENT_MAX_BODY_BYTES_def CSV_IMPORT_MAX_BODY_BYTES_def
      BACKUP_IMPORT_MAX_BODY_BYTES_def DEFAULT_MAX_BODY_BYTES_def)

theorem bodies_are_limited_witness:
  "limited_receives 3 0 [HttpRequest [1, 2] True, HttpRequest [3] False] =
     [Some (HttpRequest [1, 2] True), Some (HttpRequest [3] False)]
   \<and> body_size_limit (sample_scope\<lparr>sc_headers := [(ascii ''content-length'', ascii ''99999999'')]\<rparr>) = Refused 413"
proof -
  let ?s = "sample_scope\<lparr>sc_headers := [(ascii ''content-length'', ascii ''99999999'')]\<rparr>"
  have "sent_bytes [HttpRequest [1, 2] True, HttpRequest [3] False] \<le> 3"
    by (simp add: sent_bytes_def)
  moreover have "sc_type ?s = ''http''" "sc_method ?s = ''DELETE''" by (simp_all add: sample_scope_def)
  moreover have "declared_length ?s = Some 99999999"
    by (simp add: declared_length_def parse_int_def strip_def is_space_def between_def ascii_def Let_def)
  moreover have "int (body_limit_for ''DELETE'' (sc_path ?s)) < 99999999"
    by (simp add: body_limit_for_def DEFAULT_MAX_BODY_BYTES_def MIB_def)
  ultimately show ?thesis
    using bodies_are_limited [of 3 "[HttpRequest [1, 2] True, HttpRequest [3] False]" ?s 99999999] by simp
qed

text \<open>
  The access log never shows an entry's name: of a path with \<^verbatim>\<open>/passwords/\<close> in it that is not one
  of the literal routes, everything after the first such mark is replaced by a fixed placeholder and
  at most a known suffix of the entry routes; a query is replaced as well.
\<close>

theorem log_hides_names:
  assumes "63 \<notin> set (before @ rest)" and "10 \<notin> set (before @ rest)" and "rest \<noteq> []"
    and "\<not> contains passwords_mark (before @ butlast passwords_mark)"
    and "(http_method, rest) \<notin> set LITERAL_ROUTES"
  shows "\<exists>shown. (shown = utext ''{redacted}'' \<or> (\<exists>tail. known_suffix digit tail \<and> shown = utext ''{password_name}'' @ tail))
    \<and> redact_path digit http_method (before @ passwords_mark @ rest) = before @ passwords_mark @ shown
    \<and> redact_path digit http_method (before @ passwords_mark @ rest @ 63 # query)
        = before @ passwords_mark @ shown @ utext ''?{redacted}''"
proof -
  have mark: "63 \<notin> set passwords_mark" "10 \<notin> set passwords_mark"
    by (simp_all add: passwords_mark_def utext_def)
  let ?path = "before @ passwords_mark @ rest"
  have "chomp rest = rest" using assms(2,3) by (auto simp: chomp_def dest: last_in_set)
  then have entries: "match_entries ?path = Some (before @ passwords_mark, rest)"
    using assms(2,3) mark by (simp add: match_entries_def at_mark_first [OF assms(4)])
  have "\<And>c. c \<in> set ?path \<Longrightarrow> c \<noteq> 63" using assms(1) mark by auto
  then have path: "takeWhile (\<lambda>c. c \<noteq> 63) ?path = ?path" "takeWhile (\<lambda>c. c \<noteq> 63) (?path @ 63 # query) = ?path"
    using takeWhile_append2 [of ?path "\<lambda>c. c \<noteq> 63" "63 # query"] by (simp_all add: takeWhile_eq_all_conv)
  define shown where "shown = (case entry_suffix digit rest of
      Some tail \<Rightarrow> utext ''{password_name}'' @ tail | None \<Rightarrow> utext ''{redacted}'')"
  have redact: "redact_path digit http_method p = before @ passwords_mark @ shown
      @ (if 63 \<in> set p then utext ''?{redacted}'' else [])" if "takeWhile (\<lambda>c. c \<noteq> 63) p = ?path" for p
    using that assms(5) entries by (simp add: redact_path_def shown_def)
  have "redact_path digit http_method ?path = before @ passwords_mark @ shown"
    "redact_path digit http_method (?path @ 63 # query) = before @ passwords_mark @ shown @ utext ''?{redacted}''"
    using redact [OF path(1)] redact [OF path(2)] assms(1) mark by auto
  moreover have "shown = utext ''{redacted}'' \<or> (\<exists>tail. known_suffix digit tail \<and> shown = utext ''{password_name}'' @ tail)"
    by (auto simp: shown_def entry_suffix_def Let_def split: option.split if_splits)
  ultimately show ?thesis by (intro exI [of _ shown]) simp
qed

theorem log_hides_names_witness:
  "redact_path (\<lambda>c. 48 \<le> c \<and> c \<le> 57) ''DELETE'' (utext ''/api/passwords/bank/purge'') =
     utext ''/api/passwords/{password_name}/purge''
   \<and> (\<exists>shown. redact_path (\<lambda>c. 48 \<le> c \<and> c \<le> 57) ''DELETE'' (utext ''/api'' @ passwords_mark @ utext ''bank/purge'')
       = utext ''/api'' @ passwords_mark @ shown)"
proof -
  have "63 \<notin> set (utext ''/api'' @ utext ''bank/purge'')" "10 \<notin> set (utext ''/api'' @ utext ''bank/purge'')"
    "utext ''bank/purge'' \<noteq> []" "\<not> contains passwords_mark (utext ''/api'' @ butlast passwords_mark)"
    "(''DELETE'', utext ''bank/purge'') \<notin> set LITERAL_ROUTES"
    "redact_path (\<lambda>c. 48 \<le> c \<and> c \<le> 57) ''DELETE'' (utext ''/api/passwords/bank/purge'') =
       utext ''/api/passwords/{password_name}/purge''"
    by code_simp+
  with log_hides_names [of "utext ''/api''" "utext ''bank/purge''" "''DELETE''" "\<lambda>c. 48 \<le> c \<and> c \<le> 57"]
  show ?thesis by blast
qed

end
