(* ===== verification/Native_Files.thy ===== *)
theory Native_Files
  imports Core_Bridge Http_Guards Storage_Copies
begin

text \<open>
  Files chosen in the desktop shell (\<^verbatim>\<open>desktop/core/desktop_core/native_files.py\<close>): writing a backup to a
  new file and uploading a backup file, as programs over the file system of \<open>Files\<close>. The messages with
  which the application answers are an argument, and so are the random name of the partial file and
  the random boundary of the upload. \<open>StorageError\<close> stands for an exception that is no \<^verbatim>\<open>OSError\<close>;
  a write reaches the file at once.
\<close>

section \<open>Programs\<close>

text \<open>\<^verbatim>\<open>try: m finally: c\<close>\<close>

definition lastly :: "unit io \<Rightarrow> 'a io \<Rightarrow> 'a io" where
  "lastly c m w =
     (case m w of (t, r, w') \<Rightarrow>
        (case c w' of
           (t', Inl e, w'') \<Rightarrow> (t @ t', Inl e, w'')
         | (t', Inr _, w'') \<Rightarrow> (t @ t', r, w'')))"

definition tree_append :: "path \<Rightarrow> bytes \<Rightarrow> tree \<Rightarrow> tree option" where
  "tree_append p b t = (case contents t p of None \<Rightarrow> None | Some c \<Rightarrow> Some (t(p \<mapsto> File (c @ b))))"

text \<open>\<^verbatim>\<open>os.link\<close> never replaces; \<^verbatim>\<open>os.unlink\<close> needs a file.\<close>

definition tree_link :: "path \<Rightarrow> path \<Rightarrow> tree \<Rightarrow> tree option" where
  "tree_link p q t = (if is_file t p \<and> t q = None \<and> in_folder t q then Some (t(q := t p)) else None)"

definition tree_remove :: "path \<Rightarrow> tree \<Rightarrow> tree option" where
  "tree_remove p t = (if is_file t p then Some (t(p := None)) else None)"

definition CHUNK :: nat where "CHUNK = 256 * 1024"
definition MAX_BACKUP :: nat where "MAX_BACKUP = 1024 * 1024 * 1024"

section \<open>Export\<close>

text \<open>What \<^verbatim>\<open>call\<close> gives back: the status, and whether a file was saved.\<close>

type_synonym native_result = "nat \<times> bool"

text \<open>\<^verbatim>\<open>path.suffix != ".cmbackup"\<close>\<close>

definition backup_suffix :: "path \<Rightarrow> bool" where
  "backup_suffix p \<longleftrightarrow> p \<noteq> [] \<and> 9 < length (last p) \<and> drop (length (last p) - 9) (last p) = ''.cmbackup''"

text \<open>The application sends its messages; the body of a response with status 200 goes into the file.\<close>

fun export_messages :: "path \<Rightarrow> app_message list \<Rightarrow> reply \<Rightarrow> reply io" where
  "export_messages p [] s = give s"
| "export_messages p (m # ms) s =
     (case bridge_send True MAX_BACKUP m s of
        Inl e \<Rightarrow> fail StorageError
      | Inr s' \<Rightarrow>
          andDo (act (tree_append p (drop (length (rp_output s)) (rp_output s')))) (export_messages p ms s'))"

definition export_partial :: "path \<Rightarrow> path \<Rightarrow> app_message list \<Rightarrow> native_result io" where
  "export_partial p partial messages =
     thenDo (export_messages partial messages new_reply) (\<lambda>s.
       case rp_status s of
         None \<Rightarrow> fail StorageError
       | Some status \<Rightarrow>
           if status \<noteq> 200 then give (status, False)
           else andDo (sync partial)
               (andDo (act (tree_link partial p))
               (andDo (sync (butlast p)) (give (200, True)))))"

definition backup_export :: "path \<Rightarrow> path \<Rightarrow> app_message list \<Rightarrow> native_result io" where
  "backup_export p partial messages =
     looking (\<lambda>t.
       if \<not> backup_suffix p \<or> t p \<noteq> None then give (400, False)
       else andDo (act (tree_create partial))
              (lastly (act (tree_remove partial)) (export_partial p partial messages)))"

text \<open>\<^verbatim>\<open>call\<close>: an \<^verbatim>\<open>OSError\<close> is answered with status 400.\<close>

definition native_call :: "native_result io \<Rightarrow> native_result io" where
  "native_call m = rescue (\<lambda>e. if e = OSError then give (400, False) else fail e) m"

section \<open>Import\<close>

text \<open>\<^verbatim>\<open>chunks()\<close> between prefix and suffix; \<open>False\<close> when the file ends before its announced size.\<close>

function import_chunks :: "nat \<Rightarrow> bytes \<Rightarrow> bytes list \<times> bool" where
  "import_chunks remaining_bytes source =
     (if remaining_bytes = 0 then ([], True)
      else (let chunk = take (min CHUNK remaining_bytes) source
            in if chunk = [] then ([], False)
               else (case import_chunks (remaining_bytes - length chunk) (drop (length chunk) source) of
                       (cs, ok) \<Rightarrow> (chunk # cs, ok))))"
  by pat_completeness auto
termination
  by (relation "measure fst") (auto simp: CHUNK_def)

declare import_chunks.simps [simp del]

definition part_header :: "ustr \<Rightarrow> string \<Rightarrow> ustr" where
  "part_header boundary key =
     utext ''--'' @ boundary @ [13, 10] @ utext ''Content-Disposition: form-data; name='' @ [34] @ utext key @ [34, 13, 10, 13, 10]"

definition file_header :: "ustr \<Rightarrow> ustr" where
  "file_header boundary =
     utext ''--'' @ boundary @ [13, 10] @ utext ''Content-Disposition: form-data; name='' @ [34] @ utext ''file'' @ [34]
       @ utext ''; filename='' @ [34] @ utext ''vault.cmbackup'' @ [34, 13, 10]
       @ utext ''Content-Type: application/octet-stream'' @ [13, 10, 13, 10]"

definition form_field :: "(ustr \<times> json) list \<Rightarrow> ustr \<Rightarrow> string \<Rightarrow> error + bytes" where
  "form_field form boundary key =
     (case get form key of
        Some (JStr v) \<Rightarrow>
          andThen (ensure (length v \<le> 4096) ValueError) (\<lambda>_.
          utf8 (part_header boundary key @ v @ [13, 10]))
      | _ \<Rightarrow> Inl ValueError)"

definition form_prefix :: "(ustr \<times> json) list \<Rightarrow> ustr \<Rightarrow> error + bytes" where
  "form_prefix form boundary =
     andThen (form_field form boundary ''master_password'') (\<lambda>a.
     andThen (form_field form boundary ''on_conflict'') (\<lambda>b.
     andThen (utf8 (file_header boundary)) (\<lambda>c. Inr (a @ b @ c))))"

definition form_suffix :: "ustr \<Rightarrow> error + bytes" where
  "form_suffix boundary = utf8 ([13, 10] @ utext ''--'' @ boundary @ utext ''--'' @ [13, 10])"

text \<open>
  The upload of a regular file that announced \<open>st_size\<close> bytes and from which \<open>source\<close> is read: the declared
  length of the request, the pieces of its body, and whether the whole file was read. \<open>None\<close> is the
  refusal of a file that is too large or not regular.
\<close>

definition backup_import ::
    "(ustr \<times> json) list \<Rightarrow> ustr \<Rightarrow> bool \<Rightarrow> nat \<Rightarrow> bytes \<Rightarrow> error + (nat \<times> bytes list \<times> bool) option" where
  "backup_import form boundary regular st_size source =
     (if \<not> regular \<or> MAX_BACKUP < st_size then Inr None
      else
        andThen (form_prefix form boundary) (\<lambda>front.
        andThen (form_suffix boundary) (\<lambda>back.
        (case import_chunks st_size source of
           (cs, ok) \<Rightarrow>
             Inr (Some (length front + st_size + length back, front # cs @ (if ok then [back] else []), ok))))))"

section \<open>Lemmas on programs\<close>

lemma leads_lastly:
  assumes body: "leads J P m (\<lambda>x. only (K x)) (\<lambda>_. only J)"
    and "\<And>x t. K x t \<Longrightarrow> J t" and "\<And>x. keeps (K x) c" and "keeps J c"
  shows "leads J P (lastly c m) (\<lambda>x. only (K x)) (\<lambda>_. only J)"
  unfolding leads_def
proof (intro allI impI)
  fix w t r w'
  assume "P w" and run: "lastly c m w = (t, r, w')"
  obtain t1 r1 w1 where one: "m w = (t1, r1, w1)" by (cases "m w")
  obtain t2 r2 w2 where two: "c w1 = (t2, r2, w2)" by (cases "c w1")
  note first = leadsD [OF body \<open>P w\<close> one]
  have whole: "t = t1 @ t2" "w' = w2" "r = (case r2 of Inl e \<Rightarrow> Inl e | Inr _ \<Rightarrow> r1)"
    using run one two by (auto simp: lastly_def split: sum.splits)
  show "(\<forall>u \<in> set t. J u) \<and> (case r of Inl e \<Rightarrow> J (files w') | Inr x \<Rightarrow> K x (files w'))"
  proof (cases r1)
    case (Inl e)
    with first have "J (files w1)" by simp
    from leadsD [OF assms(4) [unfolded keeps_def] this two] first whole Inl show ?thesis
      by (auto split: sum.splits)
  next
    case (Inr x)
    with first have "K x (files w1)" by simp
    from leadsD [OF assms(3) [unfolded keeps_def] this two] first whole Inr assms(2) show ?thesis
      by (auto split: sum.splits)
  qed
qed

lemma leads_inside:
  assumes "leads I P m Q (\<lambda>_. only I)" and "\<And>t. I t \<Longrightarrow> J t"
  shows "leads J P m Q (\<lambda>_. only J)"
  unfolding leads_def
proof (intro allI impI)
  fix w t r w'
  assume "P w" "m w = (t, r, w')"
  from leadsD [OF assms(1) this] assms(2)
  show "(\<forall>u \<in> set t. J u) \<and> (case r of Inl e \<Rightarrow> J (files w') | Inr x \<Rightarrow> Q x w')" by (cases r) auto
qed

text \<open>A program of these operations leaves the list of failures as it is.\<close>

definition steady :: "'a io \<Rightarrow> bool" where
  "steady m \<longleftrightarrow> (\<forall>w. faults (snd (snd (m w))) = faults w)"

named_theorems steadily

lemma steady_give [steadily]: "steady (give x)" by (simp add: steady_def give_def)
lemma steady_fail [steadily]: "steady (fail e)" by (simp add: steady_def fail_def)
lemma steady_act [steadily]: "steady (act f)" by (auto simp: steady_def act_def Let_def split: option.split)
lemma steady_sync [steadily]: "steady (sync p)" by (simp add: sync_def steadily)
lemma steady_thenDo [steadily]: "steady m \<Longrightarrow> (\<And>x. steady (k x)) \<Longrightarrow> steady (thenDo m k)"
  by (auto simp: steady_def thenDo_def split: prod.split sum.split) (metis snd_conv)+

lemma steady_messages [steadily]: "steady (export_messages p ms s)"
  by (induction ms arbitrary: s) (auto intro!: steadily split: sum.split)

lemma steady_partial [steadily]: "steady (export_partial p partial messages)"
  unfolding export_partial_def by (auto intro!: steadily split: option.split)

section \<open>What an export keeps\<close>

text \<open>Nothing but the partial file changes, which holds what the application has sent so far.\<close>

abbreviation collecting :: "tree \<Rightarrow> path \<Rightarrow> bytes \<Rightarrow> tree \<Rightarrow> bool" where
  "collecting t\<^sub>0 partial b t \<equiv> untouched t\<^sub>0 {partial} t \<and> contents t partial = Some b"

lemma untouched_append: "keeps (untouched t\<^sub>0 {p}) (act (tree_append p b))"
  by (rule keeps_untouched_act) (auto simp: tree_append_def contents_def split: option.splits if_splits)

lemma output_grows:
  assumes "bridge_send to_file k m s = Inr s'"
  shows "rp_output s' = rp_output s @ drop (length (rp_output s)) (rp_output s')"
  using assms by (cases m) (auto simp: bridge_send_def Let_def result_simps split: if_splits)

lemma leads_append:
  "leads (untouched t\<^sub>0 {p}) (only (collecting t\<^sub>0 p b)) (act (tree_append p c))
     (\<lambda>_. only (collecting t\<^sub>0 p (b @ c))) (\<lambda>_. only (untouched t\<^sub>0 {p}))"
proof (rule leads_act)
  fix w t assume w: "only (collecting t\<^sub>0 p b) w" and t: "tree_append p c (files w) = Some t"
  then have "untouched t\<^sub>0 {p} t" using keeps_actD [OF untouched_append] by blast
  moreover have "contents t p = Some (b @ c)" using w t by (auto simp: tree_append_def contents_def split: option.splits)
  ultimately show "untouched t\<^sub>0 {p} t \<and> only (collecting t\<^sub>0 p (b @ c)) (w\<lparr>attempts := Suc (attempts w), files := t\<rparr>)"
    by simp
qed simp

lemma leads_messages:
  "leads (untouched t\<^sub>0 {p}) (only (collecting t\<^sub>0 p (rp_output s))) (export_messages p ms s)
     (\<lambda>s' w. fold_res (bridge_send True MAX_BACKUP) ms s = Inr s' \<and> collecting t\<^sub>0 p (rp_output s') (files w))
     (\<lambda>_. only (untouched t\<^sub>0 {p}))"
proof (induction ms arbitrary: s)
  case Nil
  show ?case by (auto intro: leads_give)
next
  case (Cons m ms)
  show ?case
  proof (cases "bridge_send True MAX_BACKUP m s")
    case (Inl e)
    then show ?thesis by (auto intro: leads_fail)
  next
    case (Inr s')
    have "leads (untouched t\<^sub>0 {p}) (only (collecting t\<^sub>0 p (rp_output s)))
        (act (tree_append p (drop (length (rp_output s)) (rp_output s'))))
        (\<lambda>_. only (collecting t\<^sub>0 p (rp_output s'))) (\<lambda>_. only (untouched t\<^sub>0 {p}))"
      using leads_append [of t\<^sub>0 p "rp_output s" "drop (length (rp_output s)) (rp_output s')"] output_grows [OF Inr]
      by simp
    from leads_thenDo [OF this Cons.IH] Inr show ?thesis by simp
  qed
qed

text \<open>The body that the application has sent when it returns.\<close>

definition exported :: "app_message list \<Rightarrow> bytes option" where
  "exported messages =
     (case fold_res (bridge_send True MAX_BACKUP) messages new_reply of
        Inl e \<Rightarrow> None
      | Inr s \<Rightarrow> if rp_status s = Some 200 then Some (rp_output s) else None)"

text \<open>In every file system on the way the chosen name is as it was, or it was free and has the whole backup.\<close>

definition exporting :: "tree \<Rightarrow> path \<Rightarrow> path \<Rightarrow> bytes option \<Rightarrow> tree \<Rightarrow> bool" where
  "exporting t\<^sub>0 p partial b t \<longleftrightarrow>
     untouched t\<^sub>0 {p, partial} t
     \<and> (contents t p = contents t\<^sub>0 p \<or> t\<^sub>0 p = None \<and> b \<noteq> None \<and> contents t p = b)"

definition export_done :: "tree \<Rightarrow> path \<Rightarrow> path \<Rightarrow> bytes option \<Rightarrow> native_result \<Rightarrow> tree \<Rightarrow> bool" where
  "export_done t\<^sub>0 p partial b r t \<longleftrightarrow>
     exporting t\<^sub>0 p partial b t \<and> (snd r \<longrightarrow> t\<^sub>0 p = None \<and> b \<noteq> None \<and> contents t p = b)
     \<and> (\<not> snd r \<longrightarrow> contents t p = contents t\<^sub>0 p)"

lemma export_doneD: "export_done t\<^sub>0 p partial b r t \<Longrightarrow> exporting t\<^sub>0 p partial b t"
  by (simp add: export_done_def)

lemma exporting_before:
  "\<not> prefix partial p \<Longrightarrow> untouched t\<^sub>0 {partial} t \<Longrightarrow> exporting t\<^sub>0 p partial b t \<and> contents t p = contents t\<^sub>0 p"
  by (auto simp: exporting_def untouched_def)

lemma linked:
  assumes "tree_link partial p t = Some t'" and "collecting t\<^sub>0 partial b t" and "\<not> prefix partial p" and "t\<^sub>0 p = None"
  shows "exporting t\<^sub>0 p partial (Some b) t' \<and> contents t' p = Some b"
proof -
  have "t' = t(p := t partial)" using assms(1) by (auto simp: tree_link_def split: if_splits)
  with assms(2-4) show ?thesis by (auto simp: exporting_def untouched_def contents_def)
qed

text \<open>The end of an export, once the application has answered with status 200.\<close>

lemma leads_saving:
  assumes apart: "\<not> prefix partial p" and free: "t\<^sub>0 p = None"
  shows "leads (exporting t\<^sub>0 p partial (Some b)) (only (collecting t\<^sub>0 partial b))
    (andDo (sync partial) (andDo (act (tree_link partial p)) (andDo (sync (butlast p)) (give (200, True)))))
    (\<lambda>r. only (export_done t\<^sub>0 p partial (Some b) r)) (\<lambda>_. only (exporting t\<^sub>0 p partial (Some b)))"
proof (rule then_stage [OF keeps_sync])
  fix t assume "collecting t\<^sub>0 partial b t"
  with exporting_before [OF apart] show "exporting t\<^sub>0 p partial (Some b) t" by blast
next
  let ?K = "\<lambda>t. exporting t\<^sub>0 p partial (Some b) t \<and> contents t p = Some b"
  have link: "leads (exporting t\<^sub>0 p partial (Some b)) (only (collecting t\<^sub>0 partial b)) (act (tree_link partial p))
      (\<lambda>_. only ?K) (\<lambda>_. only (exporting t\<^sub>0 p partial (Some b)))"
  proof (rule leads_act)
    fix w t assume "only (collecting t\<^sub>0 partial b) w" "tree_link partial p (files w) = Some t"
    with linked [OF this(2,1) apart free]
    show "exporting t\<^sub>0 p partial (Some b) t \<and> only ?K (w\<lparr>attempts := Suc (attempts w), files := t\<rparr>)" by simp
  next
    fix w assume "only (collecting t\<^sub>0 partial b) w"
    with exporting_before [OF apart] show "only (exporting t\<^sub>0 p partial (Some b)) (w\<lparr>attempts := Suc (attempts w)\<rparr>)"
      by simp
  qed
  show "leads (exporting t\<^sub>0 p partial (Some b)) (only (collecting t\<^sub>0 partial b))
      (andDo (act (tree_link partial p)) (andDo (sync (butlast p)) (give (200, True))))
      (\<lambda>r. only (export_done t\<^sub>0 p partial (Some b) r)) (\<lambda>_. only (exporting t\<^sub>0 p partial (Some b)))"
    by (rule leads_thenDo [OF link], rule then_stage [OF keeps_sync])
      (auto simp: export_done_def free intro: leads_give)
qed

lemma leads_export_partial:
  assumes apart: "\<not> prefix partial p" and free: "t\<^sub>0 p = None"
  shows "leads (exporting t\<^sub>0 p partial (exported messages)) (only (collecting t\<^sub>0 partial []))
    (export_partial p partial messages) (\<lambda>r. only (export_done t\<^sub>0 p partial (exported messages) r))
    (\<lambda>_. only (exporting t\<^sub>0 p partial (exported messages)))"
proof -
  let ?J = "exporting t\<^sub>0 p partial (exported messages)"
  let ?M = "\<lambda>s w. fold_res (bridge_send True MAX_BACKUP) messages new_reply = Inr s \<and> collecting t\<^sub>0 partial (rp_output s) (files w)"
  note before = exporting_before [OF apart]
  have start: "rp_output new_reply = []" by (simp add: new_reply_def)
  have messages: "leads ?J (only (collecting t\<^sub>0 partial [])) (export_messages partial messages new_reply) ?M (\<lambda>_. only ?J)"
    by (rule leads_inside [OF leads_messages [of t\<^sub>0 partial new_reply messages, unfolded start]])
      (use before in blast)
  show ?thesis
    unfolding export_partial_def
  proof (rule leads_thenDo [OF messages])
    fix s
    show "leads ?J (?M s) (case rp_status s of None \<Rightarrow> fail StorageError
        | Some status \<Rightarrow> if status \<noteq> 200 then give (status, False)
           else andDo (sync partial) (andDo (act (tree_link partial p)) (andDo (sync (butlast p)) (give (200, True)))))
        (\<lambda>r. only (export_done t\<^sub>0 p partial (exported messages) r)) (\<lambda>_. only ?J)"
    proof (cases "fold_res (bridge_send True MAX_BACKUP) messages new_reply = Inr s \<and> rp_status s = Some 200")
      case True
      then have "exported messages = Some (rp_output s)" by (simp add: exported_def)
      with leads_saving [of partial p t\<^sub>0 "rp_output s", OF apart free] True show ?thesis
        by simp
    next
      case False
      then consider "fold_res (bridge_send True MAX_BACKUP) messages new_reply \<noteq> Inr s" | "rp_status s = None"
        | status where "rp_status s = Some status" "status \<noteq> 200"
        by (cases "rp_status s") auto
      then show ?thesis
      proof cases
        case 1
        then show ?thesis by (simp add: leads_def)
      next
        case 2
        show ?thesis unfolding 2 option.case by (rule leads_fail) (use before in blast)
      next
        case (3 status)
        show ?thesis unfolding 3 option.case if_P [OF 3(2)]
          by (rule leads_give) (use before in \<open>simp add: export_done_def\<close>)
      qed
    qed
  qed
qed

lemma keeps_remove:
  "p \<noteq> partial \<Longrightarrow> keeps (exporting t\<^sub>0 p partial b) (act (tree_remove partial))"
  "p \<noteq> partial \<Longrightarrow> keeps (export_done t\<^sub>0 p partial b r) (act (tree_remove partial))"
proof -
  assume p: "p \<noteq> partial"
  have "untouched t\<^sub>0 {p, partial} t' \<and> contents t' p = contents t p"
    if "untouched t\<^sub>0 {p, partial} t" "tree_remove partial t = Some t'" for t t'
    using that p by (auto simp: tree_remove_def untouched_def contents_def split: if_splits)
  then show "keeps (exporting t\<^sub>0 p partial b) (act (tree_remove partial))"
    "keeps (export_done t\<^sub>0 p partial b r) (act (tree_remove partial))"
    by (auto intro!: keeps_act simp: exporting_def export_done_def)
qed

lemma leads_backup_export:
  assumes apart: "\<not> prefix partial p" and new: "t\<^sub>0 partial = None"
  shows "leads (exporting t\<^sub>0 p partial (exported messages)) (\<lambda>w. files w = t\<^sub>0) (backup_export p partial messages)
    (\<lambda>r. only (export_done t\<^sub>0 p partial (exported messages) r)) (\<lambda>_. only (exporting t\<^sub>0 p partial (exported messages)))"
  unfolding backup_export_def
proof (rule leads_looking, rule leads_if)
  fix t :: tree
  show "leads (exporting t\<^sub>0 p partial (exported messages)) (\<lambda>w. files w = t\<^sub>0 \<and> files w = t) (give (400, False))
      (\<lambda>r. only (export_done t\<^sub>0 p partial (exported messages) r)) (\<lambda>_. only (exporting t\<^sub>0 p partial (exported messages)))"
    by (rule leads_give) (auto simp: export_done_def exporting_def)
next
  fix t :: tree assume c: "\<not> (\<not> backup_suffix p \<or> t p \<noteq> None)"
  let ?J = "exporting t\<^sub>0 p partial (exported messages)"
  have p: "p \<noteq> partial" using apart by auto
  have create: "leads ?J (\<lambda>w. files w = t\<^sub>0 \<and> files w = t) (act (tree_create partial)) (\<lambda>_. only (collecting t\<^sub>0 partial [])) (\<lambda>_. only ?J)"
    by (rule leads_act) (auto simp: tree_create_def exporting_def untouched_def contents_def p split: if_splits)
  show "leads ?J (\<lambda>w. files w = t\<^sub>0 \<and> files w = t)
      (andDo (act (tree_create partial)) (lastly (act (tree_remove partial)) (export_partial p partial messages)))
      (\<lambda>r. only (export_done t\<^sub>0 p partial (exported messages) r)) (\<lambda>_. only ?J)"
  proof (cases "t\<^sub>0 = t")
    case True
    with c have free: "t\<^sub>0 p = None" by simp
    show ?thesis
      by (rule leads_thenDo [OF create],
          rule leads_lastly [OF leads_export_partial [of partial p t\<^sub>0 messages, OF apart free]])
        (erule export_doneD, (rule keeps_remove [OF p])+)
  qed (auto simp: leads_def)
qed

text \<open>With no failure the partial file is gone in the end.\<close>

lemma keeps_file_append: "keeps (\<lambda>t. is_file t q) (act (tree_append p b))"
  by (rule keeps_act) (auto simp: tree_append_def is_file_def split: option.splits if_splits)

lemma keeps_file_messages: "keeps (\<lambda>t. is_file t q) (export_messages p ms s)"
proof (induction ms arbitrary: s)
  case (Cons m ms)
  then show ?case by (auto intro!: keeps_thenDo keeps_file_append keeping split: sum.split)
qed (simp add: keeping)

lemma keeps_file_partial: "keeps (\<lambda>t. is_file t q) (export_partial p partial messages)"
proof -
  have "keeps (\<lambda>t. is_file t q) (act (tree_link partial p))"
    by (rule keeps_act) (auto simp: tree_link_def is_file_def split: if_splits)
  then show ?thesis
    unfolding export_partial_def
    by (auto intro!: keeps_thenDo keeps_file_messages keeping split: option.split)
qed

lemma lastly_removes:
  assumes "steady m" and "keeps (\<lambda>t. is_file t q) m" and "is_file (files w) q" and "\<And>n. \<not> faults w n"
    and run: "lastly (act (tree_remove q)) m w = (t, r, w')"
  shows "files w' q = None"
proof -
  obtain t1 r1 w1 where one: "m w = (t1, r1, w1)" by (cases "m w")
  have "faults w1 = faults w" using assms(1) one by (metis snd_conv steady_def)
  moreover have "is_file (files w1) q"
    using leadsD [OF assms(2) [unfolded keeps_def] assms(3) one] by (cases r1) auto
  ultimately show ?thesis
    using run one assms(4) by (auto simp: lastly_def act_def tree_remove_def Let_def)
qed

lemma export_cleans_up:
  assumes new: "files w partial = None" and none: "\<And>n. \<not> faults w n"
    and run: "backup_export p partial messages w = (t, r, w')"
  shows "files w' partial = None"
proof (cases "\<not> backup_suffix p \<or> files w p \<noteq> None")
  case True
  with run new show ?thesis by (auto simp: backup_export_def looking_def give_def)
next
  case False
  obtain t1 r1 w1 where create: "act (tree_create partial) w = (t1, r1, w1)" by (cases "act (tree_create partial) w")
  with False run have chain: "(case r1 of Inl e \<Rightarrow> (t1, Inl e, w1) | Inr _ \<Rightarrow>
      (case lastly (act (tree_remove partial)) (export_partial p partial messages) w1 of (t2, r2, w2) \<Rightarrow> (t1 @ t2, r2, w2))) = (t, r, w')"
    by (auto simp: backup_export_def looking_def thenDo_def split: sum.split)
  show ?thesis
  proof (cases r1)
    case (Inl e)
    with chain create new show ?thesis by (auto simp: act_def Let_def split: option.splits if_splits)
  next
    case (Inr u)
    then have "is_file (files w1) partial" and w1: "faults w1 = faults w"
      using create by (auto simp: act_def Let_def tree_create_def is_file_def split: option.splits if_splits)
    moreover obtain t2 r2 where "lastly (act (tree_remove partial)) (export_partial p partial messages) w1 = (t2, r2, w')"
      using chain Inr by (auto split: prod.splits)
    ultimately show ?thesis
      using lastly_removes [OF steady_partial keeps_file_partial] none by metis
  qed
qed

section \<open>What an import sends\<close>

lemma import_chunks_whole:
  "n \<le> length source \<Longrightarrow> \<exists>cs. import_chunks n source = (cs, True) \<and> concat cs = take n source"
proof (induction n source rule: import_chunks.induct)
  case (1 n source)
  show ?case
  proof (cases "n = 0")
    case False
    define chunk where "chunk = take (min CHUNK n) source"
    have len: "length chunk = min CHUNK n" using "1.prems" by (simp add: chunk_def)
    then have ne: "chunk \<noteq> []" using False by (auto simp: CHUNK_def)
    have "n - length chunk \<le> length (drop (length chunk) source)"
      using "1.prems" len by simp
    from "1.IH" [OF False chunk_def ne this] obtain cs where
      cs: "import_chunks (n - length chunk) (drop (length chunk) source) = (cs, True)"
      "concat cs = take (n - length chunk) (drop (length chunk) source)" by blast
    have "take n source = chunk @ take (n - length chunk) (drop (length chunk) source)"
      using len by (simp add: chunk_def take_add [symmetric] min_def)
    with cs ne False show ?thesis
      by (subst import_chunks.simps) (simp add: Let_def chunk_def [symmetric])
  qed (simp add: import_chunks.simps)
qed

lemma import_chunks_short:
  "length source < n \<Longrightarrow> snd (import_chunks n source) = False"
proof (induction n source rule: import_chunks.induct)
  case (1 n source)
  define chunk where "chunk = take (min CHUNK n) source"
  have n: "n \<noteq> 0" using "1.prems" by simp
  show ?case
  proof (cases "chunk = []")
    case True
    with n show ?thesis by (subst import_chunks.simps) (simp add: Let_def chunk_def [symmetric])
  next
    case False
    have "length (drop (length chunk) source) < n - length chunk"
      using "1.prems" by (auto simp: chunk_def)
    from "1.IH" [OF n chunk_def False this] n False show ?thesis
      by (subst import_chunks.simps) (simp add: Let_def chunk_def [symmetric] case_prod_beta)
  qed
qed

lemma utf8_length: "utf8 s = Inr b \<Longrightarrow> length b \<le> 4 * length s"
proof (induction s arbitrary: b)
  case (Cons c cs)
  then obtain x y where "utf8_char c = Some x" "utf8 cs = Inr y" "b = x @ y" by (auto simp: result_simps)
  moreover from this(1) have "length x \<le> 4" by (auto simp: utf8_char_def split: if_splits)
  ultimately show ?case using Cons.IH [of y] by simp
qed simp

lemma form_field_length:
  assumes "form_field form boundary key = Inr b" and "length boundary = 42" and "length key \<le> 20"
  shows "length b \<le> 4 * 4210"
proof -
  obtain v where "length v \<le> 4096" "utf8 (part_header boundary key @ v @ [13, 10]) = Inr b"
    using assms(1) by (auto simp: form_field_def result_simps split: option.splits json.splits)
  with utf8_length [OF this(2)] assms(2,3) show ?thesis
    by (simp add: part_header_def utext_def)
qed

lemma form_length:
  assumes "form_prefix form boundary = Inr front" and "form_suffix boundary = Inr back" and "length boundary = 42"
  shows "length front + length back \<le> MIB"
proof -
  from assms(1) obtain a b c where "form_field form boundary ''master_password'' = Inr a"
    "form_field form boundary ''on_conflict'' = Inr b" and c: "utf8 (file_header boundary) = Inr c"
    and "front = a @ b @ c"
    by (auto simp: form_prefix_def result_simps)
  moreover have "length c \<le> 1000" using utf8_length [OF c] assms(3) by (simp add: file_header_def utext_def)
  moreover have "length back \<le> 1000"
    using utf8_length [OF assms(2) [unfolded form_suffix_def]] assms(3) by (simp add: utext_def)
  ultimately show ?thesis
    using form_field_length [of form boundary "''master_password''" a] form_field_length [of form boundary "''on_conflict''" b]
      assms(3) by (simp add: MIB_def)
qed

section \<open>Properties\<close>

text \<open>
  C26: Saving a backup from the desktop shell never damages a file, whatever fails and wherever the
  process is killed. In every file system on the way the chosen name is as it was, or it was free and
  has the whole backup; no other file changes but the partial one. When the shell is told that the
  backup is saved, the whole body that the application sent is there. Unless the operating system
  fails, the partial file is gone in the end.
\<close>

theorem export_is_safe:
  assumes "native_call (backup_export p partial messages) w = (trace, r, w')"
    and "\<not> prefix partial p" and "files w partial = None" and "t \<in> set trace \<union> {files w'}"
  shows "(contents t p = contents (files w) p
      \<or> files w p = None \<and> exported messages \<noteq> None \<and> contents t p = exported messages)
    \<and> (\<forall>q. \<not> prefix p q \<and> \<not> prefix partial q \<longrightarrow> contents t q = contents (files w) q)
    \<and> (\<forall>status. r = Inr (status, True) \<longrightarrow> files w p = None \<and> exported messages \<noteq> None \<and> contents (files w') p = exported messages)
    \<and> ((\<forall>n. \<not> faults w n) \<longrightarrow> files w' partial = None)"
proof -
  obtain r1 where export: "backup_export p partial messages w = (trace, r1, w')"
    and r: "r = r1 \<or> (r1 = Inl OSError \<and> r = Inr (400, False))"
    using assms(1) by (auto simp: native_call_def rescue_def give_def fail_def split: prod.splits sum.splits if_splits)
  have run: "(\<forall>u \<in> set trace. exporting (files w) p partial (exported messages) u)
      \<and> (case r1 of Inl e \<Rightarrow> exporting (files w) p partial (exported messages) (files w')
         | Inr x \<Rightarrow> export_done (files w) p partial (exported messages) x (files w'))"
    by (rule leadsD [OF leads_backup_export [of partial p "files w" messages, OF assms(2,3)] refl export])
  then have "exporting (files w) p partial (exported messages) (files w')"
    by (auto simp: export_done_def split: sum.splits)
  with run assms(4) have "exporting (files w) p partial (exported messages) t" by auto
  moreover have "files w p = None \<and> exported messages \<noteq> None \<and> contents (files w') p = exported messages"
    if "r = Inr (status, True)" for status
    using that r run by (auto simp: export_done_def)
  moreover have "(\<forall>n. \<not> faults w n) \<longrightarrow> files w' partial = None"
    using export_cleans_up [OF assms(3) _ export] by blast
  ultimately show ?thesis by (auto simp: exporting_def untouched_def)
qed

text \<open>
  C27: Uploading a backup file declares exactly what it sends. Of a regular file within the size limit
  that is as long as it announced, the pieces of the body are the form, the file and the end of the
  form, their length is the declared one, and the limit of the import route does not refuse it; a
  file that shrinks meanwhile is never passed off as complete.
\<close>

theorem upload_is_exact:
  assumes "backup_import form boundary regular st_size source = Inr (Some (declared, pieces, sent_all))"
    and "length boundary = 42"
  shows "regular \<and> declared \<le> body_limit_for ''POST'' (utext ''/api/passwords/import'')
    \<and> sent_all = (st_size \<le> length source)
    \<and> (sent_all \<longrightarrow> length (concat pieces) = declared
        \<and> (\<exists>front back. form_prefix form boundary = Inr front \<and> form_suffix boundary = Inr back
             \<and> concat pieces = front @ take st_size source @ back))"
proof -
  obtain cs ok where chunks: "import_chunks st_size source = (cs, ok)" by fastforce
  have regular: "regular" "st_size \<le> MAX_BACKUP"
    using assms(1) by (simp_all add: backup_import_def split: if_splits)
  then obtain front rear where parts: "form_prefix form boundary = Inr front" "form_suffix boundary = Inr rear"
    and out: "declared = length front + st_size + length rear" "pieces = front # cs @ (if ok then [rear] else [])" "sent_all = ok"
    using assms(1) by (auto simp: backup_import_def result_simps chunks)
  note cs = chunks [folded out(3)]
  have "\<not> attachments_route (utext ''/api/passwords/import'')" "\<not> ends_with ''/passwords/import/csv'' (utext ''/api/passwords/import'')"
    "ends_with ''/passwords/import'' (utext ''/api/passwords/import'')"
    by code_simp+
  then have limit: "body_limit_for ''POST'' (utext ''/api/passwords/import'') = BACKUP_IMPORT_MAX_BODY_BYTES"
    by (simp add: body_limit_for_def)
  have whole: "sent_all = (st_size \<le> length source)"
    using import_chunks_whole [of st_size source] import_chunks_short [of source st_size] cs by (cases "st_size \<le> length source") auto
  have "concat cs = take st_size source" if "sent_all"
    using import_chunks_whole [of st_size source] that whole cs by auto
  then show ?thesis
    using parts regular out(1) out(2) [folded out(3)] whole form_length [OF parts assms(2)] limit
    by (auto simp: BACKUP_IMPORT_MAX_BODY_BYTES_def MAX_BACKUP_def MIB_def)
qed

text \<open>A folder in which a backup of two bytes is saved, and an upload of it.\<close>

definition sample_disk :: world where
  "sample_disk = \<lparr>files = [[] \<mapsto> Folder, [''a.cmbackup''] \<mapsto> File [9]], faults = \<lambda>_. False, attempts = 0, locked = False\<rparr>"

definition sample_messages :: "app_message list" where
  "sample_messages = [ResponseStart 200 [], ResponseBody [1] True, ResponseBody [2] False]"

theorem export_is_safe_witness:
  "case native_call (backup_export [''b.cmbackup''] [''partial''] sample_messages) sample_disk of (trace, r, w') \<Rightarrow>
     r = Inr (200, True) \<and> contents (files w') [''b.cmbackup''] = Some [1, 2] \<and> files w' [''partial''] = None
     \<and> contents (files w') [''a.cmbackup''] = Some [9]"
proof -
  let ?run = "native_call (backup_export [''b.cmbackup''] [''partial''] sample_messages) sample_disk"
  have saved: "fst (snd ?run) = Inr (200, True)"
    by (simp add: native_call_def backup_export_def rescue_def looking_def sample_disk_def sample_messages_def backup_suffix_def
        thenDo_def act_def tree_create_def in_folder_def lastly_def export_partial_def bridge_send_def new_reply_def ensure_def
        MAX_BACKUP_def tree_append_def contents_def give_def sync_def tree_link_def is_file_def tree_remove_def Let_def)
  have out: "exported sample_messages = Some [1, 2]"
    by (simp add: exported_def sample_messages_def bridge_send_def new_reply_def ensure_def MAX_BACKUP_def Let_def)
  have run: "?run = (fst ?run, fst (snd ?run), snd (snd ?run))" by simp
  have "files sample_disk [''partial''] = None" "\<forall>n. \<not> faults sample_disk n"
    "contents (files sample_disk) [''a.cmbackup''] = Some [9]"
    by (simp_all add: sample_disk_def contents_def)
  with export_is_safe [OF run, of "files (snd (snd ?run))"] saved out show ?thesis
    by (simp add: case_prod_beta)
qed

definition sample_boundary :: ustr where "sample_boundary = replicate 42 97"

theorem upload_is_exact_witness:
  "case backup_import [(utext ''master_password'', JStr []), (utext ''on_conflict'', JStr [])] sample_boundary True 2 [1, 2] of
     Inr (Some (declared, pieces, sent_all)) \<Rightarrow> sent_all \<and> length (concat pieces) = declared
   | _ \<Rightarrow> False"
proof -
  let ?form = "[(utext ''master_password'', JStr []), (utext ''on_conflict'', JStr [])]"
  let ?run = "backup_import ?form sample_boundary True 2 [1, 2]"
  have random: "list_all (\<lambda>c. c < 128) sample_boundary" by (auto simp: sample_boundary_def list_all_iff)
  have plain: "is_ok (utf8 s)" if "list_all (\<lambda>c. c < 128) s" for s
    using that by (induction s) (auto simp: utf8_char_def is_ok_iff)
  have field_ok: "is_ok (form_field ?form sample_boundary key)" if "key = ''master_password'' \<or> key = ''on_conflict''" for key
  proof -
    have "list_all (\<lambda>c. c < 128) (part_header sample_boundary key @ [13, 10])"
      using that by (auto simp: part_header_def utext_def random)
    from plain [OF this] that show ?thesis
      by (auto simp: form_field_def get_def utext_def)
  qed
  obtain a where a: "form_field ?form sample_boundary ''master_password'' = Inr a"
    using field_ok [OF disjI1 [OF refl]] unfolding is_ok_iff by blast
  obtain b where b: "form_field ?form sample_boundary ''on_conflict'' = Inr b"
    using field_ok [OF disjI2 [OF refl]] unfolding is_ok_iff by blast
  have "is_ok (utf8 (file_header sample_boundary))"
    by (rule plain) (simp add: file_header_def utext_def random)
  then obtain c where c: "utf8 (file_header sample_boundary) = Inr c" unfolding is_ok_iff by blast
  have "is_ok (form_suffix sample_boundary)"
    unfolding form_suffix_def by (rule plain) (simp add: utext_def random)
  then obtain rear where rear: "form_suffix sample_boundary = Inr rear" unfolding is_ok_iff by blast
  have front: "form_prefix ?form sample_boundary = Inr (a @ b @ c)"
    unfolding form_prefix_def a b c by simp
  obtain cs where cs: "import_chunks 2 [1, 2] = (cs, True)"
    using import_chunks_whole [of 2 "[1, 2]"] by auto
  have "\<not> MAX_BACKUP < 2" by (simp add: MAX_BACKUP_def)
  then have run: "?run = Inr (Some (length (a @ b @ c) + 2 + length rear, (a @ b @ c) # cs @ [rear], True))"
    unfolding backup_import_def front rear cs by simp
  have "length sample_boundary = 42" by (simp add: sample_boundary_def)
  from upload_is_exact [OF run this] run show ?thesis by simp
qed

end
