(* ===== verification/Legacy_Import.thy ===== *)
theory Legacy_Import
  imports Core_Server Restore_Safety
begin

text \<open>
  Backup ZIPs of earlier releases (the rest of \<^verbatim>\<open>crud/backup.py\<close>): the import of the JSON in a ZIP of
  version 2.0, and of a migration archive of the multi-user fork, which also carries trash, history,
  attachments and shares. The reader of ZIP files, the JSON decoder, the type checks of pydantic,
  \<^verbatim>\<open>base64.b64decode\<close> (URL-safe, strict) and \<^verbatim>\<open>str\<close> of a JSON value are arguments. A repeated name
  is searched with \<open>unique_name\<close>, which may not end; then there is no value.
\<close>

section \<open>The archive\<close>

record legacy_share =
  ls_username :: ustr
  ls_role :: user_role
  ls_permission :: share_permission

record 't legacy_attachment =
  la_filename :: ustr
  la_content_type :: "ustr option"
  la_data :: ustr
  la_created :: 't

text \<open>\<^verbatim>\<open>LegacyMigrationEntry\<close> has the keys of an entry document and these.\<close>

record 't legacy_entry =
  le_id :: int
  le_owner :: ustr
  le_document :: entry_document
  le_created :: 't
  le_updated :: 't
  le_deleted :: "'t option"
  le_shares :: "legacy_share list"
  le_attachments :: "'t legacy_attachment list"

record legacy_codec =
  read_zip :: "bytes \<Rightarrow> ustr \<Rightarrow> nat \<Rightarrow> error + bytes"
  json_of :: "bytes \<Rightarrow> error + json"
  dec_legacy_entry :: "json \<Rightarrow> json_time legacy_entry option"
  b64_decode :: "bytes \<Rightarrow> error + bytes"
  py_str :: "json \<Rightarrow> ustr"

definition MAX_LEGACY_JSON_BYTES :: nat where "MAX_LEGACY_JSON_BYTES = 64 * 1024 * 1024"
definition MAX_LEGACY_FILE_BYTES :: nat where "MAX_LEGACY_FILE_BYTES = MAX_LEGACY_JSON_BYTES + 1024 * 1024"
definition LEGACY_MAGIC :: bytes where "LEGACY_MAGIC = [80, 75, 3, 4]"

definition check_legacy_attachment :: "json_time legacy_attachment \<Rightarrow> error + time legacy_attachment" where
  "check_legacy_attachment a =
     andThen (require_unicode_text (la_filename a)) (\<lambda>_.
     andThen (optional require_unicode_text (la_content_type a)) (\<lambda>_.
     andThen (require_unicode_text (la_data a)) (\<lambda>_.
     andThen (ensure (int (length (la_data a)) \<le> 4 * ((MAX_ATTACHMENT_FRAME_BYTES + 2) div 3)) ValueError) (\<lambda>_.
     andThen (utc_time (la_created a)) (\<lambda>created.
     Inr \<lparr>la_filename = la_filename a, la_content_type = la_content_type a, la_data = la_data a, la_created = created\<rparr>)))))"

text \<open>The fields of the document and the times are checked as those of \<^verbatim>\<open>BackupEntry\<close>.\<close>

definition check_legacy_entry :: "backup_codec \<Rightarrow> json_time legacy_entry \<Rightarrow> error + time legacy_entry" where
  "check_legacy_entry B e =
     andThen (ensure (0 < le_id e) ValueError) (\<lambda>_.
     andThen (require_unicode_text (le_owner e)) (\<lambda>_.
     andThen (check_backup_entry B \<lparr>be_document = le_document e, be_folder_uid = None, be_created = le_created e,
         be_updated = le_updated e, be_deleted = le_deleted e, be_attachments = []\<rparr>) (\<lambda>b.
     andThen (map_res (\<lambda>s. require_unicode_text (ls_username s)) (le_shares e)) (\<lambda>_.
     andThen (ensure (length (le_attachments e) \<le> MAX_ATTACHMENTS_PER_ENTRY) ValueError) (\<lambda>_.
     andThen (map_res check_legacy_attachment (le_attachments e)) (\<lambda>as.
     Inr \<lparr>le_id = le_id e, le_owner = le_owner e, le_document = be_document b, le_created = be_created b,
       le_updated = be_updated b, le_deleted = be_deleted b, le_shares = le_shares e, le_attachments = as\<rparr>))))))"

definition migration_attachment_data :: "legacy_codec \<Rightarrow> 't legacy_attachment \<Rightarrow> error + bytes" where
  "migration_attachment_data L a =
     andThen (ensure (ascii_text (la_data a)) InvalidRequest) (\<lambda>_.
     let encoded = map word_of_nat (la_data a)
     in andThen (catching as_invalid (b64_decode L (encoded @ replicate ((4 - length encoded mod 4) mod 4) 61))) (\<lambda>content.
        andThen (ensure (content \<noteq> [] \<and> int (length content) \<le> MAX_ATTACHMENT_FRAME_BYTES) InvalidRequest) (\<lambda>_.
        Inr content)))"

section \<open>What an archive must satisfy\<close>

definition parse_migration :: "legacy_codec \<Rightarrow> backup_codec \<Rightarrow> json list \<Rightarrow> error + time legacy_entry list" where
  "parse_migration L B listed_items =
     andThen (ensure (int (length listed_items) \<le> MAX_FRAMES - 1) InvalidRequest) (\<lambda>_.
     andThen (catching as_invalid (map_res (\<lambda>item. andThen (orElse (dec_legacy_entry L item) ValueError) (check_legacy_entry B)) listed_items)) (\<lambda>parsed.
     andThen (ensure (distinct (map le_id parsed)) InvalidRequest) (\<lambda>_. Inr parsed)))"

definition owner_username :: "nat option \<Rightarrow> db \<Rightarrow> ustr option" where
  "owner_username owner d = Option.bind owner (\<lambda>i. map_option u_username (get_user d i))"

definition check_owner :: "nat option \<Rightarrow> db \<Rightarrow> 't legacy_entry list \<Rightarrow> error + unit" where
  "check_owner owner d parsed =
     ensure (case owner_username owner d of None \<Rightarrow> False | Some name \<Rightarrow> set (map le_owner parsed) = {name}) Forbidden"

text \<open>\<^verbatim>\<open>targets\<close>: the active account of a name.\<close>

definition share_target :: "db \<Rightarrow> ustr \<Rightarrow> user_row option" where
  "share_target d name = find (\<lambda>u. u_username u = name \<and> u_active u) (users d)"

definition check_share :: "nat option \<Rightarrow> db \<Rightarrow> legacy_share \<Rightarrow> ustr list \<Rightarrow> error + ustr list" where
  "check_share owner d s seen =
     (case share_target d (ls_username s) of
        None \<Rightarrow> Inl InvalidRequest
      | Some u \<Rightarrow>
          andThen (ensure (\<not> (ls_username s \<in> set seen \<or> Some (u_id u) = owner)) InvalidRequest) (\<lambda>_.
          andThen (ensure (u_role u = ls_role s) InvalidRequest) (\<lambda>_. Inr (ls_username s # seen))))"

definition check_shares :: "nat option \<Rightarrow> db \<Rightarrow> 't legacy_entry list \<Rightarrow> error + unit" where
  "check_shares owner d parsed =
     andThen (ensure (\<forall>e \<in> set parsed. \<forall>s \<in> set (le_shares e). share_target d (ls_username s) \<noteq> None) InvalidRequest) (\<lambda>_.
     andThen (map_res (\<lambda>e. fold_res (check_share owner d) (le_shares e) []) parsed) (\<lambda>_. Inr ()))"

section \<open>One entry of an archive\<close>

text \<open>\<open>mg_taken\<close>, \<open>mg_seen\<close> and \<open>mg_grants\<close> are \<^verbatim>\<open>taken\<close>, \<^verbatim>\<open>seen_active\<close> and \<^verbatim>\<open>grant_count\<close>.\<close>

record migration_state =
  mg_restore :: restore_state
  mg_taken :: "bytes cell list"
  mg_seen :: "bytes list"
  mg_renamed :: "import_report list"
  mg_grants :: nat

definition migrated_attachment :: "primitives \<Rightarrow> time legacy_attachment \<Rightarrow> bytes \<Rightarrow> time backup_attachment" where
  "migrated_attachment P a content =
     \<lparr>ba_filename = la_filename a, ba_content_type = la_content_type a, ba_size = int (length content),
      ba_sha256 = hex (p_sha256 P content), ba_created = la_created a\<rparr>"

definition migrated_entry :: "primitives \<Rightarrow> time legacy_entry \<Rightarrow> bytes list \<Rightarrow> time backup_entry" where
  "migrated_entry P source contents =
     \<lparr>be_document = le_document source, be_folder_uid = None, be_created = le_created source,
      be_updated = le_updated source, be_deleted = le_deleted source,
      be_attachments = map (\<lambda>(a, c). migrated_attachment P a c) (zip (le_attachments source) contents)\<rparr>"

definition migration_contents :: "legacy_codec \<Rightarrow> 't legacy_entry \<Rightarrow> error + bytes list" where
  "migration_contents L source =
     andThen (map_res (migration_attachment_data L) (le_attachments source)) (\<lambda>contents.
     andThen (ensure (int (sum_list (map length contents)) \<le> MAX_MIGRATED_TOTAL_ATTACHMENT_BYTES) InvalidRequest) (\<lambda>_.
     Inr contents))"

definition rename_to :: "ustr \<Rightarrow> 't backup_entry \<Rightarrow> 't backup_entry" where
  "rename_to name e = e\<lparr>be_document := (be_document e)\<lparr>doc_name := name\<rparr>\<rparr>"

definition note_name :: "bytes \<Rightarrow> migration_state \<Rightarrow> migration_state" where
  "note_name ix st = st\<lparr>mg_seen := ix # mg_seen st, mg_taken := Good ix # mg_taken st\<rparr>"

text \<open>\<open>owners\<close> is the dictionary of the owners of the entries that were active at the start.\<close>

definition name_in_use :: "(nat \<Rightarrow> nat option) \<Rightarrow> nat option \<Rightarrow> bytes \<Rightarrow> migration_state \<Rightarrow> bool" where
  "name_in_use owners owner ix st \<longleftrightarrow> ix \<in> set (mg_seen st)
     \<or> (case map_of (rs_active (mg_restore st)) (Good ix) of None \<Rightarrow> False | Some i \<Rightarrow> owner \<noteq> None \<and> owners i \<noteq> owner)"

definition migration_name ::
    "primitives \<Rightarrow> vault_key \<Rightarrow> (nat \<Rightarrow> nat option) \<Rightarrow> nat option \<Rightarrow> nat \<Rightarrow> time backup_entry \<Rightarrow> migration_state \<Rightarrow>
       (error + time backup_entry \<times> migration_state) option" where
  "migration_name P key owners owner n entry st =
     (let name = doc_name (be_document entry)
      in if be_deleted entry \<noteq> None then Some (Inr (entry, st))
         else (case name_index P key name of
            Inl e \<Rightarrow> Some (Inl e)
          | Inr ix \<Rightarrow>
              if name_in_use owners owner ix st then
                (case unique_name P key (mg_taken st) name 2 of
                   None \<Rightarrow> None
                 | Some (Inl e) \<Rightarrow> Some (Inl e)
                 | Some (Inr unique) \<Rightarrow>
                     Some (andThen (name_index P key unique) (\<lambda>jx.
                       Inr (rename_to unique entry, note_name jx
                         (st\<lparr>mg_renamed := mg_renamed st @ [renamed_report (utext ''entry '' @ decimal n) name unique True]\<rparr>)))))
              else Some (Inr (entry, note_name ix st))))"

definition migrate_attachment ::
    "env \<Rightarrow> vault_key \<Rightarrow> (nat \<Rightarrow> attachment_draw) \<Rightarrow> entry_row \<Rightarrow> nat \<times> time backup_attachment \<times> bytes \<Rightarrow> restore_state \<Rightarrow>
       error + restore_state" where
  "migrate_attachment E key draw e numbered st =
     (case numbered of (k, a, content) \<Rightarrow>
        andThen (store_attachment E key (draw k) e a content (rs_db st)) (\<lambda>d.
        Inr (st\<lparr>rs_db := d, rs_attachments := Suc (rs_attachments st)\<rparr>)))"

definition migrated_share :: "nat option \<Rightarrow> nat \<Rightarrow> user_row \<Rightarrow> legacy_share \<Rightarrow> entry_access_row" where
  "migrated_share owner i u s =
     \<lparr>ea_entry_id = i, ea_user_id = u_id u, ea_permission = ls_permission s, ea_expires_at = None, ea_granted_by = owner\<rparr>"

definition migrate_share :: "nat option \<Rightarrow> db \<Rightarrow> nat \<Rightarrow> legacy_share \<Rightarrow> db \<Rightarrow> error + db" where
  "migrate_share owner d\<^sub>0 i s d =
     andThen (orElse (share_target d\<^sub>0 (ls_username s)) ValueError) (\<lambda>u.
     let r = migrated_share owner i u s
     in andThen (ensure (get_entry_access d (ea_key r) = None) IntegrityError) (\<lambda>_. Inr (put_entry_access r d)))"

definition store_migrated ::
    "text_ops \<Rightarrow> env \<Rightarrow> nat option \<Rightarrow> on_conflict \<Rightarrow> time \<Rightarrow> vault_key \<Rightarrow> db \<Rightarrow> restore_draw \<Rightarrow> nat \<Rightarrow> legacy_share list \<Rightarrow>
       bytes list \<Rightarrow> time backup_entry \<Rightarrow> migration_state \<Rightarrow> error + migration_state" where
  "store_migrated T E owner conflict moved_at key d\<^sub>0 w n shares contents entry st =
     andThen (check_entry T entry n) (\<lambda>(p, history).
     andThen (restore_target E owner conflict moved_at key w (document_from p history) entry None (mg_restore st)) (\<lambda>(into, st\<^sub>1).
     case into of
       None \<Rightarrow> Inr (st\<lparr>mg_restore := st\<^sub>1\<rparr>)
     | Some e \<Rightarrow>
         andThen (fold_res (migrate_attachment E key (rd_attachments w) e)
             (enumerate 0 (zip (be_attachments entry) contents)) st\<^sub>1) (\<lambda>st\<^sub>2.
         andThen (fold_res (migrate_share owner d\<^sub>0 (e_id e)) shares (rs_db st\<^sub>2)) (\<lambda>d.
         Inr (st\<lparr>mg_restore := st\<^sub>2\<lparr>rs_db := d\<rparr>, mg_grants := mg_grants st + length shares\<rparr>)))))"

definition migrate_source ::
    "legacy_codec \<Rightarrow> text_ops \<Rightarrow> env \<Rightarrow> nat option \<Rightarrow> on_conflict \<Rightarrow> time \<Rightarrow> vault_key \<Rightarrow> db \<Rightarrow> (nat \<Rightarrow> nat option) \<Rightarrow>
       (nat \<Rightarrow> restore_draw) \<Rightarrow> nat \<Rightarrow> time legacy_entry \<Rightarrow> migration_state \<Rightarrow> (error + migration_state) option" where
  "migrate_source L T E owner conflict moved_at key d\<^sub>0 owners draw n source st =
     (case migration_contents L source of
        Inl e \<Rightarrow> Some (Inl e)
      | Inr contents \<Rightarrow>
          map_option (\<lambda>r. andThen r (\<lambda>(entry, st\<^sub>1).
              store_migrated T E owner conflict moved_at key d\<^sub>0 (draw n) n (le_shares source) contents entry st\<^sub>1))
            (migration_name (prims E) key owners owner n (migrated_entry (prims E) source contents) st))"

section \<open>A whole archive\<close>

fun migrate_sources ::
    "legacy_codec \<Rightarrow> text_ops \<Rightarrow> env \<Rightarrow> nat option \<Rightarrow> on_conflict \<Rightarrow> time \<Rightarrow> vault_key \<Rightarrow> db \<Rightarrow> (nat \<Rightarrow> nat option) \<Rightarrow>
       (nat \<Rightarrow> restore_draw) \<Rightarrow> nat \<Rightarrow> time legacy_entry list \<Rightarrow> migration_state \<Rightarrow> (error + migration_state) option" where
  "migrate_sources L T E owner conflict moved_at key d\<^sub>0 owners draw n [] st = Some (Inr st)"
| "migrate_sources L T E owner conflict moved_at key d\<^sub>0 owners draw n (source # sources) st =
     (case migrate_source L T E owner conflict moved_at key d\<^sub>0 owners draw n source st of
        None \<Rightarrow> None
      | Some (Inl e) \<Rightarrow> Some (Inl e)
      | Some (Inr st') \<Rightarrow> migrate_sources L T E owner conflict moved_at key d\<^sub>0 owners draw (Suc n) sources st')"

text \<open>A migration reads no frames: the reader of \<open>restore_state\<close> is not used.\<close>

definition no_reader :: backup_reader where
  "no_reader = \<lparr>br_raw = [], br_header = \<lparr>bh_params = DEFAULT_KDF, bh_salt = [], bh_frames = 0, bh_commitment = []\<rparr>, br_index = 0\<rparr>"

definition initial_migration :: "db \<Rightarrow> migration_state" where
  "initial_migration d =
     \<lparr>mg_restore = initial_restore no_reader [] d, mg_taken = map fst (active_rows d), mg_seen = [], mg_renamed = [], mg_grants = 0\<rparr>"

definition active_owners :: "db \<Rightarrow> nat \<Rightarrow> nat option" where
  "active_owners d i = (if i \<in> snd ` set (active_rows d) then Option.bind (get_entry d i) e_owner_id else None)"

definition migration_result :: "nat \<Rightarrow> migration_state \<Rightarrow> restore_result" where
  "migration_result amount st =
     (restore_result_of (mg_restore st) (int amount) False)
       \<lparr>ir_renamed := length (mg_renamed st), ir_renamed_rows := take REPORTED_IGNORED_ROWS (mg_renamed st),
        rr_grants_restored := mg_grants st\<rparr>"

definition import_legacy_migration ::
    "legacy_codec \<Rightarrow> text_ops \<Rightarrow> backup_codec \<Rightarrow> env \<Rightarrow> nat option \<Rightarrow> on_conflict \<Rightarrow> time \<Rightarrow> vault_key \<Rightarrow> (nat \<Rightarrow> restore_draw) \<Rightarrow>
       json list \<Rightarrow> db \<Rightarrow> (error + restore_result \<times> db) option" where
  "import_legacy_migration L T B E owner conflict moved_at key draw listed_items d =
     (case andThen (parse_migration L B listed_items) (\<lambda>parsed.
           andThen (check_owner owner d parsed) (\<lambda>_.
           andThen (check_shares owner d parsed) (\<lambda>_. Inr parsed))) of
        Inl e \<Rightarrow> Some (Inl e)
      | Inr parsed \<Rightarrow>
          map_option (\<lambda>r. andThen r (\<lambda>st. Inr (migration_result (length parsed) st, rs_db (mg_restore st))))
            (migrate_sources L T E owner conflict moved_at key d (active_owners d) draw 1 parsed (initial_migration d)))"

section \<open>The JSON of version 2.0\<close>

definition legacy_tags :: "legacy_codec \<Rightarrow> json option \<Rightarrow> ustr list option" where
  "legacy_tags L raw =
     (case raw of
        None \<Rightarrow> Some []
      | Some (JArr xs) \<Rightarrow> Some (map (py_str L) (filter (\<lambda>x. x \<noteq> JNull) xs))
      | Some v \<Rightarrow> if truthy v then None else Some [])"

definition normalize_custom_fields :: "legacy_codec \<Rightarrow> json option \<Rightarrow> stored_field list" where
  "normalize_custom_fields L raw =
     (case raw of
        Some (JArr xs) \<Rightarrow>
          concat (map (\<lambda>x. case x of
              JObj ms \<Rightarrow>
                (case get ms ''label'' of
                   None \<Rightarrow> []
                 | Some label \<Rightarrow>
                     if truthy label then
                       [\<lparr>sf_label = py_str L label,
                         sf_value = (case get ms ''value'' of None \<Rightarrow> [] | Some v \<Rightarrow> py_str L v),
                         sf_hidden = (case get ms ''hidden'' of None \<Rightarrow> False | Some v \<Rightarrow> truthy v)\<rparr>]
                     else [])
            | _ \<Rightarrow> []) xs)
      | _ \<Rightarrow> [])"

text \<open>A field of type \<^verbatim>\<open>str | None\<close>, if its value has this type.\<close>

fun text_or_null :: "json option \<Rightarrow> ustr option option" where
  "text_or_null None = Some None"
| "text_or_null (Some JNull) = Some None"
| "text_or_null (Some (JStr s)) = Some (Some s)"
| "text_or_null _ = None"

definition given_json :: "json option \<Rightarrow> bool" where
  "given_json v \<longleftrightarrow> (case v of None \<Rightarrow> False | Some x \<Rightarrow> truthy x)"

fun text_of :: "json option \<Rightarrow> ustr option" where
  "text_of (Some (JStr s)) = Some s"
| "text_of _ = None"

text \<open>\<^verbatim>\<open>_legacy_fields\<close>; \<open>None\<close> when a value has a type that \<^verbatim>\<open>RestoredPassword\<close> refuses.\<close>

definition legacy_payload :: "legacy_codec \<Rightarrow> (ustr \<times> json) list \<Rightarrow> ustr payload option" where
  "legacy_payload L ms =
     (case (text_of (get ms ''name''), text_of (get ms ''value''), text_or_null (get ms ''username''),
            text_or_null (get ms ''url''), text_or_null (get ms ''totp_secret''), text_or_null (get ms ''description''),
            text_or_null (get ms ''folder''), legacy_tags L (get ms ''tags'')) of
        (Some name, Some secret, Some username, Some url, Some totp, Some description, Some folder, Some tags) \<Rightarrow>
          Some \<lparr>pw_name = name, pw_kind = utext (if get ms ''kind'' = Some (JStr (utext ''note'')) then ''note'' else ''login''),
            pw_username = username, pw_value = secret, pw_url = url, pw_totp_secret = totp, pw_description = description,
            pw_tags = tags, pw_custom_fields = normalize_custom_fields L (get ms ''custom_fields''), pw_folder = folder,
            pw_folder_id = None, pw_favorite = given_json (get ms ''favorite'')\<rparr>
      | _ \<Rightarrow> None)"

definition legacy_fields :: "legacy_codec \<Rightarrow> text_ops \<Rightarrow> json \<Rightarrow> csv_item option" where
  "legacy_fields L T item =
     (case item of
        JObj ms \<Rightarrow>
          if \<not> given_json (get ms ''name'') \<or> (case text_of (get ms ''name'') of None \<Rightarrow> False | Some s \<Rightarrow> py_strip T s = [])
          then Some (Ignored None (utext ''no name''))
          else if \<not> given_json (get ms ''value'')
          then Some (Ignored (text_of (get ms ''name'')) (utext ''no password or note text''))
          else map_option Fields (legacy_payload L ms)
      | _ \<Rightarrow> Some (Ignored None (utext ''not an entry'')))"

definition legacy_rows :: "legacy_codec \<Rightarrow> text_ops \<Rightarrow> json list \<Rightarrow> (ustr \<times> csv_item option) list" where
  "legacy_rows L T listed_items = map (\<lambda>(n, item). (utext ''entry '' @ decimal n, legacy_fields L T item)) (enumerate 1 listed_items)"

definition validate_legacy ::
    "legacy_codec \<Rightarrow> text_ops \<Rightarrow> json list \<Rightarrow> error + (ustr \<times> password) list \<times> import_report list" where
  "validate_legacy L T listed_items =
     (let rows = legacy_rows L T listed_items
      in andThen (ensure (\<forall>row \<in> set rows. snd row \<noteq> None) InvalidRequest) (\<lambda>_.
         validate_import (validate_restored_password T) (map (\<lambda>(place, row). (place, the row)) rows)))"

definition as_restore_result :: "import_result \<Rightarrow> restore_result" where
  "as_restore_result r =
     import_result.extend r \<lparr>rr_trashed = 0, rr_attachments = 0, rr_grants_restored = 0, rr_settings_restored = False\<rparr>"

section \<open>The upload\<close>

definition equals_one :: "json option \<Rightarrow> bool" where
  "equals_one v \<longleftrightarrow> v \<in> {Some (JInt 1), Some (JBool True), Some (JFloat (utext ''1.0''))}"

text \<open>The entries of the archive, and whether it is a migration archive.\<close>

definition legacy_json :: "legacy_codec \<Rightarrow> bytes \<Rightarrow> error + json list \<times> bool" where
  "legacy_json L raw =
     andThen (catching as_invalid (json_of L raw)) (\<lambda>payload.
     case payload of
       JObj ms \<Rightarrow>
         (case get ms ''passwords'' of
            Some (JArr listed_items) \<Rightarrow> Inr (listed_items, equals_one (get ms ''migration_version''))
          | _ \<Rightarrow> Inl InvalidRequest)
     | _ \<Rightarrow> Inl InvalidRequest)"

definition as_wrong_zip :: "error \<Rightarrow> error" where
  "as_wrong_zip e = (if e = DecryptionFailed then Forbidden else if e = BackupFormatError then InvalidRequest else e)"

definition open_legacy :: "legacy_codec \<Rightarrow> bytes \<Rightarrow> ustr \<Rightarrow> error + bytes" where
  "open_legacy L upload password =
     andThen (ensure (length upload \<le> MAX_LEGACY_FILE_BYTES) InvalidRequest) (\<lambda>_.
     catching as_wrong_zip (read_zip L upload password MAX_LEGACY_JSON_BYTES))"

record legacy_draws =
  ld_entries :: "nat \<Rightarrow> restore_draw"
  ld_rows :: "nat \<Rightarrow> entry_draw"
  ld_moved_at :: time

definition store_legacy ::
    "legacy_codec \<Rightarrow> text_ops \<Rightarrow> backup_codec \<Rightarrow> env \<Rightarrow> nat option \<Rightarrow> on_conflict \<Rightarrow> vault_key \<Rightarrow> legacy_draws \<Rightarrow> bytes \<Rightarrow> db \<Rightarrow>
       (error + restore_result \<times> db) option" where
  "store_legacy L T B E owner conflict key w raw d =
     (case legacy_json L raw of
        Inl e \<Rightarrow> Some (Inl e)
      | Inr (listed_items, migration) \<Rightarrow>
          if migration then
            (case verify_vault_key (Some key) d of
               Inl e \<Rightarrow> Some (Inl e)
             | Inr _ \<Rightarrow> import_legacy_migration L T B E owner conflict (ld_moved_at w) key (ld_entries w) listed_items d)
          else
            (case andThen (validate_legacy L T listed_items) (\<lambda>v. andThen (verify_vault_key (Some key) d) (\<lambda>_. Inr v)) of
               Inl e \<Rightarrow> Some (Inl e)
             | Inr (rows, ignored) \<Rightarrow>
                 map_option (map_sum id (\<lambda>(r, d'). (as_restore_result r, d')))
                   (store_import E owner owner conflict key (ld_rows w) rows ignored d)))"

definition import_legacy ::
    "legacy_codec \<Rightarrow> text_ops \<Rightarrow> backup_codec \<Rightarrow> env \<Rightarrow> nat option \<Rightarrow> bytes \<Rightarrow> ustr \<Rightarrow> vault_key \<Rightarrow> on_conflict \<Rightarrow> ustr option \<Rightarrow>
       instant \<times> instant \<times> instant \<Rightarrow> legacy_draws \<Rightarrow> db \<Rightarrow> vault_sessions \<Rightarrow> restore_result request option" where
  "import_legacy L T B E owner upload password key conflict token instants w d vs =
     (case open_legacy L upload password of
        Inl e \<Rightarrow> Some (plain vs (Inl e))
      | Inr raw \<Rightarrow>
     (case recheck_session E token instants d vs of
        (Inl e, vs') \<Rightarrow> Some (plain vs' (Inl e))
      | (Inr _, vs') \<Rightarrow> map_option (plain vs') (store_legacy L T B E owner conflict key w raw d)))"

text \<open>\<^verbatim>\<open>import_backup\<close>: the first bytes of the file decide.\<close>

definition import_any_backup ::
    "legacy_codec \<Rightarrow> text_ops \<Rightarrow> backup_codec \<Rightarrow> env \<Rightarrow> nat option \<Rightarrow> bool \<Rightarrow> bytes \<Rightarrow> ustr \<Rightarrow> vault_key \<Rightarrow> on_conflict \<Rightarrow> ustr option \<Rightarrow>
       instant \<times> instant \<times> instant \<Rightarrow> restore_draws \<Rightarrow> legacy_draws \<Rightarrow> db \<Rightarrow> vault_sessions \<Rightarrow> restore_result request option" where
  "import_any_backup L T B E owner restore_settings upload password key conflict token instants w lw d vs =
     (if take 4 upload = LEGACY_MAGIC
      then import_legacy L T B E owner upload password key conflict token instants lw d vs
      else Some (import_backup T B E owner restore_settings upload password key conflict token instants w d vs))"

end
