(* ===== verification/Legacy_Safety.thy ===== *)
theory Legacy_Safety
  imports Legacy_Import Backup_Properties
begin

text \<open>
  What importing a migration archive does to the vault. Its entries are restored as those of a backup
  file, so the lemmas of \<open>Restore_Safety\<close> apply to the vault with its old shares; the new shares come
  on top and belong to new entries.
\<close>

section \<open>Shares aside\<close>

abbreviation regrant :: "entry_access_row list \<Rightarrow> db \<Rightarrow> db" where
  "regrant A d \<equiv> d\<lparr>entry_access := A\<rparr>"

abbreviation regrant_st :: "entry_access_row list \<Rightarrow> restore_state \<Rightarrow> restore_state" where
  "regrant_st A st \<equiv> st\<lparr>rs_db := regrant A (rs_db st)\<rparr>"

lemma get_regrant [simp]: "get_entry (regrant A d) = get_entry d" "get_folder (regrant A d) = get_folder d"
  by (simp_all add: get_entry_def get_folder_def fun_eq_iff)

lemma regrant_facts [simp]:
  "attachments_bound (regrant A d) = attachments_bound d"
  "item_stored E T key owner t b n (regrant A d) it = item_stored E T key owner t b n d it"
  "item_skipped E key owner conflict (regrant A d) it = item_skipped E key owner conflict d it"
  "rows_found f g (regrant A d) = rows_found f g d"
  by (simp_all add: attachments_bound_def item_stored_def item_skipped_def attachments_hold_def entry_attachments_def
      rows_found_def)

lemma evolves_regrant:
  assumes "evolves conflict owner t b d d'" and "distinct (map ea_key A)"
  shows "evolves conflict owner t b (regrant A d) (regrant A d')"
proof -
  have "rest_of (regrant A d') = regrant A (rest_of d')" "rest_of (regrant A d) = regrant A (rest_of d)"
    by (simp_all add: rest_of_def)
  moreover have "keys_ok (regrant A d')" using evolvesD(1) [OF assms(1)] assms(2) by (simp add: keys_ok_def)
  ultimately show ?thesis using assms(1) by (simp add: evolves_def)
qed

lemma items_done_regrant:
  "items_done E T key owner conflict t its st st' \<Longrightarrow> distinct (map ea_key A) \<Longrightarrow>
     items_done E T key owner conflict t its (regrant_st A st) (regrant_st A st')"
  unfolding items_done_def by (simp add: evolves_regrant)

section \<open>One entry\<close>

text \<open>The shares of entry \<open>i\<close> are those of the archive, for the accounts of these names.\<close>

definition shares_granted :: "nat option \<Rightarrow> db \<Rightarrow> nat \<Rightarrow> legacy_share list \<Rightarrow> entry_access_row list \<Rightarrow> bool" where
  "shares_granted owner d\<^sub>0 i shares rows \<longleftrightarrow>
     list_all2 (\<lambda>r s. \<exists>u. share_target d\<^sub>0 (ls_username s) = Some u \<and> r = migrated_share owner i u s) rows shares"

definition entry_migrated ::
    "env \<Rightarrow> text_ops \<Rightarrow> vault_key \<Rightarrow> nat option \<Rightarrow> time \<Rightarrow> bool \<Rightarrow> db \<Rightarrow> nat \<Rightarrow> db \<Rightarrow> item \<Rightarrow> legacy_share list \<Rightarrow> bool" where
  "entry_migrated E T key owner moved_at overwrites d\<^sub>0 first d it shares \<longleftrightarrow>
     (\<exists>e e'. row_holds E T key owner (fst it) e \<and> attachments_hold E key d e it \<and> first < e_id e
        \<and> get_entry d (e_id e) = Some e' \<and> (e' = e \<or> overwrites \<and> (\<exists>u. e' = moved_row moved_at u e))
        \<and> shares_granted owner d\<^sub>0 (e_id e) shares (filter (\<lambda>r. ea_entry_id r = e_id e) (entry_access d)))"

lemma entry_migratedI:
  assumes "row_holds E T key owner (fst it) e" and "attachments_hold E key d e it" and "first < e_id e"
    and "\<exists>e'. get_entry d (e_id e) = Some e' \<and> (e' = e \<or> b \<and> (\<exists>u. e' = moved_row t u e))"
    and "shares_granted owner d\<^sub>0 (e_id e) shares (filter (\<lambda>r. ea_entry_id r = e_id e) (entry_access d))"
  shows "entry_migrated E T key owner t b d\<^sub>0 first d it shares"
  using assms unfolding entry_migrated_def by blast

lemma migrate_share_Inr:
  assumes "migrate_share owner d\<^sub>0 i s d = Inr d'" and "keys_ok d"
  obtains u where "share_target d\<^sub>0 (ls_username s) = Some u" and "d' = regrant (entry_access d @ [migrated_share owner i u s]) d"
    and "keys_ok d'"
proof -
  from assms(1) obtain u where u: "share_target d\<^sub>0 (ls_username s) = Some u"
    and free: "get_entry_access d (ea_key (migrated_share owner i u s)) = None"
    and d': "d' = put_entry_access (migrated_share owner i u s) d"
    by (auto simp: migrate_share_def Let_def result_simps)
  have eq: "d' = regrant (entry_access d @ [migrated_share owner i u s]) d"
    using free by (simp add: d' put_entry_access_def get_entry_access_def upsert_def)
  moreover have "keys_ok d'"
    using assms(2) distinct_upsert [of ea_key "entry_access d" "migrated_share owner i u s"]
    by (simp add: d' put_entry_access_def keys_ok_def)
  ultimately show thesis using that u by blast
qed

lemma migrate_shares_Inr:
  "fold_res (migrate_share owner d\<^sub>0 i) shares d = Inr d' \<Longrightarrow> keys_ok d \<Longrightarrow>
     \<exists>rows. d' = regrant (entry_access d @ rows) d \<and> keys_ok d' \<and> shares_granted owner d\<^sub>0 i shares rows
       \<and> (\<forall>r \<in> set rows. ea_entry_id r = i)"
proof (induction shares arbitrary: d)
  case Nil
  then show ?case by (intro exI [of _ "[]"]) (simp add: shares_granted_def)
next
  case (Cons s shares)
  from Cons.prems(1) obtain d\<^sub>1 where one: "migrate_share owner d\<^sub>0 i s d = Inr d\<^sub>1"
    and rest: "fold_res (migrate_share owner d\<^sub>0 i) shares d\<^sub>1 = Inr d'" by (auto simp: result_simps)
  from migrate_share_Inr [OF one Cons.prems(2)] obtain u where
    u: "share_target d\<^sub>0 (ls_username s) = Some u" and d\<^sub>1: "d\<^sub>1 = regrant (entry_access d @ [migrated_share owner i u s]) d"
    and keys: "keys_ok d\<^sub>1" .
  from Cons.IH [OF rest keys] obtain rows where rows: "d' = regrant (entry_access d\<^sub>1 @ rows) d\<^sub>1" "keys_ok d'"
    "shares_granted owner d\<^sub>0 i shares rows" "\<forall>r \<in> set rows. ea_entry_id r = i" by blast
  then show ?case using u
    by (intro exI [of _ "migrated_share owner i u s # rows"])
      (simp add: d\<^sub>1 shares_granted_def migrated_share_def)
qed

lemma migrate_attachments_outcome:
  assumes "env_ok E" and draws: "\<And>n. length (fst (td_nonces (draw n))) = NONCE_BYTES \<and> length (snd (td_nonces (draw n))) = NONCE_BYTES"
  shows "fold_res (migrate_attachment E key draw e) (enumerate n (zip as contents)) st = Inr st' \<Longrightarrow> keys_ok (rs_db st) \<Longrightarrow>
    [] \<notin> set contents \<Longrightarrow> length contents = length as \<Longrightarrow> attachments_outcome E key (Some e) as contents st st'"
proof (induction as arbitrary: n contents st)
  case Nil
  then show ?case
    unfolding attachments_outcome_def by (intro conjI exI [of _ "[]"]) simp_all
next
  case (Cons a as)
  from Cons.prems(4) obtain c cs where contents: "contents = c # cs" by (cases contents) auto
  from Cons.prems(1) obtain st\<^sub>1 where one: "migrate_attachment E key draw e (n, a, c) st = Inr st\<^sub>1" and
    rest: "fold_res (migrate_attachment E key draw e) (enumerate (Suc n) (zip as cs)) st\<^sub>1 = Inr st'"
    by (auto simp: contents result_simps)
  from one obtain d where d: "store_attachment E key (draw n) e a c (rs_db st) = Inr d"
    and st\<^sub>1: "st\<^sub>1 = st\<lparr>rs_db := d, rs_attachments := Suc (rs_attachments st)\<rparr>"
    by (auto simp: migrate_attachment_def result_simps)
  have "c \<noteq> []" using Cons.prems(3) by (auto simp: contents)
  from store_attachment_Inr [OF assms(1) conjunct1 [OF draws] conjunct2 [OF draws] Cons.prems(2) this d] obtain row where
    row: "d = (rs_db st)\<lparr>attachments := attachments (rs_db st) @ [row], seq_attachments := seq_attachments d\<rparr>" "keys_ok d"
      "attachment_holds E key (e_uid e) row (a, c)" "at_entry_id row = e_id e" by blast
  have first: "attachments_outcome E key (Some e) [a] [c] st st\<^sub>1"
    unfolding attachments_outcome_def option.case using row by (intro conjI exI [of _ "[row]"]) (simp_all add: st\<^sub>1)
  have "attachments_outcome E key (Some e) as cs st\<^sub>1 st'"
    using Cons.IH [OF rest] Cons.prems(3,4) row(2) by (simp add: contents st\<^sub>1)
  from attachments_outcome_append [OF first this] show ?case by (simp add: contents)
qed

definition grants_bound :: "db \<Rightarrow> bool" where
  "grants_bound d \<longleftrightarrow> (\<forall>r \<in> set (entry_access d). ea_entry_id r \<le> seq_entries d)"

text \<open>The shares grew by rows of new entries.\<close>

definition shares_grow :: "db \<Rightarrow> db \<Rightarrow> entry_access_row list \<Rightarrow> bool" where
  "shares_grow d d' rows \<longleftrightarrow> entry_access d' = entry_access d @ rows \<and> keys_ok d'
     \<and> (\<forall>r \<in> set rows. seq_entries d < ea_entry_id r \<and> ea_entry_id r \<le> seq_entries d')"

lemma store_migrated_done:
  assumes "env_ok E" and "length (rd_nonce w) = NONCE_BYTES"
    and draws: "\<And>i. length (fst (td_nonces (rd_attachments w i))) = NONCE_BYTES \<and> length (snd (td_nonces (rd_attachments w i))) = NONCE_BYTES"
    and keys: "keys_ok (rs_db (mg_restore st))" and "maps_ok (mg_restore st)"
    and bound: "attachments_bound (rs_db (mg_restore st))" and grants: "grants_bound (rs_db (mg_restore st))"
    and contents: "[] \<notin> set contents" "length contents = length (be_attachments entry)"
    and run: "store_migrated T E owner conflict t key d\<^sub>0 w n shares contents entry st = Inr st'"
  defines "r \<equiv> mg_restore st" and "r' \<equiv> mg_restore st'"
  shows "\<exists>rows. items_done E T key owner conflict t [(entry, contents)] r (regrant_st (entry_access (rs_db r)) r')
    \<and> shares_grow (rs_db r) (rs_db r') rows \<and> st' = st\<lparr>mg_restore := r', mg_grants := mg_grants st + length rows\<rparr>
    \<and> (entry_migrated E T key owner t (rs_overwritten r' \<noteq> rs_overwritten r) d\<^sub>0 (seq_entries (rs_db r)) (rs_db r') (entry, contents) shares
       \<or> rs_skipped r' \<noteq> 0 \<and> item_skipped E key owner conflict (rs_db r') (entry, contents))"
proof -
  note facts = assms(4-7) [folded r_def]
  from run obtain p history into st\<^sub>1 where checked: "check_entry T entry n = Inr (p, history)" and
    target: "restore_target E owner conflict t key w (document_from p history) entry None r = Inr (into, st\<^sub>1)" and
    rest: "(case into of None \<Rightarrow> Inr (st\<lparr>mg_restore := st\<^sub>1\<rparr>)
       | Some e \<Rightarrow> andThen (fold_res (migrate_attachment E key (rd_attachments w) e) (enumerate 0 (zip (be_attachments entry) contents)) st\<^sub>1)
           (\<lambda>st\<^sub>2. andThen (fold_res (migrate_share owner d\<^sub>0 (e_id e)) shares (rs_db st\<^sub>2))
           (\<lambda>d. Inr (st\<lparr>mg_restore := st\<^sub>2\<lparr>rs_db := d\<rparr>, mg_grants := mg_grants st + length shares\<rparr>)))) = Inr st'"
    unfolding r_def by (auto simp: store_migrated_def result_simps)
  from restore_target_outcome [OF assms(1,2) facts(1,2) target [unfolded check_entry_Inr [OF checked]], where cs = contents]
  have outcome: "target_outcome E T key owner conflict t (entry, contents) r into st\<^sub>1" .
  show ?thesis
  proof (cases into)
    case None
    with outcome have skip: "item_skipped E key owner conflict (rs_db r) (entry, contents)" "st\<^sub>1 = r\<lparr>rs_skipped := Suc (rs_skipped r)\<rparr>"
      by (simp_all add: target_outcome_def)
    from None rest have st': "st' = st\<lparr>mg_restore := st\<^sub>1\<rparr>" by simp
    have "attachments_outcome E key None (be_attachments entry) contents st\<^sub>1 st\<^sub>1"
      unfolding attachments_outcome_def using facts(1) contents(2) by (simp add: skip(2))
    from skipped_item_done [OF skip this facts(1-3), where T = T and t = t]
    show ?thesis using skip facts(1) by (intro exI [of _ "[]"]) (simp add: st' shares_grow_def r'_def)
  next
    case (Some e)
    with rest obtain st\<^sub>2 d where
      atts: "fold_res (migrate_attachment E key (rd_attachments w) e) (enumerate 0 (zip (be_attachments entry) contents)) st\<^sub>1 = Inr st\<^sub>2" and
      shares: "fold_res (migrate_share owner d\<^sub>0 (e_id e)) shares (rs_db st\<^sub>2) = Inr d" and
      st': "st' = st\<lparr>mg_restore := st\<^sub>2\<lparr>rs_db := d\<rparr>, mg_grants := mg_grants st + length shares\<rparr>"
      by (auto simp: result_simps)
    from Some outcome have added: "target_added E T key owner conflict t entry r e st\<^sub>1" by (simp add: target_outcome_def)
    have "keys_ok (rs_db st\<^sub>1)" using added unfolding target_added_def adds_row_def by blast
    note stored = migrate_attachments_outcome [OF assms(1) draws atts this contents]
    note here = added_item_here [OF added stored facts(1,3)] and same = attachments_outcome_same [OF stored]
    have old: "entry_access (rs_db st\<^sub>2) = entry_access (rs_db r)" using evolvesD(2) [OF here(1)] rest_ofD(3) by blast
    from migrate_shares_Inr [OF shares same(7)] obtain rows where rows: "d = regrant (entry_access (rs_db r) @ rows) (rs_db st\<^sub>2)"
      "keys_ok d" "shares_granted owner d\<^sub>0 (e_id e) shares rows" "\<forall>x \<in> set rows. ea_entry_id x = e_id e" unfolding old by blast
    have "filter (\<lambda>x. ea_entry_id x = e_id e) (entry_access (rs_db r)) = []"
      using facts(4) here(6) by (auto simp: grants_bound_def filter_empty_conv)
    moreover have "filter (\<lambda>x. ea_entry_id x = e_id e) rows = rows" using rows(4) by simp
    moreover have "attachments_hold E key d e (entry, contents)"
      using here(3) by (simp add: rows(1) attachments_hold_def entry_attachments_def)
    ultimately have "entry_migrated E T key owner t (rs_overwritten st\<^sub>2 \<noteq> rs_overwritten r) d\<^sub>0 (seq_entries (rs_db r)) d (entry, contents) shares"
      unfolding entry_migrated_def using here(2,5,6) rows(3) by (intro exI [of _ e]) (simp add: rows(1))
    moreover have "shares_grow (rs_db r) d rows" using rows here(6,7) by (simp add: shares_grow_def)
    moreover have "length shares = length rows" using list_all2_lengthD rows(3) by (force simp: shares_granted_def)
    moreover have "regrant_st (entry_access (rs_db r)) r' = st\<^sub>2" by (simp add: r'_def st' rows(1) flip: old)
    ultimately show ?thesis
      using added_item_done [OF added stored facts(1,3)] by (intro exI [of _ rows]) (simp add: st' r'_def)
  qed
qed

lemma migration_contents_Inr:
  assumes "migration_contents L source = Inr contents"
  shows "[] \<notin> set contents" and "length contents = length (le_attachments source)"
proof -
  from assms have "map_res (migration_attachment_data L) (le_attachments source) = Inr contents"
    by (auto simp: migration_contents_def result_simps)
  then have all: "list_all2 (\<lambda>a c. migration_attachment_data L a = Inr c) (le_attachments source) contents"
    by (simp add: map_res_Inr)
  then show "length contents = length (le_attachments source)" by (simp add: list_all2_lengthD)
  show "[] \<notin> set contents"
    using all by (auto simp: list_all2_conv_all_nth in_set_conv_nth migration_attachment_data_def Let_def result_simps)
qed

lemma rename_to_same [simp]: "rename_to (doc_name (be_document e)) e = e"
  by (simp add: rename_to_def)

lemma attachments_rename_to [simp]: "be_attachments (rename_to name e) = be_attachments e"
  by (simp add: rename_to_def)

lemma migration_name_Inr:
  assumes "migration_name P key owners owner n entry st = Some (Inr (entry', st'))"
  shows "\<exists>name. entry' = rename_to name entry \<and> mg_restore st' = mg_restore st \<and> mg_grants st' = mg_grants st
    \<and> (name = doc_name (be_document entry) \<and> mg_renamed st' = mg_renamed st
       \<or> be_deleted entry = None \<and> length (mg_renamed st') = Suc (length (mg_renamed st)))"
proof (cases "be_deleted entry = None \<and> (\<exists>ix. name_index P key (doc_name (be_document entry)) = Inr ix \<and> name_in_use owners owner ix st)")
  case True
  with assms show ?thesis
    by (auto simp: migration_name_def Let_def note_name_def result_simps split: option.splits sum.splits)
next
  case False
  with assms have "entry' = rename_to (doc_name (be_document entry)) entry \<and> mg_restore st' = mg_restore st \<and> mg_grants st' = mg_grants st
      \<and> mg_renamed st' = mg_renamed st"
    by (auto simp: migration_name_def Let_def note_name_def split: option.splits sum.splits if_splits)
  then show ?thesis by blast
qed

section \<open>A whole archive\<close>

text \<open>An entry of the archive is in the vault under its name, or another if one was reported, or it is skipped.\<close>

definition source_done ::
    "env \<Rightarrow> legacy_codec \<Rightarrow> text_ops \<Rightarrow> vault_key \<Rightarrow> nat option \<Rightarrow> on_conflict \<Rightarrow> time \<Rightarrow> bool \<Rightarrow> bool \<Rightarrow> bool \<Rightarrow> db \<Rightarrow> nat \<Rightarrow> db \<Rightarrow>
       time legacy_entry \<Rightarrow> bool" where
  "source_done E L T key owner conflict t overwrites skips renames d\<^sub>0 first d source \<longleftrightarrow>
     (\<exists>contents name. migration_contents L source = Inr contents
        \<and> (name = doc_name (le_document source) \<or> le_deleted source = None \<and> renames)
        \<and> (let it = (rename_to name (migrated_entry (prims E) source contents), contents)
           in entry_migrated E T key owner t overwrites d\<^sub>0 first d it (le_shares source)
              \<or> skips \<and> item_skipped E key owner conflict d it))"

definition migration_done ::
    "env \<Rightarrow> legacy_codec \<Rightarrow> text_ops \<Rightarrow> vault_key \<Rightarrow> nat option \<Rightarrow> on_conflict \<Rightarrow> time \<Rightarrow> db \<Rightarrow> time legacy_entry list \<Rightarrow>
       migration_state \<Rightarrow> migration_state \<Rightarrow> bool" where
  "migration_done E L T key owner conflict t d\<^sub>0 sources st st' \<longleftrightarrow>
     (let r = mg_restore st; r' = mg_restore st'
      in (\<exists>its. items_done E T key owner conflict t its r (regrant_st (entry_access (rs_db r)) r') \<and> length its = length sources)
         \<and> (\<exists>rows. shares_grow (rs_db r) (rs_db r') rows \<and> mg_grants st' = mg_grants st + length rows)
         \<and> length (mg_renamed st) \<le> length (mg_renamed st')
         \<and> (\<forall>source \<in> set sources. source_done E L T key owner conflict t (rs_overwritten r' \<noteq> rs_overwritten r) (rs_skipped r' \<noteq> 0)
              (length (mg_renamed st') \<noteq> length (mg_renamed st)) d\<^sub>0 (seq_entries (rs_db r)) (rs_db r') source))"

definition migration_ok :: "migration_state \<Rightarrow> bool" where
  "migration_ok st \<longleftrightarrow> (let r = mg_restore st
     in keys_ok (rs_db r) \<and> maps_ok r \<and> attachments_bound (rs_db r) \<and> grants_bound (rs_db r))"

definition migration_draws_ok :: "(nat \<Rightarrow> restore_draw) \<Rightarrow> bool" where
  "migration_draws_ok draw \<longleftrightarrow> (\<forall>n. length (rd_nonce (draw n)) = NONCE_BYTES
     \<and> (\<forall>i. length (fst (td_nonces (rd_attachments (draw n) i))) = NONCE_BYTES
          \<and> length (snd (td_nonces (rd_attachments (draw n) i))) = NONCE_BYTES))"

lemma shares_grow_bound:
  assumes "shares_grow d d' rows" and "grants_bound d" and "seq_entries d \<le> seq_entries d'"
  shows "grants_bound d'"
  using assms unfolding shares_grow_def grants_bound_def by (auto intro: order_trans)

lemma migration_done_ok:
  assumes "migration_done E L T key owner conflict t d\<^sub>0 sources st st'" and "migration_ok st"
  shows "migration_ok st'"
proof -
  let ?r = "mg_restore st" and ?r' = "mg_restore st'"
  from assms(1) obtain its rows where its: "items_done E T key owner conflict t its ?r (regrant_st (entry_access (rs_db ?r)) ?r')"
    and rows: "shares_grow (rs_db ?r) (rs_db ?r') rows"
    unfolding migration_done_def Let_def by blast
  from its have "maps_ok ?r'" "attachments_bound (rs_db ?r')" and
    ev: "evolves conflict owner t (rs_overwritten ?r' \<noteq> rs_overwritten ?r) (rs_db ?r) (regrant (entry_access (rs_db ?r)) (rs_db ?r'))"
    unfolding items_done_def by simp_all
  moreover have "grants_bound (rs_db ?r')"
    using shares_grow_bound [OF rows] evolvesD(3) [OF ev] assms(2) by (simp add: migration_ok_def Let_def)
  ultimately show ?thesis using rows by (simp add: migration_ok_def Let_def shares_grow_def)
qed

lemma migrate_source_done:
  assumes "env_ok E" and "migration_draws_ok draw" and "migration_ok st"
    and run: "migrate_source L T E owner conflict t key d\<^sub>0 owners draw n source st = Some (Inr st')"
  shows "migration_done E L T key owner conflict t d\<^sub>0 [source] st st'"
proof -
  from run obtain contents entry st\<^sub>1 where contents: "migration_contents L source = Inr contents" and
    named: "migration_name (prims E) key owners owner n (migrated_entry (prims E) source contents) st = Some (Inr (entry, st\<^sub>1))" and
    store: "store_migrated T E owner conflict t key d\<^sub>0 (draw n) n (le_shares source) contents entry st\<^sub>1 = Inr st'"
    by (auto simp: migrate_source_def result_simps split: sum.splits)
  from migration_name_Inr [OF named] obtain name where
    name: "entry = rename_to name (migrated_entry (prims E) source contents)" "mg_restore st\<^sub>1 = mg_restore st" "mg_grants st\<^sub>1 = mg_grants st"
      "name = doc_name (be_document (migrated_entry (prims E) source contents)) \<and> mg_renamed st\<^sub>1 = mg_renamed st
       \<or> be_deleted (migrated_entry (prims E) source contents) = None \<and> length (mg_renamed st\<^sub>1) = Suc (length (mg_renamed st))" by blast
  note cs = migration_contents_Inr [OF contents]
  have len: "length contents = length (be_attachments entry)" using cs(2) by (simp add: name(1) migrated_entry_def)
  have ok: "keys_ok (rs_db (mg_restore st\<^sub>1))" "maps_ok (mg_restore st\<^sub>1)" "attachments_bound (rs_db (mg_restore st\<^sub>1))"
    "grants_bound (rs_db (mg_restore st\<^sub>1))" using assms(3) by (simp_all add: migration_ok_def Let_def name(2))
  have draws: "length (rd_nonce (draw n)) = NONCE_BYTES" "\<And>i. length (fst (td_nonces (rd_attachments (draw n) i))) = NONCE_BYTES
      \<and> length (snd (td_nonces (rd_attachments (draw n) i))) = NONCE_BYTES"
    using assms(2) by (simp_all add: migration_draws_ok_def)
  let ?r = "mg_restore st" and ?r' = "mg_restore st'"
  from store_migrated_done [OF assms(1) draws ok cs(1) len store, unfolded name(2)] obtain rows where
    step: "items_done E T key owner conflict t [(entry, contents)] ?r (regrant_st (entry_access (rs_db ?r)) ?r')"
      "shares_grow (rs_db ?r) (rs_db ?r') rows" "st' = st\<^sub>1\<lparr>mg_restore := ?r', mg_grants := mg_grants st\<^sub>1 + length rows\<rparr>"
      "entry_migrated E T key owner t (rs_overwritten ?r' \<noteq> rs_overwritten ?r) d\<^sub>0 (seq_entries (rs_db ?r)) (rs_db ?r') (entry, contents) (le_shares source)
       \<or> rs_skipped ?r' \<noteq> 0 \<and> item_skipped E key owner conflict (rs_db ?r') (entry, contents)" by blast
  have st': "mg_grants st' = mg_grants st + length rows" "mg_renamed st' = mg_renamed st\<^sub>1" by (subst step(3), simp add: name(3))+
  have "source_done E L T key owner conflict t (rs_overwritten ?r' \<noteq> rs_overwritten ?r) (rs_skipped ?r' \<noteq> 0)
      (length (mg_renamed st') \<noteq> length (mg_renamed st)) d\<^sub>0 (seq_entries (rs_db ?r)) (rs_db ?r') source"
    unfolding source_done_def Let_def using contents name(1,4) step(4)
    by (intro exI [of _ contents] exI [of _ name]) (auto simp: migrated_entry_def st'(2))
  moreover have "length (mg_renamed st) \<le> length (mg_renamed st')" using name(4) by (auto simp: st'(2))
  ultimately show ?thesis
    unfolding migration_done_def Let_def using step(1,2) st'(1) by (intro conjI exI [of _ "[(entry, contents)]"] exI [of _ rows]) simp_all
qed

lemma entry_migrated_later:
  assumes ev: "evolves conflict owner t c d (regrant (entry_access d) d')" and grow: "shares_grow d d' rows" and keys: "keys_ok d"
    and here: "entry_migrated E T key owner t b d\<^sub>0 first d it shares" and "least \<le> first" and flag: "b \<or> c \<Longrightarrow> x"
  shows "entry_migrated E T key owner t x d\<^sub>0 least d' it shares"
proof -
  from here obtain e e' where e: "row_holds E T key owner (fst it) e" "attachments_hold E key d e it" "first < e_id e"
    "get_entry d (e_id e) = Some e'" "e' = e \<or> b \<and> (\<exists>u. e' = moved_row t u e)"
    "shares_granted owner d\<^sub>0 (e_id e) shares (filter (\<lambda>r. ea_entry_id r = e_id e) (entry_access d))"
    unfolding entry_migrated_def by blast
  have "e_id e \<le> seq_entries d" using e(4) keys by (auto simp: get_entry_def keys_ok_def dest!: row_of_Some)
  then have "filter (\<lambda>r. ea_entry_id r = e_id e) rows = []" using grow by (auto simp: shares_grow_def filter_empty_conv)
  then have "filter (\<lambda>r. ea_entry_id r = e_id e) (entry_access d') = filter (\<lambda>r. ea_entry_id r = e_id e) (entry_access d)"
    using grow by (simp add: shares_grow_def)
  moreover have "attachments_hold E key d' e it"
    using e(2) evolves_attachments [OF ev e(4) keys] by (simp add: attachments_hold_def entry_attachments_def)
  moreover from evolvesD(6) [OF ev e(4)]
  have "\<exists>f. get_entry d' (e_id e) = Some f \<and> (f = e \<or> x \<and> (\<exists>u. f = moved_row t u e))"
  proof
    assume moved: "c \<and> conflict = Overwrite \<and> e_deleted e' = None \<and> (owner = None \<or> e_owner_id e' = owner)
        \<and> (\<exists>u. get_entry (regrant (entry_access d) d') (e_id e) = Some (moved_row t u e'))"
    then have "e' = e" using e(5) moved_row_deleted(1) by metis
    with moved flag show ?thesis by auto
  next
    assume "get_entry (regrant (entry_access d) d') (e_id e) = Some e'"
    with e(5) flag show ?thesis by auto
  qed
  moreover have "least < e_id e" using e(3) assms(5) by simp
  ultimately show ?thesis by (intro entry_migratedI [of E T key owner it e]) (simp_all add: e(1,6))
qed

lemma source_done_later:
  assumes ev: "evolves conflict owner t c d (regrant (entry_access d) d')" and grow: "shares_grow d d' rows" and keys: "keys_ok d"
    and here: "source_done E L T key owner conflict t b s n d\<^sub>0 first d source" and "least \<le> first"
    and "b \<or> c \<Longrightarrow> x" and "s \<Longrightarrow> s'" and "n \<Longrightarrow> n'"
  shows "source_done E L T key owner conflict t x s' n' d\<^sub>0 least d' source"
proof -
  have "item_skipped E key owner conflict d' it" if "item_skipped E key owner conflict d it" for it
    using skipped_evolves [OF ev that] by simp
  moreover have "entry_migrated E T key owner t x d\<^sub>0 least d' it shares"
    if "entry_migrated E T key owner t b d\<^sub>0 first d it shares" for it shares
    by (rule entry_migrated_later [OF ev grow keys that assms(5,6)])
  ultimately show ?thesis using here assms(7,8) unfolding source_done_def Let_def by blast
qed

lemma entry_migrated_weaken:
  assumes "entry_migrated E T key owner t b d\<^sub>0 first d it shares" and "least \<le> first" and "b \<Longrightarrow> x"
  shows "entry_migrated E T key owner t x d\<^sub>0 least d it shares"
proof -
  have less: "least < i" if "first < i" for i using that assms(2) by simp
  from assms(1) show ?thesis
    unfolding entry_migrated_def using less assms(3) by blast
qed

lemma source_done_weaken:
  assumes "source_done E L T key owner conflict t b s n d\<^sub>0 first d source" and "least \<le> first"
    and "b \<Longrightarrow> x" and "s \<Longrightarrow> s'" and "n \<Longrightarrow> n'"
  shows "source_done E L T key owner conflict t x s' n' d\<^sub>0 least d source"
proof -
  have "entry_migrated E T key owner t x d\<^sub>0 least d it shares" if "entry_migrated E T key owner t b d\<^sub>0 first d it shares" for it shares
    by (rule entry_migrated_weaken [OF that assms(2,3)])
  with assms(1,4,5) show ?thesis unfolding source_done_def Let_def by blast
qed

lemma shares_grow_trans:
  assumes "shares_grow d d\<^sub>1 rows" and "shares_grow d\<^sub>1 d\<^sub>2 others" and "seq_entries d \<le> seq_entries d\<^sub>1" and "seq_entries d\<^sub>1 \<le> seq_entries d\<^sub>2"
  shows "shares_grow d d\<^sub>2 (rows @ others)"
  using assms by (fastforce simp: shares_grow_def)

lemma items_done_append:
  "items_done E T key owner conflict t its st st\<^sub>1 \<Longrightarrow> items_done E T key owner conflict t others st\<^sub>1 st' \<Longrightarrow> length its = 1 \<Longrightarrow>
     items_done E T key owner conflict t (its @ others) st st'"
  by (cases its) (auto intro: items_done_Cons)

lemma migration_done_Cons:
  assumes first: "migration_done E L T key owner conflict t d\<^sub>0 [source] st st\<^sub>1"
    and rest: "migration_done E L T key owner conflict t d\<^sub>0 sources st\<^sub>1 st'" and "migration_ok st"
  shows "migration_done E L T key owner conflict t d\<^sub>0 (source # sources) st st'"
proof -
  let ?r = "mg_restore st" and ?r1 = "mg_restore st\<^sub>1" and ?r' = "mg_restore st'"
  let ?A = "entry_access (rs_db ?r)" and ?B = "entry_access (rs_db ?r1)"
  from first obtain its rows where a: "items_done E T key owner conflict t its ?r (regrant_st ?A ?r1)" "length its = 1"
    "shares_grow (rs_db ?r) (rs_db ?r1) rows" "mg_grants st\<^sub>1 = mg_grants st + length rows"
    "length (mg_renamed st) \<le> length (mg_renamed st\<^sub>1)"
    "source_done E L T key owner conflict t (rs_overwritten ?r1 \<noteq> rs_overwritten ?r) (rs_skipped ?r1 \<noteq> 0)
       (length (mg_renamed st\<^sub>1) \<noteq> length (mg_renamed st)) d\<^sub>0 (seq_entries (rs_db ?r)) (rs_db ?r1) source"
    unfolding migration_done_def Let_def by auto
  from rest obtain others new where b: "items_done E T key owner conflict t others ?r1 (regrant_st ?B ?r')" "length others = length sources"
    "shares_grow (rs_db ?r1) (rs_db ?r') new" "mg_grants st' = mg_grants st\<^sub>1 + length new"
    "length (mg_renamed st\<^sub>1) \<le> length (mg_renamed st')"
    "\<And>x. x \<in> set sources \<Longrightarrow> source_done E L T key owner conflict t (rs_overwritten ?r' \<noteq> rs_overwritten ?r1) (rs_skipped ?r' \<noteq> 0)
       (length (mg_renamed st') \<noteq> length (mg_renamed st\<^sub>1)) d\<^sub>0 (seq_entries (rs_db ?r1)) (rs_db ?r') x"
    unfolding migration_done_def Let_def by blast
  have "distinct (map ea_key ?A)" using assms(3) by (simp add: migration_ok_def Let_def keys_ok_def)
  from items_done_append [OF a(1) items_done_regrant [OF b(1) this, simplified] a(2)]
  have its: "items_done E T key owner conflict t (its @ others) ?r (regrant_st ?A ?r')" by simp
  from a(1) b(1) have counts: "rs_overwritten ?r \<le> rs_overwritten ?r1" "rs_overwritten ?r1 \<le> rs_overwritten ?r'"
    "rs_skipped ?r1 \<le> rs_skipped ?r'" and
    ev: "evolves conflict owner t (rs_overwritten ?r1 \<noteq> rs_overwritten ?r) (rs_db ?r) (regrant ?A (rs_db ?r1))"
      "evolves conflict owner t (rs_overwritten ?r' \<noteq> rs_overwritten ?r1) (rs_db ?r1) (regrant ?B (rs_db ?r'))"
    unfolding items_done_def by simp_all
  have seq: "seq_entries (rs_db ?r) \<le> seq_entries (rs_db ?r1)" "seq_entries (rs_db ?r1) \<le> seq_entries (rs_db ?r')"
    using evolvesD(3) [OF ev(1)] evolvesD(3) [OF ev(2)] by simp_all
  have keys: "keys_ok (rs_db ?r1)" using a(3) by (simp add: shares_grow_def)
  let ?done = "source_done E L T key owner conflict t (rs_overwritten ?r' \<noteq> rs_overwritten ?r) (rs_skipped ?r' \<noteq> 0)
      (length (mg_renamed st') \<noteq> length (mg_renamed st)) d\<^sub>0 (seq_entries (rs_db ?r)) (rs_db ?r')"
  have "?done source"
    by (rule source_done_later [OF ev(2) b(3) keys a(6)]) (use counts a(5) b(5) in auto)
  moreover have "?done x" if "x \<in> set sources" for x
    by (rule source_done_weaken [OF b(6) [OF that]]) (use counts seq a(5) b(5) in auto)
  ultimately show ?thesis
    unfolding migration_done_def Let_def using its a(2,4,5) b(2,4,5) shares_grow_trans [OF a(3) b(3) seq]
    by (intro conjI exI [of _ "its @ others"] exI [of _ "rows @ new"]) auto
qed

lemma migration_done_Nil: "migration_ok st \<Longrightarrow> migration_done E L T key owner conflict t d\<^sub>0 [] st st"
  unfolding migration_done_def migration_ok_def Let_def
  by (auto simp: items_done_def shares_grow_def evolves_refl intro!: exI [of _ "[]"])

lemma migrate_sources_done:
  assumes "env_ok E" and "migration_draws_ok draw"
  shows "migrate_sources L T E owner conflict t key d\<^sub>0 owners draw n sources st = Some (Inr st') \<Longrightarrow> migration_ok st \<Longrightarrow>
    migration_done E L T key owner conflict t d\<^sub>0 sources st st'"
proof (induction sources arbitrary: n st)
  case Nil
  then show ?case using migration_done_Nil by simp
next
  case (Cons source sources)
  from Cons.prems(1) obtain st\<^sub>1 where one: "migrate_source L T E owner conflict t key d\<^sub>0 owners draw n source st = Some (Inr st\<^sub>1)"
    and rest: "migrate_sources L T E owner conflict t key d\<^sub>0 owners draw (Suc n) sources st\<^sub>1 = Some (Inr st')"
    by (auto split: option.splits sum.splits)
  note first = migrate_source_done [OF assms Cons.prems(2) one]
  from migration_done_Cons [OF first Cons.IH [OF rest migration_done_ok [OF first Cons.prems(2)]] Cons.prems(2)]
  show ?case .
qed

lemma initial_migration_ok:
  assumes "db_ok d"
  shows "migration_ok (initial_migration d)"
proof -
  have keys: "keys_ok d" and fk: "fk_ok d" using assms by (simp_all add: db_ok_def)
  have "ea_entry_id r \<le> seq_entries d" if "r \<in> set (entry_access d)" for r
  proof -
    from fk that obtain e where "get_entry d (ea_entry_id r) = Some e" by (auto simp: fk_ok_def)
    with keys show ?thesis by (auto simp: get_entry_def keys_ok_def dest!: row_of_Some)
  qed
  with keys db_ok_bound [OF assms] initial_maps [OF keys, of no_reader "[]"] show ?thesis
    by (simp add: migration_ok_def initial_migration_def Let_def grants_bound_def initial_restore_def)
qed

section \<open>What an archive needs\<close>

text \<open>The archive of the restoring account, with shares for other active accounts of the named roles.\<close>

definition archive_allowed :: "nat option \<Rightarrow> db \<Rightarrow> 't legacy_entry list \<Rightarrow> bool" where
  "archive_allowed owner d parsed \<longleftrightarrow>
     (\<exists>name. owner_username owner d = Some name \<and>
        (\<forall>source \<in> set parsed. le_owner source = name \<and> distinct (map ls_username (le_shares source))
           \<and> (\<forall>s \<in> set (le_shares source). \<exists>u \<in> set (users d). share_target d (ls_username s) = Some u
                \<and> u_username u = ls_username s \<and> u_active u \<and> u_role u = ls_role s \<and> Some (u_id u) \<noteq> owner)))"

lemma share_target_Some:
  "share_target d name = Some u \<Longrightarrow> u \<in> set (users d) \<and> u_username u = name \<and> u_active u"
  unfolding share_target_def find_Some_iff by auto

lemma check_shares_fold:
  "fold_res (check_share owner d) shares seen = Inr seen' \<Longrightarrow>
     distinct (map ls_username shares) \<and> set seen \<inter> ls_username ` set shares = {}
     \<and> (\<forall>s \<in> set shares. \<exists>u \<in> set (users d). share_target d (ls_username s) = Some u
          \<and> u_username u = ls_username s \<and> u_active u \<and> u_role u = ls_role s \<and> Some (u_id u) \<noteq> owner)"
  (is "_ \<Longrightarrow> _ \<and> _ \<and> (\<forall>s \<in> set shares. ?allowed s)")
proof (induction shares arbitrary: seen)
  case (Cons s shares)
  from Cons.prems obtain seen1 where one: "check_share owner d s seen = Inr seen1"
    and rest: "fold_res (check_share owner d) shares seen1 = Inr seen'" by (simp add: result_simps) blast
  from one obtain u where u: "share_target d (ls_username s) = Some u" "ls_username s \<notin> set seen" "Some (u_id u) \<noteq> owner"
    "u_role u = ls_role s" "seen1 = ls_username s # seen"
    unfolding check_share_def by (cases "share_target d (ls_username s)") (simp_all add: result_simps)
  from Cons.IH [OF rest] have "distinct (map ls_username shares)" "set seen1 \<inter> ls_username ` set shares = {}" and
    others: "\<forall>s \<in> set shares. ?allowed s" by blast+
  with u(2,5) have "distinct (map ls_username (s # shares))" "set seen \<inter> ls_username ` set (s # shares) = {}" by auto
  moreover have "?allowed s" using u share_target_Some [OF u(1)] by blast
  ultimately show ?case using others by simp
qed simp

lemma archive_checked:
  assumes "check_owner owner d parsed = Inr ()" and "check_shares owner d parsed = Inr ()"
  shows "archive_allowed owner d parsed"
proof -
  from assms(1) obtain name where name: "owner_username owner d = Some name" "le_owner ` set parsed = {name}"
    by (auto simp: check_owner_def result_simps split: option.splits)
  from assms(2) obtain us where "map_res (\<lambda>e. fold_res (check_share owner d) (le_shares e) []) parsed = Inr us"
    by (auto simp: check_shares_def result_simps)
  then have "\<exists>seen. fold_res (check_share owner d) (le_shares e) [] = Inr seen" if "e \<in> set parsed" for e
    using that by (auto simp: map_res_Inr list_all2_conv_all_nth in_set_conv_nth)
  then have "distinct (map ls_username (le_shares e)) \<and> (\<forall>s \<in> set (le_shares e). \<exists>u \<in> set (users d).
      share_target d (ls_username s) = Some u \<and> u_username u = ls_username s \<and> u_active u \<and> u_role u = ls_role s \<and> Some (u_id u) \<noteq> owner)"
    if "e \<in> set parsed" for e
    using check_shares_fold [of owner d "le_shares e" "[]"] that by metis
  moreover have "le_owner e = name" if "e \<in> set parsed" for e using name(2) that by auto
  ultimately show ?thesis unfolding archive_allowed_def using name(1) by simp
qed

lemma import_legacy_migration_done:
  assumes "env_ok E" and "migration_draws_ok draw" and "db_ok d"
    and "import_legacy_migration L T B E owner conflict t key draw listed_items d = Some (Inr (result, d'))"
  obtains parsed st where "parse_migration L B listed_items = Inr parsed" and "archive_allowed owner d parsed"
    and "migration_done E L T key owner conflict t d parsed (initial_migration d) st"
    and "result = migration_result (length parsed) st" and "d' = rs_db (mg_restore st)"
proof -
  from assms(4) obtain parsed where parsed: "parse_migration L B listed_items = Inr parsed"
    and checked: "check_owner owner d parsed = Inr ()" "check_shares owner d parsed = Inr ()"
    and run: "map_option (\<lambda>r. andThen r (\<lambda>st. Inr (migration_result (length parsed) st, rs_db (mg_restore st))))
      (migrate_sources L T E owner conflict t key d (active_owners d) draw 1 parsed (initial_migration d)) = Some (Inr (result, d'))"
    by (auto simp: import_legacy_migration_def result_simps split: sum.splits)
  from run obtain st where st: "migrate_sources L T E owner conflict t key d (active_owners d) draw 1 parsed (initial_migration d) = Some (Inr st)"
    "result = migration_result (length parsed) st" "d' = rs_db (mg_restore st)" by (auto simp: result_simps)
  from that [OF parsed archive_checked [OF checked] migrate_sources_done [OF assms(1,2) st(1) initial_migration_ok [OF assms(3)]] st(2,3)]
  show thesis .
qed

section \<open>Property\<close>

text \<open>
  C4: A migration archive comes in as a whole or not at all. An import that succeeds was one by the
  account whose name owns every entry of the archive, and every share was for another active account
  of the named role. Every entry of the archive is in the vault as a new entry of this account with
  its document, times and attachments, and exactly the shares the archive gives it, or it was skipped
  for an entry of its name; only an active entry may have got another name. What was in the vault
  stays, except that overwriting moves the account's own entries to the trash; old shares stay, and
  the counts of the result account for every entry and every share.
\<close>

theorem migration_exact:
  assumes "env_ok E" and "migration_draws_ok draw" and "db_ok d"
    and "import_legacy_migration L T B E owner conflict moved_at key draw listed_items d = Some (Inr (result, d'))"
  shows "(\<exists>parsed. parse_migration L B listed_items = Inr parsed \<and> archive_allowed owner d parsed
      \<and> (\<forall>source \<in> set parsed. source_done E L T key owner conflict moved_at (ir_overwritten result \<noteq> 0) (ir_skipped result \<noteq> 0)
            (ir_renamed result \<noteq> 0) d (seq_entries d) d' source)
      \<and> ir_total result = length parsed
      \<and> length parsed = ir_imported result + ir_overwritten result + rr_trashed result + ir_skipped result)
    \<and> (\<forall>e \<in> set (entries d). get_entry d' (e_id e) = Some e
        \<or> conflict = Overwrite \<and> e_deleted e = None \<and> (owner = None \<or> e_owner_id e = owner)
          \<and> (\<exists>u. get_entry d' (e_id e) = Some (moved_row moved_at u e)))
    \<and> (\<exists>as. attachments d' = attachments d @ as \<and> (\<forall>a \<in> set as. seq_entries d < at_entry_id a))
    \<and> (\<exists>rows. entry_access d' = entry_access d @ rows \<and> length rows = rr_grants_restored result
        \<and> (\<forall>r \<in> set rows. seq_entries d < ea_entry_id r))
    \<and> rest_of (d'\<lparr>entry_access := entry_access d\<rparr>) = rest_of d
    \<and> length (entries d') = length (entries d) + ir_imported result + ir_overwritten result + rr_trashed result"
proof -
  from import_legacy_migration_done [OF assms] obtain parsed st where parsed: "parse_migration L B listed_items = Inr parsed"
    "archive_allowed owner d parsed" and mig: "migration_done E L T key owner conflict moved_at d parsed (initial_migration d) st"
    and result: "result = migration_result (length parsed) st" and d': "d' = rs_db (mg_restore st)" .
  let ?r = "mg_restore (initial_migration d)" and ?r' = "mg_restore st"
  have start: "rs_db ?r = d" "rs_imported ?r = 0" "rs_skipped ?r = 0" "rs_overwritten ?r = 0" "rs_trashed ?r = 0"
    "mg_grants (initial_migration d) = 0" "mg_renamed (initial_migration d) = []"
    by (simp_all add: initial_migration_def initial_restore_def)
  have counts: "ir_imported result = rs_imported ?r'" "ir_skipped result = rs_skipped ?r'" "ir_overwritten result = rs_overwritten ?r'"
    "rr_trashed result = rs_trashed ?r'" "rr_grants_restored result = mg_grants st" "ir_renamed result = length (mg_renamed st)"
    "ir_total result = length parsed"
    by (simp_all add: result migration_result_def restore_result_of_def)
  from mig obtain its rows where its: "items_done E T key owner conflict moved_at its ?r (regrant_st (entry_access d) ?r')" "length its = length parsed"
    and rows: "shares_grow d d' rows" "mg_grants st = length rows"
    and sources: "\<forall>source \<in> set parsed. source_done E L T key owner conflict moved_at (rs_overwritten ?r' \<noteq> 0) (rs_skipped ?r' \<noteq> 0)
      (length (mg_renamed st) \<noteq> 0) d (seq_entries d) d' source"
    unfolding migration_done_def Let_def start d' by auto
  from its have ev: "evolves conflict owner moved_at (rs_overwritten ?r' \<noteq> 0) d (regrant (entry_access d) d')" and
    sums: "length (entries d') = length (entries d) + rows_added ?r'" "rows_added ?r' + rs_skipped ?r' = length parsed"
    unfolding items_done_def start by (simp_all add: d')
  have "get_entry d (e_id e) = Some e" if "e \<in> set (entries d)" for e
    using assms(3) that by (simp add: db_ok_def get_entry_def keys_ok_def row_of_in_set)
  with evolvesD(6) [OF ev] have "get_entry d' (e_id e) = Some e \<or> conflict = Overwrite \<and> e_deleted e = None
      \<and> (owner = None \<or> e_owner_id e = owner) \<and> (\<exists>u. get_entry d' (e_id e) = Some (moved_row moved_at u e))"
    if "e \<in> set (entries d)" for e using that by fastforce
  moreover have "\<exists>as. attachments d' = attachments d @ as \<and> (\<forall>a \<in> set as. seq_entries d < at_entry_id a)"
    using evolvesD(5) [OF ev] by auto
  moreover have "\<exists>rows. entry_access d' = entry_access d @ rows \<and> length rows = mg_grants st
      \<and> (\<forall>r \<in> set rows. seq_entries d < ea_entry_id r)" using rows by (auto simp: shares_grow_def)
  ultimately show ?thesis using parsed sources evolvesD(2) [OF ev] sums unfolding counts by auto
qed

definition sharing_vault :: db where
  "sharing_vault = emptied\<lparr>users := [sample_user 7 Admin, sample_user 8 Member], seq_users := 8\<rparr>"

definition sample_share :: legacy_share where
  "sample_share = \<lparr>ls_username = [104], ls_role = Member, ls_permission = Read\<rparr>"

definition sample_archived :: "'t \<Rightarrow> 't legacy_entry" where
  "sample_archived t = \<lparr>le_id = 1, le_owner = [103], le_document = sample_doc [110] None, le_created = t, le_updated = t,
     le_deleted = None, le_shares = [sample_share], le_attachments = []\<rparr>"

definition sample_legacy :: legacy_codec where
  "sample_legacy = \<lparr>read_zip = (\<lambda>_ _ _. Inr []), json_of = (\<lambda>_. Inr JNull), dec_legacy_entry = (\<lambda>_. Some (sample_archived (stamp 0))),
     b64_decode = (\<lambda>_. Inl ValueError), py_str = (\<lambda>_. [])\<rparr>"

lemma sharing_vault_facts:
  "db_ok sharing_vault" "owner_username (Some 7) sharing_vault = Some [103]"
  "share_target sharing_vault [104] = Some (sample_user 8 Member)" "active_rows sharing_vault = []" "trash_rows sharing_vault = []"
  "entries sharing_vault = []" "seq_entries sharing_vault = 4" "entry_access sharing_vault = []"
  by (simp_all add: sharing_vault_def backed_up_def empty_db_def db_ok_def keys_ok_def fk_ok_def entries_unique_def folders_unique_def
      groups_unique_def users_unique_def attachments_unique_def active_indexes_def get_user_def get_entry_def owner_username_def
      share_target_def active_rows_def trash_rows_def sample_user_def)

lemma sample_migration_parsed: "parse_migration sample_legacy sample_codec [JNull] = Inr [sample_archived 0]"
  using sample_entry_checked
  by (simp add: parse_migration_def sample_legacy_def MAX_FRAMES_def check_legacy_entry_def sample_archived_def sample_share_def
      sample_backup_entry_def restored_sample_def require_unicode_text_def ensure_def)

lemma sharing_target:
  assumes "rs_db st = sharing_vault" and "rs_active st = []"
  shows "\<exists>e st'. restore_target sample_E (Some 7) Skip 0 sample_key (rw_entries sample_restore_draws n) (sample_doc [110] None)
    restored_sample None st = Inr (Some e, st') \<and> e_id e = 5 \<and> entry_access (rs_db st') = []"
proof -
  let ?w = "rw_entries sample_restore_draws n"
  let ?row = "restored_row ?w (Some 7) None restored_sample"
  have w: "rd_nonce ?w = sample_nonce" by (simp add: sample_restore_draws_def)
  obtain s where s: "seal_entry sample_E sample_key sample_nonce ?row (sample_doc [110] None) = Inr s"
    using projr_ok [of "seal_entry sample_E sample_key sample_nonce ?row (sample_doc [110] None)"]
    by (auto simp: seal_entry_ok restored_row_def sample_restore_draws_def)
  then obtain ix where ix: "name_index (prims sample_E) sample_key [110] = Inr ix" by (auto simp: seal_entry_def result_simps)
  have "insert_entry s sharing_vault = Inr (5, sharing_vault\<lparr>entries := [s\<lparr>e_id := 5\<rparr>], seq_entries := 5\<rparr>)"
    by (simp add: insert_entry_def sharing_vault_facts entries_unique_def active_indexes_def Let_def)
  moreover have "be_deleted restored_sample = None" by (simp add: restored_sample_def)
  ultimately show ?thesis using s ix w assms
    by (simp add: restore_target_def add_restored_def folder_named_def remember_row_def clean_folder_def Let_def sharing_vault_facts)
qed

lemma sample_archive_imports:
  "\<exists>result d'. import_legacy_migration sample_legacy ascii_ops sample_codec sample_E (Some 7) Skip 0 sample_key
     (rw_entries sample_restore_draws) [JNull] sharing_vault = Some (Inr (result, d'))"
proof -
  let ?st = "initial_migration sharing_vault"
  have same: "migrated_entry (prims sample_E) (sample_archived (0 :: time)) [] = restored_sample"
    by (simp add: migrated_entry_def sample_archived_def restored_sample_def)
  have shares: "le_shares (sample_archived (0 :: time)) = [sample_share]" by (simp add: sample_archived_def)
  have empty: "migration_contents sample_legacy (sample_archived (0 :: time)) = Inr []"
    by (simp add: migration_contents_def sample_archived_def MAX_MIGRATED_TOTAL_ATTACHMENT_BYTES_def)
  obtain ix where ix: "name_index (prims sample_E) sample_key [110] = Inr ix"
    using projr_ok [of "name_index (prims sample_E) sample_key [110]"] by (auto simp: name_index_def)
  let ?st1 = "note_name ix ?st"
  have named: "migration_name (prims sample_E) sample_key (active_owners sharing_vault) (Some 7) 1 restored_sample ?st
      = Some (Inr (restored_sample, ?st1))"
    using ix by (simp add: migration_name_def restored_sample_def name_in_use_def initial_migration_def initial_restore_def
        sharing_vault_facts sample_doc_def)
  obtain p h where checked: "check_entry ascii_ops restored_sample 1 = Inr (p, h)" "document_from p h = sample_doc [110] None"
    using sample_checked by blast
  have "rs_db (mg_restore ?st1) = sharing_vault" "rs_active (mg_restore ?st1) = []"
    by (simp_all add: note_name_def initial_migration_def initial_restore_def sharing_vault_facts)
  from sharing_target [OF this] obtain e st2 where target: "restore_target sample_E (Some 7) Skip 0 sample_key
      (rw_entries sample_restore_draws 1) (sample_doc [110] None) restored_sample None (mg_restore ?st1) = Inr (Some e, st2)"
      "e_id e = 5" "entry_access (rs_db st2) = []" by blast
  have share: "is_ok (migrate_share (Some 7) sharing_vault 5 sample_share (rs_db st2))"
    by (simp add: migrate_share_def sample_share_def sharing_vault_facts get_entry_access_def target(3) Let_def)
  have "\<exists>st3. store_migrated ascii_ops sample_E (Some 7) Skip 0 sample_key sharing_vault (rw_entries sample_restore_draws 1) 1
      [sample_share] [] restored_sample ?st1 = Inr st3"
    using checked target share by (auto simp: store_migrated_def is_ok_iff restored_sample_def)
  then obtain st3 where "migrate_source sample_legacy ascii_ops sample_E (Some 7) Skip 0 sample_key sharing_vault
      (active_owners sharing_vault) (rw_entries sample_restore_draws) 1 (sample_archived (0 :: time)) ?st = Some (Inr st3)"
    using named same by (auto simp: migrate_source_def empty shares)
  moreover have "check_owner (Some 7) sharing_vault [sample_archived (0 :: time)] = Inr ()"
      "check_shares (Some 7) sharing_vault [sample_archived (0 :: time)] = Inr ()"
    by (simp_all add: check_owner_def check_shares_def check_share_def sharing_vault_facts sample_archived_def sample_share_def sample_user_def)
  ultimately show ?thesis by (simp add: import_legacy_migration_def sample_migration_parsed)
qed

theorem migration_exact_witness:
  "\<exists>result d'. import_legacy_migration sample_legacy ascii_ops sample_codec sample_E (Some 7) Skip 0 sample_key
       (rw_entries sample_restore_draws) [JNull] sharing_vault = Some (Inr (result, d'))
     \<and> ir_total result = 1 \<and> length (entries d') = ir_imported result + ir_overwritten result + rr_trashed result
     \<and> length (entry_access d') = rr_grants_restored result"
proof -
  obtain result d' where run: "import_legacy_migration sample_legacy ascii_ops sample_codec sample_E (Some 7) Skip 0 sample_key
       (rw_entries sample_restore_draws) [JNull] sharing_vault = Some (Inr (result, d'))" using sample_archive_imports by blast
  have "migration_draws_ok (rw_entries sample_restore_draws)"
    by (simp add: migration_draws_ok_def sample_restore_draws_def)
  from migration_exact [OF sample_env_ok this sharing_vault_facts(1) run] run show ?thesis
    by (auto simp: sample_migration_parsed sharing_vault_facts)
qed

end
