(* ===== verification/Confinement.thy ===== *)
theory Confinement
  imports Entry_Lifecycle Attachments
begin

text \<open>
  What the operations of one user on entries cannot touch (\<^verbatim>\<open>AuthorizedPasswordCRUD\<close>,
  \<^verbatim>\<open>AuthorizedAttachmentCRUD\<close> and \<^verbatim>\<open>EntryACL.relinquish\<close> of \<^verbatim>\<open>backend/crud/access.py\<close>). \<open>confined I\<close> relates
  two databases that differ, as to what was there before, in the entries \<open>I\<close> only: accounts, vault,
  settings, groups and folder grants are the same, no folder is lost, and every other entry keeps its
  row, its attachments and its shares. It is closed under composition and under the writes that these
  operations make, so each operation is confined to the entry on which it checked the permission.
\<close>

named_theorems confined_intros \<open>writes that are confined\<close>

section \<open>Databases that differ in some entries\<close>

definition shares_of :: "db \<Rightarrow> nat \<Rightarrow> entry_access_row list" where
  "shares_of d i = filter (\<lambda>r. ea_entry_id r = i) (entry_access d)"

definition same_tables :: "db \<Rightarrow> db \<Rightarrow> bool" where
  "same_tables d d' \<longleftrightarrow> users d' = users d \<and> vault d' = vault d \<and> settings d' = settings d
     \<and> groups d' = groups d \<and> group_members d' = group_members d
     \<and> folder_user_access d' = folder_user_access d \<and> folder_group_access d' = folder_group_access d
     \<and> (\<forall>j g. get_folder d j = Some g \<longrightarrow> get_folder d' j = Some g)"

definition same_entry :: "db \<Rightarrow> db \<Rightarrow> nat \<Rightarrow> bool" where
  "same_entry d d' i \<longleftrightarrow> get_entry d' i = get_entry d i
     \<and> entry_attachments d' i = entry_attachments d i \<and> shares_of d' i = shares_of d i"

definition confined :: "nat set \<Rightarrow> db \<Rightarrow> db \<Rightarrow> bool" where
  "confined I d d' \<longleftrightarrow> same_tables d d' \<and> (\<forall>i. i \<notin> I \<longrightarrow> get_entry d i \<noteq> None \<longrightarrow> same_entry d d' i)"

lemma confined_refl [confined_intros]: "confined I d d"
  by (simp add: confined_def same_tables_def same_entry_def)

lemma confined_trans: "confined I d d\<^sub>1 \<Longrightarrow> confined I d\<^sub>1 d\<^sub>2 \<Longrightarrow> confined I d d\<^sub>2"
  unfolding confined_def same_tables_def same_entry_def by metis

lemma confined_mono: "confined I d d' \<Longrightarrow> I \<subseteq> J \<Longrightarrow> confined J d d'"
  by (auto simp: confined_def)

lemma confined_new: "confined {i} d d' \<Longrightarrow> get_entry d i = None \<Longrightarrow> confined {} d d'"
  unfolding confined_def by (metis empty_iff insert_iff)

lemma confinedD:
  assumes "confined I d d'"
  shows "users d' = users d" "vault d' = vault d" "settings d' = settings d" "groups d' = groups d"
    and "get_folder d j = Some g \<Longrightarrow> get_folder d' j = Some g"
    and "i \<notin> I \<Longrightarrow> get_entry d i = Some e \<Longrightarrow> get_entry d' i = Some e \<and> entry_attachments d' i = entry_attachments d i
       \<and> shares_of d' i = shares_of d i"
  using assms by (auto simp: confined_def same_tables_def same_entry_def)

section \<open>Confined writes\<close>

lemmas confined_defs = confined_def same_tables_def same_entry_def shares_of_def entry_attachments_def

text \<open>A write to one row of the entries, one that adds a row, and their composition with others.\<close>

lemma confined_rows:
  assumes "d' = d\<lparr>entries := entries d'\<rparr>" and "get_entry d' = (get_entry d)(i := r)"
    and "i \<in> I \<or> get_entry d i = None"
  shows "confined I d d'"
proof -
  note same = entries_only [OF assms(1)]
  have more: "users d' = users d" "vault d' = vault d" "settings d' = settings d" "groups d' = groups d"
    "attachments d' = attachments d" by (subst assms(1), simp)+
  with same assms(2,3) show ?thesis by (auto simp: confined_defs get_folder_def)
qed

lemma confined_update_entry [confined_intros]:
  assumes "update_entry now e d = Inr d'" and "e_id e \<in> I \<or> get_entry d (e_id e) = None"
  shows "confined I d d'"
proof (cases "e \<in> set (entries d)")
  case True
  with assms(1) show ?thesis by (simp add: update_entry_def confined_refl)
next
  case False
  with assms(1) have d': "d' = d\<lparr>entries := set_row e_id (e\<lparr>e_updated := Good now\<rparr>) (entries d)\<rparr>"
    by (auto simp: update_entry_def Let_def result_simps)
  have "get_entry d' = (get_entry d)(e_id e := get_entry d' (e_id e))"
    by (auto simp: d' get_entry_def row_simps fun_eq_iff)
  from confined_rows [OF _ this assms(2)] show ?thesis by (simp add: d')
qed

lemma confined_insert_entry [confined_intros]:
  assumes "insert_entry e d = Inr (i, d')" and "keys_ok d"
  shows "confined I d d'"
proof -
  note new = insert_entry_Inr [OF assms]
  show ?thesis using new(4,5)
    by (auto simp: confined_defs new(2) get_folder_def)
qed

lemma confined_delete_entry [confined_intros]: "i \<in> I \<Longrightarrow> confined I d (delete_entry_row i d)"
  by (auto simp: confined_defs delete_entry_row_def get_entry_def get_folder_def row_simps
      intro!: filter_cong)

lemma confined_audit [confined_intros]: "confined I d d' \<Longrightarrow> confined I d (insert_audit a d')"
  by (simp add: confined_defs insert_audit_def get_entry_def get_folder_def)

lemma confined_audits_only [confined_intros]:
  assumes "audits_only d d'"
  shows "confined I d d'"
proof -
  have "d' = d\<lparr>access_audit := access_audit d', seq_audit := seq_audit d'\<rparr>" using assms by (simp add: audits_only_def)
  then obtain x y where "d' = d\<lparr>access_audit := x, seq_audit := y\<rparr>" by blast
  then show ?thesis by (simp add: confined_defs get_entry_def get_folder_def)
qed

lemma confined_folders_grow [confined_intros]:
  assumes "folders_grow d d'"
  shows "confined I d d'"
proof -
  from assms have kept: "\<forall>j g. get_folder d j = Some g \<longrightarrow> get_folder d' j = Some g"
    and "d' = d\<lparr>folders := folders d', seq_folders := seq_folders d'\<rparr>"
    by (simp_all add: folders_grow_def)
  then obtain x y where "d' = d\<lparr>folders := x, seq_folders := y\<rparr>" by blast
  with kept show ?thesis by (simp add: confined_defs get_entry_def)
qed

lemma filter_upsert:
  assumes "\<And>x. key x = key r \<Longrightarrow> \<not> Q x"
  shows "filter Q (upsert key r rows) = filter Q rows"
proof -
  have "filter Q (set_row key r rows) = filter Q rows"
    using assms by (induction rows) (auto simp: set_row_def)
  with assms [of r] show ?thesis by (simp add: upsert_def)
qed

lemma filter_del_row: "(\<And>x. key x = k \<Longrightarrow> \<not> Q x) \<Longrightarrow> filter Q (del_row key k rows) = filter Q rows"
  by (auto simp: del_row_def intro: filter_cong)

lemma confined_put_share [confined_intros]:
  assumes "confined I d d'" and "ea_entry_id r \<in> I \<or> get_entry d (ea_entry_id r) = None"
  shows "confined I d (put_entry_access r d')"
proof -
  have "shares_of (put_entry_access r d') i = shares_of d' i" if "i \<noteq> ea_entry_id r" for i
    using that by (auto simp: shares_of_def put_entry_access_def intro!: filter_upsert)
  moreover have "get_entry (put_entry_access r d') = get_entry d'" "get_folder (put_entry_access r d') = get_folder d'"
    "entry_attachments (put_entry_access r d') = entry_attachments d'" "same_tables d' (put_entry_access r d')"
    by (simp_all add: get_entry_def get_folder_def put_entry_access_def entry_attachments_def same_tables_def fun_eq_iff)
  moreover have "i \<noteq> ea_entry_id r" if "i \<notin> I" "get_entry d i \<noteq> None" for i using that assms(2) by auto
  ultimately show ?thesis using assms(1)
    by (auto simp: confined_def same_tables_def same_entry_def)
qed

lemma confined_delete_share [confined_intros]:
  assumes "confined I d d'" and "fst k \<in> I"
  shows "confined I d (delete_entry_access k d')"
proof -
  have "shares_of (delete_entry_access k d') i = shares_of d' i" if "i \<notin> I" for i
    using that assms(2) by (auto simp: shares_of_def delete_entry_access_def intro!: filter_del_row)
  moreover have "get_entry (delete_entry_access k d') = get_entry d'" "get_folder (delete_entry_access k d') = get_folder d'"
    "entry_attachments (delete_entry_access k d') = entry_attachments d'" "same_tables d' (delete_entry_access k d')"
    by (simp_all add: get_entry_def get_folder_def delete_entry_access_def entry_attachments_def same_tables_def fun_eq_iff)
  ultimately show ?thesis using assms(1)
    by (auto simp: confined_def same_tables_def same_entry_def)
qed

lemma confined_insert_attachment [confined_intros]:
  assumes "insert_attachment a d = Inr (i, d')" and "at_entry_id a \<in> I"
  shows "confined I d d'"
  using assms
  by (auto simp: insert_attachment_def Let_def result_simps confined_defs get_entry_def get_folder_def)

lemma confined_delete_attachment [confined_intros]:
  assumes "get_entry_attachment d j i = Inr a" and "j \<in> I" and "keys_ok d"
  shows "confined I d (delete_attachment_row (at_id a) d)"
proof -
  have a: "a \<in> set (attachments d)" "at_entry_id a = j"
    using assms(1) by (auto simp: get_entry_attachment_def entry_attachments_def result_simps dest!: row_of_Some)
  have "filter (\<lambda>x. at_entry_id x = k) (del_row at_id (at_id a) (attachments d)) = filter (\<lambda>x. at_entry_id x = k) (attachments d)"
    if "k \<notin> I" for k
    using that a assms(2,3) by (auto simp: del_row_def keys_ok_def distinct_map inj_on_def intro!: filter_cong)
  then have "entry_attachments (delete_attachment_row (at_id a) d) k = entry_attachments d k" if "k \<notin> I" for k
    using that by (simp add: entry_attachments_def delete_attachment_row_def)
  then show ?thesis
    by (auto simp: confined_def same_tables_def same_entry_def shares_of_def delete_attachment_row_def get_entry_def
        get_folder_def)
qed

section \<open>Confined operations\<close>

definition may_write :: "auth_context \<Rightarrow> time \<Rightarrow> db \<Rightarrow> nat \<Rightarrow> bool" where
  "may_write c now d i \<longleftrightarrow> permission c now d i = Inr Owner \<or> permission c now d i = Inr WriteAccess"

text \<open>Each operation is confined to the one entry that it found by name and checked.\<close>

lemma rank_owner: "3 \<le> access_rank (Some p) \<longleftrightarrow> p = Owner"
  by (cases p) simp_all

lemma entry_by_name_write:
  "entry_by_name E c now name key WriteAccess deleted i d = Inr e \<Longrightarrow> may_write c now d (e_id e)"
  "entry_by_name E c now name key Owner deleted i d = Inr e \<Longrightarrow> may_write c now d (e_id e)"
  by (auto simp: entry_by_name_Inr may_write_def rank_write rank_owner)

lemma confined_create:
  assumes "env_ok E" and "length (ed_nonce w) = NONCE_BYTES" and "keys_ok d"
    and "authorized_create E c p key w d = Inr d'"
  shows "confined {} d d'"
proof -
  let ?audit = "\<lambda>folder d. case folder of None \<Rightarrow> d
      | Some i \<Rightarrow> insert_audit (audit_of c (ed_now w) ''folder'' ''entry_added'' i) d"
  let ?share = "\<lambda>e d. if u_role (ctx_user c) = Service \<and> e_folder_id e = None
      then put_entry_access \<lparr>ea_entry_id = e_id e, ea_user_id = user_of c, ea_permission = Write,
             ea_expires_at = None, ea_granted_by = Some (owner_id c)\<rparr> d else d"
  from assms(4) obtain d\<^sub>1 e doc d\<^sub>2 owner where
    create: "create_password E (Some (owner_id c)) p key w d = Inr d\<^sub>1" and
    find: "find_entry E key (pw_name p) False None d\<^sub>1 = Inr (e, doc)" and
    upd: "update_entry (ed_now w) (e\<lparr>e_owner_id := owner\<rparr>) d\<^sub>1 = Inr d\<^sub>2" and
    d': "d' = ?share e (?audit (e_folder_id e) d\<^sub>2)"
    unfolding authorized_create_def Let_def by (auto simp: result_simps)
  obtain folder resolved d\<^sub>0 f where new:
    "payload_folder E key (ed_folder w) (Some (owner_id c)) p d = Inr (folder, resolved, d\<^sub>0)"
    "d\<^sub>1 = d\<^sub>0\<lparr>entries := entries d @ [f], seq_entries := e_id f\<rparr>" "e_id f = Suc (seq_entries d)"
    "open_entry E key f = Inr (document_from resolved [])" "e_deleted f = None" "e_folder_id f = folder"
    "entries_unique (entries d\<^sub>1)" "get_entry d (e_id f) = None" "get_entry d\<^sub>1 = (get_entry d)(e_id f \<mapsto> f)"
    "distinct (map e_id (entries d\<^sub>1))"
    by (rule create_password_Inr [OF assms(1-3) create])
  note ids = keys_ok_folder_ids [OF assms(3)]
  note grow = payload_folder_Inr(1) [OF new(1) ids]
  have "pw_name resolved = pw_name p" using payload_folder_Inr(2) [OF new(1) ids] .
  then have "e = f"
    using active_found_only [OF new(7) find _ new(5,4)] new(2) by (simp add: document_from_def)
  then have fresh: "get_entry d (e_id e) = None" using new(8) by simp
  have step1: "confined {} d d\<^sub>1"
  proof -
    have "same_tables d d\<^sub>1" "attachments d\<^sub>1 = attachments d" "entry_access d\<^sub>1 = entry_access d"
      using confined_folders_grow [OF grow, of "{}"] folders_growD [OF grow]
      by (simp_all add: new(2) confined_def same_tables_def get_folder_def)
    with fresh new(8,9) show ?thesis
      by (auto simp: confined_def same_entry_def shares_of_def entry_attachments_def)
  qed
  have "confined {e_id e} d\<^sub>1 d\<^sub>2" using confined_update_entry [OF upd, of "{e_id e}"] by simp
  then have "confined {e_id e} d d\<^sub>2" using confined_trans confined_mono [OF step1] by blast
  then have "confined {e_id e} d d'"
    unfolding d' by (auto intro!: confined_put_share confined_audit split: option.splits)
  then show ?thesis using fresh by (rule confined_new)
qed

lemma confined_update:
  assumes "env_ok E" and "length (ed_nonce w) = NONCE_BYTES" and "keys_ok d"
    and "authorized_update E c name p key w d = Inr d'"
  obtains e where "entry_by_name E c (ed_now w) name key WriteAccess False None d = Inr e"
    and "confined {e_id e} d d'"
proof -
  obtain e current folder resolved d\<^sub>0 d\<^sub>1 e' q where upd:
    "find_entry E key name False None d = Inr (e, current)"
    "permission c (ed_now w) d (e_id e) = Inr q" "q = WriteAccess \<or> q = Owner"
    "check_move c (ed_now w) e (moved_payload e current p) d = Inr d\<^sub>0"
    "payload_folder E key (ed_folder w) (Some (owner_id c)) (moved_payload e current p) d\<^sub>0 = Inr (folder, resolved, d\<^sub>1)"
    "get_entry d' = (get_entry d)(e_id e \<mapsto> e')" "d' = d\<^sub>1\<lparr>entries := entries d'\<rparr>"
    by (rule authorized_update_Inr [OF assms]) blast
  have audits: "audits_only d d\<^sub>0" using check_move_Inr(1) [OF upd(4)] .
  have ids: "folder_ids_ok d\<^sub>0" using assms(3) by (simp add: keys_ok_folder_ids audits_onlyD [OF audits])
  have grow: "folders_grow d\<^sub>0 d\<^sub>1" using payload_folder_Inr(1) [OF upd(5) ids] .
  have "get_entry d\<^sub>1 = get_entry d"
    by (simp add: get_entry_def folders_growD [OF grow] audits_onlyD [OF audits] fun_eq_iff)
  with confined_rows [OF upd(7), of "e_id e" "Some e'" "{e_id e}"] upd(6) have "confined {e_id e} d\<^sub>1 d'" by simp
  then have "confined {e_id e} d d'"
    using confined_trans confined_audits_only [OF audits] confined_folders_grow [OF grow] by blast
  moreover have "entry_by_name E c (ed_now w) name key WriteAccess False None d = Inr e"
    using upd(1-3) by (auto simp: entry_by_name_Inr)
  ultimately show thesis using that by blast
qed

lemma confined_favorite:
  assumes "authorized_favorite E c name favorite key w d = Inr d'"
  obtains e where "entry_by_name E c (ed_now w) name key WriteAccess False None d = Inr e"
    and "confined {e_id e} d d'"
proof -
  from assms obtain e doc s where by_name: "entry_by_name E c (ed_now w) name key WriteAccess False None d = Inr e"
    and s: "seal_entry E key (ed_nonce w) e (doc\<lparr>doc_favorite := favorite\<rparr>) = Inr s"
    and upd: "update_entry (ed_now w) s d = Inr d'"
    by (auto simp: authorized_favorite_def set_favorite_def result_simps) (auto simp: entry_by_name_Inr)
  have "e_id s = e_id e" using entry_frame_eqD [OF entry_rows.seal_keeps_frame [OF s]] by simp
  with confined_update_entry [OF upd, of "{e_id e}"] have "confined {e_id e} d d'" by simp
  with by_name that show thesis by blast
qed

lemma confined_delete:
  assumes "authorized_delete E c name key now d = Inr d'"
  obtains e where "entry_by_name E c now name key WriteAccess False None d = Inr e" and "confined {e_id e} d d'"
proof -
  from assms obtain e where by_name: "entry_by_name E c now name key WriteAccess False None d = Inr e"
    and upd: "update_entry now (e\<lparr>e_deleted := Some (Good now)\<rparr>) d = Inr d'"
    by (auto simp: authorized_delete_def delete_password_def entry_by_name_Inr result_simps)
  from confined_update_entry [OF upd, of "{e_id e}"] have "confined {e_id e} d d'" by simp
  with by_name that show thesis by blast
qed

lemma confined_restore:
  assumes "authorized_restore E c name i key now d = Inr d'"
  obtains e where "entry_by_name E c now name key WriteAccess True i d = Inr e" and "confined {e_id e} d d'"
proof -
  from assms obtain e where by_name: "entry_by_name E c now name key WriteAccess True i d = Inr e"
    and upd: "update_entry now (e\<lparr>e_deleted := None\<rparr>) d = Inr d'"
    by (auto simp: authorized_restore_def restore_password_def entry_by_name_Inr result_simps)
  from confined_update_entry [OF upd, of "{e_id e}"] have "confined {e_id e} d d'" by simp
  with by_name that show thesis by blast
qed

lemma confined_purge:
  assumes "authorized_purge E c name i key now d = Inr d'"
  obtains e where "entry_by_name E c now name key Owner True i d = Inr e" and "confined {e_id e} d d'"
proof -
  from assms obtain e where by_name: "entry_by_name E c now name key Owner True i d = Inr e"
    and "d' = delete_entry_row (e_id e) d"
    by (auto simp: authorized_purge_def purge_password_def entry_by_name_Inr result_simps)
  with that confined_delete_entry [of "e_id e" "{e_id e}"] show thesis by blast
qed

lemma confined_add_attachment:
  assumes "authorized_add_attachment num E c name m data key w d = Inr (r, d')"
  obtains e where "entry_by_name E c (td_now w) name key WriteAccess False None d = Inr e" and "confined {e_id e} d d'"
proof -
  from assms obtain e a i where by_name: "entry_by_name E c (td_now w) name key WriteAccess False None d = Inr e"
    and s: "seal_attachment E key (fst (td_nonces w)) (snd (td_nonces w)) (new_attachment w (e_id e)) (e_uid e) m data = Inr a"
    and ins: "insert_attachment a d = Inr (i, d')"
    by (auto simp: authorized_add_attachment_def add_attachment_def entry_by_name_Inr result_simps)
  have "at_entry_id a = e_id e" using s by (auto simp: seal_attachment_def new_attachment_def result_simps Let_def)
  then have "confined {e_id e} d d'" using ins by (intro confined_insert_attachment) simp_all
  with by_name that show thesis by blast
qed

lemma confined_delete_attachment_named:
  assumes "authorized_delete_attachment E c name i key now d = Inr d'" and "keys_ok d"
  obtains e where "entry_by_name E c now name key WriteAccess False None d = Inr e" and "confined {e_id e} d d'"
proof -
  from assms(1) obtain e a where by_name: "entry_by_name E c now name key WriteAccess False None d = Inr e"
    and a: "get_entry_attachment d (e_id e) i = Inr a" and d': "d' = delete_attachment_row (at_id a) d"
    by (auto simp: authorized_delete_attachment_def delete_attachment_def entry_by_name_Inr result_simps)
  from a have "confined {e_id e} d d'" unfolding d' using assms(2) by (intro confined_delete_attachment) auto
  with by_name that show thesis by blast
qed

lemma confined_relinquish:
  assumes "relinquish c i now now' d = Inr (p, d')"
  shows "confined {i} d d'" and "\<exists>q. permission c now d i = Inr q \<and> q \<noteq> Owner"
    and "get_entry d' = get_entry d" and "attachments d' = attachments d"
    and "entry_access d' = del_row ea_key (i, user_of c) (entry_access d)"
proof -
  from assms obtain q old where q: "permission c now d i = Inr q" "q \<noteq> Owner"
      and old: "get_entry_access d (i, user_of c) = Some old"
    by (auto simp: relinquish_def result_simps)
  let ?event = "(audit_of c now ''entry'' ''entry_grant_relinquished'' i)
      \<lparr>au_target_user_id := Some (user_of c), au_previous_permission := Some (ea_permission old),
       au_previous_expires_at := ea_expires_at old\<rparr>"
  have d': "d' = delete_entry_access (i, user_of c) (insert_audit ?event d)"
    using assms q old
    by (cases "permission c now' (delete_entry_access (i, user_of c) (insert_audit ?event d)) i")
      (auto simp: relinquish_def split: if_splits)
  show "confined {i} d d'" unfolding d' by (intro confined_intros) simp
  show "\<exists>q. permission c now d i = Inr q \<and> q \<noteq> Owner" using q by blast
  show "get_entry d' = get_entry d" "attachments d' = attachments d"
    "entry_access d' = del_row ea_key (i, user_of c) (entry_access d)"
    by (simp_all add: d' get_entry_def delete_entry_access_def insert_audit_def fun_eq_iff)
qed

end
