(* ===== verification/Mcp_Server.thy ===== *)
theory Mcp_Server
  imports Confinement Authentication Backup
begin

text \<open>
  The MCP server (\<^verbatim>\<open>backend/mcp_server.py\<close>): the check of a service token in front of it and its six
  tools over the entries shared with a service account. The MCP SDK, its bearer middleware and the
  parsing of a tool's arguments are outside; a tool gets the token that the middleware accepted and
  arguments of the declared types. As everywhere, \<open>d\<^sub>0\<close> is the database before the token opens the
  account's key material and \<open>d\<close> the one after it, and a tool reads the clock once.
\<close>

section \<open>ServiceTokenVerifier\<close>

definition MCP_SCOPE :: ustr where "MCP_SCOPE = utext ''vault''"

record access_token =
  tok_token :: ustr
  tok_client_id :: ustr
  tok_subject :: ustr
  tok_scopes :: "ustr list"

definition verify_token :: "env \<Rightarrow> ustr \<Rightarrow> db \<Rightarrow> error + access_token option" where
  "verify_token E token d =
     andThen (token_digest (prims E) token) (\<lambda>hash.
     Inr (map_option (\<lambda>u. \<lparr>tok_token = token,
            tok_client_id = utext ''ciphermoth-service-'' @ decimal (u_id u),
            tok_subject = decimal (u_id u), tok_scopes = [MCP_SCOPE]\<rparr>)
       (find (\<lambda>u. u_service_token_hash u = Some hash \<and> u_role u = Service \<and> u_active u) (users d))))"

definition current_token :: "access_token option \<Rightarrow> error + ustr" where
  "current_token access = andThen (orElse access SessionRequired) (\<lambda>a. Inr (tok_token a))"

section \<open>What a tool answers\<close>

record mcp_index =
  mi_id :: nat
  mi_name :: ustr
  mi_kind :: entry_kind
  mi_username :: "ustr option"
  mi_url :: "ustr option"
  mi_description :: "ustr option"
  mi_tags :: "ustr list"
  mi_folder :: "ustr option"
  mi_folder_id :: "nat option"
  mi_favorite :: bool
  mi_owner :: ustr
  mi_access :: entry_permission
  mi_access_sources :: "folder_access_source list"

definition mcp_index_of :: "listed_entry \<Rightarrow> ustr \<Rightarrow> entry_permission \<Rightarrow> mcp_index" where
  "mcp_index_of entry owner access =
     (let r = le_response entry; doc = pr_document r
      in \<lparr>mi_id = pr_id r, mi_name = doc_name doc, mi_kind = doc_kind doc, mi_username = doc_username doc,
          mi_url = doc_url doc, mi_description = doc_description doc, mi_tags = doc_tags doc,
          mi_folder = pr_folder r, mi_folder_id = pr_folder_id r, mi_favorite = doc_favorite doc,
          mi_owner = owner, mi_access = access, mi_access_sources = ei_sources (le_access entry)\<rparr>)"

text \<open>The whole response with its sources, the owner's name and the access.\<close>

record mcp_detail =
  md_response :: password_response
  md_access_sources :: "folder_access_source list"
  md_owner_username :: ustr
  md_access :: entry_permission

definition mcp_by_id ::
    "text_ops \<Rightarrow> env \<Rightarrow> auth_context \<Rightarrow> time \<Rightarrow> nat \<Rightarrow> entry_permission \<Rightarrow> db \<Rightarrow> error + mcp_detail" where
  "mcp_by_id T E c now entry_id needed d =
     andThen (require c now d entry_id needed) (\<lambda>access.
     andThen (orElse (get_entry d entry_id) SessionRequired) (\<lambda>model.
     andThen (open_entry E (ctx_key c) model) (\<lambda>document.
     andThen (orElse (Option.bind (e_owner_id model) (get_user d)) SessionRequired) (\<lambda>owner.
     andThen (entry_sources E c now d entry_id) (\<lambda>sources.
     Inr \<lparr>md_response = to_response T model document (attachment_count d entry_id),
          md_access_sources = sources, md_owner_username = u_username owner, md_access = access\<rparr>)))))"

section \<open>Changes of an entry\<close>

text \<open>\<^verbatim>\<open>EntryChanges\<close>: an absent key is \<open>None\<close>, a null \<open>Some None\<close>.\<close>

record entry_changes =
  ch_name :: "ustr option"
  ch_kind :: "ustr option"
  ch_username :: "ustr option option"
  ch_value :: "ustr option"
  ch_url :: "ustr option option"
  ch_totp_secret :: "ustr option option"
  ch_description :: "ustr option option"
  ch_tags :: "ustr list option"
  ch_custom_fields :: "stored_field list option"
  ch_folder :: "ustr option option"
  ch_favorite :: "bool option"

definition no_changes :: entry_changes where
  "no_changes = \<lparr>ch_name = None, ch_kind = None, ch_username = None, ch_value = None, ch_url = None,
     ch_totp_secret = None, ch_description = None, ch_tags = None, ch_custom_fields = None, ch_folder = None,
     ch_favorite = None\<rparr>"

definition changed :: "'a option \<Rightarrow> 'a \<Rightarrow> 'a" where
  "changed new old = (case new of None \<Rightarrow> old | Some x \<Rightarrow> x)"

text \<open>
  A custom field that is an object: of the class \<^verbatim>\<open>CustomField\<close> when it comes from the arguments, of
  the class \<^verbatim>\<open>StoredCustomField\<close> when it comes from a response. \<^verbatim>\<open>Password.model_validate\<close> takes an object
  of the class that a field declares as it is and refuses an object of any other class.
\<close>

datatype field_model = CustomField stored_field | StoredCustomField stored_field

fun field_instance :: "field_model \<Rightarrow> error + stored_field" where
  "field_instance (CustomField f) = Inr f"
| "field_instance (StoredCustomField f) = Inl ValueError"

text \<open>\<^verbatim>\<open>{field: getattr(current, field) ...}\<close> and \<^verbatim>\<open>values.update(changes)\<close>, the custom fields apart.\<close>

definition changed_values :: "entry_changes \<Rightarrow> password_response \<Rightarrow> ustr payload" where
  "changed_values ch r =
     (let doc = pr_document r
      in \<lparr>pw_name = changed (ch_name ch) (doc_name doc), pw_kind = changed (ch_kind ch) (kind_text (doc_kind doc)),
          pw_username = changed (ch_username ch) (doc_username doc), pw_value = changed (ch_value ch) (doc_value doc),
          pw_url = changed (ch_url ch) (doc_url doc),
          pw_totp_secret = changed (ch_totp_secret ch) (pr_totp_secret r),
          pw_description = changed (ch_description ch) (doc_description doc),
          pw_tags = changed (ch_tags ch) (doc_tags doc), pw_custom_fields = [],
          pw_folder = changed (ch_folder ch) (pr_folder r), pw_folder_id = pr_folder_id r,
          pw_favorite = changed (ch_favorite ch) (doc_favorite doc)\<rparr>)"

definition changed_fields :: "entry_changes \<Rightarrow> password_response \<Rightarrow> field_model list" where
  "changed_fields ch r = (case ch_custom_fields ch of
      Some fs \<Rightarrow> map CustomField fs
    | None \<Rightarrow> map StoredCustomField (doc_custom_fields (pr_document r)))"

definition model_validate :: "text_ops \<Rightarrow> ustr payload \<Rightarrow> field_model list \<Rightarrow> error + password" where
  "model_validate T raw models =
     andThen (ensure (length models \<le> MAX_CUSTOM_FIELDS) ValueError) (\<lambda>_.
     andThen (map_res field_instance models) (\<lambda>fs.
     andThen (validate_password T raw) (\<lambda>p.
     Inr (p\<lparr>pw_custom_fields := filter (\<lambda>f. sf_label f \<noteq> []) fs\<rparr>))))"

section \<open>The tools\<close>

definition list_entries :: "text_ops \<Rightarrow> env \<Rightarrow> auth_context \<Rightarrow> time \<Rightarrow> db \<Rightarrow> error + mcp_index list" where
  "list_entries T E c now d =
     andThen (authorized_list T E c (ctx_key c) False now d) (\<lambda>entries.
     andThen (access_map E c now False d) (\<lambda>access.
     map_res (\<lambda>entry. andThen (orElse (row_of ei_entry_id (pr_id (le_response entry)) access) ValueError) (\<lambda>a.
       Inr (mcp_index_of entry (ei_owner_username a) (ei_access a)))) entries))"

definition create_entry ::
    "text_ops \<Rightarrow> env \<Rightarrow> auth_context \<Rightarrow> password \<Rightarrow> entry_draw \<Rightarrow> db \<Rightarrow> error + mcp_detail \<times> db" where
  "create_entry T E c entry w d =
     andThen (authorized_create E c entry (ctx_key c) w d) (\<lambda>d'.
     andThen (name_index (prims E) (ctx_key c) (pw_name entry)) (\<lambda>ix.
     andThen (orElse (find (\<lambda>e. e_name_index e = Good ix \<and> e_deleted e = None) (entries d')) ValueError) (\<lambda>model.
     andThen (mcp_by_id T E c (ed_now w) (e_id model) WriteAccess d') (\<lambda>created. Inr (created, d')))))"

definition update_entry_tool ::
    "text_ops \<Rightarrow> env \<Rightarrow> auth_context \<Rightarrow> nat \<Rightarrow> entry_changes \<Rightarrow> entry_draw \<Rightarrow> db \<Rightarrow> error + mcp_detail \<times> db" where
  "update_entry_tool T E c entry_id changes w d =
     andThen (mcp_by_id T E c (ed_now w) entry_id WriteAccess d) (\<lambda>current.
     let r = md_response current
     in andThen (model_validate T (changed_values changes r) (changed_fields changes r)) (\<lambda>new.
        andThen (authorized_update E c (doc_name (pr_document r)) new (ctx_key c) w d) (\<lambda>d'.
        andThen (mcp_by_id T E c (ed_now w) entry_id WriteAccess d') (\<lambda>result. Inr (result, d')))))"

definition delete_entry :: "text_ops \<Rightarrow> env \<Rightarrow> auth_context \<Rightarrow> nat \<Rightarrow> time \<Rightarrow> db \<Rightarrow> error + db" where
  "delete_entry T E c entry_id now d =
     andThen (mcp_by_id T E c now entry_id WriteAccess d) (\<lambda>current.
     authorized_delete E c (doc_name (pr_document (md_response current))) (ctx_key c) now d)"

datatype tool_call = ListEntries | GetEntry nat | CreateEntry password | UpdateEntry nat entry_changes
  | DeleteEntry nat | RelinquishEntry nat

datatype tool_answer = IndexAnswer "mcp_index list" | DetailAnswer mcp_detail | MovedToTrash nat
  | Relinquished nat "entry_permission option"

definition tool_writes :: "tool_call \<Rightarrow> bool" where
  "tool_writes call = (case call of ListEntries \<Rightarrow> False | GetEntry _ \<Rightarrow> False | _ \<Rightarrow> True)"

fun run_tool ::
    "text_ops \<Rightarrow> env \<Rightarrow> auth_context \<Rightarrow> tool_call \<Rightarrow> entry_draw \<Rightarrow> db \<Rightarrow> error + tool_answer \<times> db" where
  "run_tool T E c ListEntries w d =
     andThen (list_entries T E c (ed_now w) d) (\<lambda>xs. Inr (IndexAnswer xs, d))"
| "run_tool T E c (GetEntry i) w d =
     andThen (mcp_by_id T E c (ed_now w) i ReadAccess d) (\<lambda>x. Inr (DetailAnswer x, d))"
| "run_tool T E c (CreateEntry entry) w d =
     andThen (create_entry T E c entry w d) (\<lambda>(x, d'). Inr (DetailAnswer x, d'))"
| "run_tool T E c (UpdateEntry i changes) w d =
     andThen (update_entry_tool T E c i changes w d) (\<lambda>(x, d'). Inr (DetailAnswer x, d'))"
| "run_tool T E c (DeleteEntry i) w d =
     andThen (delete_entry T E c i (ed_now w) d) (\<lambda>d'. Inr (MovedToTrash i, d'))"
| "run_tool T E c (RelinquishEntry i) w d =
     andThen (relinquish c i (ed_now w) (ed_now w) d) (\<lambda>(remaining, d'). Inr (Relinquished i remaining, d'))"

text \<open>A tool call: the check of its arguments, its transaction, the service account behind the token.\<close>

definition call_tool ::
    "text_ops \<Rightarrow> env \<Rightarrow> (int \<Rightarrow> nat) \<Rightarrow> access_token option \<Rightarrow> tool_call \<Rightarrow> entry_draw \<Rightarrow> db \<Rightarrow> db \<Rightarrow> vault_sessions \<Rightarrow>
       (error + tool_answer) \<times> db \<times> vault_sessions" where
  "call_tool T E len access call w d\<^sub>0 d vs =
     (if (\<exists>i. call = UpdateEntry i no_changes) then (Inl ValueError, d, vs)
      else transaction len (tool_writes call) d (plain vs
        (andThen (current_token access) (\<lambda>token.
         andThen (resolve_service_token E token d\<^sub>0 d) (\<lambda>c. run_tool T E c call w d)))))"

section \<open>Lemmas\<close>

lemma mcp_by_id_Inr:
  "mcp_by_id T E c now i needed d = Inr r \<Longrightarrow> \<exists>e doc owner. permission c now d i = Inr (md_access r)
     \<and> access_rank (Some needed) \<le> access_rank (Some (md_access r)) \<and> get_entry d i = Some e
     \<and> open_entry E (ctx_key c) e = Inr doc \<and> e_owner_id e = Some (u_id owner) \<and> owner \<in> set (users d)
     \<and> md_owner_username r = u_username owner \<and> md_response r = to_response T e doc (attachment_count d i)"
  by (auto simp: mcp_by_id_def require_Inr get_user_def result_simps split: Option.bind_splits dest!: row_of_Some) blast

lemma mcp_by_id_write:
  "mcp_by_id T E c now i WriteAccess d = Inr r \<Longrightarrow> may_write c now d i"
  by (auto dest!: mcp_by_id_Inr simp: may_write_def rank_write)

lemma response_document [simp]: "pr_document (to_response T e doc n) = doc"
  by (simp add: to_response_def)

text \<open>The name of an active entry finds that entry again.\<close>

lemma found_by_own_name:
  assumes "entries_unique (entries d)" and "get_entry d i = Some e" and "e_deleted e = None"
    and "open_entry E key e = Inr doc"
    and "entry_by_name E c now (doc_name doc) key needed False None d = Inr f"
  shows "f = e"
proof -
  have e: "e \<in> set (entries d)" using assms(2) by (auto simp: get_entry_def dest: row_of_Some)
  from assms(5) obtain doc' where "find_entry E key (doc_name doc) False None d = Inr (f, doc')"
    by (auto simp: entry_by_name_Inr)
  from active_found_only [OF assms(1) this e assms(3,4)] show ?thesis by simp
qed

lemma get_entry_id: "get_entry d i = Some e \<Longrightarrow> e_id e = i"
  by (auto simp: get_entry_def dest: row_of_Some)

text \<open>An update or a deletion by id goes through the name of the entry.\<close>

lemma update_tool_Inr:
  assumes "env_ok E" and "length (ed_nonce w) = NONCE_BYTES" and "keys_ok d"
    and "update_entry_tool T E c i ch w d = Inr (r, d')"
  obtains e doc new f where "may_write c (ed_now w) d i" "get_entry d i = Some e" "open_entry E (ctx_key c) e = Inr doc"
    "model_validate T (changed_values ch (to_response T e doc (attachment_count d i)))
       (changed_fields ch (to_response T e doc (attachment_count d i))) = Inr new"
    "authorized_update E c (doc_name doc) new (ctx_key c) w d = Inr d'"
    "entry_by_name E c (ed_now w) (doc_name doc) (ctx_key c) WriteAccess False None d = Inr f"
    "confined {e_id f} d d'" "mcp_by_id T E c (ed_now w) i WriteAccess d' = Inr r"
proof -
  from assms(4) obtain current new where current: "mcp_by_id T E c (ed_now w) i WriteAccess d = Inr current"
    and new: "model_validate T (changed_values ch (md_response current)) (changed_fields ch (md_response current)) = Inr new"
    and run: "authorized_update E c (doc_name (pr_document (md_response current))) new (ctx_key c) w d = Inr d'"
    and r: "mcp_by_id T E c (ed_now w) i WriteAccess d' = Inr r"
    by (auto simp: update_entry_tool_def Let_def result_simps)
  from mcp_by_id_Inr [OF current] obtain e doc where e: "get_entry d i = Some e" "open_entry E (ctx_key c) e = Inr doc"
      "md_response current = to_response T e doc (attachment_count d i)" by blast
  have run': "authorized_update E c (doc_name doc) new (ctx_key c) w d = Inr d'" using run by (simp add: e(3))
  obtain f where "entry_by_name E c (ed_now w) (doc_name doc) (ctx_key c) WriteAccess False None d = Inr f" "confined {e_id f} d d'"
    by (rule confined_update [OF assms(1-3) run'])
  with that mcp_by_id_write [OF current] e new run' r show thesis by simp
qed

lemma delete_tool_Inr:
  assumes "delete_entry T E c i now d = Inr d'"
  obtains e doc f where "may_write c now d i" "get_entry d i = Some e" "open_entry E (ctx_key c) e = Inr doc"
    "authorized_delete E c (doc_name doc) (ctx_key c) now d = Inr d'"
    "entry_by_name E c now (doc_name doc) (ctx_key c) WriteAccess False None d = Inr f" "confined {e_id f} d d'"
proof -
  from assms obtain current where current: "mcp_by_id T E c now i WriteAccess d = Inr current"
    and run: "authorized_delete E c (doc_name (pr_document (md_response current))) (ctx_key c) now d = Inr d'"
    by (auto simp: delete_entry_def result_simps)
  from mcp_by_id_Inr [OF current] obtain e doc where e: "get_entry d i = Some e" "open_entry E (ctx_key c) e = Inr doc"
      "md_response current = to_response T e doc (attachment_count d i)" by blast
  have run': "authorized_delete E c (doc_name doc) (ctx_key c) now d = Inr d'" using run by (simp add: e(3))
  obtain f where "entry_by_name E c now (doc_name doc) (ctx_key c) WriteAccess False None d = Inr f" "confined {e_id f} d d'"
    by (rule confined_delete [OF run'])
  with that mcp_by_id_write [OF current] e run' show thesis by blast
qed

lemma create_tool_Inr:
  assumes "env_ok E" and "length (ed_nonce w) = NONCE_BYTES" and "keys_ok d"
    and "create_entry T E c p w d = Inr (r, d')"
  shows "confined {} d d'" and "pw_name p = doc_name (pr_document (md_response r))"
    and "get_entry d (pr_id (md_response r)) = None" and "may_write c (ed_now w) d' (pr_id (md_response r))"
proof -
  from assms(4) obtain ix model where run: "authorized_create E c p (ctx_key c) w d = Inr d'"
    and ix: "name_index (prims E) (ctx_key c) (pw_name p) = Inr ix"
    and model: "find (\<lambda>e. e_name_index e = Good ix \<and> e_deleted e = None) (entries d') = Some model"
    and r: "mcp_by_id T E c (ed_now w) (e_id model) WriteAccess d' = Inr r"
    by (auto simp: create_entry_def result_simps)
  show "confined {} d d'" using confined_create [OF assms(1-3) run] .
  obtain folder resolved d\<^sub>1 e where e:
    "payload_folder E (ctx_key c) (ed_folder w) (Some (owner_id c)) p d = Inr (folder, resolved, d\<^sub>1)"
    "open_entry E (ctx_key c) e = Inr (document_from resolved [])" "e_deleted e = None"
    "entries_unique (entries d')" "get_entry d (e_id e) = None" "get_entry d' = (get_entry d)(e_id e \<mapsto> e)"
    "e \<in> set (entries d')"
    by (rule authorized_create_Inr [OF assms(1-3) run]) blast
  have name: "doc_name (document_from resolved []) = pw_name p"
    using payload_folder_Inr(2) [OF e(1) keys_ok_folder_ids [OF assms(3)]] by (simp add: document_from_def)
  with open_entry_index [OF e(2)] ix have "e_name_index e = Good ix" by simp
  moreover have "model \<in> set (entries d')" "e_deleted model = None" "e_name_index model = Good ix"
    using model by (auto simp: find_Some_iff)
  ultimately have model: "model = e" using active_unique [OF e(4)] e(3,7) by metis
  from mcp_by_id_Inr [OF r] e(2,6) have "md_response r = to_response T e (document_from resolved []) (attachment_count d' (e_id e))"
    by (auto simp: model)
  then show "pw_name p = doc_name (pr_document (md_response r))" "get_entry d (pr_id (md_response r)) = None"
    "may_write c (ed_now w) d' (pr_id (md_response r))"
    using name e(5) mcp_by_id_write [OF r] by (simp_all add: model to_response_def)
qed

lemma list_entries_Inr:
  assumes "keys_ok d" and "list_entries T E c now d = Inr xs"
  shows "set (map (\<lambda>x. (mi_id x, mi_name x, mi_access x)) xs) = {(e_id e, doc_name doc, p) | e doc p. e \<in> set (entries d)
      \<and> e_deleted e = None \<and> permission c now d (e_id e) = Inr p \<and> open_entry E (ctx_key c) e = Inr doc}"
proof -
  from assms(2) obtain rs infos where rs: "authorized_list T E c (ctx_key c) False now d = Inr rs"
    and infos: "access_map E c now False d = Inr infos"
    and xs: "map_res (\<lambda>entry. andThen (orElse (row_of ei_entry_id (pr_id (le_response entry)) infos) ValueError) (\<lambda>a.
       Inr (mcp_index_of entry (ei_owner_username a) (ei_access a)))) rs = Inr xs"
    by (auto simp: list_entries_def result_simps)
  have "map (\<lambda>x. (mi_id x, mi_name x, Inr (mi_access x))) xs
      = map (\<lambda>r. (pr_id (le_response r), doc_name (pr_document (le_response r)), permission c now d (pr_id (le_response r)))) rs"
  proof (rule map_res_map [OF xs])
    fix r x
    assume "andThen (orElse (row_of ei_entry_id (pr_id (le_response r)) infos) ValueError) (\<lambda>a.
       Inr (mcp_index_of r (ei_owner_username a) (ei_access a))) = Inr x"
    then obtain a where a: "row_of ei_entry_id (pr_id (le_response r)) infos = Some a"
      and x: "x = mcp_index_of r (ei_owner_username a) (ei_access a)" by (auto simp: result_simps)
    show "(mi_id x, mi_name x, Inr (mi_access x)) = (pr_id (le_response r), doc_name (pr_document (le_response r)),
        permission c now d (pr_id (le_response r)))"
      using access_map_Inr [OF infos] row_of_Some [OF a] by (force simp: x mcp_index_of_def Let_def)
  qed
  then have same: "set (map (\<lambda>x. (mi_id x, mi_name x, Inr (mi_access x))) xs) = set (map (\<lambda>r. (pr_id (le_response r),
      doc_name (pr_document (le_response r)), permission c now d (pr_id (le_response r)))) rs)" by (rule arg_cong)
  have rows: "(\<lambda>r. (pr_id (le_response r), pr_document (le_response r), ei_access (le_access r))) ` set rs =
      {(e_id e, doc, p) | e doc p. e \<in> set (entries d) \<and> e_deleted e = None
        \<and> permission c now d (e_id e) = Inr p \<and> open_entry E (ctx_key c) e = Inr doc}"
    using authorized_list_Inr(1) [OF assms(1) rs] by simp
  have "(i, n, p) \<in> (\<lambda>x. (mi_id x, mi_name x, mi_access x)) ` set xs \<longleftrightarrow>
      (\<exists>doc q. (i, doc, q) \<in> (\<lambda>r. (pr_id (le_response r), pr_document (le_response r), ei_access (le_access r))) ` set rs
        \<and> n = doc_name doc \<and> permission c now d i = Inr p)" for i n p
  proof -
    have "(i, n, p) \<in> (\<lambda>x. (mi_id x, mi_name x, mi_access x)) ` set xs \<longleftrightarrow>
        (i, n, Inr p) \<in> (\<lambda>x. (mi_id x, mi_name x, Inr (mi_access x) :: error + entry_permission)) ` set xs" by force
    also have "\<dots> \<longleftrightarrow> (i, n, Inr p) \<in> (\<lambda>r. (pr_id (le_response r),
        doc_name (pr_document (le_response r)), permission c now d (pr_id (le_response r)))) ` set rs"
      using same by simp
    finally show ?thesis by force
  qed
  note shown = this
  have "(i, n, p) \<in> set (map (\<lambda>x. (mi_id x, mi_name x, mi_access x)) xs) \<longleftrightarrow>
      (\<exists>e doc. i = e_id e \<and> n = doc_name doc \<and> e \<in> set (entries d) \<and> e_deleted e = None
        \<and> permission c now d (e_id e) = Inr p \<and> open_entry E (ctx_key c) e = Inr doc)" for i n p
    unfolding set_map shown rows by auto
  then show ?thesis by (intro set_eqI) (simp only: split_paired_all mem_Collect_eq prod.inject, auto)
qed

text \<open>What a service token that resolves says about the account behind it.\<close>

lemma service_context:
  assumes "resolve_service_token E token d\<^sub>0 d = Inr c"
  shows "u_role (ctx_user c) = Service" "u_active (ctx_user c)" "get_user d (user_of c) = Some (ctx_user c)"
    and "\<exists>v. vault d = Some v \<and> matches (ctx_key c) (kc_key_check (v_cols v))"
proof -
  from assms obtain u\<^sub>0 u :: user_row and key v m where u: "get_user d (u_id u\<^sub>0) = Some u" "u_active u" "u_role u = Service"
    and v: "vault d = Some v" "validate_vault_material v d = Inr m" "matches key (Good (km_key_check m))"
    and c: "c = \<lparr>ctx_user = u, ctx_key = key, ctx_token = None\<rparr>"
    by (auto simp: resolve_service_token_def result_simps split: option.splits)
  from u(1) have "u_id u = u_id u\<^sub>0" using get_user_id by blast
  with u c show "u_role (ctx_user c) = Service" "u_active (ctx_user c)" "get_user d (user_of c) = Some (ctx_user c)"
    by simp_all
  from v(2) have "kc_key_check (v_cols v) = Good (km_key_check m)"
    by (auto simp: validate_vault_material_def vault_key_material_def result_simps split: if_splits option.splits
        dest: columns_material_check)
  with v c show "\<exists>v. vault d = Some v \<and> matches (ctx_key c) (kc_key_check (v_cols v))" by simp
qed

lemma call_tool_cases:
  assumes "call_tool T E len access call w d\<^sub>0 d vs = (r, d', vs')"
  shows "vs' = vs" and "r = Inl e \<Longrightarrow> d' = d"
    and "r = Inr x \<Longrightarrow> \<exists>a c. access = Some a \<and> resolve_service_token E (tok_token a) d\<^sub>0 d = Inr c
      \<and> run_tool T E c call w d = Inr (x, d')"
proof -
  let ?q = "plain vs (andThen (current_token access) (\<lambda>token.
         andThen (resolve_service_token E token d\<^sub>0 d) (\<lambda>c. run_tool T E c call w d)))"
  show "vs' = vs" "r = Inl e \<Longrightarrow> d' = d"
    using assms transaction_Inl [of len "tool_writes call" d ?q e d' vs']
    by (cases r; auto simp: call_tool_def transaction_Inr split: if_splits dest!: transaction_Inl)+
  show "\<exists>a c. access = Some a \<and> resolve_service_token E (tok_token a) d\<^sub>0 d = Inr c
      \<and> run_tool T E c call w d = Inr (x, d')" if "r = Inr x"
    using assms that
    by (auto simp: call_tool_def transaction_Inr current_token_def result_simps split: if_splits)
qed

section \<open>A vault with a service account\<close>

text \<open>
  The sample accounts and the service account 9 with the token c; entry 4 and, in the trash, entry 5 of
  the same name with another value, both shared with it for writing.
\<close>

definition mcp_docs :: "entry_document list" where
  "mcp_docs = (let doc = sample_doc [110] None; other = doc\<lparr>doc_value := [121]\<rparr>
     in [doc, other, other\<lparr>doc_history := [\<lparr>h_value = [120], h_changed_at = []\<rparr>]\<rparr>,
         doc\<lparr>doc_custom_fields := [\<lparr>sf_label = [80], sf_value = [49], sf_hidden = True\<rparr>]\<rparr>])"

abbreviation mcp_E :: env where "mcp_E \<equiv> sample_env mcp_docs"

abbreviation mcp_row :: "nat \<Rightarrow> time cell option \<Rightarrow> entry_row" where
  "mcp_row i del \<equiv> \<lparr>e_id = i, e_uid = Good [word_of_nat i], e_created = Good 0, e_updated = Good 0, e_deleted = del,
     e_owner_id = Some 7, e_folder_id = None, e_name_index = Good [], e_document = Good [], e_backed_up = False\<rparr>"

definition mcp_entry :: "nat \<Rightarrow> time cell option \<Rightarrow> nat \<Rightarrow> entry_row" where
  "mcp_entry i del n = projr (seal_entry mcp_E sample_key sample_nonce (mcp_row i del) (mcp_docs ! n))"

definition mcp_user :: user_row where
  "mcp_user = (account_user 9 Service 99)\<lparr>u_service_owner_id := Some 7, u_service_token_hash := Some (fit32 [99])\<rparr>"

definition mcp_ctx :: auth_context where
  "mcp_ctx = \<lparr>ctx_user = mcp_user, ctx_key = sample_key, ctx_token = None\<rparr>"

abbreviation mcp_share :: "nat \<Rightarrow> entry_access_row" where
  "mcp_share i \<equiv> \<lparr>ea_entry_id = i, ea_user_id = 9, ea_permission = Write, ea_expires_at = None, ea_granted_by = Some 7\<rparr>"

definition mcp_db :: db where
  "mcp_db = account_db\<lparr>users := [account_user 7 Admin 97, account_user 8 Member 98, mcp_user], seq_users := 9,
     entries := [mcp_entry 4 None 0, mcp_entry 5 (Some (Good 1)) 1], seq_entries := 5,
     entry_access := [mcp_share 4, mcp_share 5]\<rparr>"

definition mcp_token :: access_token where
  "mcp_token = \<lparr>tok_token = [99], tok_client_id = utext ''ciphermoth-service-9'', tok_subject = utext ''9'',
     tok_scopes = [MCP_SCOPE]\<rparr>"

lemma mcp_documents: "n < 4 \<Longrightarrow> doc_name (mcp_docs ! n) = [110] \<and> mcp_docs ! n \<in> set mcp_docs"
proof -
  assume "n < 4"
  then have "n < length mcp_docs" by (simp add: mcp_docs_def Let_def)
  moreover have "list_all (\<lambda>d. doc_name d = [110]) mcp_docs" by (simp add: mcp_docs_def Let_def)
  ultimately show ?thesis by (simp add: list_all_length)
qed

lemma mcp_sealed:
  assumes "n < 4"
  shows "seal_entry mcp_E sample_key sample_nonce (mcp_row i del) (mcp_docs ! n) = Inr (mcp_entry i del n)"
  unfolding mcp_entry_def
proof (rule projr_ok)
  have "\<exists>b. enc_entry mcp_E (mcp_docs ! n) = Inr b \<and> length b \<le> MAX_ENTRY_STORED_BYTES"
    using mcp_documents [OF assms] by (simp add: sample_env_def MAX_ENTRY_STORED_BYTES_def) (simp add: mcp_docs_def Let_def)
  then show "is_ok (seal_entry mcp_E sample_key sample_nonce (mcp_row i del) (mcp_docs ! n))"
    using mcp_documents [OF assms] by (simp add: seal_entry_ok)
qed

lemma mcp_entry_facts:
  assumes "n < 4"
  shows "e_id (mcp_entry i del n) = i" "e_uid (mcp_entry i del n) = Good [word_of_nat i]"
    "e_deleted (mcp_entry i del n) = del" "e_owner_id (mcp_entry i del n) = Some 7" "e_folder_id (mcp_entry i del n) = None"
    "del = None \<or> del = Some (Good t) \<Longrightarrow> open_entry mcp_E sample_key (mcp_entry i del n) = Inr (mcp_docs ! n)"
  using entry_frame_eqD [OF entry_rows.seal_keeps_frame [OF mcp_sealed [OF assms, of i del]]]
    open_entry_seal_entry [OF sample_env_ok length_sample_nonce _ mcp_sealed [OF assms, of i del]]
  by (auto simp: entry_readable_def)

lemma mcp_tables:
  "users mcp_db = [account_user 7 Admin 97, account_user 8 Member 98, mcp_user]" "seq_users mcp_db = 9"
  "entries mcp_db = [mcp_entry 4 None 0, mcp_entry 5 (Some (Good 1)) 1]" "seq_entries mcp_db = 5"
  "entry_access mcp_db = [mcp_share 4, mcp_share 5]" "folders mcp_db = []" "attachments mcp_db = []"
  "folder_user_access mcp_db = []" "folder_group_access mcp_db = []" "group_members mcp_db = []" "groups mcp_db = []"
  "vault mcp_db = vault account_db"
  by (simp_all add: mcp_db_def account_db_def empty_db_def)

lemma mcp_user_facts:
  "u_id mcp_user = 9" "u_role mcp_user = Service" "u_active mcp_user" "u_service_token_hash mcp_user = Some (fit32 [99])"
  "u_service_owner_id mcp_user = Some 7" "user_key_material mcp_user = Inr (sample_material [99])"
  using account_material [of 99 9 Service]
  by (simp_all add: mcp_user_def account_users user_key_material_def)

lemma mcp_rows:
  "get_entry mcp_db 4 = Some (mcp_entry 4 None 0)" "get_entry mcp_db 5 = Some (mcp_entry 5 (Some (Good 1)) 1)"
  by (simp_all add: get_entry_def mcp_tables mcp_entry_facts)

lemma mcp_keys: "keys_ok mcp_db" "entries_unique (entries mcp_db)"
  by (simp_all add: keys_ok_def entries_unique_def active_indexes_def mcp_tables mcp_entry_facts mcp_user_facts account_users)

lemma mcp_resolves: "resolve_service_token mcp_E [99] mcp_db mcp_db = Inr mcp_ctx"
proof -
  obtain v where v: "vault account_db = Some v" "v_owner_user_id v = Some 7"
      "v_cols v = material_columns (sample_material [97])" using account_vault by blast
  have "token_digest (sample_primitives []) [99] = Inr (fit32 [99])"
    by (simp add: token_digest_def sample_primitives_def)
  then show ?thesis
    by (simp add: resolve_service_token_def mcp_tables mcp_user_facts account_users sample_columns v get_user_def
        vault_key_material_def validate_vault_material_def account_material matches_def mcp_ctx_def)
qed

lemma mcp_permission: "i = 4 \<or> i = 5 \<Longrightarrow> permission mcp_ctx t mcp_db i = Inr WriteAccess"
  by (auto simp: permission_def Let_def get_entry_def mcp_tables mcp_entry_facts mcp_ctx_def mcp_user_facts
      direct_entry_permissions_def grant_active_def)

lemma mcp_reads:
  assumes "i = 4 \<and> n = 0 \<or> i = 5 \<and> n = 1"
  obtains r where "mcp_by_id ascii_ops mcp_E mcp_ctx t i WriteAccess mcp_db = Inr r"
    "md_response r = to_response ascii_ops (the (get_entry mcp_db i)) (mcp_docs ! n) 0"
proof -
  have key: "ctx_key mcp_ctx = sample_key" by (simp add: mcp_ctx_def)
  have "is_ok (entry_sources mcp_E mcp_ctx t mcp_db i)"
    using assms by (auto simp: entry_sources_def mcp_rows mcp_entry_facts mcp_ctx_def mcp_user_facts split: option.splits)
  with assms that show thesis
    by (auto simp: mcp_by_id_def require_def mcp_permission mcp_rows mcp_entry_facts get_user_def mcp_tables account_users
        key attachment_count_def is_ok_iff)
qed


lemma mcp_found: "find_entry mcp_E sample_key [110] False None mcp_db = Inr (mcp_entry 4 None 0, mcp_docs ! 0)"
proof -
  have "open_entry mcp_E sample_key (mcp_entry 4 None 0) = Inr (mcp_docs ! 0)" by (simp add: mcp_entry_facts)
  from active_found [OF mcp_keys(2) _ _ this] show ?thesis
    using mcp_documents [of 0] by (simp add: mcp_tables mcp_entry_facts)
qed

lemma mcp_found_by_name:
  "entry_by_name mcp_E mcp_ctx t [110] sample_key WriteAccess False None mcp_db = Inr (mcp_entry 4 None 0)"
  by (simp add: entry_by_name_def mcp_found require_def mcp_permission mcp_entry_facts)

lemma mcp_document_length:
  assumes "n < 4"
  shows "\<exists>s. e_document (mcp_entry i del n) = Good s \<and> length s = 93"
proof -
  from mcp_sealed [OF assms, of i del] obtain b s ix where b: "enc_entry mcp_E (mcp_docs ! n) = Inr b"
    and s: "vk_seal_entry (sample_primitives []) sample_key sample_nonce (Good [word_of_nat i]) b = Inr s"
    and e: "(mcp_row i del)\<lparr>e_name_index := ix, e_document := Good s\<rparr> = mcp_entry i del n"
    by (auto simp: seal_entry_def result_simps)
  from arg_cong [OF e, of e_document] have "e_document (mcp_entry i del n) = Good s" by simp
  moreover have "length b = 1" using b by (auto simp: sample_env_def split: if_splits)
  then have "length s = 93"
    using s by (auto simp: vk_seal_entry_def seal_def padded_def sample_primitives_def sample_tag_def size_defs result_simps)
  ultimately show ?thesis by blast
qed

section \<open>Properties\<close>

text \<open>
  C9: A service token reaches what was shared with it and nothing else. A tool call that fails changes
  nothing; one that succeeds was made for the active service account that its token opens. A listing has exactly the active
  entries that the account may read, with its permission on each; an entry is read only with a
  permission on it; creating adds an entry that the account may write and touches no other; an update or
  a deletion needs write access to the entry that the id names, and changes one entry at most, on which the
  account has write access and which is the named one if that is not in the trash; relinquishing takes
  away the account's own share of an entry that it does not own. Accounts, vault, settings, groups and folder
  grants are never changed.
\<close>

theorem tools_stay_within_grants:
  assumes "env_ok E" and "length (ed_nonce w) = NONCE_BYTES" and "keys_ok d" and "entries_unique (entries d)"
    and "call_tool T E len access call w d\<^sub>0 d vs = (r, d', vs')"
  shows "case r of Inl e \<Rightarrow> d' = d | Inr answer \<Rightarrow> \<exists>token c. map_option tok_token access = Some token
    \<and> resolve_service_token E token d\<^sub>0 d = Inr c \<and> u_role (ctx_user c) = Service \<and> u_active (ctx_user c)
    \<and> get_user d (user_of c) = Some (ctx_user c)
    \<and> (case call of
        ListEntries \<Rightarrow> d' = d \<and> (\<exists>xs. answer = IndexAnswer xs
          \<and> set (map (\<lambda>x. (mi_id x, mi_name x, mi_access x)) xs) = {(e_id e, doc_name doc, p) | e doc p.
              e \<in> set (entries d) \<and> e_deleted e = None \<and> permission c (ed_now w) d (e_id e) = Inr p
              \<and> open_entry E (ctx_key c) e = Inr doc})
      | GetEntry i \<Rightarrow> d' = d \<and> (\<exists>x e doc. answer = DetailAnswer x \<and> permission c (ed_now w) d i = Inr (md_access x)
          \<and> get_entry d i = Some e \<and> open_entry E (ctx_key c) e = Inr doc \<and> pr_document (md_response x) = doc)
      | CreateEntry p \<Rightarrow> confined {} d d' \<and> (\<exists>x. answer = DetailAnswer x \<and> get_entry d (pr_id (md_response x)) = None
          \<and> may_write c (ed_now w) d' (pr_id (md_response x)))
      | UpdateEntry i ch \<Rightarrow> may_write c (ed_now w) d i \<and> (\<exists>f. may_write c (ed_now w) d (e_id f)
          \<and> confined {e_id f} d d' \<and> (\<forall>e. get_entry d i = Some e \<longrightarrow> e_deleted e = None \<longrightarrow> f = e))
      | DeleteEntry i \<Rightarrow> may_write c (ed_now w) d i \<and> (\<exists>f. may_write c (ed_now w) d (e_id f)
          \<and> confined {e_id f} d d' \<and> (\<forall>e. get_entry d i = Some e \<longrightarrow> e_deleted e = None \<longrightarrow> f = e))
      | RelinquishEntry i \<Rightarrow> confined {i} d d' \<and> get_entry d' = get_entry d \<and> attachments d' = attachments d
          \<and> entry_access d' = del_row ea_key (i, user_of c) (entry_access d)
          \<and> permission c (ed_now w) d i \<noteq> Inr Owner)"
proof (cases r)
  case (Inl e)
  with call_tool_cases(2) [OF assms(5)] show ?thesis by simp
next
  case (Inr answer)
  from call_tool_cases(3) [OF assms(5) this] obtain a :: access_token and c where
    a: "access = Some a" and c: "resolve_service_token E (tok_token a) d\<^sub>0 d = Inr c" and run: "run_tool T E c call w d = Inr (answer, d')" by blast
  have token: "map_option tok_token access = Some (tok_token a)" by (simp add: a)
  note who = token c service_context(1-3) [OF c]
  show ?thesis
  proof (cases call)
    case ListEntries
    with run list_entries_Inr [OF assms(3)] who show ?thesis
      by (auto simp: Inr result_simps intro!: exI [of _ "tok_token a"] exI [of _ c])
  next
    case (GetEntry i)
    with run who show ?thesis
      by (auto simp: Inr result_simps intro!: exI [of _ "tok_token a"] exI [of _ c] dest!: mcp_by_id_Inr)
  next
    case (CreateEntry p)
    with run obtain x where x: "answer = DetailAnswer x" "create_entry T E c p w d = Inr (x, d')" by (auto simp: result_simps)
    from create_tool_Inr [OF assms(1-3) x(2)] CreateEntry x(1) who show ?thesis
      by (auto simp: Inr intro!: exI [of _ "tok_token a"] exI [of _ c])
  next
    case (UpdateEntry i ch)
    with run obtain x where x: "update_entry_tool T E c i ch w d = Inr (x, d')" by (auto simp: result_simps)
    obtain e doc new f where f: "may_write c (ed_now w) d i" "get_entry d i = Some e" "open_entry E (ctx_key c) e = Inr doc"
      "entry_by_name E c (ed_now w) (doc_name doc) (ctx_key c) WriteAccess False None d = Inr f" "confined {e_id f} d d'"
      by (rule update_tool_Inr [OF assms(1-3) x]) blast
    from found_by_own_name [OF assms(4) f(2) _ f(3,4)] entry_by_name_write(1) [OF f(4)] f(1,2,5) UpdateEntry who
    show ?thesis
      by (auto simp: Inr intro!: exI [of _ "tok_token a"] exI [of _ c] exI [of _ f])
  next
    case (DeleteEntry i)
    with run have x: "delete_entry T E c i (ed_now w) d = Inr d'" by (auto simp: result_simps)
    obtain e doc f where f: "may_write c (ed_now w) d i" "get_entry d i = Some e" "open_entry E (ctx_key c) e = Inr doc"
      "entry_by_name E c (ed_now w) (doc_name doc) (ctx_key c) WriteAccess False None d = Inr f" "confined {e_id f} d d'"
      by (rule delete_tool_Inr [OF x]) blast
    from found_by_own_name [OF assms(4) f(2) _ f(3,4)] entry_by_name_write(1) [OF f(4)] f(1,2,5) DeleteEntry who
    show ?thesis
      by (auto simp: Inr intro!: exI [of _ "tok_token a"] exI [of _ c] exI [of _ f])
  next
    case (RelinquishEntry i)
    with run obtain p where "relinquish c i (ed_now w) (ed_now w) d = Inr (p, d')" by (auto simp: result_simps)
    from confined_relinquish [OF this] RelinquishEntry who show ?thesis
      by (auto simp: Inr intro!: exI [of _ "tok_token a"] exI [of _ c])
  qed
qed

theorem tools_stay_within_grants_witness:
  "\<exists>d'. call_tool ascii_ops mcp_E (\<lambda>_. 0) (Some mcp_token) (DeleteEntry 4) sample_entry_draw mcp_db mcp_db empty_store
       = (Inr (MovedToTrash 4), d', empty_store)
     \<and> get_entry d' 5 = get_entry mcp_db 5 \<and> users d' = users mcp_db"
proof -
  let ?e = "mcp_entry 4 None 0" and ?gone = "\<lambda>e. e\<lparr>e_deleted := Some (Good 50), e_updated := Good 50\<rparr>"
  obtain r where r: "mcp_by_id ascii_ops mcp_E mcp_ctx 50 4 WriteAccess mcp_db = Inr r"
    "md_response r = to_response ascii_ops (the (get_entry mcp_db 4)) (mcp_docs ! 0) 0"
    by (rule mcp_reads [of 4 0]) auto
  let ?d = "mcp_db\<lparr>entries := [?gone ?e, mcp_entry 5 (Some (Good 1)) 1]\<rparr>"
  have "?e\<lparr>e_deleted := Some (Good 50)\<rparr> \<notin> set (entries mcp_db)"
    by (auto simp: mcp_tables dest!: arg_cong [of _ _ "\<lambda>e. (e_id e, e_deleted e)"]) (simp_all add: mcp_entry_facts)
  then have "update_entry 50 (?e\<lparr>e_deleted := Some (Good 50)\<rparr>) mcp_db = Inr ?d"
    using mcp_keys(2) by (simp add: update_entry_def mcp_tables set_row_def mcp_entry_facts entries_unique_def active_indexes_def)
  then have run: "run_tool ascii_ops mcp_E mcp_ctx (DeleteEntry 4) sample_entry_draw mcp_db = Inr (MovedToTrash 4, ?d)"
    using r mcp_documents [of 0]
    by (simp add: delete_entry_def authorized_delete_def delete_password_def mcp_ctx_def [THEN arg_cong [of _ _ ctx_key]]
        mcp_found_by_name mcp_found sample_entry_draw_def)
  obtain s s' where "e_document ?e = Good s" "length s = 93" "e_document (mcp_entry 5 (Some (Good 1)) 1) = Good s'" "length s' = 93"
    using mcp_document_length [of 0 4 None] mcp_document_length [of 1 5 "Some (Good 1)"] by auto
  then have "enforce_backup_capacity (\<lambda>_. 0) ?d = Inr ()"
    by (simp add: enforce_backup_capacity_def estimated_backup_def mcp_tables MAX_FRAMES_def
        MAX_BACKUP_BYTES_def BACKUP_FIXED_OVERHEAD_def ENTRY_BACKUP_OVERHEAD_def)
  then have call: "call_tool ascii_ops mcp_E (\<lambda>_. 0) (Some mcp_token) (DeleteEntry 4) sample_entry_draw mcp_db mcp_db empty_store
       = (Inr (MovedToTrash 4), ?d, empty_store)"
    using run by (simp add: call_tool_def transaction_Inr current_token_def mcp_token_def mcp_resolves)
  obtain f where "confined {e_id f} mcp_db ?d" "f = ?e"
    using tools_stay_within_grants [OF sample_env_ok sample_nonce_drawn mcp_keys call]
    by (auto simp: mcp_rows mcp_entry_facts)
  with confinedD(1,6) [of "{e_id f}" mcp_db ?d] call show ?thesis
    by (auto simp: mcp_rows mcp_entry_facts)
qed

text \<open>
  C10: An id in the trash reaches the wrong entry. An update of an entry in the trash through the MCP server,
  if it succeeds, leaves that entry as it was and answers with its unchanged contents, and writes its contents,
  with the changes, into another entry: the active one of the same name.
\<close>

theorem trashed_id_updates_namesake:
  assumes "env_ok E" and "length (ed_nonce w) = NONCE_BYTES" and "keys_ok d" and "entries_unique (entries d)"
    and "update_entry_tool T E c i changes w d = Inr (r, d')" and "get_entry d i = Some e" and "e_deleted e \<noteq> None"
  shows "\<exists>doc f f' doc' new. open_entry E (ctx_key c) e = Inr doc
    \<and> get_entry d' i = Some e \<and> pr_document (md_response r) = doc
    \<and> get_entry d (e_id f) = Some f \<and> e_id f \<noteq> i \<and> e_deleted f = None
    \<and> (\<exists>current. open_entry E (ctx_key c) f = Inr current \<and> doc_name current = doc_name doc)
    \<and> model_validate T (changed_values changes (to_response T e doc (attachment_count d i)))
        (changed_fields changes (to_response T e doc (attachment_count d i))) = Inr new
    \<and> get_entry d' (e_id f) = Some f' \<and> open_entry E (ctx_key c) f' = Inr doc'
    \<and> doc_value doc' = pw_value new \<and> doc_name doc' = pw_name new \<and> doc_username doc' = pw_username new"
proof -
  obtain e' doc new f where u: "get_entry d i = Some e'" "open_entry E (ctx_key c) e' = Inr doc"
    "model_validate T (changed_values changes (to_response T e' doc (attachment_count d i)))
       (changed_fields changes (to_response T e' doc (attachment_count d i))) = Inr new"
    "authorized_update E c (doc_name doc) new (ctx_key c) w d = Inr d'"
    "entry_by_name E c (ed_now w) (doc_name doc) (ctx_key c) WriteAccess False None d = Inr f"
    "confined {e_id f} d d'" "mcp_by_id T E c (ed_now w) i WriteAccess d' = Inr r"
    by (rule update_tool_Inr [OF assms(1-3,5)]) blast
  have e': "e' = e" using u(1) assms(6) by simp
  obtain current where found: "find_entry E (ctx_key c) (doc_name doc) False None d = Inr (f, current)"
    using u(5) by (auto simp: entry_by_name_Inr)
  note f = find_entry_get [OF found assms(3)] find_entry_row(2) [OF found]
  have other: "e_id f \<noteq> i" using f(1,4) assms(6,7) by auto
  then have kept: "get_entry d' i = Some e" using confinedD(6) [OF u(6), of i] assms(6) by simp
  with mcp_by_id_Inr [OF u(7)] u(2) have shown: "pr_document (md_response r) = doc" by (auto simp: e')
  obtain g cur folder resolved d\<^sub>0 d\<^sub>1 f' q where upd: "find_entry E (ctx_key c) (doc_name doc) False None d = Inr (g, cur)"
    "payload_folder E (ctx_key c) (ed_folder w) (Some (owner_id c)) (moved_payload g cur new) d\<^sub>0 = Inr (folder, resolved, d\<^sub>1)"
    "get_entry d' = (get_entry d)(e_id g \<mapsto> f')"
    "open_entry E (ctx_key c) f' = Inr (document_from resolved (next_history cur new (ed_time_text w)))"
    by (rule authorized_update_Inr [OF assms(1-3) u(4)]) blast
  have g: "g = f" using upd(1) found by simp
  note written = payload_folder_document [OF upd(2), of "next_history cur new (ed_time_text w)"]
  have "doc_value (document_from resolved h) = pw_value new \<and> doc_name (document_from resolved h) = pw_name new
      \<and> doc_username (document_from resolved h) = pw_username new" for h
    using payload_folder_document [OF upd(2), of h]
    by (metis document_from_def entry_document.select_convs(1,3,4) entry_document.update_convs(10) moved_payload_fields(3))
  with u(2,3) kept shown f other upd(3,4) g e' show ?thesis by fastforce
qed

theorem trashed_id_updates_namesake_witness:
  "\<exists>r d' f' doc'. update_entry_tool ascii_ops mcp_E mcp_ctx 5 (no_changes\<lparr>ch_favorite := Some False\<rparr>) sample_entry_draw mcp_db
       = Inr (r, d')
     \<and> get_entry d' 5 = get_entry mcp_db 5 \<and> get_entry d' 4 = Some f' \<and> open_entry mcp_E sample_key f' = Inr doc'
     \<and> doc_value doc' = [121]"
proof -
  let ?ch = "no_changes\<lparr>ch_favorite := Some False\<rparr>" and ?new = "(sample_password None)\<lparr>pw_value := [121]\<rparr>"
  let ?e = "mcp_entry 4 None 0" and ?t = "mcp_entry 5 (Some (Good 1)) 1"
  have docs: "mcp_docs ! 0 = sample_doc [110] None" "mcp_docs ! Suc 0 = (sample_doc [110] None)\<lparr>doc_value := [121]\<rparr>"
    "mcp_docs ! 2 = (sample_doc [110] None)\<lparr>doc_value := [121], doc_history := [\<lparr>h_value = [120], h_changed_at = []\<rparr>]\<rparr>"
    by (simp_all add: mcp_docs_def Let_def numeral_2_eq_2)
  have key: "ctx_key mcp_ctx = sample_key" "owner_id mcp_ctx = 7"
    by (simp_all add: mcp_ctx_def owner_id_def mcp_user_facts)
  obtain r where r: "mcp_by_id ascii_ops mcp_E mcp_ctx 50 5 WriteAccess mcp_db = Inr r"
    "md_response r = to_response ascii_ops ?t (mcp_docs ! 1) 0"
    using mcp_reads [of 5 1 50] by (auto simp: mcp_rows)
  have "validate_password ascii_ops \<lparr>pw_name = [110], pw_kind = kind_text Login, pw_username = None, pw_value = [121],
      pw_url = None, pw_totp_secret = None, pw_description = None, pw_tags = [], pw_custom_fields = [], pw_folder = None,
      pw_folder_id = None, pw_favorite = False\<rparr> = Inr ?new"
    by code_simp
  then have new: "model_validate ascii_ops (changed_values ?ch (md_response r)) (changed_fields ?ch (md_response r)) = Inr ?new"
    by (simp add: r(2) docs changed_values_def changed_fields_def model_validate_def changed_def no_changes_def to_response_def
        sample_doc_def mcp_entry_facts normalize_totp_secret_leniently_def normalize_totp_secret_def clean_folder_def
        sample_password_def Let_def)
  have doc: "document_from ?new (next_history (mcp_docs ! 0) ?new []) = mcp_docs ! 2"
    by (simp add: docs document_from_def next_history_def sample_password_def sample_doc_def clean_folder_def HISTORY_LIMIT_def)
  have same: "?e\<lparr>e_folder_id := None\<rparr> = ?e" using mcp_entry_facts(5) [of 0 4 None] by (cases ?e) simp
  have "is_ok (seal_entry mcp_E sample_key sample_nonce ?e (mcp_docs ! 2))"
    using mcp_sealed [of 2 4 None] mcp_entry_facts(2) [of 0 4 None] by (auto simp: seal_entry_def is_ok_iff result_simps)
  then obtain s where s: "seal_entry mcp_E sample_key sample_nonce ?e (mcp_docs ! 2) = Inr s" by (auto simp: is_ok_iff)
  note frame = entry_frame_eqD [OF entry_rows.seal_keeps_frame [OF s]]
  have folder: "payload_folder mcp_E sample_key ([8], sample_nonce) (Some 7) ?new mcp_db = Inr (None, ?new, mcp_db)"
    by (simp add: payload_folder_def folder_named_def sample_password_def clean_folder_def)
  have "is_ok (update_entry 50 (s\<lparr>e_backed_up := False\<rparr>) mcp_db)"
    by (simp add: update_entry_def mcp_tables set_row_def mcp_entry_facts frame entries_unique_def active_indexes_def Let_def)
  then obtain d' where upd: "update_entry 50 (s\<lparr>e_backed_up := False\<rparr>) mcp_db = Inr d'" by (auto simp: is_ok_iff)
  have "update_password mcp_E (Some 7) [110] ?new sample_key sample_entry_draw mcp_db = Inr d'"
    using s upd folder doc same
    by (simp add: update_password_def mcp_found docs sample_entry_draw_def flush_or_conflict_def)
  then have run: "authorized_update mcp_E mcp_ctx [110] ?new sample_key sample_entry_draw mcp_db = Inr d'"
    by (simp add: authorized_update_def sample_entry_draw_def mcp_found_by_name mcp_entry_facts moved_payload_def
        check_move_def key)
  have row: "get_entry d' 5 = Some ?t"
    using confinedD(6) [OF confined_update_entry [OF upd, of "{4}"], of 5 ?t] by (simp add: frame mcp_entry_facts mcp_rows)
  obtain es where d': "d' = mcp_db\<lparr>entries := es\<rparr>"
    using upd by (auto simp: update_entry_def Let_def result_simps split: if_splits intro: that [of "entries mcp_db"])
  have people: "users d' = [account_user 7 Admin 97, account_user 8 Member 98, mcp_user]" by (simp add: d' mcp_tables)
  have may: "permission mcp_ctx 50 d' 5 = Inr WriteAccess"
    using permission_same_place [of d' mcp_db 5 ?t ?t mcp_ctx 50] row by (simp add: d' mcp_rows mcp_permission)
  have "is_ok (entry_sources mcp_E mcp_ctx 50 d' 5)"
    by (simp add: entry_sources_def row mcp_entry_facts key mcp_ctx_def mcp_user_facts split: option.splits)
  then obtain r' where "mcp_by_id ascii_ops mcp_E mcp_ctx 50 5 WriteAccess d' = Inr r'"
    by (auto simp: mcp_by_id_def require_def may row mcp_entry_facts get_user_def people account_users key is_ok_iff)
  with r new run have call: "update_entry_tool ascii_ops mcp_E mcp_ctx 5 ?ch sample_entry_draw mcp_db = Inr (r', d')"
    by (simp add: update_entry_tool_def sample_entry_draw_def docs key Let_def)
  obtain doc f f' doc' p where out: "open_entry mcp_E (ctx_key mcp_ctx) ?t = Inr doc"
    "get_entry mcp_db (e_id f) = Some f" "e_id f \<noteq> 5"
    "model_validate ascii_ops (changed_values ?ch (to_response ascii_ops ?t doc (attachment_count mcp_db 5)))
        (changed_fields ?ch (to_response ascii_ops ?t doc (attachment_count mcp_db 5))) = Inr p"
    "get_entry d' (e_id f) = Some f'" "open_entry mcp_E (ctx_key mcp_ctx) f' = Inr doc'" "doc_value doc' = pw_value p"
    using trashed_id_updates_namesake [OF sample_env_ok sample_nonce_drawn mcp_keys call mcp_rows(2)]
    by (auto simp: mcp_entry_facts)
  have "e_id f = 4" using out(2,3) by (auto simp: get_entry_def mcp_tables mcp_entry_facts split: if_splits)
  moreover have "p = ?new"
    using out(1,4) new r(2) by (simp add: key mcp_entry_facts attachment_count_def mcp_tables)
  ultimately show ?thesis using call out(5-7) row by (auto simp: key mcp_rows)
qed

text \<open>
  An entry with custom fields cannot be updated in part. An update through the MCP server that does not give
  the custom fields anew is refused for every entry that has some, whatever it changes.
\<close>

theorem stored_fields_block_update:
  assumes "get_entry d i = Some e" and "open_entry E (ctx_key c) e = Inr doc" and "doc_custom_fields doc \<noteq> []"
    and "ch_custom_fields changes = None"
  shows "\<not> is_ok (update_entry_tool T E c i changes w d)"
proof -
  have "\<not> is_ok (map_res field_instance (map StoredCustomField fs))" if "fs \<noteq> []" for fs
    using that by (cases fs) (simp_all add: is_ok_iff result_simps)
  with assms(3,4) have "\<not> is_ok (model_validate T (changed_values changes (to_response T e doc n))
      (changed_fields changes (to_response T e doc n)))" for n
    by (auto simp: model_validate_def changed_fields_def is_ok_iff result_simps)
  with assms(1,2) show ?thesis
    by (fastforce simp: update_entry_tool_def is_ok_iff result_simps Let_def dest!: mcp_by_id_Inr)
qed

theorem stored_fields_block_update_witness:
  "\<not> is_ok (update_entry_tool ascii_ops mcp_E mcp_ctx 4 (no_changes\<lparr>ch_value := Some [122]\<rparr>) sample_entry_draw
     (mcp_db\<lparr>entries := [mcp_entry 4 None 3]\<rparr>))"
proof -
  have "doc_custom_fields (mcp_docs ! 3) \<noteq> []" by (simp add: mcp_docs_def Let_def)
  then show ?thesis
    by (intro stored_fields_block_update [of _ _ "mcp_entry 4 None 3" _ _ "mcp_docs ! 3"])
      (simp_all add: get_entry_def mcp_entry_facts mcp_ctx_def no_changes_def)
qed

end
